(* ===== verification/Prelude.thy ===== *)
theory Prelude
  imports Main "HOL-Library.AList" "HOL-Library.Char_ord" "HOL-Library.List_Lexorder"
    "HOL-Library.Product_Lexorder" "HOL-Library.Multiset"
begin

text \<open>
  What every component of the development shares: how Go data is represented
  (byte strings, 64-bit integers with wrap-around, instants and durations, hash
  maps as association lists), the string routines of Go's standard library that
  the sources call (\<open>utf8.ValidString\<close>, \<open>strings.TrimSpace\<close>, \<open>strings.Split\<close>,
  \<open>strings.Join\<close>, decimal formatting), and the lemma collections the component
  proofs draw on.
\<close>

named_theorems go_int_simps \<comment> \<open>wrap-around arithmetic that stays in range\<close>
named_theorems alist_simps \<comment> \<open>reads after writes of the association lists that model Go maps\<close>
named_theorems store_defs \<comment> \<open>operations of the in-memory store, unfolded when one is analysed\<close>

section \<open>Integers\<close>

text \<open>
  A Go \<open>int\<close> or \<open>int64\<close> is an \<^typ>\<open>int\<close>; where an operation could leave the
  64-bit range, the model applies \<open>i64\<close> to its exact result, which is the
  two's-complement wrap-around. Go's division truncates towards zero.
\<close>

definition i64 :: "int \<Rightarrow> int" where
  "i64 x = (x + 2 ^ 63) mod 2 ^ 64 - 2 ^ 63"

definition MaxInt64 :: int where
  "MaxInt64 = 2 ^ 63 - 1"

definition is_i64 :: "int \<Rightarrow> bool" where
  "is_i64 x \<longleftrightarrow> - (2 ^ 63) \<le> x \<and> x < 2 ^ 63"

definition go_quot :: "int \<Rightarrow> int \<Rightarrow> int" where
  "go_quot a b = sgn a * sgn b * (\<bar>a\<bar> div \<bar>b\<bar>)"

definition go_rem :: "int \<Rightarrow> int \<Rightarrow> int" where
  "go_rem a b = a - b * go_quot a b"

lemma i64_id [go_int_simps]: "- (2 ^ 63) \<le> x \<Longrightarrow> x < 2 ^ 63 \<Longrightarrow> i64 x = x"
  by (simp add: i64_def)

lemma i64_id' [go_int_simps]: "is_i64 x \<Longrightarrow> i64 x = x"
  by (simp add: is_i64_def i64_id)

lemma is_i64_i64: "is_i64 (i64 x)"
proof -
  have "0 \<le> (x + 2 ^ 63) mod (2 ^ 64)" and "(x + 2 ^ 63) mod (2 ^ 64) < (2 ^ 64 :: int)"
    by simp_all
  then show ?thesis by (simp add: is_i64_def i64_def)
qed

lemma go_quot_nonneg [go_int_simps]: "0 \<le> a \<Longrightarrow> 0 < b \<Longrightarrow> go_quot a b = a div b"
  by (cases "a = 0") (simp_all add: go_quot_def)

lemma go_rem_nonneg [go_int_simps]: "0 \<le> a \<Longrightarrow> 0 < b \<Longrightarrow> go_rem a b = a mod b"
  by (simp add: go_rem_def go_quot_nonneg minus_mult_div_eq_mod)

lemma go_rem_dvd: "0 < b \<Longrightarrow> go_rem a b = 0 \<longleftrightarrow> b dvd a"
proof
  assume b: "0 < b" and r: "go_rem a b = 0"
  then have "a = b * go_quot a b" by (simp add: go_rem_def)
  then show "b dvd a" by (metis dvd_triv_left)
next
  assume b: "0 < b" and d: "b dvd a"
  then have "\<bar>a\<bar> = b * (\<bar>a\<bar> div b)" by simp
  then have "a = b * (sgn a * (\<bar>a\<bar> div b))"
    by (metis mult.left_commute mult_sgn_abs)
  with b show "go_rem a b = 0" by (simp add: go_rem_def go_quot_def)
qed

section \<open>Instants and durations\<close>

text \<open>
  A \<open>time.Time\<close> is the number of nanoseconds since Go's zero time, so
  \<open>IsZero\<close> compares with 0; a \<open>time.Duration\<close> is a number of nanoseconds.
\<close>

type_synonym time = int
type_synonym duration = int

definition zero_time :: time where
  "zero_time = 0"

definition time_IsZero :: "time \<Rightarrow> bool" where
  "time_IsZero t \<longleftrightarrow> t = zero_time"

definition Nanosecond :: duration where "Nanosecond = 1"
definition Millisecond :: duration where "Millisecond = 1000000"
definition Second :: duration where "Second = 1000 * Millisecond"
definition Minute :: duration where "Minute = 60 * Second"
definition Hour :: duration where "Hour = 60 * Minute"

lemmas duration_defs = Nanosecond_def Millisecond_def Second_def Minute_def Hour_def

section \<open>Byte strings\<close>

abbreviation byte :: "char \<Rightarrow> nat" where
  "byte c \<equiv> of_char c"

definition is_lower :: "char \<Rightarrow> bool" where
  "is_lower c \<longleftrightarrow> 97 \<le> byte c \<and> byte c \<le> 122"

definition is_upper :: "char \<Rightarrow> bool" where
  "is_upper c \<longleftrightarrow> 65 \<le> byte c \<and> byte c \<le> 90"

definition is_digit :: "char \<Rightarrow> bool" where
  "is_digit c \<longleftrightarrow> 48 \<le> byte c \<and> byte c \<le> 57"

definition is_alnum :: "char \<Rightarrow> bool" where
  "is_alnum c \<longleftrightarrow> is_lower c \<or> is_upper c \<or> is_digit c"

definition NUL :: char where
  "NUL = char_of (0 :: nat)"

definition has_prefix :: "string \<Rightarrow> string \<Rightarrow> bool" where
  "has_prefix s p \<longleftrightarrow> take (length p) s = p"

definition between :: "nat \<Rightarrow> nat \<Rightarrow> char \<Rightarrow> bool" where
  "between lo hi c \<longleftrightarrow> lo \<le> byte c \<and> byte c \<le> hi"

text \<open>\<open>utf8.ValidString\<close>: the byte ranges of well-formed UTF-8.\<close>

fun utf8_valid :: "string \<Rightarrow> bool" where
  "utf8_valid [] = True"
| "utf8_valid [a] = (byte a < 128)"
| "utf8_valid [a, b] =
     (if byte a < 128 then utf8_valid [b]
      else between 194 223 a \<and> between 128 191 b)"
| "utf8_valid [a, b, c] =
     (if byte a < 128 then utf8_valid [b, c]
      else if between 194 223 a then between 128 191 b \<and> utf8_valid [c]
      else ((byte a = 224 \<and> between 160 191 b) \<or> (between 225 236 a \<and> between 128 191 b)
            \<or> (byte a = 237 \<and> between 128 159 b) \<or> (between 238 239 a \<and> between 128 191 b))
           \<and> between 128 191 c)"
| "utf8_valid (a # b # c # d # r) =
     (if byte a < 128 then utf8_valid (b # c # d # r)
      else if between 194 223 a then between 128 191 b \<and> utf8_valid (c # d # r)
      else if between 224 239 a then
        ((byte a = 224 \<and> between 160 191 b) \<or> (between 225 236 a \<and> between 128 191 b)
          \<or> (byte a = 237 \<and> between 128 159 b) \<or> (between 238 239 a \<and> between 128 191 b))
        \<and> between 128 191 c \<and> utf8_valid (d # r)
      else
        ((byte a = 240 \<and> between 144 191 b) \<or> (between 241 243 a \<and> between 128 191 b)
          \<or> (byte a = 244 \<and> between 128 143 b))
        \<and> between 128 191 c \<and> between 128 191 d \<and> utf8_valid r)"

text \<open>
  The encodings of the code points Go's \<open>unicode.IsSpace\<close> accepts. A string
  starts (ends) with one of these exactly when its first (last) decoded rune is
  white space, so \<open>strings.TrimSpace\<close> strips them from both ends.
\<close>

definition bytes :: "nat list \<Rightarrow> string" where
  "bytes ns = map char_of ns"

definition space_encodings :: "string list" where
  "space_encodings = map bytes
     ([[9], [10], [11], [12], [13], [32], [194, 133], [194, 160], [225, 154, 128]]
      @ map (\<lambda>k. [226, 128, k]) [128, 129, 130, 131, 132, 133, 134, 135, 136, 137, 138]
      @ [[226, 128, 168], [226, 128, 169], [226, 128, 175], [226, 129, 159], [227, 128, 128]])"

fun strip_one :: "string list \<Rightarrow> string \<Rightarrow> string option" where
  "strip_one [] s = None"
| "strip_one (e # es) s = (if has_prefix s e \<and> e \<noteq> [] then Some (drop (length e) s) else strip_one es s)"

lemma strip_one_shorter: "strip_one es s = Some r \<Longrightarrow> length r < length s"
proof (induction es)
  case Nil
  then show ?case by simp
next
  case (Cons e es)
  show ?case
  proof (cases "has_prefix s e \<and> e \<noteq> []")
    case True
    then have "length s \<ge> length e" "e \<noteq> []"
      by (auto simp: has_prefix_def) (metis length_take min.cobounded1)
    with True Cons.prems show ?thesis by (auto simp flip: length_greater_0_conv)
  next
    case False
    with Cons show ?thesis by (auto split: if_splits)
  qed
qed

function strip_all :: "string list \<Rightarrow> string \<Rightarrow> string" where
  "strip_all es s = (case strip_one es s of None \<Rightarrow> s | Some r \<Rightarrow> strip_all es r)"
  by pat_completeness auto
termination
  by (relation "measure (\<lambda>(es, s). length s)") (auto dest: strip_one_shorter)

declare strip_all.simps [simp del]

definition trim_space :: "string \<Rightarrow> string" where
  "trim_space s =
     rev (strip_all (map rev space_encodings) (rev (strip_all space_encodings s)))"

definition to_lower_ascii :: "char \<Rightarrow> char" where
  "to_lower_ascii c = (if is_upper c then char_of (byte c + 32) else c)"

text \<open>\<open>strings.Split\<close> with a one-byte separator, and \<open>strings.Join\<close>.\<close>

fun split_on :: "char \<Rightarrow> string \<Rightarrow> string list" where
  "split_on d [] = [[]]"
| "split_on d (c # cs) =
     (if c = d then [] # split_on d cs
      else (case split_on d cs of [] \<Rightarrow> [[c]] | w # ws \<Rightarrow> (c # w) # ws))"

fun join_with :: "char \<Rightarrow> string list \<Rightarrow> string" where
  "join_with d [] = []"
| "join_with d [w] = w"
| "join_with d (w # ws) = w @ d # join_with d ws"

lemma split_on_nonempty [simp]: "split_on d s \<noteq> []"
  by (induction s) (auto split: list.splits)

lemma join_split [simp]: "join_with d (split_on d s) = s"
proof (induction s)
  case Nil
  then show ?case by simp
next
  case (Cons c cs)
  obtain w ws where s: "split_on d cs = w # ws"
    by (cases "split_on d cs") auto
  with Cons show ?case by (cases ws) auto
qed

lemma split_on_word: "d \<notin> set w \<Longrightarrow> split_on d w = [w]"
  by (induction w) auto

lemma split_on_append: "d \<notin> set w \<Longrightarrow> split_on d (w @ d # s) = w # split_on d s"
  by (induction w) auto

lemma split_join: "ws \<noteq> [] \<Longrightarrow> \<forall>w\<in>set ws. d \<notin> set w \<Longrightarrow> split_on d (join_with d ws) = ws"
  by (induction d ws rule: join_with.induct) (auto simp: split_on_word split_on_append)

text \<open>\<open>fmt.Sprintf("%d", n)\<close> for a non-negative integer.\<close>

fun nat_dec :: "nat \<Rightarrow> string" where
  "nat_dec n = (if n < 10 then [char_of (48 + n)]
                else nat_dec (n div 10) @ [char_of (48 + n mod 10)])"

declare nat_dec.simps [simp del]

definition dec_value :: "string \<Rightarrow> nat" where
  "dec_value s = foldl (\<lambda>acc c. acc * 10 + (byte c - 48)) 0 s"

lemma dec_value_nat_dec: "dec_value (nat_dec n) = n"
proof (induction n rule: nat_dec.induct)
  case (1 n)
  show ?case
  proof (cases "n < 10")
    case True
    then have "nat_dec n = [char_of (48 + n)]" by (simp add: nat_dec.simps)
    with True show ?thesis by (simp add: dec_value_def)
  next
    case False
    with "1.IH" have ih: "dec_value (nat_dec (n div 10)) = n div 10" by simp
    have "n mod 10 < 10" by simp
    then have "48 + n mod 10 < (256::nat)" by linarith
    then have "byte (char_of (48 + n mod 10)) = 48 + n mod 10"
      by (simp only: of_char_of) simp
    with False ih show ?thesis
      by (subst nat_dec.simps) (simp add: dec_value_def)
  qed
qed

lemma nat_dec_inject [simp]: "nat_dec m = nat_dec n \<longleftrightarrow> m = n"
  by (metis dec_value_nat_dec)

section \<open>Go maps as association lists\<close>

text \<open>
  A Go map is an association list with distinct keys. Reading is \<^const>\<open>map_of\<close>,
  assignment \<open>m[k] = v\<close> is \<open>put\<close>, \<open>delete(m, k)\<close> is \<open>del\<close>; deleting every
  entry that satisfies a test during a \<open>range\<close> loop is a \<open>filter\<close>. Go iterates in
  no particular order; every routine modelled here either sorts what it collected
  or computes an order-independent result.
\<close>

type_synonym ('k, 'v) gomap = "('k \<times> 'v) list"

definition put :: "'k \<Rightarrow> 'v \<Rightarrow> ('k, 'v) gomap \<Rightarrow> ('k, 'v) gomap" where
  "put k v m = AList.update k v m"

definition del :: "'k \<Rightarrow> ('k, 'v) gomap \<Rightarrow> ('k, 'v) gomap" where
  "del k m = AList.delete k m"

definition wf_map :: "('k, 'v) gomap \<Rightarrow> bool" where
  "wf_map m \<longleftrightarrow> distinct (map fst m)"

abbreviation mem_key :: "('k, 'v) gomap \<Rightarrow> 'k \<Rightarrow> bool" where
  "mem_key m k \<equiv> map_of m k \<noteq> None"

lemma map_of_put [alist_simps, simp]: "map_of (put k v m) k' = (if k' = k then Some v else map_of m k')"
  by (simp add: put_def update_conv')

lemma map_of_del [alist_simps, simp]: "map_of (del k m) k' = (if k' = k then None else map_of m k')"
  by (simp add: del_def delete_conv')

lemma wf_map_put [intro, simp]: "wf_map m \<Longrightarrow> wf_map (put k v m)"
  by (simp add: wf_map_def put_def distinct_update)

lemma wf_map_del [intro, simp]: "wf_map m \<Longrightarrow> wf_map (del k m)"
  by (simp add: wf_map_def del_def distinct_delete)

lemma wf_map_filter [intro, simp]: "wf_map m \<Longrightarrow> wf_map (filter P m)"
  by (simp add: wf_map_def distinct_map_filter)

lemma wf_map_Nil [simp]: "wf_map []"
  by (simp add: wf_map_def)

lemma wf_map_mem [alist_simps]: "wf_map m \<Longrightarrow> (k, v) \<in> set m \<longleftrightarrow> map_of m k = Some v"
  by (simp add: wf_map_def)

lemma map_of_filter_Some [alist_simps]:
  "wf_map m \<Longrightarrow> map_of (filter P m) k = Some v \<longleftrightarrow> map_of m k = Some v \<and> P (k, v)"
  using wf_map_mem [of "filter P m" k v] wf_map_mem [of m k v] by simp

lemma map_of_filter_None:
  "wf_map m \<Longrightarrow> map_of (filter P m) k = None \<longleftrightarrow> (\<forall>v. map_of m k = Some v \<longrightarrow> \<not> P (k, v))"
  by (metis map_of_filter_Some not_None_eq)

lemma map_of_filter_other:
  "wf_map m \<Longrightarrow> (\<And>v. P (k, v)) \<Longrightarrow> map_of (filter P m) k = map_of m k"
  by (cases "map_of m k") (auto simp: map_of_filter_Some map_of_filter_None)

lemma put_mem: "(k, v) \<in> set (put k v m)"
  using map_of_put [of k v m k] by (simp add: map_of_SomeD)

section \<open>Lists\<close>

lemma take_sorted_wrt: "sorted_wrt P xs \<Longrightarrow> sorted_wrt P (take n xs)"
  by (metis append_take_drop_id sorted_wrt_append)

lemma set_take_subset': "x \<in> set (take n xs) \<Longrightarrow> x \<in> set xs"
  by (meson in_set_takeD)

text \<open>
  A Go routine that collects the entries of a map and sorts them by a key that
  tells them apart returns the same list whatever order the map was read in.
\<close>

lemma sort_key_perm_unique:
  fixes f :: "'a \<Rightarrow> 'b::linorder"
  assumes "mset xs = mset ys" and "inj_on f (set xs)"
  shows "sort_key f xs = sort_key f ys"
proof (rule properties_for_sort_key)
  show "mset (sort_key f ys) = mset xs" using assms by simp
  show "sorted (map f (sort_key f ys))" by simp
next
  fix k assume "k \<in> set (sort_key f ys)"
  then have k: "k \<in> set xs" using assms(1) by (metis mset_eq_setD set_sort)
  show "filter (\<lambda>y. f k = f y) (sort_key f ys) = filter (\<lambda>x. f k = f x) xs"
  proof -
    have one: "filter (\<lambda>x. f k = f x) zs = replicate (count (mset zs) k) k"
      if z: "set zs \<subseteq> set xs" for zs
      using z
    proof (induction zs)
      case (Cons z zs)
      then have "f k = f z \<longleftrightarrow> z = k"
        using assms(2) k by (auto dest: inj_onD)
      with Cons show ?case by auto
    qed simp
    have s: "set ys = set xs" using assms(1) by (metis mset_eq_setD)
    have "filter (\<lambda>x. f k = f x) (sort_key f ys) = replicate (count (mset (sort_key f ys)) k) k"
      by (rule one) (simp add: s)
    moreover have "filter (\<lambda>x. f k = f x) xs = replicate (count (mset xs) k) k"
      by (rule one) simp
    ultimately show ?thesis using assms(1) by simp
  qed
qed

end
