(* ===== verification/Regexp.thy ===== *)
theory Regexp
  imports Prelude
begin

text \<open>
  The regular expressions the sources hand to Go's \<open>regexp\<close> package, as data: the
  constructors below are the pattern syntax the program uses (character classes,
  concatenation, alternation, \<open>*\<close>, \<open>+\<close>, \<open>?\<close>), \<open>lang\<close> is the set of strings a
  pattern describes, and \<open>MatchString\<close> decides an anchored pattern \<open>^...$\<close> by
  derivatives. All classes are ASCII, so matching bytes is matching runes.
\<close>

datatype rx =
    Eps
  | Void
  | Cls "char \<Rightarrow> bool"
  | Seq rx rx
  | Alt rx rx
  | Rep rx

definition Plus :: "rx \<Rightarrow> rx" where "Plus r = Seq r (Rep r)"
definition Opt :: "rx \<Rightarrow> rx" where "Opt r = Alt Eps r"
definition Lit :: "char \<Rightarrow> rx" where "Lit c = Cls (\<lambda>d. d = c)"

fun nullable :: "rx \<Rightarrow> bool" where
  "nullable Eps = True"
| "nullable Void = False"
| "nullable (Cls p) = False"
| "nullable (Seq r s) = (nullable r \<and> nullable s)"
| "nullable (Alt r s) = (nullable r \<or> nullable s)"
| "nullable (Rep r) = True"

text \<open>Derivatives stay small because empty branches are dropped as they arise.\<close>

fun mk_seq :: "rx \<Rightarrow> rx \<Rightarrow> rx" where
  "mk_seq Void s = Void"
| "mk_seq Eps s = s"
| "mk_seq r s = Seq r s"

fun mk_alt :: "rx \<Rightarrow> rx \<Rightarrow> rx" where
  "mk_alt Void s = s"
| "mk_alt r Void = r"
| "mk_alt r s = Alt r s"

fun deriv :: "char \<Rightarrow> rx \<Rightarrow> rx" where
  "deriv c Eps = Void"
| "deriv c Void = Void"
| "deriv c (Cls p) = (if p c then Eps else Void)"
| "deriv c (Seq r s) =
     (if nullable r then mk_alt (mk_seq (deriv c r) s) (deriv c s) else mk_seq (deriv c r) s)"
| "deriv c (Alt r s) = mk_alt (deriv c r) (deriv c s)"
| "deriv c (Rep r) = mk_seq (deriv c r) (Rep r)"

definition MatchString :: "rx \<Rightarrow> string \<Rightarrow> bool" where
  "MatchString r s = nullable (fold deriv s r)"

inductive_set stars :: "string set \<Rightarrow> string set" for L where
  stars_Nil [intro]: "[] \<in> stars L"
| stars_Cons [intro]: "u \<in> L \<Longrightarrow> v \<in> stars L \<Longrightarrow> u @ v \<in> stars L"

fun lang :: "rx \<Rightarrow> string set" where
  "lang Eps = {[]}"
| "lang Void = {}"
| "lang (Cls p) = {[c] |c. p c}"
| "lang (Seq r s) = {u @ v |u v. u \<in> lang r \<and> v \<in> lang s}"
| "lang (Alt r s) = lang r \<union> lang s"
| "lang (Rep r) = stars (lang r)"

lemma nullable_lang: "nullable r \<longleftrightarrow> [] \<in> lang r"
  by (induction r) auto

lemma stars_Cons_iff: "c # w \<in> stars L \<longleftrightarrow> (\<exists>u v. w = u @ v \<and> c # u \<in> L \<and> v \<in> stars L)"
proof
  have "x = c # w \<Longrightarrow> \<exists>u v. w = u @ v \<and> c # u \<in> L \<and> v \<in> stars L" if "x \<in> stars L" for x
    using that by (induction x rule: stars.induct) (auto simp: append_eq_Cons_conv)
  then show "c # w \<in> stars L \<Longrightarrow> \<exists>u v. w = u @ v \<and> c # u \<in> L \<and> v \<in> stars L" by blast
next
  show "\<exists>u v. w = u @ v \<and> c # u \<in> L \<and> v \<in> stars L \<Longrightarrow> c # w \<in> stars L"
    by (metis append_Cons stars_Cons)
qed

lemma Cons_split:
  "(\<exists>u v. c # w = u @ v \<and> P u \<and> Q v) \<longleftrightarrow>
   (P [] \<and> Q (c # w)) \<or> (\<exists>u v. w = u @ v \<and> P (c # u) \<and> Q v)"
proof
  assume "\<exists>u v. c # w = u @ v \<and> P u \<and> Q v"
  then obtain u v where "c # w = u @ v" "P u" "Q v" by blast
  then show "(P [] \<and> Q (c # w)) \<or> (\<exists>u v. w = u @ v \<and> P (c # u) \<and> Q v)"
    by (cases u) auto
next
  assume "(P [] \<and> Q (c # w)) \<or> (\<exists>u v. w = u @ v \<and> P (c # u) \<and> Q v)"
  then show "\<exists>u v. c # w = u @ v \<and> P u \<and> Q v"
    by (metis append_Cons append_Nil)
qed

lemma lang_mk [simp]: "lang (mk_seq r s) = lang (Seq r s)" "lang (mk_alt r s) = lang (Alt r s)"
  by (cases "(r, s)" rule: mk_seq.cases; force) (cases "(r, s)" rule: mk_alt.cases; auto)

lemma deriv_lang: "w \<in> lang (deriv c r) \<longleftrightarrow> c # w \<in> lang r"
proof (induction r arbitrary: w)
  case (Seq r s)
  then show ?case by (auto simp: nullable_lang Cons_split)
next
  case (Rep r)
  then show ?case by (auto simp: stars_Cons_iff)
qed auto

lemma MatchString_lang: "MatchString r s \<longleftrightarrow> s \<in> lang r"
  by (induction s arbitrary: r) (simp_all add: MatchString_def nullable_lang deriv_lang)

text \<open>Repetition of a class, and of a class behind a separator.\<close>

lemma lang_Rep_Cls: "lang (Rep (Cls p)) = {s. list_all p s}"
proof -
  have "s \<in> stars {[c] |c. p c} \<longleftrightarrow> list_all p s" for s
    by (induction s) (auto simp: stars_Cons_iff)
  then show ?thesis by auto
qed

lemma lang_Plus_Cls: "lang (Plus (Cls p)) = {s. s \<noteq> [] \<and> list_all p s}"
proof -
  have "s \<in> lang (Plus (Cls p)) \<longleftrightarrow> s \<noteq> [] \<and> list_all p s" for s
    unfolding Plus_def lang.simps(4) lang_Rep_Cls by (cases s) (auto simp: Cons_split)
  then show ?thesis by auto
qed

lemma lang_separated:
  assumes "\<not> p d"
  shows "w \<in> {u @ v |u v. list_all p u \<and> v \<in> lang (Rep (Seq (Lit d) (Plus (Cls p))))} \<longleftrightarrow>
         list_all (list_all p) (split_on d w) \<and> [] \<notin> set (tl (split_on d w))"
proof -
  let ?S = "lang (Seq (Lit d) (Plus (Cls p)))"
  have S: "?S = {d # s |s. s \<noteq> [] \<and> list_all p s}"
    unfolding lang.simps(4) lang_Plus_Cls by (auto simp: Lit_def)
  have notd: "d \<notin> set u" if "list_all p u" for u
    using that assms by (auto simp: list_all_iff)
  have tails: "v \<in> stars ?S \<Longrightarrow> list_all p u \<Longrightarrow>
      list_all (list_all p) (split_on d (u @ v)) \<and> [] \<notin> set (tl (split_on d (u @ v)))
      \<and> hd (split_on d (u @ v)) = u" for u v
  proof (induction v arbitrary: u rule: stars.induct)
    case stars_Nil
    then show ?case by (simp add: split_on_word notd)
  next
    case (stars_Cons x v)
    have "x \<in> {d # s |s. s \<noteq> [] \<and> list_all p s}" using stars_Cons.hyps(1) by (simp only: S)
    then obtain s where s: "x = d # s" "s \<noteq> []" "list_all p s" by blast
    with stars_Cons.IH [of s] stars_Cons.prems show ?case
      by (cases "split_on d (s @ v)") (auto simp: split_on_append notd)
  qed
  have joins: "list_all (list_all p) ws \<Longrightarrow> [] \<notin> set (tl ws) \<Longrightarrow> ws \<noteq> [] \<Longrightarrow>
      \<exists>v. join_with d ws = hd ws @ v \<and> v \<in> stars ?S" for ws
  proof (induction d ws rule: join_with.induct)
    case (3 d w w' ws)
    then obtain v where v: "join_with d (w' # ws) = w' @ v" "v \<in> stars (lang (Seq (Lit d) (Plus (Cls p))))"
      by (auto dest: list.set_sel(2) [rotated])
    have "d # w' \<in> lang (Seq (Lit d) (Plus (Cls p)))"
      using 3 unfolding lang.simps(4) lang_Plus_Cls by (auto simp: Lit_def)
    from stars.stars_Cons [OF this v(2)] v(1) show ?case by auto
  qed auto
  show ?thesis
  proof
    assume "w \<in> {u @ v |u v. list_all p u \<and> v \<in> lang (Rep (Seq (Lit d) (Plus (Cls p))))}"
    with tails show "list_all (list_all p) (split_on d w) \<and> [] \<notin> set (tl (split_on d w))"
      by auto
  next
    assume a: "list_all (list_all p) (split_on d w) \<and> [] \<notin> set (tl (split_on d w))"
    with joins [of "split_on d w"] obtain v where "w = hd (split_on d w) @ v" "v \<in> stars ?S"
      by auto
    moreover have "list_all p (hd (split_on d w))"
      using a by (cases "split_on d w") auto
    ultimately show "w \<in> {u @ v |u v. list_all p u \<and> v \<in> lang (Rep (Seq (Lit d) (Plus (Cls p))))}"
      by auto
  qed
qed

end
