(* ===== verification/Schema_Ids.thy ===== *)
theory Schema_Ids
  imports Regexp
begin

text \<open>
  The identifiers of a schema (\<open>schema/identifier.go\<close>): the regular expressions
  as the source writes them, the predicates that use them, and what the accepted
  strings look like once they are split at their separators. Semantic-version
  comparison is the third-party package \<open>golang.org/x/mod/semver\<close>: its two
  functions are parameters of the version predicates.
\<close>

section \<open>The patterns\<close>

definition cls_lower :: "char \<Rightarrow> bool" where "cls_lower c \<longleftrightarrow> is_lower c"
definition cls_lower_digit :: "char \<Rightarrow> bool" where "cls_lower_digit c \<longleftrightarrow> is_lower c \<or> is_digit c"
definition cls_word :: "char \<Rightarrow> bool" where "cls_word c \<longleftrightarrow> is_alnum c \<or> c = CHR ''_''"

definition stableIDPattern :: rx where
  "stableIDPattern =
     Seq (Cls cls_lower) (Seq (Rep (Cls cls_lower_digit))
       (Rep (Seq (Lit CHR ''-'') (Plus (Cls cls_lower_digit)))))"

definition fieldNamePattern :: rx where
  "fieldNamePattern = Seq (Cls cls_lower) (Rep (Cls cls_word))"

definition blockTypeNamePattern :: rx where
  "blockTypeNamePattern = Seq (Cls is_upper) (Rep (Cls is_alnum))"

definition localeCodePattern :: rx where
  "localeCodePattern =
     Seq (Plus (Cls is_alnum))
       (Rep (Seq (Cls (\<lambda>c. c = CHR ''-'' \<or> c = CHR ''_'')) (Plus (Cls is_alnum))))"

definition adminExportPattern :: rx where
  "adminExportPattern =
     Seq (Cls (\<lambda>c. is_lower c \<or> is_upper c \<or> c = CHR ''_'' \<or> c = CHR ''$''))
       (Rep (Cls (\<lambda>c. is_alnum c \<or> c = CHR ''_'' \<or> c = CHR ''$'')))"

definition cls_route :: "char \<Rightarrow> bool" where
  "cls_route c \<longleftrightarrow> is_alnum c \<or> c = CHR ''_'' \<or> c = CHR ''-''"

definition adminRoutePattern :: rx where
  "adminRoutePattern =
     Seq (Plus (Cls cls_route)) (Rep (Seq (Lit CHR ''/'') (Plus (Cls cls_route))))"

definition cls_import :: "char \<Rightarrow> bool" where
  "cls_import c \<longleftrightarrow> is_alnum c \<or> c = CHR ''.'' \<or> c = CHR ''_'' \<or> c = CHR ''~'' \<or> c = CHR ''-''"

definition goPackagePattern :: rx where
  "goPackagePattern =
     Seq (Plus (Cls cls_import)) (Plus (Seq (Lit CHR ''/'') (Plus (Cls cls_import))))"

definition cls_package :: "char \<Rightarrow> bool" where
  "cls_package c \<longleftrightarrow> cls_lower_digit c \<or> c = CHR ''.'' \<or> c = CHR ''_'' \<or> c = CHR ''-''"

definition adminPackagePattern :: rx where
  "adminPackagePattern =
     Seq (Opt (Seq (Lit CHR ''@'') (Seq (Cls cls_lower_digit)
            (Seq (Rep (Cls cls_package)) (Lit CHR ''/'')))))
       (Seq (Cls cls_lower_digit) (Seq (Rep (Cls cls_package))
         (Rep (Seq (Lit CHR ''/'') (Plus (Cls
            (\<lambda>c. is_alnum c \<or> c = CHR ''.'' \<or> c = CHR ''_'' \<or> c = CHR ''-'')))))))"

section \<open>The predicates\<close>

definition IsValidStableID :: "string \<Rightarrow> bool" where
  "IsValidStableID value = MatchString stableIDPattern value"

definition IsValidCollectionSlug :: "string \<Rightarrow> bool" where
  "IsValidCollectionSlug value = MatchString stableIDPattern value"

definition IsValidPluginKey :: "string \<Rightarrow> bool" where
  "IsValidPluginKey value = MatchString stableIDPattern value"

definition IsValidLocaleCode :: "string \<Rightarrow> bool" where
  "IsValidLocaleCode value =
     (if length value = 0 \<or> length value > 35 \<or> \<not> MatchString localeCodePattern value then False
      else if map to_lower_ascii value \<in> {''all'', ''false'', ''none'', ''null''} then False
      else value \<noteq> ''*'')"

definition IsValidFieldName :: "string \<Rightarrow> bool" where
  "IsValidFieldName value = MatchString fieldNamePattern value"

definition IsValidAdminPluginPackage :: "string \<Rightarrow> bool" where
  "IsValidAdminPluginPackage value = MatchString adminPackagePattern value"

definition IsValidAdminPluginExport :: "string \<Rightarrow> bool" where
  "IsValidAdminPluginExport value = MatchString adminExportPattern value"

definition IsValidSemanticVersion :: "(string \<Rightarrow> bool) \<Rightarrow> string \<Rightarrow> bool" where
  "IsValidSemanticVersion semver_valid value \<longleftrightarrow>
     value \<noteq> [] \<and> \<not> has_prefix value ''v'' \<and> semver_valid (''v'' @ value)"

definition IsValidSemanticVersionRange ::
  "(string \<Rightarrow> bool) \<Rightarrow> (string \<Rightarrow> string \<Rightarrow> int) \<Rightarrow> string \<Rightarrow> string \<Rightarrow> bool" where
  "IsValidSemanticVersionRange semver_valid semver_compare minimum maximumExclusive =
     (if \<not> IsValidSemanticVersion semver_valid minimum
         \<or> maximumExclusive \<noteq> [] \<and> \<not> IsValidSemanticVersion semver_valid maximumExclusive
      then False
      else maximumExclusive = []
           \<or> semver_compare (''v'' @ minimum) (''v'' @ maximumExclusive) < 0)"

definition SemanticVersionInRange ::
  "(string \<Rightarrow> bool) \<Rightarrow> (string \<Rightarrow> string \<Rightarrow> int) \<Rightarrow> string \<Rightarrow> string \<Rightarrow> string \<Rightarrow> bool" where
  "SemanticVersionInRange semver_valid semver_compare version minimum maximumExclusive =
     (if \<not> IsValidSemanticVersion semver_valid version
         \<or> \<not> IsValidSemanticVersionRange semver_valid semver_compare minimum maximumExclusive
      then False
      else semver_compare (''v'' @ version) (''v'' @ minimum) \<ge> 0
           \<and> (maximumExclusive = []
              \<or> semver_compare (''v'' @ version) (''v'' @ maximumExclusive) < 0))"

definition reserved_routes :: "string list" where
  "reserved_routes =
     [''account'', ''collections'', ''globals'', ''login'', ''create-first-user'',
      ''forgot-password'', ''reset-password'', ''request-verification'', ''verify-email'']"

definition IsValidAdminPluginRoute :: "string \<Rightarrow> bool" where
  "IsValidAdminPluginRoute value =
     (if \<not> MatchString adminRoutePattern value then False
      else map to_lower_ascii (hd (split_on CHR ''/'' value)) \<notin> set reserved_routes)"

fun contains_text :: "string \<Rightarrow> string \<Rightarrow> bool" where
  "contains_text s t = (has_prefix s t \<or> (case s of [] \<Rightarrow> False | _ # r \<Rightarrow> contains_text r t))"

declare contains_text.simps [simp del]

definition contains_any :: "string \<Rightarrow> string \<Rightarrow> bool" where
  "contains_any s chars = list_ex (\<lambda>c. c \<in> set chars) s"

definition IsValidAdminPluginAsset :: "string \<Rightarrow> bool" where
  "IsValidAdminPluginAsset value \<longleftrightarrow>
     value \<noteq> [] \<and> value = trim_space value
     \<and> \<not> contains_any value (bytes [32, 9, 13, 10])
     \<and> \<not> has_prefix value ''/'' \<and> \<not> has_prefix value ''./''
     \<and> \<not> contains_text value ''..'' \<and> \<not> contains_any value ''?#''"

definition IsValidGoPackage :: "string \<Rightarrow> bool" where
  "IsValidGoPackage value = MatchString goPackagePattern value"

definition IsValidBlockTypeName :: "string \<Rightarrow> bool" where
  "IsValidBlockTypeName value = MatchString blockTypeNamePattern value"

section \<open>What the accepted identifiers look like\<close>

lemma match_head_rest:
  "MatchString (Seq (Cls p) (Rep (Cls q))) s \<longleftrightarrow> s \<noteq> [] \<and> p (hd s) \<and> list_all q (tl s)"
  unfolding MatchString_lang lang.simps(4) lang_Rep_Cls by (cases s) (auto simp: Cons_split)

lemma field_name_iff:
  "IsValidFieldName s \<longleftrightarrow> s \<noteq> [] \<and> is_lower (hd s) \<and> list_all cls_word (tl s)"
  by (simp add: IsValidFieldName_def fieldNamePattern_def match_head_rest cls_lower_def)

lemma stable_id_shape:
  "IsValidStableID s \<longleftrightarrow>
   s \<noteq> [] \<and> is_lower (hd s)
   \<and> list_all (\<lambda>w. w \<noteq> [] \<and> list_all cls_lower_digit w) (split_on CHR ''-'' s)"
proof (cases s)
  case Nil
  then show ?thesis
    by (simp add: IsValidStableID_def MatchString_lang stableIDPattern_def)
next
  case (Cons c w)
  have dash: "\<not> cls_lower_digit CHR ''-''" by (simp add: cls_lower_digit_def is_lower_def is_digit_def)
  have "IsValidStableID s \<longleftrightarrow> is_lower c \<and> w \<in> {u @ v |u v. list_all cls_lower_digit u \<and>
          v \<in> lang (Rep (Seq (Lit CHR ''-'') (Plus (Cls cls_lower_digit))))}"
    unfolding IsValidStableID_def MatchString_lang stableIDPattern_def lang.simps(3,4) lang_Rep_Cls Cons
    by (auto simp: cls_lower_def Cons_split)
  also have "\<dots> \<longleftrightarrow> is_lower c \<and> list_all (list_all cls_lower_digit) (split_on CHR ''-'' w)
               \<and> [] \<notin> set (tl (split_on CHR ''-'' w))"
    by (simp only: lang_separated [of cls_lower_digit "CHR ''-''", OF dash])
  also have "\<dots> \<longleftrightarrow> is_lower c
     \<and> list_all (\<lambda>w. w \<noteq> [] \<and> list_all cls_lower_digit w) (split_on CHR ''-'' s)"
    using Cons dash by (cases "split_on CHR ''-'' w")
      (auto simp: list_all_iff is_lower_def cls_lower_digit_def)
  finally show ?thesis using Cons by simp
qed

end
