(* ===== verification/Query_Paths.thy ===== *)
theory Query_Paths
  imports Schema_Ids
begin

text \<open>
  Field paths of the query language (\<open>query/path.go\<close>): the segment scanner, the
  two constructors \<open>NewPath\<close> and \<open>ParsePath\<close>, the generic \<open>pathOf\<close> that panics on a
  malformed literal, and the JSON form. A \<open>Path\<close> is its list of segments; its zero
  value is the empty list.
\<close>

type_synonym path = "string list"

datatype path_error =
    PathRequiresSegment
  | PathTooManySegments
  | PathBadSegment nat string
  | PathTooManyBytes
  | PathEmptyText

datatype field_path = FieldName string | FieldTyped path

definition MaxPathSegments :: nat where "MaxPathSegments = 64"
definition MaxPathBytes :: nat where "MaxPathBytes = 4096"

definition pathSegmentPattern :: rx where
  "pathSegmentPattern =
     Seq (Cls is_lower) (Rep (Cls (\<lambda>c. is_alnum c \<or> c = CHR ''_'' \<or> c = CHR ''-'')))"

fun segment_rest :: "string \<Rightarrow> bool" where
  "segment_rest [] = True"
| "segment_rest (character # r) =
     (if (byte character < byte CHR ''a'' \<or> byte character > byte CHR ''z'')
         \<and> (byte character < byte CHR ''A'' \<or> byte character > byte CHR ''Z'')
         \<and> (byte character < byte CHR ''0'' \<or> byte character > byte CHR ''9'')
         \<and> character \<noteq> CHR ''_'' \<and> character \<noteq> CHR ''-''
      then False else segment_rest r)"

fun validPathSegment :: "string \<Rightarrow> bool" where
  "validPathSegment [] = False"
| "validPathSegment (c # r) =
     (if byte c < byte CHR ''a'' \<or> byte c > byte CHR ''z'' then False else segment_rest r)"

fun check_segments :: "nat \<Rightarrow> nat \<Rightarrow> string list \<Rightarrow> path_error + nat" where
  "check_segments index totalBytes [] = Inr totalBytes"
| "check_segments index totalBytes (segment # r) =
     (if \<not> validPathSegment segment then Inl (PathBadSegment index segment)
      else check_segments (index + 1) (totalBytes + length segment) r)"

definition NewPath :: "string list \<Rightarrow> path_error + path" where
  "NewPath segments =
     (if length segments = 0 then Inl PathRequiresSegment
      else if length segments > MaxPathSegments then Inl PathTooManySegments
      else if length segments = 1 \<and> (hd segments = ''_status'' \<or> hd segments = ''_revision'')
        then Inr segments
      else (case check_segments 0 (length segments - 1) segments of
              Inl e \<Rightarrow> Inl e
            | Inr totalBytes \<Rightarrow>
                if totalBytes > MaxPathBytes then Inl PathTooManyBytes else Inr segments))"

definition ParsePath :: "string \<Rightarrow> path_error + path" where
  "ParsePath s = (if s = [] then Inl PathEmptyText else NewPath (split_on CHR ''.'' s))"

definition path_String :: "path \<Rightarrow> string" where
  "path_String p = join_with CHR ''.'' p"

text \<open>\<open>Field\<close> and \<open>pathOf\<close> panic with the error: an \<^const>\<open>Inl\<close> here.\<close>

definition Field :: "string list \<Rightarrow> path_error + path" where
  "Field segments = (case NewPath segments of Inl err \<Rightarrow> Inl err | Inr path \<Rightarrow> Inr path)"

fun pathOf :: "field_path \<Rightarrow> path_error + path" where
  "pathOf (FieldTyped p) = Inr p"
| "pathOf (FieldName n) = ParsePath n"

definition AppendSegments :: "path \<Rightarrow> string list \<Rightarrow> string list" where
  "AppendSegments path segments = segments @ path"

text \<open>
  \<open>json.Marshal\<close> and \<open>json.Unmarshal\<close> of a string are the parameters \<open>encode\<close> and
  \<open>decode\<close>; \<open>UnmarshalJSON\<close> returns the new value of its receiver.
\<close>

definition path_MarshalJSON :: "(string \<Rightarrow> string) \<Rightarrow> path \<Rightarrow> path_error + string" where
  "path_MarshalJSON encode p =
     (if length p = 0 then Inl PathEmptyText else Inr (encode (path_String p)))"

datatype path_decode_error = PathNotString | PathInvalid path_error

definition path_UnmarshalJSON ::
  "(string \<Rightarrow> string option) \<Rightarrow> string \<Rightarrow> path \<Rightarrow> path_decode_error option \<times> path" where
  "path_UnmarshalJSON decode encoded receiver =
     (case decode encoded of
        None \<Rightarrow> (Some PathNotString, receiver)
      | Some s \<Rightarrow> (case ParsePath s of
            Inl err \<Rightarrow> (Some (PathInvalid err), receiver)
          | Inr parsed \<Rightarrow> (None, parsed)))"

section \<open>Valid paths\<close>

definition valid_path :: "path \<Rightarrow> bool" where
  "valid_path p \<longleftrightarrow>
     p = [''_status''] \<or> p = [''_revision'']
     \<or> (p \<noteq> [] \<and> length p \<le> 64 \<and> list_all validPathSegment p \<and> length (path_String p) \<le> 4096)"

lemma segment_rest_all:
  "segment_rest s \<longleftrightarrow> list_all (\<lambda>c. is_alnum c \<or> c = CHR ''_'' \<or> c = CHR ''-'') s"
  by (induction s) (auto simp: is_alnum_def is_lower_def is_upper_def is_digit_def)

lemma validPathSegment_alt:
  "validPathSegment s \<longleftrightarrow>
   s \<noteq> [] \<and> is_lower (hd s) \<and> list_all (\<lambda>c. is_alnum c \<or> c = CHR ''_'' \<or> c = CHR ''-'') (tl s)"
  by (cases s) (auto simp: segment_rest_all is_lower_def)

lemma segment_no_dot: "validPathSegment s \<Longrightarrow> CHR ''.'' \<notin> set s"
  by (cases s) (auto simp: segment_rest_all list_all_iff is_alnum_def is_lower_def is_upper_def
                           is_digit_def split: if_splits)

lemma check_segments_ok:
  "check_segments i t ss = Inr u \<longleftrightarrow> list_all validPathSegment ss \<and> u = t + sum_list (map length ss)"
  by (induction ss arbitrary: i t) auto

lemma check_segments_error:
  "check_segments i t ss = Inl e \<Longrightarrow>
   \<exists>k < length ss. e = PathBadSegment (i + k) (ss ! k) \<and> \<not> validPathSegment (ss ! k)
     \<and> list_all validPathSegment (take k ss)"
proof (induction ss arbitrary: i t)
  case (Cons s ss)
  show ?case
  proof (cases "validPathSegment s")
    case True
    with Cons.prems have "check_segments (i + 1) (t + length s) ss = Inl e" by simp
    from Cons.IH [OF this] obtain k where "k < length ss" "e = PathBadSegment (i + 1 + k) (ss ! k)"
      "\<not> validPathSegment (ss ! k)" "list_all validPathSegment (take k ss)" by blast
    with True show ?thesis by (intro exI [of _ "Suc k"]) simp
  next
    case False
    with Cons.prems show ?thesis by (intro exI [of _ 0]) simp
  qed
qed simp

lemma path_String_length:
  "p \<noteq> [] \<Longrightarrow> length (path_String p) = length p - 1 + sum_list (map length p)"
proof -
  have "p \<noteq> [] \<Longrightarrow> length (join_with d p) + 1 = length p + sum_list (map length p)" for d
    by (induction d p rule: join_with.induct) auto
  then show "p \<noteq> [] \<Longrightarrow> ?thesis" unfolding path_String_def
    by (metis One_nat_def Suc_eq_plus1 add_diff_cancel_right' diff_add_inverse2 length_0_conv
        not_gr_zero add.commute Nat.add_diff_assoc2 Suc_leI)
qed

lemma NewPath_iff: "NewPath ss = Inr p \<longleftrightarrow> p = ss \<and> valid_path ss"
proof -
  have sys: "NewPath [''_status''] = Inr [''_status'']" "NewPath [''_revision''] = Inr [''_revision'']"
    by (simp_all add: NewPath_def MaxPathSegments_def)
  show ?thesis
  proof (cases "ss = [''_status''] \<or> ss = [''_revision'']")
    case True
    with sys show ?thesis by (auto simp: valid_path_def)
  next
    case False
    then have n: "\<not> (length ss = 1 \<and> (hd ss = ''_status'' \<or> hd ss = ''_revision''))"
      by (cases ss) auto
    show ?thesis
    proof (cases "check_segments 0 (length ss - 1) ss")
      case (Inl e)
      then have "\<not> list_all validPathSegment ss" by (metis check_segments_ok sum.distinct(1))
      with n Inl False show ?thesis by (auto simp: NewPath_def valid_path_def)
    next
      case (Inr u)
      then have "list_all validPathSegment ss" "u = length ss - 1 + sum_list (map length ss)"
        by (simp_all add: check_segments_ok)
      with n Inr False path_String_length [of ss] show ?thesis
        by (auto simp: NewPath_def valid_path_def MaxPathSegments_def MaxPathBytes_def)
    qed
  qed
qed

lemma valid_path_nonempty: "valid_path p \<Longrightarrow> p \<noteq> []"
  by (auto simp: valid_path_def)

lemma valid_path_no_dot: "valid_path p \<Longrightarrow> s \<in> set p \<Longrightarrow> CHR ''.'' \<notin> set s"
  by (auto simp: valid_path_def list_all_iff segment_no_dot)

lemma split_valid_path: "valid_path p \<Longrightarrow> split_on CHR ''.'' (path_String p) = p"
  unfolding path_String_def by (rule split_join) (auto simp: valid_path_nonempty dest: valid_path_no_dot)

lemma valid_path_String_nonempty: "valid_path p \<Longrightarrow> path_String p \<noteq> []"
proof
  assume v: "valid_path p" and "path_String p = []"
  then have "p = split_on CHR ''.'' []" by (metis split_valid_path)
  with v show False by (simp add: valid_path_def)
qed

lemma ParsePath_String [simp]: "valid_path p \<Longrightarrow> ParsePath (path_String p) = Inr p"
  by (simp add: ParsePath_def valid_path_String_nonempty split_valid_path NewPath_iff)

lemma ParsePath_ok: "ParsePath s = Inr p \<longleftrightarrow> valid_path p \<and> s = path_String p"
proof
  assume "ParsePath s = Inr p"
  then show "valid_path p \<and> s = path_String p"
    by (auto simp: ParsePath_def NewPath_iff path_String_def split: if_splits)
qed auto

lemma pathOf_valid: "pathOf fp = Inr p \<Longrightarrow> (\<And>q. fp = FieldTyped q \<Longrightarrow> valid_path q) \<Longrightarrow> valid_path p"
  by (cases fp) (auto simp: ParsePath_ok)

end
