(* ===== verification/Float64.thy ===== *)
theory Float64
  imports Prelude "HOL-Library.Word"
begin

text \<open>
  Go's \<open>float64\<close> as its IEEE 754 bit pattern: the classification that
  \<open>math.IsNaN\<close> and \<open>math.IsInf\<close> read off the bits, the comparison operators
  \<open>==\<close>, \<open><\<close> and \<open><=\<close>, and the conversion \<open>float64(n)\<close> on the integers a
  53-bit significand holds exactly. The conversion is shown to keep the order of
  those integers, which is why the query constructors reject larger ones.
\<close>

type_synonym float64 = "64 word"

definition float_magnitude :: "float64 \<Rightarrow> nat" where
  "float_magnitude w = unat w mod 2 ^ 63"

definition float_exponent :: "float64 \<Rightarrow> nat" where
  "float_exponent w = float_magnitude w div 2 ^ 52"

definition float_fraction :: "float64 \<Rightarrow> nat" where
  "float_fraction w = float_magnitude w mod 2 ^ 52"

definition float_negative :: "float64 \<Rightarrow> bool" where
  "float_negative w \<longleftrightarrow> 2 ^ 63 \<le> unat w"

definition IsNaN :: "float64 \<Rightarrow> bool" where
  "IsNaN w \<longleftrightarrow> float_exponent w = 2047 \<and> float_fraction w \<noteq> 0"

definition IsInf :: "float64 \<Rightarrow> bool" where
  "IsInf w \<longleftrightarrow> float_exponent w = 2047 \<and> float_fraction w = 0"

text \<open>
  The bit pattern of a number that is not a NaN, read as sign and magnitude,
  orders the numbers; both zeros have the key 0.
\<close>

definition float_key :: "float64 \<Rightarrow> int" where
  "float_key w = (if float_negative w then - int (float_magnitude w) else int (float_magnitude w))"

definition float_eq :: "float64 \<Rightarrow> float64 \<Rightarrow> bool" where
  "float_eq a b \<longleftrightarrow> \<not> IsNaN a \<and> \<not> IsNaN b \<and> float_key a = float_key b"

definition float_lt :: "float64 \<Rightarrow> float64 \<Rightarrow> bool" where
  "float_lt a b \<longleftrightarrow> \<not> IsNaN a \<and> \<not> IsNaN b \<and> float_key a < float_key b"

definition float_le :: "float64 \<Rightarrow> float64 \<Rightarrow> bool" where
  "float_le a b \<longleftrightarrow> \<not> IsNaN a \<and> \<not> IsNaN b \<and> float_key a \<le> float_key b"

section \<open>Integers converted exactly\<close>

fun msb_index :: "nat \<Rightarrow> nat" where
  "msb_index n = (if n < 2 then 0 else Suc (msb_index (n div 2)))"

declare msb_index.simps [simp del]

definition nat_magnitude :: "nat \<Rightarrow> nat" where
  "nat_magnitude m =
     (if m = 0 then 0
      else let e = msb_index m in
        (1022 + e) * 2 ^ 52 + (if e \<le> 52 then m * 2 ^ (52 - e) else m div 2 ^ (e - 52)))"

definition float64_of_int :: "int \<Rightarrow> float64" where
  "float64_of_int n =
     word_of_nat ((if n < 0 then 2 ^ 63 else 0) + nat_magnitude (nat \<bar>n\<bar>))"

lemma msb_index_bounds: "0 < n \<Longrightarrow> 2 ^ msb_index n \<le> n \<and> n < 2 ^ Suc (msb_index n)"
proof (induction n rule: msb_index.induct)
  case (1 n)
  show ?case
  proof (cases "n < 2")
    case True
    with 1(2) show ?thesis by (simp add: msb_index.simps)
  next
    case False
    with 1(1) have "2 ^ msb_index (n div 2) \<le> n div 2 \<and> n div 2 < 2 ^ Suc (msb_index (n div 2))"
      by simp
    with False show ?thesis by (subst (1 2) msb_index.simps) auto
  qed
qed

lemma msb_index_mono: "0 < m \<Longrightarrow> m \<le> n \<Longrightarrow> msb_index m \<le> msb_index n"
proof -
  assume m: "0 < m" "m \<le> n"
  have "(2::nat) ^ msb_index m < 2 ^ Suc (msb_index n)"
    using msb_index_bounds [of m] msb_index_bounds [of n] m by linarith
  then show ?thesis
    by (metis less_Suc_eq_le nat_power_less_imp_less zero_less_numeral)
qed

lemma msb_index_le_53: "n \<le> 2 ^ 53 \<Longrightarrow> msb_index n \<le> 53"
proof (cases "n = 0")
  case True
  then show ?thesis by (simp add: msb_index.simps)
next
  case False
  assume "n \<le> 2 ^ 53"
  with False msb_index_bounds [of n] have "(2::nat) ^ msb_index n \<le> 2 ^ 53" by linarith
  then show ?thesis by (rule power_le_imp_le_exp [of "2::nat", rotated]) simp
qed

lemma nat_magnitude_shift:
  "0 < m \<Longrightarrow> m \<le> 2 ^ 53 \<Longrightarrow>
   \<exists>s. nat_magnitude m = (1022 + msb_index m) * 2 ^ 52 + s \<and> 2 ^ 52 \<le> s \<and> s < 2 ^ 53
       \<and> s * 2 ^ msb_index m = m * 2 ^ 52"
proof -
  assume m: "0 < m" "m \<le> 2 ^ 53"
  note b = msb_index_bounds [OF m(1)]
  show ?thesis
  proof (cases "msb_index m \<le> 52")
    case True
    then have p: "(2::nat) ^ 52 = 2 ^ (52 - msb_index m) * 2 ^ msb_index m"
      by (simp flip: power_add)
    have q: "(2::nat) ^ 53 = 2 ^ (52 - msb_index m) * 2 ^ Suc (msb_index m)"
      using True by (simp flip: power_add power_Suc)
    let ?s = "m * 2 ^ (52 - msb_index m)"
    have "2 ^ 52 \<le> ?s" using b by (simp only: p) (simp add: mult.commute)
    moreover have "?s < 2 ^ 53" using b by (simp only: q) (simp add: mult.commute)
    moreover have "?s * 2 ^ msb_index m = m * 2 ^ 52" by (simp only: p ac_simps)
    ultimately show ?thesis using True m
      by (intro exI [of _ ?s]) (simp add: nat_magnitude_def Let_def)
  next
    case False
    with msb_index_le_53 [OF m(2)] have e: "msb_index m = 53" by simp
    with b m have "m = 2 ^ 53" by simp
    with e show ?thesis by (simp add: nat_magnitude_def)
  qed
qed

lemma nat_magnitude_bound: "m \<le> 2 ^ 53 \<Longrightarrow> nat_magnitude m < 2047 * 2 ^ 52"
proof (cases "m = 0")
  case True
  then show ?thesis by (simp add: nat_magnitude_def)
next
  case False
  assume "m \<le> 2 ^ 53"
  with False nat_magnitude_shift [of m] msb_index_le_53 [of m] obtain s where
    "nat_magnitude m = (1022 + msb_index m) * 2 ^ 52 + s" "s < 2 ^ 53" "msb_index m \<le> 53"
    by auto
  then show ?thesis by simp
qed

lemma nat_magnitude_less:
  assumes "m < n" "n \<le> 2 ^ 53" shows "nat_magnitude m < nat_magnitude n"
proof (cases "m = 0")
  case True
  with assms nat_magnitude_shift [of n] show ?thesis by (auto simp: nat_magnitude_def)
next
  case False
  from False assms nat_magnitude_shift [of m] obtain s where
    s: "nat_magnitude m = (1022 + msb_index m) * 2 ^ 52 + s" "s < 2 ^ 53"
       "s * 2 ^ msb_index m = m * 2 ^ 52" by auto
  from assms nat_magnitude_shift [of n] obtain t where
    t: "nat_magnitude n = (1022 + msb_index n) * 2 ^ 52 + t" "2 ^ 52 \<le> t"
       "t * 2 ^ msb_index n = n * 2 ^ 52" by auto
  have le: "msb_index m \<le> msb_index n"
    using False assms by (intro msb_index_mono) auto
  show ?thesis
  proof (cases "msb_index m = msb_index n")
    case True
    with s(3) t(3) assms(1) have "s * 2 ^ msb_index n < t * 2 ^ msb_index n" by simp
    then have "s < t" by simp
    with s(1) t(1) True show ?thesis by simp
  next
    case False
    with le have "Suc (msb_index m) \<le> msb_index n" by simp
    then have "(1023 + msb_index m) * 2 ^ 52 \<le> (1022 + msb_index n) * 2 ^ 52" by simp
    with s(1,2) t(1,2) show ?thesis by simp
  qed
qed

lemma unat_float64: "k < 2 ^ 64 \<Longrightarrow> unat (word_of_nat k :: float64) = k"
  by (simp add: unat_of_nat take_bit_nat_eq_self)

lemma float_magnitude_of_int:
  assumes "\<bar>n\<bar> \<le> 2 ^ 53"
  shows "float_magnitude (float64_of_int n) = nat_magnitude (nat \<bar>n\<bar>)"
    and "float_negative (float64_of_int n) = (n < 0)"
proof -
  have b: "nat_magnitude (nat \<bar>n\<bar>) < 2047 * 2 ^ 52"
    using assms by (intro nat_magnitude_bound) simp
  then have u: "unat (float64_of_int n) = (if n < 0 then 2 ^ 63 else 0) + nat_magnitude (nat \<bar>n\<bar>)"
    unfolding float64_of_int_def by (intro unat_float64) (cases "n < 0"; simp)
  with b show "float_magnitude (float64_of_int n) = nat_magnitude (nat \<bar>n\<bar>)"
    by (cases "n < 0") (simp_all add: float_magnitude_def)
  from u b show "float_negative (float64_of_int n) = (n < 0)"
    by (cases "n < 0") (simp_all add: float_negative_def)
qed

lemma float64_of_int_finite:
  assumes "\<bar>n\<bar> \<le> 2 ^ 53"
  shows "\<not> IsNaN (float64_of_int n)" and "\<not> IsInf (float64_of_int n)"
proof -
  have "nat_magnitude (nat \<bar>n\<bar>) < 2047 * 2 ^ 52"
    using assms by (intro nat_magnitude_bound) simp
  then have "float_exponent (float64_of_int n) \<noteq> 2047"
    using float_magnitude_of_int(1) [OF assms] by (simp add: float_exponent_def)
  then show "\<not> IsNaN (float64_of_int n)" "\<not> IsInf (float64_of_int n)"
    by (simp_all add: IsNaN_def IsInf_def)
qed

lemma float_key_of_int:
  "\<bar>n\<bar> \<le> 2 ^ 53 \<Longrightarrow>
   float_key (float64_of_int n) = (if n < 0 then - 1 else 1) * int (nat_magnitude (nat \<bar>n\<bar>))"
  by (simp add: float_key_def float_magnitude_of_int)

lemma float_key_of_int_less:
  assumes "\<bar>m\<bar> \<le> 2 ^ 53" "\<bar>n\<bar> \<le> 2 ^ 53" "m < n"
  shows "float_key (float64_of_int m) < float_key (float64_of_int n)"
proof -
  note k = float_key_of_int [OF assms(1)] float_key_of_int [OF assms(2)]
  have z: "nat_magnitude 0 = 0" by (simp add: nat_magnitude_def)
  consider "0 \<le> m" | "m < 0" "0 \<le> n" | "n < 0" using assms(3) by linarith
  then show ?thesis
  proof cases
    case 1
    then have "nat_magnitude (nat \<bar>m\<bar>) < nat_magnitude (nat \<bar>n\<bar>)"
      using assms by (intro nat_magnitude_less) auto
    with 1 assms(3) k show ?thesis by simp
  next
    case 2
    then have "nat_magnitude 0 < nat_magnitude (nat \<bar>m\<bar>)"
      using assms by (intro nat_magnitude_less) auto
    with 2 k z show ?thesis by simp
  next
    case 3
    then have "nat_magnitude (nat \<bar>n\<bar>) < nat_magnitude (nat \<bar>m\<bar>)"
      using assms by (intro nat_magnitude_less) auto
    with 3 assms(3) k show ?thesis by simp
  qed
qed

lemma float_lt_of_int:
  "\<bar>m\<bar> \<le> 2 ^ 53 \<Longrightarrow> \<bar>n\<bar> \<le> 2 ^ 53 \<Longrightarrow>
   float_lt (float64_of_int m) (float64_of_int n) \<longleftrightarrow> m < n"
  using float_key_of_int_less [of m n] float_key_of_int_less [of n m]
  by (cases m n rule: linorder_cases) (auto simp: float_lt_def float64_of_int_finite)

lemma float_eq_of_int:
  "\<bar>m\<bar> \<le> 2 ^ 53 \<Longrightarrow> \<bar>n\<bar> \<le> 2 ^ 53 \<Longrightarrow>
   float_eq (float64_of_int m) (float64_of_int n) \<longleftrightarrow> m = n"
  using float_key_of_int_less [of m n] float_key_of_int_less [of n m]
  by (cases m n rule: linorder_cases) (auto simp: float_eq_def float64_of_int_finite)

end
