(* ===== verification/Query.thy ===== *)
theory Query
  imports Query_Paths Float64
begin

text \<open>
  The query language (\<open>query/value.go\<close>, \<open>query/expression.go\<close>,
  \<open>query/controls.go\<close>): operands, validated comparisons, the combinators that
  flatten nested conditions, detached node snapshots, and sort terms. A panic of
  the constructors is an \<^const>\<open>Inl\<close>. The lemmas show that what the combinators
  build is in a normal form and means what their documentation says.
\<close>

section \<open>Operands\<close>

datatype value_kind =
    ValueString | ValueNumber | ValueBoolean | ValueNull | ValueList | ValueReference | ValueInvalid

text \<open>
  The struct \<open>Value\<close> is a tagged union: each constructor carries the fields its
  kind reads. \<open>VZero\<close> is the zero struct, whose kind is the empty string. The
  items of a list may be a nil slice, which JSON tells from an empty one.
\<close>

datatype qvalue =
    VString string
  | VNumber float64
  | VBoolean bool
  | VNull
  | VList "qvalue list option"
  | VReference string string
  | VZero

fun value_Kind :: "qvalue \<Rightarrow> value_kind" where
  "value_Kind (VString _) = ValueString"
| "value_Kind (VNumber _) = ValueNumber"
| "value_Kind (VBoolean _) = ValueBoolean"
| "value_Kind VNull = ValueNull"
| "value_Kind (VList _) = ValueList"
| "value_Kind (VReference _ _) = ValueReference"
| "value_Kind VZero = ValueInvalid"

fun cloneValue :: "qvalue \<Rightarrow> qvalue" where
  "cloneValue (VList None) = VList None"
| "cloneValue (VList (Some items)) = VList (Some (map cloneValue items))"
| "cloneValue v = v"

definition cloneValues :: "qvalue list option \<Rightarrow> qvalue list option" where
  "cloneValues values = map_option (map cloneValue) values"

definition maxExactInteger :: int where "maxExactInteger = 2 ^ 53"

datatype query_panic =
    PanicPath path_error
  | PanicIntegerRange int
  | PanicNotFinite float64
  | PanicListOperand
  | PanicNeedsOrdered
  | PanicNeedsString
  | PanicNeedsList
  | PanicNeedsBoolean
  | PanicUnknownOperator string
  | PanicEmptyPath
  | PanicNoConditions
  | PanicNilCondition nat
  | PanicSortDirection string

definition integerValue :: "int \<Rightarrow> query_panic + qvalue" where
  "integerValue n =
     (if n > maxExactInteger \<or> n < - maxExactInteger then Inl (PanicIntegerRange n)
      else Inr (VNumber (float64_of_int n)))"

definition floatValue :: "float64 \<Rightarrow> query_panic + qvalue" where
  "floatValue x = (if IsNaN x \<or> IsInf x then Inl (PanicNotFinite x) else Inr (VNumber x))"

text \<open>
  What \<open>valueOf\<close> is called with, by the reflect kind it switches on: a float32 is
  widened by \<open>reflect.Value.Float\<close> before it is looked at.
\<close>

datatype operand =
    OpValue qvalue | OpString string | OpBool bool | OpInt int | OpUint int | OpFloat float64

fun valueOf :: "operand \<Rightarrow> query_panic + qvalue" where
  "valueOf (OpValue v) = Inr v"
| "valueOf (OpString s) = Inr (VString s)"
| "valueOf (OpBool b) = Inr (VBoolean b)"
| "valueOf (OpInt n) = integerValue n"
| "valueOf (OpUint n) =
     (if n > maxExactInteger then Inl (PanicIntegerRange n) else Inr (VNumber (float64_of_int n)))"
| "valueOf (OpFloat x) = floatValue x"

fun StringValue :: "qvalue \<Rightarrow> string option" where
  "StringValue (VString s) = Some s" | "StringValue _ = None"
fun NumberValue :: "qvalue \<Rightarrow> float64 option" where
  "NumberValue (VNumber x) = Some x" | "NumberValue _ = None"
fun BooleanValue :: "qvalue \<Rightarrow> bool option" where
  "BooleanValue (VBoolean b) = Some b" | "BooleanValue _ = None"
fun ReferenceValue :: "qvalue \<Rightarrow> (string \<times> string) option" where
  "ReferenceValue (VReference c i) = Some (c, i)" | "ReferenceValue _ = None"
fun value_Values :: "qvalue \<Rightarrow> qvalue list" where
  "value_Values (VList (Some items)) = map cloneValue items" | "value_Values _ = []"

text \<open>\<open>MarshalJSON\<close> as the JSON value it writes.\<close>

datatype json =
  JString string | JNumber float64 | JBool bool | JNull | JArray "json list" | JObject "(string \<times> json) list"

fun value_json :: "qvalue \<Rightarrow> json option" where
  "value_json (VString s) = Some (JString s)"
| "value_json (VNumber x) = (if IsNaN x \<or> IsInf x then None else Some (JNumber x))"
| "value_json (VBoolean b) = Some (JBool b)"
| "value_json VNull = Some JNull"
| "value_json (VList None) = Some JNull"
| "value_json (VList (Some items)) =
     (if list_all (\<lambda>v. value_json v \<noteq> None) items
      then Some (JArray (map (\<lambda>v. the (value_json v)) items)) else None)"
| "value_json (VReference c i) = Some (JObject [(''relationTo'', JString c), (''id'', JString i)])"
| "value_json VZero = None"

section \<open>Comparisons\<close>

datatype operator =
    OpEqual | OpNotEqual | OpIn | OpExists | OpGreaterThan | OpGreaterThanEqual | OpLessThan
  | OpLessThanEqual | OpContains | OpLike | OpOther string

record comparison =
  cmpPath :: path
  cmpOperator :: operator
  cmpValue :: qvalue

datatype expression_kind =
  ExpressionComparison | ExpressionAnd | ExpressionOr | ExpressionNot | ExpressionOther string

datatype expr =
  Expression (exprKind: expression_kind) (exprComparison: "comparison option") (exprChildren: "expr list")

datatype node =
  Node (nodeKind: expression_kind) (nodeComparison: "comparison option") (nodeChildren: "node list")

text \<open>
  An argument of type \<open>Expression\<close>: nil, the package's own type, or a type that
  embeds one and overrides \<open>Node\<close> with the snapshot it returns.
\<close>

datatype condition = NilCondition | Own expr | Foreign node

definition Compare :: "path \<Rightarrow> operator \<Rightarrow> qvalue \<Rightarrow> query_panic + expr" where
  "Compare path opr v =
     (if path_String path = [] then Inl PanicEmptyPath
      else let ok = Inr (Expression ExpressionComparison
                 (Some \<lparr>cmpPath = path, cmpOperator = opr, cmpValue = v\<rparr>) [])
      in (case opr of
           OpEqual \<Rightarrow> if value_Kind v = ValueList then Inl PanicListOperand else ok
         | OpNotEqual \<Rightarrow> if value_Kind v = ValueList then Inl PanicListOperand else ok
         | OpGreaterThan \<Rightarrow>
             if value_Kind v \<noteq> ValueString \<and> value_Kind v \<noteq> ValueNumber then Inl PanicNeedsOrdered else ok
         | OpGreaterThanEqual \<Rightarrow>
             if value_Kind v \<noteq> ValueString \<and> value_Kind v \<noteq> ValueNumber then Inl PanicNeedsOrdered else ok
         | OpLessThan \<Rightarrow>
             if value_Kind v \<noteq> ValueString \<and> value_Kind v \<noteq> ValueNumber then Inl PanicNeedsOrdered else ok
         | OpLessThanEqual \<Rightarrow>
             if value_Kind v \<noteq> ValueString \<and> value_Kind v \<noteq> ValueNumber then Inl PanicNeedsOrdered else ok
         | OpContains \<Rightarrow> if value_Kind v \<noteq> ValueString then Inl PanicNeedsString else ok
         | OpLike \<Rightarrow> if value_Kind v \<noteq> ValueString then Inl PanicNeedsString else ok
         | OpIn \<Rightarrow> if value_Kind v \<noteq> ValueList then Inl PanicNeedsList else ok
         | OpExists \<Rightarrow> if value_Kind v \<noteq> ValueBoolean then Inl PanicNeedsBoolean else ok
         | OpOther s \<Rightarrow> Inl (PanicUnknownOperator s)))"

fun bind_sum :: "'e + 'a \<Rightarrow> ('a \<Rightarrow> 'e + 'b) \<Rightarrow> 'e + 'b" where
  "bind_sum (Inl e) f = Inl e"
| "bind_sum (Inr a) f = f a"

definition query_path :: "field_path \<Rightarrow> query_panic + path" where
  "query_path fp = (case pathOf fp of Inl e \<Rightarrow> Inl (PanicPath e) | Inr p \<Rightarrow> Inr p)"

definition compare_operand :: "operator \<Rightarrow> field_path \<Rightarrow> operand \<Rightarrow> query_panic + expr" where
  "compare_operand opr fp v =
     bind_sum (query_path fp) (\<lambda>p. bind_sum (valueOf v) (\<lambda>w. Compare p opr w))"

definition Equal :: "field_path \<Rightarrow> operand \<Rightarrow> query_panic + expr" where
  "Equal = compare_operand OpEqual"
definition NotEqual :: "field_path \<Rightarrow> operand \<Rightarrow> query_panic + expr" where
  "NotEqual = compare_operand OpNotEqual"
definition GreaterThan :: "field_path \<Rightarrow> operand \<Rightarrow> query_panic + expr" where
  "GreaterThan = compare_operand OpGreaterThan"
definition GreaterThanEqual :: "field_path \<Rightarrow> operand \<Rightarrow> query_panic + expr" where
  "GreaterThanEqual = compare_operand OpGreaterThanEqual"
definition LessThan :: "field_path \<Rightarrow> operand \<Rightarrow> query_panic + expr" where
  "LessThan = compare_operand OpLessThan"
definition LessThanEqual :: "field_path \<Rightarrow> operand \<Rightarrow> query_panic + expr" where
  "LessThanEqual = compare_operand OpLessThanEqual"
definition Contains :: "field_path \<Rightarrow> string \<Rightarrow> query_panic + expr" where
  "Contains fp s = compare_operand OpContains fp (OpValue (VString s))"
definition Like :: "field_path \<Rightarrow> string \<Rightarrow> query_panic + expr" where
  "Like fp s = compare_operand OpLike fp (OpValue (VString s))"
definition Exists :: "field_path \<Rightarrow> bool \<Rightarrow> query_panic + expr" where
  "Exists fp b = compare_operand OpExists fp (OpValue (VBoolean b))"

fun values_of :: "operand list \<Rightarrow> query_panic + qvalue list" where
  "values_of [] = Inr []"
| "values_of (v # r) = bind_sum (valueOf v) (\<lambda>w. bind_sum (values_of r) (\<lambda>ws. Inr (w # ws)))"

definition In :: "field_path \<Rightarrow> operand list \<Rightarrow> query_panic + expr" where
  "In fp values =
     bind_sum (values_of values)
       (\<lambda>items. bind_sum (query_path fp) (\<lambda>p. Compare p OpIn (VList (Some items))))"

section \<open>Snapshots and combinators\<close>

fun cloneNode :: "expr \<Rightarrow> node" where
  "cloneNode (Expression k c children) = Node k c (map cloneNode children)"

fun expressionFromNode :: "node \<Rightarrow> expr" where
  "expressionFromNode (Node k c children) = Expression k c (map expressionFromNode children)"

fun sealed :: "condition \<Rightarrow> expr option" where
  "sealed NilCondition = None"
| "sealed (Own e) = Some e"
| "sealed (Foreign n) = Some (expressionFromNode n)"

fun collect_children ::
  "expression_kind \<Rightarrow> nat \<Rightarrow> condition list \<Rightarrow> expr list \<Rightarrow> query_panic + expr list" where
  "collect_children kind index [] children = Inr children"
| "collect_children kind index (condition # r) children =
     (case sealed condition of
        None \<Rightarrow> Inl (PanicNilCondition index)
      | Some child \<Rightarrow>
          if exprKind child = kind then collect_children kind (index + 1) r (children @ exprChildren child)
          else collect_children kind (index + 1) r (children @ [child]))"

definition logical :: "expression_kind \<Rightarrow> condition list \<Rightarrow> query_panic + expr" where
  "logical kind conditions =
     (if length conditions = 0 then Inl PanicNoConditions
      else (case collect_children kind 0 conditions [] of
              Inl e \<Rightarrow> Inl e
            | Inr children \<Rightarrow>
                if length children = 1 then Inr (hd children)
                else Inr (Expression kind None children)))"

definition And :: "condition list \<Rightarrow> query_panic + expr" where
  "And conditions = logical ExpressionAnd conditions"

definition Or :: "condition list \<Rightarrow> query_panic + expr" where
  "Or conditions = logical ExpressionOr conditions"

definition Not :: "condition \<Rightarrow> query_panic + expr" where
  "Not condition =
     (case sealed condition of
        None \<Rightarrow> Inl (PanicNilCondition 0)
      | Some e \<Rightarrow> Inr (Expression ExpressionNot None [e]))"

section \<open>Sort terms\<close>

datatype direction = Ascending | Descending | DirectionOther string

record sort_term =
  srtPath :: path
  srtDirection :: direction

definition Asc :: "field_path \<Rightarrow> query_panic + sort_term" where
  "Asc fp = bind_sum (query_path fp) (\<lambda>p. Inr \<lparr>srtPath = p, srtDirection = Ascending\<rparr>)"

definition Desc :: "field_path \<Rightarrow> query_panic + sort_term" where
  "Desc fp = bind_sum (query_path fp) (\<lambda>p. Inr \<lparr>srtPath = p, srtDirection = Descending\<rparr>)"

definition NewSort :: "path \<Rightarrow> direction \<Rightarrow> query_panic + sort_term" where
  "NewSort path direction =
     (if path_String path = [] then Inl PanicEmptyPath
      else case direction of
             DirectionOther d \<Rightarrow> Inl (PanicSortDirection d)
           | _ \<Rightarrow> Inr \<lparr>srtPath = path, srtDirection = direction\<rparr>)"

section \<open>Lemmas\<close>

lemma bind_sum_Inr [simp]: "bind_sum m f = Inr b \<longleftrightarrow> (\<exists>a. m = Inr a \<and> f a = Inr b)"
  by (cases m) auto

lemma cloneValue_id [simp]: "cloneValue v = v"
  by (induction v rule: cloneValue.induct) (auto simp: list.map_ident_strong)

lemma cloneValues_id [simp]: "cloneValues vs = vs"
  by (cases vs) (auto simp: cloneValues_def list.map_ident_strong)

lemma from_clone [simp]: "expressionFromNode (cloneNode e) = e"
  by (induction e) (simp add: list.map_ident_strong)

lemma clone_from [simp]: "cloneNode (expressionFromNode n) = n"
  by (induction n) (simp add: list.map_ident_strong)

text \<open>
  What an expression denotes, given which comparisons a document satisfies: the
  reading the documentation of \<open>And\<close>, \<open>Or\<close> and \<open>Not\<close> gives.
\<close>

fun holds :: "(comparison \<Rightarrow> bool) \<Rightarrow> expr \<Rightarrow> bool" where
  "holds sat (Expression k c children) =
     (case k of
        ExpressionComparison \<Rightarrow> (case c of None \<Rightarrow> False | Some cmp \<Rightarrow> sat cmp)
      | ExpressionAnd \<Rightarrow> list_all (holds sat) children
      | ExpressionOr \<Rightarrow> list_ex (holds sat) children
      | ExpressionNot \<Rightarrow> \<not> list_ex (holds sat) children
      | ExpressionOther _ \<Rightarrow> False)"

text \<open>The shape of the expressions that the constructors produce.\<close>

definition valid_comparison :: "comparison \<Rightarrow> bool" where
  "valid_comparison c = (\<exists>e. Compare (cmpPath c) (cmpOperator c) (cmpValue c) = Inr e)"

fun normal :: "expr \<Rightarrow> bool" where
  "normal (Expression k c children) =
     (case k of
        ExpressionComparison \<Rightarrow>
          children = [] \<and> (case c of None \<Rightarrow> False | Some cmp \<Rightarrow> valid_comparison cmp)
      | ExpressionNot \<Rightarrow> c = None \<and> length children = 1 \<and> list_all normal children
      | ExpressionAnd \<Rightarrow> c = None \<and> 2 \<le> length children
          \<and> list_all (\<lambda>e. normal e \<and> exprKind e \<noteq> ExpressionAnd) children
      | ExpressionOr \<Rightarrow> c = None \<and> 2 \<le> length children
          \<and> list_all (\<lambda>e. normal e \<and> exprKind e \<noteq> ExpressionOr) children
      | ExpressionOther _ \<Rightarrow> False)"

lemma Compare_shape:
  "Compare p opr v = Inr e \<Longrightarrow>
   e = Expression ExpressionComparison (Some \<lparr>cmpPath = p, cmpOperator = opr, cmpValue = v\<rparr>) []"
  by (auto simp: Compare_def Let_def split: if_splits operator.splits)

lemma Compare_normal: "Compare p opr v = Inr e \<Longrightarrow> normal e"
  by (frule Compare_shape) (auto simp: valid_comparison_def)

lemma compare_operand_normal: "compare_operand opr fp v = Inr e \<Longrightarrow> normal e"
  by (auto simp: compare_operand_def intro: Compare_normal)

fun pieces :: "expression_kind \<Rightarrow> expr \<Rightarrow> expr list" where
  "pieces kind e = (if exprKind e = kind then exprChildren e else [e])"

lemma collect_children_ok:
  "collect_children kind i cs acc = Inr es \<longleftrightarrow>
   list_all (\<lambda>c. sealed c \<noteq> None) cs
   \<and> es = acc @ concat (map (\<lambda>c. pieces kind (the (sealed c))) cs)"
  by (induction cs arbitrary: i acc) (auto split: option.splits)

lemma collect_children_nil:
  "collect_children kind i cs acc = Inl e \<Longrightarrow>
   \<exists>k < length cs. sealed (cs ! k) = None \<and> e = PanicNilCondition (i + k)"
proof (induction cs arbitrary: i acc)
  case (Cons c cs)
  show ?case
  proof (cases "sealed c")
    case None
    with Cons.prems show ?thesis by auto
  next
    case (Some x)
    with Cons.prems obtain acc' where "collect_children kind (i + 1) cs acc' = Inl e"
      by (auto split: if_splits)
    from Cons.IH [OF this] show ?thesis by auto
  qed
qed simp

lemma pieces_nonempty:
  "normal e \<Longrightarrow> kind = ExpressionAnd \<or> kind = ExpressionOr \<Longrightarrow> pieces kind e \<noteq> []"
  by (cases e) (auto split: expression_kind.splits)

lemma normal_children: "normal e \<Longrightarrow> x \<in> set (exprChildren e) \<Longrightarrow> normal x"
  by (cases e) (auto simp: list_all_iff split: expression_kind.splits)

lemma pieces_normal:
  "normal e \<Longrightarrow> kind = ExpressionAnd \<or> kind = ExpressionOr \<Longrightarrow> x \<in> set (pieces kind e) \<Longrightarrow>
   normal x \<and> exprKind x \<noteq> kind"
  by (cases e) (auto simp: list_all_iff split: if_splits)

lemma holds_pieces_And: "list_all (holds sat) (pieces ExpressionAnd e) = holds sat e"
  by (cases e) auto

lemma holds_pieces_Or: "list_ex (holds sat) (pieces ExpressionOr e) = holds sat e"
  by (cases e) auto

lemma sealed_None [simp]: "sealed c = None \<longleftrightarrow> c = NilCondition"
  by (cases c) auto

definition flat :: "expression_kind \<Rightarrow> condition list \<Rightarrow> expr list" where
  "flat kind cs = concat (map (\<lambda>c. pieces kind (the (sealed c))) cs)"

definition wrap :: "expression_kind \<Rightarrow> expr list \<Rightarrow> expr" where
  "wrap kind es = (if length es = 1 then hd es else Expression kind None es)"

lemma logical_ok:
  "logical kind cs = Inr e \<longleftrightarrow> cs \<noteq> [] \<and> NilCondition \<notin> set cs \<and> e = wrap kind (flat kind cs)"
proof (cases "collect_children kind 0 cs []")
  case (Inl p)
  then have "\<not> list_all (\<lambda>c. sealed c \<noteq> None) cs" by (metis collect_children_ok sum.distinct(1))
  with Inl show ?thesis by (auto simp: logical_def list_all_iff)
next
  case (Inr es)
  then have "list_all (\<lambda>c. sealed c \<noteq> None) cs" "es = flat kind cs"
    by (simp_all add: collect_children_ok flat_def)
  with Inr show ?thesis by (auto simp: logical_def wrap_def list_all_iff)
qed

lemma logical_panics:
  "(\<exists>p. logical kind cs = Inl p) \<longleftrightarrow> cs = [] \<or> NilCondition \<in> set cs"
  by (metis logical_ok sum.exhaust sum.distinct(1))

lemma wrap_holds:
  "holds sat (wrap ExpressionAnd es) = list_all (holds sat) es"
  "holds sat (wrap ExpressionOr es) = list_ex (holds sat) es"
  by (cases es; auto simp: wrap_def)+

lemma logical_And_holds:
  "logical ExpressionAnd cs = Inr e \<Longrightarrow> holds sat e = list_all (\<lambda>c. holds sat (the (sealed c))) cs"
proof -
  have "list_all (holds sat) (flat ExpressionAnd cs) = list_all (\<lambda>c. holds sat (the (sealed c))) cs"
    unfolding flat_def by (induction cs) (simp_all add: holds_pieces_And del: pieces.simps)
  then show "logical ExpressionAnd cs = Inr e \<Longrightarrow> ?thesis" by (auto simp: logical_ok wrap_holds)
qed

lemma logical_Or_holds:
  "logical ExpressionOr cs = Inr e \<Longrightarrow> holds sat e = list_ex (\<lambda>c. holds sat (the (sealed c))) cs"
proof -
  have "list_ex (holds sat) (flat ExpressionOr cs) = list_ex (\<lambda>c. holds sat (the (sealed c))) cs"
    unfolding flat_def by (induction cs) (simp_all add: holds_pieces_Or del: pieces.simps)
  then show "logical ExpressionOr cs = Inr e \<Longrightarrow> ?thesis" by (auto simp: logical_ok wrap_holds)
qed

lemma wrap_normal:
  "es \<noteq> [] \<Longrightarrow> list_all (\<lambda>x. normal x \<and> exprKind x \<noteq> kind) es \<Longrightarrow>
   kind = ExpressionAnd \<or> kind = ExpressionOr \<Longrightarrow> normal (wrap kind es)"
proof -
  assume a: "es \<noteq> []" "list_all (\<lambda>x. normal x \<and> exprKind x \<noteq> kind) es"
    "kind = ExpressionAnd \<or> kind = ExpressionOr"
  then consider x where "es = [x]" | x y r where "es = x # y # r" by (metis list.exhaust)
  then show ?thesis using a by cases (auto simp: wrap_def)
qed

definition normal_condition :: "condition \<Rightarrow> bool" where
  "normal_condition c \<longleftrightarrow> c \<noteq> NilCondition \<longrightarrow> normal (the (sealed c))"

lemma logical_normal:
  assumes "logical kind cs = Inr e" "kind = ExpressionAnd \<or> kind = ExpressionOr"
    "list_all normal_condition cs"
  shows "normal e"
proof -
  from assms have c: "cs \<noteq> []" "NilCondition \<notin> set cs" and e: "e = wrap kind (flat kind cs)"
    by (auto simp: logical_ok)
  have n: "normal (the (sealed c))" if "c \<in> set cs" for c
    using that assms(3) c(2) by (auto simp: list_all_iff normal_condition_def)
  have "flat kind cs \<noteq> []"
    using c n pieces_nonempty assms(2) unfolding flat_def by (cases cs) (auto simp del: pieces.simps)
  moreover have "list_all (\<lambda>x. normal x \<and> exprKind x \<noteq> kind) (flat kind cs)"
    unfolding list_all_iff
  proof
    fix x assume "x \<in> set (flat kind cs)"
    then obtain c where "c \<in> set cs" "x \<in> set (pieces kind (the (sealed c)))"
      by (auto simp: flat_def simp del: pieces.simps)
    with n assms(2) show "normal x \<and> exprKind x \<noteq> kind" using pieces_normal by blast
  qed
  ultimately show ?thesis using e assms(2) by (simp add: wrap_normal)
qed

lemma Not_ok: "Not c = Inr e \<longleftrightarrow> c \<noteq> NilCondition \<and> e = Expression ExpressionNot None [the (sealed c)]"
  by (auto simp: Not_def split: option.splits)

text \<open>
  C24. A path parsed from text is a valid path whose dotted form is that text, and
  every valid path is accepted: \<open>ParsePath\<close> and \<open>String\<close> are inverse to each other,
  within 64 segments and 4096 bytes, system paths included.
\<close>

theorem parse_path_roundtrip:
  "ParsePath s = Inr p \<longleftrightarrow> valid_path p \<and> s = path_String p"
  by (rule ParsePath_ok)

text \<open>
  The hand-written segment scanner decides exactly the regular expression its
  error message documents; every field name a schema accepts is a segment it accepts,
  and an accepted segment without hyphens is such a field name.
\<close>

theorem segment_scanner_is_the_pattern:
  "validPathSegment s = MatchString pathSegmentPattern s
   \<and> IsValidFieldName s = (validPathSegment s \<and> CHR ''-'' \<notin> set s)"
proof -
  have "validPathSegment s = MatchString pathSegmentPattern s"
    by (simp add: pathSegmentPattern_def match_head_rest validPathSegment_alt)
  moreover have "IsValidFieldName s = (validPathSegment s \<and> CHR ''-'' \<notin> set s)"
    by (cases s) (auto simp: field_name_iff validPathSegment_alt list_all_iff cls_word_def
        is_alnum_def is_lower_def is_upper_def is_digit_def)
  ultimately show ?thesis by simp
qed


definition example_condition :: "string \<Rightarrow> condition" where
  "example_condition name =
     (case Equal (FieldName name) (OpString ''x'') of Inr e \<Rightarrow> Own e | Inl _ \<Rightarrow> NilCondition)"


text \<open>
  C25. The constructors keep expressions in normal form: conditions in normal form
  are combined into one in normal form, where a conjunction or disjunction has at
  least two children, none of its own kind, and every comparison passed validation.
\<close>

theorem constructors_keep_normal_form:
  assumes "list_all normal_condition cs"
  shows "(And cs = Inr e \<longrightarrow> normal e) \<and> (Or cs = Inr e \<longrightarrow> normal e)
    \<and> (Not c = Inr e \<and> c \<in> set cs \<longrightarrow> normal e)
    \<and> (compare_operand opr fp v = Inr e \<longrightarrow> normal e) \<and> (In fp vs = Inr e \<longrightarrow> normal e)"
  using assms
  by (auto simp: And_def Or_def In_def Not_ok list_all_iff normal_condition_def
      intro: compare_operand_normal Compare_normal logical_normal [where cs = cs])

theorem constructors_keep_normal_form_witness:
  "case And [example_condition ''a'', example_condition ''b''] of Inr e \<Rightarrow> normal e | Inl _ \<Rightarrow> False"
proof -
  let ?cs = "[example_condition ''a'', example_condition ''b'']"
  have a: "And ?cs = Inr (Expression ExpressionAnd None (map (\<lambda>c. the (sealed c)) ?cs))"
    by code_simp
  have "normal_condition (example_condition n)" for n
    by (auto simp: normal_condition_def example_condition_def Equal_def
        split: sum.splits intro: compare_operand_normal)
  then have "list_all normal_condition ?cs" by simp
  from constructors_keep_normal_form [OF this] a
  have "normal (Expression ExpressionAnd None (map (\<lambda>c. the (sealed c)) ?cs))" by blast
  with a show ?thesis by simp
qed

end
