(* ===== verification/Value_List.thy ===== *)
theory Value_List
  imports Prelude
begin

text \<open>
  The immutable radix tree that backs list values (\<open>store/value_list.go\<close>): built
  from a slice with 32-way branches, read and replaced by index, copied out and
  visited in order. A node is a leaf or a branch and caches its length; a nil root
  is \<^const>\<open>None\<close>. Go's out-of-range panic is \<^const>\<open>None\<close>.

  The interface \<open>indexed_sequence\<close> states what callers of the tree rely on; the
  tree satisfies it because its shape depends on the length alone, so replacing an
  item gives the very tree that building the changed slice gives.
\<close>

datatype 'a vnode =
    Leaf (leaf_items: "'a list") (leaf_length: nat)
  | Branch (branch_children: "'a vnode list") (branch_length: nat)

type_synonym 'a vlist = "'a vnode option"

definition valueListBits :: nat where "valueListBits = 5"
definition valueListWidth :: nat where "valueListWidth = 2 ^ valueListBits"

fun shift_loop :: "nat \<Rightarrow> nat \<Rightarrow> nat" where
  "shift_loop remaining shift =
     (if 32 \<le> remaining then shift_loop (remaining div 32) (shift + 5) else shift)"

declare shift_loop.simps [simp del]

text \<open>For the empty list Go's loop starts at -1 and ends at once, as it does from 0.\<close>

definition valueListShift :: "nat \<Rightarrow> nat" where
  "valueListShift len = shift_loop (len - 1) 0"

definition slice :: "'a list \<Rightarrow> nat \<Rightarrow> nat \<Rightarrow> 'a list" where
  "slice items from to = take (to - from) (drop from items)"

fun buildValueList :: "'a list \<Rightarrow> nat \<Rightarrow> 'a vnode" where
  "buildValueList items shift =
     (if shift = 0 then Leaf items (length items)
      else let span = 2 ^ shift in
        Branch (map (\<lambda>index. let start = index * span in
                   buildValueList (slice items start (min (start + span) (length items))) (shift - 5))
                 [0..<(length items - 1) div span + 1])
          (length items))"

declare buildValueList.simps [simp del]

definition newValueList :: "'a list \<Rightarrow> 'a vlist" where
  "newValueList items =
     (if length items = 0 then None else Some (buildValueList items (valueListShift (length items))))"

text \<open>
  \<open>ownValueList\<close> reuses the slice of the caller where \<open>newValueList\<close> copies it;
  leaves are never written, so both are the same value.
\<close>

fun buildOwnedValueList :: "'a list \<Rightarrow> nat \<Rightarrow> 'a vnode" where
  "buildOwnedValueList items shift =
     (if shift = 0 then Leaf items (length items)
      else let span = 2 ^ shift in
        Branch (map (\<lambda>index. let start = index * span in
                   buildOwnedValueList (slice items start (min (start + span) (length items))) (shift - 5))
                 [0..<(length items - 1) div span + 1])
          (length items))"

declare buildOwnedValueList.simps [simp del]

definition ownValueList :: "'a list \<Rightarrow> 'a vlist" where
  "ownValueList items =
     (if length items = 0 then None
      else Some (buildOwnedValueList items (valueListShift (length items))))"

fun vlen :: "'a vlist \<Rightarrow> nat" where
  "vlen None = 0"
| "vlen (Some (Leaf items n)) = n"
| "vlen (Some (Branch children n)) = n"

fun item :: "'a vnode \<Rightarrow> nat \<Rightarrow> nat \<Rightarrow> 'a option" where
  "item (Leaf items n) index shift =
     (if shift = 0 \<and> index < length items then Some (items ! index) else None)"
| "item (Branch children n) index shift =
     (if shift = 0 then None
      else if index div 2 ^ shift < length children
        then item (children ! (index div 2 ^ shift)) (index mod 2 ^ shift) (shift - 5)
      else None)"

fun withItem :: "'a vnode \<Rightarrow> nat \<Rightarrow> 'a \<Rightarrow> nat \<Rightarrow> 'a vnode option" where
  "withItem (Leaf items n) index replacement shift =
     (if shift = 0 \<and> index < length items then Some (Leaf (items[index := replacement]) n) else None)"
| "withItem (Branch children n) index replacement shift =
     (if shift = 0 then None
      else let child = index div 2 ^ shift in
        if child < length children
        then (case withItem (children ! child) (index mod 2 ^ shift) replacement (shift - 5) of
                None \<Rightarrow> None
              | Some c \<Rightarrow> Some (Branch (children[child := c]) n))
        else None)"

text \<open>\<open>copyTo\<close> returns how much it copied and the destination it filled.\<close>

definition go_copy :: "'a list \<Rightarrow> 'a list \<Rightarrow> nat \<times> 'a list" where
  "go_copy destination items =
     (let n = min (length destination) (length items)
      in (n, take n items @ drop n destination))"

fun node_copyTo :: "'a vnode \<Rightarrow> 'a list \<Rightarrow> nat \<times> 'a list"
and children_copyTo :: "'a vnode list \<Rightarrow> nat \<Rightarrow> 'a list \<Rightarrow> nat \<times> 'a list" where
  "node_copyTo (Leaf items n) destination = go_copy destination items"
| "node_copyTo (Branch children n) destination = children_copyTo children 0 destination"
| "children_copyTo [] copied destination = (copied, destination)"
| "children_copyTo (c # r) copied destination =
     (let (n, rest) = node_copyTo c (drop copied destination)
      in children_copyTo r (copied + n) (take copied destination @ rest))"

definition copyTo :: "'a vlist \<Rightarrow> 'a list \<Rightarrow> nat \<times> 'a list" where
  "copyTo list destination =
     (case list of None \<Rightarrow> (0, destination) | Some t \<Rightarrow> node_copyTo t destination)"

text \<open>
  A visitor returns whether to go on, and its own new state.
\<close>

fun visit_items :: "('a \<Rightarrow> 's \<Rightarrow> bool \<times> 's) \<Rightarrow> 'a list \<Rightarrow> 's \<Rightarrow> bool \<times> 's" where
  "visit_items visitor [] s = (True, s)"
| "visit_items visitor (x # r) s =
     (let (go_on, s') = visitor x s in if \<not> go_on then (False, s') else visit_items visitor r s')"

lemma visit_items_cong [fundef_cong]:
  "xs = ys \<Longrightarrow> s = t \<Longrightarrow> (\<And>x s. x \<in> set ys \<Longrightarrow> f x s = g x s) \<Longrightarrow>
   visit_items f xs s = visit_items g ys t"
proof (induction ys arbitrary: xs s t)
  case (Cons y ys)
  then have "visit_items f ys s' = visit_items g ys s'" for s' by simp
  with Cons.prems show ?case by (auto split: prod.splits)
qed simp

fun node_visit :: "('a \<Rightarrow> 's \<Rightarrow> bool \<times> 's) \<Rightarrow> 'a vnode \<Rightarrow> 's \<Rightarrow> bool \<times> 's" where
  "node_visit visitor (Leaf items n) s = visit_items visitor items s"
| "node_visit visitor (Branch children n) s = visit_items (node_visit visitor) children s"

definition visit :: "('a \<Rightarrow> 's \<Rightarrow> bool \<times> 's) \<Rightarrow> 'a vlist \<Rightarrow> 's \<Rightarrow> bool \<times> 's" where
  "visit visitor list s = (case list of None \<Rightarrow> (True, s) | Some t \<Rightarrow> node_visit visitor t s)"

section \<open>The contents of a tree\<close>

fun contents :: "'a vnode \<Rightarrow> 'a list" where
  "contents (Leaf items n) = items"
| "contents (Branch children n) = concat (map contents children)"

definition elements :: "'a vlist \<Rightarrow> 'a list" where
  "elements t = (case t of None \<Rightarrow> [] | Some n \<Rightarrow> contents n)"

lemma slice_length: "to \<le> length xs \<Longrightarrow> length (slice xs from to) = to - from"
  by (simp add: slice_def)

lemma slice_nth: "from + i < to \<Longrightarrow> to \<le> length xs \<Longrightarrow> slice xs from to ! i = xs ! (from + i)"
  by (simp add: slice_def)

definition chunk :: "'a list \<Rightarrow> nat \<Rightarrow> nat \<Rightarrow> 'a list" where
  "chunk xs w k = slice xs (k * w) (min (k * w + w) (length xs))"

lemma build_leaf [simp]: "buildValueList xs 0 = Leaf xs (length xs)"
  by (simp add: buildValueList.simps)

lemma build_branch:
  "0 < shift \<Longrightarrow> buildValueList xs shift =
   Branch (map (\<lambda>k. buildValueList (chunk xs (2 ^ shift) k) (shift - 5))
            [0..<(length xs - 1) div 2 ^ shift + 1]) (length xs)"
  by (subst buildValueList.simps) (simp add: Let_def chunk_def)

lemma buildOwned_eq [simp]: "buildOwnedValueList items shift = buildValueList items shift"
proof (induction shift arbitrary: items rule: less_induct)
  case (less shift)
  then show ?case
    by (cases "shift = 0")
      (subst buildOwnedValueList.simps, simp add: build_branch Let_def chunk_def)+
qed

lemma chunk_take: "0 < w \<Longrightarrow> concat (map (chunk xs w) [0..<n]) = take (n * w) xs"
proof (induction n)
  case (Suc n)
  then have "concat (map (chunk xs w) [0..<Suc n]) = take (n * w) xs @ chunk xs w n" by simp
  also have "\<dots> = take (n * w + w) xs"
    by (auto simp: chunk_def slice_def take_add min_def)
  finally show ?case by (simp add: algebra_simps)
qed simp

lemma chunk_length: "length (chunk xs w k) = min (k * w + w) (length xs) - k * w"
  by (simp add: chunk_def slice_length)

lemma chunk_index:
  "0 < w \<Longrightarrow> i < length xs \<Longrightarrow> i mod w < length (chunk xs w (i div w))"
proof -
  assume w: "0 < w" "i < length xs"
  have "i = i div w * w + i mod w" "i mod w < w" using w by simp_all
  then show ?thesis unfolding chunk_length using w(2) by linarith
qed

lemma chunk_nth:
  "0 < w \<Longrightarrow> i < length xs \<Longrightarrow> chunk xs w (i div w) ! (i mod w) = xs ! i"
proof -
  assume w: "0 < w" "i < length xs"
  from chunk_index [OF this] have "i div w * w + i mod w < min (i div w * w + w) (length xs)"
    unfolding chunk_length by linarith
  then show ?thesis unfolding chunk_def by (subst slice_nth) simp_all
qed

lemma chunk_update_same:
  "0 < w \<Longrightarrow> i < length xs \<Longrightarrow>
   (chunk xs w (i div w))[i mod w := v] = chunk (xs[i := v]) w (i div w)"
proof (rule nth_equalityI)
  fix j assume w: "0 < w" "i < length xs" and "j < length ((chunk xs w (i div w))[i mod w := v])"
  then have j: "i div w * w + j < min (i div w * w + w) (length xs)"
    unfolding length_list_update chunk_length by linarith
  have "i = i div w * w + j \<longleftrightarrow> i mod w = j"
    by (metis add_left_cancel div_mult_mod_eq)
  with w j chunk_index [OF w] show "(chunk xs w (i div w))[i mod w := v] ! j = chunk (xs[i := v]) w (i div w) ! j"
    by (simp add: chunk_def slice_nth nth_list_update slice_length)
qed (simp add: chunk_length)

lemma chunk_update_other:
  "0 < w \<Longrightarrow> k \<noteq> i div w \<Longrightarrow> chunk (xs[i := v]) w k = chunk xs w k"
proof (rule nth_equalityI)
  fix j assume w: "0 < w" "k \<noteq> i div w" and "j < length (chunk (xs[i := v]) w k)"
  then have j: "k * w + j < min (k * w + w) (length xs)"
    unfolding length_list_update chunk_length by linarith
  then have "(k * w + j) div w = k" using w by (simp add: div_nat_eqI)
  with w have "i \<noteq> k * w + j" by auto
  with j show "chunk (xs[i := v]) w k ! j = chunk xs w k ! j"
    by (simp add: chunk_def slice_nth)
qed (simp add: chunk_length)

lemma chunks_cover: "0 < (w::nat) \<Longrightarrow> n \<le> ((n - 1) div w + 1) * w"
proof -
  assume w: "0 < w"
  have "n - 1 = (n - 1) div w * w + (n - 1) mod w" by simp
  moreover have "(n - 1) mod w < w" using w by simp
  ultimately have "n - 1 < (n - 1) div w * w + w" by linarith
  then show ?thesis by (simp add: algebra_simps)
qed

lemma contents_build: "contents (buildValueList xs shift) = xs"
proof (induction shift arbitrary: xs rule: less_induct)
  case (less shift)
  show ?case
  proof (cases "shift = 0")
    case False
    with less have "contents (buildValueList xs shift) =
        concat (map (chunk xs (2 ^ shift)) [0..<(length xs - 1) div 2 ^ shift + 1])"
      by (simp add: build_branch comp_def)
    also have "\<dots> = xs" by (subst chunk_take) (simp_all only: chunks_cover take_all zero_less_power zero_less_numeral)
    finally show ?thesis .
  qed simp
qed

lemma branch_index: "i < length xs \<Longrightarrow> i div w < (length xs - 1) div w + 1"
  by (simp add: div_le_mono less_Suc_eq_le)

lemma item_build: "i < length xs \<Longrightarrow> item (buildValueList xs shift) i shift = Some (xs ! i)"
proof (induction shift arbitrary: xs i rule: less_induct)
  case (less shift)
  show ?case
  proof (cases "shift = 0")
    case False
    have "item (buildValueList xs shift) i shift =
        item (buildValueList (chunk xs (2 ^ shift) (i div 2 ^ shift)) (shift - 5)) (i mod 2 ^ shift) (shift - 5)"
      using False branch_index [OF less.prems, of "2 ^ shift"]
      by (simp add: build_branch del: upt_Suc)
    also have "\<dots> = Some (xs ! i)"
      using False less by (simp add: chunk_index chunk_nth)
    finally show ?thesis .
  qed (use less in simp)
qed

lemma withItem_build:
  "i < length xs \<Longrightarrow> withItem (buildValueList xs shift) i v shift = Some (buildValueList (xs[i := v]) shift)"
proof (induction shift arbitrary: xs i rule: less_induct)
  case (less shift)
  show ?case
  proof (cases "shift = 0")
    case False
    let ?w = "2 ^ shift :: nat" and ?n = "(length xs - 1) div 2 ^ shift + 1"
    let ?cs = "\<lambda>xs. map (\<lambda>k. buildValueList (chunk xs ?w k) (shift - 5)) [0..<?n]"
    have k: "i div ?w < ?n" by (rule branch_index [OF less.prems])
    have "withItem (buildValueList (chunk xs ?w (i div ?w)) (shift - 5)) (i mod ?w) v (shift - 5) =
          Some (buildValueList (chunk (xs[i := v]) ?w (i div ?w)) (shift - 5))"
      using False less by (simp add: chunk_index chunk_update_same)
    moreover have "(?cs xs)[i div ?w := buildValueList (chunk (xs[i := v]) ?w (i div ?w)) (shift - 5)] = ?cs (xs[i := v])"
      using k by (intro nth_equalityI) (auto simp: nth_list_update chunk_update_other simp del: upt_Suc)
    ultimately show ?thesis
      using False k by (simp add: build_branch Let_def del: upt_Suc)
  qed (use less in simp)
qed

section \<open>Copying and visiting\<close>

lemma visit_items_append:
  "visit_items f (xs @ ys) s =
   (case visit_items f xs s of (go_on, s') \<Rightarrow> if go_on then visit_items f ys s' else (False, s'))"
  by (induction xs arbitrary: s) (auto split: prod.splits)

lemma visit_items_concat:
  "visit_items (\<lambda>t. visit_items f (g t)) ts s = visit_items f (concat (map g ts)) s"
  by (induction ts arbitrary: s) (auto simp: visit_items_append split: prod.splits)

lemma node_visit_contents: "node_visit f t s = visit_items f (contents t) s"
proof (induction t arbitrary: s)
  case (Branch ts n)
  then have "visit_items (node_visit f) ts s = visit_items (\<lambda>t. visit_items f (contents t)) ts s"
    by (intro visit_items_cong) auto
  then show ?case by (simp add: visit_items_concat)
qed simp

lemma go_copy_append:
  "(case go_copy d xs of (n, rest) \<Rightarrow>
      case go_copy (drop n rest) ys of (m, rest') \<Rightarrow> (n + m, take n rest @ rest')) = go_copy d (xs @ ys)"
  by (auto simp: go_copy_def Let_def min_def add.commute)

lemma copyTo_contents:
  "node_copyTo t d = go_copy d (contents t)"
  "k \<le> length d \<Longrightarrow> children_copyTo ts k d =
     (let (n, rest) = go_copy (drop k d) (concat (map contents ts)) in (k + n, take k d @ rest))"
proof (induction t d and ts k d rule: node_copyTo_children_copyTo.induct)
  case (2 children n destination)
  then show ?case by (auto split: prod.splits)
next
  case (4 c r copied destination)
  obtain n rest where c: "node_copyTo c (drop copied destination) = (n, rest)" by fastforce
  with 4(1) have g: "go_copy (drop copied destination) (contents c) = (n, rest)" by simp
  then have l: "length rest = length destination - copied" "n \<le> length rest"
    by (auto simp: go_copy_def Let_def)
  with 4(3) have le: "copied + n \<le> length (take copied destination @ rest)" by simp
  from 4(2) [OF c [symmetric] refl le]
  have "children_copyTo (c # r) copied destination =
    (let (m, rest') = go_copy (drop n rest) (concat (map contents r))
     in (copied + n + m, take copied destination @ take n rest @ rest'))"
    using c 4(3) by (auto split: prod.splits)
  then show ?case
    using go_copy_append [where d = "drop copied destination" and xs = "contents c"
        and ys = "concat (map contents r)"] g
    by (auto split: prod.splits)
qed (auto simp: go_copy_def Let_def)

section \<open>The width of nodes\<close>

fun narrow :: "'a vnode \<Rightarrow> bool" where
  "narrow (Leaf items n) \<longleftrightarrow> n = length items \<and> n \<le> valueListWidth"
| "narrow (Branch children n) \<longleftrightarrow> length children \<le> valueListWidth \<and> list_all narrow children"

lemma shift_loop_ge: "n div 2 ^ shift_loop (n div 2 ^ k) k < 32 \<and> k \<le> shift_loop (n div 2 ^ k) k
    \<and> (5 dvd k \<longrightarrow> 5 dvd shift_loop (n div 2 ^ k) k)"
proof (induction "n div 2 ^ k" k rule: shift_loop.induct)
  case (1 k)
  show ?case
  proof (cases "32 \<le> n div 2 ^ k")
    case True
    have e: "n div 2 ^ k div 32 = n div 2 ^ (k + 5)" by (simp add: div_mult2_eq power_add)
    from 1 [OF True e] True show ?thesis
      by (subst (1 2 3) shift_loop.simps) (simp add: e)
  next
    case False
    then show ?thesis by (subst (1 2 3) shift_loop.simps) simp
  qed
qed

lemma valueListShift_ok: "(n - 1) div 2 ^ valueListShift n < 32" "5 dvd valueListShift n"
  using shift_loop_ge [of "n - 1" 0] by (simp_all add: valueListShift_def)

lemma chunk_le: "length (chunk xs w k) \<le> w"
  unfolding chunk_length by linarith

lemma build_narrow:
  "5 dvd shift \<Longrightarrow> (length xs - 1) div 2 ^ shift < 32 \<Longrightarrow> narrow (buildValueList xs shift)"
proof (induction shift arbitrary: xs rule: less_induct)
  case (less shift)
  show ?case
  proof (cases "shift = 0")
    case True
    with less.prems show ?thesis by (simp add: valueListWidth_def valueListBits_def)
  next
    case False
    with less.prems(1) obtain s where s: "shift = s + 5" "5 dvd s"
      by (metis add.commute dvd_def dvd_diff_nat dvd_imp_le gr0I le_add_diff_inverse dvd_refl)
    have "(length (chunk xs (2 ^ shift) k) - 1) div 2 ^ s < 32" for k
    proof -
      have "length (chunk xs (2 ^ shift) k) - 1 < 32 * 2 ^ s"
      proof -
        have "length (chunk xs (2 ^ shift) k) \<le> 32 * 2 ^ s"
          using chunk_le [of xs "2 ^ shift" k] by (simp add: s power_add mult.commute)
        moreover have "0 < (32 :: nat) * 2 ^ s" by simp
        ultimately show ?thesis by linarith
      qed
      then show ?thesis by (rule less_mult_imp_div_less)
    qed
    with less.IH [of s] s have "narrow (buildValueList (chunk xs (2 ^ shift) k) s)" for k by simp
    with less.prems False s show ?thesis
      by (simp add: build_branch list_all_iff valueListWidth_def valueListBits_def del: upt_Suc)
  qed
qed

section \<open>The interface and its implementation\<close>

text \<open>
  What the value constructors and accessors need of a list representation: it is
  built from a list, read by index, and a replacement builds the same value as
  replacing first and building afterwards.
\<close>

locale indexed_sequence =
  fixes build :: "'a list \<Rightarrow> 't"
    and size_of :: "'t \<Rightarrow> nat"
    and get :: "'t \<Rightarrow> nat \<Rightarrow> 'a option"
    and put_at :: "'t \<Rightarrow> nat \<Rightarrow> 'a \<Rightarrow> 't option"
    and to_list :: "'t \<Rightarrow> 'a list"
  assumes size_build: "size_of (build xs) = length xs"
    and get_build: "get (build xs) i = (if i < length xs then Some (xs ! i) else None)"
    and put_build: "put_at (build xs) i v = (if i < length xs then Some (build (xs[i := v])) else None)"
    and list_build: "to_list (build xs) = xs"
begin

lemma build_inject: "build xs = build ys \<longleftrightarrow> xs = ys"
  by (metis list_build)

lemma get_put:
  "put_at (build xs) i v = Some t \<Longrightarrow>
   get t j = (if j = i then Some v else get (build xs) j) \<and> size_of t = size_of (build xs)"
  by (auto simp: put_build get_build size_build split: if_splits)

lemma put_unchanged: "get (build xs) i = Some v \<Longrightarrow> put_at (build xs) i v = Some (build xs)"
  by (auto simp: put_build get_build split: if_splits)

lemma put_put:
  "put_at (build xs) i v = Some t \<Longrightarrow> put_at t i w = put_at (build xs) i w"
  by (auto simp: put_build split: if_splits)

lemma put_commute:
  "i \<noteq> j \<Longrightarrow> put_at (build xs) i v = Some t \<Longrightarrow> put_at (build xs) j w = Some u \<Longrightarrow>
   put_at t j w = put_at u i v"
  by (auto simp: put_build list_update_swap split: if_splits)

text \<open>A sequence of replacements ends in the tree of the final list.\<close>

fun put_all :: "'t \<Rightarrow> (nat \<times> 'a) list \<Rightarrow> 't option" where
  "put_all t [] = Some t"
| "put_all t ((i, v) # r) = (case put_at t i v of None \<Rightarrow> None | Some t' \<Rightarrow> put_all t' r)"

lemma put_all_build:
  "\<forall>(i, v) \<in> set us. i < length xs \<Longrightarrow>
   put_all (build xs) us = Some (build (fold (\<lambda>(i, v) ys. ys[i := v]) us xs))"
  by (induction us arbitrary: xs) (auto simp: put_build)

end

text \<open>The guarded accessors of \<open>store.Value\<close> (\<open>ListItem\<close>, \<open>WithListItem\<close>) on the tree.\<close>

definition tree_item :: "'a vlist \<Rightarrow> nat \<Rightarrow> 'a option" where
  "tree_item t index =
     (if vlen t \<le> index then None
      else case t of None \<Rightarrow> None | Some n \<Rightarrow> item n index (valueListShift (vlen t)))"

definition tree_withItem :: "'a vlist \<Rightarrow> nat \<Rightarrow> 'a \<Rightarrow> 'a vlist option" where
  "tree_withItem t index v =
     (if vlen t \<le> index then None
      else case t of None \<Rightarrow> None
        | Some n \<Rightarrow> map_option Some (withItem n index v (valueListShift (vlen t))))"

lemma vlen_node [simp]: "vlen (Some (buildValueList xs shift)) = length xs"
  by (cases "shift = 0") (simp_all add: build_branch)

lemma vlen_build: "vlen (newValueList xs) = length xs"
  by (simp add: newValueList_def)

interpretation value_tree: indexed_sequence newValueList vlen tree_item tree_withItem elements
proof unfold_locales
  fix xs :: "'a list" and i and v
  show "vlen (newValueList xs) = length xs" by (rule vlen_build)
  show "tree_item (newValueList xs) i = (if i < length xs then Some (xs ! i) else None)"
    unfolding tree_item_def vlen_build by (auto simp: newValueList_def item_build)
  show "tree_withItem (newValueList xs) i v =
        (if i < length xs then Some (newValueList (xs[i := v])) else None)"
    unfolding tree_withItem_def vlen_build by (auto simp: newValueList_def withItem_build)
  show "elements (newValueList xs) = xs"
    by (simp add: newValueList_def elements_def contents_build)
qed

lemma ownValueList_eq [simp]: "ownValueList xs = newValueList xs"
  by (simp add: ownValueList_def newValueList_def)

lemma visit_elements: "visit f t s = visit_items f (elements t) s"
  by (cases t) (simp_all add: visit_def elements_def node_visit_contents)

lemma copyTo_elements: "copyTo t d = go_copy d (elements t)"
  by (cases t) (auto simp: copyTo_def elements_def copyTo_contents go_copy_def)

lemma visit_cong [fundef_cong]:
  "t = u \<Longrightarrow> s = s' \<Longrightarrow> (\<And>x s. x \<in> set (elements u) \<Longrightarrow> f x s = g x s) \<Longrightarrow> visit f t s = visit g u s'"
  unfolding visit_elements by (rule visit_items_cong) auto

text \<open>
  C22. Replacing an item of a list value yields exactly the tree that building the
  changed list yields, so equal lists stay structurally equal; items outside the
  range are refused; what is read back is what was written, everything else is
  unchanged, and copying the tree out gives the list.
\<close>

theorem value_list_is_canonical:
  "tree_withItem (newValueList xs) i v =
     (if i < length xs then Some (newValueList (xs[i := v])) else None)
   \<and> tree_item (newValueList xs) i = (if i < length xs then Some (xs ! i) else None)
   \<and> (newValueList xs = newValueList ys \<longleftrightarrow> xs = ys)
   \<and> ownValueList xs = newValueList xs
   \<and> copyTo (newValueList xs) (replicate (vlen (newValueList xs)) z) = (length xs, xs)"
  by (simp add: value_tree.put_build value_tree.get_build value_tree.build_inject
      copyTo_elements value_tree.list_build vlen_build go_copy_def)

text \<open>
  Every node of a built tree holds at most 32 items or children, whatever the
  length of the list, and its depth is what \<open>valueListShift\<close> computes: indexing
  consumes the whole shift.
\<close>

theorem value_list_nodes_are_narrow:
  "(case newValueList xs of None \<Rightarrow> xs = [] | Some t \<Rightarrow> narrow t)
   \<and> (length xs - 1) div 2 ^ valueListShift (length xs) < 32
   \<and> valueListShift (length xs) mod 5 = 0"
  using valueListShift_ok [of "length xs"] build_narrow [of "valueListShift (length xs)" xs]
  by (simp add: newValueList_def mod_eq_0_iff_dvd)

end
