(* ===== verification/Values.thy ===== *)
theory Values
  imports Value_List Float64
begin

text \<open>
  Application values and documents (\<open>store/value.go\<close>), the population budget
  (\<open>store/population.go\<close>) and document identifiers (\<open>store/document_id.go\<close>). The
  struct \<open>Value\<close> is a tagged union, so each constructor carries what its kind
  reads; an object is a Go map, a list the radix tree of \<^theory_text>\<open>Value_List\<close>. Values are
  immutable, so the copies that detach a container are the same value.
\<close>

datatype svalue =
    SInvalid
  | SNull
  | SString string
  | SObject "(string \<times> svalue) list"
  | SDocument "document option"
  | SNumber float64
  | SBoolean bool
  | SList "svalue vnode option"
and document =
  Document (docID: string) (docCreatedAt: time) (docUpdatedAt: time) (docDeletedAt: "time option")
    (docStatus: string) (docRevision: int) (docPublishedRevision: int) (docHasDraftChanges: bool)
    (docValues: "(string \<times> svalue) list") (docLocalizationSources: "(string \<times> string) list option")

type_synonym svalues = "(string, svalue) gomap"

datatype svalue_kind =
  KindInvalid | KindNull | KindString | KindObject | KindDocument | KindNumber | KindBoolean | KindList

fun svalue_Kind :: "svalue \<Rightarrow> svalue_kind" where
  "svalue_Kind SInvalid = KindInvalid"
| "svalue_Kind SNull = KindNull"
| "svalue_Kind (SString _) = KindString"
| "svalue_Kind (SObject _) = KindObject"
| "svalue_Kind (SDocument _) = KindDocument"
| "svalue_Kind (SNumber _) = KindNumber"
| "svalue_Kind (SBoolean _) = KindBoolean"
| "svalue_Kind (SList _) = KindList"

section \<open>Construction and access\<close>

definition CloneValues :: "svalues \<Rightarrow> svalues" where
  "CloneValues values = fold (\<lambda>(name, v) cloned. put name v cloned) values []"

fun CloneDocument :: "document \<Rightarrow> document" where
  "CloneDocument (Document i ca ua da st rv prv hc vs ls) =
     Document i ca ua da st rv prv hc (CloneValues vs)
       (map_option (\<lambda>m. fold (\<lambda>(p, l) cloned. put p l cloned) m []) ls)"

definition ObjectOf :: "svalues \<Rightarrow> svalue" where
  "ObjectOf values = SObject (CloneValues values)"

definition Populated :: "document \<Rightarrow> svalue" where
  "Populated d = SDocument (Some (CloneDocument d))"

definition ListOf :: "svalue list \<Rightarrow> svalue" where
  "ListOf values = SList (newValueList values)"

fun Lookup :: "svalue \<Rightarrow> string \<Rightarrow> svalue option" where
  "Lookup (SObject m) name = map_of m name"
| "Lookup _ name = None"

definition Get :: "svalue \<Rightarrow> string \<Rightarrow> svalue" where
  "Get v name = (case Lookup v name of Some child \<Rightarrow> child | None \<Rightarrow> SNull)"

fun Len :: "svalue \<Rightarrow> nat" where
  "Len (SObject m) = length m"
| "Len (SList t) = vlen t"
| "Len _ = 0"

fun CopyObject :: "svalue \<Rightarrow> svalues \<times> bool" where
  "CopyObject (SObject m) = (CloneValues m, True)"
| "CopyObject _ = ([], False)"

fun CopyDocument :: "svalue \<Rightarrow> document option" where
  "CopyDocument (SDocument (Some d)) = Some (CloneDocument d)"
| "CopyDocument _ = None"

fun CopyList :: "svalue \<Rightarrow> svalue list \<times> bool" where
  "CopyList (SList t) = (snd (copyTo t (replicate (vlen t) SInvalid)), True)"
| "CopyList _ = ([], False)"

fun ListItem :: "svalue \<Rightarrow> int \<Rightarrow> svalue option" where
  "ListItem (SList t) index =
     (if index < 0 \<or> index \<ge> int (vlen t) then None
      else case t of None \<Rightarrow> None | Some n \<Rightarrow> item n (nat index) (valueListShift (vlen t)))"
| "ListItem _ index = None"

fun WithListItem :: "svalue \<Rightarrow> int \<Rightarrow> svalue \<Rightarrow> svalue \<times> bool" where
  "WithListItem (SList t) index replacement =
     (if index < 0 \<or> index \<ge> int (vlen t) then (SList t, False)
      else case t of
          None \<Rightarrow> (SList t, False)
        | Some n \<Rightarrow> (case withItem n (nat index) replacement (valueListShift (vlen t)) of
              None \<Rightarrow> (SList t, False)
            | Some n' \<Rightarrow> (SList (Some n'), True)))"
| "WithListItem v index replacement = (v, False)"

fun WithMembers :: "svalue \<Rightarrow> svalues \<Rightarrow> svalue \<times> bool" where
  "WithMembers (SObject m) members =
     (SObject (fold (\<lambda>(name, v) object. put name v object) members
                (fold (\<lambda>(name, v) object. put name v object) m [])), True)"
| "WithMembers v members = (v, False)"

text \<open>Iterators call their \<open>yield\<close> until it answers false.\<close>

fun Entries :: "svalue \<Rightarrow> (string \<times> svalue \<Rightarrow> 's \<Rightarrow> bool \<times> 's) \<Rightarrow> 's \<Rightarrow> 's" where
  "Entries (SObject m) yield s = snd (visit_items yield m s)"
| "Entries _ yield s = s"

fun Elements :: "svalue \<Rightarrow> (svalue \<Rightarrow> 's \<Rightarrow> bool \<times> 's) \<Rightarrow> 's \<Rightarrow> 's" where
  "Elements (SList t) yield s = snd (visit yield t s)"
| "Elements _ yield s = s"

section \<open>The population budget\<close>

definition MaxPopulationMaterializedDocuments :: int where
  "MaxPopulationMaterializedDocuments = 4096"

record population_budget =
  bdgRemaining :: int

definition NewPopulationBudget :: "int \<Rightarrow> population_budget" where
  "NewPopulationBudget limit = \<lparr>bdgRemaining = max limit 0\<rparr>"

lemma size_contents: "x \<in> set (contents t) \<Longrightarrow> f x < Suc (size_vnode f t)"
proof (induction t)
  case (Leaf xs n)
  then have "f x \<le> size_list f xs" by (simp add: size_list_estimation')
  then show ?case by simp
next
  case (Branch ts n)
  then obtain t where t: "t \<in> set ts" "f x < Suc (size_vnode f t)" by auto
  then have "size_vnode f t \<le> size_list (size_vnode f) ts" by (simp add: size_list_estimation')
  with t show ?case by simp
qed

lemma size_elements: "x \<in> set (elements t) \<Longrightarrow> f x < Suc (size_option (size_vnode f) t)"
  by (cases t) (auto simp: elements_def dest: size_contents [where f = f])

lemma size_member: "(a, b) \<in> set m \<Longrightarrow> size b \<le> size_list (size_prod (\<lambda>_. 0) size) m"
  by (induction m) auto

text \<open>
  \<open>visitValue\<close> of \<open>populationDocumentWeight\<close>: the state of the visitor is the
  weight counted so far.
\<close>

function visitValue :: "int \<Rightarrow> svalue \<Rightarrow> int \<Rightarrow> bool \<times> int" where
  "visitValue ceiling (SObject m) weight = visit_items (\<lambda>(_, v). visitValue ceiling v) m weight"
| "visitValue ceiling (SDocument (Some (Document i ca ua da st rv prv hc vs ls))) weight =
     (if weight + 1 > ceiling then (False, weight + 1)
      else visit_items (\<lambda>(_, v). visitValue ceiling v) vs (weight + 1))"
| "visitValue ceiling (SDocument None) weight = (True, weight)"
| "visitValue ceiling (SList t) weight = visit (visitValue ceiling) t weight"
| "visitValue ceiling SInvalid weight = (True, weight)"
| "visitValue ceiling SNull weight = (True, weight)"
| "visitValue ceiling (SString s) weight = (True, weight)"
| "visitValue ceiling (SNumber x) weight = (True, weight)"
| "visitValue ceiling (SBoolean b) weight = (True, weight)"
proof goal_cases
  case (1 P x)
  obtain c v w where x: "x = (c, v, w)" by (cases x)
  show ?case
  proof (cases v)
    case (SDocument od)
    then show ?thesis using 1 x by (cases od) (metis document.exhaust)+
  qed (use 1 x in auto)
qed auto
termination
proof (relation "measure (\<lambda>(c, v, w). size v)", goal_cases)
  case (2 ceiling m weight p w a b)
  then show ?case using size_member [of a b m] by simp
next
  case (3 ceiling i ca ua da st rv prv hd vs ls weight p w a b)
  then show ?case using size_member [of a b vs] by simp
next
  case (4 ceiling t weight x w)
  then show ?case using size_elements [of x t size] by simp
qed auto

definition populationDocumentWeight :: "document \<Rightarrow> int \<Rightarrow> int \<times> bool" where
  "populationDocumentWeight d ceiling =
     (if 1 > ceiling then (1, True)
      else let (completed, weight) = visit_items (\<lambda>(_, v). visitValue ceiling v) (docValues d) 1
           in (weight, \<not> completed))"

text \<open>A nil budget is \<^const>\<open>None\<close>; an error leaves the budget as it was.\<close>

datatype population_error = ErrPopulationLimit

definition ConsumeDocument ::
  "population_budget option \<Rightarrow> document \<Rightarrow> population_error + population_budget" where
  "ConsumeDocument budget d =
     (case budget of
        None \<Rightarrow> Inl ErrPopulationLimit
      | Some b \<Rightarrow>
          let (weight, exceeded) = populationDocumentWeight d (bdgRemaining b) in
          if exceeded \<or> weight > bdgRemaining b then Inl ErrPopulationLimit
          else Inr (b\<lparr>bdgRemaining := bdgRemaining b - weight\<rparr>))"

section \<open>Document identifiers\<close>

datatype document_id_error =
  IDEmpty | IDInvalidUTF8 | IDContainsNUL | IDDotSegment | IDTooLong

definition MaxDocumentIDBytes :: nat where "MaxDocumentIDBytes = 512"

definition ValidateDocumentID :: "string \<Rightarrow> document_id_error option" where
  "ValidateDocumentID i =
     (if i = [] then Some IDEmpty
      else if \<not> utf8_valid i then Some IDInvalidUTF8
      else if NUL \<in> set i then Some IDContainsNUL
      else if i = ''.'' \<or> i = ''..'' then Some IDDotSegment
      else if length i > MaxDocumentIDBytes then Some IDTooLong
      else None)"

section \<open>Lemmas on values\<close>

lemma fold_put_map_of:
  "map_of (fold (\<lambda>(k, v) c. put k v c) m c) k = (case map_of (rev m) k of Some v \<Rightarrow> Some v | None \<Rightarrow> map_of c k)"
  by (induction m arbitrary: c) (auto simp: map_add_def split: option.splits)

lemma fold_put_wf: "wf_map c \<Longrightarrow> wf_map (fold (\<lambda>(k, v) c. put k v c) m c)"
  by (induction m arbitrary: c) auto

lemma put_fresh: "map_of c k = None \<Longrightarrow> put k v c = c @ [(k, v)]"
  unfolding put_def by (induction c) (auto split: if_splits)

lemma fold_put_append:
  "wf_map (c @ m) \<Longrightarrow> fold (\<lambda>(k, v) c. put k v c) m c = c @ m"
proof (induction m arbitrary: c)
  case (Cons kv m)
  obtain k v where kv: "kv = (k, v)" by (cases kv)
  with Cons.prems have "map_of c k = None"
    by (auto simp: wf_map_def map_of_eq_None_iff)
  with Cons kv show ?case by (simp add: put_fresh)
qed simp

lemma CloneValues_id: "wf_map m \<Longrightarrow> CloneValues m = m"
  using fold_put_append [of "[]" m] by (simp add: CloneValues_def)

lemma map_of_rev: "wf_map m \<Longrightarrow> map_of (rev m) = map_of m"
  by (rule map_of_inject_set [THEN iffD2]) (simp_all add: wf_map_def rev_map [symmetric])

lemma WithMembers_Lookup:
  "wf_map m \<Longrightarrow> wf_map ms \<Longrightarrow>
   Lookup (fst (WithMembers (SObject m) ms)) name =
     (case map_of ms name of Some v \<Rightarrow> Some v | None \<Rightarrow> map_of m name)"
  by (simp add: fold_put_map_of map_of_rev split: option.splits)

lemma WithListItem_spec:
  "WithListItem (ListOf xs) i v =
     (if 0 \<le> i \<and> i < int (length xs) then (ListOf (xs[nat i := v]), True) else (ListOf xs, False))"
  by (cases "0 \<le> i \<and> i < int (length xs)")
    (auto simp: ListOf_def vlen_build newValueList_def withItem_build nat_less_iff)

lemma ListItem_spec:
  "ListItem (ListOf xs) i = (if 0 \<le> i \<and> i < int (length xs) then Some (xs ! nat i) else None)"
  by (cases "0 \<le> i \<and> i < int (length xs)")
    (auto simp: ListOf_def vlen_build newValueList_def item_build nat_less_iff)

lemma CopyList_spec: "CopyList (ListOf xs) = (xs, True)"
  by (simp add: ListOf_def copyTo_elements value_tree.list_build vlen_build go_copy_def)

section \<open>What the budget counts\<close>

text \<open>The populated document nodes below a value, counted without a limit.\<close>

function nodes :: "svalue \<Rightarrow> nat" where
  "nodes (SObject m) = sum_list (map (\<lambda>(_, v). nodes v) m)"
| "nodes (SDocument (Some (Document i ca ua da st rv prv hc vs ls))) =
     1 + sum_list (map (\<lambda>(_, v). nodes v) vs)"
| "nodes (SDocument None) = 0"
| "nodes (SList t) = sum_list (map nodes (elements t))"
| "nodes SInvalid = 0"
| "nodes SNull = 0"
| "nodes (SString s) = 0"
| "nodes (SNumber x) = 0"
| "nodes (SBoolean b) = 0"
proof goal_cases
  case (1 P v)
  show ?case
  proof (cases v)
    case (SDocument od)
    then show ?thesis using 1 by (cases od) (metis document.exhaust)+
  qed (use 1 in auto)
qed auto
termination
proof (relation "measure size", goal_cases)
  case (2 m p a b)
  then show ?case using size_member [of a b m] by simp
next
  case (3 i ca ua da st rv prv hc vs ls p a b)
  then show ?case using size_member [of a b vs] by simp
next
  case (4 t x)
  then show ?case using size_elements [of x t size] by simp
qed auto

definition document_nodes :: "document \<Rightarrow> nat" where
  "document_nodes d = 1 + sum_list (map (\<lambda>(_, v). nodes v) (docValues d))"

text \<open>A visitor that counts \<open>g x\<close> for each item and stops once past the ceiling.\<close>

definition counts :: "int \<Rightarrow> ('a \<Rightarrow> int \<Rightarrow> bool \<times> int) \<Rightarrow> ('a \<Rightarrow> nat) \<Rightarrow> 'a \<Rightarrow> bool" where
  "counts c f g x \<longleftrightarrow>
     (\<forall>w. w \<le> c \<longrightarrow> (if w + int (g x) \<le> c then f x w = (True, w + int (g x))
                     else fst (f x w) = False \<and> snd (f x w) > c))"

lemma visit_items_counts:
  "(\<And>x. x \<in> set xs \<Longrightarrow> counts c f g x) \<Longrightarrow>
   counts c (\<lambda>xs. visit_items f xs) (\<lambda>xs. sum_list (map g xs)) xs"
proof (induction xs)
  case Nil
  then show ?case by (simp add: counts_def)
next
  case (Cons x xs)
  then have x: "counts c f g x" and xs: "counts c (visit_items f) (\<lambda>xs. sum_list (map g xs)) xs"
    by simp_all
  show ?case
    unfolding counts_def
  proof (intro allI impI)
    fix w assume w: "w \<le> c"
    show "if w + int (sum_list (map g (x # xs))) \<le> c
      then visit_items f (x # xs) w = (True, w + int (sum_list (map g (x # xs))))
      else fst (visit_items f (x # xs) w) = False \<and> snd (visit_items f (x # xs) w) > c"
    proof (cases "w + int (g x) \<le> c")
      case True
      with x w have "f x w = (True, w + int (g x))" by (simp add: counts_def)
      moreover from xs True have "if w + int (g x) + int (sum_list (map g xs)) \<le> c
        then visit_items f xs (w + int (g x)) = (True, w + int (g x) + int (sum_list (map g xs)))
        else fst (visit_items f xs (w + int (g x))) = False \<and> snd (visit_items f xs (w + int (g x))) > c"
        unfolding counts_def by blast
      ultimately show ?thesis by (simp add: add.assoc split: if_splits)
    next
      case False
      with x w have "fst (f x w) = False" "snd (f x w) > c" by (simp_all add: counts_def)
      with False show ?thesis by (cases "f x w") simp
    qed
  qed
qed

lemma visitValue_counts: "counts c (visitValue c) nodes v"
proof (induction v rule: nodes.induct)
  case (1 m)
  then have "counts c (\<lambda>(_, v). visitValue c v) (\<lambda>(_, v). nodes v) x" if "x \<in> set m" for x
    using that by (cases x) (auto simp: counts_def)
  from visit_items_counts [OF this] show ?case by (simp add: counts_def)
next
  case (2 i ca ua da st rv prv hc vs ls)
  then have "counts c (\<lambda>(_, v). visitValue c v) (\<lambda>(_, v). nodes v) x" if "x \<in> set vs" for x
    using that by (cases x) (auto simp: counts_def)
  from visit_items_counts [OF this] show ?case
    by (auto simp: counts_def add.assoc)
next
  case (4 t)
  then have "counts c (visitValue c) nodes x" if "x \<in> set (elements t)" for x
    using that by simp
  from visit_items_counts [OF this] show ?case by (simp add: counts_def visit_elements)
qed (simp_all add: counts_def)

lemma document_weight:
  "1 \<le> c \<Longrightarrow> if int (document_nodes d) \<le> c
     then populationDocumentWeight d c = (int (document_nodes d), False)
     else snd (populationDocumentWeight d c)"
proof -
  assume c: "1 \<le> c"
  have "counts c (\<lambda>(_, v). visitValue c v) (\<lambda>(_, v). nodes v) x" for x :: "string \<times> svalue"
    using visitValue_counts [of c "snd x"] by (cases x) (auto simp: counts_def)
  from visit_items_counts [OF this, of "docValues d"] c show ?thesis
    by (auto simp: counts_def populationDocumentWeight_def document_nodes_def split: prod.splits)
qed

lemma ConsumeDocument_spec:
  "0 \<le> bdgRemaining b \<Longrightarrow>
   ConsumeDocument (Some b) d =
     (if int (document_nodes d) \<le> bdgRemaining b
      then Inr (b\<lparr>bdgRemaining := bdgRemaining b - int (document_nodes d)\<rparr>)
      else Inl ErrPopulationLimit)"
proof (cases "1 \<le> bdgRemaining b")
  case True
  from document_weight [OF this, of d] show ?thesis
    by (auto simp: ConsumeDocument_def split: if_splits prod.splits)
next
  case False
  moreover have "1 \<le> document_nodes d" by (simp add: document_nodes_def)
  ultimately show ?thesis
    by (auto simp: ConsumeDocument_def populationDocumentWeight_def)
qed

text \<open>Every recursive population read of a request draws on one budget, in turn.\<close>

fun consume_all :: "population_budget \<Rightarrow> document list \<Rightarrow> bool list \<times> population_budget" where
  "consume_all b [] = ([], b)"
| "consume_all b (d # ds) =
     (case ConsumeDocument (Some b) d of
        Inl _ \<Rightarrow> (let (r, b') = consume_all b ds in (False # r, b'))
      | Inr b1 \<Rightarrow> (let (r, b') = consume_all b1 ds in (True # r, b')))"

definition accepted_nodes :: "document list \<Rightarrow> bool list \<Rightarrow> nat" where
  "accepted_nodes ds oks = sum_list (map (\<lambda>(d, ok). if ok then document_nodes d else 0) (zip ds oks))"

lemma consume_all_spec:
  "0 \<le> bdgRemaining b \<Longrightarrow> consume_all b ds = (oks, b') \<Longrightarrow>
   0 \<le> bdgRemaining b' \<and> bdgRemaining b = bdgRemaining b' + int (accepted_nodes ds oks)"
proof (induction ds arbitrary: b oks b')
  case (Cons d ds)
  show ?case
  proof (cases "int (document_nodes d) \<le> bdgRemaining b")
    case True
    let ?b1 = "b\<lparr>bdgRemaining := bdgRemaining b - int (document_nodes d)\<rparr>"
    from True Cons.prems obtain r where r: "consume_all ?b1 ds = (r, b')" "oks = True # r"
      by (auto simp: ConsumeDocument_spec split: prod.splits)
    with Cons.IH [of ?b1 r b'] True show ?thesis by (simp add: accepted_nodes_def)
  next
    case False
    with Cons.prems obtain r where r: "consume_all b ds = (r, b')" "oks = False # r"
      by (auto simp: ConsumeDocument_spec split: prod.splits)
    with Cons.IH [of b r b'] Cons.prems show ?thesis by (simp add: accepted_nodes_def)
  qed
qed (simp add: accepted_nodes_def)

lemma NewPopulationBudget_nonneg: "0 \<le> bdgRemaining (NewPopulationBudget limit)"
  by (simp add: NewPopulationBudget_def)

text \<open>
  C23. Over any sequence of populated documents, nested ones included, the budget
  lets through at most its limit of document nodes, it never becomes negative, and
  it refuses a document exactly when the nodes of that document exceed what remains;
  a non-positive limit refuses everything.
\<close>

theorem population_budget_bounds_the_response:
  "(let (oks, b) = consume_all (NewPopulationBudget limit) ds
    in int (accepted_nodes ds oks) + bdgRemaining b = max limit 0 \<and> 0 \<le> bdgRemaining b)
   \<and> (ConsumeDocument (Some (NewPopulationBudget limit)) d = Inl ErrPopulationLimit
        \<longleftrightarrow> max limit 0 < int (document_nodes d))
   \<and> 1 \<le> document_nodes d"
proof -
  obtain oks b where c: "consume_all (NewPopulationBudget limit) ds = (oks, b)" by fastforce
  from consume_all_spec [OF NewPopulationBudget_nonneg c] c show ?thesis
    by (auto simp: ConsumeDocument_spec NewPopulationBudget_def document_nodes_def)
qed

text \<open>
  Functional updates of values: \<open>WithListItem\<close> replaces exactly one element and
  fails outside the list, \<open>WithMembers\<close> adds or replaces exactly the named members,
  and what a value was built from is read back unchanged.
\<close>

theorem value_updates_are_pointwise:
  assumes "wf_map m" "wf_map ms"
  shows "CopyList (fst (WithListItem (ListOf xs) i v)) =
      ((if 0 \<le> i \<and> i < int (length xs) then xs[nat i := v] else xs), True)
    \<and> snd (WithListItem (ListOf xs) i v) = (0 \<le> i \<and> i < int (length xs))
    \<and> ListItem (ListOf xs) i = (if 0 \<le> i \<and> i < int (length xs) then Some (xs ! nat i) else None)
    \<and> Get (fst (WithMembers (ObjectOf m) ms)) name =
        (case map_of ms name of Some w \<Rightarrow> w
         | None \<Rightarrow> (case map_of m name of Some w \<Rightarrow> w | None \<Rightarrow> SNull))"
  using assms
  by (simp add: WithListItem_spec ListItem_spec CopyList_spec ObjectOf_def CloneValues_id Get_def
      WithMembers_Lookup split: option.splits del: WithMembers.simps)

theorem value_updates_are_pointwise_witness:
  "Get (fst (WithMembers (ObjectOf [(''a'', SNull), (''b'', SBoolean True)]) [(''a'', SBoolean False)])) ''a''
     = SBoolean False
   \<and> CopyList (fst (WithListItem (ListOf [SNull, SNull]) 1 (SBoolean True))) = ([SNull, SBoolean True], True)"
  using value_updates_are_pointwise [of "[(''a'', SNull), (''b'', SBoolean True)]" "[(''a'', SBoolean False)]"
      "[SNull, SNull]" 1 "SBoolean True" "''a''"]
  by (simp add: wf_map_def)

end
