(* ===== verification/Schema_Fields.thy ===== *)
theory Schema_Fields
  imports Query "HOL-Library.Word"
begin

text \<open>
  The resolved schema as stores and value traversals read it (\<open>schema/manifest.go\<close>,
  \<open>schema/block_registry.go\<close>, \<open>schema/embedded.go\<close>). A field is a datatype with a
  selector per struct member; optional details are options. Block definitions are
  acyclic (\<open>BindBlockReferences\<close> rejects reference cycles), so what
  \<open>Definitions()\<close> returns for a container is held in it: \<open>fldBlocks\<close> and \<open>ecDefinitions\<close>
  are the definition views of the selection, in order. \<open>ResolvedFields()\<close> is the
  member \<open>bltFields\<close> or \<open>fldNested\<close> itself.
\<close>

section \<open>Fields\<close>

datatype field_type =
    FieldTypeText | FieldTypeTextList | FieldTypeNumberList | FieldTypeCode | FieldTypeSelect
  | FieldTypeRadio | FieldTypePoint | FieldTypeUI | FieldTypeJoin | FieldTypeVirtual
  | FieldTypeRelationship | FieldTypeUpload | FieldTypeGroup | FieldTypeTextarea | FieldTypeEmail
  | FieldTypeDate | FieldTypeNumber | FieldTypeCheckbox | FieldTypeJSON | FieldTypeArray
  | FieldTypeBlocks | FieldTypePlugin

datatype field_category =
    FieldCategoryScalar | FieldCategoryNested | FieldCategoryPresentation
  | FieldCategoryRelationship | FieldCategoryUpload | FieldCategoryPlugin

text \<open>\<open>ReferenceDeleteUnset\<close> is the empty string, which no admitted manifest holds.\<close>

datatype delete_action =
  ReferenceDeleteUnset | ReferenceDeleteNullify | ReferenceDeleteRestrict | ReferenceDeleteCascade

record select_field =
  selOptions :: "string list"
  selHasMany :: bool
  selDefaultValues :: "string list"

record relationship_target =
  tgtCollectionID :: string
  tgtCollectionSlug :: string

record relationship_field =
  relCollectionID :: string
  relCollectionSlug :: string
  relTargets :: "relationship_target list"
  relHasMany :: bool
  relPolymorphic :: bool
  relOnDelete :: delete_action

record upload_field =
  uplCollectionID :: string
  uplCollectionSlug :: string
  uplHasMany :: bool
  uplOnDelete :: delete_action

record join_field =
  jnCollectionID :: string
  jnCollectionSlug :: string
  jnOn :: path
  jnLimit :: int

text \<open>The bounds of scalars, lists and rows; an option holds its value only.\<close>

record text_field =
  txfMinLength :: "int option"
  txfMaxLength :: "int option"

record code_field =
  cdfMinLength :: "int option"
  cdfMaxLength :: "int option"

record number_field =
  nufMin :: "float64 option"
  nufMax :: "float64 option"

datatype date_format = DateOnly | DateAndTime | TimeOnly | DateFormatUnknown

record primitive_list_field =
  plfMinRows :: int
  plfMaxRows :: int

record row_limits =
  rlMinRows :: int
  rlMaxRows :: int

text \<open>
  The members of a field that only validation reads. The row limits of \<open>NestedField\<close> and
  \<open>BlocksField\<close> stand beside their lists.
\<close>

record field_details =
  fdDefault :: "string option"
  fdText :: "text_field option"
  fdTextarea :: "text_field option"
  fdCode :: "code_field option"
  fdNumber :: "number_field option"
  fdDate :: "date_format option"
  fdList :: "primitive_list_field option"
  fdNestedRows :: row_limits
  fdBlocksRows :: row_limits

definition no_details :: field_details where
  "no_details = \<lparr>fdDefault = None, fdText = None, fdTextarea = None, fdCode = None, fdNumber = None, fdDate = None,
     fdList = None, fdNestedRows = \<lparr>rlMinRows = 0, rlMaxRows = 0\<rparr>, fdBlocksRows = \<lparr>rlMinRows = 0, rlMaxRows = 0\<rparr>\<rparr>"

datatype field =
  FieldDef (fldID: string) (fldName: string) (fldPath: path) (fldType: field_type)
    (fldCategory: field_category) (fldRequired: bool) (fldUnique: bool) (fldIndex: bool)
    (fldLocalized: bool) (fldSelect: "select_field option")
    (fldRelationship: "relationship_field option") (fldUpload: "upload_field option")
    (fldJoin: "join_field option") (fldNested: "field list option") (fldBlocks: "block_type list option")
    (fldPlugin: "plugin_field option") (fldDetails: field_details)
and block_type = BlockType (bltSlug: string) (bltFields: "field list")
and plugin_field = PluginField (plgKey: string) (plgEmbeddedTrees: "embedded_tree list")
and embedded_tree =
  EmbeddedTree (etKey: string) (etRoot: "string list") (etChildren: string) (etTag: string)
    (etCases: "embedded_case list")
and embedded_case =
  EmbeddedTreeCase (ecTagValue: string) (ecPayload: string) (ecDiscriminator: string)
    (ecIdentity: string) (ecDefinitions: "block_type list")

text \<open>The struct copies with one member changed that traversals make.\<close>

definition unlocalized :: "field \<Rightarrow> field" where
  "unlocalized f = (case f of FieldDef i n p t c r u x l s rel up jn ns bs pl ds \<Rightarrow>
     FieldDef i n p t c r u x False s rel up jn ns bs pl ds)"

definition with_placement :: "field \<Rightarrow> path \<Rightarrow> string \<Rightarrow> field" where
  "with_placement f p i = (case f of FieldDef _ n _ t c r u x l s rel up jn ns bs pl ds \<Rightarrow>
     FieldDef i n p t c r u x l s rel up jn ns bs pl ds)"

lemma unlocalized_simps [simp]:
  "fldLocalized (unlocalized f) = False"
  "fldName (unlocalized f) = fldName f" "fldType (unlocalized f) = fldType f"
  "fldID (unlocalized f) = fldID f" "fldPath (unlocalized f) = fldPath f"
  "fldRelationship (unlocalized f) = fldRelationship f" "fldUpload (unlocalized f) = fldUpload f"
  "fldJoin (unlocalized f) = fldJoin f" "fldNested (unlocalized f) = fldNested f" "fldBlocks (unlocalized f) = fldBlocks f"
  "fldPlugin (unlocalized f) = fldPlugin f" "fldSelect (unlocalized f) = fldSelect f"
  "fldDetails (unlocalized f) = fldDetails f"
  by (cases f; simp add: unlocalized_def)+

section \<open>Sizes\<close>

text \<open>Every list of fields below a field is smaller than the field.\<close>

lemma size_nested [termination_simp]: "fldNested f = Some fs \<Longrightarrow> size_list size fs < size f"
  by (cases f) auto

lemma size_blocks [termination_simp]: "fldBlocks f = Some bs \<Longrightarrow> size_list size bs < size f"
  by (cases f) auto

lemma size_plugin [termination_simp]:
  "fldPlugin f = Some p \<Longrightarrow> size_list size (plgEmbeddedTrees p) < size f"
  by (cases f; cases p) auto

lemma size_block_fields [termination_simp]: "size_list size (bltFields b) < size b"
  by (cases b) auto

lemma size_tree_cases [termination_simp]: "size_list size (etCases t) < size t"
  by (cases t) auto

lemma size_case_definitions [termination_simp]: "size_list size (ecDefinitions c) < size c"
  by (cases c) auto

lemma size_unlocalized [simp, termination_simp]: "size (unlocalized f) = size f"
  by (cases f) (simp add: unlocalized_def)

lemma size_list_mem: "x \<in> set xs \<Longrightarrow> size x < size_list size xs"
  by (induction xs) auto

lemma size_definition:
  "find (\<lambda>b. bltSlug b = slug) bs = Some b \<Longrightarrow> size_list size (bltFields b) < size_list size bs"
  by (metis find_Some_iff nth_mem size_block_fields size_list_mem less_trans)

lemma size_block_definition [termination_simp]:
  "fldBlocks f = Some bs \<Longrightarrow> find (\<lambda>b. bltSlug b = slug) bs = Some b \<Longrightarrow>
   size_list size (bltFields b) < size f"
  using size_blocks size_definition less_trans by blast

lemma size_embedded_fields:
  assumes "fldPlugin f = Some p" "t \<in> set (plgEmbeddedTrees p)" "c \<in> set (etCases t)" "b \<in> set (ecDefinitions c)"
  shows "size_list size (bltFields b) < size f"
  using assms size_plugin size_tree_cases size_case_definitions size_block_fields size_list_mem
  by (meson less_trans)

section \<open>Definitions\<close>

definition definitionBySlug :: "block_type list \<Rightarrow> string \<Rightarrow> block_type option" where
  "definitionBySlug types slug = find (\<lambda>b. bltSlug b = slug) types"

definition Definition :: "block_type list \<Rightarrow> string \<Rightarrow> block_type option" where
  "Definition blocks slug = definitionBySlug blocks slug"

definition embedded_HasFields :: "field \<Rightarrow> bool" where
  "embedded_HasFields f = (case fldPlugin f of None \<Rightarrow> False | Some p \<Rightarrow> plgEmbeddedTrees p \<noteq> [])"

text \<open>\<open>eachDefinitionChildSource\<close> as the list of the child lists it visits, in order.\<close>

definition eachDefinitionChildSource :: "field \<Rightarrow> field list list" where
  "eachDefinitionChildSource f =
     (case fldNested f of Some fs \<Rightarrow> [fs] | None \<Rightarrow> [])
     @ (case fldBlocks f of Some bs \<Rightarrow> map bltFields bs | None \<Rightarrow> [])
     @ (case fldPlugin f of
          Some p \<Rightarrow> concat (map (\<lambda>t. concat (map (\<lambda>c. map bltFields (ecDefinitions c)) (etCases t)))
                       (plgEmbeddedTrees p))
        | None \<Rightarrow> [])"

definition DefinitionChildFields :: "field \<Rightarrow> field list" where
  "DefinitionChildFields f = concat (eachDefinitionChildSource f)"

lemma size_child_source:
  assumes "fs \<in> set (eachDefinitionChildSource f)"
  shows "size_list size fs < size f"
proof -
  have block: "size_list size (bltFields b) < size f" if "fldBlocks f = Some bs" "b \<in> set bs" for b bs
    using size_blocks [OF that(1)] size_list_mem [OF that(2)] size_block_fields [of b] by linarith
  show ?thesis
    using assms unfolding eachDefinitionChildSource_def
    by (auto split: option.splits dest!: sym [of "Some _"] intro: size_nested block size_embedded_fields)
qed

lemma size_child_mem: "fs \<in> set (eachDefinitionChildSource f) \<Longrightarrow> g \<in> set fs \<Longrightarrow> size g < size f"
  using size_child_source size_list_mem less_trans by blast

section \<open>Traits\<close>

text \<open>\<open>FieldTraits\<close> is a \<open>uint8\<close> bit set.\<close>

unbundle bit_operations_syntax

type_synonym field_traits = "8 word"

definition FieldTraitLocalized :: field_traits where "FieldTraitLocalized = 1"
definition FieldTraitEmbedded :: field_traits where "FieldTraitEmbedded = 2"

function ListTraits :: "field list \<Rightarrow> field_traits" and DescendantTraits :: "field \<Rightarrow> field_traits" where
  "ListTraits [] = 0"
| "ListTraits (f # fs) =
     (if fldLocalized f then FieldTraitLocalized else 0)
     OR (if embedded_HasFields f then FieldTraitEmbedded else 0)
     OR DescendantTraits f OR ListTraits fs"
| "DescendantTraits f = fold (\<lambda>fs traits. traits OR ListTraits fs) (eachDefinitionChildSource f) 0"
  by pat_completeness auto
termination
  by (relation "measure (case_sum (size_list size) size)") (auto simp: size_child_source)

text \<open>The fields of a list and below it, at any depth.\<close>

inductive below :: "field list \<Rightarrow> field \<Rightarrow> bool" where
  below_here: "f \<in> set fs \<Longrightarrow> below fs f"
| below_child: "f \<in> set fs \<Longrightarrow> gs \<in> set (eachDefinitionChildSource f) \<Longrightarrow> below gs g \<Longrightarrow> below fs g"

inductive_cases below_Nil [elim!]: "below [] g"

lemma below_Cons: "below (f # fs) g \<longleftrightarrow> g = f \<or> (\<exists>gs\<in>set (eachDefinitionChildSource f). below gs g) \<or> below fs g"
proof
  assume "below (f # fs) g"
  then show "g = f \<or> (\<exists>gs\<in>set (eachDefinitionChildSource f). below gs g) \<or> below fs g"
    by (cases rule: below.cases) (auto intro: below.intros)
next
  have "below (f # fs) g" if "below fs g"
    using that by (cases rule: below.cases) (auto intro: below.intros)
  then show "g = f \<or> (\<exists>gs\<in>set (eachDefinitionChildSource f). below gs g) \<or> below fs g \<Longrightarrow> below (f # fs) g"
    by (auto intro: below.intros)
qed

lemma bit_fold_or:
  "bit (fold (\<lambda>x acc. acc OR h x) xs (a :: 'a::len word)) n \<longleftrightarrow> bit a n \<or> (\<exists>x\<in>set xs. bit (h x) n)"
  by (induction xs arbitrary: a) (auto simp: bit_or_iff)

lemma traits_bits:
  "(bit (ListTraits fs) 0 \<longleftrightarrow> (\<exists>g. below fs g \<and> fldLocalized g))
   \<and> (bit (ListTraits fs) 1 \<longleftrightarrow> (\<exists>g. below fs g \<and> embedded_HasFields g))"
  "(bit (DescendantTraits f) 0 \<longleftrightarrow>
      (\<exists>gs\<in>set (eachDefinitionChildSource f). \<exists>g. below gs g \<and> fldLocalized g))
   \<and> (bit (DescendantTraits f) 1 \<longleftrightarrow>
      (\<exists>gs\<in>set (eachDefinitionChildSource f). \<exists>g. below gs g \<and> embedded_HasFields g))"
proof (induction fs and f rule: ListTraits_DescendantTraits.induct)
  case (2 f fs)
  then show ?case
    by (auto simp: below_Cons bit_or_iff FieldTraitLocalized_def FieldTraitEmbedded_def bit_1_iff bit_2_iff)
next
  case (3 f)
  then show ?case by (simp only: DescendantTraits.simps bit_fold_or) simp
qed auto

section \<open>Placements\<close>

text \<open>
  \<open>WalkPlacements\<close>: every placement with its absolute path, and whether the field is
  part of a block definition. The visitor says whether to go below a field. A base
  of \<^const>\<open>None\<close> is a resource's own field list, whose paths are absolute.
\<close>

type_synonym 's placement_visitor = "string list \<Rightarrow> field \<Rightarrow> bool \<Rightarrow> 's \<Rightarrow> bool \<times> 's"

function walk_placements :: "'s placement_visitor \<Rightarrow> string list option \<Rightarrow> field list \<Rightarrow> 's \<Rightarrow> 's"
  and walk_placed_blocks :: "'s placement_visitor \<Rightarrow> string list \<Rightarrow> block_type list \<Rightarrow> 's \<Rightarrow> 's"
  and walk_placed_trees :: "'s placement_visitor \<Rightarrow> string list \<Rightarrow> embedded_tree list \<Rightarrow> 's \<Rightarrow> 's"
  and walk_placed_cases :: "'s placement_visitor \<Rightarrow> string list \<Rightarrow> embedded_case list \<Rightarrow> 's \<Rightarrow> 's" where
  "walk_placements visit base [] s = s"
| "walk_placements visit base (f # fs) s =
     (let segments = (case base of None \<Rightarrow> fldPath f | Some b \<Rightarrow> b @ fldPath f);
          (descend, s1) = visit segments f (base \<noteq> None) s in
      if \<not> descend then walk_placements visit base fs s1
      else
        let s2 = (case fldNested f of None \<Rightarrow> s1 | Some ns \<Rightarrow> walk_placements visit base ns s1);
            s3 = (case fldBlocks f of None \<Rightarrow> s2 | Some bs \<Rightarrow> walk_placed_blocks visit segments bs s2);
            s4 = (case fldPlugin f of None \<Rightarrow> s3 | Some p \<Rightarrow> walk_placed_trees visit segments (plgEmbeddedTrees p) s3)
        in walk_placements visit base fs s4)"
| "walk_placed_blocks visit segments [] s = s"
| "walk_placed_blocks visit segments (b # bs) s =
     walk_placed_blocks visit segments bs (walk_placements visit (Some (segments @ [bltSlug b])) (bltFields b) s)"
| "walk_placed_trees visit segments [] s = s"
| "walk_placed_trees visit segments (t # ts) s =
     walk_placed_trees visit segments ts (walk_placed_cases visit (segments @ [etKey t]) (etCases t) s)"
| "walk_placed_cases visit segments [] s = s"
| "walk_placed_cases visit segments (c # cs) s =
     walk_placed_cases visit segments cs
       (walk_placed_blocks visit (segments @ [ecTagValue c]) (ecDefinitions c) s)"
  by pat_completeness auto
termination
  by (relation "measure (case_sum
        (case_sum (\<lambda>(v, b, fs, s). size_list size fs) (\<lambda>(v, g, bs, s). size_list size bs))
        (case_sum (\<lambda>(v, g, ts, s). size_list size ts) (\<lambda>(v, g, cs, s). size_list size cs)))")
    (auto intro: trans_le_add1 less_imp_le [OF size_block_fields] less_imp_le [OF size_tree_cases]
      less_imp_le [OF size_case_definitions]
      simp: less_Suc_eq_le dest: size_nested size_blocks size_plugin)

definition WalkPlacements :: "field list \<Rightarrow> 's placement_visitor \<Rightarrow> 's \<Rightarrow> 's" where
  "WalkPlacements fs visit = walk_placements visit None fs"

text \<open>
  \<open>appendIDSegment\<close> on names of ASCII letters, digits, \<open>_\<close> and \<open>-\<close>, as every validated
  segment is.
\<close>

fun append_id :: "bool \<Rightarrow> bool \<Rightarrow> bool \<Rightarrow> string \<Rightarrow> string" where
  "append_id first blank dash [] = []"
| "append_id first blank dash (c # cs) =
     (if c = CHR ''_'' \<or> c = CHR ''-'' then
        (if \<not> blank \<and> \<not> dash then CHR ''-'' # append_id False False True cs
         else append_id False blank dash cs)
      else if is_upper c then
        (if \<not> first \<and> \<not> blank \<and> \<not> dash then CHR ''-'' # to_lower_ascii c # append_id False False False cs
         else to_lower_ascii c # append_id False False False cs)
      else c # append_id False False False cs)"

definition appendIDSegment :: "string \<Rightarrow> string \<Rightarrow> string" where
  "appendIDSegment i part = i @ append_id True True False part"

definition PlacementFieldID :: "string \<Rightarrow> string list \<Rightarrow> string" where
  "PlacementFieldID resource path = fold (\<lambda>part i. appendIDSegment (i @ ''-'') part) path resource"

section \<open>Definition walk\<close>

text \<open>
  \<open>WalkDefinitionFields\<close> in pre-order, until the visitor answers false. Go visits a
  list shared by several placements once (it compares the slices' addresses); here it
  is visited at each placement, which a visitor that is indifferent to a repeated
  visit cannot tell.
\<close>

function walk_definitions :: "(field \<Rightarrow> 's \<Rightarrow> bool \<times> 's) \<Rightarrow> field list \<Rightarrow> 's \<Rightarrow> bool \<times> 's"
  and walk_children :: "(field \<Rightarrow> 's \<Rightarrow> bool \<times> 's) \<Rightarrow> field \<Rightarrow> 's \<Rightarrow> bool \<times> 's" where
  "walk_definitions see [] s = (True, s)"
| "walk_definitions see (f # fs) s =
     (case see f s of
        (False, s1) \<Rightarrow> (False, s1)
      | (True, s1) \<Rightarrow>
          (case walk_children see f s1 of
             (False, s2) \<Rightarrow> (False, s2)
           | (True, s2) \<Rightarrow> walk_definitions see fs s2))"
| "walk_children see f s =
     fold (\<lambda>fs (complete, s1). if complete then walk_definitions see fs s1 else (False, s1))
       (eachDefinitionChildSource f) (True, s)"
  by pat_completeness auto
termination
  by (relation "measure (case_sum (\<lambda>(v, fs, s). size_list size fs) (\<lambda>(v, f, s). size f))")
    (auto simp: size_child_source)

declare walk_children.simps [simp del]

definition WalkDefinitionFields :: "(field \<Rightarrow> 's \<Rightarrow> bool \<times> 's) \<Rightarrow> field list \<Rightarrow> 's \<Rightarrow> bool \<times> 's" where
  "WalkDefinitionFields = walk_definitions"

text \<open>The answer of a visitor whose verdict depends on the field alone.\<close>

lemma walk_definitions_all:
  "(\<And>f s. fst (see f s) = P f) \<Longrightarrow> fst (walk_definitions see fs s) \<longleftrightarrow> (\<forall>g. below fs g \<longrightarrow> P g)"
  "(\<And>f s. fst (see f s) = P f) \<Longrightarrow> fst (walk_children see f s) \<longleftrightarrow>
     (\<forall>gs\<in>set (eachDefinitionChildSource f). \<forall>g. below gs g \<longrightarrow> P g)"
proof (induction see fs s and see f s rule: walk_definitions_walk_children.induct)
  case (2 see f fs s)
  obtain d1 s1 where f: "see f s = (d1, s1)" by fastforce
  then have d1: "d1 = P f" using 2(3) [of f s] by simp
  obtain d2 s2 where k: "walk_children see f s1 = (d2, s2)" by fastforce
  from 2 f k d1 show ?case by (auto simp: below_Cons split: bool.splits)
next
  case (3 see f s)
  have step: "fst (fold (\<lambda>fs (complete, s1). if complete then walk_definitions see fs s1 else (False, s1)) gss (c, u))
      \<longleftrightarrow> c \<and> (\<forall>gs\<in>set gss. \<forall>g. below gs g \<longrightarrow> P g)"
    if "set gss \<subseteq> set (eachDefinitionChildSource f)" for gss c u
    using that
  proof (induction gss arbitrary: c u)
    case (Cons gs gss)
    obtain d t where d: "walk_definitions see gs u = (d, t)" by fastforce
    have "d \<longleftrightarrow> (\<forall>g. below gs g \<longrightarrow> P g)" if c
      using 3(1) [of gs True u] 3(2) Cons.prems d that by simp
    then show ?case using Cons d by (cases c) auto
  qed simp
  show ?case unfolding walk_children.simps using step [of "eachDefinitionChildSource f" True s] by simp
qed auto

section \<open>Collections\<close>

record capabilities =
  capTrash :: bool
  capVersions :: bool

record version_settings =
  verDrafts :: bool
  verMaxPerDocument :: int

record collection_index =
  cixFields :: "path list"
  cixUnique :: bool

record collection =
  colID :: string
  colSlug :: string
  colCapabilities :: capabilities
  colAuthIdentityField :: "string option"
  colUpload :: bool
  colVersions :: "version_settings option"
  colFields :: "field list"
  colIndexes :: "collection_index list"

section \<open>Locales\<close>

record locale_setting =
  locCode :: string
  locFallbackLocales :: "string list"

record localization_settings =
  lsLocales :: "locale_setting list"
  lsDefaultLocale :: string
  lsFallback :: bool

definition LocaleCodes :: "localization_settings \<Rightarrow> string list" where
  "LocaleCodes settings = map locCode (lsLocales settings)"

end
