(* ===== verification/Requests.thy ===== *)
theory Requests
  imports Schema_Fields Values
begin

text \<open>
  The store's requests and their helpers (\<open>store/store.go\<close>): page arithmetic on 64-bit integers, the
  read that supplies an update's current document, and the validation of the two
  narrow read contracts, distinct values and index windows.
\<close>

section \<open>Requests\<close>

datatype deletion_mode = DeletionActive | DeletionTrash | DeletionAll
datatype lock_request = LockNone | LockReference | LockMutation

record index_window =
  winPath :: path
  winLowerBound :: string
  winUpperBound :: string

record population =
  popPath :: path
  popDepth :: int
  popSelect :: "path list option"

record request =
  reqCollection :: collection
  reqCollections :: "(string, collection) gomap"
  reqID :: string
  reqFilter :: "node option"
  reqAccess :: "node option"
  reqPage :: int
  reqLimit :: int
  reqSkipTotal :: bool
  reqSort :: "sort_term list"
  reqIndexWindow :: "index_window option"
  reqSelect :: "path list option"
  reqPopulate :: "population list"
  reqPopulationAccess :: "(string, node option) gomap"
  reqPopulationPublishedOnly :: "(string, bool) gomap"
  reqPopulationBudget :: "population_budget option"
  reqPublishedOnly :: bool
  reqDeletion :: deletion_mode
  reqExpectedRevision :: int
  reqLocales :: "string list"
  reqLocaleChain :: "string list"
  reqAllLocales :: bool
  reqLock :: lock_request

definition CurrentRequest :: "request \<Rightarrow> request" where
  "CurrentRequest r =
     r\<lparr>reqLock := LockMutation, reqExpectedRevision := 0, reqPublishedOnly := False,
       reqSelect := None, reqPopulate := [], reqPopulationAccess := [],
       reqPopulationPublishedOnly := [], reqPopulationBudget := None\<rparr>"

definition StatusDraft :: string where "StatusDraft = ''draft''"
definition StatusPublished :: string where "StatusPublished = ''published''"

definition HasLiveHead :: "collection \<Rightarrow> document \<Rightarrow> bool" where
  "HasLiveHead c working =
     (case colVersions c of
        None \<Rightarrow> False
      | Some v \<Rightarrow> if verDrafts v then docPublishedRevision working \<noteq> 0
                  else docStatus working = StatusPublished)"

datatype locked_current_error = CurrentMissing string | CurrentMismatch string string

definition LockedCurrent :: "string \<Rightarrow> document option \<Rightarrow> locked_current_error + document" where
  "LockedCurrent request_id current =
     (case current of
        None \<Rightarrow> Inl (CurrentMissing request_id)
      | Some d \<Rightarrow> if docID d \<noteq> request_id then Inl (CurrentMismatch (docID d) request_id) else Inr d)"

section \<open>Page arithmetic\<close>

definition ListPageBounds :: "int \<Rightarrow> int \<Rightarrow> int \<Rightarrow> int \<times> int \<times> int \<times> int" where
  "ListPageBounds page0 limit0 tot =
     (let page = (if page0 < 1 then 1 else page0);
          limit1 = (if limit0 < 1 then 10 else limit0);
          limit = (if limit1 > 100 then 100 else limit1)
      in if tot < 1 then (page, limit, 0, 0)
         else let pagesBefore = i64 (page - 1) in
           if pagesBefore > go_quot tot limit then (page, limit, tot, tot)
           else let start = i64 (pagesBefore * limit) in
             if start \<ge> tot then (page, limit, tot, tot)
             else (page, limit, start, i64 (start + min limit (i64 (tot - start)))))"

record 'd page =
  pgDocuments :: "'d list"
  pgPage :: int
  pgLimit :: int
  pgTotal :: "int option"
  pgHasNextPage :: bool

definition CountedPage :: "'d list \<Rightarrow> int \<Rightarrow> int \<Rightarrow> int \<Rightarrow> 'd page" where
  "CountedPage documents page0 limit0 tot =
     (let (page, limit, start, end1) = ListPageBounds page0 limit0 tot
      in \<lparr>pgDocuments = documents, pgPage = page, pgLimit = limit, pgTotal = Some tot,
          pgHasNextPage = end1 < tot\<rparr>)"

definition UncountedPageBounds :: "int \<Rightarrow> int \<Rightarrow> int \<times> int \<times> int" where
  "UncountedPageBounds page0 limit0 =
     (let (page, limit, offset, _) = ListPageBounds page0 limit0 MaxInt64 in (page, limit, offset))"

definition TrimUncountedPage :: "'d list \<Rightarrow> int \<Rightarrow> 'd list \<times> bool" where
  "TrimUncountedPage documents limit =
     (if int (length documents) > limit then (take (nat limit) documents, True)
      else (documents, False))"

section \<open>Narrow read contracts\<close>

record distinct_request =
  dstCollection :: collection
  dstField :: path
  dstFilter :: "node option"
  dstAccess :: "node option"
  dstPage :: int
  dstLimit :: int
  dstPublishedOnly :: bool
  dstDeletion :: deletion_mode
  dstLocales :: "string list"
  dstLocaleChain :: "string list"

datatype distinct_error = DistinctNotDirect | DistinctUnsupported path | DistinctUndefined path

definition distinct_supported :: "field \<Rightarrow> bool" where
  "distinct_supported candidate =
     (case fldType candidate of
        FieldTypeText \<Rightarrow> fldCategory candidate = FieldCategoryScalar
      | FieldTypeCode \<Rightarrow> fldCategory candidate = FieldCategoryScalar
      | FieldTypeTextarea \<Rightarrow> fldCategory candidate = FieldCategoryScalar
      | FieldTypeEmail \<Rightarrow> fldCategory candidate = FieldCategoryScalar
      | FieldTypeDate \<Rightarrow> fldCategory candidate = FieldCategoryScalar
      | FieldTypeNumber \<Rightarrow> fldCategory candidate = FieldCategoryScalar
      | FieldTypeCheckbox \<Rightarrow> fldCategory candidate = FieldCategoryScalar
      | FieldTypeRadio \<Rightarrow> fldCategory candidate = FieldCategoryScalar
      | FieldTypeSelect \<Rightarrow> fldCategory candidate = FieldCategoryScalar
          \<and> (case fldSelect candidate of None \<Rightarrow> False | Some s \<Rightarrow> \<not> selHasMany s)
      | FieldTypeRelationship \<Rightarrow> fldCategory candidate = FieldCategoryRelationship
          \<and> (case fldRelationship candidate of None \<Rightarrow> False
             | Some r \<Rightarrow> \<not> relHasMany r \<and> \<not> relPolymorphic r)
      | FieldTypeUpload \<Rightarrow> fldCategory candidate = FieldCategoryUpload
          \<and> (case fldUpload candidate of None \<Rightarrow> False | Some u \<Rightarrow> \<not> uplHasMany u)
      | _ \<Rightarrow> False)"

fun distinct_field :: "path \<Rightarrow> string \<Rightarrow> field list \<Rightarrow> distinct_error option" where
  "distinct_field p name [] = Some (DistinctUndefined p)"
| "distinct_field p name (candidate # r) =
     (if fldName candidate \<noteq> name then distinct_field p name r
      else if \<not> distinct_supported candidate then Some (DistinctUnsupported p) else None)"

definition ValidateDistinctRequest :: "distinct_request \<Rightarrow> distinct_error option" where
  "ValidateDistinctRequest r =
     (if length (dstField r) \<noteq> 1 then Some DistinctNotDirect
      else if hd (dstField r) = ''id'' then None
      else distinct_field (dstField r) (hd (dstField r)) (colFields (dstCollection r)))"

datatype window_error =
    WindowLimit | WindowRange | WindowExpectedRevision | WindowDeletion | WindowLock
  | WindowUnsupported | WindowVersioned | WindowNotDirect | WindowFieldNotUnique
  | WindowFieldUndefined path

definition MaxListWindowDocuments :: int where "MaxListWindowDocuments = 100"

fun window_field :: "path \<Rightarrow> string \<Rightarrow> field list \<Rightarrow> window_error option" where
  "window_field p name [] = Some (WindowFieldUndefined p)"
| "window_field p name (candidate # r) =
     (if fldName candidate \<noteq> name then window_field p name r
      else if fldCategory candidate \<noteq> FieldCategoryScalar \<or> fldType candidate \<noteq> FieldTypeText
              \<or> fldLocalized candidate \<or> \<not> fldUnique candidate \<or> \<not> fldIndex candidate
        then Some WindowFieldNotUnique
      else None)"

definition ValidateListWindowRequest :: "request \<Rightarrow> window_error option" where
  "ValidateListWindowRequest r =
     (if reqLimit r < 1 \<or> reqLimit r > MaxListWindowDocuments then Some WindowLimit
      else case reqIndexWindow r of
        None \<Rightarrow> Some WindowRange
      | Some w \<Rightarrow>
          if path_String (winPath w) = [] \<or> winLowerBound w = [] \<or> winUpperBound w = []
             \<or> \<not> winLowerBound w < winUpperBound w then Some WindowRange
          else if reqExpectedRevision r \<noteq> 0 then Some WindowExpectedRevision
          else if reqDeletion r \<noteq> DeletionActive then Some WindowDeletion
          else if reqLock r \<noteq> LockNone then Some WindowLock
          else if reqID r \<noteq> [] \<or> reqPage r \<noteq> 0 \<or> reqFilter r \<noteq> None \<or> reqAccess r \<noteq> None
                  \<or> reqSort r \<noteq> [] \<or> reqPopulate r \<noteq> [] \<or> reqPublishedOnly r
            then Some WindowUnsupported
          else if capTrash (colCapabilities (reqCollection r))
                  \<or> capVersions (colCapabilities (reqCollection r)) then Some WindowVersioned
          else if length (winPath w) \<noteq> 1 then Some WindowNotDirect
          else window_field (winPath w) (hd (winPath w)) (colFields (reqCollection r)))"

section \<open>Lemmas\<close>

definition norm_page :: "int \<Rightarrow> int" where "norm_page page = max page 1"

definition norm_limit :: "int \<Rightarrow> int" where
  "norm_limit limit = (if limit < 1 then 10 else min limit 100)"

lemma norm_limit_bounds: "1 \<le> norm_limit l" "norm_limit l \<le> 100"
  by (auto simp: norm_limit_def)

lemma page_start_in_range:
  assumes "1 \<le> (l::int)" "l \<le> 100" "0 \<le> p" "p \<le> tot div l" "tot < 2 ^ 63"
  shows "0 \<le> p * l" "p * l \<le> tot"
proof -
  show "0 \<le> p * l" using assms by simp
  have "p * l \<le> tot div l * l" using assms by (simp add: mult_right_mono)
  also have "\<dots> \<le> tot" using assms by (metis div_mult_mod_eq le_add_same_cancel1 pos_mod_sign zero_less_one order_less_le_trans)
  finally show "p * l \<le> tot" .
qed

lemma ListPageBounds_norm:
  "ListPageBounds page limit tot =
    (let p = norm_page page; l = norm_limit limit in
     if tot < 1 then (p, l, 0, 0)
     else if i64 (p - 1) > go_quot tot l then (p, l, tot, tot)
     else let start = i64 (i64 (p - 1) * l) in
       if start \<ge> tot then (p, l, tot, tot)
       else (p, l, start, i64 (start + min l (i64 (tot - start)))))"
proof -
  have "(if page < 1 then 1 else page) = norm_page page"
    "(if (if limit < 1 then 10 else limit) > 100 then 100 else (if limit < 1 then 10 else limit))
     = norm_limit limit"
    by (auto simp: norm_page_def norm_limit_def)
  then show ?thesis unfolding ListPageBounds_def Let_def by simp
qed

text \<open>The bounds without machine arithmetic: no step leaves the 64-bit range.\<close>

lemma bounds_core:
  assumes p: "1 \<le> p" "p < 2 ^ 63" and l: "1 \<le> l" "l \<le> 100" and t: "1 \<le> tot" "tot < 2 ^ 63"
  shows "(if i64 (p - 1) > go_quot tot l then (p, l, tot, tot)
     else let start = i64 (i64 (p - 1) * l) in
       if start \<ge> tot then (p, l, tot, tot)
       else (p, l, start, i64 (start + min l (i64 (tot - start)))))
   = (p, l, min ((p - 1) * l) tot, min (min ((p - 1) * l) tot + l) tot)"
proof -
  have i: "i64 (p - 1) = p - 1" using p by (simp add: i64_id)
  have q: "go_quot tot l = tot div l" using t l by (simp add: go_quot_nonneg)
  show ?thesis
  proof (cases "p - 1 > tot div l")
    case True
    then have "tot div l + 1 \<le> p - 1" by simp
    then have "(tot div l + 1) * l \<le> (p - 1) * l" using l by (simp add: mult_right_mono)
    moreover have "tot = tot div l * l + tot mod l" "tot mod l < l" using l by simp_all
    ultimately have "tot \<le> (p - 1) * l" unfolding distrib_right by linarith
    with True l show ?thesis by (simp add: i q min_def)
  next
    case False
    then have s: "0 \<le> (p - 1) * l" "(p - 1) * l \<le> tot"
      using page_start_in_range [of l "p - 1" tot] l p t by simp_all
    then have e: "i64 ((p - 1) * l) = (p - 1) * l" "i64 (tot - (p - 1) * l) = tot - (p - 1) * l"
      "i64 ((p - 1) * l + min l (tot - (p - 1) * l)) = min ((p - 1) * l + l) tot"
      using t l by (auto simp: i64_id min_def)
    show ?thesis
      unfolding i q Let_def e using False s l by (auto simp: min_def)
  qed
qed

lemma ListPageBounds_exact:
  assumes "page < 2 ^ 63" "tot < 2 ^ 63"
  shows "ListPageBounds page limit tot =
    (let p = norm_page page; l = norm_limit limit; t = max tot 0; s = min ((p - 1) * l) t
     in (p, l, s, min (s + l) t))"
proof (cases "tot < 1")
  case True
  have "0 \<le> (norm_page page - 1) * norm_limit limit"
    using norm_limit_bounds(1) [of limit] by (simp add: norm_page_def)
  moreover have "0 \<le> norm_limit limit" using norm_limit_bounds(1) [of limit] by simp
  ultimately show ?thesis using True by (simp add: ListPageBounds_norm Let_def min_def max_def)
next
  case False
  have "1 \<le> norm_page page" "norm_page page < 2 ^ 63" using assms by (auto simp: norm_page_def)
  from bounds_core [OF this norm_limit_bounds, of tot limit] False assms
  show ?thesis unfolding ListPageBounds_norm Let_def by (simp add: max_def)
qed

text \<open>
  How adapters read a page: the rows between the bounds of a counted page, or at
  most one row more than the limit from the offset of an uncounted one.
\<close>

definition counted_read :: "'d list \<Rightarrow> int \<Rightarrow> int \<Rightarrow> 'd page" where
  "counted_read docs page0 limit0 =
     (let (page, limit, start, end1) = ListPageBounds page0 limit0 (int (length docs))
      in CountedPage (take (nat (end1 - start)) (drop (nat start) docs)) page0 limit0 (int (length docs)))"

definition uncounted_read :: "'d list \<Rightarrow> int \<Rightarrow> int \<Rightarrow> 'd page" where
  "uncounted_read docs page0 limit0 =
     (let (page, limit, offset) = UncountedPageBounds page0 limit0;
          (rows, more) = TrimUncountedPage (take (nat (limit + 1)) (drop (nat offset) docs)) limit
      in \<lparr>pgDocuments = rows, pgPage = page, pgLimit = limit, pgTotal = None, pgHasNextPage = more\<rparr>)"

lemma take_same: "min m (length xs) = min n (length xs) \<Longrightarrow> take m xs = take n xs"
  by (metis min.commute take_all_iff take_take nle_le)

lemma counted_read_exact:
  assumes "page < 2 ^ 63" "int (length docs) < 2 ^ 63"
  shows "pgDocuments (counted_read docs page limit) =
           take (nat (norm_limit limit)) (drop (nat ((norm_page page - 1) * norm_limit limit)) docs)"
    and "pgHasNextPage (counted_read docs page limit) \<longleftrightarrow>
           norm_page page * norm_limit limit < int (length docs)"
proof -
  define p l t where "p = norm_page page" and "l = norm_limit limit" and "t = int (length docs)"
  have l: "1 \<le> l" and s0: "0 \<le> (p - 1) * l"
    using norm_limit_bounds(1) [of limit] by (simp_all add: l_def p_def norm_page_def)
  have b: "ListPageBounds page limit (int (length docs)) =
      (p, l, min ((p - 1) * l) t, min (min ((p - 1) * l) t + l) t)"
    using assms by (simp add: ListPageBounds_exact Let_def p_def l_def t_def)
  have e: "p * l = (p - 1) * l + l" by (simp add: algebra_simps)
  show "pgDocuments (counted_read docs page limit) =
      take (nat (norm_limit limit)) (drop (nat ((norm_page page - 1) * norm_limit limit)) docs)"
  proof (cases "(p - 1) * l < t")
    case True
    have "take (nat (min ((p - 1) * l + l) t - (p - 1) * l)) (drop (nat ((p - 1) * l)) docs) =
          take (nat l) (drop (nat ((p - 1) * l)) docs)"
      by (rule take_same) (use s0 l True in \<open>auto simp: t_def\<close>)
    with True show ?thesis
      by (simp add: counted_read_def b CountedPage_def p_def [symmetric] l_def [symmetric])
  next
    case False
    with s0 show ?thesis
      by (simp add: counted_read_def b CountedPage_def t_def p_def [symmetric] l_def [symmetric])
  qed
  show "pgHasNextPage (counted_read docs page limit) \<longleftrightarrow>
      norm_page page * norm_limit limit < int (length docs)"
    unfolding p_def [symmetric] l_def [symmetric] t_def [symmetric] e
    using s0 l by (auto simp: counted_read_def b [unfolded t_def] CountedPage_def t_def)
qed

lemma uncounted_read_exact:
  assumes "page < 2 ^ 63" "int (length docs) < 2 ^ 63"
  shows "pgDocuments (uncounted_read docs page limit) =
           take (nat (norm_limit limit)) (drop (nat ((norm_page page - 1) * norm_limit limit)) docs)"
    and "pgHasNextPage (uncounted_read docs page limit) \<longleftrightarrow>
           norm_page page * norm_limit limit < int (length docs)"
proof -
  define p l where "p = norm_page page" and "l = norm_limit limit"
  have l: "1 \<le> l" and s0: "0 \<le> (p - 1) * l"
    using norm_limit_bounds(1) [of limit] by (simp_all add: l_def p_def norm_page_def)
  let ?o = "min ((p - 1) * l) MaxInt64"
  let ?rows = "take (nat (l + 1)) (drop (nat ?o) docs)"
  have b: "UncountedPageBounds page limit = (p, l, ?o)"
    using assms by (simp add: UncountedPageBounds_def ListPageBounds_exact Let_def p_def l_def MaxInt64_def)
  have d: "drop (nat ?o) docs = drop (nat ((p - 1) * l)) docs"
  proof (cases "(p - 1) * l \<le> MaxInt64")
    case False
    then have "length docs \<le> nat ?o" "length docs \<le> nat ((p - 1) * l)"
      using assms by (simp_all add: MaxInt64_def min_def)
    then show ?thesis by simp
  qed (simp add: min_def)
  have len: "int (length ?rows) > l \<longleftrightarrow> p * l < int (length docs)"
  proof -
    have "0 \<le> x \<Longrightarrow> int (min (n - nat x) (nat (l + 1))) > l \<longleftrightarrow> x + l < int n" for x and n :: nat
      using l by (simp add: min_def) linarith
    moreover have "p * l = (p - 1) * l + l" by (simp add: algebra_simps)
    ultimately show ?thesis using s0 unfolding d by simp
  qed
  have rows: "take (nat l) ?rows = take (nat l) (drop (nat ((p - 1) * l)) docs)"
    using l unfolding d by (simp add: min_def)
  have whole: "\<not> int (length ?rows) > l \<Longrightarrow> ?rows = take (nat l) ?rows"
  proof -
    assume "\<not> int (length ?rows) > l"
    then have "length ?rows \<le> nat l" using l by linarith
    then show "?rows = take (nat l) ?rows" by (rule take_all [symmetric])
  qed
  show "pgDocuments (uncounted_read docs page limit) =
      take (nat (norm_limit limit)) (drop (nat ((norm_page page - 1) * norm_limit limit)) docs)"
    unfolding p_def [symmetric] l_def [symmetric] rows [symmetric]
    using whole by (auto simp: uncounted_read_def b TrimUncountedPage_def)
  show "pgHasNextPage (uncounted_read docs page limit) \<longleftrightarrow>
      norm_page page * norm_limit limit < int (length docs)"
    unfolding p_def [symmetric] l_def [symmetric] len [symmetric]
    by (simp add: uncounted_read_def b TrimUncountedPage_def del: length_take)
qed

lemma pages_concat:
  "0 < l \<Longrightarrow> concat (map (\<lambda>k. take l (drop (k * l) docs)) [0..<n]) = take (n * l) docs"
proof (induction n)
  case (Suc n)
  then have "concat (map (\<lambda>k. take l (drop (k * l) docs)) [0..<Suc n]) = take (n * l) docs @ take l (drop (n * l) docs)"
    by simp
  then show ?case by (simp add: take_add [symmetric] add.commute)
qed simp

lemma nat_page_start: "nat ((norm_page (int (Suc k)) - 1) * norm_limit limit) = k * nat (norm_limit limit)"
  using norm_limit_bounds(1) [of limit] by (simp add: norm_page_def nat_mult_distrib)

text \<open>
  C21. Reading a list page without a total returns the same documents and the same
  \<open>HasNextPage\<close> as counting first, for every page and limit a caller can send: the
  bounds never wrap around, the limit lies between 1 and 100, and a next page is
  reported exactly when a document follows this one.
\<close>

theorem uncounted_pages_agree_with_counted:
  assumes "is_i64 page" "is_i64 limit" "is_i64 (int (length docs))"
  shows "pgDocuments (uncounted_read docs page limit) = pgDocuments (counted_read docs page limit)
    \<and> pgHasNextPage (uncounted_read docs page limit) = pgHasNextPage (counted_read docs page limit)
    \<and> pgHasNextPage (counted_read docs page limit)
        = (norm_page page * norm_limit limit < int (length docs))
    \<and> int (length (pgDocuments (counted_read docs page limit))) \<le> norm_limit limit
    \<and> 1 \<le> norm_limit limit \<and> norm_limit limit \<le> 100"
proof -
  have b: "page < 2 ^ 63" "int (length docs) < 2 ^ 63" using assms by (simp_all add: is_i64_def)
  have "int (length (pgDocuments (counted_read docs page limit))) \<le> norm_limit limit"
    using norm_limit_bounds(1) [of limit] by (simp add: counted_read_exact [OF b])
  then show ?thesis
    by (simp add: counted_read_exact [OF b] uncounted_read_exact [OF b] norm_limit_bounds)
qed

theorem uncounted_pages_agree_with_counted_witness:
  "pgDocuments (uncounted_read [1, 2, 3 :: nat] 2 2) = pgDocuments (counted_read [1, 2, 3] 2 2)
   \<and> pgHasNextPage (uncounted_read [1, 2, 3 :: nat] 1 2)"
  using uncounted_pages_agree_with_counted [of 2 2 "[1, 2, 3 :: nat]"]
    uncounted_pages_agree_with_counted [of 1 2 "[1, 2, 3 :: nat]"]
  by (simp add: is_i64_def norm_page_def norm_limit_def)

text \<open>
  The pages of a list partition it: reading pages 1, 2, ..., n in turn yields
  the first n times limit documents, each once and in order, so enough pages yield
  the whole list.
\<close>

theorem pages_partition_the_list:
  assumes "int n < 2 ^ 63" "int (length docs) < 2 ^ 63"
  shows "concat (map (\<lambda>k. pgDocuments (counted_read docs (int (Suc k)) limit)) [0..<n])
           = take (n * nat (norm_limit limit)) docs
    \<and> (length docs \<le> n \<longrightarrow>
         concat (map (\<lambda>k. pgDocuments (counted_read docs (int (Suc k)) limit)) [0..<n]) = docs)"
proof -
  let ?l = "nat (norm_limit limit)"
  have l: "0 < ?l" using norm_limit_bounds(1) [of limit] by simp
  have "map (\<lambda>k. pgDocuments (counted_read docs (int (Suc k)) limit)) [0..<n]
      = map (\<lambda>k. take ?l (drop (k * ?l) docs)) [0..<n]"
    using assms by (intro map_cong) (simp_all add: counted_read_exact nat_page_start del: of_nat_Suc)
  then have "concat (map (\<lambda>k. pgDocuments (counted_read docs (int (Suc k)) limit)) [0..<n]) = take (n * ?l) docs"
    by (simp only: pages_concat [OF l])
  moreover have "n \<le> n * ?l" using l by (metis Suc_leI One_nat_def mult.right_neutral mult_le_mono2)
  ultimately show ?thesis by (metis le_trans take_all)
qed

theorem pages_partition_the_list_witness:
  "concat (map (\<lambda>k. pgDocuments (counted_read [1, 2, 3 :: nat] (int (Suc k)) 2)) [0..<3]) = [1, 2, 3]"
  using pages_partition_the_list [of 3 "[1, 2, 3 :: nat]" 2] by (simp add: norm_limit_def)

end
