(* ===== verification/Json_Text.thy ===== *)
theory Json_Text
  imports Prelude
begin

text \<open>
  \<open>json.Valid\<close> of Go's \<open>encoding/json\<close>: one JSON value with optional white space
  around it, nested at most 10,000 deep. Strings reject control bytes and malformed
  escapes but do not check UTF-8, as Go's scanner does not.
\<close>

fun skip_ws :: "string \<Rightarrow> string" where
  "skip_ws [] = []"
| "skip_ws (c # r) = (if byte c \<in> {9, 10, 13, 32} then skip_ws r else c # r)"

definition is_hex :: "char \<Rightarrow> bool" where
  "is_hex c \<longleftrightarrow> is_digit c \<or> (97 \<le> byte c \<and> byte c \<le> 102) \<or> (65 \<le> byte c \<and> byte c \<le> 70)"

text \<open>The rest of a string literal, after its opening quote.\<close>

fun scan_string :: "string \<Rightarrow> string option" where
  "scan_string [] = None"
| "scan_string (c # r) =
     (if byte c = 34 then Some r
      else if byte c < 32 then None
      else if byte c = 92 then
        (case r of
           [] \<Rightarrow> None
         | e # r' \<Rightarrow>
             if byte e \<in> {34, 47, 92, 98, 102, 110, 114, 116} then scan_string r'
             else if byte e = 117 then
               (case r' of
                  h1 # h2 # h3 # h4 # r'' \<Rightarrow>
                    if is_hex h1 \<and> is_hex h2 \<and> is_hex h3 \<and> is_hex h4 then scan_string r'' else None
                | _ \<Rightarrow> None)
             else None)
      else scan_string r)"

fun skip_digits :: "string \<Rightarrow> string" where
  "skip_digits [] = []"
| "skip_digits (c # r) = (if is_digit c then skip_digits r else c # r)"

definition digits1 :: "string \<Rightarrow> string option" where
  "digits1 s = (case s of c # r \<Rightarrow> if is_digit c then Some (skip_digits r) else None | [] \<Rightarrow> None)"

definition scan_fraction :: "string \<Rightarrow> string option" where
  "scan_fraction s = (case s of c # r \<Rightarrow> if c = CHR ''.'' then digits1 r else Some s | [] \<Rightarrow> Some [])"

definition scan_exponent :: "string \<Rightarrow> string option" where
  "scan_exponent s =
     (case s of
        c # r \<Rightarrow>
          if c = CHR ''e'' \<or> c = CHR ''E'' then
            (case r of
               d # r' \<Rightarrow> if d = CHR ''+'' \<or> d = CHR ''-'' then digits1 r' else digits1 r
             | [] \<Rightarrow> None)
          else Some s
      | [] \<Rightarrow> Some [])"

definition scan_number :: "string \<Rightarrow> string option" where
  "scan_number s =
     (let u = (case s of c # r \<Rightarrow> if c = CHR ''-'' then r else s | [] \<Rightarrow> s)
      in case u of
           [] \<Rightarrow> None
         | c # r \<Rightarrow>
             if \<not> is_digit c then None
             else Option.bind (scan_fraction (if c = CHR ''0'' then r else skip_digits r)) scan_exponent)"

definition scan_word :: "string \<Rightarrow> string \<Rightarrow> string option" where
  "scan_word w s = (if has_prefix s w then Some (drop (length w) s) else None)"

definition maxNestingDepth :: int where "maxNestingDepth = 10000"

fun scan_value :: "nat \<Rightarrow> int \<Rightarrow> string \<Rightarrow> string option"
and scan_elements :: "nat \<Rightarrow> int \<Rightarrow> string \<Rightarrow> string option"
and scan_members :: "nat \<Rightarrow> int \<Rightarrow> string \<Rightarrow> string option" where
  "scan_value 0 depth s = None"
| "scan_value (Suc fuel) depth s =
     (case skip_ws s of
        [] \<Rightarrow> None
      | c # r \<Rightarrow>
          if byte c = 34 then scan_string r
          else if byte c = 123 then
            (if depth \<ge> maxNestingDepth then None
             else case skip_ws r of
                 [] \<Rightarrow> None
               | d # r' \<Rightarrow> if byte d = 125 then Some r' else scan_members fuel (depth + 1) (d # r'))
          else if byte c = 91 then
            (if depth \<ge> maxNestingDepth then None
             else case skip_ws r of
                 [] \<Rightarrow> None
               | d # r' \<Rightarrow> if byte d = 93 then Some r' else scan_elements fuel (depth + 1) (d # r'))
          else if c = CHR ''t'' then scan_word ''true'' (c # r)
          else if c = CHR ''f'' then scan_word ''false'' (c # r)
          else if c = CHR ''n'' then scan_word ''null'' (c # r)
          else scan_number (c # r))"
| "scan_elements 0 depth s = None"
| "scan_elements (Suc fuel) depth s =
     (case scan_value fuel depth s of
        None \<Rightarrow> None
      | Some r \<Rightarrow>
          (case skip_ws r of
             [] \<Rightarrow> None
           | d # r' \<Rightarrow>
               if byte d = 93 then Some r'
               else if byte d = 44 then scan_elements fuel depth r' else None))"
| "scan_members 0 depth s = None"
| "scan_members (Suc fuel) depth s =
     (case skip_ws s of
        [] \<Rightarrow> None
      | q # r \<Rightarrow>
          if byte q \<noteq> 34 then None
          else case scan_string r of
            None \<Rightarrow> None
          | Some r1 \<Rightarrow>
              (case skip_ws r1 of
                 [] \<Rightarrow> None
               | k # r2 \<Rightarrow>
                   if byte k \<noteq> 58 then None
                   else case scan_value fuel depth r2 of
                     None \<Rightarrow> None
                   | Some r3 \<Rightarrow>
                       (case skip_ws r3 of
                          [] \<Rightarrow> None
                        | d # r' \<Rightarrow>
                            if byte d = 125 then Some r'
                            else if byte d = 44 then scan_members fuel depth r' else None)))"

text \<open>
  Every second call consumes a byte, so twice the length is more fuel than any
  scan can use.
\<close>

definition json_valid :: "string \<Rightarrow> bool" where
  "json_valid s =
     (case scan_value (2 * length s + 2) 0 s of
        None \<Rightarrow> False
      | Some r \<Rightarrow> skip_ws r = [])"

end
