(* ===== verification/Tasks.thy ===== *)
theory Tasks
  imports Json_Text Schema_Ids Values
begin

text \<open>
  Durable tasks: the record and its states (\<open>store/store.go\<close>) and the
  adapter-neutral validation of everything that enters the queue
  (\<open>store/task_validation.go\<close>). A validator answers \<^const>\<open>None\<close> or its error.
\<close>

datatype task_state =
  TaskStateQueued | TaskStateRunning | TaskStateSucceeded | TaskStateFailed | TaskStateCanceled
  | TaskStateOther string

datatype task_backoff = TaskBackoffFixed | TaskBackoffLinear | TaskBackoffExponential | TaskBackoffOther string

record document_reference =
  refCollectionID :: string
  refDocumentID :: string

record task =
  taskID :: string
  taskSlug :: string
  taskQueue :: string
  taskConcurrencyKey :: string
  taskInput :: string
  taskOutput :: string
  taskState :: task_state
  taskRunAt :: time
  taskAttempts :: int
  taskMaxAttempts :: int
  taskRetryDelay :: duration
  taskMaxRetryDelay :: duration
  taskBackoff :: task_backoff
  taskTimeout :: duration
  taskRetention :: duration
  taskLeaseToken :: string
  taskLeaseExpiresAt :: "time option"
  taskTarget :: "document_reference option"
  taskRequestedBy :: "document_reference option"
  taskLastErrorCode :: string
  taskLastError :: string
  taskCreatedAt :: time
  taskUpdatedAt :: time
  taskCompletedAt :: "time option"
  taskRetainUntil :: "time option"

record task_claim =
  clmLimit :: int
  clmQueues :: "string list"
  clmSlugs :: "string list"
  clmLeaseDuration :: duration

record task_list =
  lstSlug :: string
  lstTarget :: "document_reference option"
  lstStates :: "task_state list"
  lstLimit :: int

record task_failure =
  flrID :: string
  flrLeaseToken :: string
  flrCode :: string
  flrMessage :: string
  flrRetryAfter :: "duration option"

section \<open>Validation\<close>

definition MaxTaskPayloadBytes :: int where "MaxTaskPayloadBytes = 1048576"
definition MaxTaskErrorBytes :: nat where "MaxTaskErrorBytes = 4096"
definition MaxTaskBatch :: int where "MaxTaskBatch = 500"
definition MaxTaskAttempts :: int where "MaxTaskAttempts = 100"
definition MaxTaskConcurrencyKeyBytes :: nat where "MaxTaskConcurrencyKeyBytes = 256"
definition MaxTaskReferenceIDBytes :: nat where "MaxTaskReferenceIDBytes = MaxDocumentIDBytes"
definition MaxTaskRetryDelay :: duration where "MaxTaskRetryDelay = 30 * 24 * Hour"
definition MaxTaskTimeout :: duration where "MaxTaskTimeout = 24 * Hour"
definition MinTaskRetention :: duration where "MinTaskRetention = Hour"
definition MaxTaskRetention :: duration where "MaxTaskRetention = 365 * 24 * Hour"
definition MaxTaskLeaseDuration :: duration where "MaxTaskLeaseDuration = 24 * Hour"

lemmas task_limits = MaxTaskPayloadBytes_def MaxTaskErrorBytes_def MaxTaskBatch_def
  MaxTaskAttempts_def MaxTaskRetryDelay_def MaxTaskTimeout_def MinTaskRetention_def
  MaxTaskRetention_def MaxTaskLeaseDuration_def duration_defs

datatype task_invalid =
    BadSlug | BadQueue | BadConcurrencyKey | BadInput | BadRunTime | BadMaxAttempts | BadRetryDelays
  | BadBackoff | BadTimeout | BadRetention | BadReference | PayloadSize | PayloadMalformed
  | BadClaimLimit | BadLease | BadClaimFilters | BadClaimQueue | BadClaimSlug
  | BadListLimit | BadListSlug | BadListStates | BadListState | BadBatch
  | BadFailureCode | BadFailureMessage | BadFailureDelay | BadReleaseDelay

definition validTaskIdentifier :: "string \<Rightarrow> nat \<Rightarrow> bool" where
  "validTaskIdentifier value limit \<longleftrightarrow> value \<noteq> [] \<and> length value \<le> limit \<and> IsValidCollectionSlug value"

fun failure_code_bytes :: "nat \<Rightarrow> string \<Rightarrow> bool" where
  "failure_code_bytes index [] = True"
| "failure_code_bytes index (candidate # r) =
     (let letter = is_lower candidate; digit = is_digit candidate;
          separator = (candidate = CHR ''_'' \<or> candidate = CHR ''-'')
      in if \<not> letter \<and> \<not> (index > 0 \<and> (digit \<or> separator)) then False
         else failure_code_bytes (index + 1) r)"

definition validTaskFailureCode :: "string \<Rightarrow> bool" where
  "validTaskFailureCode code =
     (if code = [] \<or> length code > 128 then False else failure_code_bytes 0 code)"

definition validTaskText :: "string \<Rightarrow> nat \<Rightarrow> bool \<Rightarrow> bool" where
  "validTaskText value limit trimmed \<longleftrightarrow>
     length value \<le> limit \<and> utf8_valid value \<and> NUL \<notin> set value \<and> (\<not> trimmed \<or> trim_space value = value)"

definition wholeTaskMilliseconds :: "duration \<Rightarrow> bool" where
  "wholeTaskMilliseconds d \<longleftrightarrow> go_rem d Millisecond = 0"

fun validTaskState :: "task_state \<Rightarrow> bool" where
  "validTaskState (TaskStateOther _) = False"
| "validTaskState _ = True"

definition ValidateTaskPayload :: "string \<Rightarrow> task_invalid option" where
  "ValidateTaskPayload payload =
     (if length payload = 0 \<or> int (length payload) > MaxTaskPayloadBytes then Some PayloadSize
      else if \<not> json_valid payload then Some PayloadMalformed else None)"

definition ValidateTaskReference :: "document_reference \<Rightarrow> task_invalid option" where
  "ValidateTaskReference r =
     (if \<not> IsValidStableID (refCollectionID r)
         \<or> \<not> validTaskText (refDocumentID r) MaxTaskReferenceIDBytes False \<or> refDocumentID r = []
      then Some BadReference else None)"

definition ValidateTaskLeaseDuration :: "duration \<Rightarrow> task_invalid option" where
  "ValidateTaskLeaseDuration d =
     (if \<not> wholeTaskMilliseconds d \<or> d < Millisecond \<or> d > MaxTaskLeaseDuration then Some BadLease
      else None)"

definition ValidateTaskAdmission :: "task \<Rightarrow> task_invalid option" where
  "ValidateTaskAdmission t =
     (if \<not> validTaskIdentifier (taskSlug t) 128 then Some BadSlug
      else if \<not> validTaskIdentifier (taskQueue t) 64 then Some BadQueue
      else if taskConcurrencyKey t \<noteq> []
              \<and> \<not> validTaskText (taskConcurrencyKey t) MaxTaskConcurrencyKeyBytes True
        then Some BadConcurrencyKey
      else if ValidateTaskPayload (taskInput t) \<noteq> None then Some BadInput
      else if time_IsZero (taskRunAt t) then Some BadRunTime
      else if taskMaxAttempts t < 1 \<or> taskMaxAttempts t > MaxTaskAttempts then Some BadMaxAttempts
      else if \<not> wholeTaskMilliseconds (taskRetryDelay t) \<or> \<not> wholeTaskMilliseconds (taskMaxRetryDelay t)
              \<or> taskRetryDelay t < Millisecond \<or> taskMaxRetryDelay t < taskRetryDelay t
              \<or> taskMaxRetryDelay t > MaxTaskRetryDelay
        then Some BadRetryDelays
      else if taskBackoff t \<noteq> TaskBackoffFixed \<and> taskBackoff t \<noteq> TaskBackoffLinear
              \<and> taskBackoff t \<noteq> TaskBackoffExponential
        then Some BadBackoff
      else if \<not> wholeTaskMilliseconds (taskTimeout t) \<or> taskTimeout t < Millisecond
              \<or> taskTimeout t > MaxTaskTimeout
        then Some BadTimeout
      else if \<not> wholeTaskMilliseconds (taskRetention t) \<or> taskRetention t < MinTaskRetention
              \<or> taskRetention t > MaxTaskRetention
        then Some BadRetention
      else case taskTarget t of
             Some r \<Rightarrow> (case ValidateTaskReference r of
                 Some e \<Rightarrow> Some e
               | None \<Rightarrow> Option.bind (taskRequestedBy t) ValidateTaskReference)
           | None \<Rightarrow> Option.bind (taskRequestedBy t) ValidateTaskReference)"

definition ValidateTaskClaim :: "task_claim \<Rightarrow> task_invalid option" where
  "ValidateTaskClaim r =
     (if clmLimit r < 1 \<or> clmLimit r > MaxTaskBatch then Some BadClaimLimit
      else case ValidateTaskLeaseDuration (clmLeaseDuration r) of
        Some e \<Rightarrow> Some e
      | None \<Rightarrow>
          if int (length (clmQueues r)) > MaxTaskBatch \<or> int (length (clmSlugs r)) > MaxTaskBatch
            then Some BadClaimFilters
          else if \<not> list_all (\<lambda>q. validTaskIdentifier q 64) (clmQueues r) then Some BadClaimQueue
          else if \<not> list_all (\<lambda>s. validTaskIdentifier s 128) (clmSlugs r) then Some BadClaimSlug
          else None)"

definition ValidateTaskList :: "task_list \<Rightarrow> task_invalid option" where
  "ValidateTaskList r =
     (if lstLimit r < 1 \<or> lstLimit r > MaxTaskBatch then Some BadListLimit
      else if lstSlug r \<noteq> [] \<and> \<not> validTaskIdentifier (lstSlug r) 128 then Some BadListSlug
      else case Option.bind (lstTarget r) ValidateTaskReference of
        Some e \<Rightarrow> Some e
      | None \<Rightarrow>
          if length (lstStates r) > 5 then Some BadListStates
          else if \<not> list_all validTaskState (lstStates r) then Some BadListState
          else None)"

definition ValidateTaskBatch :: "int \<Rightarrow> task_invalid option" where
  "ValidateTaskBatch limit = (if limit < 1 \<or> limit > MaxTaskBatch then Some BadBatch else None)"

definition ValidateTaskFailure :: "task_failure \<Rightarrow> task_invalid option" where
  "ValidateTaskFailure f =
     (if \<not> validTaskFailureCode (flrCode f) then Some BadFailureCode
      else if \<not> validTaskText (flrMessage f) MaxTaskErrorBytes False then Some BadFailureMessage
      else case flrRetryAfter f of
        None \<Rightarrow> None
      | Some d \<Rightarrow>
          if \<not> wholeTaskMilliseconds d \<or> d < Millisecond \<or> d > MaxTaskRetryDelay
          then Some BadFailureDelay else None)"

definition ValidateTaskRelease :: "duration \<Rightarrow> string \<Rightarrow> string \<Rightarrow> task_invalid option" where
  "ValidateTaskRelease delay code message =
     (if \<not> wholeTaskMilliseconds delay \<or> delay < 0 \<or> delay > MaxTaskRetryDelay then Some BadReleaseDelay
      else ValidateTaskFailure
        \<lparr>flrID = [], flrLeaseToken = [], flrCode = code, flrMessage = message, flrRetryAfter = None\<rparr>)"

lemma wholeTaskMilliseconds_dvd: "wholeTaskMilliseconds d \<longleftrightarrow> Millisecond dvd d"
  by (simp add: wholeTaskMilliseconds_def go_rem_dvd Millisecond_def)

lemma failure_code_pattern:
  "validTaskFailureCode s \<longleftrightarrow>
   length s \<le> 128 \<and> s \<noteq> [] \<and> is_lower (hd s)
   \<and> list_all (\<lambda>c. is_lower c \<or> is_digit c \<or> c = CHR ''_'' \<or> c = CHR ''-'') (tl s)"
proof -
  have "failure_code_bytes (Suc n) r \<longleftrightarrow>
        list_all (\<lambda>c. is_lower c \<or> is_digit c \<or> c = CHR ''_'' \<or> c = CHR ''-'') r" for n r
    by (induction r arbitrary: n) (auto simp: Let_def)
  then show ?thesis by (cases s) (auto simp: validTaskFailureCode_def Let_def)
qed

end
