(* ===== verification/Embedded.thy ===== *)
theory Embedded
  imports Schema_Fields Values
begin

text \<open>
  Plugin envelopes (\<open>internal/embedded/tree.go\<close>, \<open>internal/embedded/validate.go\<close>): the
  bounded walk over the structural nodes a plugin field declares, which hands each
  schema-owned payload to a callback. The callback is a function that threads a state
  \<open>'s\<close> of its own beside the traversal budget, so what a Go closure captures is part
  of the state. A diagnostic keeps its code and path, not its message.
\<close>

section \<open>Loops that stop at the first error\<close>

fun each :: "('a \<Rightarrow> 's \<Rightarrow> 'e option \<times> 's) \<Rightarrow> 'a list \<Rightarrow> 's \<Rightarrow> 'e option \<times> 's" where
  "each f [] s = (None, s)"
| "each f (x # xs) s = (case f x s of (Some e, s1) \<Rightarrow> (Some e, s1) | (None, s1) \<Rightarrow> each f xs s1)"

lemma each_cong [fundef_cong]:
  "xs = ys \<Longrightarrow> s = t \<Longrightarrow> (\<And>x s. x \<in> set ys \<Longrightarrow> f x s = g x s) \<Longrightarrow> each f xs s = each g ys t"
proof (induction ys arbitrary: xs s t)
  case (Cons y ys)
  then show ?case by (auto split: prod.splits option.splits)
qed simp

section \<open>Budget\<close>

datatype embedded_code =
    EmbeddedLimit | InvalidEmbeddedNode | InvalidEmbeddedPayload | UnknownEmbeddedSchema
  | InvalidRowKey | DuplicateRowKey string | InvalidEmbeddedChildren | InvalidEmbeddedRoot
  | LocaleMapExpected | UnknownLocaleKey string

text \<open>
  The last two are the errors of a callback: localized input in the wrong shape.
\<close>

type_synonym embedded_error = "embedded_code \<times> string"

definition MaxDepth :: int where "MaxDepth = 64"
definition MaxNodes :: int where "MaxNodes = 10000"
definition MaxWork :: int where "MaxWork = 100000"

record ebudget =
  ebDepth :: int
  ebNodes :: int
  ebWork :: int
  ebWorkOnly :: bool

definition NewBudget :: ebudget where
  "NewBudget = \<lparr>ebDepth = 0, ebNodes = 0, ebWork = 0, ebWorkOnly = False\<rparr>"

definition NewWorkBudget :: ebudget where
  "NewWorkBudget = NewBudget\<lparr>ebWorkOnly := True\<rparr>"

definition Enter :: "string \<Rightarrow> ebudget \<Rightarrow> embedded_error option \<times> ebudget" where
  "Enter path b =
     (let b1 = b\<lparr>ebDepth := ebDepth b + 1, ebWork := ebWork b + 1\<rparr>
      in if ebDepth b1 > MaxDepth \<or> ebWork b1 > MaxWork
         then (Some (EmbeddedLimit, path), b1\<lparr>ebDepth := ebDepth b1 - 1\<rparr>)
         else (None, b1))"

definition Leave :: "ebudget \<Rightarrow> ebudget" where
  "Leave b = b\<lparr>ebDepth := ebDepth b - 1\<rparr>"

definition join :: "string \<Rightarrow> string \<Rightarrow> string" where
  "join prefix name = (if prefix = [] then name else prefix @ CHR ''.'' # name)"

definition visitLeaf :: "string \<Rightarrow> string \<Rightarrow> ebudget \<Rightarrow> embedded_error option \<times> ebudget" where
  "visitLeaf prefix name b =
     (if ebDepth b \<ge> MaxDepth \<or> ebWork b \<ge> MaxWork then Enter (join prefix name) b
      else (None, b\<lparr>ebWork := ebWork b + 1\<rparr>))"

definition budget_node :: "string \<Rightarrow> ebudget \<Rightarrow> embedded_error option \<times> ebudget" where
  "budget_node path b =
     (let b1 = b\<lparr>ebNodes := ebNodes b + 1, ebWork := ebWork b + 1\<rparr>
      in if (\<not> ebWorkOnly b1 \<and> ebNodes b1 > MaxNodes) \<or> ebWork b1 > MaxWork
         then (Some (EmbeddedLimit, path), b1) else (None, b1))"

section \<open>Sizes\<close>

lemma size_Lookup: "Lookup v name = Some c \<Longrightarrow> size c < size v"
  by (cases v) (auto dest!: map_of_SomeD size_member)

lemma size_element: "x \<in> set (elements t) \<Longrightarrow> size x < size (SList t)"
  using size_elements [of x t size] by simp

lemma size_Lookup_element:
  "Lookup v name = Some (SList t) \<Longrightarrow> x \<in> set (elements t) \<Longrightarrow> size x < size v"
  using size_Lookup size_element less_trans by blast

section \<open>Occurrences\<close>

record read_occurrence =
  roTree :: embedded_tree
  roCase :: embedded_case
  roType :: block_type
  roPayload :: svalue
  roRuntimePath :: string
  roIdentity :: string
  roKey :: string

abbreviation roFields :: "read_occurrence \<Rightarrow> field list" where
  "roFields occ \<equiv> bltFields (roType occ)"

definition identity :: "string \<Rightarrow> string \<Rightarrow> string \<Rightarrow> string" where
  "identity tree tag key =
     nat_dec (length tree) @ '':'' @ tree @ ''/'' @ nat_dec (length tag) @ '':'' @ tag @ ''/''
     @ nat_dec (length key) @ '':'' @ key"

type_synonym 's transform =
  "read_occurrence \<Rightarrow> ebudget \<times> 's \<Rightarrow> (embedded_error + svalue \<times> bool) \<times> (ebudget \<times> 's)"

text \<open>
  The state of one tree's walk: the budget and the caller's state, and the identities
  seen in this tree with the path of each.
\<close>

type_synonym 's walk_state = "(ebudget \<times> 's) \<times> (string \<times> string) list"

text \<open>
  The case a node's tag selects: the payload must be an object whose discriminator
  names a definition of the case; its identity, when present, must be a fresh
  nonempty string. The answer is the changed payload, under its member name.
\<close>

definition occurrence_key ::
  "embedded_case \<Rightarrow> svalue \<Rightarrow> string \<Rightarrow> (string \<times> string) list \<Rightarrow>
   (embedded_error + string) \<times> (string \<times> string) list" where
  "occurrence_key c payload payloadPath seen =
     (case Lookup payload (ecIdentity c) of
        None \<Rightarrow> (Inr [], seen)
      | Some raw \<Rightarrow>
          (case raw of
             SString key \<Rightarrow>
               if \<not> utf8_valid key \<or> trim_space key = []
               then (Inl (InvalidRowKey, join payloadPath (ecIdentity c)), seen)
               else (case map_of seen key of
                   Some previous \<Rightarrow> (Inl (DuplicateRowKey previous, join payloadPath (ecIdentity c)), seen)
                 | None \<Rightarrow> (Inr key, put key (join payloadPath (ecIdentity c)) seen))
           | _ \<Rightarrow> (Inl (InvalidRowKey, join payloadPath (ecIdentity c)), seen)))"

definition payload_type :: "embedded_case \<Rightarrow> svalue \<Rightarrow> block_type option" where
  "payload_type c payload =
     (case Get payload (ecDiscriminator c) of
        SString kind \<Rightarrow> Definition (ecDefinitions c) kind
      | _ \<Rightarrow> None)"

definition occurrence_of ::
  "embedded_tree \<Rightarrow> embedded_case \<Rightarrow> block_type \<Rightarrow> svalue \<Rightarrow> string \<Rightarrow> string \<Rightarrow> read_occurrence" where
  "occurrence_of tree c variant payload payloadPath key =
     \<lparr>roTree = tree, roCase = c, roType = variant, roPayload = payload, roRuntimePath = payloadPath,
      roIdentity = identity (etKey tree) (ecTagValue c @ ''/'' @ bltSlug variant) key, roKey = key\<rparr>"

definition visit_case ::
  "'s transform \<Rightarrow> embedded_tree \<Rightarrow> embedded_case \<Rightarrow> svalue \<Rightarrow> string \<Rightarrow> 's walk_state \<Rightarrow>
   (embedded_error + (string \<times> svalue) option) \<times> 's walk_state" where
  "visit_case transform tree c value path st =
     (let payloadPath = join path (ecPayload c); payload = Get value (ecPayload c); (bs, seen) = st in
      if svalue_Kind payload \<noteq> KindObject then (Inl (InvalidEmbeddedPayload, payloadPath), st)
      else case payload_type c payload of
        None \<Rightarrow> (Inl (UnknownEmbeddedSchema, join payloadPath (ecDiscriminator c)), st)
      | Some variant \<Rightarrow>
          (case occurrence_key c payload payloadPath seen of
             (Inl e, seen1) \<Rightarrow> (Inl e, (bs, seen1))
           | (Inr key, seen1) \<Rightarrow>
               (case transform (occurrence_of tree c variant payload payloadPath key) bs of
                  (Inl e, bs1) \<Rightarrow> (Inl e, (bs1, seen1))
                | (Inr (updated, changed), bs1) \<Rightarrow>
                    (Inr (if changed then Some (ecPayload c, updated) else None), (bs1, seen1)))))"

definition visit_cases ::
  "'s transform \<Rightarrow> embedded_tree \<Rightarrow> svalue \<Rightarrow> string \<Rightarrow> 's walk_state \<Rightarrow>
   (embedded_error + (string \<times> svalue) option) \<times> 's walk_state" where
  "visit_cases transform tree value path st =
     (let tag = (case Get value (etTag tree) of SString s \<Rightarrow> s | _ \<Rightarrow> []) in
      case find (\<lambda>c. ecTagValue c = tag) (etCases tree) of
        None \<Rightarrow> (Inr None, st)
      | Some c \<Rightarrow> visit_case transform tree c value path st)"

section \<open>The walk\<close>

text \<open>\<open>mapNodes\<close>: the items after the first error are not visited; a changed list is rebuilt once.\<close>

fun map_node_items ::
  "(svalue \<Rightarrow> string \<Rightarrow> 'st \<Rightarrow> (embedded_error + svalue \<times> bool) \<times> 'st) \<Rightarrow> string \<Rightarrow> nat \<Rightarrow> svalue list \<Rightarrow> 'st \<Rightarrow>
   (embedded_error + svalue list \<times> bool) \<times> 'st" where
  "map_node_items f path i [] st = (Inr ([], False), st)"
| "map_node_items f path i (x # xs) st =
     (case f x (path @ CHR ''.'' # nat_dec i) st of
        (Inl e, st1) \<Rightarrow> (Inl e, st1)
      | (Inr (x', changed), st1) \<Rightarrow>
          (case map_node_items f path (i + 1) xs st1 of
             (Inl e, st2) \<Rightarrow> (Inl e, st2)
           | (Inr (ys, changed'), st2) \<Rightarrow> (Inr ((if changed then x' else x) # ys, changed \<or> changed'), st2)))"

lemma map_node_items_cong [fundef_cong]:
  "xs = ys \<Longrightarrow> p = q \<Longrightarrow> i = j \<Longrightarrow> st = st' \<Longrightarrow>
   (\<And>x r s. x \<in> set ys \<Longrightarrow> f x r s = g x r s) \<Longrightarrow> map_node_items f p i xs st = map_node_items g q j ys st'"
proof (induction ys arbitrary: xs p q i j st st')
  case (Cons y ys)
  then show ?case by (auto split: prod.splits sum.splits)
qed simp

definition mapNodes ::
  "(svalue \<Rightarrow> string \<Rightarrow> 'st \<Rightarrow> (embedded_error + svalue \<times> bool) \<times> 'st) \<Rightarrow> svalue vlist \<Rightarrow> string \<Rightarrow> 'st \<Rightarrow>
   (embedded_error + svalue \<times> bool) \<times> 'st" where
  "mapNodes f t path st =
     (case map_node_items f path 0 (elements t) st of
        (Inl e, st1) \<Rightarrow> (Inl e, st1)
      | (Inr (items, changed), st1) \<Rightarrow> (Inr (if changed then ListOf items else SList t, changed), st1))"

lemma mapNodes_cong [fundef_cong]:
  "t = u \<Longrightarrow> p = q \<Longrightarrow> st = st' \<Longrightarrow> (\<And>x r s. x \<in> set (elements u) \<Longrightarrow> f x r s = g x r s) \<Longrightarrow>
   mapNodes f t p st = mapNodes g u q st'"
  unfolding mapNodes_def by (metis (no_types, lifting) map_node_items_cong)

text \<open>The deferred \<open>Leave\<close> runs on every way out once \<open>Enter\<close> has succeeded.\<close>

definition entering :: "string \<Rightarrow> ('s walk_state \<Rightarrow> (embedded_error + 'a) \<times> 's walk_state) \<Rightarrow> 's walk_state \<Rightarrow>
    (embedded_error + 'a) \<times> 's walk_state" where
  "entering path body st =
     (case st of ((b, s), seen) \<Rightarrow>
        (case Enter path b of
           (Some e, b1) \<Rightarrow> (Inl e, ((b1, s), seen))
         | (None, b1) \<Rightarrow>
             (case body ((b1, s), seen) of (r, ((b2, s2), seen2)) \<Rightarrow> (r, ((Leave b2, s2), seen2)))))"

lemma entering_cong [fundef_cong]:
  "p = q \<Longrightarrow> st = st' \<Longrightarrow> (\<And>s. f s = g s) \<Longrightarrow> entering p f st = entering q g st'"
  by (subgoal_tac "f = g") (auto intro: ext)

definition set_member :: "svalue \<Rightarrow> (string \<times> svalue) option \<Rightarrow> svalue" where
  "set_member value change =
     (case change of None \<Rightarrow> value | Some (name, child) \<Rightarrow> ObjectOf (put name child (fst (CopyObject value))))"

text \<open>
  One structural node. The manifest admits no descriptor whose payload member is its
  children member (\<open>ValidateEmbeddedTrees\<close>), so the children are those of the node
  as stored, whether or not the payload was replaced.
\<close>

function walk_node ::
  "'s transform \<Rightarrow> embedded_tree \<Rightarrow> svalue \<Rightarrow> string \<Rightarrow> 's walk_state \<Rightarrow>
   (embedded_error + svalue \<times> bool) \<times> 's walk_state" where
  "walk_node transform tree value path st =
     entering path (\<lambda>((b, s), seen).
       case budget_node path b of
         (Some e, b1) \<Rightarrow> (Inl e, ((b1, s), seen))
       | (None, b1) \<Rightarrow>
           if svalue_Kind value \<noteq> KindObject then (Inl (InvalidEmbeddedNode, path), ((b1, s), seen))
           else (case visit_cases transform tree value path ((b1, s), seen) of
              (Inl e, st2) \<Rightarrow> (Inl e, st2)
            | (Inr change, st2) \<Rightarrow>
                (case Lookup value (etChildren tree) of
                   None \<Rightarrow> (Inr (set_member value change, change \<noteq> None), st2)
                 | Some SNull \<Rightarrow> (Inr (set_member value change, change \<noteq> None), st2)
                 | Some (SList t) \<Rightarrow>
                     (case mapNodes (walk_node transform tree) t (join path (etChildren tree)) st2 of
                        (Inl e, st3) \<Rightarrow> (Inl e, st3)
                      | (Inr (updated, changed), st3) \<Rightarrow>
                          (Inr (if changed
                                then set_member (set_member value change) (Some (etChildren tree, updated))
                                else set_member value change, change \<noteq> None \<or> changed), st3))
                 | Some _ \<Rightarrow> (Inl (InvalidEmbeddedChildren, join path (etChildren tree)), st2)))) st"
  by pat_completeness auto
termination
  by (relation "measure (\<lambda>(f, t, v, p, s). size v)") (auto intro: size_Lookup_element)

declare walk_node.simps [simp del]

text \<open>The walk from the field's value to the structural root, through literal properties.\<close>

fun walk_root ::
  "'s transform \<Rightarrow> embedded_tree \<Rightarrow> svalue \<Rightarrow> string list \<Rightarrow> string \<Rightarrow> 's walk_state \<Rightarrow>
   (embedded_error + svalue \<times> bool) \<times> 's walk_state" where
  "walk_root transform tree v [] path st =
     (case v of SList t \<Rightarrow> mapNodes (walk_node transform tree) t path st
      | _ \<Rightarrow> walk_node transform tree v path st)"
| "walk_root transform tree v (segment # segments) path st =
     entering path (\<lambda>st1.
       if svalue_Kind v \<noteq> KindObject then (Inl (InvalidEmbeddedRoot, path), st1)
       else (case Lookup v segment of
          None \<Rightarrow> (Inl (InvalidEmbeddedRoot, join path segment), st1)
        | Some child \<Rightarrow>
            (case walk_root transform tree child segments (join path segment) st1 of
               (Inl e, st2) \<Rightarrow> (Inl e, st2)
             | (Inr (updated, changed), st2) \<Rightarrow>
                 (Inr (if changed then set_member v (Some (segment, updated)) else v, changed), st2)))) st"

fun walk_trees ::
  "'s transform \<Rightarrow> embedded_tree list \<Rightarrow> svalue \<Rightarrow> string \<Rightarrow> ebudget \<times> 's \<Rightarrow>
   (embedded_error + svalue) \<times> (ebudget \<times> 's)" where
  "walk_trees transform [] v prefix bs = (Inr v, bs)"
| "walk_trees transform (tree # trees) v prefix bs =
     (case walk_root transform tree v (etRoot tree) prefix (bs, []) of
        (Inl e, (bs1, _)) \<Rightarrow> (Inl e, bs1)
      | (Inr (updated, _), (bs1, _)) \<Rightarrow> walk_trees transform trees updated prefix bs1)"

definition walk ::
  "field \<Rightarrow> svalue \<Rightarrow> string \<Rightarrow> 's transform \<Rightarrow> ebudget \<times> 's \<Rightarrow>
   (embedded_error + svalue) \<times> (ebudget \<times> 's)" where
  "walk f v prefix transform bs =
     (case fldPlugin f of
        None \<Rightarrow> (Inr v, bs)
      | Some p \<Rightarrow> if plgEmbeddedTrees p = [] \<or> svalue_Kind v = KindNull then (Inr v, bs)
                  else walk_trees transform (plgEmbeddedTrees p) v prefix bs)"

definition TransformValue ::
  "field \<Rightarrow> svalue \<Rightarrow> string \<Rightarrow> 's transform \<Rightarrow> ebudget \<times> 's \<Rightarrow>
   (embedded_error + svalue) \<times> (ebudget \<times> 's)" where
  "TransformValue = walk"

text \<open>\<open>Transform\<close> always rebuilds the payload from the map its callback returns.\<close>

definition Transform ::
  "field \<Rightarrow> svalue \<Rightarrow> string \<Rightarrow>
   (read_occurrence \<Rightarrow> ebudget \<times> 's \<Rightarrow> (embedded_error + svalues) \<times> (ebudget \<times> 's)) \<Rightarrow> ebudget \<times> 's \<Rightarrow>
   (embedded_error + svalue) \<times> (ebudget \<times> 's)" where
  "Transform f v prefix transform =
     TransformValue f v prefix (\<lambda>occ st. case transform occ st of
       (Inl e, st1) \<Rightarrow> (Inl e, st1) | (Inr updated, st1) \<Rightarrow> (Inr (ObjectOf updated, True), st1))"

definition Visit ::
  "field \<Rightarrow> svalue \<Rightarrow> string \<Rightarrow>
   (read_occurrence \<Rightarrow> ebudget \<times> 's \<Rightarrow> embedded_error option \<times> (ebudget \<times> 's)) \<Rightarrow> ebudget \<times> 's \<Rightarrow>
   embedded_error option \<times> (ebudget \<times> 's)" where
  "Visit f v prefix visitor bs =
     (case walk f v prefix (\<lambda>occ st. case visitor occ st of
             (Some e, st1) \<Rightarrow> (Inl e, st1) | (None, st1) \<Rightarrow> (Inr (roPayload occ, False), st1)) bs of
        (Inl e, bs1) \<Rightarrow> (Some e, bs1) | (Inr _, bs1) \<Rightarrow> (None, bs1))"

definition Occurrences :: "field \<Rightarrow> svalue \<Rightarrow> string \<Rightarrow> ebudget \<Rightarrow> (embedded_error option \<times> read_occurrence list) \<times> ebudget" where
  "Occurrences f v prefix b =
     (case Visit f v prefix (\<lambda>occ (b, result). (None, (b, result @ [occ]))) (b, []) of
        (e, (b1, result)) \<Rightarrow> ((e, result), b1))"

section \<open>Which payloads a callback sees\<close>

lemmas case_congs = option.case_cong sum.case_cong prod.case_cong svalue.case_cong if_cong

definition occurs :: "embedded_tree \<Rightarrow> read_occurrence \<Rightarrow> bool" where
  "occurs tree occ \<longleftrightarrow> roTree occ = tree \<and> roCase occ \<in> set (etCases tree)
     \<and> roType occ \<in> set (ecDefinitions (roCase occ)) \<and> svalue_Kind (roPayload occ) = KindObject"

definition occurs_in :: "field \<Rightarrow> read_occurrence \<Rightarrow> bool" where
  "occurs_in f occ \<longleftrightarrow> (\<exists>p. fldPlugin f = Some p \<and> (\<exists>tree\<in>set (plgEmbeddedTrees p). occurs tree occ))"

lemma occurs_in_size [termination_simp]:
  "occurs_in f occ \<Longrightarrow> size_list size (roFields occ) < size f"
  unfolding occurs_in_def occurs_def by (elim exE conjE bexE) (rule size_embedded_fields; simp)

lemma payload_type_mem: "payload_type c payload = Some b \<Longrightarrow> b \<in> set (ecDefinitions c)"
  by (auto simp: payload_type_def Definition_def definitionBySlug_def find_Some_iff split: svalue.splits)

lemma occurs_occurrence_of:
  "c \<in> set (etCases tree) \<Longrightarrow> payload_type c payload = Some variant \<Longrightarrow> svalue_Kind payload = KindObject \<Longrightarrow>
   occurs tree (occurrence_of tree c variant payload payloadPath key)"
  by (simp add: occurs_def occurrence_of_def payload_type_mem)

lemma visit_case_cong:
  assumes "c \<in> set (etCases tree)" "\<And>occ st. occurs tree occ \<Longrightarrow> t occ st = u occ st"
  shows "visit_case t tree c v path st = visit_case u tree c v path st"
proof (cases "svalue_Kind (Get v (ecPayload c)) = KindObject")
  case True
  have same: "t (occurrence_of tree c variant (Get v (ecPayload c)) p key) = u (occurrence_of tree c variant (Get v (ecPayload c)) p key)"
    if "payload_type c (Get v (ecPayload c)) = Some variant" for variant p key
    using assms(2) [OF occurs_occurrence_of [OF assms(1) that True]] by (intro ext)
  show ?thesis
  proof (cases "payload_type c (Get v (ecPayload c))")
    case (Some variant)
    then show ?thesis using True by (simp add: visit_case_def Let_def same [OF Some] cong: case_congs)
  qed (simp add: visit_case_def Let_def cong: case_congs)
qed (simp add: visit_case_def Let_def)

lemma visit_cases_cong:
  assumes "\<And>occ st. occurs tree occ \<Longrightarrow> t occ st = u occ st"
  shows "visit_cases t tree v path st = visit_cases u tree v path st"
proof (cases "find (\<lambda>c. ecTagValue c = (case Get v (etTag tree) of SString s \<Rightarrow> s | _ \<Rightarrow> [])) (etCases tree)")
  case (Some c)
  then have "c \<in> set (etCases tree)" by (auto simp: find_Some_iff)
  from visit_case_cong [OF this assms] Some show ?thesis by (simp add: visit_cases_def)
qed (simp add: visit_cases_def)

lemma walk_node_cong:
  assumes "\<And>occ st. occurs tree occ \<Longrightarrow> t occ st = u occ st"
  shows "walk_node t tree v path st = walk_node u tree v path st"
proof (induction "size v" arbitrary: v path st rule: less_induct)
  case less
  have nodes: "mapNodes (walk_node t tree) w q s = mapNodes (walk_node u tree) w q s"
    if "Lookup v (etChildren tree) = Some (SList w)" for w q s
    by (rule mapNodes_cong [OF refl refl refl less]) (rule size_Lookup_element [OF that])
  have cases: "visit_cases t tree = visit_cases u tree"
    using visit_cases_cong [of tree t u, OF assms] by (intro ext) blast
  show ?case
  proof (cases "Lookup v (etChildren tree)")
    case None
    then show ?thesis by (simp add: walk_node.simps cases cong: case_congs)
  next
    case (Some w)
    then show ?thesis
      using nodes by (cases w) (simp_all add: walk_node.simps cases cong: case_congs)
  qed
qed

lemma walk_root_cong:
  assumes "\<And>occ st. occurs tree occ \<Longrightarrow> t occ st = u occ st"
  shows "walk_root t tree v segments path st = walk_root u tree v segments path st"
proof (induction segments arbitrary: v path st)
  case Nil
  have "walk_node t tree = walk_node u tree"
    using walk_node_cong [of tree t u, OF assms] by (intro ext) blast
  then show ?case by (cases v) simp_all
next
  case (Cons segment segments)
  show ?case unfolding walk_root.simps
    by (rule entering_cong [OF refl refl]) (simp add: Cons.IH cong: case_congs)
qed

lemma walk_trees_cong:
  assumes "\<And>tree occ st. tree \<in> set trees \<Longrightarrow> occurs tree occ \<Longrightarrow> t occ st = u occ st"
  shows "walk_trees t trees v prefix bs = walk_trees u trees v prefix bs"
  using assms
proof (induction trees arbitrary: v bs)
  case (Cons tree trees)
  have "walk_root t tree v (etRoot tree) prefix (bs, []) = walk_root u tree v (etRoot tree) prefix (bs, [])"
    by (rule walk_root_cong) (use Cons.prems in auto)
  moreover have "walk_trees t trees w prefix cs = walk_trees u trees w prefix cs" for w cs
    by (rule Cons.IH) (use Cons.prems in auto)
  ultimately show ?case by (simp cong: case_congs)
qed simp

lemma TransformValue_cong [fundef_cong]:
  assumes "f = g" "v = w" "p = q" "bs = cs" "\<And>occ st. occurs_in g occ \<Longrightarrow> t occ st = u occ st"
  shows "TransformValue f v p t bs = TransformValue g w q u cs"
  unfolding TransformValue_def walk_def assms(1-4)
  by (cases "fldPlugin g") (auto intro!: walk_trees_cong assms(5) simp: occurs_in_def)

lemma Visit_TransformValue:
  "Visit f v prefix visitor bs =
     (case TransformValue f v prefix (\<lambda>occ st. case visitor occ st of
             (Some e, st1) \<Rightarrow> (Inl e, st1) | (None, st1) \<Rightarrow> (Inr (roPayload occ, False), st1)) bs of
        (Inl e, bs1) \<Rightarrow> (Some e, bs1) | (Inr _, bs1) \<Rightarrow> (None, bs1))"
  by (simp add: Visit_def TransformValue_def)

lemma Visit_cong [fundef_cong]:
  assumes "f = g" "v = w" "p = q" "bs = cs" "\<And>occ st. occurs_in g occ \<Longrightarrow> t occ st = u occ st"
  shows "Visit f v p t bs = Visit g w q u cs"
proof -
  have "TransformValue f v p (\<lambda>occ st. case t occ st of
             (Some e, st1) \<Rightarrow> (Inl e, st1) | (None, st1) \<Rightarrow> (Inr (roPayload occ, False), st1)) bs
      = TransformValue g w q (\<lambda>occ st. case u occ st of
             (Some e, st1) \<Rightarrow> (Inl e, st1) | (None, st1) \<Rightarrow> (Inr (roPayload occ, False), st1)) cs"
    by (rule TransformValue_cong) (simp_all add: assms)
  then show ?thesis unfolding Visit_TransformValue by simp
qed

lemma Transform_cong [fundef_cong]:
  assumes "f = g" "v = w" "p = q" "bs = cs" "\<And>occ st. occurs_in g occ \<Longrightarrow> t occ st = u occ st"
  shows "Transform f v p t bs = Transform g w q u cs"
  unfolding Transform_def by (rule TransformValue_cong) (simp_all add: assms)

section \<open>Invariants of a walk\<close>

text \<open>
  What a consumer of the walk relies on, whatever it does with the payloads: a
  property \<open>I\<close> of budget and state that survives the budget's own steps and a callback,
  where a callback may assume \<open>J\<close>, that its node was admitted to the budget.
\<close>

locale embedded_consumer =
  fixes callback :: "'s transform" and admitted :: "read_occurrence \<Rightarrow> bool"
    and I J :: "ebudget \<times> 's \<Rightarrow> bool"
  assumes entered: "I (b, s) \<Longrightarrow> Enter path b = (e, b') \<Longrightarrow> I (b', s)"
    and left: "I (b, s) \<Longrightarrow> I (Leave b, s)"
    and node_refused: "I (b, s) \<Longrightarrow> budget_node path b = (Some err, b') \<Longrightarrow> I (b', s)"
    and node_admitted: "I (b, s) \<Longrightarrow> budget_node path b = (None, b') \<Longrightarrow> J (b', s)"
    and weaken: "J st \<Longrightarrow> I st"
    and called: "admitted occ \<Longrightarrow> J st \<Longrightarrow> callback occ st = (r, st') \<Longrightarrow> I st'"
begin

lemma entering_keeps:
  assumes "I (fst st)" "\<And>st. I (fst st) \<Longrightarrow> I (fst (snd (body st)))"
  shows "I (fst (snd (entering path body st)))"
proof -
  obtain b s seen where st: "st = ((b, s), seen)" by (metis surj_pair)
  obtain e b1 where e: "Enter path b = (e, b1)" by fastforce
  have i1: "I (b1, s)" using entered assms(1) st e by simp
  obtain r b2 s2 seen2 where r: "body ((b1, s), seen) = (r, ((b2, s2), seen2))" by (metis surj_pair)
  have "I (b2, s2)" using assms(2) [of "((b1, s), seen)"] i1 r by simp
  then show ?thesis using i1 left st e r by (cases e) (simp_all add: entering_def)
qed

lemma visit_cases_keeps:
  assumes "J (fst st)" "\<And>occ. occurs tree occ \<Longrightarrow> admitted occ"
  shows "I (fst (snd (visit_cases callback tree v path st)))"
proof -
  have case_keeps: "I (fst (snd (visit_case callback tree c v path st)))" if "c \<in> set (etCases tree)" for c
  proof -
    obtain bs seen where st: "st = (bs, seen)" by (cases st)
    have i: "I bs" and j: "J bs" using assms(1) weaken st by simp_all
    have call: "I (snd (callback occ bs))" if "occurs tree occ" for occ
      using called [OF assms(2) [OF that] j, of "fst (callback occ bs)" "snd (callback occ bs)"] by simp
    show ?thesis
      unfolding st visit_case_def
      using i by (auto simp: Let_def split: prod.splits option.splits sum.splits)
        (metis call occurs_occurrence_of [OF that] snd_conv)+
  qed
  show ?thesis
    using case_keeps weaken [OF assms(1)] unfolding visit_cases_def
    by (auto simp: Let_def find_Some_iff split: option.splits)
qed

lemma map_node_items_keeps:
  fixes path :: string
  assumes "I (fst st)" "\<And>x p st. x \<in> set xs \<Longrightarrow> I (fst st) \<Longrightarrow> I (fst (snd (f x p st)))"
  shows "I (fst (snd (map_node_items f path i xs st)))"
  using assms
proof (induction xs arbitrary: st i)
  case (Cons x xs)
  obtain r st1 where x: "f x (path @ CHR ''.'' # nat_dec i) st = (r, st1)" by (metis surj_pair)
  have i1: "I (fst st1)" using Cons.prems(2) [of x st "path @ CHR ''.'' # nat_dec i"] Cons.prems(1) x by simp
  have "I (fst (snd (map_node_items f path (i + 1) xs st1)))"
    using Cons.IH [OF i1] Cons.prems(2) by simp
  then show ?case using x i1 by (auto split: sum.splits prod.splits)
qed simp

lemma mapNodes_keeps:
  assumes "I (fst st)" "\<And>x p st. x \<in> set (elements t) \<Longrightarrow> I (fst st) \<Longrightarrow> I (fst (snd (f x p st)))"
  shows "I (fst (snd (mapNodes f t path st)))"
proof -
  have "I (fst (snd (map_node_items f path 0 (elements t) st)))"
    by (rule map_node_items_keeps [OF assms(1)]) (rule assms(2))
  then show ?thesis by (auto simp: mapNodes_def split: prod.splits sum.splits)
qed

lemma walk_node_keeps:
  assumes "I (fst st)" "\<And>occ. occurs tree occ \<Longrightarrow> admitted occ"
  shows "I (fst (snd (walk_node callback tree v path st)))"
  using assms(1)
proof (induction "size v" arbitrary: v path st rule: less_induct)
  case less
  show ?case
    unfolding walk_node.simps [of _ _ v]
  proof (rule entering_keeps [OF less.prems], goal_cases)
    case (1 st)
    obtain b s seen where st: "st = ((b, s), seen)" by (metis surj_pair)
    obtain e b1 where e: "budget_node path b = (e, b1)" by (metis surj_pair)
    show ?case
    proof (cases e)
      case (Some err)
      then show ?thesis using node_refused 1 st e by simp
    next
      case None
      have j: "J (b1, s)" using node_admitted 1 st e None by simp
      obtain r st2 where r: "visit_cases callback tree v path ((b1, s), seen) = (r, st2)" by (metis surj_pair)
      have i2: "I (fst st2)" 
        using visit_cases_keeps [where st = "((b1, s), seen)" and tree = tree and v = v and path = path] assms(2) j r by simp
      have nodes: "I (fst (snd (mapNodes (walk_node callback tree) t q st2)))"
        if "Lookup v (etChildren tree) = Some (SList t)" for t q
        by (rule mapNodes_keeps [OF i2]) (rule less.hyps [OF size_Lookup_element [OF that]])
      show ?thesis
      proof (cases "\<exists>t. Lookup v (etChildren tree) = Some (SList t)")
        case True
        then obtain t where t: "Lookup v (etChildren tree) = Some (SList t)" by blast
        obtain r3 st3 where r3: "mapNodes (walk_node callback tree) t (join path (etChildren tree)) st2 = (r3, st3)"
          by (metis surj_pair)
        have "I (fst st3)" using nodes [OF t, of "join path (etChildren tree)"] r3 by simp
        then show ?thesis
          using st e None r i2 weaken [OF j] t r3 by (auto split: sum.splits)
      next
        case False
        then show ?thesis
          using st e None r i2 weaken [OF j] by (auto split: sum.splits option.splits svalue.splits)
      qed
    qed
  qed
qed

lemma walk_root_keeps:
  assumes "I (fst st)" "\<And>occ. occurs tree occ \<Longrightarrow> admitted occ"
  shows "I (fst (snd (walk_root callback tree v segments path st)))"
  using assms(1)
proof (induction segments arbitrary: v path st)
  case Nil
  then show ?case
    by (auto intro: walk_node_keeps mapNodes_keeps assms(2) split: svalue.splits)
next
  case (Cons segment segments)
  show ?case unfolding walk_root.simps
  proof (rule entering_keeps [OF Cons.prems], goal_cases)
    case (1 st)
    then show ?case
      using Cons.IH by (auto split: option.splits sum.splits prod.splits; metis fst_conv snd_conv)
  qed
qed

lemma walk_trees_keeps:
  assumes "I bs" "\<And>tree occ. tree \<in> set trees \<Longrightarrow> occurs tree occ \<Longrightarrow> admitted occ"
  shows "I (snd (walk_trees callback trees v prefix bs))"
  using assms
proof (induction trees arbitrary: v bs)
  case (Cons tree trees)
  obtain r bs1 seen where r: "walk_root callback tree v (etRoot tree) prefix (bs, []) = (r, (bs1, seen))"
    by (metis surj_pair)
  have "I (fst (snd (walk_root callback tree v (etRoot tree) prefix (bs, []))))"
    by (rule walk_root_keeps) (use Cons.prems in auto)
  then have i1: "I bs1" using r by simp
  have rest: "I (snd (walk_trees callback trees w prefix bs1))" for w
    by (rule Cons.IH [OF i1]) (use Cons.prems in auto)
  show ?case using r i1 rest by (auto split: sum.splits)
qed simp

lemma TransformValue_keeps:
  assumes "I bs" "\<And>occ. occurs_in f occ \<Longrightarrow> admitted occ"
  shows "I (snd (TransformValue f v prefix callback bs))"
proof (cases "fldPlugin f")
  case (Some p)
  have "I (snd (walk_trees callback (plgEmbeddedTrees p) v prefix bs))"
    by (rule walk_trees_keeps [OF assms(1)], rule assms(2)) (auto simp: occurs_in_def Some)
  then show ?thesis using Some assms(1) by (simp add: TransformValue_def walk_def)
qed (simp add: TransformValue_def walk_def assms(1))

end

section \<open>Validation before a traversal\<close>

text \<open>
  \<open>ValidateValues\<close> and \<open>validateObject\<close> differ only in where a member is looked up, so both
  are \<open>validate_members\<close> on a lookup function. The order in which Go visits the
  locales of a map decides only which error is reported first.
\<close>

definition needs_validation :: "field \<Rightarrow> bool \<Rightarrow> bool" where
  "needs_validation f allLocales \<longleftrightarrow> (fldLocalized f \<and> allLocales) \<or> embedded_HasFields f
     \<or> fldType f = FieldTypeGroup \<or> fldType f = FieldTypeArray \<or> fldType f = FieldTypeBlocks"

definition row_fields :: "field \<Rightarrow> svalue \<Rightarrow> field list" where
  "row_fields f row =
     (if fldType f = FieldTypeArray then (case fldNested f of Some fs \<Rightarrow> fs | None \<Rightarrow> [])
      else if fldType f = FieldTypeBlocks then
        (case fldBlocks f of
           None \<Rightarrow> []
         | Some blocks \<Rightarrow>
             (case Definition blocks (case Get row ''blockType'' of SString kind \<Rightarrow> kind | _ \<Rightarrow> []) of
                None \<Rightarrow> [] | Some block \<Rightarrow> bltFields block))
      else [])"

lemma size_row_fields [termination_simp, simp]: "size_list size (row_fields f row) < size f"
proof -
  have pos: "0 < size f" by (cases f) simp
  show ?thesis
    using pos unfolding row_fields_def Definition_def definitionBySlug_def
    by (auto split: option.splits dest: size_nested size_block_definition)
qed

definition leaving :: "'e option \<times> ebudget \<Rightarrow> 'e option \<times> ebudget" where
  "leaving r = (fst r, Leave (snd r))"

function ValidateValue :: "field \<Rightarrow> svalue \<Rightarrow> string \<Rightarrow> bool \<Rightarrow> ebudget \<Rightarrow> embedded_error option \<times> ebudget"
  and validate_members :: "field list \<Rightarrow> (string \<Rightarrow> svalue option) \<Rightarrow> string \<Rightarrow> bool \<Rightarrow> ebudget \<Rightarrow>
    embedded_error option \<times> ebudget" where
  "ValidateValue f v path allLocales b =
     (if svalue_Kind v = KindNull then (None, b)
      else case Enter path b of
        (Some e, b1) \<Rightarrow> (Some e, b1)
      | (None, b1) \<Rightarrow> leaving
          (if fldLocalized f \<and> allLocales then
             (case v of
                SObject m \<Rightarrow> each (\<lambda>(code, candidate). ValidateValue (unlocalized f) candidate (join path code) allLocales) m b1
              | _ \<Rightarrow> (None, b1))
           else if embedded_HasFields f then
             (case Visit f v path (\<lambda>occ (b, u). case validate_members (roFields occ) (Lookup (roPayload occ))
                      (roRuntimePath occ) allLocales b of (e, b') \<Rightarrow> (e, (b', u))) (b1, ()) of
                (e, (b2, _)) \<Rightarrow> (e, b2))
           else if fldType f = FieldTypeGroup then
             (case fldNested f of
                None \<Rightarrow> (None, b1)
              | Some fs \<Rightarrow> if svalue_Kind v = KindObject then validate_members fs (Lookup v) path allLocales b1
                           else (None, b1))
           else if fldType f = FieldTypeArray \<or> fldType f = FieldTypeBlocks then
             (case v of
                SList t \<Rightarrow> each (\<lambda>(i, row).
                    if svalue_Kind row \<noteq> KindObject then Pair None
                    else validate_members (row_fields f row) (Lookup row) (path @ CHR ''.'' # nat_dec i) allLocales)
                  (enumerate 0 (elements t)) b1
              | _ \<Rightarrow> (None, b1))
           else (None, b1)))"
| "validate_members [] lookup prefix allLocales b = (None, b)"
| "validate_members (f # fs) lookup prefix allLocales b =
     (case (case lookup (fldName f) of
              None \<Rightarrow> (None, b)
            | Some v \<Rightarrow>
                if svalue_Kind v = KindNull then (None, b)
                else if needs_validation f allLocales
                then ValidateValue f v (join prefix (fldName f)) allLocales b
                else visitLeaf prefix (fldName f) b) of
        (Some e, b1) \<Rightarrow> (Some e, b1)
      | (None, b1) \<Rightarrow> validate_members fs lookup prefix allLocales b1)"
  by pat_completeness auto
termination
  by (relation "measure (case_sum (\<lambda>(f, v, p, a, b). 2 * size f + (if fldLocalized f then 1 else 0))
                          (\<lambda>(fs, l, p, a, b). 2 * size_list size fs))")
    (auto dest: size_nested occurs_in_size intro!: less_SucI)

end
