(* ===== verification/Population_Walk.thy ===== *)
theory Population_Walk
  imports Embedded Requests
begin

text \<open>
  Schema-driven traversal of stored values (\<open>internal/population/population.go\<close>): field
  lookup by canonical path, the walk that visits or maps every runtime occurrence of
  a path, the reference fields of a schema and the mapping of populated documents.
  A callback threads a state \<open>'s\<close>; visiting is mapping that keeps the value.
\<close>

section \<open>Lookup by path\<close>

definition embedded_variants :: "field \<Rightarrow> (string \<times> string \<times> block_type list) list" where
  "embedded_variants f =
     (case fldPlugin f of
        None \<Rightarrow> []
      | Some p \<Rightarrow> concat (map (\<lambda>t. map (\<lambda>c. (etKey t, ecTagValue c, ecDefinitions c)) (etCases t))
                     (plgEmbeddedTrees p)))"

fun variant_at :: "(string \<times> string \<times> block_type list) list \<Rightarrow> string \<Rightarrow> string \<Rightarrow> string \<Rightarrow> block_type option" where
  "variant_at [] key tag slug = None"
| "variant_at ((k, t, defs) # r) key tag slug =
     (if k = key \<and> t = tag then
        (case Definition defs slug of Some b \<Rightarrow> Some b | None \<Rightarrow> variant_at r key tag slug)
      else variant_at r key tag slug)"

function (sequential) fieldAtSegments :: "field list \<Rightarrow> string list \<Rightarrow> field option" where
  "fieldAtSegments fds [] = None"
| "fieldAtSegments [] (s # ss) = None"
| "fieldAtSegments (f # fds) (s # ss) =
     (if fldName f \<noteq> s then fieldAtSegments fds (s # ss)
      else if ss = [] then Some f
      else case (if embedded_HasFields f \<and> length ss \<ge> 4
                 then variant_at (embedded_variants f) (ss ! 0) (ss ! 1) (ss ! 2) else None) of
        Some variant \<Rightarrow> fieldAtSegments (bltFields variant) (drop 3 ss)
      | None \<Rightarrow>
          (case fldType f of
             FieldTypeGroup \<Rightarrow> (case fldNested f of Some fs \<Rightarrow> fieldAtSegments fs ss | None \<Rightarrow> None)
           | FieldTypeArray \<Rightarrow> (case fldNested f of Some fs \<Rightarrow> fieldAtSegments fs ss | None \<Rightarrow> None)
           | FieldTypeBlocks \<Rightarrow>
               (case fldBlocks f of
                  None \<Rightarrow> None
                | Some blocks \<Rightarrow>
                    if length ss < 2 then None
                    else (case Definition blocks (ss ! 0) of
                            Some block \<Rightarrow> fieldAtSegments (bltFields block) (drop 1 ss)
                          | None \<Rightarrow> None))
           | _ \<Rightarrow> None))"
  by pat_completeness auto
termination
  by (relation "measures [\<lambda>(fs, ss). length ss, \<lambda>(fs, ss). length fs]") (auto split: if_splits)

definition FieldAtPath :: "field list \<Rightarrow> path \<Rightarrow> field option" where
  "FieldAtPath fds p = fieldAtSegments fds p"

section \<open>The locale a request sees\<close>

record locale_selection =
  lslAll :: bool
  lslChain :: "string list"

text \<open>
  The first locale of the chain with a value: null is skipped unless nulls are
  preserved, and an empty text is skipped unless it is the chain's last.
\<close>

fun pick_locale :: "bool \<Rightarrow> string list \<Rightarrow> svalue \<Rightarrow> (string \<times> svalue) option" where
  "pick_locale preserveNull [] v = None"
| "pick_locale preserveNull (l # ls) v =
     (case Lookup v l of
        None \<Rightarrow> pick_locale preserveNull ls v
      | Some candidate \<Rightarrow>
          if svalue_Kind candidate = KindNull \<and> \<not> preserveNull then pick_locale preserveNull ls v
          else if candidate = SString [] \<and> ls \<noteq> [] then pick_locale preserveNull ls v
          else Some (l, candidate))"

definition sortedKeys :: "svalue \<Rightarrow> string list" where
  "sortedKeys v = (case v of SObject m \<Rightarrow> sort (map fst m) | _ \<Rightarrow> [])"

section \<open>Lists\<close>

fun map_list_items :: "(svalue \<Rightarrow> 's \<Rightarrow> (svalue \<times> bool) \<times> 's) \<Rightarrow> svalue list \<Rightarrow> 's \<Rightarrow> (svalue list \<times> bool) \<times> 's" where
  "map_list_items f [] s = (([], False), s)"
| "map_list_items f (x # xs) s =
     (case f x s of ((x', changed), s1) \<Rightarrow>
        (case map_list_items f xs s1 of ((ys, changed'), s2) \<Rightarrow>
           (((if changed then x' else x) # ys, changed \<or> changed'), s2)))"

lemma map_list_items_cong [fundef_cong]:
  "xs = ys \<Longrightarrow> s = t \<Longrightarrow> (\<And>x s. x \<in> set ys \<Longrightarrow> f x s = g x s) \<Longrightarrow> map_list_items f xs s = map_list_items g ys t"
proof (induction ys arbitrary: xs s t)
  case (Cons y ys)
  then show ?case by (auto split: prod.splits)
qed simp

definition mapList :: "svalue \<Rightarrow> (svalue \<Rightarrow> 's \<Rightarrow> (svalue \<times> bool) \<times> 's) \<Rightarrow> 's \<Rightarrow> (svalue \<times> bool) \<times> 's" where
  "mapList v f s =
     (case v of
        SList t \<Rightarrow> (case map_list_items f (elements t) s of
            ((items, changed), s1) \<Rightarrow> ((if changed then ListOf items else v, changed), s1))
      | _ \<Rightarrow> ((v, False), s))"

lemma mapList_cong [fundef_cong]:
  "v = w \<Longrightarrow> s = t \<Longrightarrow> (\<And>u x s. w = SList u \<Longrightarrow> x \<in> set (elements u) \<Longrightarrow> f x s = g x s) \<Longrightarrow> mapList v f s = mapList w g t"
  unfolding mapList_def by (cases w) (auto cong: map_list_items_cong split: prod.splits)

section \<open>The path walker\<close>

text \<open>
  \<open>pwMapping\<close> is whether the walker has a \<open>transform\<close>; a visitor is a transform that
  answers the value it is given.
\<close>

record 's path_walker =
  pwLocales :: locale_selection
  pwMapping :: bool
  pwApply :: "field \<Rightarrow> svalue \<Rightarrow> 's \<Rightarrow> svalue \<times> 's"

type_synonym 's walked = "(svalue \<times> bool) \<times> 's"

text \<open>
  The closure \<open>apply\<close> of \<open>pathWalker.field\<close>: one locale's candidate was walked; the
  accumulator is the copied locale map, once one exists, and whether anything matched.
\<close>

definition record_locale ::
  "bool \<Rightarrow> svalue \<Rightarrow> string \<Rightarrow> svalues option \<times> bool \<Rightarrow> svalue \<times> bool \<Rightarrow> svalues option \<times> bool" where
  "record_locale mapping v code acc r =
     (case (acc, r) of ((localized, matched), (updated, found)) \<Rightarrow>
        (if found \<and> mapping
         then Some (put code updated (case localized of Some m \<Rightarrow> m | None \<Rightarrow> fst (CopyObject v)))
         else localized,
         matched \<or> found))"

definition localized_result :: "svalue \<Rightarrow> svalues option \<times> bool \<Rightarrow> svalue \<times> bool" where
  "localized_result v acc =
     (case acc of (Some m, matched) \<Rightarrow> (ObjectOf m, matched) | (None, matched) \<Rightarrow> (v, matched))"

definition block_is :: "svalue \<Rightarrow> string \<Rightarrow> bool" where
  "block_is row slug \<longleftrightarrow> (case Get row ''blockType'' of SString actual \<Rightarrow> actual | _ \<Rightarrow> []) = slug"

function (sequential) walk_field :: "'s path_walker \<Rightarrow> field \<Rightarrow> svalue \<Rightarrow> string list \<Rightarrow> 's \<Rightarrow> 's walked"
  and walk_fieldValue :: "'s path_walker \<Rightarrow> field \<Rightarrow> svalue \<Rightarrow> string list \<Rightarrow> 's \<Rightarrow> 's walked"
  and walk_object :: "'s path_walker \<Rightarrow> field list \<Rightarrow> svalue \<Rightarrow> string list \<Rightarrow> 's \<Rightarrow> 's walked"
  and walk_list :: "'s path_walker \<Rightarrow> field list \<Rightarrow> svalue \<Rightarrow> string list \<Rightarrow> string option \<Rightarrow> 's \<Rightarrow> 's walked"
  and walk_child :: "'s path_walker \<Rightarrow> field list \<Rightarrow> (string \<Rightarrow> svalue option) \<Rightarrow> string list \<Rightarrow> 's \<Rightarrow>
    (string \<times> svalue \<times> bool) \<times> 's" where
  "walk_field w f v segments s =
     (if segments = [] \<or> hd segments \<noteq> fldName f then ((v, False), s)
      else if \<not> fldLocalized f then walk_fieldValue w f v segments s
      else if svalue_Kind v \<noteq> KindObject then ((v, False), s)
      else if lslAll (pwLocales w) then
        (case fold (\<lambda>code (acc, s1).
                 case walk_fieldValue w (unlocalized f) (Get v code) segments s1 of
                   (r, s2) \<Rightarrow> (record_locale (pwMapping w) v code acc r, s2))
               (sortedKeys v) ((None, False), s) of
           (acc, s1) \<Rightarrow> (localized_result v acc, s1))
      else
        (case pick_locale False (lslChain (pwLocales w)) v of
           None \<Rightarrow> ((v, False), s)
         | Some (code, candidate) \<Rightarrow>
             (case walk_fieldValue w (unlocalized f) candidate segments s of
                (r, s1) \<Rightarrow> (localized_result v (record_locale (pwMapping w) v code (None, False) r), s1))))"
| "walk_fieldValue w f v [] s = ((v, False), s)"
| "walk_fieldValue w f v [seg] s = (case pwApply w f v s of (u, s1) \<Rightarrow> ((u, True), s1))"
| "walk_fieldValue w f v (seg # ss) s =
     (if embedded_HasFields f \<and> length ss \<ge> 4 then
        (case TransformValue f v (fldName f)
             (\<lambda>occ (b, (matched, s1)).
                if etKey (roTree occ) \<noteq> ss ! 0 \<or> ecTagValue (roCase occ) \<noteq> ss ! 1 \<or> bltSlug (roType occ) \<noteq> ss ! 2
                then (Inr (roPayload occ, False), (b, (matched, s1)))
                else (case walk_object w (roFields occ) (roPayload occ) (drop 3 ss) s1 of
                   ((payload, found), s2) \<Rightarrow> (Inr (payload, found \<and> pwMapping w), (b, (matched \<or> found, s2)))))
             (NewBudget, (False, s)) of
           (Inl e, (b, (matched, s1))) \<Rightarrow> ((v, False), s1)
         | (Inr updated, (b, (matched, s1))) \<Rightarrow> ((if pwMapping w then updated else v, matched), s1))
      else (case fldType f of
        FieldTypeGroup \<Rightarrow>
          (case fldNested f of Some fs \<Rightarrow> walk_object w fs v ss s | None \<Rightarrow> ((v, False), s))
      | FieldTypeArray \<Rightarrow>
          (case fldNested f of Some fs \<Rightarrow> walk_list w fs v ss None s | None \<Rightarrow> ((v, False), s))
      | FieldTypeBlocks \<Rightarrow>
          (case fldBlocks f of
             None \<Rightarrow> ((v, False), s)
           | Some blocks \<Rightarrow>
               if length ss < 2 then ((v, False), s)
               else (case Definition blocks (ss ! 0) of
                       Some block \<Rightarrow> walk_list w (bltFields block) v (drop 1 ss) (Some (bltSlug block)) s
                     | None \<Rightarrow> ((v, False), s)))
      | _ \<Rightarrow> ((v, False), s)))"
| "walk_object w fds v segments s =
     (if svalue_Kind v \<noteq> KindObject then ((v, False), s)
      else case walk_child w fds (Lookup v) segments s of
        ((name, updated, matched), s1) \<Rightarrow>
          if matched \<and> pwMapping w
          then ((ObjectOf (put name updated (fst (CopyObject v))), True), s1)
          else ((v, matched), s1))"
| "walk_list w fds v segments blockKey s =
     (case mapList v (\<lambda>row (matched, s1).
          if (case blockKey of None \<Rightarrow> False | Some slug \<Rightarrow> \<not> block_is row slug)
          then ((row, False), (matched, s1))
          else (case walk_object w fds row segments s1 of
             ((updated, found), s2) \<Rightarrow> ((updated, found \<and> pwMapping w), (matched \<or> found, s2)))) (False, s) of
        ((updated, _), (matched, s1)) \<Rightarrow> ((updated, matched), s1))"
| "walk_child w fds lookup segments s =
     (case segments of
        [] \<Rightarrow> (([], SInvalid, False), s)
      | name # _ \<Rightarrow>
          (case find (\<lambda>c. fldName c = name) fds of
             None \<Rightarrow> (([], SInvalid, False), s)
           | Some child \<Rightarrow>
               (case lookup (fldName child) of
                  None \<Rightarrow> ((fldName child, SInvalid, False), s)
                | Some v \<Rightarrow>
                    (case walk_field w child v segments s of
                       ((updated, matched), s1) \<Rightarrow> ((fldName child, updated, matched), s1)))))"
  by pat_completeness auto
termination
  by (relation "measure (\<lambda>x. case x of
        Inl (Inl (w, f, v, ss, s)) \<Rightarrow> 6 * length ss + 2
      | Inl (Inr (w, f, v, ss, s)) \<Rightarrow> 6 * length ss + 1
      | Inr (Inl (w, fs, v, ss, s)) \<Rightarrow> 6 * length ss + 4
      | Inr (Inr (Inl (w, fs, v, ss, bk, s))) \<Rightarrow> 6 * length ss + 5
      | Inr (Inr (Inr (w, fs, l, ss, s))) \<Rightarrow> 6 * length ss + 3)") auto

declare walk_field.simps [simp del] walk_object.simps [simp del] walk_list.simps [simp del]
  walk_child.simps [simp del]

definition MapAtPath ::
  "field list \<Rightarrow> svalues \<Rightarrow> path \<Rightarrow> locale_selection \<Rightarrow> (field \<Rightarrow> svalue \<Rightarrow> 's \<Rightarrow> svalue \<times> 's) \<Rightarrow> 's \<Rightarrow>
   (svalues \<times> bool) \<times> 's" where
  "MapAtPath fds values p locales transform s =
     (let mapped = CloneValues values in
      case walk_child \<lparr>pwLocales = locales, pwMapping = True, pwApply = transform\<rparr> fds (map_of mapped) p s of
        ((name, updated, matched), s1) \<Rightarrow>
          ((if matched then put name updated mapped else mapped, matched), s1))"

definition VisitAtPath ::
  "field list \<Rightarrow> svalues \<Rightarrow> path \<Rightarrow> locale_selection \<Rightarrow> (field \<Rightarrow> svalue \<Rightarrow> 's \<Rightarrow> 's) \<Rightarrow> 's \<Rightarrow> bool \<times> 's" where
  "VisitAtPath fds values p locales see s =
     (case walk_child \<lparr>pwLocales = locales, pwMapping = False, pwApply = (\<lambda>f v s. (v, see f v s))\<rparr>
          fds (map_of values) p s of
        ((name, updated, matched), s1) \<Rightarrow> (matched, s1))"

section \<open>Reference fields\<close>

definition RelationshipDetails :: "field \<Rightarrow> relationship_field option" where
  "RelationshipDetails f =
     (case fldRelationship f of
        Some r \<Rightarrow> Some r
      | None \<Rightarrow>
          (case fldUpload f of
             Some u \<Rightarrow> Some \<lparr>relCollectionID = uplCollectionID u, relCollectionSlug = uplCollectionSlug u,
                 relTargets = [], relHasMany = uplHasMany u, relPolymorphic = False,
                 relOnDelete = ReferenceDeleteUnset\<rparr>
           | None \<Rightarrow> None))"

definition is_reference :: "field \<Rightarrow> bool" where
  "is_reference f \<longleftrightarrow> fldRelationship f \<noteq> None \<or> fldUpload f \<noteq> None"

text \<open>\<open>referenceCounts\<close> without its memo table, which only saves repeated work.\<close>

function reference_count_list :: "field list \<Rightarrow> nat" and reference_count :: "field \<Rightarrow> nat" where
  "reference_count_list [] = 0"
| "reference_count_list (f # fs) = reference_count f + reference_count_list fs"
| "reference_count f =
     (if is_reference f then 1 else 0) + fold (\<lambda>fs n. n + reference_count_list fs) (eachDefinitionChildSource f) 0"
  by pat_completeness auto
termination
  by (relation "measure (case_sum (size_list size) size)") (auto simp: size_child_source)

declare reference_count.simps [simp del]

definition ReferenceFieldCount :: "field list \<Rightarrow> nat" where
  "ReferenceFieldCount fs = reference_count_list fs"

text \<open>
  A shared definition's field is answered with its placement path. \<open>query.NewPath\<close> on
  a placement's segments is those segments, or the empty path when it rejects them.
\<close>

definition ReferenceFields :: "field list \<Rightarrow> field list" where
  "ReferenceFields fs =
     WalkPlacements fs (\<lambda>segments f shared result.
       if reference_count f = 0 then (False, result)
       else (True, if is_reference f
                   then result @ [if shared
                          then with_placement f (case NewPath segments of Inr p \<Rightarrow> p | Inl _ \<Rightarrow> []) (fldID f) else f]
                   else result)) []"

definition DepthPopulations :: "collection \<Rightarrow> int \<Rightarrow> population list" where
  "DepthPopulations c depth =
     (if depth \<le> 0 then []
      else map (\<lambda>f. \<lparr>popPath = fldPath f, popDepth = depth, popSelect = None\<rparr>) (ReferenceFields (colFields c)))"

section \<open>Reference targets\<close>

definition target_of :: "relationship_field \<Rightarrow> relationship_target" where
  "target_of r = \<lparr>tgtCollectionID = relCollectionID r, tgtCollectionSlug = relCollectionSlug r\<rparr>"

definition add_targets :: "relationship_target list \<Rightarrow> relationship_target list \<Rightarrow> relationship_target list" where
  "add_targets targets result =
     fold (\<lambda>t result. if tgtCollectionID t \<in> tgtCollectionID ` set result then result else result @ [t]) targets result"

definition ReferenceTargets :: "field list \<Rightarrow> relationship_target list" where
  "ReferenceTargets fs =
     snd (WalkDefinitionFields (\<lambda>f result.
       (True, case RelationshipDetails f of
          None \<Rightarrow> result
        | Some r \<Rightarrow> add_targets (if relPolymorphic r then relTargets r else [target_of r]) result)) fs [])"

section \<open>Mapping populated documents\<close>

text \<open>
  \<open>populatedWalker\<close>; its transform is a function of the population path, the target
  collection, the locale and the document.
\<close>

record populated_walker =
  ppAllLocales :: bool
  ppTransform :: "string \<Rightarrow> string \<Rightarrow> string \<Rightarrow> document \<Rightarrow> document"

text \<open>The relationship a field's value is read with: \<open>Join\<close> before \<open>Relationship\<close> before \<open>Upload\<close>.\<close>

definition reference_relationship :: "field \<Rightarrow> relationship_field option" where
  "reference_relationship f =
     (case fldJoin f of
        Some j \<Rightarrow> Some \<lparr>relCollectionID = jnCollectionID j, relCollectionSlug = jnCollectionSlug j,
            relTargets = [], relHasMany = True, relPolymorphic = False, relOnDelete = ReferenceDeleteUnset\<rparr>
      | None \<Rightarrow> RelationshipDetails f)"

definition map_one :: "populated_walker \<Rightarrow> relationship_field \<Rightarrow> string \<Rightarrow> string \<Rightarrow> svalue \<Rightarrow> svalue \<times> bool" where
  "map_one w r locale path reference =
     (if \<not> relPolymorphic r then
        (case CopyDocument reference of
           Some d \<Rightarrow> (Populated (ppTransform w path (relCollectionID r) locale d), True)
         | None \<Rightarrow> (reference, False))
      else
        (let slug = (case Get reference ''relationTo'' of SString s \<Rightarrow> s | _ \<Rightarrow> []) in
         case CopyDocument (Get reference ''id'') of
           Some d \<Rightarrow>
             (case find (\<lambda>t. tgtCollectionSlug t = slug) (relTargets r) of
                None \<Rightarrow> (reference, False)
              | Some t \<Rightarrow>
                  (ObjectOf (put ''id'' (Populated (ppTransform w path (tgtCollectionID t) locale d))
                     (fst (CopyObject reference))), True))
         | None \<Rightarrow> (reference, False)))"

definition populated_reference :: "populated_walker \<Rightarrow> field \<Rightarrow> svalue \<Rightarrow> string \<Rightarrow> string \<Rightarrow> svalue \<times> bool" where
  "populated_reference w f v locale path =
     (case reference_relationship f of
        None \<Rightarrow> (v, False)
      | Some r \<Rightarrow>
          if \<not> relHasMany r then map_one w r locale path v
          else fst (mapList v (\<lambda>x (u :: unit). (map_one w r locale path x, u)) ()))"

definition store_member :: "svalue \<Rightarrow> string \<Rightarrow> svalue \<times> bool \<Rightarrow> svalues option \<Rightarrow> svalues option" where
  "store_member v name r object =
     (if snd r then Some (put name (fst r) (case object of Some m \<Rightarrow> m | None \<Rightarrow> fst (CopyObject v))) else object)"

definition object_or :: "svalue \<Rightarrow> svalues option \<Rightarrow> svalue \<times> bool" where
  "object_or v object = (case object of Some m \<Rightarrow> (ObjectOf m, True) | None \<Rightarrow> (v, False))"

function (sequential) populated_members ::
    "populated_walker \<Rightarrow> field list \<Rightarrow> svalue \<Rightarrow> string \<Rightarrow> string \<Rightarrow> svalues option \<Rightarrow> svalues option"
  and populated_object :: "populated_walker \<Rightarrow> field list \<Rightarrow> svalue \<Rightarrow> string \<Rightarrow> string \<Rightarrow> svalue \<times> bool"
  and populated_field :: "populated_walker \<Rightarrow> field \<Rightarrow> svalue \<Rightarrow> string \<Rightarrow> string \<Rightarrow> svalue \<times> bool"
  and populated_value :: "populated_walker \<Rightarrow> field \<Rightarrow> svalue \<Rightarrow> string \<Rightarrow> string \<Rightarrow> svalue \<times> bool" where
  "populated_members w [] v locale path object = object"
| "populated_members w (f # fs) v locale path object =
     (case (case object of Some m \<Rightarrow> map_of m (fldName f) | None \<Rightarrow> Lookup v (fldName f)) of
        None \<Rightarrow> populated_members w fs v locale path object
      | Some candidate \<Rightarrow>
          populated_members w fs v locale path
            (store_member v (fldName f)
               (populated_field w f candidate locale (path @ CHR ''.'' # fldName f)) object))"
| "populated_object w fs v locale path =
     (if svalue_Kind v \<noteq> KindObject then (v, False)
      else object_or v (populated_members w fs v locale path None))"
| "populated_field w f v locale path =
     (if fldLocalized f \<and> ppAllLocales w then
        (case v of
           SObject m \<Rightarrow>
             object_or v (fold (\<lambda>(code, candidate) localized.
                store_member v code (populated_value w (unlocalized f) candidate code path) localized) m None)
         | _ \<Rightarrow> (v, False))
      else populated_value w (unlocalized f) v locale path)"
| "populated_value w f v locale path =
     (if embedded_HasFields f then
        (case TransformValue f v (fldName f)
             (\<lambda>occ (b, changed).
                case populated_object w (roFields occ) (roPayload occ) locale
                    (path @ CHR ''.'' # etKey (roTree occ) @ CHR ''.'' # ecTagValue (roCase occ)
                      @ CHR ''.'' # bltSlug (roType occ)) of
                  (payload, found) \<Rightarrow> (Inr (payload, found), (b, changed \<or> found)))
             (NewBudget, False) of
           (Inl e, _) \<Rightarrow> (v, False)
         | (Inr updated, (b, changed)) \<Rightarrow> (updated, changed))
      else if fldType f \<in> {FieldTypeRelationship, FieldTypeUpload, FieldTypeJoin}
      then populated_reference w f v locale path
      else if fldType f = FieldTypeGroup then
        (case fldNested f of None \<Rightarrow> (v, False) | Some fs \<Rightarrow> populated_object w fs v locale path)
      else if fldType f = FieldTypeArray then
        (case fldNested f of
           None \<Rightarrow> (v, False)
         | Some fs \<Rightarrow> fst (mapList v (\<lambda>x (u :: unit). (populated_object w fs x locale path, u)) ()))
      else if fldType f = FieldTypeBlocks then
        (case fldBlocks f of
           None \<Rightarrow> (v, False)
         | Some blocks \<Rightarrow>
             fst (mapList v (\<lambda>x (u :: unit).
               (case Definition blocks (case Get x ''blockType'' of SString s \<Rightarrow> s | _ \<Rightarrow> []) of
                  None \<Rightarrow> (x, False)
                | Some block \<Rightarrow> populated_object w (bltFields block) x locale (path @ CHR ''.'' # bltSlug block), u)) ()))
      else (v, False))"
  by pat_completeness auto
termination
  by (relation "measure (\<lambda>x. case x of
        Inl (Inl (w, fs, v, l, p, ob)) \<Rightarrow> 3 * size_list size fs
      | Inl (Inr (w, fs, v, l, p)) \<Rightarrow> 3 * size_list size fs + 1
      | Inr (Inl (w, f, v, l, p)) \<Rightarrow> 3 * size f + 1
      | Inr (Inr (w, f, v, l, p)) \<Rightarrow> 3 * size f)")
    (auto dest: size_nested size_block_definition occurs_in_size simp: Definition_def definitionBySlug_def)

declare populated_members.simps(2) [simp del] populated_object.simps [simp del]
  populated_field.simps [simp del] populated_value.simps [simp del]

text \<open>
  \<open>MapPopulatedDocumentsAtPaths\<close>; the result is the input map itself unless a callback ran.
\<close>

fun populated_roots :: "populated_walker \<Rightarrow> field list \<Rightarrow> svalues \<Rightarrow> svalues option \<Rightarrow> svalues option" where
  "populated_roots w [] values result = result"
| "populated_roots w (f # fs) values result =
     (case map_of values (fldName f) of
        None \<Rightarrow> populated_roots w fs values result
      | Some v \<Rightarrow>
          (case populated_field w f v [] (fldName f) of
             (updated, changed) \<Rightarrow>
               populated_roots w fs values
                 (if changed
                  then Some (put (fldName f) updated (case result of Some m \<Rightarrow> m | None \<Rightarrow> CloneValues values))
                  else result)))"

definition MapPopulatedDocumentsAtPaths ::
  "field list \<Rightarrow> svalues \<Rightarrow> bool \<Rightarrow> (string \<Rightarrow> string \<Rightarrow> string \<Rightarrow> document \<Rightarrow> document) \<Rightarrow> svalues" where
  "MapPopulatedDocumentsAtPaths fs values allLocales transform =
     (case populated_roots \<lparr>ppAllLocales = allLocales, ppTransform = transform\<rparr> fs values None of
        None \<Rightarrow> values | Some result \<Rightarrow> result)"

definition MapPopulatedDocuments ::
  "field list \<Rightarrow> svalues \<Rightarrow> bool \<Rightarrow> (string \<Rightarrow> string \<Rightarrow> document \<Rightarrow> document) \<Rightarrow> svalues" where
  "MapPopulatedDocuments fs values allLocales transform =
     MapPopulatedDocumentsAtPaths fs values allLocales (\<lambda>_ targetID locale d. transform targetID locale d)"

end
