(* ===== verification/Reference_Index.thy ===== *)
theory Reference_Index
  imports Population_Walk Tasks
begin

text \<open>
  The reference index (\<open>internal/referenceindex/reference.go\<close>, \<open>embedded.go\<close>): the
  relationship and upload references one document holds, and the rewriting of a document
  when a target is deleted or a resource is retired. The two rewriters walk a document
  the same way and differ in what they do to a reference, which is a parameter of the walk.
\<close>

section \<open>Entries\<close>

record entry =
  enOwner :: document_reference
  enFieldID :: string
  enTarget :: document_reference
  enLocale :: string
  enOccurrence :: int

record placement =
  plResource :: string
  plCanonical :: "string list"
  plShared :: bool

definition placement_child :: "placement \<Rightarrow> string \<Rightarrow> placement" where
  "placement_child p name = p\<lparr>plCanonical := plCanonical p @ [name]\<rparr>"

definition placement_enter :: "placement \<Rightarrow> string list \<Rightarrow> placement" where
  "placement_enter p segments = p\<lparr>plCanonical := plCanonical p @ segments, plShared := True\<rparr>"

definition placement_fieldID :: "placement \<Rightarrow> field \<Rightarrow> string" where
  "placement_fieldID p f = (if plShared p then PlacementFieldID (plResource p) (plCanonical p) else fldID f)"

definition list_items :: "svalue \<Rightarrow> svalue list" where
  "list_items v = (case v of SList t \<Rightarrow> elements t | _ \<Rightarrow> [])"

definition text_of :: "svalue \<Rightarrow> string option" where
  "text_of v = (case v of SString s \<Rightarrow> Some s | _ \<Rightarrow> None)"

definition reference_entry :: "document_reference \<Rightarrow> string \<Rightarrow> string \<Rightarrow> string \<Rightarrow> string \<Rightarrow> entry" where
  "reference_entry owner fieldID locale collection i =
     \<lparr>enOwner = owner, enFieldID = fieldID,
      enTarget = \<lparr>refCollectionID = collection, refDocumentID = i\<rparr>, enLocale = locale, enOccurrence = 0\<rparr>"

definition collect_relationship_item ::
  "relationship_field \<Rightarrow> (string \<Rightarrow> string \<Rightarrow> entry) \<Rightarrow> svalue \<Rightarrow> entry list" where
  "collect_relationship_item r mk x =
     (if \<not> relPolymorphic r then
        (case text_of x of
           Some i \<Rightarrow> if i \<noteq> [] then [mk (relCollectionID r) i] else []
         | None \<Rightarrow> [])
      else (case (text_of (Get x ''relationTo''), text_of (Get x ''id'')) of
          (Some slug, Some i) \<Rightarrow>
            if i = [] then []
            else (case find (\<lambda>t. tgtCollectionSlug t = slug) (relTargets r) of
                Some t \<Rightarrow> [mk (tgtCollectionID t) i] | None \<Rightarrow> [])
        | _ \<Rightarrow> []))"

definition collectRelationship ::
  "document_reference \<Rightarrow> field \<Rightarrow> svalue \<Rightarrow> string \<Rightarrow> string \<Rightarrow> entry list" where
  "collectRelationship owner f v locale fieldID =
     (case fldRelationship f of
        None \<Rightarrow> []
      | Some r \<Rightarrow>
          concat (map (collect_relationship_item r (reference_entry owner fieldID locale))
            (if relHasMany r then list_items v else [v])))"

definition collectUpload ::
  "document_reference \<Rightarrow> field \<Rightarrow> svalue \<Rightarrow> string \<Rightarrow> string \<Rightarrow> entry list" where
  "collectUpload owner f v locale fieldID =
     (case fldUpload f of
        None \<Rightarrow> []
      | Some u \<Rightarrow>
          concat (map (\<lambda>x. case text_of x of
               Some i \<Rightarrow> if i \<noteq> [] then [reference_entry owner fieldID locale (uplCollectionID u) i] else []
             | None \<Rightarrow> []) (if uplHasMany u then list_items v else [v])))"

text \<open>An item of an array or blocks list that is not an object holds no references.\<close>

definition block_of :: "block_type list \<Rightarrow> svalue \<Rightarrow> block_type option" where
  "block_of blocks x =
     Definition blocks (case text_of (Get x ''blockType'') of Some kind \<Rightarrow> kind | None \<Rightarrow> [])"

function collectField ::
    "document_reference \<Rightarrow> field \<Rightarrow> svalue \<Rightarrow> string \<Rightarrow> placement \<Rightarrow> entry list"
  and collectFieldValue ::
    "document_reference \<Rightarrow> field \<Rightarrow> svalue \<Rightarrow> string \<Rightarrow> placement \<Rightarrow> entry list"
  and collectObjectFields ::
    "document_reference \<Rightarrow> field list \<Rightarrow> svalue \<Rightarrow> string \<Rightarrow> placement \<Rightarrow> entry list" where
  "collectField owner f v inherited at =
     (if svalue_Kind v = KindNull then []
      else if fldLocalized f then
        concat (map (\<lambda>code. collectFieldValue owner (unlocalized f) (Get v code) code at) (sortedKeys v))
      else collectFieldValue owner f v inherited at)"
| "collectFieldValue owner f v locale at =
     (if svalue_Kind v = KindNull then []
      else if embedded_HasFields f then
        snd (snd (Visit f v (fldName f)
          (\<lambda>occ (b, entries). (None, (b, entries @
             collectObjectFields owner (roFields occ) (roPayload occ) locale
               (placement_enter at [etKey (roTree occ), ecTagValue (roCase occ), bltSlug (roType occ)]))))
          (NewBudget, [])))
      else if fldType f = FieldTypeRelationship then collectRelationship owner f v locale (placement_fieldID at f)
      else if fldType f = FieldTypeUpload then collectUpload owner f v locale (placement_fieldID at f)
      else if fldType f = FieldTypeGroup then
        (case fldNested f of
           Some fs \<Rightarrow> if svalue_Kind v = KindObject then collectObjectFields owner fs v locale at else []
         | None \<Rightarrow> [])
      else if fldType f = FieldTypeArray then
        (case fldNested f of
           Some fs \<Rightarrow>
             concat (map (\<lambda>x. if svalue_Kind x = KindObject then collectObjectFields owner fs x locale at else [])
               (list_items v))
         | None \<Rightarrow> [])
      else if fldType f = FieldTypeBlocks then
        (case fldBlocks f of
           Some blocks \<Rightarrow>
             concat (map (\<lambda>x. if svalue_Kind x \<noteq> KindObject then [] else case block_of blocks x of
                 Some block \<Rightarrow>
                   collectObjectFields owner (bltFields block) x locale (placement_enter at [bltSlug block])
               | None \<Rightarrow> []) (list_items v))
         | None \<Rightarrow> [])
      else [])"
| "collectObjectFields owner fs object locale at =
     concat (map (\<lambda>f. case Lookup object (fldName f) of
         Some v \<Rightarrow> collectField owner f v locale (placement_child at (fldName f))
       | None \<Rightarrow> []) fs)"
  by pat_completeness auto
termination
  by (relation "measure (\<lambda>x. case x of
        Inl (o', f, v, l, p) \<Rightarrow> 3 * size f + 1
      | Inr (Inl (o', f, v, l, p)) \<Rightarrow> 3 * size f
      | Inr (Inr (o', fs, v, l, p)) \<Rightarrow> 3 * size_list size fs + 2)")
    (auto dest!: size_nested size_block_definition occurs_in_size size_list_mem
      simp: Definition_def definitionBySlug_def block_of_def)

declare collectField.simps [simp del] collectFieldValue.simps [simp del] collectObjectFields.simps [simp del]

text \<open>The counting key of \<open>assignOccurrences\<close>, with its NUL separators.\<close>

definition occurrence_count_key :: "entry \<Rightarrow> string" where
  "occurrence_count_key e =
     refCollectionID (enOwner e) @ NUL # refDocumentID (enOwner e) @ NUL # enFieldID e @ NUL #
     refCollectionID (enTarget e) @ NUL # refDocumentID (enTarget e) @ NUL # enLocale e"

fun assign_from :: "(string \<times> int) list \<Rightarrow> entry list \<Rightarrow> entry list" where
  "assign_from tally [] = []"
| "assign_from tally (e # es) =
     (let key = occurrence_count_key e; n = (case map_of tally key of Some n \<Rightarrow> n | None \<Rightarrow> 0)
      in e\<lparr>enOccurrence := n\<rparr> # assign_from (put key (n + 1) tally) es)"

definition assignOccurrences :: "entry list \<Rightarrow> entry list" where
  "assignOccurrences entries = assign_from [] entries"

definition root_placement :: "document_reference \<Rightarrow> field \<Rightarrow> placement" where
  "root_placement owner f = \<lparr>plResource = refCollectionID owner, plCanonical = fldPath f, plShared = False\<rparr>"

definition collectFieldUnchecked ::
  "document_reference \<Rightarrow> field \<Rightarrow> svalue \<Rightarrow> string \<Rightarrow> entry list" where
  "collectFieldUnchecked owner f v locale = assignOccurrences
     (if locale \<noteq> [] \<and> fldLocalized f
      then collectFieldValue owner (unlocalized f) v locale (root_placement owner f)
      else collectField owner f v locale (root_placement owner f))"

definition owner_of :: "collection \<Rightarrow> document \<Rightarrow> document_reference" where
  "owner_of c d = \<lparr>refCollectionID = colID c, refDocumentID = docID d\<rparr>"

definition collectUnchecked :: "collection \<Rightarrow> document \<Rightarrow> entry list" where
  "collectUnchecked c d = assignOccurrences
     (concat (map (\<lambda>f. case map_of (docValues d) (fldName f) of
         Some v \<Rightarrow> collectFieldUnchecked (owner_of c d) f v []
       | None \<Rightarrow> []) (colFields c)))"

definition ValidateValues :: "field list \<Rightarrow> svalues \<Rightarrow> string \<Rightarrow> bool \<Rightarrow> ebudget \<Rightarrow> embedded_error option \<times> ebudget" where
  "ValidateValues fs values prefix allLocales b = validate_members fs (map_of values) prefix allLocales b"

definition Collect :: "collection \<Rightarrow> document \<Rightarrow> embedded_error + entry list" where
  "Collect c d =
     (case fst (ValidateValues (colFields c) (docValues d) [] True NewBudget) of
        Some e \<Rightarrow> Inl e | None \<Rightarrow> Inr (collectUnchecked c d))"

definition unwrapped :: "field \<Rightarrow> string \<Rightarrow> field" where
  "unwrapped f locale = (if locale \<noteq> [] then unlocalized f else f)"

definition CollectField ::
  "document_reference \<Rightarrow> field \<Rightarrow> svalue \<Rightarrow> string \<Rightarrow> embedded_error + entry list" where
  "CollectField owner f v locale =
     (case fst (ValidateValue (unwrapped f locale) v (fldName f) True NewBudget) of
        Some e \<Rightarrow> Inl e | None \<Rightarrow> Inr (collectFieldUnchecked owner f v locale))"

section \<open>Rewriting the references of a document\<close>

type_synonym leaf_rewrite = "field \<Rightarrow> svalue \<Rightarrow> svalue \<times> bool"

text \<open>One locale of a localized map; the copied map is written while the original is read.\<close>

definition rewrite_locales :: "(svalue \<Rightarrow> svalue \<times> bool) \<Rightarrow> svalue \<Rightarrow> svalue \<times> bool" where
  "rewrite_locales g v =
     (case v of
        SObject m \<Rightarrow>
          (let localized = fst (CopyObject v) in
           case fold (\<lambda>(code, candidate) (result, changed). case g candidate of
                (updated, c) \<Rightarrow> (if c then put code updated result else result, changed \<or> c))
              localized (localized, False) of
            (result, changed) \<Rightarrow> if changed then (ObjectOf result, True) else (v, False))
      | _ \<Rightarrow> (v, False))"

definition map_rows :: "(svalue \<Rightarrow> svalue \<times> bool) \<Rightarrow> svalue \<Rightarrow> svalue \<times> bool" where
  "map_rows g v = fst (mapList v (\<lambda>x (u :: unit). (g x, u)) ())"

text \<open>
  \<open>result\<close> starts as a copy of the map; a member replaced earlier in the loop is what a
  later field of the same name reads.
\<close>

function rewrite_members :: "leaf_rewrite \<Rightarrow> field list \<Rightarrow> svalues \<Rightarrow> svalues \<times> bool"
  and rewrite_field :: "leaf_rewrite \<Rightarrow> field \<Rightarrow> svalue \<Rightarrow> svalue \<times> bool"
  and rewrite_value :: "leaf_rewrite \<Rightarrow> field \<Rightarrow> svalue \<Rightarrow> svalue \<times> bool"
  and rewrite_row :: "leaf_rewrite \<Rightarrow> field list \<Rightarrow> svalue \<Rightarrow> svalue \<times> bool" where
  "rewrite_members leaf [] result = (result, False)"
| "rewrite_members leaf (f # fs) result =
     (case map_of result (fldName f) of
        None \<Rightarrow> rewrite_members leaf fs result
      | Some v \<Rightarrow>
          (case rewrite_field leaf f v of (updated, c) \<Rightarrow>
             (case rewrite_members leaf fs (if c then put (fldName f) updated result else result) of
                (final, changed) \<Rightarrow> (final, c \<or> changed))))"
| "rewrite_field leaf f v =
     (if fldLocalized f then rewrite_locales (rewrite_value leaf (unlocalized f)) v
      else rewrite_value leaf f v)"
| "rewrite_value leaf f v =
     (if embedded_HasFields f then
        (case Transform f v (fldName f)
             (\<lambda>occ (b, changed).
                case rewrite_members leaf (roFields occ) (CloneValues (fst (CopyObject (roPayload occ)))) of
                  (payload, c) \<Rightarrow> (Inr payload, (b, changed \<or> c)))
             (NewBudget, False) of
           (Inl e, _) \<Rightarrow> (v, False)
         | (Inr updated, (b, changed)) \<Rightarrow> (updated, changed))
      else if fldType f = FieldTypeRelationship \<or> fldType f = FieldTypeUpload then leaf f v
      else if fldType f = FieldTypeGroup then
        (case fldNested f of None \<Rightarrow> (v, False) | Some fs \<Rightarrow> rewrite_row leaf fs v)
      else if fldType f = FieldTypeArray then
        (case fldNested f of None \<Rightarrow> (v, False) | Some fs \<Rightarrow> map_rows (rewrite_row leaf fs) v)
      else if fldType f = FieldTypeBlocks then
        (case fldBlocks f of
           None \<Rightarrow> (v, False)
         | Some blocks \<Rightarrow>
             map_rows (\<lambda>x. if svalue_Kind x \<noteq> KindObject then (x, False) else case block_of blocks x of
                  Some block \<Rightarrow> rewrite_row leaf (bltFields block) x | None \<Rightarrow> (x, False)) v)
      else (v, False))"
| "rewrite_row leaf fs x =
     (case CopyObject x of
        (object, valid) \<Rightarrow>
          if \<not> valid then (x, False)
          else case rewrite_members leaf fs (CloneValues object) of
            (values, c) \<Rightarrow> if c then (ObjectOf values, True) else (x, False))"
  by pat_completeness auto
termination
  by (relation "measure (\<lambda>x. case x of
        Inl (Inl (l, fs, m)) \<Rightarrow> 4 * size_list size fs
      | Inl (Inr (l, f, v)) \<Rightarrow> 4 * size f + 1
      | Inr (Inl (l, f, v)) \<Rightarrow> 4 * size f
      | Inr (Inr (l, fs, v)) \<Rightarrow> 4 * size_list size fs + 1)")
    (auto dest!: size_nested size_block_definition occurs_in_size
      simp: Definition_def definitionBySlug_def block_of_def)

declare rewrite_members.simps [simp del] rewrite_field.simps [simp del] rewrite_value.simps [simp del]
  rewrite_row.simps [simp del]

text \<open>The filtered list of a many-reference, rebuilt when an item was dropped.\<close>

definition drop_items :: "(svalue \<Rightarrow> bool) \<Rightarrow> svalue \<Rightarrow> svalue \<times> bool" where
  "drop_items dropped v =
     (case v of
        SList t \<Rightarrow>
          (let filtered = filter (\<lambda>x. \<not> dropped x) (elements t)
           in if length filtered \<noteq> vlen t then (ListOf filtered, True) else (v, False))
      | _ \<Rightarrow> (v, False))"

subsection \<open>A deleted document\<close>

definition clearedOnDelete :: "delete_action \<Rightarrow> bool" where
  "clearedOnDelete action \<longleftrightarrow> action = ReferenceDeleteNullify \<or> action = ReferenceDeleteCascade"

definition DeleteAction :: "field \<Rightarrow> delete_action" where
  "DeleteAction f =
     (case fldRelationship f of
        Some r \<Rightarrow> relOnDelete r
      | None \<Rightarrow> (case fldUpload f of Some u \<Rightarrow> uplOnDelete u | None \<Rightarrow> ReferenceDeleteNullify))"

definition relationshipValueMatches :: "relationship_field \<Rightarrow> svalue \<Rightarrow> document_reference \<Rightarrow> bool" where
  "relationshipValueMatches r v target =
     (if \<not> relPolymorphic r then
        relCollectionID r = refCollectionID target \<and> text_of v = Some (refDocumentID target)
      else
        (case (text_of (Get v ''relationTo''), text_of (Get v ''id'')) of
           (Some slug, Some i) \<Rightarrow>
             i = refDocumentID target
             \<and> list_ex (\<lambda>t. tgtCollectionID t = refCollectionID target \<and> tgtCollectionSlug t = slug) (relTargets r)
         | _ \<Rightarrow> False))"

definition nullifyRelationship :: "document_reference \<Rightarrow> field \<Rightarrow> svalue \<Rightarrow> svalue \<times> bool" where
  "nullifyRelationship target f v =
     (case fldRelationship f of
        None \<Rightarrow> (v, False)
      | Some r \<Rightarrow>
          if \<not> clearedOnDelete (relOnDelete r) then (v, False)
          else if relHasMany r then drop_items (\<lambda>x. relationshipValueMatches r x target) v
          else if relationshipValueMatches r v target then (SNull, True) else (v, False))"

definition nullifyUpload :: "document_reference \<Rightarrow> field \<Rightarrow> svalue \<Rightarrow> svalue \<times> bool" where
  "nullifyUpload target f v =
     (case fldUpload f of
        None \<Rightarrow> (v, False)
      | Some u \<Rightarrow>
          if \<not> clearedOnDelete (uplOnDelete u) \<or> uplCollectionID u \<noteq> refCollectionID target then (v, False)
          else if uplHasMany u then drop_items (\<lambda>x. text_of x = Some (refDocumentID target)) v
          else if text_of v = Some (refDocumentID target) then (SNull, True) else (v, False))"

definition nullify_leaf :: "document_reference \<Rightarrow> leaf_rewrite" where
  "nullify_leaf target f v =
     (if fldType f = FieldTypeRelationship then nullifyRelationship target f v else nullifyUpload target f v)"

definition nullifyFields :: "field list \<Rightarrow> svalues \<Rightarrow> document_reference \<Rightarrow> svalues \<times> bool" where
  "nullifyFields fs values target = rewrite_members (nullify_leaf target) fs (CloneValues values)"

definition nullifyField :: "field \<Rightarrow> svalue \<Rightarrow> document_reference \<Rightarrow> svalue \<times> bool" where
  "nullifyField f v target = rewrite_field (nullify_leaf target) f v"

definition nullifyFieldValue :: "field \<Rightarrow> svalue \<Rightarrow> document_reference \<Rightarrow> svalue \<times> bool" where
  "nullifyFieldValue f v target = rewrite_value (nullify_leaf target) f v"

definition nullifyTargetUnchecked :: "collection \<Rightarrow> svalues \<Rightarrow> document_reference \<Rightarrow> svalues \<times> bool" where
  "nullifyTargetUnchecked c values target = rewrite_members (nullify_leaf target) (colFields c) (CloneValues values)"

definition nullifyFieldUnchecked :: "field \<Rightarrow> svalue \<Rightarrow> document_reference \<Rightarrow> string \<Rightarrow> svalue \<times> bool" where
  "nullifyFieldUnchecked f v target locale =
     (if locale \<noteq> [] \<and> fldLocalized f then nullifyFieldValue (unlocalized f) v target
      else nullifyField f v target)"

definition NullifyTarget ::
  "collection \<Rightarrow> svalues \<Rightarrow> document_reference \<Rightarrow> embedded_error + svalues \<times> bool" where
  "NullifyTarget c values target =
     (case fst (ValidateValues (colFields c) values [] True NewBudget) of
        Some e \<Rightarrow> Inl e | None \<Rightarrow> Inr (nullifyTargetUnchecked c values target))"

definition NullifyField ::
  "field \<Rightarrow> svalue \<Rightarrow> document_reference \<Rightarrow> string \<Rightarrow> embedded_error + svalue \<times> bool" where
  "NullifyField f v target locale =
     (case fst (ValidateValue (unwrapped f locale) v (fldName f) True NewBudget) of
        Some e \<Rightarrow> Inl e | None \<Rightarrow> Inr (nullifyFieldUnchecked f v target locale))"

subsection \<open>A retired resource\<close>

definition polymorphicValueTargetsResource :: "relationship_field \<Rightarrow> svalue \<Rightarrow> string list \<Rightarrow> bool" where
  "polymorphicValueTargetsResource r v targets =
     (case text_of (Get v ''relationTo'') of
        None \<Rightarrow> False
      | Some slug \<Rightarrow>
          (case find (\<lambda>t. tgtCollectionSlug t = slug) (relTargets r) of
             None \<Rightarrow> False | Some t \<Rightarrow> tgtCollectionID t \<in> set targets))"

definition clear_reference :: "bool \<Rightarrow> svalue \<Rightarrow> svalue \<times> bool" where
  "clear_reference hasMany v =
     (if hasMany then
        (if svalue_Kind v \<noteq> KindList \<or> Len v = 0 then (v, False) else (ListOf [], True))
      else if svalue_Kind v \<noteq> KindNull then (SNull, True) else (v, False))"

definition removeResourceRelationship :: "string list \<Rightarrow> field \<Rightarrow> svalue \<Rightarrow> svalue \<times> bool" where
  "removeResourceRelationship targets f v =
     (case fldRelationship f of
        None \<Rightarrow> (v, False)
      | Some r \<Rightarrow>
          if \<not> relPolymorphic r then
            (if relCollectionID r \<notin> set targets then (v, False) else clear_reference (relHasMany r) v)
          else if relHasMany r then drop_items (\<lambda>x. polymorphicValueTargetsResource r x targets) v
          else if polymorphicValueTargetsResource r v targets then (SNull, True) else (v, False))"

definition removeResourceUpload :: "string list \<Rightarrow> field \<Rightarrow> svalue \<Rightarrow> svalue \<times> bool" where
  "removeResourceUpload targets f v =
     (case fldUpload f of
        None \<Rightarrow> (v, False)
      | Some u \<Rightarrow>
          if uplCollectionID u \<notin> set targets then (v, False) else clear_reference (uplHasMany u) v)"

definition remove_leaf :: "string list \<Rightarrow> leaf_rewrite" where
  "remove_leaf targets f v =
     (if fldType f = FieldTypeRelationship then removeResourceRelationship targets f v
      else removeResourceUpload targets f v)"

definition removeResourceFields :: "field list \<Rightarrow> svalues \<Rightarrow> string list \<Rightarrow> svalues \<times> bool" where
  "removeResourceFields fs values targets = rewrite_members (remove_leaf targets) fs (CloneValues values)"

definition removeResourceField :: "field \<Rightarrow> svalue \<Rightarrow> string list \<Rightarrow> svalue \<times> bool" where
  "removeResourceField f v targets = rewrite_field (remove_leaf targets) f v"

definition removeResourceFieldValue :: "field \<Rightarrow> svalue \<Rightarrow> string list \<Rightarrow> svalue \<times> bool" where
  "removeResourceFieldValue f v targets = rewrite_value (remove_leaf targets) f v"

definition removeResourceTargetsUnchecked :: "collection \<Rightarrow> svalues \<Rightarrow> string list \<Rightarrow> svalues \<times> bool" where
  "removeResourceTargetsUnchecked c values resourceIDs =
     rewrite_members (remove_leaf resourceIDs) (colFields c) (CloneValues values)"

definition RemoveResourceTargets ::
  "collection \<Rightarrow> svalues \<Rightarrow> string list \<Rightarrow> embedded_error + svalues \<times> bool" where
  "RemoveResourceTargets c values resources =
     (case fst (ValidateValues (colFields c) values [] True NewBudget) of
        Some e \<Rightarrow> Inl e | None \<Rightarrow> Inr (removeResourceTargetsUnchecked c values resources))"

section \<open>Fields by identifier\<close>

definition fieldTargetsAnyResource :: "field \<Rightarrow> string list \<Rightarrow> bool" where
  "fieldTargetsAnyResource f targets \<longleftrightarrow>
     (case fldRelationship f of
        None \<Rightarrow> False
      | Some r \<Rightarrow>
          if \<not> relPolymorphic r then relCollectionID r \<in> set targets
          else list_ex (\<lambda>t. tgtCollectionID t \<in> set targets) (relTargets r))
     \<or> (case fldUpload f of None \<Rightarrow> False | Some u \<Rightarrow> uplCollectionID u \<in> set targets)"

definition MayReference :: "collection \<Rightarrow> bool" where
  "MayReference c =
     (\<not> fst (WalkDefinitionFields (\<lambda>f u. (fldRelationship f = None \<and> fldUpload f = None, u)) (colFields c) ()))"

definition TargetsAnyResource :: "collection \<Rightarrow> string list \<Rightarrow> bool" where
  "TargetsAnyResource c resourceIDs =
     (\<not> fst (WalkDefinitionFields (\<lambda>f u. (\<not> fieldTargetsAnyResource f resourceIDs, u)) (colFields c) ()))"

definition find_visitor ::
  "collection \<Rightarrow> string \<Rightarrow> field \<Rightarrow> (field \<times> field) option placement_visitor" where
  "find_visitor c fieldID candidate segments f shared found =
     (if found \<noteq> None then (False, found)
      else let i = (if shared then PlacementFieldID (colID c) segments else fldID f) in
        if i = fieldID \<and> (fldRelationship f \<noteq> None \<or> fldUpload f \<noteq> None)
        then (False, Some (if shared
               then with_placement f (case NewPath segments of Inr p \<Rightarrow> p | Inl _ \<Rightarrow> []) i else f, candidate))
        else (\<not> shared \<or> has_prefix fieldID (i @ ''-''), found))"

fun find_in :: "collection \<Rightarrow> string \<Rightarrow> field list \<Rightarrow> (field \<times> field) option" where
  "find_in c fieldID [] = None"
| "find_in c fieldID (candidate # candidates) =
     (case WalkPlacements [candidate] (find_visitor c fieldID candidate) None of
        Some r \<Rightarrow> Some r | None \<Rightarrow> find_in c fieldID candidates)"

definition FindReferenceField :: "collection \<Rightarrow> string \<Rightarrow> (field \<times> field) option" where
  "FindReferenceField c fieldID = find_in c fieldID (colFields c)"

definition ReferenceFieldIDs :: "string \<Rightarrow> field \<Rightarrow> string list" where
  "ReferenceFieldIDs resource root =
     WalkPlacements [root] (\<lambda>segments f shared ids.
       if reference_count f = 0 then (False, ids)
       else (True, if is_reference f
         then ids @ [if shared then PlacementFieldID resource segments else fldID f] else ids)) []"

section \<open>Deletes\<close>

datatype reference_error =
  UnsupportedDeleteAction | OwnerCollectionUnavailable string | OwnerFieldUnavailable string

definition PendingSet :: "document_reference list \<Rightarrow> document_reference set" where
  "PendingSet owners = set owners"

definition BlocksDelete ::
  "delete_action \<Rightarrow> document_reference \<Rightarrow> document_reference set \<Rightarrow> reference_error + bool" where
  "BlocksDelete action owner pending =
     (case action of
        ReferenceDeleteNullify \<Rightarrow> Inr False
      | ReferenceDeleteRestrict \<Rightarrow> Inr True
      | ReferenceDeleteCascade \<Rightarrow> Inr (owner \<notin> pending)
      | ReferenceDeleteUnset \<Rightarrow> Inl UnsupportedDeleteAction)"

fun cascade_loop ::
  "(string \<Rightarrow> collection option) \<Rightarrow> document_reference set \<Rightarrow> entry list \<Rightarrow> document_reference list \<Rightarrow>
   reference_error + document_reference list" where
  "cascade_loop collections pending [] owners = Inr owners"
| "cascade_loop collections pending (e # es) owners =
     (if enOwner e \<in> pending \<or> enOwner e \<in> set owners \<or> enOwner e = enTarget e
      then cascade_loop collections pending es owners
      else case collections (refCollectionID (enOwner e)) of
        None \<Rightarrow> Inl (OwnerCollectionUnavailable (refCollectionID (enOwner e)))
      | Some c \<Rightarrow>
          (case FindReferenceField c (enFieldID e) of
             None \<Rightarrow> Inl (OwnerFieldUnavailable (enFieldID e))
           | Some (f, _) \<Rightarrow>
               cascade_loop collections pending es
                 (if DeleteAction f = ReferenceDeleteCascade then owners @ [enOwner e] else owners)))"

definition CascadeOwners ::
  "entry list \<Rightarrow> (string \<Rightarrow> collection option) \<Rightarrow> document_reference set \<Rightarrow>
   reference_error + document_reference list" where
  "CascadeOwners entries collections pending =
     (case cascade_loop collections pending entries [] of
        Inl e \<Rightarrow> Inl e
      | Inr owners \<Rightarrow> Inr (sort_key (\<lambda>o'. (refCollectionID o', refDocumentID o')) owners))"

end
