(* ===== verification/Backend.thy ===== *)
theory Backend
  imports Tasks Requests Reference_Index
begin

text \<open>
  The state of the strict in-memory store that the repository's conformance tests
  run every component against (\<open>internal/teststore/store.go\<close>): one record, with the
  struct's maps as association lists and \<open>nextID\<close> as a natural number (the counter
  of issued identifiers does not come near the range of \<open>int\<close>). Every method takes
  the mutex for its whole body, so a method is one atomic function on this record.
  The clock the store reads is the argument \<open>now\<close>, and \<open>ctx.Err()\<close> an option.
\<close>

datatype store_error =
    ErrNotFound | ErrConflict | ErrAuthInitialized | ErrDeleteRestricted | ErrTaskLeaseLost
  | ErrInvalidTask task_invalid | ErrPruneBatch | ErrContext string | ErrUploadLockKey

record auth_credential =
  crdPasswordHash :: string
  crdFailedLoginAttempts :: int
  crdLockedUntil :: time
  crdVerified :: bool

datatype auth_token_purpose = AuthTokenPasswordReset | AuthTokenVerifyEmail

record auth_token =
  tokTokenHash :: string
  tokPurpose :: auth_token_purpose
  tokCollectionID :: string
  tokUserID :: string
  tokExpiresAt :: time
  tokCreatedAt :: time

record auth_session =
  sesID :: string
  sesTokenHash :: string
  sesCollectionID :: string
  sesUserID :: string
  sesExpiresAt :: time
  sesCreatedAt :: time
  sesLastSeenAt :: time
  sesIPAddress :: string
  sesUserAgent :: string

record auth_api_key =
  keyID :: string
  keyTokenHash :: string
  keyCollectionID :: string
  keyUserID :: string
  keyName :: string
  keyCreatedAt :: time
  keyLastUsedAt :: time
  keyExpiresAt :: time

record rate_limit =
  rlmAttempts :: int
  rlmExpiresAt :: time

record preference =
  prfCollectionID :: string
  prfUserID :: string
  prfKey :: string
  prfValue :: string
  prfUpdatedAt :: time

record document_lock =
  dlkCollectionID :: string
  dlkDocumentID :: string
  dlkOwnerCollectionID :: string
  dlkOwnerID :: string
  dlkOwnerLabel :: string
  dlkCreatedAt :: time
  dlkUpdatedAt :: time
  dlkExpiresAt :: time

record version =
  vrsID :: string
  vrsDocumentID :: string
  vrsRevision :: int
  vrsStatus :: string
  vrsSnapshot :: document
  vrsCreatedAt :: time

type_synonym documents = "(string, document) gomap"

text \<open>
  Documents and published heads are filed by collection and identifier, versions by
  collection and document, index entries under their printed key. \<open>bkAuthBootstrapHeld\<close> is
  whether some transaction holds the mutex \<open>authBootstrapMu\<close>.
\<close>

record backend =
  bkDocuments :: "(string, documents) gomap"
  bkNextID :: nat
  bkPasswords :: "(string, string) gomap"
  bkCredentials :: "(string, auth_credential) gomap"
  bkSessions :: "(string, auth_session) gomap"
  bkAuthTokens :: "(string, auth_token) gomap"
  bkApiKeys :: "(string, auth_api_key) gomap"
  bkRateLimits :: "(string, rate_limit) gomap"
  bkTasks :: "(string, task) gomap"
  bkPreferences :: "(string, preference) gomap"
  bkDocumentLocks :: "(string, document_lock) gomap"
  bkPublished :: "(string, documents) gomap"
  bkVersions :: "(string, (string, version list) gomap) gomap"
  bkReferences :: "(string, entry) gomap"
  bkEvents :: "string list"
  bkAuthBootstrapHeld :: bool

definition New :: backend where
  "New = \<lparr>bkDocuments = [], bkNextID = 0, bkPasswords = [], bkCredentials = [], bkSessions = [],
          bkAuthTokens = [], bkApiKeys = [], bkRateLimits = [], bkTasks = [], bkPreferences = [],
          bkDocumentLocks = [], bkPublished = [], bkVersions = [], bkReferences = [], bkEvents = [],
          bkAuthBootstrapHeld = False\<rparr>"

definition activeDocument :: "backend \<Rightarrow> string \<Rightarrow> string \<Rightarrow> bool" where
  "activeDocument b collectionID documentID =
     (case map_of (bkDocuments b) collectionID of
        None \<Rightarrow> False
      | Some m \<Rightarrow> (case map_of m documentID of None \<Rightarrow> False | Some d \<Rightarrow> docDeletedAt d = None))"

text \<open>
  A method's answer and the state it leaves. \<open>guarded\<close> is the early return on a
  cancelled context.
\<close>

type_synonym 'a outcome = "(store_error + 'a) \<times> backend"

definition guarded :: "string option \<Rightarrow> backend \<Rightarrow> 'a outcome \<Rightarrow> 'a outcome" where
  "guarded ctx b f = (case ctx of Some e \<Rightarrow> (Inl (ErrContext e), b) | None \<Rightarrow> f)"

lemma guarded_simps [simp]:
  "guarded (Some e) b f = (Inl (ErrContext e), b)"
  "guarded None b f = f"
  by (simp_all add: guarded_def)

section \<open>Lookups of entries that expire\<close>

text \<open>
  What the callers of \<open>FindSession\<close>, \<open>FindAPIKey\<close> and \<open>FindDocumentLock\<close> rely on: a stored
  entry is answered exactly while it is live, an entry that is no longer live stays
  so, and a lookup changes nothing but, at most, dropping the dead entry it looked at.
\<close>

locale expiring_lookup =
  fixes stored :: "backend \<Rightarrow> 'k \<Rightarrow> 'v option"
    and live :: "'v \<Rightarrow> time \<Rightarrow> bool"
    and lookup :: "'k \<Rightarrow> time \<Rightarrow> backend \<Rightarrow> 'v outcome"
  assumes lookup_result: "fst (lookup k now b) =
      (case stored b k of Some v \<Rightarrow> if live v now then Inr v else Inl ErrNotFound | None \<Rightarrow> Inl ErrNotFound)"
    and lookup_state: "stored (snd (lookup k now b)) j =
      (if j = k \<and> fst (lookup k now b) = Inl ErrNotFound \<and> stored (snd (lookup k now b)) k = None
       then None else stored b j)"
    and live_antimono: "now \<le> now' \<Longrightarrow> live v now' \<Longrightarrow> live v now"
begin

lemma found_iff: "fst (lookup k now b) = Inr v \<longleftrightarrow> stored b k = Some v \<and> live v now"
  by (auto simp: lookup_result split: option.splits)

lemma found_earlier:
  "fst (lookup k now' b) = Inr v \<Longrightarrow> now \<le> now' \<Longrightarrow> fst (lookup k now b) = Inr v"
  using live_antimono by (auto simp: found_iff)

lemma refused_iff: "fst (lookup k now b) = Inl ErrNotFound \<longleftrightarrow> (\<forall>v. stored b k = Some v \<longrightarrow> \<not> live v now)"
  by (auto simp: lookup_result split: option.splits)

lemma refused_later:
  "fst (lookup k now b) = Inl ErrNotFound \<Longrightarrow> now \<le> now' \<Longrightarrow>
   fst (lookup k now' (snd (lookup k now b))) = Inl ErrNotFound"
  using live_antimono lookup_state [of k now b k] unfolding refused_iff by (auto split: if_splits)

lemma lookup_other: "j \<noteq> k \<Longrightarrow> stored (snd (lookup k now b)) j = stored b j"
  by (subst lookup_state) simp

end

end
