(* ===== verification/Task_Store.thy ===== *)
theory Task_Store
  imports Backend "HOL-Library.Sublist"
begin

text \<open>
  The durable task queue of the in-memory store (\<open>internal/teststore/store.go\<close>,
  \<open>EnqueueTask\<close> to \<open>activeTaskLease\<close>): the reference implementation of the
  \<open>store.TaskStore\<close> contract. The operations come first, then the invariant every
  operation keeps, then the step relation of a store used by any number of workers
  with a clock that does not run backwards.
\<close>

section \<open>Operations\<close>

definition no_active_reference :: "backend \<Rightarrow> document_reference option \<Rightarrow> bool" where
  "no_active_reference b r =
     (case r of None \<Rightarrow> False
      | Some d \<Rightarrow> \<not> activeDocument b (refCollectionID d) (refDocumentID d))"

definition task_name :: "nat \<Rightarrow> string" where "task_name n = ''task_'' @ nat_dec n"
definition lease_name :: "nat \<Rightarrow> string" where "lease_name n = ''lease_'' @ nat_dec n"

definition EnqueueTask :: "string option \<Rightarrow> task \<Rightarrow> time \<Rightarrow> backend \<Rightarrow> task outcome" where
  "EnqueueTask ctx t now b =
     guarded ctx b
      (case ValidateTaskAdmission t of
         Some e \<Rightarrow> (Inl (ErrInvalidTask e), b)
       | None \<Rightarrow>
           if no_active_reference b (taskTarget t) \<or> no_active_reference b (taskRequestedBy t)
           then (Inl ErrNotFound, b)
           else let n = bkNextID b + 1;
                    t' = t\<lparr>taskID := task_name n, taskState := TaskStateQueued, taskAttempts := 0,
                           taskLeaseToken := [], taskLeaseExpiresAt := None, taskOutput := [],
                           taskLastErrorCode := [], taskLastError := [], taskCreatedAt := now,
                           taskUpdatedAt := now, taskCompletedAt := None, taskRetainUntil := None\<rparr>
                in (Inr t', b\<lparr>bkNextID := n, bkTasks := put (task_name n) t' (bkTasks b)\<rparr>))"

definition FindTask :: "string option \<Rightarrow> string \<Rightarrow> backend \<Rightarrow> task outcome" where
  "FindTask ctx i b =
     guarded ctx b
      (case map_of (bkTasks b) i of None \<Rightarrow> (Inl ErrNotFound, b) | Some t \<Rightarrow> (Inr t, b))"

text \<open>The comparison the source passes to \<open>sort.Slice\<close>, as a key.\<close>

definition task_order :: "task \<Rightarrow> time \<times> time \<times> string" where
  "task_order t = (taskRunAt t, taskCreatedAt t, taskID t)"

definition listed :: "task_list \<Rightarrow> task \<Rightarrow> bool" where
  "listed r t \<longleftrightarrow>
     \<not> (lstSlug r \<noteq> [] \<and> taskSlug t \<noteq> lstSlug r)
     \<and> \<not> (lstTarget r \<noteq> None \<and> taskTarget t \<noteq> lstTarget r)
     \<and> \<not> (lstStates r \<noteq> [] \<and> taskState t \<notin> set (lstStates r))"

definition ListTasks :: "string option \<Rightarrow> task_list \<Rightarrow> backend \<Rightarrow> task list outcome" where
  "ListTasks ctx r b =
     guarded ctx b
      (case ValidateTaskList r of
         Some e \<Rightarrow> (Inl (ErrInvalidTask e), b)
       | None \<Rightarrow>
           (Inr (take (nat (lstLimit r)) (sort_key task_order (filter (listed r) (map snd (bkTasks b))))), b))"

fun dismissibleTaskState :: "task_state \<Rightarrow> bool" where
  "dismissibleTaskState TaskStateQueued = True"
| "dismissibleTaskState TaskStateFailed = True"
| "dismissibleTaskState TaskStateCanceled = True"
| "dismissibleTaskState _ = False"

definition cancelTask :: "string \<Rightarrow> string \<Rightarrow> document_reference option \<Rightarrow> time \<Rightarrow> backend \<Rightarrow> unit outcome" where
  "cancelTask i slug target now b =
     (case map_of (bkTasks b) i of
        None \<Rightarrow> (Inl ErrNotFound, b)
      | Some t \<Rightarrow>
          if slug \<noteq> [] \<and> taskSlug t \<noteq> slug \<or> target \<noteq> None \<and> taskTarget t \<noteq> target
            then (Inl ErrNotFound, b)
          else if taskState t = TaskStateSucceeded \<or> taskState t = TaskStateFailed
                  \<or> taskState t = TaskStateCanceled
            then (Inl ErrNotFound, b)
          else (Inr (), b\<lparr>bkTasks := put i
                 (t\<lparr>taskState := TaskStateCanceled, taskLeaseToken := [], taskLeaseExpiresAt := None,
                    taskUpdatedAt := now, taskCompletedAt := Some now,
                    taskRetainUntil := Some (now + taskRetention t)\<rparr>) (bkTasks b)\<rparr>))"

definition CancelTask :: "string option \<Rightarrow> string \<Rightarrow> time \<Rightarrow> backend \<Rightarrow> unit outcome" where
  "CancelTask ctx i now b = guarded ctx b (cancelTask i [] None now b)"

definition DismissTaskForTarget ::
  "string option \<Rightarrow> string \<Rightarrow> string \<Rightarrow> document_reference \<Rightarrow> backend \<Rightarrow> unit outcome" where
  "DismissTaskForTarget ctx i slug target b =
     guarded ctx b
      (case ValidateTaskList \<lparr>lstSlug = slug, lstTarget = Some target, lstStates = [], lstLimit = 1\<rparr> of
         Some e \<Rightarrow> (Inl (ErrInvalidTask e), b)
       | None \<Rightarrow>
           (case map_of (bkTasks b) i of
              None \<Rightarrow> (Inl ErrNotFound, b)
            | Some t \<Rightarrow>
                if taskSlug t \<noteq> slug \<or> taskTarget t \<noteq> Some target \<or> \<not> dismissibleTaskState (taskState t)
                then (Inl ErrNotFound, b)
                else (Inr (), b\<lparr>bkTasks := del i (bkTasks b)\<rparr>)))"

definition claimable :: "task_claim \<Rightarrow> time \<Rightarrow> task \<Rightarrow> bool" where
  "claimable r now t \<longleftrightarrow>
     (taskState t = TaskStateQueued \<and> taskRunAt t \<le> now
      \<or> taskState t = TaskStateRunning
        \<and> (case taskLeaseExpiresAt t of None \<Rightarrow> False | Some e \<Rightarrow> e \<le> now))
     \<and> (clmQueues r = [] \<or> taskQueue t \<in> set (clmQueues r))
     \<and> (clmSlugs r = [] \<or> taskSlug t \<in> set (clmSlugs r))"

definition live_lease :: "time \<Rightarrow> task \<Rightarrow> bool" where
  "live_lease now t \<longleftrightarrow>
     taskState t = TaskStateRunning
     \<and> (case taskLeaseExpiresAt t of None \<Rightarrow> False | Some e \<Rightarrow> now < e)"

definition concurrency_of :: "task \<Rightarrow> string" where
  "concurrency_of t =
     (if taskConcurrencyKey t \<noteq> [] then taskQueue t @ NUL # taskConcurrencyKey t else [])"

definition active_keys :: "time \<Rightarrow> backend \<Rightarrow> string list" where
  "active_keys now b =
     map (\<lambda>t. taskQueue t @ NUL # taskConcurrencyKey t)
       (filter (\<lambda>t. live_lease now t \<and> taskConcurrencyKey t \<noteq> []) (map snd (bkTasks b)))"

definition zero_task :: task where
  "zero_task =
     \<lparr>taskID = [], taskSlug = [], taskQueue = [], taskConcurrencyKey = [], taskInput = [],
      taskOutput = [], taskState = TaskStateOther [], taskRunAt = zero_time, taskAttempts = 0,
      taskMaxAttempts = 0, taskRetryDelay = 0, taskMaxRetryDelay = 0, taskBackoff = TaskBackoffOther [],
      taskTimeout = 0, taskRetention = 0, taskLeaseToken = [], taskLeaseExpiresAt = None,
      taskTarget = None, taskRequestedBy = None, taskLastErrorCode = [], taskLastError = [],
      taskCreatedAt = zero_time, taskUpdatedAt = zero_time, taskCompletedAt = None,
      taskRetainUntil = None\<rparr>"

definition lease_task :: "task_claim \<Rightarrow> time \<Rightarrow> nat \<Rightarrow> task \<Rightarrow> task" where
  "lease_task r now n t =
     t\<lparr>taskState := TaskStateRunning, taskAttempts := taskAttempts t + 1,
       taskLeaseToken := lease_name n, taskLeaseExpiresAt := Some (now + clmLeaseDuration r),
       taskUpdatedAt := now\<rparr>"

fun claim_loop ::
  "task_claim \<Rightarrow> time \<Rightarrow> task list \<Rightarrow> string list \<Rightarrow> task list \<Rightarrow> backend \<Rightarrow> task list \<times> backend" where
  "claim_loop r now [] activeKeys claimed b = (claimed, b)"
| "claim_loop r now (candidate # cs) activeKeys claimed b =
     (if int (length claimed) \<ge> clmLimit r then (claimed, b)
      else let concurrency = concurrency_of candidate in
        if taskConcurrencyKey candidate \<noteq> [] \<and> concurrency \<in> set activeKeys
        then claim_loop r now cs activeKeys claimed b
        else let n = bkNextID b + 1;
                 t = lease_task r now n
                       (case map_of (bkTasks b) (taskID candidate) of Some t \<Rightarrow> t | None \<Rightarrow> zero_task)
             in claim_loop r now cs (if concurrency \<noteq> [] then concurrency # activeKeys else activeKeys)
                  (claimed @ [t]) (b\<lparr>bkNextID := n, bkTasks := put (taskID t) t (bkTasks b)\<rparr>))"

definition ClaimTasks :: "string option \<Rightarrow> task_claim \<Rightarrow> time \<Rightarrow> backend \<Rightarrow> task list outcome" where
  "ClaimTasks ctx r now b =
     guarded ctx b
      (case ValidateTaskClaim r of
         Some e \<Rightarrow> (Inl (ErrInvalidTask e), b)
       | None \<Rightarrow>
           (let (claimed, b') =
              claim_loop r now (sort_key task_order (filter (claimable r now) (map snd (bkTasks b))))
                (active_keys now b) [] b
            in (Inr claimed, b')))"

definition activeTaskLease :: "task option \<Rightarrow> string \<Rightarrow> time \<Rightarrow> bool" where
  "activeTaskLease t leaseToken now =
     (case t of None \<Rightarrow> False
      | Some t \<Rightarrow> taskState t = TaskStateRunning \<and> taskLeaseToken t = leaseToken
          \<and> (case taskLeaseExpiresAt t of None \<Rightarrow> False | Some e \<Rightarrow> now < e))"

definition HeartbeatTask ::
  "string option \<Rightarrow> string \<Rightarrow> string \<Rightarrow> duration \<Rightarrow> time \<Rightarrow> backend \<Rightarrow> unit outcome" where
  "HeartbeatTask ctx i leaseToken leaseDuration now b =
     guarded ctx b
      (case ValidateTaskLeaseDuration leaseDuration of
         Some e \<Rightarrow> (Inl (ErrInvalidTask e), b)
       | None \<Rightarrow>
           if \<not> activeTaskLease (map_of (bkTasks b) i) leaseToken now then (Inl ErrTaskLeaseLost, b)
           else let t = the (map_of (bkTasks b) i) in
             (Inr (), b\<lparr>bkTasks := put i
                (t\<lparr>taskLeaseExpiresAt := Some (now + leaseDuration), taskUpdatedAt := now\<rparr>) (bkTasks b)\<rparr>))"

definition CompleteTask ::
  "string option \<Rightarrow> string \<Rightarrow> string \<Rightarrow> string \<Rightarrow> time \<Rightarrow> backend \<Rightarrow> unit outcome" where
  "CompleteTask ctx i leaseToken output now b =
     guarded ctx b
      (case ValidateTaskPayload output of
         Some e \<Rightarrow> (Inl (ErrInvalidTask e), b)
       | None \<Rightarrow>
           if \<not> activeTaskLease (map_of (bkTasks b) i) leaseToken now then (Inl ErrTaskLeaseLost, b)
           else let t = the (map_of (bkTasks b) i) in
             (Inr (), b\<lparr>bkTasks := put i
                (t\<lparr>taskState := TaskStateSucceeded, taskOutput := output, taskLeaseToken := [],
                   taskLeaseExpiresAt := None, taskLastErrorCode := [], taskLastError := [],
                   taskUpdatedAt := now, taskCompletedAt := Some now,
                   taskRetainUntil := Some (now + taskRetention t)\<rparr>) (bkTasks b)\<rparr>))"

definition FailTask :: "string option \<Rightarrow> task_failure \<Rightarrow> time \<Rightarrow> backend \<Rightarrow> unit outcome" where
  "FailTask ctx f now b =
     guarded ctx b
      (case ValidateTaskFailure f of
         Some e \<Rightarrow> (Inl (ErrInvalidTask e), b)
       | None \<Rightarrow>
           if \<not> activeTaskLease (map_of (bkTasks b) (flrID f)) (flrLeaseToken f) now
           then (Inl ErrTaskLeaseLost, b)
           else let t = (the (map_of (bkTasks b) (flrID f)))
                        \<lparr>taskLastErrorCode := flrCode f, taskLastError := flrMessage f,
                         taskLeaseToken := [], taskLeaseExpiresAt := None, taskUpdatedAt := now\<rparr>;
                    t' = (case flrRetryAfter f of
                            Some d \<Rightarrow> t\<lparr>taskState := TaskStateQueued, taskRunAt := now + d,
                                       taskCompletedAt := None, taskRetainUntil := None\<rparr>
                          | None \<Rightarrow> t\<lparr>taskState := TaskStateFailed, taskCompletedAt := Some now,
                                     taskRetainUntil := Some (now + taskRetention t)\<rparr>)
                in (Inr (), b\<lparr>bkTasks := put (taskID t') t' (bkTasks b)\<rparr>))"

definition ReleaseTask ::
  "string option \<Rightarrow> string \<Rightarrow> string \<Rightarrow> duration \<Rightarrow> string \<Rightarrow> string \<Rightarrow> time \<Rightarrow> backend \<Rightarrow> unit outcome" where
  "ReleaseTask ctx i leaseToken delay code message now b =
     guarded ctx b
      (case ValidateTaskRelease delay code message of
         Some e \<Rightarrow> (Inl (ErrInvalidTask e), b)
       | None \<Rightarrow>
           if \<not> activeTaskLease (map_of (bkTasks b) i) leaseToken now then (Inl ErrTaskLeaseLost, b)
           else let t = the (map_of (bkTasks b) i) in
             (Inr (), b\<lparr>bkTasks := put i
                (t\<lparr>taskState := TaskStateQueued, taskRunAt := now + delay, taskLeaseToken := [],
                   taskLeaseExpiresAt := None, taskLastErrorCode := code, taskLastError := message,
                   taskUpdatedAt := now\<rparr>) (bkTasks b)\<rparr>))"

definition prunable :: "time \<Rightarrow> task \<Rightarrow> bool" where
  "prunable now t = (case taskRetainUntil t of None \<Rightarrow> False | Some u \<Rightarrow> u \<le> now)"

definition PruneTasks :: "string option \<Rightarrow> int \<Rightarrow> time \<Rightarrow> backend \<Rightarrow> nat outcome" where
  "PruneTasks ctx limit now b =
     guarded ctx b
      (case ValidateTaskBatch limit of
         Some e \<Rightarrow> (Inl (ErrInvalidTask e), b)
       | None \<Rightarrow>
           let ids = take (nat limit)
                 (sort (map fst (filter (\<lambda>(i, t). prunable now t) (bkTasks b))))
           in (Inr (length ids), b\<lparr>bkTasks := fold del ids (bkTasks b)\<rparr>))"

section \<open>The invariant\<close>

definition terminal :: "task_state \<Rightarrow> bool" where
  "terminal s \<longleftrightarrow> s = TaskStateSucceeded \<or> s = TaskStateFailed \<or> s = TaskStateCanceled"

text \<open>
  One task: filed under its own ID, which the store issued; leased exactly while it
  is running, by a token the store issued; completed and retained exactly when it is
  terminal; its queue free of the separator byte of concurrency keys.
\<close>

definition task_ok :: "nat \<Rightarrow> string \<Rightarrow> task \<Rightarrow> bool" where
  "task_ok n i t \<longleftrightarrow>
     taskID t = i \<and> (\<exists>k \<le> n. i = task_name k) \<and> validTaskState (taskState t)
     \<and> (taskState t = TaskStateRunning \<longrightarrow>
          (\<exists>k \<le> n. taskLeaseToken t = lease_name k) \<and> taskLeaseExpiresAt t \<noteq> None)
     \<and> (taskState t \<noteq> TaskStateRunning \<longrightarrow> taskLeaseToken t = [] \<and> taskLeaseExpiresAt t = None)
     \<and> (taskCompletedAt t \<noteq> None \<longleftrightarrow> terminal (taskState t))
     \<and> (taskRetainUntil t \<noteq> None \<longleftrightarrow> terminal (taskState t))
     \<and> NUL \<notin> set (taskQueue t) \<and> 0 \<le> taskAttempts t
     \<and> (taskState t = TaskStateRunning \<longrightarrow> 1 \<le> taskAttempts t)"

definition holds_token :: "backend \<Rightarrow> string \<Rightarrow> string \<Rightarrow> bool" where
  "holds_token b i token \<longleftrightarrow>
     (case map_of (bkTasks b) i of None \<Rightarrow> False
      | Some t \<Rightarrow> taskState t = TaskStateRunning \<and> taskLeaseToken t = token)"

definition store_ok :: "backend \<Rightarrow> bool" where
  "store_ok b \<longleftrightarrow>
     wf_map (bkTasks b) \<and> (\<forall>i t. map_of (bkTasks b) i = Some t \<longrightarrow> task_ok (bkNextID b) i t)
     \<and> (\<forall>i j token. holds_token b i token \<and> holds_token b j token \<longrightarrow> i = j)"

text \<open>At the time \<open>now\<close>, no two live leases share a queue and concurrency key.\<close>

definition leases_ok :: "time \<Rightarrow> backend \<Rightarrow> bool" where
  "leases_ok now b \<longleftrightarrow>
     (\<forall>i j t u. map_of (bkTasks b) i = Some t \<and> map_of (bkTasks b) j = Some u
        \<and> live_lease now t \<and> live_lease now u \<and> taskConcurrencyKey t \<noteq> []
        \<and> concurrency_of t = concurrency_of u \<longrightarrow> i = j)"

lemma store_okI:
  assumes "wf_map (bkTasks b)" "\<And>i t. map_of (bkTasks b) i = Some t \<Longrightarrow> task_ok (bkNextID b) i t"
    "\<And>i j x. holds_token b i x \<Longrightarrow> holds_token b j x \<Longrightarrow> i = j"
  shows "store_ok b"
  using assms unfolding store_ok_def by blast

lemma store_okD:
  assumes "store_ok b"
  shows "wf_map (bkTasks b)" "map_of (bkTasks b) i = Some t \<Longrightarrow> task_ok (bkNextID b) i t"
    "holds_token b i x \<Longrightarrow> holds_token b j x \<Longrightarrow> i = j"
  using assms unfolding store_ok_def by blast+

lemma store_ok_step:
  assumes b: "store_ok b" and "wf_map (bkTasks b')" "bkNextID b \<le> bkNextID b'"
    and t: "\<And>i t. map_of (bkTasks b') i = Some t \<Longrightarrow>
             map_of (bkTasks b) i = Some t \<or> task_ok (bkNextID b') i t"
    and h: "\<And>j x. holds_token b' j x \<Longrightarrow> holds_token b j x"
  shows "store_ok b'"
proof (rule store_okI)
  fix i t assume "map_of (bkTasks b') i = Some t"
  from t [OF this] show "task_ok (bkNextID b') i t"
    using store_okD(2) [OF b] assms(3) unfolding task_ok_def by (meson le_trans)
next
  fix i j x assume "holds_token b' i x" "holds_token b' j x"
  then show "i = j" using h store_okD(3) [OF b] by blast
qed (rule assms(2))

lemma lease_name_inject [simp]: "lease_name m = lease_name n \<longleftrightarrow> m = n"
  by (simp add: lease_name_def)

lemma task_name_inject [simp]: "task_name m = task_name n \<longleftrightarrow> m = n"
  by (simp add: task_name_def)

lemma lease_name_nonempty [simp]: "lease_name n \<noteq> []"
  by (simp add: lease_name_def)

lemma task_ok_mono: "task_ok m i t \<Longrightarrow> m \<le> n \<Longrightarrow> task_ok n i t"
  unfolding task_ok_def by (meson le_trans)

lemma live_mono: "now \<le> now' \<Longrightarrow> live_lease now' t \<Longrightarrow> live_lease now t"
  by (auto simp: live_lease_def split: option.splits)

lemma leases_ok_step:
  assumes b: "leases_ok now b"
    and t: "\<And>i t. map_of (bkTasks b') i = Some t \<Longrightarrow> live_lease now t \<Longrightarrow> taskConcurrencyKey t \<noteq> [] \<Longrightarrow>
             \<exists>u. map_of (bkTasks b) i = Some u \<and> live_lease now u \<and> taskConcurrencyKey u \<noteq> []
                 \<and> concurrency_of u = concurrency_of t"
  shows "leases_ok now b'"
  unfolding leases_ok_def
proof (intro allI impI, elim conjE)
  fix i j t u
  assume a: "map_of (bkTasks b') i = Some t" "live_lease now t" "taskConcurrencyKey t \<noteq> []"
    and c: "map_of (bkTasks b') j = Some u" "live_lease now u" "concurrency_of t = concurrency_of u"
  have "taskConcurrencyKey u \<noteq> []"
    using a(3) c(3) by (auto simp: concurrency_of_def split: if_splits)
  from t [OF a] t [OF c(1,2) this] b c(3) show "i = j"
    unfolding leases_ok_def by metis
qed

lemma leases_ok_mono: "leases_ok now b \<Longrightarrow> now \<le> now' \<Longrightarrow> leases_ok now' b"
  unfolding leases_ok_def by (meson live_mono)

lemma activeTaskLease_live:
  "activeTaskLease (map_of (bkTasks b) i) token now \<longleftrightarrow>
   (\<exists>t. map_of (bkTasks b) i = Some t \<and> live_lease now t \<and> taskLeaseToken t = token)"
  by (auto simp: activeTaskLease_def live_lease_def split: option.splits)

text \<open>An operation that rewrites one existing task without issuing a token.\<close>

lemma store_ok_put:
  assumes b: "store_ok b" and t: "map_of (bkTasks b) i = Some t" and ok: "task_ok (bkNextID b) i t'"
    and token: "taskState t' = TaskStateRunning \<Longrightarrow>
                 taskState t = TaskStateRunning \<and> taskLeaseToken t' = taskLeaseToken t"
  shows "store_ok (b\<lparr>bkTasks := put i t' (bkTasks b)\<rparr>)"
proof -
  have "holds_token (b\<lparr>bkTasks := put i t' (bkTasks b)\<rparr>) j x \<Longrightarrow> holds_token b j x" for j x
    using t token by (auto simp: holds_token_def split: if_splits)
  then show ?thesis
    using store_okD(1) [OF b] ok by (intro store_ok_step [OF b]) (auto split: if_splits)
qed

lemma leases_ok_put:
  assumes b: "leases_ok now b" and t: "map_of (bkTasks b) i = Some t"
    and live: "live_lease now t' \<Longrightarrow> live_lease now t \<and> taskConcurrencyKey t' = taskConcurrencyKey t
                 \<and> taskQueue t' = taskQueue t"
  shows "leases_ok now (b\<lparr>bkTasks := put i t' (bkTasks b)\<rparr>)"
  by (rule leases_ok_step [OF b]) (use t live in \<open>auto simp: concurrency_of_def split: if_splits\<close>)

lemma store_ok_remove: "store_ok b \<Longrightarrow> store_ok (b\<lparr>bkTasks := del i (bkTasks b)\<rparr>)"
proof -
  assume b: "store_ok b"
  have "holds_token (b\<lparr>bkTasks := del i (bkTasks b)\<rparr>) j x \<Longrightarrow> holds_token b j x" for j x
    by (auto simp: holds_token_def split: if_splits)
  then show ?thesis
    using store_okD(1) [OF b] by (intro store_ok_step [OF b]) (auto split: if_splits)
qed

lemma leases_ok_remove: "leases_ok now b \<Longrightarrow> leases_ok now (b\<lparr>bkTasks := del i (bkTasks b)\<rparr>)"
  by (erule leases_ok_step) (simp split: if_splits)

lemma remove_all:
  "store_ok b \<Longrightarrow> store_ok (b\<lparr>bkTasks := fold del ids (bkTasks b)\<rparr>)"
  "leases_ok now b \<Longrightarrow> leases_ok now (b\<lparr>bkTasks := fold del ids (bkTasks b)\<rparr>)"
proof (induction ids arbitrary: b)
  case (Cons i ids)
  { case 1
    from Cons(1) [OF store_ok_remove [OF 1, of i]] show ?case by simp }
  { case 2
    from Cons(2) [OF leases_ok_remove [OF 2, of i]] show ?case by simp }
qed simp_all

section \<open>Each operation keeps the invariant\<close>

definition good :: "time \<Rightarrow> backend \<Rightarrow> bool" where
  "good now b \<longleftrightarrow> store_ok b \<and> leases_ok now b"

lemma good_put:
  assumes "good now b" "map_of (bkTasks b) i = Some t" "task_ok (bkNextID b) i t'"
    and "taskState t' = TaskStateRunning \<Longrightarrow>
         taskState t = TaskStateRunning \<and> taskLeaseToken t' = taskLeaseToken t"
    and "live_lease now t' \<Longrightarrow> live_lease now t \<and> taskConcurrencyKey t' = taskConcurrencyKey t
         \<and> taskQueue t' = taskQueue t"
  shows "good now (b\<lparr>bkTasks := put i t' (bkTasks b)\<rparr>)"
  using assms store_ok_put leases_ok_put unfolding good_def by blast

lemma good_lookup: "good now b \<Longrightarrow> map_of (bkTasks b) i = Some t \<Longrightarrow> task_ok (bkNextID b) i t"
  by (simp add: good_def store_ok_def)

lemma identifier_no_NUL: "validTaskIdentifier q m \<Longrightarrow> NUL \<notin> set q"
proof
  assume v: "validTaskIdentifier q m" and n: "NUL \<in> set q"
  then have "list_all (\<lambda>w. w \<noteq> [] \<and> list_all cls_lower_digit w) (split_on CHR ''-'' q)"
    using stable_id_shape [of q]
    by (simp add: validTaskIdentifier_def IsValidCollectionSlug_def IsValidStableID_def)
  moreover have "c \<in> set (join_with d ws) \<Longrightarrow> c = d \<or> (\<exists>w\<in>set ws. c \<in> set w)" for c d ws
    by (induction d ws rule: join_with.induct) auto
  then have "NUL = CHR ''-'' \<or> (\<exists>w\<in>set (split_on CHR ''-'' q). NUL \<in> set w)"
    using n by (metis join_split)
  ultimately have "NUL = CHR ''-'' \<or> cls_lower_digit NUL" by (auto simp: list_all_iff)
  moreover have "byte NUL \<noteq> byte CHR ''-''" by (simp add: NUL_def)
  ultimately have "cls_lower_digit NUL" by metis
  then show False by (simp add: NUL_def cls_lower_digit_def is_lower_def is_digit_def)
qed

lemma fresh_task: "store_ok b \<Longrightarrow> map_of (bkTasks b) (task_name (bkNextID b + 1)) = None"
proof (rule ccontr)
  assume b: "store_ok b" and "map_of (bkTasks b) (task_name (bkNextID b + 1)) \<noteq> None"
  then obtain t where "task_ok (bkNextID b) (task_name (bkNextID b + 1)) t"
    by (auto simp: store_ok_def)
  then show False by (auto simp: task_ok_def)
qed

lemma EnqueueTask_good: "good now b \<Longrightarrow> good now (snd (EnqueueTask ctx t now b))"
proof (cases "ctx = None \<and> ValidateTaskAdmission t = None
    \<and> \<not> (no_active_reference b (taskTarget t) \<or> no_active_reference b (taskRequestedBy t))")
  case True
  assume g: "good now b"
  let ?n = "bkNextID b + 1"
  define t' where "t' = t\<lparr>taskID := task_name ?n, taskState := TaskStateQueued, taskAttempts := 0,
      taskLeaseToken := [], taskLeaseExpiresAt := None, taskOutput := [],
      taskLastErrorCode := [], taskLastError := [], taskCreatedAt := now,
      taskUpdatedAt := now, taskCompletedAt := None, taskRetainUntil := None\<rparr>"
  have r: "snd (EnqueueTask ctx t now b) = b\<lparr>bkNextID := ?n, bkTasks := put (task_name ?n) t' (bkTasks b)\<rparr>"
    using True by (simp add: EnqueueTask_def t'_def Let_def)
  have "validTaskIdentifier (taskQueue t) 64"
    using True by (auto simp: ValidateTaskAdmission_def split: if_splits)
  then have ok: "task_ok ?n (task_name ?n) t'"
    using identifier_no_NUL by (auto simp: task_ok_def t'_def terminal_def)
  have nl: "taskState t' \<noteq> TaskStateRunning" by (simp add: t'_def)
  have s: "store_ok b" using g by (simp add: good_def)
  have "holds_token (b\<lparr>bkNextID := ?n, bkTasks := put (task_name ?n) t' (bkTasks b)\<rparr>) j x \<Longrightarrow> holds_token b j x"
    for j x using nl by (auto simp: holds_token_def split: if_splits)
  then have "store_ok (snd (EnqueueTask ctx t now b))"
    unfolding r using store_okD(1) [OF s] ok
    by (intro store_ok_step [OF s]) (auto split: if_splits)
  moreover have "leases_ok now (snd (EnqueueTask ctx t now b))"
  proof -
    have "\<not> live_lease now t'" using nl by (simp add: live_lease_def)
    moreover have "leases_ok now b" using g by (simp add: good_def)
    ultimately have "leases_ok now (b\<lparr>bkNextID := ?n, bkTasks := put (task_name ?n) t' (bkTasks b)\<rparr>)"
      by (elim leases_ok_step) (simp split: if_splits)
    then show ?thesis by (simp only: r)
  qed
  ultimately show ?thesis by (simp add: good_def)
next
  case False
  assume "good now b"
  with False show ?thesis by (cases ctx) (auto simp: EnqueueTask_def split: option.splits)
qed

lemma cancelTask_good: "good now b \<Longrightarrow> good now (snd (cancelTask i slug target now b))"
proof (cases "map_of (bkTasks b) i")
  case None
  then show "good now b \<Longrightarrow> ?thesis" by (simp add: cancelTask_def)
next
  case (Some t)
  assume g: "good now b"
  from good_lookup [OF g Some] have "task_ok (bkNextID b) i t" .
  then have "task_ok (bkNextID b) i (t\<lparr>taskState := TaskStateCanceled, taskLeaseToken := [],
      taskLeaseExpiresAt := None, taskUpdatedAt := now, taskCompletedAt := Some now,
      taskRetainUntil := Some (now + taskRetention t)\<rparr>)"
    by (auto simp: task_ok_def terminal_def)
  from good_put [OF g Some this] g show ?thesis
    by (simp add: cancelTask_def Some live_lease_def)
qed

lemma CancelTask_good: "good now b \<Longrightarrow> good now (snd (CancelTask ctx i now b))"
  by (cases ctx) (simp_all add: CancelTask_def cancelTask_good)

lemma good_remove: "good now b \<Longrightarrow> good now (b\<lparr>bkTasks := del i (bkTasks b)\<rparr>)"
  by (simp add: good_def store_ok_remove leases_ok_remove)

lemma DismissTaskForTarget_good: "good now b \<Longrightarrow> good now (snd (DismissTaskForTarget ctx i slug target b))"
  by (cases ctx) (auto simp: DismissTaskForTarget_def good_remove split: option.splits)

lemma PruneTasks_good: "good now b \<Longrightarrow> good now (snd (PruneTasks ctx limit now b))"
  by (cases ctx) (auto simp: PruneTasks_def good_def remove_all Let_def split: option.splits)

lemma owned_put_good:
  assumes g: "good now b" and a: "activeTaskLease (map_of (bkTasks b) i) token now"
    and ok: "\<And>t. map_of (bkTasks b) i = Some t \<Longrightarrow> task_ok (bkNextID b) i t \<Longrightarrow>
               taskState t = TaskStateRunning \<Longrightarrow> task_ok (bkNextID b) i (f t)"
    and run: "\<And>t. taskState t = TaskStateRunning \<Longrightarrow> taskState (f t) = TaskStateRunning \<Longrightarrow>
               taskLeaseToken (f t) = taskLeaseToken t \<and> taskConcurrencyKey (f t) = taskConcurrencyKey t
               \<and> taskQueue (f t) = taskQueue t"
  shows "good now (b\<lparr>bkTasks := put i (f (the (map_of (bkTasks b) i))) (bkTasks b)\<rparr>)"
proof -
  from a obtain t where t: "map_of (bkTasks b) i = Some t" "live_lease now t"
    by (auto simp: activeTaskLease_live)
  then have r: "taskState t = TaskStateRunning" by (simp add: live_lease_def)
  have live: "live_lease now (f t) \<Longrightarrow> taskState (f t) = TaskStateRunning" by (simp add: live_lease_def)
  from good_put [OF g t(1) ok [OF t(1) good_lookup [OF g t(1)] r]] run [OF r] live r t(2)
  show ?thesis by (simp add: t(1))
qed

lemma HeartbeatTask_good: "good now b \<Longrightarrow> good now (snd (HeartbeatTask ctx i token d now b))"
proof -
  assume g: "good now b"
  have "activeTaskLease (map_of (bkTasks b) i) token now \<Longrightarrow>
    good now (b\<lparr>bkTasks := put i ((\<lambda>t. t\<lparr>taskLeaseExpiresAt := Some (now + d), taskUpdatedAt := now\<rparr>)
       (the (map_of (bkTasks b) i))) (bkTasks b)\<rparr>)"
    by (rule owned_put_good [OF g]) (auto simp: task_ok_def)
  with g show ?thesis
    by (cases ctx) (auto simp: HeartbeatTask_def Let_def split: option.splits)
qed

lemma CompleteTask_good: "good now b \<Longrightarrow> good now (snd (CompleteTask ctx i token out now b))"
proof -
  assume g: "good now b"
  have "activeTaskLease (map_of (bkTasks b) i) token now \<Longrightarrow>
    good now (b\<lparr>bkTasks := put i ((\<lambda>t. t\<lparr>taskState := TaskStateSucceeded, taskOutput := out,
        taskLeaseToken := [], taskLeaseExpiresAt := None, taskLastErrorCode := [], taskLastError := [],
        taskUpdatedAt := now, taskCompletedAt := Some now,
        taskRetainUntil := Some (now + taskRetention t)\<rparr>) (the (map_of (bkTasks b) i))) (bkTasks b)\<rparr>)"
    by (rule owned_put_good [OF g]) (auto simp: task_ok_def terminal_def)
  with g show ?thesis
    by (cases ctx) (auto simp: CompleteTask_def Let_def split: option.splits)
qed

lemma ReleaseTask_good: "good now b \<Longrightarrow> good now (snd (ReleaseTask ctx i token d code msg now b))"
proof -
  assume g: "good now b"
  have "activeTaskLease (map_of (bkTasks b) i) token now \<Longrightarrow>
    good now (b\<lparr>bkTasks := put i ((\<lambda>t. t\<lparr>taskState := TaskStateQueued, taskRunAt := now + d,
        taskLeaseToken := [], taskLeaseExpiresAt := None, taskLastErrorCode := code,
        taskLastError := msg, taskUpdatedAt := now\<rparr>) (the (map_of (bkTasks b) i))) (bkTasks b)\<rparr>)"
    by (rule owned_put_good [OF g]) (auto simp: task_ok_def terminal_def)
  with g show ?thesis
    by (cases ctx) (auto simp: ReleaseTask_def Let_def split: option.splits)
qed

definition failed_task :: "task_failure \<Rightarrow> time \<Rightarrow> task \<Rightarrow> task" where
  "failed_task f now t =
     (let t1 = t\<lparr>taskLastErrorCode := flrCode f, taskLastError := flrMessage f,
                 taskLeaseToken := [], taskLeaseExpiresAt := None, taskUpdatedAt := now\<rparr>
      in case flrRetryAfter f of
           Some d \<Rightarrow> t1\<lparr>taskState := TaskStateQueued, taskRunAt := now + d,
                      taskCompletedAt := None, taskRetainUntil := None\<rparr>
         | None \<Rightarrow> t1\<lparr>taskState := TaskStateFailed, taskCompletedAt := Some now,
                    taskRetainUntil := Some (now + taskRetention t1)\<rparr>)"

lemma FailTask_alt:
  "FailTask None f now b =
     (case ValidateTaskFailure f of
        Some e \<Rightarrow> (Inl (ErrInvalidTask e), b)
      | None \<Rightarrow>
          if \<not> activeTaskLease (map_of (bkTasks b) (flrID f)) (flrLeaseToken f) now
          then (Inl ErrTaskLeaseLost, b)
          else let t = failed_task f now (the (map_of (bkTasks b) (flrID f)))
               in (Inr (), b\<lparr>bkTasks := put (taskID t) t (bkTasks b)\<rparr>))"
  by (simp add: FailTask_def failed_task_def Let_def cong: option.case_cong)

lemma failed_task_simps [simp]:
  "taskID (failed_task f now t) = taskID t"
  "taskState (failed_task f now t) = (if flrRetryAfter f = None then TaskStateFailed else TaskStateQueued)"
  by (auto simp: failed_task_def Let_def split: option.splits)

lemma FailTask_good: "good now b \<Longrightarrow> good now (snd (FailTask ctx f now b))"
proof -
  assume g: "good now b"
  let ?i = "flrID f"
  have "activeTaskLease (map_of (bkTasks b) ?i) (flrLeaseToken f) now \<Longrightarrow>
    good now (b\<lparr>bkTasks := put ?i (failed_task f now (the (map_of (bkTasks b) ?i))) (bkTasks b)\<rparr>)"
    by (rule owned_put_good [OF g]) (auto simp: task_ok_def terminal_def failed_task_def Let_def split: option.splits)
  moreover have "activeTaskLease (map_of (bkTasks b) ?i) (flrLeaseToken f) now \<Longrightarrow>
    taskID (the (map_of (bkTasks b) ?i)) = ?i"
    using good_lookup [OF g, of ?i] by (auto simp: activeTaskLease_live task_ok_def)
  ultimately show ?thesis using g
    by (cases ctx) (auto simp: FailTask_alt Let_def FailTask_def [of "Some _"] split: option.splits)
qed

section \<open>Claiming\<close>

definition claim_inv :: "task_claim \<Rightarrow> time \<Rightarrow> task list \<Rightarrow> string list \<Rightarrow> backend \<Rightarrow> bool" where
  "claim_inv r now cs activeKeys b \<longleftrightarrow>
     good now b
     \<and> (\<forall>i t. map_of (bkTasks b) i = Some t \<longrightarrow> live_lease now t \<longrightarrow> taskConcurrencyKey t \<noteq> [] \<longrightarrow>
          concurrency_of t \<in> set activeKeys)
     \<and> distinct (map taskID cs)
     \<and> (\<forall>c \<in> set cs. map_of (bkTasks b) (taskID c) = Some c)"

definition claim_one :: "task_claim \<Rightarrow> time \<Rightarrow> task \<Rightarrow> backend \<Rightarrow> backend" where
  "claim_one r now c b =
     (let n = bkNextID b + 1
      in b\<lparr>bkNextID := n, bkTasks := put (taskID c) (lease_task r now n c) (bkTasks b)\<rparr>)"

lemma lease_task_simps [simp]:
  "taskID (lease_task r now n t) = taskID t" "taskState (lease_task r now n t) = TaskStateRunning"
  "taskLeaseToken (lease_task r now n t) = lease_name n"
  "taskLeaseExpiresAt (lease_task r now n t) = Some (now + clmLeaseDuration r)"
  "taskConcurrencyKey (lease_task r now n t) = taskConcurrencyKey t"
  "taskQueue (lease_task r now n t) = taskQueue t"
  "taskAttempts (lease_task r now n t) = taskAttempts t + 1"
  "concurrency_of (lease_task r now n t) = concurrency_of t"
  by (simp_all add: lease_task_def concurrency_of_def)

lemma fresh_token: "store_ok b \<Longrightarrow> \<not> holds_token b j (lease_name (bkNextID b + 1))"
proof
  assume b: "store_ok b" and "holds_token b j (lease_name (bkNextID b + 1))"
  then obtain t where t: "map_of (bkTasks b) j = Some t" "taskState t = TaskStateRunning"
    "taskLeaseToken t = lease_name (bkNextID b + 1)"
    by (auto simp: holds_token_def split: option.splits)
  from store_okD(2) [OF b t(1)] t(2,3) show False by (auto simp: task_ok_def)
qed

lemma claim_one_store_ok:
  assumes b: "store_ok b" and c: "map_of (bkTasks b) (taskID c) = Some c"
    and queued: "validTaskState (taskState c)" "\<not> terminal (taskState c)"
  shows "store_ok (claim_one r now c b)"
proof (rule store_okI)
  let ?n = "bkNextID b + 1"
  show "wf_map (bkTasks (claim_one r now c b))"
    using store_okD(1) [OF b] by (simp add: claim_one_def Let_def)
  have ok: "task_ok ?n (taskID c) (lease_task r now ?n c)"
    using store_okD(2) [OF b c] queued
    by (auto simp: task_ok_def terminal_def lease_task_def intro: le_SucI)
  fix i t assume "map_of (bkTasks (claim_one r now c b)) i = Some t"
  then show "task_ok (bkNextID (claim_one r now c b)) i t"
    using ok store_okD(2) [OF b] task_ok_mono [of "bkNextID b" _ _ ?n]
    by (auto simp: claim_one_def Let_def split: if_splits)
next
  fix i j x assume h: "holds_token (claim_one r now c b) i x" "holds_token (claim_one r now c b) j x"
  have "holds_token (claim_one r now c b) k x \<Longrightarrow>
      k = taskID c \<and> x = lease_name (bkNextID b + 1) \<or> k \<noteq> taskID c \<and> holds_token b k x" for k
    by (auto simp: holds_token_def claim_one_def Let_def split: if_splits)
  with h fresh_token [OF b] store_okD(3) [OF b] show "i = j" by metis
qed

lemma claimable_state:
  assumes "claimable r now c" "task_ok n i c"
  shows "validTaskState (taskState c)" "\<not> terminal (taskState c)" "\<not> live_lease now c"
  using assms by (auto simp: claimable_def task_ok_def terminal_def live_lease_def split: option.splits)

lemma concurrency_of_Nil: "concurrency_of t = [] \<longleftrightarrow> taskConcurrencyKey t = []"
  by (simp add: concurrency_of_def)

lemma claim_one_inv:
  assumes inv: "claim_inv r now (c # cs) activeKeys b" and c: "claimable r now c"
    and free: "\<not> (taskConcurrencyKey c \<noteq> [] \<and> concurrency_of c \<in> set activeKeys)"
  shows "claim_inv r now cs (if concurrency_of c \<noteq> [] then concurrency_of c # activeKeys else activeKeys)
           (claim_one r now c b)"
proof -
  let ?b = "claim_one r now c b" and ?t = "lease_task r now (bkNextID b + 1) c"
  have g: "good now b" and cb: "map_of (bkTasks b) (taskID c) = Some c"
    and d: "distinct (map taskID (c # cs))" and cs: "\<forall>x\<in>set cs. map_of (bkTasks b) (taskID x) = Some x"
    using inv by (simp_all add: claim_inv_def)
  have keys: "concurrency_of t \<in> set activeKeys"
    if "map_of (bkTasks b) i = Some t" "live_lease now t" "taskConcurrencyKey t \<noteq> []" for i t
    using inv that by (auto simp: claim_inv_def)
  have look: "map_of (bkTasks ?b) i = (if i = taskID c then Some ?t else map_of (bkTasks b) i)" for i
    by (simp add: claim_one_def Let_def)
  have "store_ok ?b"
    using g claimable_state [OF c good_lookup [OF g cb]] cb by (simp add: claim_one_store_ok good_def)
  moreover have "leases_ok now ?b"
    unfolding leases_ok_def
  proof (intro allI impI, elim conjE)
    fix i j t u
    assume a: "map_of (bkTasks ?b) i = Some t" "map_of (bkTasks ?b) j = Some u" "live_lease now t"
      "live_lease now u" "taskConcurrencyKey t \<noteq> []" "concurrency_of t = concurrency_of u"
    then have k: "taskConcurrencyKey u \<noteq> []" by (metis concurrency_of_Nil)
    consider "i = taskID c" "j = taskID c" | "i = taskID c" "j \<noteq> taskID c"
      | "i \<noteq> taskID c" "j = taskID c" | "i \<noteq> taskID c" "j \<noteq> taskID c" by blast
    then show "i = j"
    proof cases
      case 2
      then have "concurrency_of u \<in> set activeKeys" using a k keys look by simp
      with 2 a free look show ?thesis by (auto simp: concurrency_of_Nil [symmetric])
    next
      case 3
      then have "concurrency_of t \<in> set activeKeys" using a(1,3,5) keys look by simp
      then have "concurrency_of u \<in> set activeKeys" using a(6) by simp
      with 3 a free look k show ?thesis by (auto simp: concurrency_of_Nil [symmetric])
    next
      case 4
      with a look g show ?thesis unfolding good_def leases_ok_def by (metis (no_types, lifting))
    qed simp
  qed
  moreover have "concurrency_of t \<in> set (if concurrency_of c \<noteq> [] then concurrency_of c # activeKeys else activeKeys)"
    if "map_of (bkTasks ?b) i = Some t" "live_lease now t" "taskConcurrencyKey t \<noteq> []" for i t
    using that keys look [of i] by (auto simp: concurrency_of_Nil split: if_splits)
  moreover have "\<forall>x\<in>set cs. map_of (bkTasks ?b) (taskID x) = Some x"
  proof
    fix x assume x: "x \<in> set cs"
    moreover have "taskID c \<notin> taskID ` set cs" using d by simp
    ultimately have "taskID x \<noteq> taskID c" by (metis imageI)
    with x cs look show "map_of (bkTasks ?b) (taskID x) = Some x" by simp
  qed
  ultimately show ?thesis using d unfolding claim_inv_def good_def by auto
qed

lemma claim_loop_step:
  "map_of (bkTasks b) (taskID c) = Some c \<Longrightarrow>
   claim_loop r now (c # cs) activeKeys claimed b =
     (if int (length claimed) \<ge> clmLimit r then (claimed, b)
      else if taskConcurrencyKey c \<noteq> [] \<and> concurrency_of c \<in> set activeKeys
      then claim_loop r now cs activeKeys claimed b
      else claim_loop r now cs (if concurrency_of c \<noteq> [] then concurrency_of c # activeKeys else activeKeys)
             (claimed @ [lease_task r now (bkNextID b + 1) c]) (claim_one r now c b))"
  by (simp add: claim_one_def Let_def)

declare claim_loop.simps(2) [simp del]

text \<open>
  What the loop adds: leases for a subsequence of the candidates, in their order,
  each with a token of its own; every other task is left alone.
\<close>

fun leases :: "task_claim \<Rightarrow> time \<Rightarrow> nat \<Rightarrow> task list \<Rightarrow> task list" where
  "leases r now n [] = []"
| "leases r now n (c # cs) = lease_task r now (n + 1) c # leases r now (n + 1) cs"

lemma leases_ids [simp]: "map taskID (leases r now n cs) = map taskID cs"
  by (induction cs arbitrary: n) auto

lemma leases_id_set [simp]: "taskID ` set (leases r now n cs) = taskID ` set cs"
  by (metis leases_ids list.set_map)

lemma leases_length [simp]: "length (leases r now n cs) = length cs"
  by (induction cs arbitrary: n) auto

definition claim_result :: "task_claim \<Rightarrow> time \<Rightarrow> task list \<Rightarrow> backend \<Rightarrow> task list \<Rightarrow> backend \<Rightarrow> bool" where
  "claim_result r now cs b sel b' \<longleftrightarrow>
     subseq sel cs \<and> bkNextID b' = bkNextID b + length sel
     \<and> (\<forall>i. i \<notin> taskID ` set sel \<longrightarrow> map_of (bkTasks b') i = map_of (bkTasks b) i)
     \<and> (\<forall>t \<in> set (leases r now (bkNextID b) sel). map_of (bkTasks b') (taskID t) = Some t)"

lemma claim_result_Nil [simp]: "claim_result r now cs b [] b"
  by (simp add: claim_result_def)

lemma claim_result_skip: "claim_result r now cs b sel b' \<Longrightarrow> claim_result r now (c # cs) b sel b'"
  by (auto simp: claim_result_def)

lemma claim_result_take:
  assumes "claim_result r now cs (claim_one r now c b) sel b'" "taskID c \<notin> taskID ` set cs"
  shows "claim_result r now (c # cs) b (c # sel) b'"
proof -
  have n: "bkNextID (claim_one r now c b) = bkNextID b + 1"
    and look: "map_of (bkTasks (claim_one r now c b)) i =
      (if i = taskID c then Some (lease_task r now (bkNextID b + 1) c) else map_of (bkTasks b) i)" for i
    by (simp_all add: claim_one_def Let_def)
  have "set sel \<subseteq> set cs" using assms(1) by (auto simp: claim_result_def elim: list_emb_set)
  then have "taskID c \<notin> taskID ` set sel" using assms(2) by auto
  then show ?thesis using assms(1) by (auto simp: claim_result_def n look)
qed

lemma claim_loop_result:
  assumes "claim_inv r now cs activeKeys b" "\<forall>c \<in> set cs. claimable r now c"
    "int (length claimed) \<le> clmLimit r"
  shows "\<exists>sel. fst (claim_loop r now cs activeKeys claimed b) = claimed @ leases r now (bkNextID b) sel
      \<and> int (length (claimed @ sel)) \<le> clmLimit r
      \<and> claim_result r now cs b sel (snd (claim_loop r now cs activeKeys claimed b))
      \<and> good now (snd (claim_loop r now cs activeKeys claimed b))"
  using assms
proof (induction cs arbitrary: activeKeys claimed b)
  case Nil
  then show ?case by (intro exI [of _ "[]"]) (auto simp: claim_inv_def)
next
  case (Cons c cs)
  have cb: "map_of (bkTasks b) (taskID c) = Some c" and d: "taskID c \<notin> taskID ` set cs"
    using Cons.prems(1) by (auto simp: claim_inv_def)
  note step = claim_loop_step [where b = b and c = c, OF cb, of r now cs activeKeys claimed]
  consider "int (length claimed) \<ge> clmLimit r"
    | "int (length claimed) < clmLimit r" "taskConcurrencyKey c \<noteq> [] \<and> concurrency_of c \<in> set activeKeys"
    | "int (length claimed) < clmLimit r" "\<not> (taskConcurrencyKey c \<noteq> [] \<and> concurrency_of c \<in> set activeKeys)"
    by linarith
  then show ?case
  proof cases
    case 1
    with Cons.prems show ?thesis by (intro exI [of _ "[]"]) (auto simp: step claim_inv_def)
  next
    case 2
    have run: "claim_loop r now (c # cs) activeKeys claimed b = claim_loop r now cs activeKeys claimed b"
      using 2 unfolding step by simp
    have "claim_inv r now cs activeKeys b" using Cons.prems(1) by (simp add: claim_inv_def)
    from Cons.IH [OF this _ Cons.prems(3)] Cons.prems(2) show ?thesis
      unfolding run using claim_result_skip by fastforce
  next
    case 3
    let ?keys = "if concurrency_of c \<noteq> [] then concurrency_of c # activeKeys else activeKeys"
    let ?t = "lease_task r now (bkNextID b + 1) c" and ?b = "claim_one r now c b"
    let ?run = "claim_loop r now cs ?keys (claimed @ [?t]) ?b"
    have run: "claim_loop r now (c # cs) activeKeys claimed b = ?run"
      using 3(1) by (simp only: step if_not_P [OF 3(2)] linorder_not_le if_not_P [of "clmLimit r \<le> int (length claimed)"])
    have "claim_inv r now cs ?keys ?b"
      using claim_one_inv [OF Cons.prems(1) _ 3(2)] Cons.prems(2) by simp
    moreover have "int (length (claimed @ [?t])) \<le> clmLimit r" using 3(1) by simp
    moreover have "bkNextID ?b = bkNextID b + 1" by (simp add: claim_one_def Let_def)
    ultimately obtain sel where sel:
      "fst ?run = (claimed @ [?t]) @ leases r now (bkNextID b + 1) sel"
      "int (length ((claimed @ [?t]) @ sel)) \<le> clmLimit r" "claim_result r now cs ?b sel (snd ?run)"
      "good now (snd ?run)"
      using Cons.IH [of ?keys ?b "claimed @ [?t]"] Cons.prems(2) by auto
    with run claim_result_take [OF sel(3) d] show ?thesis by (intro exI [of _ "c # sel"]) simp
  qed
qed

lemma active_keys_cover:
  assumes "store_ok b" "map_of (bkTasks b) i = Some t" "live_lease now t" "taskConcurrencyKey t \<noteq> []"
  shows "concurrency_of t \<in> set (active_keys now b)"
proof -
  have "t \<in> snd ` set (bkTasks b)" using map_of_SomeD [OF assms(2)] by force
  with assms show ?thesis by (auto simp: active_keys_def concurrency_of_def)
qed

lemma stored_tasks:
  assumes "store_ok b"
  shows "distinct (map taskID (map snd (bkTasks b)))"
    and "t \<in> set (map snd (bkTasks b)) \<longleftrightarrow> map_of (bkTasks b) (taskID t) = Some t"
proof -
  have w: "wf_map (bkTasks b)" by (rule store_okD(1) [OF assms])
  have id: "taskID t = i" if "(i, t) \<in> set (bkTasks b)" for i t
    using that store_okD(2) [OF assms] wf_map_mem [OF w] by (auto simp: task_ok_def)
  then have "map taskID (map snd (bkTasks b)) = map fst (bkTasks b)" by auto
  then show "distinct (map taskID (map snd (bkTasks b)))" using w by (simp only: wf_map_def)
  show "t \<in> set (map snd (bkTasks b)) \<longleftrightarrow> map_of (bkTasks b) (taskID t) = Some t"
  proof
    assume "t \<in> set (map snd (bkTasks b))"
    then obtain i where "(i, t) \<in> set (bkTasks b)" by auto
    with id [OF this] w show "map_of (bkTasks b) (taskID t) = Some t" by (simp add: wf_map_mem)
  next
    assume "map_of (bkTasks b) (taskID t) = Some t"
    then have "(taskID t, t) \<in> set (bkTasks b)" by (rule map_of_SomeD)
    then show "t \<in> set (map snd (bkTasks b))" by force
  qed
qed

lemma claim_start:
  assumes "good now b"
  shows "claim_inv r now (sort_key task_order (filter (claimable r now) (map snd (bkTasks b))))
           (active_keys now b) b"
proof -
  have s: "store_ok b" using assms by (simp add: good_def)
  have "distinct (map taskID (filter (claimable r now) (map snd (bkTasks b))))"
    using stored_tasks(1) [OF s] by (rule distinct_map_filter)
  then have "distinct (map taskID (sort_key task_order (filter (claimable r now) (map snd (bkTasks b)))))"
    by (simp add: distinct_map)
  then show ?thesis
    using assms active_keys_cover [OF s] stored_tasks(2) [OF s] by (auto simp: claim_inv_def)
qed

text \<open>The outcome of a valid claim, in one piece.\<close>

lemma ClaimTasks_result:
  assumes g: "good now b" and v: "ValidateTaskClaim r = None"
  shows "\<exists>sel b'. ClaimTasks None r now b = (Inr (leases r now (bkNextID b) sel), b')
      \<and> subseq sel (sort_key task_order (filter (claimable r now) (map snd (bkTasks b))))
      \<and> int (length sel) \<le> clmLimit r
      \<and> claim_result r now (sort_key task_order (filter (claimable r now) (map snd (bkTasks b)))) b sel b'
      \<and> good now b'"
proof -
  let ?cs = "sort_key task_order (filter (claimable r now) (map snd (bkTasks b)))"
  have "0 \<le> clmLimit r" using v by (auto simp: ValidateTaskClaim_def split: if_splits)
  with claim_loop_result [OF claim_start [OF g, of r], of "[]"] obtain sel where
    "fst (claim_loop r now ?cs (active_keys now b) [] b) = leases r now (bkNextID b) sel"
    "int (length sel) \<le> clmLimit r"
    "claim_result r now ?cs b sel (snd (claim_loop r now ?cs (active_keys now b) [] b))"
    "good now (snd (claim_loop r now ?cs (active_keys now b) [] b))" by auto
  moreover have "subseq sel ?cs" using calculation(3) by (simp add: claim_result_def)
  ultimately show ?thesis using v
    by (intro exI [of _ sel] exI [of _ "snd (claim_loop r now ?cs (active_keys now b) [] b)"])
      (simp add: ClaimTasks_def case_prod_beta prod_eq_iff)
qed

lemma ClaimTasks_good: "good now b \<Longrightarrow> good now (snd (ClaimTasks ctx r now b))"
proof (cases "ctx = None \<and> ValidateTaskClaim r = None")
  case True
  then show "good now b \<Longrightarrow> ?thesis" using ClaimTasks_result [of now b r] by auto
next
  case False
  then show "good now b \<Longrightarrow> ?thesis" by (cases ctx) (auto simp: ClaimTasks_def split: option.splits)
qed

section \<open>Leases as a contract\<close>

text \<open>
  What a client of leases may rely on, whatever the store: a token is issued once,
  only a new token can take a resource over, and so a token that has lost its
  resource never owns it again.
\<close>

locale leased_resource =
  fixes step :: "'s \<Rightarrow> 's \<Rightarrow> bool"
    and inv :: "'s \<Rightarrow> bool"
    and holder :: "'s \<Rightarrow> 'i \<Rightarrow> 'tok \<Rightarrow> bool"
    and issued :: "'s \<Rightarrow> 'tok \<Rightarrow> bool"
  assumes inv_step: "inv s \<Longrightarrow> step s s' \<Longrightarrow> inv s'"
    and issued_step: "inv s \<Longrightarrow> step s s' \<Longrightarrow> issued s x \<Longrightarrow> issued s' x"
    and holder_issued: "inv s \<Longrightarrow> holder s i x \<Longrightarrow> issued s x"
    and fresh: "inv s \<Longrightarrow> step s s' \<Longrightarrow> holder s' i x \<Longrightarrow> holder s i x \<or> \<not> issued s x"
begin

lemma inv_steps: "step\<^sup>*\<^sup>* s s' \<Longrightarrow> inv s \<Longrightarrow> inv s'"
  by (induction rule: rtranclp_induct) (auto intro: inv_step)

lemma issued_steps: "step\<^sup>*\<^sup>* s s' \<Longrightarrow> inv s \<Longrightarrow> issued s x \<Longrightarrow> issued s' x"
  by (induction rule: rtranclp_induct) (auto intro: issued_step inv_steps)

lemma retired_stays: "step\<^sup>*\<^sup>* s s' \<Longrightarrow> inv s \<Longrightarrow> issued s x \<Longrightarrow> \<not> holder s i x \<Longrightarrow> \<not> holder s' i x"
proof (induction rule: rtranclp_induct)
  case (step y z)
  then have "inv y" "issued y x" by (auto intro: inv_steps issued_steps)
  with step fresh [of y z i x] show ?case by auto
qed

lemma takeover:
  assumes "inv s" "holder s i x" "step\<^sup>*\<^sup>* s s'" "\<not> holder s' i x" "step\<^sup>*\<^sup>* s' s''"
  shows "\<not> holder s'' i x"
  using assms retired_stays [of s' s'' x i] inv_steps [of s s'] issued_steps [of s s' x]
    holder_issued [of s i x] by blast

end

section \<open>A store used by workers\<close>

inductive task_step :: "time \<times> backend \<Rightarrow> time \<times> backend \<Rightarrow> bool" where
  step_enqueue: "now \<le> now' \<Longrightarrow> task_step (now, b) (now', snd (EnqueueTask ctx t now' b))"
| step_claim: "now \<le> now' \<Longrightarrow> task_step (now, b) (now', snd (ClaimTasks ctx r now' b))"
| step_heartbeat: "now \<le> now' \<Longrightarrow> task_step (now, b) (now', snd (HeartbeatTask ctx i x d now' b))"
| step_complete: "now \<le> now' \<Longrightarrow> task_step (now, b) (now', snd (CompleteTask ctx i x out now' b))"
| step_fail: "now \<le> now' \<Longrightarrow> task_step (now, b) (now', snd (FailTask ctx f now' b))"
| step_release: "now \<le> now' \<Longrightarrow> task_step (now, b) (now', snd (ReleaseTask ctx i x d code msg now' b))"
| step_cancel: "now \<le> now' \<Longrightarrow> task_step (now, b) (now', snd (CancelTask ctx i now' b))"
| step_dismiss: "now \<le> now' \<Longrightarrow> task_step (now, b) (now', snd (DismissTaskForTarget ctx i slug target b))"
| step_prune: "now \<le> now' \<Longrightarrow> task_step (now, b) (now', snd (PruneTasks ctx limit now' b))"
| step_other: "now \<le> now' \<Longrightarrow> bkTasks b' = bkTasks b \<Longrightarrow> bkNextID b \<le> bkNextID b' \<Longrightarrow>
    task_step (now, b) (now', b')"

inductive_cases task_stepE: "task_step (now, b) s"

definition good_state :: "time \<times> backend \<Rightarrow> bool" where
  "good_state s = good (fst s) (snd s)"

definition reachable_store :: "time \<Rightarrow> backend \<Rightarrow> bool" where
  "reachable_store now b \<longleftrightarrow> (\<exists>t0. task_step\<^sup>*\<^sup>* (t0, New) (now, b))"

lemma good_mono: "good now b \<Longrightarrow> now \<le> now' \<Longrightarrow> good now' b"
  by (auto simp: good_def intro: leases_ok_mono)

lemma good_other:
  assumes "good now b" "bkTasks b' = bkTasks b" "bkNextID b \<le> bkNextID b'"
  shows "good now b'"
proof -
  have s: "store_ok b" using assms(1) by (simp add: good_def)
  have "store_ok b'"
    by (rule store_ok_step [OF s])
      (simp_all add: assms(2,3) store_okD(1) [OF s] holds_token_def)
  moreover have "leases_ok now b" using assms(1) by (simp add: good_def)
  then have "leases_ok now b'" unfolding leases_ok_def assms(2) .
  ultimately show ?thesis by (simp add: good_def)
qed

lemmas op_good = EnqueueTask_good [OF good_mono] ClaimTasks_good [OF good_mono]
  HeartbeatTask_good [OF good_mono] CompleteTask_good [OF good_mono] FailTask_good [OF good_mono]
  ReleaseTask_good [OF good_mono] CancelTask_good [OF good_mono] PruneTasks_good [OF good_mono]
  DismissTaskForTarget_good [OF good_mono] good_other [OF good_mono]

lemma task_step_good: "task_step s s' \<Longrightarrow> good_state s \<Longrightarrow> good_state s'"
  by (induction rule: task_step.induct) (auto simp: good_state_def intro: op_good)

lemma New_good: "good now New"
  by (simp add: good_def store_ok_def leases_ok_def New_def holds_token_def)

subsection \<open>Who may hold a task\<close>

definition issued_token :: "backend \<Rightarrow> string \<Rightarrow> bool" where
  "issued_token b x \<longleftrightarrow> (\<exists>k \<le> bkNextID b. x = lease_name k)"

lemma holds_put [simp]:
  "holds_token (b\<lparr>bkTasks := put i t m\<rparr>) j x =
     (if j = i then taskState t = TaskStateRunning \<and> taskLeaseToken t = x
      else holds_token (b\<lparr>bkTasks := m\<rparr>) j x)"
  by (simp add: holds_token_def)

lemma holds_del: "holds_token (b\<lparr>bkTasks := del i m\<rparr>) j x \<Longrightarrow> holds_token (b\<lparr>bkTasks := m\<rparr>) j x"
  by (simp add: holds_token_def split: if_splits)

lemma holds_same [simp]: "holds_token (b\<lparr>bkTasks := bkTasks b\<rparr>) j x = holds_token b j x"
  by simp

lemma holds_fold_del:
  "holds_token (b\<lparr>bkTasks := fold del ids m\<rparr>) j x \<Longrightarrow> holds_token (b\<lparr>bkTasks := m\<rparr>) j x"
proof (induction ids arbitrary: m)
  case (Cons i ids)
  then have "holds_token (b\<lparr>bkTasks := del i m\<rparr>) j x" by simp
  then show ?case by (rule holds_del)
qed simp

lemma owned_holds: "activeTaskLease (map_of (bkTasks b) i) x now \<Longrightarrow> holds_token b i x"
  by (auto simp: activeTaskLease_live holds_token_def live_lease_def)

lemma owned_state: "activeTaskLease (map_of (bkTasks b) i) x now \<Longrightarrow>
    taskState (the (map_of (bkTasks b) i)) = TaskStateRunning \<and> taskLeaseToken (the (map_of (bkTasks b) i)) = x"
  by (auto simp: activeTaskLease_live live_lease_def)

lemma leases_tokens:
  "t \<in> set (leases r now n sel) \<Longrightarrow> \<exists>k. n < k \<and> k \<le> n + length sel \<and> taskLeaseToken t = lease_name k"
proof (induction sel arbitrary: n)
  case (Cons c cs)
  show ?case
  proof (cases "t = lease_task r now (n + 1) c")
    case True
    then show ?thesis by (intro exI [of _ "n + 1"]) simp
  next
    case False
    with Cons.prems have "t \<in> set (leases r now (n + 1) cs)" by simp
    from Cons.IH [OF this] obtain k where "n + 1 < k" "k \<le> n + 1 + length cs"
      "taskLeaseToken t = lease_name k" by blast
    then show ?thesis by (intro exI [of _ k]) simp
  qed
qed simp

lemma claim_holders:
  assumes g: "good now b" and h: "holds_token (snd (ClaimTasks ctx r now b)) i x"
  shows "holds_token b i x \<or> \<not> issued_token b x"
proof (cases "ctx = None \<and> ValidateTaskClaim r = None")
  case True
  from ClaimTasks_result [OF g conjunct2 [OF True]] obtain sel b' cs where
    "ClaimTasks None r now b = (Inr (leases r now (bkNextID b) sel), b')"
    "claim_result r now cs b sel b'" by blast
  with True have r: "ClaimTasks ctx r now b = (Inr (leases r now (bkNextID b) sel), b')"
    "claim_result r now cs b sel b'" by simp_all
  then have unch: "i \<notin> taskID ` set sel \<Longrightarrow> map_of (bkTasks b') i = map_of (bkTasks b) i"
    and chg: "\<And>t. t \<in> set (leases r now (bkNextID b) sel) \<Longrightarrow> map_of (bkTasks b') (taskID t) = Some t"
    by (auto simp: claim_result_def)
  show ?thesis
  proof (cases "i \<in> taskID ` set sel")
    case True
    then have "i \<in> taskID ` set (leases r now (bkNextID b) sel)" by simp
    then obtain t where t: "t \<in> set (leases r now (bkNextID b) sel)" "taskID t = i" by blast
    with chg [OF t(1)] h r have "x = taskLeaseToken t" by (simp add: holds_token_def)
    with leases_tokens [OF t(1)] show ?thesis by (auto simp: issued_token_def)
  next
    case False
    with unch h r show ?thesis by (simp add: holds_token_def)
  qed
next
  case False
  with h show ?thesis by (cases ctx) (auto simp: ClaimTasks_def split: option.splits)
qed

lemma enqueue_holders: "holds_token (snd (EnqueueTask ctx t now b)) i x \<Longrightarrow> holds_token b i x"
  by (cases ctx) (auto simp: EnqueueTask_def Let_def holds_token_def split: option.splits if_splits)

lemma owned_put_holders:
  assumes "holds_token (b\<lparr>bkTasks := put i t' (bkTasks b)\<rparr>) j y"
    "activeTaskLease (map_of (bkTasks b) i) x now"
    "taskState t' = TaskStateRunning \<Longrightarrow> taskLeaseToken t' = taskLeaseToken (the (map_of (bkTasks b) i))"
  shows "holds_token b j y"
  using assms owned_state [OF assms(2)] owned_holds [OF assms(2)] by (auto simp: holds_token_def split: if_splits)

lemma other_holders:
  "holds_token (snd (HeartbeatTask ctx i y d now b)) j x \<Longrightarrow> holds_token b j x"
  "holds_token (snd (CompleteTask ctx i y out now b)) j x \<Longrightarrow> holds_token b j x"
  "holds_token (snd (ReleaseTask ctx i y d code msg now b)) j x \<Longrightarrow> holds_token b j x"
  "holds_token (snd (CancelTask ctx i now b)) j x \<Longrightarrow> holds_token b j x"
  "holds_token (snd (DismissTaskForTarget ctx i slug target b)) j x \<Longrightarrow> holds_token b j x"
  "holds_token (snd (PruneTasks ctx limit now b)) j x \<Longrightarrow> holds_token b j x"
proof goal_cases
  case 1
  then show ?case by (cases ctx)
    (auto simp: HeartbeatTask_def Let_def split: option.splits if_splits simp del: holds_put
      dest: owned_put_holders)
next
  case 2
  then show ?case by (cases ctx)
    (auto simp: CompleteTask_def Let_def split: option.splits if_splits simp del: holds_put
      dest: owned_put_holders)
next
  case 3
  then show ?case by (cases ctx)
    (auto simp: ReleaseTask_def Let_def split: option.splits if_splits simp del: holds_put
      dest: owned_put_holders)
next
  case 4
  then show ?case by (cases ctx)
    (auto simp: CancelTask_def cancelTask_def holds_token_def split: option.splits if_splits)
next
  case 5
  then show ?case by (cases ctx)
    (auto simp: DismissTaskForTarget_def holds_token_def split: option.splits if_splits)
next
  case 6
  then show ?case by (cases ctx)
    (auto simp: PruneTasks_def Let_def dest: holds_fold_del split: option.splits if_splits)
qed

lemma fail_holders: "good now b \<Longrightarrow> holds_token (snd (FailTask ctx f now b)) j x \<Longrightarrow> holds_token b j x"
proof (cases "ctx = None \<and> ValidateTaskFailure f = None
    \<and> activeTaskLease (map_of (bkTasks b) (flrID f)) (flrLeaseToken f) now")
  case True
  then obtain t where t: "map_of (bkTasks b) (flrID f) = Some t" by (auto simp: activeTaskLease_live)
  assume "good now b" "holds_token (snd (FailTask ctx f now b)) j x"
  with True t good_lookup [OF _ t, of now] show ?thesis
    by (auto simp: FailTask_alt Let_def task_ok_def holds_token_def split: if_splits)
next
  case False
  then show "holds_token (snd (FailTask ctx f now b)) j x \<Longrightarrow> ?thesis"
    by (cases ctx) (auto simp: FailTask_alt FailTask_def [of "Some _"] split: option.splits if_splits)
qed

lemma next_id_mono:
  "bkNextID b \<le> bkNextID (snd (EnqueueTask ctx t now b))"
  "bkNextID (snd (HeartbeatTask ctx i x d now b)) = bkNextID b"
  "bkNextID (snd (CompleteTask ctx i x out now b)) = bkNextID b"
  "bkNextID (snd (FailTask ctx f now b)) = bkNextID b"
  "bkNextID (snd (ReleaseTask ctx i x d code msg now b)) = bkNextID b"
  "bkNextID (snd (CancelTask ctx i now b)) = bkNextID b"
  "bkNextID (snd (DismissTaskForTarget ctx i slug target b)) = bkNextID b"
  "bkNextID (snd (PruneTasks ctx limit now b)) = bkNextID b"
  by (cases ctx; simp add: EnqueueTask_def HeartbeatTask_def CompleteTask_def FailTask_def ReleaseTask_def
      CancelTask_def cancelTask_def DismissTaskForTarget_def PruneTasks_def Let_def
      split: option.splits)+

lemma claim_next_id: "good now b \<Longrightarrow> bkNextID b \<le> bkNextID (snd (ClaimTasks ctx r now b))"
proof (cases "ctx = None \<and> ValidateTaskClaim r = None")
  case True
  then show "good now b \<Longrightarrow> ?thesis"
    using ClaimTasks_result [of now b r] by (auto simp: claim_result_def)
next
  case False
  then show ?thesis by (cases ctx) (auto simp: ClaimTasks_def split: option.splits)
qed

interpretation task_leases: leased_resource task_step good_state "\<lambda>s. holds_token (snd s)" "\<lambda>s. issued_token (snd s)"
proof unfold_locales
  fix s s' :: "time \<times> backend" and x i :: string
  show "good_state s \<Longrightarrow> task_step s s' \<Longrightarrow> good_state s'" by (rule task_step_good)
  show "good_state s \<Longrightarrow> task_step s s' \<Longrightarrow> issued_token (snd s) x \<Longrightarrow> issued_token (snd s') x"
  proof -
    assume g: "good_state s" and st: "task_step s s'" and x: "issued_token (snd s) x"
    have "bkNextID (snd s) \<le> bkNextID (snd s')"
      using st g by (cases rule: task_step.cases)
        (auto simp: next_id_mono good_state_def intro: claim_next_id [OF good_mono])
    moreover from x obtain k where "k \<le> bkNextID (snd s)" "x = lease_name k"
      by (auto simp: issued_token_def)
    ultimately show ?thesis unfolding issued_token_def by (intro exI [of _ k]) simp
  qed
  show "good_state s \<Longrightarrow> holds_token (snd s) i x \<Longrightarrow> issued_token (snd s) x"
    using good_lookup [of "fst s" "snd s" i]
    by (auto simp: good_state_def holds_token_def issued_token_def task_ok_def split: option.splits)
  show "good_state s \<Longrightarrow> task_step s s' \<Longrightarrow> holds_token (snd s') i x \<Longrightarrow>
      holds_token (snd s) i x \<or> \<not> issued_token (snd s) x"
  proof -
    assume g: "good_state s" and st: "task_step s s'" and h: "holds_token (snd s') i x"
    from st g h show ?thesis
    proof (cases rule: task_step.cases)
      case (step_claim now now' b ctx r)
      with g h claim_holders [OF good_mono, of now b now' ctx r i x] show ?thesis
        by (simp add: good_state_def)
    next
      case (step_fail now now' b ctx f)
      with g h fail_holders [OF good_mono, of now b now' ctx f i x] show ?thesis
        by (simp add: good_state_def)
    next
      case (step_other now now' b' b)
      with h show ?thesis by (simp add: holds_token_def)
    qed (auto dest: other_holders enqueue_holders)
  qed
qed

section \<open>Completeness and order independence of claims\<close>

lemma claim_loop_complete:
  "claim_inv r now cs activeKeys b \<Longrightarrow> \<forall>c \<in> set cs. claimable r now c \<Longrightarrow>
   claim_loop r now cs activeKeys claimed b = (claimed', b') \<Longrightarrow> int (length claimed') < clmLimit r \<Longrightarrow>
   set claimed \<subseteq> set claimed'
   \<and> (\<forall>c \<in> set cs. taskID c \<in> taskID ` set claimed'
        \<or> taskConcurrencyKey c \<noteq> []
          \<and> concurrency_of c \<in> set activeKeys \<union> concurrency_of ` set claimed')"
proof (induction cs arbitrary: activeKeys claimed b)
  case (Cons c cs)
  have cb: "map_of (bkTasks b) (taskID c) = Some c" using Cons.prems(1) by (auto simp: claim_inv_def)
  note step = claim_loop_step [where b = b and c = c, OF cb, of r now cs activeKeys claimed]
  have lim: "\<not> clmLimit r \<le> int (length claimed)"
    using Cons.prems(3,4) unfolding step by (auto split: if_splits)
  show ?case
  proof (cases "taskConcurrencyKey c \<noteq> [] \<and> concurrency_of c \<in> set activeKeys")
    case True
    have "claim_inv r now cs activeKeys b" using Cons.prems(1) by (simp add: claim_inv_def)
    moreover have "claim_loop r now cs activeKeys claimed b = (claimed', b')"
      using Cons.prems(3) lim True unfolding step by simp
    ultimately show ?thesis using Cons.IH [of activeKeys b claimed] Cons.prems(2,4) True by simp
  next
    case False
    let ?keys = "if concurrency_of c \<noteq> [] then concurrency_of c # activeKeys else activeKeys"
    let ?t = "lease_task r now (bkNextID b + 1) c"
    have run: "claim_loop r now cs ?keys (claimed @ [?t]) (claim_one r now c b) = (claimed', b')"
      using Cons.prems(3) lim unfolding step if_not_P [OF False] by simp
    have inv: "claim_inv r now cs ?keys (claim_one r now c b)"
      using claim_one_inv [OF Cons.prems(1) _ False] Cons.prems(2) by simp
    have "\<forall>c \<in> set cs. claimable r now c" using Cons.prems(2) by simp
    from Cons.IH [OF inv this run Cons.prems(4)]
    have ih: "set (claimed @ [?t]) \<subseteq> set claimed'"
      "\<forall>c \<in> set cs. taskID c \<in> taskID ` set claimed' \<or> taskConcurrencyKey c \<noteq> []
          \<and> concurrency_of c \<in> set ?keys \<union> concurrency_of ` set claimed'" by blast+
    have t: "?t \<in> set claimed'" using ih(1) by simp
    then have "taskID c \<in> taskID ` set claimed'" "concurrency_of c \<in> concurrency_of ` set claimed'"
      by (metis imageI lease_task_simps(1), metis imageI lease_task_simps(8))
    with ih show ?thesis by (auto split: if_splits)
  qed
qed simp

lemma claim_loop_cong:
  "map_of (bkTasks b1) = map_of (bkTasks b2) \<Longrightarrow> bkNextID b1 = bkNextID b2 \<Longrightarrow> set k1 = set k2 \<Longrightarrow>
   fst (claim_loop r now cs k1 claimed b1) = fst (claim_loop r now cs k2 claimed b2)"
proof (induction cs arbitrary: k1 k2 claimed b1 b2)
  case (Cons c cs)
  let ?t = "lease_task r now (bkNextID b1 + 1)
     (case map_of (bkTasks b1) (taskID c) of Some t \<Rightarrow> t | None \<Rightarrow> zero_task)"
  let ?put = "\<lambda>b. b\<lparr>bkNextID := bkNextID b1 + 1, bkTasks := put (taskID ?t) ?t (bkTasks b)\<rparr>"
  have "map_of (bkTasks (?put b1)) = map_of (bkTasks (?put b2))" using Cons.prems(1) by auto
  then have "fst (claim_loop r now cs k1' (claimed @ [?t]) (?put b1)) =
      fst (claim_loop r now cs k2' (claimed @ [?t]) (?put b2))" if "set k1' = set k2'" for k1' k2'
    using that by (intro Cons.IH) simp_all
  moreover have "fst (claim_loop r now cs k1 claimed b1) = fst (claim_loop r now cs k2 claimed b2)"
    by (rule Cons.IH [OF Cons.prems])
  moreover have "set (concurrency_of c # k1) = set (concurrency_of c # k2)" using Cons.prems(3) by simp
  ultimately show ?case
    using Cons.prems by (cases "concurrency_of c = []") (simp_all add: claim_loop.simps(2) Let_def)
qed simp

lemma sorted_tasks_perm:
  assumes "mset (bkTasks b1) = mset (bkTasks b2)" "store_ok b1"
  shows "sort_key task_order (filter P (map snd (bkTasks b1))) =
         sort_key task_order (filter P (map snd (bkTasks b2)))"
proof (rule sort_key_perm_unique)
  show "mset (filter P (map snd (bkTasks b1))) = mset (filter P (map snd (bkTasks b2)))"
    using assms(1) by (metis mset_filter mset_map)
  have "inj_on taskID (set (map snd (bkTasks b1)))"
    by (rule conjunct2 [OF iffD1 [OF distinct_map stored_tasks(1) [OF assms(2)]]])
  then show "inj_on task_order (set (filter P (map snd (bkTasks b1))))"
    by (auto simp: inj_on_def task_order_def)
qed

lemma store_ok_perm:
  assumes "mset (bkTasks b1) = mset (bkTasks b2)" "store_ok b1"
  shows "map_of (bkTasks b1) = map_of (bkTasks b2)"
proof (rule map_of_inject_set [THEN iffD2])
  have w: "wf_map (bkTasks b1)" by (rule store_okD(1) [OF assms(2)])
  then show "distinct (map fst (bkTasks b1))" by (simp add: wf_map_def)
  show "set (bkTasks b1) = set (bkTasks b2)" using assms(1) by (rule mset_eq_setD)
  have "mset (map fst (bkTasks b1)) = mset (map fst (bkTasks b2))" using assms(1) by simp
  with w show "distinct (map fst (bkTasks b2))" unfolding wf_map_def by (metis mset_eq_imp_distinct_iff)
qed

section \<open>Terminal tasks\<close>

lemma subseq_mem: "subseq xs ys \<Longrightarrow> x \<in> set xs \<Longrightarrow> x \<in> set ys"
  by (auto elim: list_emb_set)

definition removable :: "time \<Rightarrow> task \<Rightarrow> bool" where
  "removable now t \<longleftrightarrow> prunable now t \<or> dismissibleTaskState (taskState t)"

lemma fold_del_lookup: "map_of (fold del ids m) i = (if i \<in> set ids then None else map_of m i)"
  by (induction ids arbitrary: m) auto

lemma terminal_not_owned: "map_of (bkTasks b) i = Some t \<Longrightarrow> terminal (taskState t) \<Longrightarrow>
    \<not> activeTaskLease (map_of (bkTasks b) i) x now"
  by (auto simp: activeTaskLease_def terminal_def)

lemma terminal_kept:
  assumes g: "good now b" and t: "map_of (bkTasks b) i = Some t" "terminal (taskState t)"
  shows "map_of (bkTasks (snd (EnqueueTask ctx u now b))) i = Some t"
    "map_of (bkTasks (snd (ClaimTasks ctx r now b))) i = Some t"
    "map_of (bkTasks (snd (HeartbeatTask ctx j x d now b))) i = Some t"
    "map_of (bkTasks (snd (CompleteTask ctx j x out now b))) i = Some t"
    "map_of (bkTasks (snd (FailTask ctx f now b))) i = Some t"
    "map_of (bkTasks (snd (ReleaseTask ctx j x d code msg now b))) i = Some t"
    "map_of (bkTasks (snd (CancelTask ctx j now b))) i = Some t"
    "map_of (bkTasks (snd (DismissTaskForTarget ctx j slug target b))) i \<in> {Some t}
       \<union> (if dismissibleTaskState (taskState t) then {None} else {})"
    "map_of (bkTasks (snd (PruneTasks ctx limit now b))) i \<in> {Some t} \<union> (if prunable now t then {None} else {})"
proof -
  have s: "store_ok b" using g by (simp add: good_def)
  note no = terminal_not_owned [OF t]
  show "map_of (bkTasks (snd (EnqueueTask ctx u now b))) i = Some t"
    using t fresh_task [OF s] by (cases ctx) (auto simp: EnqueueTask_def Let_def split: option.splits)
  show "map_of (bkTasks (snd (HeartbeatTask ctx j x d now b))) i = Some t"
    using t no by (cases ctx; cases "j = i") (auto simp: HeartbeatTask_def Let_def split: option.splits)
  show "map_of (bkTasks (snd (CompleteTask ctx j x out now b))) i = Some t"
    using t no by (cases ctx; cases "j = i") (auto simp: CompleteTask_def Let_def split: option.splits)
  show "map_of (bkTasks (snd (ReleaseTask ctx j x d code msg now b))) i = Some t"
    using t no by (cases ctx; cases "j = i") (auto simp: ReleaseTask_def Let_def split: option.splits)
  show "map_of (bkTasks (snd (CancelTask ctx j now b))) i = Some t"
    using t by (cases ctx; cases "j = i")
      (auto simp: CancelTask_def cancelTask_def terminal_def split: option.splits)
  show "map_of (bkTasks (snd (DismissTaskForTarget ctx j slug target b))) i \<in> {Some t}
       \<union> (if dismissibleTaskState (taskState t) then {None} else {})"
    using t by (cases ctx; cases "j = i") (auto simp: DismissTaskForTarget_def split: option.splits)
  show "map_of (bkTasks (snd (FailTask ctx f now b))) i = Some t"
  proof (cases "ctx = None \<and> ValidateTaskFailure f = None
      \<and> activeTaskLease (map_of (bkTasks b) (flrID f)) (flrLeaseToken f) now")
    case True
    then obtain u where u: "map_of (bkTasks b) (flrID f) = Some u" by (auto simp: activeTaskLease_live)
    have "flrID f \<noteq> i" using True no by auto
    moreover have "taskID u = flrID f" using good_lookup [OF g u] by (simp add: task_ok_def)
    ultimately show ?thesis using True u t by (simp add: FailTask_alt Let_def)
  next
    case False
    then show ?thesis using t by (cases ctx)
      (auto simp: FailTask_alt FailTask_def [of "Some _"] split: option.splits)
  qed
  show "map_of (bkTasks (snd (ClaimTasks ctx r now b))) i = Some t"
  proof (cases "ctx = None \<and> ValidateTaskClaim r = None")
    case True
    from ClaimTasks_result [OF g conjunct2 [OF True]] obtain sel b' where
      c: "ClaimTasks None r now b = (Inr (leases r now (bkNextID b) sel), b')"
      "subseq sel (sort_key task_order (filter (claimable r now) (map snd (bkTasks b))))"
      "\<forall>j. j \<notin> taskID ` set sel \<longrightarrow> map_of (bkTasks b') j = map_of (bkTasks b) j"
      by (auto simp: claim_result_def)
    have "i \<notin> taskID ` set sel"
    proof
      assume "i \<in> taskID ` set sel"
      then obtain c where "c \<in> set sel" "taskID c = i" by blast
      with c(2) have "claimable r now c" "c \<in> set (map snd (bkTasks b))"
        by (auto dest: subseq_mem)
      with stored_tasks(2) [OF s] \<open>taskID c = i\<close> t have "claimable r now t" by simp
      with t(2) show False by (auto simp: claimable_def terminal_def)
    qed
    with c True t show ?thesis by simp
  next
    case False
    with t show ?thesis by (cases ctx) (auto simp: ClaimTasks_def split: option.splits)
  qed
  show "map_of (bkTasks (snd (PruneTasks ctx limit now b))) i \<in> {Some t} \<union> (if prunable now t then {None} else {})"
  proof (cases "prunable now t")
    case False
    have "i \<notin> fst ` set (filter (\<lambda>(i, t). prunable now t) (bkTasks b))"
      using t(1) False store_okD(1) [OF s] by (auto simp: wf_map_mem)
    then have "i \<notin> set (take k (sort (map fst (filter (\<lambda>(i, t). prunable now t) (bkTasks b)))))" for k
      by (auto dest: in_set_takeD)
    with t show ?thesis by (cases ctx) (auto simp: PruneTasks_def Let_def fold_del_lookup split: option.splits)
  next
    case True
    with t show ?thesis by (cases ctx) (auto simp: PruneTasks_def Let_def fold_del_lookup split: option.splits)
  qed
qed

end
