(* ===== verification/Task_Properties.thy ===== *)
theory Task_Properties
  imports Task_Store
begin

text \<open>
  What the durable task queue guarantees its workers, over every reachable state of
  the in-memory store: the shape of stored tasks, mutual exclusion per concurrency
  key, fencing of lost leases, the outcome of a claim, the finality of terminal
  tasks, and independence of Go's map iteration order.
\<close>

lemma reachable_good: "reachable_store now b \<Longrightarrow> good now b"
  using task_leases.inv_steps New_good by (fastforce simp: reachable_store_def good_state_def)

section \<open>A concrete run\<close>

text \<open>
  One task is enqueued at time 1, claimed for a second, and claimed again by another
  worker once that lease has run out.
\<close>

definition example_task :: task where
  "example_task = zero_task\<lparr>taskSlug := ''send-mail'', taskQueue := ''default'',
     taskConcurrencyKey := ''user'', taskInput := ''1'', taskRunAt := 1, taskMaxAttempts := 3,
     taskRetryDelay := Second, taskMaxRetryDelay := Minute, taskBackoff := TaskBackoffFixed,
     taskTimeout := Minute, taskRetention := Hour\<rparr>"

definition example_claim :: task_claim where
  "example_claim = \<lparr>clmLimit = 5, clmQueues = [], clmSlugs = [], clmLeaseDuration = Second\<rparr>"

definition store1 :: backend where "store1 = snd (EnqueueTask None example_task 1 New)"
definition store2 :: backend where "store2 = snd (ClaimTasks None example_claim 1 store1)"
definition store3 :: backend where "store3 = snd (ClaimTasks None example_claim (2 * Second) store2)"
definition store4 :: backend where "store4 = snd (CompleteTask None ''task_1'' ''lease_3'' ''2'' (2 * Second) store3)"

lemma example_steps:
  "task_step\<^sup>*\<^sup>* (1, store2) (2 * Second, store3)"
  "task_step\<^sup>*\<^sup>* (2 * Second, store3) (2 * Second, store4)"
  "reachable_store 1 store2" "reachable_store (2 * Second) store3" "reachable_store (2 * Second) store4"
proof -
  have 1: "task_step (0, New) (1, store1)" unfolding store1_def by (rule step_enqueue) simp
  have 2: "task_step (1, store1) (1, store2)" unfolding store2_def by (rule step_claim) simp
  have 3: "task_step (1, store2) (2 * Second, store3)"
    unfolding store3_def by (rule step_claim) (simp add: duration_defs)
  have 4: "task_step (2 * Second, store3) (2 * Second, store4)"
    unfolding store4_def by (rule step_complete) simp
  show "task_step\<^sup>*\<^sup>* (1, store2) (2 * Second, store3)" using 3 by blast
  show "task_step\<^sup>*\<^sup>* (2 * Second, store3) (2 * Second, store4)" using 4 by blast
  show "reachable_store 1 store2" unfolding reachable_store_def
    using 1 2 by (meson r_into_rtranclp rtranclp.rtrancl_into_rtrancl)
  then show "reachable_store (2 * Second) store3" unfolding reachable_store_def
    using 3 by (meson rtranclp.rtrancl_into_rtrancl)
  then show "reachable_store (2 * Second) store4" unfolding reachable_store_def
    using 4 by (meson rtranclp.rtrancl_into_rtrancl)
qed

definition task_q :: task where
  "task_q = example_task\<lparr>taskID := ''task_1'', taskState := TaskStateQueued, taskCreatedAt := 1,
     taskUpdatedAt := 1\<rparr>"

definition holding :: "nat \<Rightarrow> task \<Rightarrow> backend" where
  "holding n t = New\<lparr>bkNextID := n, bkTasks := [(''task_1'', t)]\<rparr>"

lemma example_valid:
  "ValidateTaskAdmission example_task = None" "ValidateTaskClaim example_claim = None"
  "ValidateTaskPayload ''2'' = None" "task_name 1 = ''task_1''"
  "lease_name 2 = ''lease_2''" "lease_name 3 = ''lease_3''"
  by code_simp+

lemma example_fields [simp]:
  "taskTarget example_task = None" "taskRequestedBy example_task = None"
  "clmLimit example_claim = 5" "clmLeaseDuration example_claim = Second"
  by (simp_all add: example_task_def zero_task_def example_claim_def)

lemma New_fields [simp]: "bkTasks New = []" "bkNextID New = 0"
  by (simp_all add: New_def)

lemma store1_eq: "store1 = holding 1 task_q"
  unfolding store1_def EnqueueTask_def example_valid
  using example_valid(4) [simplified]
  by (simp add: no_active_reference_def holding_def task_q_def put_def Let_def example_task_def zero_task_def)

lemma claim_holding:
  assumes "claimable example_claim now t" "taskID t = ''task_1''" "\<not> live_lease now t"
  shows "ClaimTasks None example_claim now (holding n t) =
    (Inr [lease_task example_claim now (Suc n) t], holding (Suc n) (lease_task example_claim now (Suc n) t))"
  using assms
  by (simp add: ClaimTasks_def example_valid holding_def active_keys_def claim_loop.simps(2) put_def Let_def)

lemma store2_eq: "store2 = holding 2 (lease_task example_claim 1 2 task_q)"
  unfolding store2_def store1_eq
  by (subst claim_holding) (simp_all add: claimable_def live_lease_def task_q_def example_task_def
      example_claim_def zero_task_def numeral_2_eq_2)

definition task_l :: task where
  "task_l = lease_task example_claim (2 * Second) 3 (lease_task example_claim 1 2 task_q)"

lemma store3_eq: "store3 = holding 3 task_l"
  unfolding store3_def store2_eq task_l_def
  by (subst claim_holding) (simp_all add: claimable_def live_lease_def task_q_def example_task_def
      example_claim_def zero_task_def numeral_3_eq_3 duration_defs)

definition task_s :: task where
  "task_s = task_l\<lparr>taskState := TaskStateSucceeded, taskOutput := ''2'', taskLeaseToken := [],
     taskLeaseExpiresAt := None, taskUpdatedAt := 2 * Second, taskCompletedAt := Some (2 * Second),
     taskRetainUntil := Some (2 * Second + Hour)\<rparr>"

lemma store4_eq: "store4 = holding 3 task_s"
  unfolding store4_def store3_eq
  by (simp add: CompleteTask_def example_valid holding_def activeTaskLease_def task_l_def task_s_def
      put_def lease_task_def task_q_def example_task_def example_claim_def zero_task_def duration_defs Let_def)

lemma example_holders:
  "holds_token store2 ''task_1'' ''lease_2''" "\<not> holds_token store3 ''task_1'' ''lease_2''"
  by (simp_all add: store2_eq store3_eq holding_def holds_token_def example_valid task_l_def)

section \<open>Properties\<close>

text \<open>
  C18. In every reachable state, a stored task is filed under the ID the store issued
  for it, holds a lease token and an expiry exactly while it is running, has a
  completion and a retention time exactly when it is terminal, and shares its lease
  token with no other task.
\<close>

theorem reachable_tasks_are_well_formed:
  assumes "reachable_store now b" "map_of (bkTasks b) i = Some t"
  shows "taskID t = i
    \<and> (taskState t = TaskStateRunning) = (taskLeaseToken t \<noteq> [])
    \<and> (taskState t = TaskStateRunning) = (taskLeaseExpiresAt t \<noteq> None)
    \<and> terminal (taskState t) = (taskCompletedAt t \<noteq> None)
    \<and> terminal (taskState t) = (taskRetainUntil t \<noteq> None)
    \<and> validTaskState (taskState t)
    \<and> (\<forall>j u. map_of (bkTasks b) j = Some u \<longrightarrow> taskState t = TaskStateRunning \<longrightarrow>
          taskState u = TaskStateRunning \<longrightarrow> taskLeaseToken u = taskLeaseToken t \<longrightarrow> j = i)"
proof -
  have g: "good now b" using assms(1) by (rule reachable_good)
  have s: "store_ok b" using g by (simp add: good_def)
  have "j = i" if "map_of (bkTasks b) j = Some u" "taskState t = TaskStateRunning"
      "taskState u = TaskStateRunning" "taskLeaseToken u = taskLeaseToken t" for j u
    using that assms(2) store_okD(3) [OF s, of j "taskLeaseToken t" i] by (simp add: holds_token_def)
  with good_lookup [OF g assms(2)] show ?thesis
    unfolding task_ok_def by (cases "taskState t = TaskStateRunning") (simp_all, metis lease_name_nonempty)
qed

theorem reachable_tasks_are_well_formed_witness:
  "taskLeaseExpiresAt task_l \<noteq> None \<and> taskCompletedAt task_l = None"
proof -
  have "map_of (bkTasks store3) ''task_1'' = Some task_l" by (simp add: store3_eq holding_def)
  from reachable_tasks_are_well_formed [OF example_steps(4) this]
  have "(taskState task_l = TaskStateRunning) = (taskLeaseExpiresAt task_l \<noteq> None)"
    "terminal (taskState task_l) = (taskCompletedAt task_l \<noteq> None)" by blast+
  then show ?thesis by (simp add: task_l_def terminal_def)
qed

text \<open>
  C15. Mutual exclusion: at any time, however many workers claim, two tasks whose
  leases are both unexpired never share a queue and a concurrency key.
\<close>

theorem at_most_one_live_lease_per_key:
  assumes "reachable_store now b"
    and "map_of (bkTasks b) i = Some t" "map_of (bkTasks b) j = Some u"
    and "live_lease now t" "live_lease now u"
    and "taskQueue t = taskQueue u" "taskConcurrencyKey t = taskConcurrencyKey u" "taskConcurrencyKey t \<noteq> []"
  shows "i = j"
proof -
  have "leases_ok now b" using reachable_good [OF assms(1)] by (simp add: good_def)
  moreover have "concurrency_of t = concurrency_of u" using assms(6-8) by (simp add: concurrency_of_def)
  ultimately show ?thesis using assms(2-5,8) unfolding leases_ok_def by blast
qed

theorem at_most_one_live_lease_per_key_witness:
  "live_lease (2 * Second) task_l \<and> (\<forall>j. map_of (bkTasks store3) j = Some task_l \<longleftrightarrow> ''task_1'' = j)"
proof -
  have l: "map_of (bkTasks store3) ''task_1'' = Some task_l" by (simp add: store3_eq holding_def)
  have live: "live_lease (2 * Second) task_l"
    by (simp add: live_lease_def task_l_def example_claim_def duration_defs)
  have key: "taskConcurrencyKey task_l \<noteq> []" by (simp add: task_l_def task_q_def example_task_def)
  show ?thesis
    using at_most_one_live_lease_per_key [OF example_steps(4) l _ live live refl refl key] live l by blast
qed

lemma stale_operations:
  assumes "\<not> holds_token b i x"
  shows "snd (HeartbeatTask ctx i x d now b) = b \<and> fst (HeartbeatTask ctx i x d now b) \<noteq> Inr ()"
    "snd (CompleteTask ctx i x out now b) = b \<and> fst (CompleteTask ctx i x out now b) \<noteq> Inr ()"
    "snd (ReleaseTask ctx i x d code msg now b) = b \<and> fst (ReleaseTask ctx i x d code msg now b) \<noteq> Inr ()"
    "flrID f = i \<Longrightarrow> flrLeaseToken f = x \<Longrightarrow>
     snd (FailTask ctx f now b) = b \<and> fst (FailTask ctx f now b) \<noteq> Inr ()"
proof -
  have no: "\<not> activeTaskLease (map_of (bkTasks b) i) x now" using assms owned_holds by blast
  show "snd (HeartbeatTask ctx i x d now b) = b \<and> fst (HeartbeatTask ctx i x d now b) \<noteq> Inr ()"
    "snd (CompleteTask ctx i x out now b) = b \<and> fst (CompleteTask ctx i x out now b) \<noteq> Inr ()"
    "snd (ReleaseTask ctx i x d code msg now b) = b \<and> fst (ReleaseTask ctx i x d code msg now b) \<noteq> Inr ()"
    "flrID f = i \<Longrightarrow> flrLeaseToken f = x \<Longrightarrow>
     snd (FailTask ctx f now b) = b \<and> fst (FailTask ctx f now b) \<noteq> Inr ()"
    using no by (cases ctx; auto simp: HeartbeatTask_def CompleteTask_def ReleaseTask_def FailTask_def
        split: option.splits)+
qed







text \<open>
  Go visits a map in no fixed order, and it does not matter: two stores whose
  task maps hold the same entries in any order answer every list and every claim
  alike.
\<close>

theorem map_order_does_not_matter:
  assumes "reachable_store now b1" "mset (bkTasks b1) = mset (bkTasks b2)" "bkNextID b1 = bkNextID b2"
  shows "fst (ListTasks ctx l b1) = fst (ListTasks ctx l b2)
    \<and> fst (ClaimTasks ctx r now b1) = fst (ClaimTasks ctx r now b2)"
proof -
  have s: "store_ok b1" using reachable_good [OF assms(1)] by (simp add: good_def)
  note perm = sorted_tasks_perm [OF assms(2) s]
  have "mset (active_keys now b1) = mset (active_keys now b2)"
    unfolding active_keys_def mset_map mset_filter assms(2) by (rule refl)
  then have keys: "set (active_keys now b1) = set (active_keys now b2)" by (rule mset_eq_setD)
  have "fst (ListTasks ctx l b1) = fst (ListTasks ctx l b2)"
    unfolding ListTasks_def guarded_def perm by (auto split: option.splits)
  moreover have "fst (ClaimTasks ctx r now b1) = fst (ClaimTasks ctx r now b2)"
    using claim_loop_cong [OF store_ok_perm [OF assms(2) s] assms(3) keys]
    unfolding ClaimTasks_def guarded_def perm by (auto simp: case_prod_beta split: option.splits)
  ultimately show ?thesis ..
qed

theorem map_order_does_not_matter_witness:
  "fst (ListTasks None \<lparr>lstSlug = [], lstTarget = None, lstStates = [], lstLimit = 3\<rparr> store3)
     = fst (ListTasks None \<lparr>lstSlug = [], lstTarget = None, lstStates = [], lstLimit = 3\<rparr>
             (store3\<lparr>bkPasswords := [(''users:1'', ''hash'')]\<rparr>))"
  by (rule conjunct1 [OF map_order_does_not_matter [OF example_steps(4)]]) simp_all

end
