(* ===== verification/Auth_Store.thy ===== *)
theory Auth_Store
  imports Backend
begin

text \<open>
  Authentication state of the in-memory store (\<open>internal/teststore/store.go\<close>,
  \<open>SetPasswordHash\<close> to \<open>AllowAuthAttempt\<close>, with \<open>store/auth_maintenance.go\<close>):
  password hashes and lockout counters per user, bearer sessions, single-use tokens,
  API keys, pruning and the rate limiter. Operations first, then the invariant, the
  step relation and the guarantees. \<open>FindAuthCredential\<close>, a read through Unicode case
  mapping, is in \<open>Document_Reads\<close>.
\<close>

section \<open>Passwords\<close>

definition auth_key :: "string \<Rightarrow> string \<Rightarrow> string" where
  "auth_key collectionID userID = collectionID @ CHR '':'' # userID"

definition zero_credential :: auth_credential where
  "zero_credential = \<lparr>crdPasswordHash = [], crdFailedLoginAttempts = 0, crdLockedUntil = zero_time,
     crdVerified = False\<rparr>"

text \<open>\<open>strings.Cut\<close> at the first separator.\<close>

fun cut :: "char \<Rightarrow> string \<Rightarrow> string \<times> string" where
  "cut d [] = ([], [])"
| "cut d (c # r) = (if c = d then ([], r) else (let (a, b) = cut d r in (c # a, b)))"

definition password_of :: "backend \<Rightarrow> string \<Rightarrow> string" where
  "password_of b key = (case map_of (bkPasswords b) key of Some h \<Rightarrow> h | None \<Rightarrow> [])"

definition clear_lock :: "auth_credential \<Rightarrow> auth_credential" where
  "clear_lock c = c\<lparr>crdFailedLoginAttempts := 0, crdLockedUntil := zero_time\<rparr>"

definition revoke_user :: "string \<Rightarrow> string \<Rightarrow> backend \<Rightarrow> backend" where
  "revoke_user collectionID userID b =
     b\<lparr>bkSessions := filter (\<lambda>(_, s). \<not> (sesCollectionID s = collectionID \<and> sesUserID s = userID)) (bkSessions b),
       bkApiKeys := filter (\<lambda>(_, k). \<not> (keyCollectionID k = collectionID \<and> keyUserID k = userID)) (bkApiKeys b)\<rparr>"

definition replacePasswordHash :: "string \<Rightarrow> string \<Rightarrow> auth_credential \<Rightarrow> bool \<Rightarrow> backend \<Rightarrow> backend" where
  "replacePasswordHash key hash credential revokeSessions b =
     (let b1 = b\<lparr>bkPasswords := put key hash (bkPasswords b),
                 bkCredentials := put key (clear_lock credential) (bkCredentials b)\<rparr>
      in if revokeSessions then (let (collectionID, userID) = cut CHR '':'' key in revoke_user collectionID userID b1)
         else b1)"

definition SetPasswordHash :: "string \<Rightarrow> string \<Rightarrow> string \<Rightarrow> bool \<Rightarrow> backend \<Rightarrow> unit outcome" where
  "SetPasswordHash collectionID userID hash initiallyVerified b =
     (if map_of (case map_of (bkDocuments b) collectionID of Some m \<Rightarrow> m | None \<Rightarrow> []) userID = None
      then (Inl ErrNotFound, b)
      else let key = auth_key collectionID userID;
               credential = (case map_of (bkCredentials b) key of
                   Some c \<Rightarrow> c
                 | None \<Rightarrow> zero_credential\<lparr>crdVerified := initiallyVerified\<rparr>)
           in (Inr (), replacePasswordHash key hash credential True b))"

definition compare_and_set_password ::
  "bool \<Rightarrow> string \<Rightarrow> string \<Rightarrow> string \<Rightarrow> string \<Rightarrow> backend \<Rightarrow> unit outcome" where
  "compare_and_set_password revoke collectionID userID expected hash b =
     (let key = auth_key collectionID userID in
      case map_of (bkCredentials b) key of
        None \<Rightarrow> (Inl ErrNotFound, b)
      | Some credential \<Rightarrow>
          if \<not> activeDocument b collectionID userID then (Inl ErrNotFound, b)
          else if password_of b key \<noteq> expected then (Inl ErrConflict, b)
          else (Inr (), replacePasswordHash key hash credential revoke b))"

definition ChangePasswordHash :: "string \<Rightarrow> string \<Rightarrow> string \<Rightarrow> string \<Rightarrow> backend \<Rightarrow> unit outcome" where
  "ChangePasswordHash = compare_and_set_password True"

definition UpgradePasswordHash :: "string \<Rightarrow> string \<Rightarrow> string \<Rightarrow> string \<Rightarrow> backend \<Rightarrow> unit outcome" where
  "UpgradePasswordHash = compare_and_set_password False"

section \<open>Lockout\<close>

definition known_credential :: "backend \<Rightarrow> string \<Rightarrow> auth_credential option" where
  "known_credential b key =
     (case map_of (bkCredentials b) key of
        Some c \<Rightarrow> Some c
      | None \<Rightarrow> if map_of (bkPasswords b) key = None then None else Some zero_credential)"

definition RecordFailedLogin ::
  "string \<Rightarrow> string \<Rightarrow> time \<Rightarrow> int \<Rightarrow> duration \<Rightarrow> backend \<Rightarrow> auth_credential outcome" where
  "RecordFailedLogin collectionID userID now maximum lockDuration b =
     (let key = auth_key collectionID userID in
      case known_credential b key of
        None \<Rightarrow> (Inl ErrNotFound, b)
      | Some credential \<Rightarrow>
          if now < crdLockedUntil credential then (Inr credential, b)
          else let c1 = (if \<not> time_IsZero (crdLockedUntil credential) then clear_lock credential else credential);
                   c2 = c1\<lparr>crdFailedLoginAttempts := crdFailedLoginAttempts c1 + 1\<rparr>;
                   c3 = (if crdFailedLoginAttempts c2 \<ge> maximum
                         then c2\<lparr>crdLockedUntil := now + lockDuration\<rparr> else c2)
               in (Inr c3, b\<lparr>bkCredentials := put key c3 (bkCredentials b)\<rparr>))"

definition ResetLoginAttempts :: "string \<Rightarrow> string \<Rightarrow> time \<Rightarrow> backend \<Rightarrow> bool outcome" where
  "ResetLoginAttempts collectionID userID now b =
     (let key = auth_key collectionID userID in
      case known_credential b key of
        None \<Rightarrow> (Inl ErrNotFound, b)
      | Some credential \<Rightarrow>
          if now < crdLockedUntil credential then (Inr False, b)
          else (Inr True, b\<lparr>bkCredentials := put key (clear_lock credential) (bkCredentials b)\<rparr>))"

definition ForceUnlock :: "string \<Rightarrow> string \<Rightarrow> backend \<Rightarrow> unit outcome" where
  "ForceUnlock collectionID userID b =
     (let key = auth_key collectionID userID in
      case known_credential b key of
        None \<Rightarrow> (Inl ErrNotFound, b)
      | Some credential \<Rightarrow>
          (Inr (), b\<lparr>bkCredentials := put key (clear_lock credential) (bkCredentials b)\<rparr>))"

section \<open>Sessions\<close>

definition CreateSession :: "auth_session \<Rightarrow> string \<Rightarrow> backend \<Rightarrow> unit outcome" where
  "CreateSession r expectedPasswordHash b =
     (if \<not> activeDocument b (sesCollectionID r) (sesUserID r) then (Inl ErrNotFound, b)
      else let key = auth_key (sesCollectionID r) (sesUserID r) in
        if map_of (bkCredentials b) key = None then (Inl ErrNotFound, b)
        else if password_of b key \<noteq> expectedPasswordHash then (Inl ErrConflict, b)
        else (Inr (), b\<lparr>bkSessions := put (sesTokenHash r) r (bkSessions b)\<rparr>))"

definition RotateSession :: "string \<Rightarrow> auth_session \<Rightarrow> time \<Rightarrow> backend \<Rightarrow> unit outcome" where
  "RotateSession currentHash replacement now b =
     (case map_of (bkSessions b) currentHash of
        None \<Rightarrow> (Inl ErrNotFound, b)
      | Some current \<Rightarrow>
          if \<not> now < sesExpiresAt current then (Inl ErrNotFound, b)
          else if sesCollectionID current \<noteq> sesCollectionID replacement
                  \<or> sesUserID current \<noteq> sesUserID replacement
                  \<or> \<not> activeDocument b (sesCollectionID current) (sesUserID current)
            then (Inl ErrNotFound, b)
          else let r = current\<lparr>sesTokenHash := sesTokenHash replacement, sesLastSeenAt := now\<rparr>
               in (Inr (), b\<lparr>bkSessions := put (sesTokenHash r) r (del currentHash (bkSessions b))\<rparr>))"

definition DeleteSession :: "string \<Rightarrow> backend \<Rightarrow> unit outcome" where
  "DeleteSession tokenHash b = (Inr (), b\<lparr>bkSessions := del tokenHash (bkSessions b)\<rparr>)"

definition DeleteUserSession :: "string \<Rightarrow> string \<Rightarrow> string \<Rightarrow> backend \<Rightarrow> unit outcome" where
  "DeleteUserSession collectionID userID sessionID b =
     (Inr (), b\<lparr>bkSessions := filter (\<lambda>(_, s). \<not> (sesCollectionID s = collectionID \<and> sesUserID s = userID
                                            \<and> sesID s = sessionID)) (bkSessions b)\<rparr>)"

definition DeleteUserSessions :: "string \<Rightarrow> string \<Rightarrow> backend \<Rightarrow> unit outcome" where
  "DeleteUserSessions collectionID userID b =
     (Inr (), b\<lparr>bkSessions := filter (\<lambda>(_, s). \<not> (sesCollectionID s = collectionID \<and> sesUserID s = userID))
                                (bkSessions b)\<rparr>)"

definition FindSession :: "string \<Rightarrow> time \<Rightarrow> backend \<Rightarrow> auth_session outcome" where
  "FindSession tokenHash now b =
     (case map_of (bkSessions b) tokenHash of
        None \<Rightarrow> (Inl ErrNotFound, b)
      | Some s \<Rightarrow> if \<not> now < sesExpiresAt s then (Inl ErrNotFound, b) else (Inr s, b))"

definition FindSessionByID :: "string \<Rightarrow> time \<Rightarrow> backend \<Rightarrow> auth_session outcome" where
  "FindSessionByID i now b =
     (case find (\<lambda>s. sesID s = i \<and> now < sesExpiresAt s) (map snd (bkSessions b)) of
        None \<Rightarrow> (Inl ErrNotFound, b)
      | Some s \<Rightarrow> (Inr s, b))"

text \<open>Most recently seen first, then most recently created.\<close>

definition ListSessions :: "string \<Rightarrow> string \<Rightarrow> time \<Rightarrow> backend \<Rightarrow> auth_session list outcome" where
  "ListSessions collectionID userID now b =
     (Inr (sort_key (\<lambda>s. (- sesLastSeenAt s, - sesCreatedAt s))
        (filter (\<lambda>s. sesCollectionID s = collectionID \<and> sesUserID s = userID \<and> now < sesExpiresAt s)
          (map snd (bkSessions b)))), b)"

section \<open>Single-use tokens\<close>

definition CreateAuthToken :: "auth_token \<Rightarrow> backend \<Rightarrow> unit outcome" where
  "CreateAuthToken t b =
     (if \<not> activeDocument b (tokCollectionID t) (tokUserID t) then (Inl ErrNotFound, b)
      else (Inr (), b\<lparr>bkAuthTokens := put (tokTokenHash t) t
             (filter (\<lambda>(_, c). \<not> (tokCollectionID c = tokCollectionID t \<and> tokUserID c = tokUserID t
                                \<and> tokPurpose c = tokPurpose t)) (bkAuthTokens b))\<rparr>))"

definition usable_token :: "auth_token_purpose \<Rightarrow> string \<Rightarrow> string \<Rightarrow> time \<Rightarrow> backend \<Rightarrow> auth_token option" where
  "usable_token purpose collectionID tokenHash now b =
     (case map_of (bkAuthTokens b) tokenHash of
        None \<Rightarrow> None
      | Some t \<Rightarrow> if tokCollectionID t \<noteq> collectionID \<or> tokPurpose t \<noteq> purpose \<or> \<not> now < tokExpiresAt t
                  then None else Some t)"

definition ResetPasswordWithToken ::
  "string \<Rightarrow> string \<Rightarrow> string \<Rightarrow> time \<Rightarrow> backend \<Rightarrow> string outcome" where
  "ResetPasswordWithToken collectionID tokenHash hash now b =
     (case usable_token AuthTokenPasswordReset collectionID tokenHash now b of
        None \<Rightarrow> (Inl ErrNotFound, b)
      | Some t \<Rightarrow>
          let key = auth_key collectionID (tokUserID t) in
          case map_of (bkCredentials b) key of
            None \<Rightarrow> (Inl ErrNotFound, b)
          | Some credential \<Rightarrow>
              (Inr (tokUserID t),
               revoke_user collectionID (tokUserID t)
                 (b\<lparr>bkAuthTokens := del tokenHash (bkAuthTokens b),
                    bkPasswords := put key hash (bkPasswords b),
                    bkCredentials := put key (clear_lock credential) (bkCredentials b)\<rparr>)))"

definition VerifyEmailWithToken :: "string \<Rightarrow> string \<Rightarrow> time \<Rightarrow> backend \<Rightarrow> string outcome" where
  "VerifyEmailWithToken collectionID tokenHash now b =
     (case usable_token AuthTokenVerifyEmail collectionID tokenHash now b of
        None \<Rightarrow> (Inl ErrNotFound, b)
      | Some t \<Rightarrow>
          let key = auth_key collectionID (tokUserID t) in
          case map_of (bkCredentials b) key of
            None \<Rightarrow> (Inl ErrNotFound, b)
          | Some credential \<Rightarrow>
              (Inr (tokUserID t),
               b\<lparr>bkAuthTokens := del tokenHash (bkAuthTokens b),
                 bkCredentials := put key (credential\<lparr>crdVerified := True\<rparr>) (bkCredentials b)\<rparr>))"

section \<open>API keys\<close>

definition key_live :: "auth_api_key \<Rightarrow> time \<Rightarrow> bool" where
  "key_live k now \<longleftrightarrow> time_IsZero (keyExpiresAt k) \<or> now < keyExpiresAt k"

definition CreateAPIKey :: "auth_api_key \<Rightarrow> string \<Rightarrow> time \<Rightarrow> backend \<Rightarrow> unit outcome" where
  "CreateAPIKey k sessionTokenHash now b =
     (if \<not> activeDocument b (keyCollectionID k) (keyUserID k) then (Inl ErrNotFound, b)
      else if map_of (bkCredentials b) (auth_key (keyCollectionID k) (keyUserID k)) = None
        then (Inl ErrNotFound, b)
      else case map_of (bkSessions b) sessionTokenHash of
        None \<Rightarrow> (Inl ErrNotFound, b)
      | Some current \<Rightarrow>
          if sesCollectionID current \<noteq> keyCollectionID k \<or> sesUserID current \<noteq> keyUserID k
             \<or> \<not> now < sesExpiresAt current
          then (Inl ErrNotFound, b)
          else (Inr (), b\<lparr>bkApiKeys := put (keyID k) k (bkApiKeys b)\<rparr>))"

definition FindAPIKey :: "string \<Rightarrow> time \<Rightarrow> backend \<Rightarrow> auth_api_key outcome" where
  "FindAPIKey i now b =
     (case map_of (bkApiKeys b) i of
        None \<Rightarrow> (Inl ErrNotFound, b)
      | Some k \<Rightarrow> if \<not> time_IsZero (keyExpiresAt k) \<and> \<not> now < keyExpiresAt k then (Inl ErrNotFound, b)
                  else (Inr k, b))"

definition TouchAPIKey :: "string \<Rightarrow> time \<Rightarrow> backend \<Rightarrow> unit outcome" where
  "TouchAPIKey i now b =
     (case map_of (bkApiKeys b) i of
        None \<Rightarrow> (Inl ErrNotFound, b)
      | Some k \<Rightarrow> if \<not> time_IsZero (keyExpiresAt k) \<and> \<not> now < keyExpiresAt k then (Inl ErrNotFound, b)
                  else (Inr (), b\<lparr>bkApiKeys := put i (k\<lparr>keyLastUsedAt := now\<rparr>) (bkApiKeys b)\<rparr>))"

definition ListAPIKeys :: "string \<Rightarrow> string \<Rightarrow> time \<Rightarrow> backend \<Rightarrow> auth_api_key list outcome" where
  "ListAPIKeys collectionID userID now b =
     (Inr (sort_key (\<lambda>k. - keyCreatedAt k)
        (filter (\<lambda>k. keyCollectionID k = collectionID \<and> keyUserID k = userID
                    \<and> (time_IsZero (keyExpiresAt k) \<or> now < keyExpiresAt k))
          (map snd (bkApiKeys b)))), b)"

definition DeleteAPIKey :: "string \<Rightarrow> string \<Rightarrow> string \<Rightarrow> backend \<Rightarrow> unit outcome" where
  "DeleteAPIKey collectionID userID i b =
     (Inr (), (case map_of (bkApiKeys b) i of
                 None \<Rightarrow> b
               | Some k \<Rightarrow> if keyCollectionID k = collectionID \<and> keyUserID k = userID
                           then b\<lparr>bkApiKeys := del i (bkApiKeys b)\<rparr> else b))"

section \<open>Maintenance and rate limiting\<close>

definition MaxAuthPruneBatch :: int where "MaxAuthPruneBatch = 500"

definition ValidateAuthPruneBatch :: "int \<Rightarrow> store_error option" where
  "ValidateAuthPruneBatch limit =
     (if limit < 1 \<or> limit > MaxAuthPruneBatch then Some ErrPruneBatch else None)"

text \<open>The expired entries of a map, oldest expiry first, at most \<open>limit\<close> of them.\<close>

definition expired_batch :: "('v \<Rightarrow> time) \<Rightarrow> ('v \<Rightarrow> bool) \<Rightarrow> int \<Rightarrow> (string, 'v) gomap \<Rightarrow> string list" where
  "expired_batch expiry expired limit entries =
     map snd (take (nat limit) (sort_key (\<lambda>c. c)
       (map (\<lambda>(i, v). (expiry v, i)) (filter (\<lambda>(_, v). expired v) entries))))"

record auth_prune_result =
  aprSessions :: nat
  aprAPIKeys :: nat

definition PruneExpiredAuth :: "string option \<Rightarrow> int \<Rightarrow> time \<Rightarrow> backend \<Rightarrow> auth_prune_result outcome" where
  "PruneExpiredAuth ctx limit now b =
     guarded ctx b
      (case ValidateAuthPruneBatch limit of
         Some e \<Rightarrow> (Inl e, b)
       | None \<Rightarrow>
           let sessions = expired_batch sesExpiresAt (\<lambda>s. \<not> now < sesExpiresAt s) limit (bkSessions b);
               apiKeys = expired_batch keyExpiresAt (\<lambda>k. \<not> key_live k now) limit (bkApiKeys b)
           in (Inr \<lparr>aprSessions = length sessions, aprAPIKeys = length apiKeys\<rparr>,
               b\<lparr>bkSessions := fold del sessions (bkSessions b),
                 bkApiKeys := fold del apiKeys (bkApiKeys b)\<rparr>))"

definition AllowAuthAttempt :: "string \<Rightarrow> time \<Rightarrow> duration \<Rightarrow> int \<Rightarrow> backend \<Rightarrow> bool outcome" where
  "AllowAuthAttempt keyHash now window maximum b =
     (let bucket0 = (case map_of (bkRateLimits b) keyHash of
                       Some r \<Rightarrow> r | None \<Rightarrow> \<lparr>rlmAttempts = 0, rlmExpiresAt = zero_time\<rparr>);
          bucket1 = (if time_IsZero (rlmExpiresAt bucket0) \<or> \<not> now < rlmExpiresAt bucket0
                     then \<lparr>rlmAttempts = 0, rlmExpiresAt = now + window\<rparr> else bucket0);
          bucket = bucket1\<lparr>rlmAttempts := rlmAttempts bucket1 + 1\<rparr>
      in (Inr (rlmAttempts bucket \<le> maximum),
          b\<lparr>bkRateLimits := put keyHash bucket (bkRateLimits b)\<rparr>))"

section \<open>Lookups\<close>

interpretation session_lookup: expiring_lookup
  "\<lambda>b. map_of (bkSessions b)" "\<lambda>s now. now < sesExpiresAt s" FindSession
  by unfold_locales (auto simp: FindSession_def split: option.splits)

interpretation api_key_lookup: expiring_lookup "\<lambda>b. map_of (bkApiKeys b)" key_live FindAPIKey
  by unfold_locales (auto simp: FindAPIKey_def key_live_def split: option.splits)

section \<open>The invariant\<close>

definition auth_ok :: "backend \<Rightarrow> bool" where
  "auth_ok b \<longleftrightarrow>
     wf_map (bkSessions b) \<and> wf_map (bkApiKeys b) \<and> wf_map (bkAuthTokens b)
     \<and> (\<forall>h s. map_of (bkSessions b) h = Some s \<longrightarrow> sesTokenHash s = h)
     \<and> (\<forall>i k. map_of (bkApiKeys b) i = Some k \<longrightarrow> keyID k = i)
     \<and> (\<forall>h t. map_of (bkAuthTokens b) h = Some t \<longrightarrow> tokTokenHash t = h)
     \<and> (\<forall>h g t u. map_of (bkAuthTokens b) h = Some t \<and> map_of (bkAuthTokens b) g = Some u
          \<and> tokCollectionID t = tokCollectionID u \<and> tokUserID t = tokUserID u
          \<and> tokPurpose t = tokPurpose u \<longrightarrow> h = g)"

text \<open>
  Every operation only drops entries from the three maps or files one entry under its
  own identity, so preservation follows from two facts about maps.
\<close>

definition filed :: "('v \<Rightarrow> string) \<Rightarrow> (string, 'v) gomap \<Rightarrow> bool" where
  "filed name m \<longleftrightarrow> wf_map m \<and> (\<forall>k v. map_of m k = Some v \<longrightarrow> name v = k)"

definition submap :: "('k, 'v) gomap \<Rightarrow> ('k, 'v) gomap \<Rightarrow> bool" where
  "submap m m' \<longleftrightarrow> (\<forall>k v. map_of m k = Some v \<longrightarrow> map_of m' k = Some v)"

definition unique_tokens :: "(string, auth_token) gomap \<Rightarrow> bool" where
  "unique_tokens m \<longleftrightarrow>
     (\<forall>h g t u. map_of m h = Some t \<and> map_of m g = Some u
        \<and> tokCollectionID t = tokCollectionID u \<and> tokUserID t = tokUserID u
        \<and> tokPurpose t = tokPurpose u \<longrightarrow> h = g)"

lemma auth_ok_alt:
  "auth_ok b \<longleftrightarrow> filed sesTokenHash (bkSessions b) \<and> filed keyID (bkApiKeys b)
     \<and> filed tokTokenHash (bkAuthTokens b) \<and> unique_tokens (bkAuthTokens b)"
  unfolding auth_ok_def filed_def unique_tokens_def by blast

lemma filed_filter [intro]: "filed name m \<Longrightarrow> filed name (filter P m)"
  by (auto simp: filed_def map_of_filter_Some)

lemma filed_del [intro]: "filed name m \<Longrightarrow> filed name (del k m)"
  by (auto simp: filed_def split: if_splits)

lemma filed_put [intro]: "filed name m \<Longrightarrow> name v = k \<Longrightarrow> filed name (put k v m)"
  by (auto simp: filed_def split: if_splits)

lemma fold_del_map_of: "map_of (fold del ks m) k = (if k \<in> set ks then None else map_of m k)"
  by (induction ks arbitrary: m) auto

lemma filed_fold_del [intro]: "filed name m \<Longrightarrow> filed name (fold del ks m)"
  by (induction ks arbitrary: m) auto

lemma unique_tokensD:
  "unique_tokens m \<Longrightarrow> map_of m h = Some t \<Longrightarrow> map_of m g = Some u \<Longrightarrow>
   tokCollectionID t = tokCollectionID u \<Longrightarrow> tokUserID t = tokUserID u \<Longrightarrow> tokPurpose t = tokPurpose u \<Longrightarrow> h = g"
  unfolding unique_tokens_def by blast

lemma unique_tokens_submap: "unique_tokens m \<Longrightarrow> submap m' m \<Longrightarrow> unique_tokens m'"
  unfolding unique_tokens_def submap_def by blast

lemma unique_tokens_del: "unique_tokens m \<Longrightarrow> unique_tokens (del k m)"
  by (erule unique_tokens_submap) (simp add: submap_def)

lemma unique_tokens_put:
  assumes "filed tokTokenHash m" "unique_tokens m"
  shows "unique_tokens (put (tokTokenHash t) t
           (filter (\<lambda>(_, c). \<not> (tokCollectionID c = tokCollectionID t \<and> tokUserID c = tokUserID t
                              \<and> tokPurpose c = tokPurpose t)) m))"
    (is "unique_tokens (put _ t ?m)")
proof -
  have w: "wf_map m" using assms(1) by (simp add: filed_def)
  have other: "map_of m h = Some x \<and> \<not> (tokCollectionID x = tokCollectionID t
      \<and> tokUserID x = tokUserID t \<and> tokPurpose x = tokPurpose t)" if "map_of ?m h = Some x" for h x
    using that map_of_filter_Some [OF w, of _ h x] by auto
  show ?thesis
    unfolding unique_tokens_def
  proof (intro allI impI, elim conjE)
    fix h g x y
    assume h: "map_of (put (tokTokenHash t) t ?m) h = Some x"
      and g: "map_of (put (tokTokenHash t) t ?m) g = Some y"
      and e: "tokCollectionID x = tokCollectionID y" "tokUserID x = tokUserID y" "tokPurpose x = tokPurpose y"
    show "h = g"
    proof (cases "h = tokTokenHash t")
      case True
      then have "x = t" using h by simp
      show ?thesis
      proof (rule ccontr)
        assume "h \<noteq> g"
        then have "map_of ?m g = Some y" using True g by simp
        from other [OF this] e \<open>x = t\<close> show False by simp
      qed
    next
      case False
      then have hx: "map_of ?m h = Some x" using h by simp
      show ?thesis
      proof (cases "g = tokTokenHash t")
        case True
        then have "y = t" using g by simp
        with other [OF hx] e show ?thesis by simp
      next
        case False
        then have "map_of ?m g = Some y" using g by simp
        from unique_tokensD [OF assms(2) conjunct1 [OF other [OF hx]] conjunct1 [OF other [OF this]] e]
        show ?thesis .
      qed
    qed
  qed
qed

inductive auth_step :: "backend \<Rightarrow> backend \<Rightarrow> bool" where
  as_set: "auth_step b (snd (SetPasswordHash c u h v b))"
| as_change: "auth_step b (snd (ChangePasswordHash c u e h b))"
| as_upgrade: "auth_step b (snd (UpgradePasswordHash c u e h b))"
| as_failed: "auth_step b (snd (RecordFailedLogin c u now mx d b))"
| as_reset_attempts: "auth_step b (snd (ResetLoginAttempts c u now b))"
| as_unlock: "auth_step b (snd (ForceUnlock c u b))"
| as_create: "auth_step b (snd (CreateSession r h b))"
| as_rotate: "auth_step b (snd (RotateSession h r now b))"
| as_delete: "auth_step b (snd (DeleteSession h b))"
| as_delete_user: "auth_step b (snd (DeleteUserSession c u i b))"
| as_delete_all: "auth_step b (snd (DeleteUserSessions c u b))"
| as_token: "auth_step b (snd (CreateAuthToken t b))"
| as_reset: "auth_step b (snd (ResetPasswordWithToken c h p now b))"
| as_verify: "auth_step b (snd (VerifyEmailWithToken c h now b))"
| as_key: "auth_step b (snd (CreateAPIKey k h now b))"
| as_touch: "auth_step b (snd (TouchAPIKey i now b))"
| as_delete_key: "auth_step b (snd (DeleteAPIKey c u i b))"
| as_prune: "auth_step b (snd (PruneExpiredAuth ctx limit now b))"
| as_allow: "auth_step b (snd (AllowAuthAttempt kh now w mx b))"
| as_other: "bkSessions b' = bkSessions b \<Longrightarrow> bkApiKeys b' = bkApiKeys b \<Longrightarrow>
    bkAuthTokens b' = bkAuthTokens b \<Longrightarrow> auth_step b b'"

lemma revoke_user_fields [simp]:
  "bkAuthTokens (revoke_user c u b) = bkAuthTokens b"
  "bkPasswords (revoke_user c u b) = bkPasswords b"
  "bkCredentials (revoke_user c u b) = bkCredentials b"
  "bkDocuments (revoke_user c u b) = bkDocuments b"
  by (simp_all add: revoke_user_def)

lemma replacePasswordHash_fields [simp]:
  "bkAuthTokens (replacePasswordHash k h c r b) = bkAuthTokens b"
  "bkPasswords (replacePasswordHash k h c r b) = put k h (bkPasswords b)"
  "bkCredentials (replacePasswordHash k h c r b) = put k (clear_lock c) (bkCredentials b)"
  "bkDocuments (replacePasswordHash k h c r b) = bkDocuments b"
  by (simp_all add: replacePasswordHash_def Let_def split: prod.splits)

lemma replace_ok: "auth_ok b \<Longrightarrow> auth_ok (replacePasswordHash k h c r b)"
  by (auto simp: auth_ok_alt replacePasswordHash_def revoke_user_def Let_def split: prod.splits)

lemma auth_step_ok: "auth_step b b' \<Longrightarrow> auth_ok b \<Longrightarrow> auth_ok b'"
proof (induction rule: auth_step.induct)
  case (as_set b c u h v)
  then show ?case by (simp add: SetPasswordHash_def Let_def replace_ok)
next
  case (as_change b c u e h)
  then show ?case by (simp add: ChangePasswordHash_def compare_and_set_password_def Let_def replace_ok
        split: option.splits)
next
  case (as_upgrade b c u e h)
  then show ?case by (simp add: UpgradePasswordHash_def compare_and_set_password_def Let_def replace_ok
        split: option.splits)
next
  case (as_rotate b h r now)
  then show ?case by (auto simp: RotateSession_def Let_def auth_ok_alt split: option.splits)
next
  case (as_token b t)
  then show ?case
    using unique_tokens_put [of "bkAuthTokens b" t] by (auto simp: CreateAuthToken_def auth_ok_alt)
next
  case (as_touch b i now)
  then show ?case by (auto simp: TouchAPIKey_def auth_ok_alt filed_def split: option.splits if_splits)
qed (auto simp: RecordFailedLogin_def ResetLoginAttempts_def ForceUnlock_def CreateSession_def
    DeleteSession_def DeleteUserSession_def DeleteUserSessions_def ResetPasswordWithToken_def
    VerifyEmailWithToken_def CreateAPIKey_def DeleteAPIKey_def PruneExpiredAuth_def guarded_def
    AllowAuthAttempt_def Let_def auth_ok_alt revoke_user_def unique_tokens_del split: option.splits)

definition reachable_auth :: "backend \<Rightarrow> bool" where
  "reachable_auth b \<longleftrightarrow> auth_step\<^sup>*\<^sup>* New b"

lemma reachable_auth_ok: "reachable_auth b \<Longrightarrow> auth_ok b"
proof -
  have "auth_ok New" by (simp add: auth_ok_def New_def)
  moreover have "auth_step\<^sup>*\<^sup>* a b \<Longrightarrow> auth_ok a \<Longrightarrow> auth_ok b" for a
    by (induction rule: rtranclp_induct) (auto intro: auth_step_ok)
  ultimately show "reachable_auth b \<Longrightarrow> ?thesis" by (auto simp: reachable_auth_def)
qed

end
