(* ===== verification/Auth_Properties.thy ===== *)
theory Auth_Properties
  imports Auth_Store
begin

text \<open>
  What the authentication state promises: replacing a password ends every session and
  API key of that user and of nobody else, tokens work once and for one purpose,
  lockout follows the configured number of failures, the rate limiter admits exactly
  its maximum per window, rotation moves a session without extending it, pruning
  removes the oldest expired entries, and lookups answer only live entries.
\<close>

section \<open>A concrete run\<close>

definition example_user :: document where
  "example_user = Document ''u1'' 1 1 None ''published'' 1 1 False [] None"

definition auth1 :: backend where
  "auth1 = New\<lparr>bkDocuments := [(''users'', [(''u1'', example_user)])]\<rparr>"

definition auth2 :: backend where
  "auth2 = snd (SetPasswordHash ''users'' ''u1'' ''h1'' True auth1)"

definition example_session :: auth_session where
  "example_session = \<lparr>sesID = ''s1'', sesTokenHash = ''t1'', sesCollectionID = ''users'', sesUserID = ''u1'',
     sesExpiresAt = 100, sesCreatedAt = 1, sesLastSeenAt = 1, sesIPAddress = [], sesUserAgent = []\<rparr>"

definition auth3 :: backend where "auth3 = snd (CreateSession example_session ''h1'' auth2)"

definition example_token :: auth_token where
  "example_token = \<lparr>tokTokenHash = ''r1'', tokPurpose = AuthTokenPasswordReset, tokCollectionID = ''users'',
     tokUserID = ''u1'', tokExpiresAt = 50, tokCreatedAt = 1\<rparr>"

definition auth4 :: backend where "auth4 = snd (CreateAuthToken example_token auth3)"

lemma auth_steps:
  "reachable_auth auth2" "reachable_auth auth3" "reachable_auth auth4"
proof -
  have 1: "auth_step New auth1" by (rule as_other) (simp_all add: auth1_def)
  have 2: "auth_step auth1 auth2" unfolding auth2_def by (rule as_set)
  have 3: "auth_step auth2 auth3" unfolding auth3_def by (rule as_create)
  have 4: "auth_step auth3 auth4" unfolding auth4_def by (rule as_token)
  show r: "reachable_auth auth2" unfolding reachable_auth_def
    using 1 2 by (meson r_into_rtranclp rtranclp.rtrancl_into_rtrancl)
  show "reachable_auth auth3" using r 3 unfolding reachable_auth_def by (rule rtranclp.rtrancl_into_rtrancl)
  then show "reachable_auth auth4" using 4 unfolding reachable_auth_def by (rule rtranclp.rtrancl_into_rtrancl)
qed

definition example_credential :: auth_credential where
  "example_credential = zero_credential\<lparr>crdVerified := True\<rparr>"

lemmas auth_example_defs = auth_key_def zero_credential_def clear_lock_def replacePasswordHash_def
  revoke_user_def activeDocument_def password_of_def put_def del_def New_def

lemma example_key: "auth_key ''users'' ''u1'' = ''users:u1''"
  by (simp add: auth_key_def)

lemma auth2_eq: "auth2 = auth1\<lparr>bkPasswords := [(''users:u1'', ''h1'')],
    bkCredentials := [(''users:u1'', example_credential)]\<rparr>"
  by (simp add: auth2_def SetPasswordHash_def auth1_def auth_example_defs example_credential_def Let_def)

lemma auth3_eq: "auth3 = auth2\<lparr>bkSessions := [(''t1'', example_session)]\<rparr>"
  by (simp add: auth3_def CreateSession_def auth2_eq auth1_def auth_example_defs example_session_def
      example_user_def Let_def)

lemma auth4_eq: "auth4 = auth3\<lparr>bkAuthTokens := [(''r1'', example_token)]\<rparr>"
  by (simp add: auth4_def CreateAuthToken_def auth3_eq auth2_eq auth1_def auth_example_defs example_token_def
      example_user_def)

section \<open>Replacing a password\<close>

lemma cut_word: "d \<notin> set w \<Longrightarrow> cut d (w @ d # r) = (w, r)"
  by (induction w) auto

lemma stable_id_colon: "IsValidStableID s \<Longrightarrow> CHR '':'' \<notin> set s"
proof
  assume "IsValidStableID s" and "CHR '':'' \<in> set s"
  then have w: "list_all (\<lambda>w. list_all cls_lower_digit w) (split_on CHR ''-'' s)"
    by (auto simp: stable_id_shape list_all_iff)
  have "list_all (\<lambda>w. list_all cls_lower_digit w) (split_on d s) \<Longrightarrow> c \<in> set s \<Longrightarrow> c \<noteq> d \<Longrightarrow> cls_lower_digit c" for c d
    by (induction s) (auto split: if_splits list.splits)
  from this [OF w \<open>CHR '':'' \<in> set s\<close>] show False
    by (simp add: cls_lower_digit_def is_lower_def is_digit_def)
qed

text \<open>
  The state after a user's password was replaced: the new hash is stored, the lockout
  is cleared, that user's sessions and API keys are gone, every other session, key,
  password and token is untouched.
\<close>

definition password_replaced :: "string \<Rightarrow> string \<Rightarrow> string \<Rightarrow> backend \<Rightarrow> backend \<Rightarrow> bool" where
  "password_replaced collectionID userID hash b b' \<longleftrightarrow>
     map_of (bkPasswords b') = (map_of (bkPasswords b))(auth_key collectionID userID \<mapsto> hash)
     \<and> (\<exists>c. map_of (bkCredentials b') = (map_of (bkCredentials b))(auth_key collectionID userID \<mapsto> clear_lock c))
     \<and> (\<forall>h s. map_of (bkSessions b') h = Some s \<longleftrightarrow>
          map_of (bkSessions b) h = Some s \<and> \<not> (sesCollectionID s = collectionID \<and> sesUserID s = userID))
     \<and> (\<forall>i k. map_of (bkApiKeys b') i = Some k \<longleftrightarrow>
          map_of (bkApiKeys b) i = Some k \<and> \<not> (keyCollectionID k = collectionID \<and> keyUserID k = userID))"

lemma reachable_maps: "reachable_auth b \<Longrightarrow> wf_map (bkSessions b) \<and> wf_map (bkApiKeys b) \<and> wf_map (bkAuthTokens b)"
  using reachable_auth_ok by (fastforce simp: auth_ok_def)

lemma revoke_user_replaced:
  assumes "wf_map (bkSessions b)" "wf_map (bkApiKeys b)"
    "bkSessions b1 = bkSessions b" "bkApiKeys b1 = bkApiKeys b"
    "bkPasswords b1 = put (auth_key c u) hash (bkPasswords b)"
    "bkCredentials b1 = put (auth_key c u) (clear_lock d) (bkCredentials b)"
  shows "password_replaced c u hash b (revoke_user c u b1)"
  unfolding password_replaced_def
proof (intro conjI exI [of _ d] allI)
  show "map_of (bkPasswords (revoke_user c u b1)) = (map_of (bkPasswords b))(auth_key c u \<mapsto> hash)"
    using assms by (auto simp: fun_eq_iff)
  show "map_of (bkCredentials (revoke_user c u b1)) = (map_of (bkCredentials b))(auth_key c u \<mapsto> clear_lock d)"
    using assms by (auto simp: fun_eq_iff)
qed (use assms in \<open>auto simp: revoke_user_def map_of_filter_Some\<close>)

lemma replacePasswordHash_replaced:
  assumes "wf_map (bkSessions b)" "wf_map (bkApiKeys b)" "CHR '':'' \<notin> set c"
  shows "password_replaced c u hash b (replacePasswordHash (auth_key c u) hash d True b)"
proof -
  have "cut CHR '':'' (auth_key c u) = (c, u)" using assms(3) by (simp add: auth_key_def cut_word)
  then show ?thesis
    unfolding replacePasswordHash_def Let_def if_True prod.case
    by (simp only: prod.case) (rule revoke_user_replaced [OF assms(1,2)]; simp)
qed

lemma login_needs_current_hash:
  assumes "password_replaced c u hash b b'" "sesCollectionID r = c" "sesUserID r = u"
    "fst (CreateSession r other b') = Inr ()"
  shows "other = hash"
proof -
  have "map_of (bkPasswords b') (auth_key c u) = Some hash" using assms(1) by (simp add: password_replaced_def)
  then show ?thesis using assms(2-4) by (auto simp: CreateSession_def password_of_def Let_def split: if_splits)
qed

lemma changed_replaced:
  assumes "reachable_auth b" "IsValidStableID c" "fst (compare_and_set_password True c u old hash b) = Inr ()"
  shows "password_replaced c u hash b (snd (compare_and_set_password True c u old hash b))"
  using assms(3) replacePasswordHash_replaced [OF _ _ stable_id_colon [OF assms(2)]] reachable_maps [OF assms(1)]
  by (auto simp: compare_and_set_password_def Let_def split: option.splits if_splits)

lemma reset_success:
  assumes "fst (ResetPasswordWithToken c token hash now b) = Inr u"
  obtains t d where "usable_token AuthTokenPasswordReset c token now b = Some t" "u = tokUserID t"
    "snd (ResetPasswordWithToken c token hash now b) = revoke_user c u
       (b\<lparr>bkAuthTokens := del token (bkAuthTokens b), bkPasswords := put (auth_key c u) hash (bkPasswords b),
          bkCredentials := put (auth_key c u) (clear_lock d) (bkCredentials b)\<rparr>)"
proof (cases "usable_token AuthTokenPasswordReset c token now b")
  case None
  then show ?thesis using assms by (simp add: ResetPasswordWithToken_def)
next
  case (Some t)
  show ?thesis
  proof (cases "map_of (bkCredentials b) (auth_key c (tokUserID t))")
    case None
    then show ?thesis using assms Some by (simp add: ResetPasswordWithToken_def Let_def)
  next
    case d: (Some d)
    then show ?thesis using assms Some that [of t d] by (simp add: ResetPasswordWithToken_def Let_def)
  qed
qed

lemma reset_replaced:
  assumes "reachable_auth b" "fst (ResetPasswordWithToken c token hash now b) = Inr u"
  shows "password_replaced c u hash b (snd (ResetPasswordWithToken c token hash now b))"
proof (rule reset_success [OF assms(2)])
  fix t d
  assume s: "snd (ResetPasswordWithToken c token hash now b) = revoke_user c u
       (b\<lparr>bkAuthTokens := del token (bkAuthTokens b), bkPasswords := put (auth_key c u) hash (bkPasswords b),
          bkCredentials := put (auth_key c u) (clear_lock d) (bkCredentials b)\<rparr>)"
  show ?thesis
    unfolding s by (rule revoke_user_replaced) (use reachable_maps [OF assms(1)] in simp_all)
qed

text \<open>
  C26. Whenever a user's password is set, changed against the old hash, or reset with a
  token, the new hash is in force, exactly that user's sessions and API keys are
  revoked, everybody else's stay, and from then on a login for that user with any
  other hash is refused. Upgrading a hash to stronger parameters revokes nothing.
\<close>

theorem replacing_a_password_revokes:
  assumes "reachable_auth b" "IsValidStableID c"
  shows "(fst (SetPasswordHash c u hash verified b) = Inr () \<longrightarrow>
      password_replaced c u hash b (snd (SetPasswordHash c u hash verified b)))
    \<and> (fst (ChangePasswordHash c u old hash b) = Inr () \<longrightarrow>
      password_replaced c u hash b (snd (ChangePasswordHash c u old hash b)))
    \<and> (fst (ResetPasswordWithToken c token hash now b) = Inr u \<longrightarrow>
      password_replaced c u hash b (snd (ResetPasswordWithToken c token hash now b)))
    \<and> bkSessions (snd (UpgradePasswordHash c u old hash b)) = bkSessions b
    \<and> bkApiKeys (snd (UpgradePasswordHash c u old hash b)) = bkApiKeys b
    \<and> (password_replaced c u hash b b' \<and> sesCollectionID r = c \<and> sesUserID r = u
        \<and> fst (CreateSession r other b') = Inr () \<longrightarrow> other = hash)"
proof (intro conjI impI)
  note w = reachable_maps [OF assms(1)]
  note replace = replacePasswordHash_replaced [OF _ _ stable_id_colon [OF assms(2)]]
  show "password_replaced c u hash b (snd (SetPasswordHash c u hash verified b))"
    if "fst (SetPasswordHash c u hash verified b) = Inr ()"
    using that w replace by (auto simp: SetPasswordHash_def Let_def split: if_splits)
  show "password_replaced c u hash b (snd (ChangePasswordHash c u old hash b))"
    if "fst (ChangePasswordHash c u old hash b) = Inr ()"
    using changed_replaced [OF assms] that by (simp add: ChangePasswordHash_def)
  show "password_replaced c u hash b (snd (ResetPasswordWithToken c token hash now b))"
    if "fst (ResetPasswordWithToken c token hash now b) = Inr u"
    using reset_replaced [OF assms(1)] that by simp
  show "other = hash" if "password_replaced c u hash b b' \<and> sesCollectionID r = c \<and> sesUserID r = u
      \<and> fst (CreateSession r other b') = Inr ()"
    using login_needs_current_hash that by blast
qed (simp_all add: UpgradePasswordHash_def compare_and_set_password_def replacePasswordHash_def
    Let_def split: option.splits)

lemma users_id: "IsValidStableID ''users''"
  by code_simp

lemma change_example: "fst (ChangePasswordHash ''users'' ''u1'' ''h1'' ''h2'' auth4) = Inr ()"
  by (simp add: ChangePasswordHash_def compare_and_set_password_def auth4_eq auth3_eq auth2_eq auth1_def
      auth_example_defs example_user_def Let_def)

theorem replacing_a_password_revokes_witness:
  "map_of (bkSessions auth4) ''t1'' = Some example_session
   \<and> map_of (bkSessions (snd (ChangePasswordHash ''users'' ''u1'' ''h1'' ''h2'' auth4))) ''t1'' = None"
proof
  show 1: "map_of (bkSessions auth4) ''t1'' = Some example_session"
    by (simp add: auth4_eq auth3_eq)
  have "password_replaced ''users'' ''u1'' ''h2'' auth4 (snd (ChangePasswordHash ''users'' ''u1'' ''h1'' ''h2'' auth4))"
    using replacing_a_password_revokes [OF auth_steps(3) users_id] change_example by blast
  then have "\<forall>s. map_of (bkSessions (snd (ChangePasswordHash ''users'' ''u1'' ''h1'' ''h2'' auth4))) ''t1'' = Some s \<longrightarrow>
      map_of (bkSessions auth4) ''t1'' = Some s \<and> \<not> (sesCollectionID s = ''users'' \<and> sesUserID s = ''u1'')"
    by (simp add: password_replaced_def)
  then show "map_of (bkSessions (snd (ChangePasswordHash ''users'' ''u1'' ''h1'' ''h2'' auth4))) ''t1'' = None"
    unfolding 1 by (cases "map_of (bkSessions (snd (ChangePasswordHash ''users'' ''u1'' ''h1'' ''h2'' auth4))) ''t1''")
      (auto simp: example_session_def)
qed

section \<open>Single-use tokens\<close>

definition token_dead :: "string \<Rightarrow> backend \<Rightarrow> bool" where
  "token_dead token b \<longleftrightarrow> (\<forall>c hash now.
     fst (ResetPasswordWithToken c token hash now b) = Inl ErrNotFound
     \<and> fst (VerifyEmailWithToken c token now b) = Inl ErrNotFound)"

lemma token_deadI: "map_of (bkAuthTokens b) token = None \<Longrightarrow> token_dead token b"
  by (simp add: token_dead_def ResetPasswordWithToken_def VerifyEmailWithToken_def usable_token_def)

lemma usable_tokenD:
  "usable_token p c token now b = Some t \<Longrightarrow>
   map_of (bkAuthTokens b) token = Some t \<and> tokCollectionID t = c \<and> tokPurpose t = p \<and> now < tokExpiresAt t"
  by (auto simp: usable_token_def split: option.splits if_splits)

lemma reset_spends:
  assumes "fst (ResetPasswordWithToken c token hash now b) = Inr u"
  shows "\<exists>t. map_of (bkAuthTokens b) token = Some t \<and> tokCollectionID t = c \<and> tokUserID t = u
      \<and> tokPurpose t = AuthTokenPasswordReset \<and> now < tokExpiresAt t
      \<and> token_dead token (snd (ResetPasswordWithToken c token hash now b))"
proof (rule reset_success [OF assms])
  fix t d
  assume t: "usable_token AuthTokenPasswordReset c token now b = Some t" and u: "u = tokUserID t"
    and s: "snd (ResetPasswordWithToken c token hash now b) = revoke_user c u
       (b\<lparr>bkAuthTokens := del token (bkAuthTokens b), bkPasswords := put (auth_key c u) hash (bkPasswords b),
          bkCredentials := put (auth_key c u) (clear_lock d) (bkCredentials b)\<rparr>)"
  have "token_dead token (snd (ResetPasswordWithToken c token hash now b))"
    unfolding s by (rule token_deadI) simp
  then show ?thesis using usable_tokenD [OF t] u by blast
qed

lemma verify_spends:
  assumes "fst (VerifyEmailWithToken c token now b) = Inr u"
  shows "\<exists>t. map_of (bkAuthTokens b) token = Some t \<and> tokCollectionID t = c \<and> tokUserID t = u
      \<and> tokPurpose t = AuthTokenVerifyEmail \<and> now < tokExpiresAt t
      \<and> token_dead token (snd (VerifyEmailWithToken c token now b))
      \<and> map_option crdVerified (map_of (bkCredentials (snd (VerifyEmailWithToken c token now b))) (auth_key c u))
        = Some True"
proof -
  obtain t where t: "usable_token AuthTokenVerifyEmail c token now b = Some t"
    using assms by (cases "usable_token AuthTokenVerifyEmail c token now b") (auto simp: VerifyEmailWithToken_def)
  obtain d where d: "map_of (bkCredentials b) (auth_key c (tokUserID t)) = Some d"
    using assms t by (cases "map_of (bkCredentials b) (auth_key c (tokUserID t))")
      (auto simp: VerifyEmailWithToken_def Let_def)
  have s: "VerifyEmailWithToken c token now b = (Inr (tokUserID t),
      b\<lparr>bkAuthTokens := del token (bkAuthTokens b),
        bkCredentials := put (auth_key c (tokUserID t)) (d\<lparr>crdVerified := True\<rparr>) (bkCredentials b)\<rparr>)"
    using t d by (simp add: VerifyEmailWithToken_def Let_def)
  have dead: "token_dead token (snd (VerifyEmailWithToken c token now b))"
    unfolding s by (rule token_deadI) simp
  have verified: "map_option crdVerified (map_of (bkCredentials (snd (VerifyEmailWithToken c token now b))) (auth_key c u))
        = Some True"
    using assms by (simp add: s)
  have u: "tokUserID t = u" using assms by (simp add: s)
  show ?thesis
    using usable_tokenD [OF t] u dead verified by blast
qed

lemma newer_token_replaces:
  assumes "reachable_auth b" "fst (CreateAuthToken t b) = Inr ()"
    "map_of (bkAuthTokens b) old = Some t0" "tokCollectionID t0 = tokCollectionID t"
    "tokUserID t0 = tokUserID t" "tokPurpose t0 = tokPurpose t" "old \<noteq> tokTokenHash t"
  shows "token_dead old (snd (CreateAuthToken t b))"
proof (rule token_deadI)
  have w: "wf_map (bkAuthTokens b)" using reachable_maps [OF assms(1)] by simp
  have "map_of (filter (\<lambda>(_, c). \<not> (tokCollectionID c = tokCollectionID t \<and> tokUserID c = tokUserID t
                                \<and> tokPurpose c = tokPurpose t)) (bkAuthTokens b)) old = None"
    using w assms(3-6) by (simp add: map_of_filter_None)
  then show "map_of (bkAuthTokens (snd (CreateAuthToken t b))) old = None"
    using assms(2,7) by (auto simp: CreateAuthToken_def split: if_splits)
qed

text \<open>
  C27. A token resets a password, or verifies an address, only in its own collection,
  for its own purpose and user and before it expires, and works once: afterwards it is
  refused for every purpose and collection and at every time. Issuing a newer token of
  the same purpose for the same user kills the older one.
\<close>

theorem tokens_are_single_use:
  assumes "reachable_auth b"
  shows "(fst (ResetPasswordWithToken c token hash now b) = Inr u \<longrightarrow>
      (\<exists>t. map_of (bkAuthTokens b) token = Some t \<and> tokCollectionID t = c \<and> tokUserID t = u
        \<and> tokPurpose t = AuthTokenPasswordReset \<and> now < tokExpiresAt t
        \<and> token_dead token (snd (ResetPasswordWithToken c token hash now b))))
    \<and> (fst (VerifyEmailWithToken c token now b) = Inr u \<longrightarrow>
      (\<exists>t. map_of (bkAuthTokens b) token = Some t \<and> tokCollectionID t = c \<and> tokUserID t = u
        \<and> tokPurpose t = AuthTokenVerifyEmail \<and> now < tokExpiresAt t
        \<and> token_dead token (snd (VerifyEmailWithToken c token now b))
        \<and> map_option crdVerified (map_of (bkCredentials (snd (VerifyEmailWithToken c token now b))) (auth_key c u))
          = Some True))
    \<and> (fst (CreateAuthToken t b) = Inr () \<and> map_of (bkAuthTokens b) old = Some t0
        \<and> tokCollectionID t0 = tokCollectionID t \<and> tokUserID t0 = tokUserID t
        \<and> tokPurpose t0 = tokPurpose t \<and> old \<noteq> tokTokenHash t \<longrightarrow>
       token_dead old (snd (CreateAuthToken t b)))"
proof (intro conjI impI)
  show "token_dead old (snd (CreateAuthToken t b))"
    if "fst (CreateAuthToken t b) = Inr () \<and> map_of (bkAuthTokens b) old = Some t0
        \<and> tokCollectionID t0 = tokCollectionID t \<and> tokUserID t0 = tokUserID t
        \<and> tokPurpose t0 = tokPurpose t \<and> old \<noteq> tokTokenHash t"
    using that by (elim conjE) (rule newer_token_replaces [OF assms])
qed (fact reset_spends verify_spends)+

theorem tokens_are_single_use_witness:
  "fst (ResetPasswordWithToken ''users'' ''r1'' ''h2'' 10 auth4) = Inr ''u1''
   \<and> token_dead ''r1'' (snd (ResetPasswordWithToken ''users'' ''r1'' ''h2'' 10 auth4))"
proof
  show 1: "fst (ResetPasswordWithToken ''users'' ''r1'' ''h2'' 10 auth4) = Inr ''u1''"
    by (simp add: ResetPasswordWithToken_def usable_token_def auth4_eq auth3_eq auth2_eq example_token_def
        example_key Let_def)
  show "token_dead ''r1'' (snd (ResetPasswordWithToken ''users'' ''r1'' ''h2'' 10 auth4))"
    using tokens_are_single_use [OF auth_steps(3)] 1 by blast
qed

section \<open>Lockout\<close>

text \<open>Failed logins at the given times, one after the other.\<close>

definition fail_logins :: "string \<Rightarrow> string \<Rightarrow> int \<Rightarrow> duration \<Rightarrow> time list \<Rightarrow> backend \<Rightarrow> backend" where
  "fail_logins c u maximum d ts b = fold (\<lambda>now b. snd (RecordFailedLogin c u now maximum d b)) ts b"

definition credential_at :: "backend \<Rightarrow> string \<Rightarrow> string \<Rightarrow> auth_credential option" where
  "credential_at b c u = known_credential b (auth_key c u)"

lemma known_credential_put [simp]:
  "known_credential (b\<lparr>bkCredentials := put k c (bkCredentials b)\<rparr>) k = Some c"
  by (simp add: known_credential_def)

lemma failed_login_open:
  assumes "credential_at b c u = Some cr" "crdLockedUntil cr = zero_time" "zero_time \<le> now"
  shows "credential_at (snd (RecordFailedLogin c u now maximum d b)) c u =
      Some (cr\<lparr>crdFailedLoginAttempts := crdFailedLoginAttempts cr + 1,
               crdLockedUntil := (if crdFailedLoginAttempts cr + 1 \<ge> maximum then now + d else zero_time)\<rparr>)"
  using assms by (cases cr) (simp add: RecordFailedLogin_def credential_at_def time_IsZero_def Let_def)

lemma failed_login_locked:
  assumes "credential_at b c u = Some cr" "now < crdLockedUntil cr"
  shows "RecordFailedLogin c u now maximum d b = (Inr cr, b)"
    and "ResetLoginAttempts c u now b = (Inr False, b)"
  using assms by (simp_all add: RecordFailedLogin_def ResetLoginAttempts_def credential_at_def Let_def)

lemma failed_login_after_lock:
  assumes "credential_at b c u = Some cr" "\<not> now < crdLockedUntil cr" "crdLockedUntil cr \<noteq> zero_time" "1 < maximum"
  shows "credential_at (snd (RecordFailedLogin c u now maximum d b)) c u =
      Some (cr\<lparr>crdFailedLoginAttempts := 1, crdLockedUntil := zero_time\<rparr>)"
  using assms by (cases cr) (simp add: RecordFailedLogin_def credential_at_def time_IsZero_def clear_lock_def Let_def)

lemma fail_logins_count:
  assumes "credential_at b c u = Some cr" "crdLockedUntil cr = zero_time" "\<forall>t\<in>set ts. zero_time \<le> t"
    "crdFailedLoginAttempts cr + int (length ts) < maximum"
  shows "credential_at (fail_logins c u maximum d ts b) c u =
    Some (cr\<lparr>crdFailedLoginAttempts := crdFailedLoginAttempts cr + int (length ts)\<rparr>)"
  using assms
proof (induction ts arbitrary: b cr)
  case Nil
  then show ?case by (simp add: fail_logins_def)
next
  case (Cons t ts)
  let ?cr = "cr\<lparr>crdFailedLoginAttempts := crdFailedLoginAttempts cr + 1, crdLockedUntil := zero_time\<rparr>"
  have "credential_at (snd (RecordFailedLogin c u t maximum d b)) c u = Some ?cr"
    using failed_login_open [OF Cons.prems(1,2), of t maximum d] Cons.prems(3,4) by simp
  from Cons.IH [OF this] Cons.prems
  show ?case by (cases cr) (simp add: fail_logins_def)
qed

lemma fail_logins_snoc:
  "fail_logins c u maximum d (ts @ [t]) b = snd (RecordFailedLogin c u t maximum d (fail_logins c u maximum d ts b))"
  by (simp add: fail_logins_def)

text \<open>
  C28. From a clean credential, each failed login before the configured maximum is
  counted and locks nothing; the login that reaches the maximum locks the credential
  until exactly the lock duration after it. While the lock lasts neither a further
  failure nor a correct password changes anything: both report the lock, and the
  counter is kept. The first failure after the lock starts the count again at one.
\<close>

theorem lockout_follows_failures:
  assumes clean: "credential_at b c u = Some cr" "crdFailedLoginAttempts cr = 0" "crdLockedUntil cr = zero_time"
    and times: "\<forall>x\<in>set (ts @ [t]). zero_time \<le> x" "0 < d"
    and limit: "int (length ts) + 1 = maximum"
  shows "(\<forall>n\<le>length ts. credential_at (fail_logins c u maximum d (take n ts) b) c u =
        Some (cr\<lparr>crdFailedLoginAttempts := int n\<rparr>))
    \<and> credential_at (fail_logins c u maximum d (ts @ [t]) b) c u =
        Some (cr\<lparr>crdFailedLoginAttempts := maximum, crdLockedUntil := t + d\<rparr>)
    \<and> (\<forall>now < t + d.
        RecordFailedLogin c u now maximum d (fail_logins c u maximum d (ts @ [t]) b) =
          (Inr (cr\<lparr>crdFailedLoginAttempts := maximum, crdLockedUntil := t + d\<rparr>),
           fail_logins c u maximum d (ts @ [t]) b)
        \<and> ResetLoginAttempts c u now (fail_logins c u maximum d (ts @ [t]) b) =
          (Inr False, fail_logins c u maximum d (ts @ [t]) b))
    \<and> (\<forall>now \<ge> t + d. 1 < maximum \<longrightarrow>
        credential_at (snd (RecordFailedLogin c u now maximum d (fail_logins c u maximum d (ts @ [t]) b))) c u =
          Some (cr\<lparr>crdFailedLoginAttempts := 1\<rparr>))"
proof -
  have counted: "credential_at (fail_logins c u maximum d (take n ts) b) c u =
        Some (cr\<lparr>crdFailedLoginAttempts := int n\<rparr>)" if "n \<le> length ts" for n
    using fail_logins_count [OF clean(1,3), of "take n ts" maximum d] that times limit clean(2)
    by (auto dest: in_set_takeD)
  have locked: "credential_at (fail_logins c u maximum d (ts @ [t]) b) c u =
        Some (cr\<lparr>crdFailedLoginAttempts := maximum, crdLockedUntil := t + d\<rparr>)"
    using failed_login_open [OF counted [of "length ts", simplified], of t maximum d] clean(3) times limit
    by (simp add: fail_logins_snoc add.commute)
  have "t + d \<noteq> zero_time" using times by (auto simp: zero_time_def)
  then have after: "credential_at (snd (RecordFailedLogin c u now maximum d (fail_logins c u maximum d (ts @ [t]) b))) c u =
          Some (cr\<lparr>crdFailedLoginAttempts := 1\<rparr>)" if "t + d \<le> now" "1 < maximum" for now
    using failed_login_after_lock [OF locked, of now maximum d] that clean(3) by (cases cr) simp
  show ?thesis
    using counted locked failed_login_locked [OF locked] after by simp
qed

lemma auth4_credential: "credential_at auth4 ''users'' ''u1'' = Some example_credential"
  by (simp add: credential_at_def known_credential_def auth4_eq auth3_eq auth2_eq example_key)

theorem lockout_follows_failures_witness:
  "ResetLoginAttempts ''users'' ''u1'' 12 (fail_logins ''users'' ''u1'' 3 10 [1, 2, 3] auth4) =
     (Inr False, fail_logins ''users'' ''u1'' 3 10 [1, 2, 3] auth4)
   \<and> credential_at (fail_logins ''users'' ''u1'' 3 10 [1, 2, 3] auth4) ''users'' ''u1'' =
     Some (example_credential\<lparr>crdFailedLoginAttempts := 3, crdLockedUntil := 13\<rparr>)"
  using lockout_follows_failures [OF auth4_credential, of "[1, 2]" 3 10 3]
  by (simp add: example_credential_def zero_credential_def zero_time_def)

section \<open>Rate limiting\<close>

fun auth_attempts ::
  "string \<Rightarrow> duration \<Rightarrow> int \<Rightarrow> time list \<Rightarrow> backend \<Rightarrow> (store_error + bool) list \<times> backend" where
  "auth_attempts kh w maximum [] b = ([], b)"
| "auth_attempts kh w maximum (t # ts) b =
     (let (r, b1) = AllowAuthAttempt kh t w maximum b; (rs, b2) = auth_attempts kh w maximum ts b1
      in (r # rs, b2))"

definition window_over :: "backend \<Rightarrow> string \<Rightarrow> time \<Rightarrow> bool" where
  "window_over b kh now \<longleftrightarrow>
     (\<forall>r. map_of (bkRateLimits b) kh = Some r \<longrightarrow> time_IsZero (rlmExpiresAt r) \<or> \<not> now < rlmExpiresAt r)"

definition bucket_at :: "backend \<Rightarrow> string \<Rightarrow> int \<Rightarrow> time \<Rightarrow> bool" where
  "bucket_at b kh n e \<longleftrightarrow> map_of (bkRateLimits b) kh = Some \<lparr>rlmAttempts = n, rlmExpiresAt = e\<rparr>"

lemma attempt_fresh:
  assumes "window_over b kh now"
  shows "fst (AllowAuthAttempt kh now w maximum b) = Inr (1 \<le> maximum)"
    and "bucket_at (snd (AllowAuthAttempt kh now w maximum b)) kh 1 (now + w)"
  using assms
  by (auto simp: AllowAuthAttempt_def window_over_def bucket_at_def time_IsZero_def Let_def split: option.splits)

lemma attempt_counted:
  assumes "bucket_at b kh n e" "now < e" "e \<noteq> zero_time"
  shows "fst (AllowAuthAttempt kh now w maximum b) = Inr (n + 1 \<le> maximum)"
    and "bucket_at (snd (AllowAuthAttempt kh now w maximum b)) kh (n + 1) e"
  using assms by (auto simp: AllowAuthAttempt_def bucket_at_def time_IsZero_def Let_def)

lemma attempt_other:
  "k \<noteq> kh \<Longrightarrow> map_of (bkRateLimits (snd (AllowAuthAttempt kh now w maximum b))) k = map_of (bkRateLimits b) k"
  by (simp add: AllowAuthAttempt_def Let_def)

lemma admitted_Suc:
  "map (\<lambda>i. Inr (n + int i < maximum) :: store_error + bool) [0..<Suc k] =
   Inr (n + 1 \<le> maximum) # map (\<lambda>i. Inr (n + 1 + int i < maximum)) [0..<k]"
  by (simp add: upt_rec [of 0] map_Suc_upt [symmetric] del: upt_Suc) (auto simp: comp_def)

lemma attempts_counted:
  assumes "bucket_at b kh n e" "\<forall>t\<in>set ts. t < e" "e \<noteq> zero_time"
  shows "fst (auth_attempts kh w maximum ts b) = map (\<lambda>i. Inr (n + int i < maximum)) [0..<length ts]
    \<and> bucket_at (snd (auth_attempts kh w maximum ts b)) kh (n + int (length ts)) e"
  using assms
proof (induction ts arbitrary: b n)
  case (Cons t ts)
  have t: "t < e" using Cons.prems by simp
  note a = attempt_counted [OF Cons.prems(1) t Cons.prems(3), of w maximum]
  show ?case
    using Cons.IH [OF a(2)] Cons.prems a(1) admitted_Suc [of n maximum "length ts"]
    by (simp add: case_prod_beta Let_def algebra_simps del: upt_Suc)
qed simp

lemma attempts_other:
  "k \<noteq> kh \<Longrightarrow> map_of (bkRateLimits (snd (auth_attempts kh w maximum ts b))) k = map_of (bkRateLimits b) k"
  by (induction ts arbitrary: b) (simp_all add: case_prod_beta Let_def attempt_other)

text \<open>
  C29. Of any number of attempts that fall into one window, the rate limiter admits
  exactly the first \<open>maximum\<close>, whatever their spacing; attempts under one key never
  touch another key; and the first attempt at or after the end of the window opens a
  new one.
\<close>

theorem rate_limit_admits_exactly:
  assumes "window_over b kh t" "\<forall>x\<in>set ts. x < t + w" "t + w \<noteq> zero_time"
  shows "fst (auth_attempts kh w maximum (t # ts) b) =
      map (\<lambda>i. Inr (int i < maximum)) [0..<length (t # ts)]
    \<and> (\<forall>k. k \<noteq> kh \<longrightarrow>
        map_of (bkRateLimits (snd (auth_attempts kh w maximum (t # ts) b))) k = map_of (bkRateLimits b) k)
    \<and> (\<forall>later. window_over (snd (auth_attempts kh w maximum (t # ts) b)) kh later \<longleftrightarrow> t + w \<le> later)"
proof -
  let ?b = "snd (AllowAuthAttempt kh t w maximum b)"
  note a = attempt_fresh [OF assms(1), of w maximum]
  note c = attempts_counted [OF a(2) assms(2,3), of w maximum]
  have results: "fst (auth_attempts kh w maximum (t # ts) b) =
      map (\<lambda>i. Inr (int i < maximum)) [0..<length (t # ts)]"
    using a(1) c admitted_Suc [of 0 maximum "length ts"] by (simp add: case_prod_beta Let_def del: upt_Suc)
  have "bucket_at (snd (auth_attempts kh w maximum (t # ts) b)) kh (1 + int (length ts)) (t + w)"
    using c by (simp add: case_prod_beta Let_def)
  then have "window_over (snd (auth_attempts kh w maximum (t # ts) b)) kh later \<longleftrightarrow> t + w \<le> later" for later
    using assms(3) by (auto simp: bucket_at_def window_over_def time_IsZero_def)
  then show ?thesis
    using results attempts_other [of _ kh w maximum "t # ts" b] by blast
qed

theorem rate_limit_admits_exactly_witness:
  "fst (auth_attempts ''login'' 60 2 [10, 11, 12] New) = [Inr True, Inr True, Inr False]"
proof -
  have "window_over New ''login'' 10" by (simp add: window_over_def New_def)
  from rate_limit_admits_exactly [OF this, of "[11, 12]" 60 2] show ?thesis
    by (simp add: zero_time_def upt_rec del: auth_attempts.simps)
qed

section \<open>Rotation\<close>

text \<open>Rotations one after the other, each of the session the one before it left.\<close>

fun rotate_chain :: "(auth_session \<times> time) list \<Rightarrow> string \<Rightarrow> backend \<Rightarrow> (string \<times> backend) option" where
  "rotate_chain [] h b = Some (h, b)"
| "rotate_chain ((r, now) # rs) h b =
     (case RotateSession h r now b of
        (Inr _, b') \<Rightarrow> rotate_chain rs (sesTokenHash r) b'
      | (Inl _, _) \<Rightarrow> None)"

definition same_session :: "auth_session \<Rightarrow> auth_session \<Rightarrow> bool" where
  "same_session s s' \<longleftrightarrow> sesID s' = sesID s \<and> sesCollectionID s' = sesCollectionID s
     \<and> sesUserID s' = sesUserID s \<and> sesExpiresAt s' = sesExpiresAt s \<and> sesCreatedAt s' = sesCreatedAt s
     \<and> sesIPAddress s' = sesIPAddress s \<and> sesUserAgent s' = sesUserAgent s"

lemma rotate_moves:
  assumes "fst (RotateSession h r now b) = Inr ()"
  shows "\<exists>s. map_of (bkSessions b) h = Some s \<and> now < sesExpiresAt s
      \<and> sesCollectionID r = sesCollectionID s \<and> sesUserID r = sesUserID s
      \<and> activeDocument b (sesCollectionID s) (sesUserID s)
      \<and> map_of (bkSessions (snd (RotateSession h r now b))) = (map_of (bkSessions b))(h := None,
          sesTokenHash r \<mapsto> s\<lparr>sesTokenHash := sesTokenHash r, sesLastSeenAt := now\<rparr>)"
  using assms by (auto simp: RotateSession_def Let_def fun_eq_iff split: option.splits if_splits)

lemma rotate_chain_session:
  assumes "rotate_chain rs h b = Some (h', b')" "map_of (bkSessions b) h = Some s"
  shows "\<exists>s'. map_of (bkSessions b') h' = Some s' \<and> same_session s s'"
  using assms
proof (induction rs arbitrary: h b s)
  case Nil
  then show ?case by (auto simp: same_session_def)
next
  case (Cons x rs)
  obtain r now where x: "x = (r, now)" by (cases x)
  have ok: "fst (RotateSession h r now b) = Inr ()" and
    rest: "rotate_chain rs (sesTokenHash r) (snd (RotateSession h r now b)) = Some (h', b')"
    using Cons.prems(1) x by (auto split: prod.splits sum.splits)
  have "map_of (bkSessions (snd (RotateSession h r now b))) (sesTokenHash r)
      = Some (s\<lparr>sesTokenHash := sesTokenHash r, sesLastSeenAt := now\<rparr>)"
    using rotate_moves [OF ok] Cons.prems(2) by auto
  from Cons.IH [OF rest this] show ?case by (auto simp: same_session_def)
qed

text \<open>
  C30. A rotation succeeds only for a stored, unexpired session of the same active
  user. It retires the old token, files the session under the new one and changes
  no other session; and however often a session is rotated, its expiry, its
  identity and its creation time stay those it was created with, so rotation never
  extends it.
\<close>

theorem rotation_never_extends_a_session:
  shows "(fst (RotateSession h r now b) = Inr () \<longrightarrow>
      (\<exists>s. map_of (bkSessions b) h = Some s \<and> now < sesExpiresAt s
        \<and> sesCollectionID r = sesCollectionID s \<and> sesUserID r = sesUserID s
        \<and> activeDocument b (sesCollectionID s) (sesUserID s)
        \<and> map_of (bkSessions (snd (RotateSession h r now b))) = (map_of (bkSessions b))(h := None,
            sesTokenHash r \<mapsto> s\<lparr>sesTokenHash := sesTokenHash r, sesLastSeenAt := now\<rparr>))
      \<and> (h \<noteq> sesTokenHash r \<longrightarrow>
          fst (FindSession h later (snd (RotateSession h r now b))) = Inl ErrNotFound))
    \<and> (rotate_chain rs h b = Some (h', b') \<and> map_of (bkSessions b) h = Some s0 \<and> sesExpiresAt s0 \<le> later \<longrightarrow>
        fst (FindSession h' later b') = Inl ErrNotFound)
    \<and> (rotate_chain rs h b = Some (h', b') \<and> map_of (bkSessions b) h = Some s0
        \<and> fst (FindSession h' later b') = Inr s1 \<longrightarrow> same_session s0 s1)"
proof (intro conjI impI)
  assume ok: "fst (RotateSession h r now b) = Inr ()"
  show "\<exists>s. map_of (bkSessions b) h = Some s \<and> now < sesExpiresAt s
        \<and> sesCollectionID r = sesCollectionID s \<and> sesUserID r = sesUserID s
        \<and> activeDocument b (sesCollectionID s) (sesUserID s)
        \<and> map_of (bkSessions (snd (RotateSession h r now b))) = (map_of (bkSessions b))(h := None,
            sesTokenHash r \<mapsto> s\<lparr>sesTokenHash := sesTokenHash r, sesLastSeenAt := now\<rparr>)"
    using ok by (rule rotate_moves)
  show "fst (FindSession h later (snd (RotateSession h r now b))) = Inl ErrNotFound" if "h \<noteq> sesTokenHash r"
    using rotate_moves [OF ok] that by (auto simp: session_lookup.refused_iff)
next
  assume a: "rotate_chain rs h b = Some (h', b') \<and> map_of (bkSessions b) h = Some s0 \<and> sesExpiresAt s0 \<le> later"
  then show "fst (FindSession h' later b') = Inl ErrNotFound"
    using rotate_chain_session [of rs h b h' b' s0] by (auto simp: session_lookup.refused_iff same_session_def)
next
  assume "rotate_chain rs h b = Some (h', b') \<and> map_of (bkSessions b) h = Some s0
        \<and> fst (FindSession h' later b') = Inr s1"
  then show "same_session s0 s1"
    using rotate_chain_session [of rs h b h' b' s0] by (auto simp: session_lookup.found_iff)
qed

definition example_rotated :: auth_session where
  "example_rotated = example_session\<lparr>sesTokenHash := ''t2''\<rparr>"

theorem rotation_never_extends_a_session_witness:
  "fst (RotateSession ''t1'' example_rotated 5 auth4) = Inr ()
   \<and> fst (FindSession ''t1'' 6 (snd (RotateSession ''t1'' example_rotated 5 auth4))) = Inl ErrNotFound"
proof
  show 1: "fst (RotateSession ''t1'' example_rotated 5 auth4) = Inr ()"
    by (simp add: RotateSession_def auth4_eq auth3_eq auth2_eq auth1_def example_session_def example_rotated_def
        activeDocument_def example_user_def Let_def)
  have "''t1'' \<noteq> sesTokenHash example_rotated" by (simp add: example_rotated_def)
  then show "fst (FindSession ''t1'' 6 (snd (RotateSession ''t1'' example_rotated 5 auth4))) = Inl ErrNotFound"
    using rotation_never_extends_a_session [of "''t1''" example_rotated 5 auth4 6 "[]" "''t1''" auth4 example_session example_session]
      1 by blast
qed

section \<open>Pruning\<close>

text \<open>
  At most \<open>limit\<close> entries are dropped, all of them expired and none of them expiring
  later than an expired entry that stays; nothing else changes.
\<close>

definition oldest_dropped ::
  "('v \<Rightarrow> time) \<Rightarrow> ('v \<Rightarrow> bool) \<Rightarrow> int \<Rightarrow> nat \<Rightarrow> (string \<rightharpoonup> 'v) \<Rightarrow> (string \<rightharpoonup> 'v) \<Rightarrow> bool" where
  "oldest_dropped expiry expired limit n m m' \<longleftrightarrow>
     (\<exists>gone. m' = m |` (- gone)
        \<and> gone \<subseteq> {k. \<exists>v. m k = Some v \<and> expired v}
        \<and> card gone = n
        \<and> n = min (nat limit) (card {k. \<exists>v. m k = Some v \<and> expired v})
        \<and> (\<forall>k\<in>gone. \<forall>j v w. m k = Some v \<and> m j = Some w \<and> expired w \<and> j \<notin> gone \<longrightarrow> expiry v \<le> expiry w))"

lemma sorted_take_drop: "sorted xs \<Longrightarrow> x \<in> set (take n xs) \<Longrightarrow> y \<in> set (drop n xs) \<Longrightarrow> x \<le> y"
  by (metis append_take_drop_id sorted_append)

lemma set_drop_rest: "x \<in> set xs \<Longrightarrow> x \<notin> set (take n xs) \<Longrightarrow> x \<in> set (drop n xs)"
  by (metis Un_iff append_take_drop_id set_append)

lemma expired_batch_oldest:
  assumes w: "wf_map m"
  shows "oldest_dropped expiry expired limit (length (expired_batch expiry expired limit m))
     (map_of m) (map_of (fold del (expired_batch expiry expired limit m) m))"
proof -
  define cs where "cs = map (\<lambda>(i, v). (expiry v, i)) (filter (\<lambda>(_, v). expired v) m)"
  define gone where "gone = set (expired_batch expiry expired limit m)"
  have batch: "expired_batch expiry expired limit m = map snd (take (nat limit) (sort cs))"
    by (simp add: expired_batch_def cs_def)
  have mem: "(e, i) \<in> set cs \<longleftrightarrow> (\<exists>v. map_of m i = Some v \<and> expired v \<and> e = expiry v)" for e i
    using wf_map_mem [OF w] by (auto simp: cs_def)
  have names: "map snd cs = map fst (filter (\<lambda>(_, v). expired v) m)"
    unfolding cs_def by (induction m) auto
  have dist: "distinct (map snd cs)"
    using wf_map_filter [OF w, of "\<lambda>(_, v). expired v"] by (simp add: names wf_map_def)
  have dist': "distinct (map snd (sort cs))"
    using dist by (metis distinct_map distinct_sort set_sort)
  have dead: "{k. \<exists>v. map_of m k = Some v \<and> expired v} = snd ` set cs"
    using mem by force
  have count: "card (snd ` set cs) = length cs"
    using dist by (metis distinct_card length_map set_map)
  have sub: "gone \<subseteq> snd ` set cs"
    unfolding gone_def batch by (auto dest!: in_set_takeD intro: rev_image_eqI)
  have len: "length (expired_batch expiry expired limit m) = min (nat limit) (length cs)"
    unfolding batch by simp
  have cardg: "card gone = length (expired_batch expiry expired limit m)"
    unfolding gone_def batch using dist' by (simp add: distinct_card take_map [symmetric])
  have order: "expiry v \<le> expiry w'"
    if "k \<in> gone" "map_of m k = Some v" "map_of m j = Some w'" "expired w'" "j \<notin> gone" for k j v w'
  proof -
    have "k \<in> snd ` set (take (nat limit) (sort cs))" using that(1) by (simp only: gone_def batch set_map)
    then obtain e where k: "(e, k) \<in> set (take (nat limit) (sort cs))" by (elim imageE) (metis prod.collapse)
    then have "(e, k) \<in> set cs" by (metis in_set_takeD set_sort)
    then have e: "e = expiry v" using that(2) by (auto simp: mem)
    have "(expiry w', j) \<in> set (sort cs)" using that(3,4) by (auto simp: mem)
    moreover have "(expiry w', j) \<notin> set (take (nat limit) (sort cs))"
      using that(5) by (force simp: gone_def batch)
    ultimately have "(expiry w', j) \<in> set (drop (nat limit) (sort cs))" by (rule set_drop_rest)
    from sorted_take_drop [OF sorted_sort k this] show ?thesis by (auto simp: e less_eq_prod_def)
  qed
  have state: "map_of (fold del (expired_batch expiry expired limit m) m) = map_of m |` (- gone)"
    by (auto simp: fun_eq_iff fold_del_map_of gone_def restrict_map_def)
  show ?thesis
    unfolding oldest_dropped_def
    by (rule exI [of _ gone]) (use state sub cardg len count dead order in auto)
qed

lemma prune_result:
  assumes "1 \<le> limit \<and> limit \<le> MaxAuthPruneBatch" "wf_map (bkSessions b)" "wf_map (bkApiKeys b)"
  obtains r b' where "PruneExpiredAuth None limit now b = (Inr r, b')"
    "oldest_dropped sesExpiresAt (\<lambda>s. sesExpiresAt s \<le> now) limit (aprSessions r)
       (map_of (bkSessions b)) (map_of (bkSessions b'))"
    "oldest_dropped keyExpiresAt (\<lambda>k. \<not> key_live k now) limit (aprAPIKeys r)
       (map_of (bkApiKeys b)) (map_of (bkApiKeys b'))"
    "b' = b\<lparr>bkSessions := bkSessions b', bkApiKeys := bkApiKeys b'\<rparr>"
proof (rule that)
  let ?ss = "expired_batch sesExpiresAt (\<lambda>s. sesExpiresAt s \<le> now) limit (bkSessions b)"
  let ?ks = "expired_batch keyExpiresAt (\<lambda>k. \<not> key_live k now) limit (bkApiKeys b)"
  let ?b = "b\<lparr>bkSessions := fold del ?ss (bkSessions b), bkApiKeys := fold del ?ks (bkApiKeys b)\<rparr>"
  have le: "(\<lambda>s. \<not> now < sesExpiresAt s) = (\<lambda>s. sesExpiresAt s \<le> now)" by (auto simp: fun_eq_iff)
  have v: "ValidateAuthPruneBatch limit = None" using assms(1) by (simp add: ValidateAuthPruneBatch_def)
  show "PruneExpiredAuth None limit now b =
      (Inr \<lparr>aprSessions = length ?ss, aprAPIKeys = length ?ks\<rparr>, ?b)"
    unfolding PruneExpiredAuth_def v le by (simp add: Let_def)
  show "oldest_dropped sesExpiresAt (\<lambda>s. sesExpiresAt s \<le> now) limit
      (aprSessions \<lparr>aprSessions = length ?ss, aprAPIKeys = length ?ks\<rparr>)
      (map_of (bkSessions b)) (map_of (bkSessions ?b))"
    using expired_batch_oldest [OF assms(2), of sesExpiresAt "\<lambda>s. sesExpiresAt s \<le> now" limit]
    by simp
  show "oldest_dropped keyExpiresAt (\<lambda>k. \<not> key_live k now) limit
      (aprAPIKeys \<lparr>aprSessions = length ?ss, aprAPIKeys = length ?ks\<rparr>)
      (map_of (bkApiKeys b)) (map_of (bkApiKeys ?b))"
    using expired_batch_oldest [OF assms(3), of keyExpiresAt "\<lambda>k. \<not> key_live k now" limit]
    by simp
  show "?b = b\<lparr>bkSessions := bkSessions ?b, bkApiKeys := bkApiKeys ?b\<rparr>"
    by simp
qed

text \<open>
  C31. One pruning run with a valid limit drops, of the sessions and of the API keys
  separately, the expired entries that expire first, at most \<open>limit\<close> of each and all of
  them when there are no more; it reports the two numbers and changes nothing else. An
  invalid limit, or a cancelled context, changes nothing at all.
\<close>

theorem prune_drops_the_oldest_expired:
  assumes "reachable_auth b"
  shows "(1 \<le> limit \<and> limit \<le> MaxAuthPruneBatch \<longrightarrow>
      (\<exists>r b'. PruneExpiredAuth None limit now b = (Inr r, b')
        \<and> oldest_dropped sesExpiresAt (\<lambda>s. sesExpiresAt s \<le> now) limit (aprSessions r)
            (map_of (bkSessions b)) (map_of (bkSessions b'))
        \<and> oldest_dropped keyExpiresAt (\<lambda>k. \<not> key_live k now) limit (aprAPIKeys r)
            (map_of (bkApiKeys b)) (map_of (bkApiKeys b'))
        \<and> b' = b\<lparr>bkSessions := bkSessions b', bkApiKeys := bkApiKeys b'\<rparr>))
    \<and> (\<not> (1 \<le> limit \<and> limit \<le> MaxAuthPruneBatch) \<longrightarrow> PruneExpiredAuth None limit now b = (Inl ErrPruneBatch, b))
    \<and> PruneExpiredAuth (Some e) limit now b = (Inl (ErrContext e), b)"
proof (intro conjI impI)
  have w: "wf_map (bkSessions b)" "wf_map (bkApiKeys b)" using reachable_maps [OF assms] by simp_all
  assume "1 \<le> limit \<and> limit \<le> MaxAuthPruneBatch"
  from prune_result [OF this w] show "\<exists>r b'. PruneExpiredAuth None limit now b = (Inr r, b')
        \<and> oldest_dropped sesExpiresAt (\<lambda>s. sesExpiresAt s \<le> now) limit (aprSessions r)
            (map_of (bkSessions b)) (map_of (bkSessions b'))
        \<and> oldest_dropped keyExpiresAt (\<lambda>k. \<not> key_live k now) limit (aprAPIKeys r)
            (map_of (bkApiKeys b)) (map_of (bkApiKeys b'))
        \<and> b' = b\<lparr>bkSessions := bkSessions b', bkApiKeys := bkApiKeys b'\<rparr>" by blast
next
  assume "\<not> (1 \<le> limit \<and> limit \<le> MaxAuthPruneBatch)"
  then show "PruneExpiredAuth None limit now b = (Inl ErrPruneBatch, b)"
    by (auto simp: PruneExpiredAuth_def ValidateAuthPruneBatch_def)
qed (simp add: PruneExpiredAuth_def)

theorem prune_drops_the_oldest_expired_witness:
  "\<exists>r b'. PruneExpiredAuth None 10 100 auth4 = (Inr r, b') \<and> aprSessions r = 1 \<and> bkSessions b' = []"
proof -
  have "\<exists>r b'. PruneExpiredAuth None 10 100 auth4 = (Inr r, b')
      \<and> oldest_dropped sesExpiresAt (\<lambda>s. sesExpiresAt s \<le> 100) 10 (aprSessions r)
            (map_of (bkSessions auth4)) (map_of (bkSessions b'))"
    using prune_drops_the_oldest_expired [OF auth_steps(3), of 10 100 "[]"]
    by (simp add: MaxAuthPruneBatch_def) blast
  then obtain r b' where r: "PruneExpiredAuth None 10 100 auth4 = (Inr r, b')"
    and o: "oldest_dropped sesExpiresAt (\<lambda>s. sesExpiresAt s \<le> 100) 10 (aprSessions r)
            (map_of (bkSessions auth4)) (map_of (bkSessions b'))" by blast
  have dead: "{k. \<exists>v. map_of (bkSessions auth4) k = Some v \<and> sesExpiresAt v \<le> 100} = {''t1''}"
    by (auto simp: auth4_eq auth3_eq example_session_def)
  have n: "aprSessions r = 1"
    using o unfolding oldest_dropped_def dead by auto
  from o obtain gone where g: "gone \<subseteq> {''t1''}" "card gone = 1"
      "map_of (bkSessions b') = map_of (bkSessions auth4) |` (- gone)"
    unfolding oldest_dropped_def dead n by auto
  have "gone = {''t1''}" using g(1,2) by (auto simp: subset_singleton_iff)
  then have "map_of (bkSessions b') k = None" for k
    using g(3) by (simp add: auth4_eq auth3_eq restrict_map_def)
  then have "bkSessions b' = []" by (cases "bkSessions b'") (auto split: if_splits, metis option.distinct(1))
  then show ?thesis using r n by blast
qed

section \<open>Lookups\<close>

text \<open>
  C32. In every reachable state a session is found exactly while the state stores it
  unexpired, and then under its own token; an API key likewise, or for ever when it
  has no expiry; once found at some time, either would have been found at any earlier
  time in the same state; and two live tokens of the same purpose never belong to the
  same user.
\<close>

theorem lookups_answer_live_entries_only:
  assumes "reachable_auth b"
  shows "(fst (FindSession h now b) = Inr s \<longleftrightarrow> map_of (bkSessions b) h = Some s \<and> now < sesExpiresAt s)
    \<and> (fst (FindSession h now b) = Inr s \<longrightarrow> sesTokenHash s = h)
    \<and> (fst (FindAPIKey i now b) = Inr k \<longleftrightarrow> map_of (bkApiKeys b) i = Some k
          \<and> (time_IsZero (keyExpiresAt k) \<or> now < keyExpiresAt k))
    \<and> (fst (FindAPIKey i now b) = Inr k \<longrightarrow> keyID k = i)
    \<and> (fst (FindSession h now b) = Inr s \<and> earlier \<le> now \<longrightarrow> fst (FindSession h earlier b) = Inr s)
    \<and> (fst (FindAPIKey i now b) = Inr k \<and> earlier \<le> now \<longrightarrow> fst (FindAPIKey i earlier b) = Inr k)
    \<and> (map_of (bkAuthTokens b) g = Some t \<and> map_of (bkAuthTokens b) g' = Some t'
        \<and> tokCollectionID t = tokCollectionID t' \<and> tokUserID t = tokUserID t' \<and> tokPurpose t = tokPurpose t'
        \<longrightarrow> g = g')"
proof (intro conjI impI)
  have ok: "auth_ok b" using assms by (rule reachable_auth_ok)
  then have filed: "filed sesTokenHash (bkSessions b)" "filed keyID (bkApiKeys b)" "unique_tokens (bkAuthTokens b)"
    by (simp_all add: auth_ok_alt)
  show found: "fst (FindSession h now b) = Inr s \<longleftrightarrow> map_of (bkSessions b) h = Some s \<and> now < sesExpiresAt s"
    by (rule session_lookup.found_iff)
  show key: "fst (FindAPIKey i now b) = Inr k \<longleftrightarrow> map_of (bkApiKeys b) i = Some k
          \<and> (time_IsZero (keyExpiresAt k) \<or> now < keyExpiresAt k)"
    unfolding api_key_lookup.found_iff key_live_def ..
  show "sesTokenHash s = h" if "fst (FindSession h now b) = Inr s"
    using that found filed(1) by (simp add: filed_def)
  show "keyID k = i" if "fst (FindAPIKey i now b) = Inr k"
    using that key filed(2) by (simp add: filed_def)
  show "fst (FindSession h earlier b) = Inr s" if "fst (FindSession h now b) = Inr s \<and> earlier \<le> now"
    using that by (blast intro: session_lookup.found_earlier)
  show "fst (FindAPIKey i earlier b) = Inr k" if "fst (FindAPIKey i now b) = Inr k \<and> earlier \<le> now"
    using that by (blast intro: api_key_lookup.found_earlier)
  show "g = g'" if "map_of (bkAuthTokens b) g = Some t \<and> map_of (bkAuthTokens b) g' = Some t'
        \<and> tokCollectionID t = tokCollectionID t' \<and> tokUserID t = tokUserID t' \<and> tokPurpose t = tokPurpose t'"
    using that by (elim conjE) (rule unique_tokensD [OF filed(3)])
qed

theorem lookups_answer_live_entries_only_witness:
  "fst (FindSession ''t1'' 99 auth4) = Inr example_session
   \<and> fst (FindSession ''t1'' 100 auth4) \<noteq> Inr example_session"
proof -
  have stored: "map_of (bkSessions auth4) ''t1'' = Some example_session" "sesExpiresAt example_session = 100"
    by (simp_all add: auth4_eq auth3_eq example_session_def)
  note live = conjunct1 [OF lookups_answer_live_entries_only [OF auth_steps(3), of "''t1''" _ example_session]]
  show ?thesis unfolding live using stored by simp
qed

end
