(* ===== verification/Value_Shape.thy ===== *)
theory Value_Shape
  imports Values
begin

text \<open>
  The values a store can hold: every object is a map and every list the tree that
  building it gives, at every depth. Rebuilding such a value from its own members is
  that value; two values that differ only in the order of map entries are the same
  application value.
\<close>

function wf_value :: "svalue \<Rightarrow> bool" where
  "wf_value (SObject m) \<longleftrightarrow> wf_map m \<and> (\<forall>p\<in>set m. wf_value (snd p))"
| "wf_value (SList t) \<longleftrightarrow> t = newValueList (elements t) \<and> (\<forall>x\<in>set (elements t). wf_value x)"
| "wf_value SInvalid = True"
| "wf_value SNull = True"
| "wf_value (SString s) = True"
| "wf_value (SDocument d) = True"
| "wf_value (SNumber x) = True"
| "wf_value (SBoolean b) = True"
  by pat_completeness auto
termination
proof (relation "measure size", goal_cases)
  case (2 m p)
  then show ?case using size_member [of "fst p" "snd p" m] by simp
next
  case (3 t x)
  then show ?case using size_elements [of x t size] by simp
qed simp

definition wf_values :: "svalues \<Rightarrow> bool" where
  "wf_values m \<longleftrightarrow> wf_map m \<and> (\<forall>k v. map_of m k = Some v \<longrightarrow> wf_value v)"

lemma wf_value_object: "wf_value (SObject m) \<longleftrightarrow> wf_values m"
  unfolding wf_values_def wf_value.simps
proof (rule conj_cong [OF refl])
  assume "wf_map m"
  then show "(\<forall>p\<in>set m. wf_value (snd p)) \<longleftrightarrow> (\<forall>k v. map_of m k = Some v \<longrightarrow> wf_value v)"
    by (metis map_of_SomeD prod.collapse snd_conv wf_map_mem)
qed

declare wf_value.simps(1) [simp del]

lemma wf_values_map: "wf_values m \<Longrightarrow> wf_map m"
  by (simp add: wf_values_def)

lemma wf_values_put [simp, intro]: "wf_values m \<Longrightarrow> wf_value v \<Longrightarrow> wf_values (put k v m)"
  by (auto simp: wf_values_def)

lemma wf_Lookup [dest]: "wf_value v \<Longrightarrow> Lookup v name = Some c \<Longrightarrow> wf_value c"
  by (cases v) (simp_all add: wf_value_object wf_values_def)

lemma wf_Get [simp]: "wf_value v \<Longrightarrow> wf_value (Get v name)"
  by (auto simp: Get_def split: option.splits)

lemma wf_ListOf [simp]: "wf_value (ListOf xs) \<longleftrightarrow> (\<forall>x\<in>set xs. wf_value x)"
  by (simp add: ListOf_def value_tree.list_build)

lemma wf_SList: "wf_value (SList t) \<Longrightarrow> SList t = ListOf (elements t)"
  by (simp add: ListOf_def)

lemma wf_CloneValues [simp]: "wf_values m \<Longrightarrow> CloneValues m = m"
  by (simp add: wf_values_def CloneValues_id)

lemma put_same: "map_of m k = Some v \<Longrightarrow> put k v m = m"
  unfolding put_def by (induction m) (auto split: if_splits)

lemma CopyObject_wf: "wf_value (SObject m) \<Longrightarrow> fst (CopyObject (SObject m)) = m"
  by (simp add: wf_value_object)

lemma rebuild_member:
  "wf_value v \<Longrightarrow> Lookup v name = Some c \<Longrightarrow> ObjectOf (put name c (fst (CopyObject v))) = v"
  by (cases v) (simp_all add: CloneValues_id ObjectOf_def put_same wf_value_object wf_values_map)

lemma wf_ObjectOf: "wf_values m \<Longrightarrow> wf_value (ObjectOf m)"
  by (simp add: ObjectOf_def wf_value_object)

lemma wf_replace_member:
  "wf_value v \<Longrightarrow> svalue_Kind v = KindObject \<Longrightarrow> wf_value c \<Longrightarrow>
   wf_value (ObjectOf (put name c (fst (CopyObject v))))"
  by (cases v) (simp_all add: ObjectOf_def wf_value_object)

lemma Lookup_replace_member:
  "wf_value v \<Longrightarrow> svalue_Kind v = KindObject \<Longrightarrow> wf_value c \<Longrightarrow>
   Lookup (ObjectOf (put name c (fst (CopyObject v)))) k = (if k = name then Some c else Lookup v k)"
  by (cases v) (simp_all add: ObjectOf_def wf_value_object)

lemma Kind_ObjectOf [simp]: "svalue_Kind (ObjectOf m) = KindObject"
  by (simp add: ObjectOf_def)

lemma Kind_ListOf [simp]: "svalue_Kind (ListOf xs) = KindList"
  by (simp add: ListOf_def)

section \<open>Equality of application values\<close>

inductive veq :: "svalue \<Rightarrow> svalue \<Rightarrow> bool" where
  veq_refl: "veq v v"
| veq_object: "(\<And>k. rel_option veq (map_of m k) (map_of m' k)) \<Longrightarrow> veq (SObject m) (SObject m')"
| veq_list: "list_all2 veq (elements t) (elements t') \<Longrightarrow> veq (SList t) (SList t')"
monos option.rel_mono

inductive_cases veq_objectE: "veq (SObject m) v"
inductive_cases veq_listE: "veq (SList t) v"

lemma veq_Kind: "veq v w \<Longrightarrow> svalue_Kind v = svalue_Kind w"
  by (cases rule: veq.cases) auto

lemma veq_Lookup: "veq v w \<Longrightarrow> rel_option veq (Lookup v k) (Lookup w k)"
proof (induction rule: veq.induct)
  case (veq_refl v)
  then show ?case by (cases "Lookup v k") (simp_all add: veq.veq_refl)
next
  case (veq_object m m')
  have "rel_option veq (map_of m k) (map_of m' k)"
    using veq_object [of k] by (auto simp: option_rel_Some1 option_rel_Some2 elim: option.rel_mono_strong)
  then show ?case by simp
qed simp

lemma veq_Object_iff:
  "veq (SObject m) (SObject m') \<longleftrightarrow> (\<forall>k. rel_option veq (map_of m k) (map_of m' k))"
  using veq_Lookup [of "SObject m" "SObject m'"] veq_object [of m m'] by auto

lemma veq_same: "(\<And>k. map_of m k = map_of m' k) \<Longrightarrow> veq (SObject m) (SObject m')"
  by (rule veq_object) (auto simp: option.rel_refl_strong veq_refl)

end
