(* ===== verification/Embedded_Properties.thy ===== *)
theory Embedded_Properties
  imports Embedded Value_Shape
begin

text \<open>
  What the bounded envelope walk of \<^theory_text>\<open>Embedded\<close> guarantees: the number of callbacks
  is limited whatever the stored value is, a callback only sees declared payloads, and
  an envelope whose payloads are kept is kept.
\<close>

section \<open>How many payloads a walk can visit\<close>

definition node_ceiling :: "bool \<Rightarrow> int" where
  "node_ceiling workOnly = (if workOnly then MaxWork else MaxNodes)"

definition collected :: "field \<Rightarrow> bool \<Rightarrow> ebudget \<times> read_occurrence list \<Rightarrow> bool" where
  "collected f w st \<longleftrightarrow> (case st of (b, found) \<Rightarrow> ebWorkOnly b = w \<and> ebDepth b \<le> MaxDepth
     \<and> int (length found) \<le> ebNodes b \<and> int (length found) \<le> ebWork b
     \<and> int (length found) \<le> node_ceiling w \<and> list_all (occurs_in f) found)"

definition collecting :: "field \<Rightarrow> bool \<Rightarrow> ebudget \<times> read_occurrence list \<Rightarrow> bool" where
  "collecting f w st \<longleftrightarrow> (case st of (b, found) \<Rightarrow> collected f w st
     \<and> int (length found) < ebNodes b \<and> int (length found) < ebWork b \<and> int (length found) < node_ceiling w)"

definition collect_visit :: "read_occurrence \<Rightarrow> ebudget \<times> read_occurrence list \<Rightarrow>
    (embedded_error + svalue \<times> bool) \<times> (ebudget \<times> read_occurrence list)" where
  "collect_visit occ st = (case st of (b, result) \<Rightarrow> (Inr (roPayload occ, False), (b, result @ [occ])))"

lemma MaxNodes_le_MaxWork: "MaxNodes \<le> MaxWork"
  by (simp add: MaxNodes_def MaxWork_def)

interpretation collector: embedded_consumer collect_visit "occurs_in f" "collected f w" "collecting f w" for f w
proof (unfold_locales, goal_cases)
  case (1 b s path e b')
  then show ?case by (auto simp: collected_def Enter_def Let_def split: if_splits)
next
  case (2 b s)
  then show ?case by (simp add: collected_def Leave_def)
next
  case (3 b s path err b')
  then show ?case by (auto simp: collected_def budget_node_def Let_def split: if_splits)
next
  case (4 b s path b')
  then show ?case using MaxNodes_le_MaxWork
    by (auto simp: collected_def collecting_def budget_node_def Let_def node_ceiling_def split: if_splits)
next
  case (5 st)
  then show ?case by (auto simp: collecting_def split: prod.splits)
next
  case (6 occ st r st')
  then show ?case by (auto simp: collected_def collecting_def collect_visit_def split: prod.splits)
qed

lemma Occurrences_collected:
  assumes "Occurrences f v prefix b = ((e, found), b')" "collected f w (b, [])"
  shows "collected f w (b', found)"
proof -
  have same: "(\<lambda>occ st. case case st of (b, result) \<Rightarrow> (None, b, result @ [occ]) of
      (Some e, st1) \<Rightarrow> (Inl e, st1) | (None, st1) \<Rightarrow> (Inr (roPayload occ, False), st1)) = collect_visit"
    by (intro ext) (simp add: collect_visit_def split: prod.splits)
  have "collected f w (snd (TransformValue f v prefix collect_visit (b, [])))"
    by (rule collector.TransformValue_keeps [OF assms(2)])
  then show ?thesis
    using assms(1) unfolding Occurrences_def Visit_TransformValue same
    by (auto split: prod.splits sum.splits)
qed


section \<open>A walk that keeps every payload\<close>

definition keeps_payloads :: "'s transform \<Rightarrow> bool" where
  "keeps_payloads t \<longleftrightarrow> (\<forall>occ st r changed st'. wf_value (roPayload occ)
     \<longrightarrow> t occ st = (Inr (r, changed), st') \<longrightarrow> r = roPayload occ)"

lemma keeps_payloadsD:
  "keeps_payloads t \<Longrightarrow> wf_value (roPayload occ) \<Longrightarrow> t occ st = (Inr (r, changed), st') \<Longrightarrow> r = roPayload occ"
  unfolding keeps_payloads_def by blast

lemma Get_object: "svalue_Kind (Get v name) = KindObject \<Longrightarrow> Lookup v name = Some (Get v name)"
  by (auto simp: Get_def split: option.splits)

lemma set_member_same:
  "wf_value v \<Longrightarrow> (\<And>name c. change = Some (name, c) \<Longrightarrow> Lookup v name = Some c) \<Longrightarrow> set_member v change = v"
  by (auto simp: set_member_def rebuild_member split: option.splits)

lemma visit_cases_same:
  assumes "keeps_payloads t" "wf_value v" "visit_cases t tree v path st = (Inr change, st')"
  shows "set_member v change = v"
proof (rule set_member_same [OF assms(2)])
  fix name c assume "change = Some (name, c)"
  with assms(3) obtain cs where k: "svalue_Kind (Get v name) = KindObject"
    and r: "\<exists>variant p key bs changed bs1. t (occurrence_of tree cs variant (Get v name) p key) bs = (Inr (c, changed), bs1)"
    by (auto simp: visit_cases_def visit_case_def Let_def split: option.splits if_splits prod.splits sum.splits) blast
  then obtain variant p key bs changed bs1
    where "t (occurrence_of tree cs variant (Get v name) p key) bs = (Inr (c, changed), bs1)" by blast
  from keeps_payloadsD [OF assms(1) _ this] have "c = Get v name"
    using wf_Get [OF assms(2), of name] by (simp add: occurrence_of_def)
  then show "Lookup v name = Some c" using Get_object [OF k] by simp
qed

lemma map_node_items_same:
  assumes "\<And>x p st r ch st'. x \<in> set xs \<Longrightarrow> f x p st = (Inr (r, ch), st') \<Longrightarrow> r = x"
    "map_node_items f path i xs st = (Inr (ys, changed), st')"
  shows "ys = xs"
  using assms
proof (induction xs arbitrary: i st ys changed st')
  case (Cons x xs)
  from Cons.prems(2) obtain x' ch st1 zs where x: "f x (path @ CHR ''.'' # nat_dec i) st = (Inr (x', ch), st1)"
    and zs: "\<exists>ch'. map_node_items f path (i + 1) xs st1 = (Inr (zs, ch'), st')"
    and ys: "ys = (if ch then x' else x) # zs"
    by (auto split: prod.splits sum.splits)
  have "x' = x" using Cons.prems(1) [OF _ x] by simp
  moreover have "zs = xs" using Cons.IH Cons.prems(1) zs by (metis list.set_intros(2))
  ultimately show ?case using ys by simp
qed simp

lemma mapNodes_same:
  assumes "\<And>x p st r ch st'. x \<in> set (elements t) \<Longrightarrow> f x p st = (Inr (r, ch), st') \<Longrightarrow> r = x"
    "wf_value (SList t)" "mapNodes f t path st = (Inr (w, changed), st')"
  shows "w = SList t"
proof -
  from assms(3) obtain items where items: "map_node_items f path 0 (elements t) st = (Inr (items, changed), st')"
    and w: "w = (if changed then ListOf items else SList t)"
    by (auto simp: mapNodes_def split: prod.splits sum.splits)
  have "items = elements t" by (rule map_node_items_same [OF assms(1) items])
  then show ?thesis using w wf_SList [OF assms(2)] by simp
qed

lemma enteringE:
  assumes "entering path body st = (Inr r, st')"
  obtains st1 st2 where "body st1 = (Inr r, st2)"
  using assms
  by (auto simp: entering_def split: prod.splits option.splits)

lemma wf_element: "wf_value (SList t) \<Longrightarrow> x \<in> set (elements t) \<Longrightarrow> wf_value x"
  by simp

lemma walk_node_same:
  assumes "keeps_payloads t"
  shows "wf_value v \<Longrightarrow> walk_node t tree v path st = (Inr (w, changed), st') \<Longrightarrow> w = v"
proof (induction "size v" arbitrary: v path st w changed st' rule: less_induct)
  case less
  note wf = less.prems(1)
  obtain change sta stb where visited: "visit_cases t tree v path sta = (Inr change, stb)"
    and rest: "(\<exists>l updated ch std. Lookup v (etChildren tree) = Some (SList l)
        \<and> mapNodes (walk_node t tree) l (join path (etChildren tree)) stb = (Inr (updated, ch), std)
        \<and> w = set_member (set_member v change) (Some (etChildren tree, updated)))
      \<or> w = set_member v change"
    using less.prems(2) unfolding walk_node.simps [of _ _ v]
    by (elim enteringE)
      (auto split: prod.splits option.splits if_splits sum.splits svalue.splits; blast)
  have kept: "set_member v change = v" by (rule visit_cases_same [OF assms wf visited])
  from rest show ?case
  proof
    assume "\<exists>l updated ch std. Lookup v (etChildren tree) = Some (SList l)
        \<and> mapNodes (walk_node t tree) l (join path (etChildren tree)) stb = (Inr (updated, ch), std)
        \<and> w = set_member (set_member v change) (Some (etChildren tree, updated))"
    then obtain l updated ch std where l: "Lookup v (etChildren tree) = Some (SList l)"
      and m: "mapNodes (walk_node t tree) l (join path (etChildren tree)) stb = (Inr (updated, ch), std)"
      and w: "w = set_member (set_member v change) (Some (etChildren tree, updated))"
      by blast
    have wl: "wf_value (SList l)" by (rule wf_Lookup [OF wf l])
    have "updated = SList l"
      by (rule mapNodes_same [OF _ wl m]) (rule less.hyps [OF size_Lookup_element [OF l] wf_element [OF wl]])
    then show ?thesis using w kept l set_member_same [OF wf, of "Some (etChildren tree, updated)"] by auto
  qed (simp add: kept)
qed

lemma walk_root_same:
  assumes "keeps_payloads t"
  shows "wf_value v \<Longrightarrow> walk_root t tree v segments path st = (Inr (w, changed), st') \<Longrightarrow> w = v"
proof (induction segments arbitrary: v path st w changed st')
  case Nil
  show ?case
  proof (cases "\<exists>l. v = SList l")
    case True
    then obtain l where l: "v = SList l" by blast
    have m: "mapNodes (walk_node t tree) l path st = (Inr (w, changed), st')" using Nil.prems(2) l by simp
    have "w = SList l"
      by (rule mapNodes_same [OF _ _ m]) (use Nil.prems(1) l walk_node_same [OF assms] wf_element in blast)+
    then show ?thesis using l by simp
  next
    case False
    then have "walk_node t tree v path st = (Inr (w, changed), st')" using Nil.prems(2) by (cases v) auto
    then show ?thesis by (rule walk_node_same [OF assms Nil.prems(1)])
  qed
next
  case (Cons segment segments)
  obtain child updated ch sta stb where child: "Lookup v segment = Some child"
    and r: "walk_root t tree child segments (join path segment) sta = (Inr (updated, ch), stb)"
    and w: "w = (if ch then set_member v (Some (segment, updated)) else v)"
    using Cons.prems(2) unfolding walk_root.simps
    by (elim enteringE) (auto split: if_splits option.splits sum.splits prod.splits)
  have "updated = child" by (rule Cons.IH [OF wf_Lookup [OF Cons.prems(1) child] r])
  then show ?case using w child set_member_same [OF Cons.prems(1), of "Some (segment, child)"] by auto
qed

lemma walk_trees_same:
  assumes "keeps_payloads t"
  shows "wf_value v \<Longrightarrow> walk_trees t trees v prefix bs = (Inr w, bs') \<Longrightarrow> w = v"
proof (induction trees arbitrary: bs)
  case (Cons tree trees)
  from Cons.prems(2) obtain u ch bs1 seen
    where r: "walk_root t tree v (etRoot tree) prefix (bs, []) = (Inr (u, ch), (bs1, seen))"
      and rest: "walk_trees t trees u prefix bs1 = (Inr w, bs')"
    by (auto split: sum.splits prod.splits)
  have "u = v" by (rule walk_root_same [OF assms Cons.prems(1) r])
  with rest Cons show ?case by blast
qed simp

lemma unchanged_payloads:
  "wf_value v \<Longrightarrow> keeps_payloads t \<Longrightarrow> TransformValue f v p t bs = (Inr w, bs') \<Longrightarrow> w = v"
  using walk_trees_same [of t v _ p bs w bs']
  by (auto simp: TransformValue_def walk_def split: option.splits if_splits)

text \<open>
  C34. A transform whose callback answers every payload it is given unchanged, whether
  or not it reports a change, answers the stored value itself: rebuilding the path to a
  payload, the node lists and the map around it never alters an envelope.
\<close>

theorem unchanged_payloads_keep_the_envelope:
  assumes "wf_value v" "keeps_payloads t" "TransformValue f v prefix t bs = (Inr w, bs')"
  shows "w = v"
  by (rule unchanged_payloads [OF assms])

definition sample_field :: field where
  "sample_field = FieldDef ''c'' ''c'' [''c''] FieldTypePlugin FieldCategoryPlugin False False False False None None None None None None
     (Some (PluginField ''notes'' [EmbeddedTree ''t'' [''root''] ''children'' ''kind''
       [EmbeddedTreeCase ''block'' ''data'' ''blockType'' ''id'' [BlockType ''note'' []]]])) no_details"

definition sample_node :: svalue where
  "sample_node = SObject [(''kind'', SString ''block''),
     (''data'', SObject [(''blockType'', SString ''note''), (''id'', SString ''a'')])]"

definition sample_value :: svalue where
  "sample_value = SObject [(''root'', SObject [(''kind'', SString ''p''), (''children'', ListOf [sample_node])])]"

theorem unchanged_payloads_keep_the_envelope_witness:
  "fst (TransformValue sample_field sample_value ''c'' (\<lambda>occ st. (Inr (roPayload occ, True), st)) (NewBudget, ()))
     = Inr sample_value"
proof -
  let ?t = "\<lambda>occ st. (Inr (roPayload occ, True), st)"
  let ?r = "TransformValue sample_field sample_value ''c'' ?t (NewBudget, ())"
  have "isl (fst ?r) = False" by code_simp
  then obtain w bs where w: "?r = (Inr w, bs)" by (cases ?r; cases "fst ?r") auto
  have "wf_value sample_value" by code_simp
  moreover have "keeps_payloads ?t" by (simp add: keeps_payloads_def)
  ultimately have "w = sample_value" using w by (rule unchanged_payloads_keep_the_envelope)
  then show ?thesis using w by simp
qed

end
