(* ===== verification/Population_Properties.thy ===== *)
theory Population_Properties
  imports Population_Walk Embedded_Properties
begin

text \<open>
  What the population traversals guarantee: visiting the occurrences of a path is
  mapping them with a function that keeps each value, and mapping the populated
  documents of a response with a function that keeps them gives the response.
\<close>

section \<open>The error and the state of a walk\<close>

definition outcome :: "('e + 'a) \<times> 'st \<Rightarrow> 'e option \<times> 'st" where
  "outcome r = (case fst r of Inl e \<Rightarrow> Some e | Inr _ \<Rightarrow> None, snd r)"

lemma outcome_simps [simp]: "outcome (Inl e, st) = (Some e, st)" "outcome (Inr x, st) = (None, st)"
  by (simp_all add: outcome_def)

lemma outcome_Inl: "outcome r = outcome (Inl e, st) \<longleftrightarrow> r = (Inl e, st)"
  by (cases r; cases "fst r") (auto simp: outcome_def)

lemma outcome_cases:
  assumes "outcome r = outcome q"
  obtains (error) e st where "r = (Inl e, st)" "q = (Inl e, st)"
  | (fine) x y st where "r = (Inr x, st)" "q = (Inr y, st)"
  using assms by (cases r; cases q; cases "fst r"; cases "fst q") auto

definition agree :: "'s transform \<Rightarrow> 's transform \<Rightarrow> bool" where
  "agree t u \<longleftrightarrow> keeps_payloads t \<and> keeps_payloads u
     \<and> (\<forall>occ st. wf_value (roPayload occ) \<longrightarrow> outcome (t occ st) = outcome (u occ st))"

lemma agreeD: "agree t u \<Longrightarrow> wf_value (roPayload occ) \<Longrightarrow> outcome (t occ st) = outcome (u occ st)"
  unfolding agree_def by blast

lemma entering_outcome:
  assumes "\<And>st. outcome (f st) = outcome (g st)"
  shows "outcome (entering path f st) = outcome (entering path g st)"
proof -
  obtain b s seen where st: "st = ((b, s), seen)" by (metis surj_pair)
  obtain e b1 where b1: "Enter path b = (e, b1)" by fastforce
  from assms [of "((b1, s), seen)"] show ?thesis
  proof (cases rule: outcome_cases)
    case (error e' st1)
    then show ?thesis using st b1 by (cases e; cases st1) (auto simp: entering_def split: prod.splits)
  next
    case (fine x y st1)
    then show ?thesis using st b1 by (cases e; cases st1) (auto simp: entering_def split: prod.splits)
  qed
qed

lemma visit_cases_outcome:
  assumes "agree t u" "wf_value v"
  shows "outcome (visit_cases t tree v path st) = outcome (visit_cases u tree v path st)"
proof -
  have call: "outcome (t (occurrence_of tree c variant (Get v name) p key) bs)
      = outcome (u (occurrence_of tree c variant (Get v name) p key) bs)" for c variant name p key bs
    by (rule agreeD [OF assms(1)]) (simp add: occurrence_of_def assms(2))
  have "outcome (visit_case t tree c v path st) = outcome (visit_case u tree c v path st)" for c
  proof -
    obtain bs seen where st: "st = (bs, seen)" by (cases st)
    obtain k seen1 where k: "occurrence_key c (Get v (ecPayload c)) (join path (ecPayload c)) seen = (k, seen1)"
      by fastforce
    show ?thesis
    proof (cases "payload_type c (Get v (ecPayload c))")
      case (Some variant)
      show ?thesis
      proof (cases k)
        case (Inr key)
        from call [of c variant "ecPayload c" "join path (ecPayload c)" key bs] show ?thesis
          by (cases rule: outcome_cases)
            (use st k Some Inr in \<open>auto simp: visit_case_def Let_def split: prod.splits\<close>)
      qed (use st k Some in \<open>simp add: visit_case_def Let_def\<close>)
    qed (simp add: st visit_case_def Let_def)
  qed
  then show ?thesis by (auto simp: visit_cases_def Let_def split: option.splits)
qed

lemma map_node_items_outcome:
  assumes "\<And>x p st. x \<in> set xs \<Longrightarrow> outcome (f x p st) = outcome (g x p st)"
  shows "outcome (map_node_items f path i xs st) = outcome (map_node_items g path i xs st)"
  using assms
proof (induction xs arbitrary: i st)
  case (Cons x xs)
  from Cons.prems [OF list.set_intros(1), of "path @ CHR ''.'' # nat_dec i" st] show ?case
  proof (cases rule: outcome_cases)
    case (fine a b st1)
    have "outcome (map_node_items f path (i + 1) xs st1) = outcome (map_node_items g path (i + 1) xs st1)"
      by (rule Cons.IH) (use Cons.prems in simp)
    then show ?thesis
      by (cases rule: outcome_cases) (use fine in \<open>auto split: prod.splits\<close>)
  qed simp_all
qed simp

lemma mapNodes_outcome:
  assumes "\<And>x p st. x \<in> set (elements l) \<Longrightarrow> outcome (f x p st) = outcome (g x p st)"
  shows "outcome (mapNodes f l path st) = outcome (mapNodes g l path st)"
proof -
  have "outcome (map_node_items f path 0 (elements l) st) = outcome (map_node_items g path 0 (elements l) st)"
    by (rule map_node_items_outcome [OF assms])
  then show ?thesis
    by (cases rule: outcome_cases) (auto simp: mapNodes_def split: prod.splits)
qed

lemma walk_node_outcome:
  assumes "agree t u"
  shows "wf_value v \<Longrightarrow> outcome (walk_node t tree v path st) = outcome (walk_node u tree v path st)"
proof (induction "size v" arbitrary: v path st rule: less_induct)
  case less
  note visited = visit_cases_outcome [OF assms less.prems]
  show ?case
    unfolding walk_node.simps [of _ _ v]
  proof (rule entering_outcome, goal_cases)
    case (1 st)
    obtain b s seen where st: "st = ((b, s), seen)" by (metis surj_pair)
    obtain e b1 where e: "budget_node path b = (e, b1)" by (metis surj_pair)
    from visited [of tree path "((b1, s), seen)"] show ?case
    proof (cases rule: outcome_cases)
      case (error e' st1)
      then show ?thesis using st e by (simp split: option.splits)
    next
      case (fine x y st1)
      show ?thesis
      proof (cases "\<exists>l. Lookup v (etChildren tree) = Some (SList l)")
        case True
        then obtain l where l: "Lookup v (etChildren tree) = Some (SList l)" by blast
        have wl: "wf_value (SList l)" by (rule wf_Lookup [OF less.prems l])
        have "outcome (mapNodes (walk_node t tree) l (join path (etChildren tree)) st1)
            = outcome (mapNodes (walk_node u tree) l (join path (etChildren tree)) st1)"
          by (rule mapNodes_outcome) (rule less.hyps [OF size_Lookup_element [OF l] wf_element [OF wl]])
        then show ?thesis
          by (cases rule: outcome_cases) (use st e l fine in \<open>auto split: option.splits prod.splits\<close>)
      next
        case False
        then show ?thesis using st e fine by (auto split: option.splits svalue.splits)
      qed
    qed
  qed
qed

lemma walk_root_outcome:
  assumes "agree t u"
  shows "wf_value v \<Longrightarrow> outcome (walk_root t tree v segments path st) = outcome (walk_root u tree v segments path st)"
proof (induction segments arbitrary: v path st)
  case Nil
  show ?case
  proof (cases "\<exists>l. v = SList l")
    case True
    then obtain l where l: "v = SList l" by blast
    have "outcome (mapNodes (walk_node t tree) l path st) = outcome (mapNodes (walk_node u tree) l path st)"
      by (rule mapNodes_outcome) (use Nil l walk_node_outcome [OF assms] wf_element in blast)
    then show ?thesis using l by simp
  next
    case False
    then show ?thesis using walk_node_outcome [OF assms Nil] by (cases v) auto
  qed
next
  case (Cons segment segments)
  show ?case unfolding walk_root.simps
  proof (rule entering_outcome, goal_cases)
    case (1 st)
    show ?case
    proof (cases "Lookup v segment")
      case (Some child)
      have "outcome (walk_root t tree child segments (join path segment) st)
          = outcome (walk_root u tree child segments (join path segment) st)"
        by (rule Cons.IH [OF wf_Lookup [OF Cons.prems Some]])
      then show ?thesis
        by (cases rule: outcome_cases) (use Some in \<open>auto split: prod.splits\<close>)
    qed simp
  qed
qed

lemma walk_trees_same_result:
  assumes "agree t u" "wf_value v"
  shows "walk_trees t trees v prefix bs = walk_trees u trees v prefix bs"
proof (induction trees arbitrary: bs)
  case (Cons tree trees)
  have keeps: "keeps_payloads t" "keeps_payloads u" using assms(1) by (simp_all add: agree_def)
  from walk_root_outcome [OF assms, of tree "etRoot tree" prefix "(bs, [])"] show ?case
  proof (cases rule: outcome_cases)
    case (error e st)
    then show ?thesis by (auto split: prod.splits)
  next
    case (fine x y st)
    obtain w c w' c' bs1 seen where x: "x = (w, c)" "y = (w', c')" "st = (bs1, seen)" by (metis surj_pair)
    have "w = v" using walk_root_same [OF keeps(1) assms(2)] fine(1) x by blast
    moreover have "w' = v" using walk_root_same [OF keeps(2) assms(2)] fine(2) x by blast
    ultimately show ?thesis using fine x Cons.IH by simp
  qed
qed simp

lemma TransformValue_agree:
  assumes "agree t u" "wf_value v"
  shows "TransformValue f v prefix t bs = TransformValue f v prefix u bs"
  unfolding TransformValue_def walk_def by (simp add: walk_trees_same_result [OF assms] split: option.splits)

text \<open>The same, of the payloads the field declares only.\<close>

lemma TransformValue_agree_in:
  assumes "wf_value v"
    and same: "\<And>occ st. wf_value (roPayload occ) \<Longrightarrow> occurs_in f occ \<Longrightarrow> outcome (t occ st) = outcome (u occ st)"
    and t: "\<And>occ st r c st'. wf_value (roPayload occ) \<Longrightarrow> occurs_in f occ \<Longrightarrow> t occ st = (Inr (r, c), st') \<Longrightarrow> r = roPayload occ"
    and u: "\<And>occ st r c st'. wf_value (roPayload occ) \<Longrightarrow> occurs_in f occ \<Longrightarrow> u occ st = (Inr (r, c), st') \<Longrightarrow> r = roPayload occ"
  shows "TransformValue f v prefix t bs = TransformValue f v prefix u bs"
    and "TransformValue f v prefix u bs = (Inr w, bs') \<Longrightarrow> w = v"
proof -
  define guarded where "guarded g = (\<lambda>occ st. if occurs_in f occ then g occ st else (Inr (roPayload occ, False), st))"
    for g :: "read_occurrence \<Rightarrow> ebudget \<times> 'a \<Rightarrow> (embedded_error + svalue \<times> bool) \<times> (ebudget \<times> 'a)"
  have eq: "TransformValue f v prefix g bs = TransformValue f v prefix (guarded g) bs" for g
    by (rule TransformValue_cong) (simp_all add: guarded_def)
  have keeps: "keeps_payloads (guarded t)" "keeps_payloads (guarded u)"
    using t u by (auto simp: keeps_payloads_def guarded_def)
  then have "agree (guarded t) (guarded u)"
    using same by (simp add: agree_def guarded_def)
  from TransformValue_agree [OF this assms(1)] show "TransformValue f v prefix t bs = TransformValue f v prefix u bs"
    unfolding eq [of t] eq [of u] .
  show "w = v" if "TransformValue f v prefix u bs = (Inr w, bs')"
    using unchanged_payloads [OF assms(1) keeps(2)] that eq [of u] by simp
qed

section \<open>Visiting is mapping that keeps the value\<close>

definition keeping :: "'s path_walker \<Rightarrow> bool" where
  "keeping w \<longleftrightarrow> \<not> pwMapping w \<and> (\<forall>f v s. fst (pwApply w f v s) = v)"

abbreviation mapped :: "'s path_walker \<Rightarrow> 's path_walker" where
  "mapped w \<equiv> w\<lparr>pwMapping := True\<rparr>"

abbreviation kept :: "svalue \<Rightarrow> 's walked \<Rightarrow> bool" where
  "kept v r \<equiv> fst (fst r) = v"

lemma kept_iff: "kept v r \<longleftrightarrow> (\<exists>m s. r = ((v, m), s))"
  by (cases r; cases "fst r") auto

lemma keepingD: "keeping w \<Longrightarrow> \<not> pwMapping w" "keeping w \<Longrightarrow> pwApply w f v s = (v, snd (pwApply w f v s))"
  by (auto simp: keeping_def prod_eq_iff)

lemma mapList_kept:
  assumes "wf_value v"
    and "\<And>x s. wf_value x \<Longrightarrow> fst (fst (f x s)) = x \<and> fst (fst (g x s)) = x \<and> snd (f x s) = snd (g x s)"
  shows "fst (fst (mapList v f s)) = v \<and> fst (fst (mapList v g s)) = v
     \<and> snd (mapList v f s) = snd (mapList v g s)"
proof (cases "\<exists>l. v = SList l")
  case True
  then obtain l where l: "v = SList l" by blast
  have items: "\<forall>x\<in>set xs. wf_value x \<Longrightarrow> fst (fst (map_list_items f xs s)) = xs
     \<and> fst (fst (map_list_items g xs s)) = xs \<and> snd (map_list_items f xs s) = snd (map_list_items g xs s)" for xs s
  proof (induction xs arbitrary: s)
    case (Cons x xs)
    obtain a c s1 where f: "f x s = ((a, c), s1)" by (metis surj_pair)
    obtain b d s2 where g: "g x s = ((b, d), s2)" by (metis surj_pair)
    have "a = x" "b = x" "s1 = s2" using assms(2) [of x s] Cons.prems f g by auto
    moreover obtain e h s3 where "map_list_items f xs s2 = ((e, h), s3)" by (metis surj_pair)
    moreover obtain e' h' s3' where "map_list_items g xs s2 = ((e', h'), s3')" by (metis surj_pair)
    ultimately show ?case using Cons.IH [of s2] Cons.prems f g by simp
  qed simp
  obtain e h s3 where f: "map_list_items f (elements l) s = ((e, h), s3)" by (metis surj_pair)
  obtain e' h' s3' where g: "map_list_items g (elements l) s = ((e', h'), s3')" by (metis surj_pair)
  have "\<forall>x\<in>set (elements l). wf_value x" using assms(1) l by simp
  from items [OF this, of s] f g have "e = elements l" "e' = elements l" "s3 = s3'" by simp_all
  then show ?thesis using f g l wf_SList [OF assms(1) [unfolded l], symmetric] by (simp add: mapList_def)
next
  case False
  then show ?thesis by (cases v) (simp_all add: mapList_def)
qed

lemma record_locale_kept:
  assumes "wf_value v" "svalue_Kind v = KindObject" "Lookup v code = Some c"
    and "acc = (None, m) \<or> acc = (Some (fst (CopyObject v)), m)"
  shows "record_locale True v code acc (c, found) = (None, m \<or> found)
    \<or> record_locale True v code acc (c, found) = (Some (fst (CopyObject v)), m \<or> found)"
  using assms
  by (cases v; cases found) (auto simp: record_locale_def CloneValues_id wf_value_object wf_values_map put_same)

lemma localized_kept:
  assumes "wf_value v" "acc = (None, m) \<or> acc = (Some (fst (CopyObject v)), m)" "svalue_Kind v = KindObject"
  shows "localized_result v acc = (v, m)"
  using assms by (cases v) (auto simp: localized_result_def ObjectOf_def wf_value_object)

lemma sortedKeys_Lookup: "code \<in> set (sortedKeys v) \<Longrightarrow> \<exists>c. Lookup v code = Some c"
  by (cases v) (auto simp: sortedKeys_def dest: weak_map_of_SomeI)

lemma pick_locale_Lookup: "pick_locale p ls v = Some (code, c) \<Longrightarrow> Lookup v code = Some c"
  by (induction ls) (auto split: option.splits if_splits)

lemma walk_locales_kept:
  assumes "keeping w" "wf_value v" "svalue_Kind v = KindObject" "set codes \<subseteq> set (sortedKeys v)"
    and "\<And>code s. code \<in> set codes \<Longrightarrow> F (Get v code) s = G (Get v code) s \<and> kept (Get v code) (G (Get v code) s)"
    and "acc = (None, m) \<or> acc = (Some (fst (CopyObject v)), m)"
  shows "\<exists>m' s'. fold (\<lambda>code (acc, s1). case G (Get v code) s1 of (r, s2) \<Rightarrow> (record_locale False v code acc r, s2)) codes ((None, m), s)
       = ((None, m'), s')
     \<and> (\<exists>acc'. fold (\<lambda>code (acc, s1). case F (Get v code) s1 of (r, s2) \<Rightarrow> (record_locale True v code acc r, s2)) codes (acc, s)
       = (acc', s') \<and> (acc' = (None, m') \<or> acc' = (Some (fst (CopyObject v)), m')))"
  using assms(4-)
proof (induction codes arbitrary: acc m s)
  case (Cons code codes)
  obtain c where c: "Lookup v code = Some c" using sortedKeys_Lookup Cons.prems(1) by force
  then have get: "Get v code = c" by (simp add: Get_def)
  from Cons.prems(2) [of code s] obtain found s1 where g: "G c s = ((c, found), s1)" and f: "F c s = ((c, found), s1)"
    unfolding kept_iff get by auto
  have acc: "record_locale True v code acc (c, found) = (None, m \<or> found)
    \<or> record_locale True v code acc (c, found) = (Some (fst (CopyObject v)), m \<or> found)"
    by (rule record_locale_kept [OF assms(2,3) c Cons.prems(3)])
  have "record_locale False v code (None, m) (c, found) = (None, m \<or> found)"
    by (simp add: record_locale_def)
  then show ?case
    using Cons.IH [OF _ _ acc, of s1] Cons.prems f g get by simp
qed auto

lemma walk_list_kept:
  assumes w: "keeping w" and v: "wf_value v"
    and IH: "\<And>row s. wf_value row \<Longrightarrow>
      walk_object (mapped w) fds row ss s = walk_object w fds row ss s \<and> kept row (walk_object w fds row ss s)"
  shows "walk_list (mapped w) fds v ss k s = walk_list w fds v ss k s \<and> kept v (walk_list w fds v ss k s)"
proof -
  define row where "row w x = (\<lambda>(matched, s1).
          if (case k of None \<Rightarrow> False | Some slug \<Rightarrow> \<not> block_is x slug)
          then ((x, False), (matched, s1))
          else (case walk_object w fds x ss s1 of
             ((updated, found), s2) \<Rightarrow> ((updated, found \<and> pwMapping w), (matched \<or> found, s2))))"
    for w :: "'a path_walker" and x
  have step: "fst (fst (row (mapped w) x st)) = x \<and> fst (fst (row w x st)) = x
      \<and> snd (row (mapped w) x st) = snd (row w x st)" if "wf_value x" for x st
  proof -
    obtain m s1 where st: "st = (m, s1)" by (cases st)
    from IH [OF that, of s1] obtain found s2 where "walk_object w fds x ss s1 = ((x, found), s2)"
      "walk_object (mapped w) fds x ss s1 = ((x, found), s2)" unfolding kept_iff by auto
    then show ?thesis by (simp add: row_def st)
  qed
  have unfold: "walk_list u fds v ss k s = (case mapList v (row u) (False, s) of
        ((updated, _), (matched, s1)) \<Rightarrow> ((updated, matched), s1))" for u
    by (simp add: walk_list.simps row_def [abs_def])
  obtain a b c d where m: "mapList v (row (mapped w)) (False, s) = ((a, b), (c, d))" by (metis surj_pair)
  obtain a' b' c' d' where n: "mapList v (row w) (False, s) = ((a', b'), (c', d'))" by (metis surj_pair)
  from mapList_kept [OF v, of "row (mapped w)" "row w" "(False, s)", OF step] m n have "a = v" "a' = v" "c = c'" "d = d'" by simp_all
  then show ?thesis unfolding unfold m n by simp
qed

lemma walk_child_kept:
  assumes "\<And>name c. lookup name = Some c \<Longrightarrow> wf_value c"
    and "\<And>child c s. child \<in> set fds \<Longrightarrow> wf_value c \<Longrightarrow>
      walk_field (mapped w) child c ss s = walk_field w child c ss s \<and> kept c (walk_field w child c ss s)"
  shows "walk_child (mapped w) fds lookup ss s = walk_child w fds lookup ss s
    \<and> (case walk_child w fds lookup ss s of ((name, c, matched), s1) \<Rightarrow> matched \<longrightarrow> lookup name = Some c)"
proof (cases ss)
  case (Cons name rest)
  show ?thesis
  proof (cases "find (\<lambda>c. fldName c = name) fds")
    case (Some child)
    then have mem: "child \<in> set fds" by (auto simp: find_Some_iff)
    show ?thesis
    proof (cases "lookup (fldName child)")
      case (Some c)
      from assms(2) [OF mem assms(1) [OF Some], of s] obtain m s1
        where "walk_field w child c ss s = ((c, m), s1)" "walk_field (mapped w) child c ss s = ((c, m), s1)"
        unfolding kept_iff by auto
      then show ?thesis
        using Cons Some \<open>find (\<lambda>c. fldName c = name) fds = Some child\<close> by (simp add: walk_child.simps)
    qed (use Cons Some in \<open>simp add: walk_child.simps\<close>)
  qed (simp add: walk_child.simps Cons)
qed (simp add: walk_child.simps)

lemma walk_object_kept:
  assumes w: "keeping w" and v: "wf_value v"
    and IH: "\<And>lookup. (\<And>name c. lookup name = Some c \<Longrightarrow> wf_value c) \<Longrightarrow>
      walk_child (mapped w) fds lookup ss s = walk_child w fds lookup ss s
      \<and> (case walk_child w fds lookup ss s of ((name, c, matched), s1) \<Rightarrow> matched \<longrightarrow> lookup name = Some c)"
  shows "walk_object (mapped w) fds v ss s = walk_object w fds v ss s \<and> kept v (walk_object w fds v ss s)"
proof -
  obtain name c m s1 where r: "walk_child w fds (Lookup v) ss s = ((name, c, m), s1)" by (metis surj_pair)
  have "walk_child (mapped w) fds (Lookup v) ss s = ((name, c, m), s1)" "m \<Longrightarrow> Lookup v name = Some c"
    using IH [of "Lookup v"] v r by auto
  then show ?thesis
    using r rebuild_member [OF v, of name c] keepingD(1) [OF w] by (cases m) (auto simp: walk_object.simps)
qed

lemma walk_fieldValue_embedded_kept:
  assumes w: "keeping w" and v: "wf_value v" and f: "embedded_HasFields f" "length ss \<ge> 4"
    and IH: "\<And>occ s. occurs_in f occ \<Longrightarrow> wf_value (roPayload occ) \<Longrightarrow>
      walk_object (mapped w) (roFields occ) (roPayload occ) (drop 3 ss) s
        = walk_object w (roFields occ) (roPayload occ) (drop 3 ss) s
      \<and> kept (roPayload occ) (walk_object w (roFields occ) (roPayload occ) (drop 3 ss) s)"
  shows "walk_fieldValue (mapped w) f v (seg # ss) s = walk_fieldValue w f v (seg # ss) s
    \<and> kept v (walk_fieldValue w f v (seg # ss) s)"
proof -
  define cb where "cb u occ = (\<lambda>(b :: ebudget, (matched, s1)).
                if etKey (roTree occ) \<noteq> ss ! 0 \<or> ecTagValue (roCase occ) \<noteq> ss ! 1 \<or> bltSlug (roType occ) \<noteq> ss ! 2
                then (Inr (roPayload occ, False) :: embedded_error + svalue \<times> bool, (b, (matched, s1)))
                else (case walk_object u (roFields occ) (roPayload occ) (drop 3 ss) s1 of
                   ((payload, found), s2) \<Rightarrow> (Inr (payload, found \<and> pwMapping u), (b, (matched \<or> found, s2)))))"
    for u :: "'a path_walker" and occ
  have shape: "\<exists>c c' st'. cb (mapped w) occ st = (Inr (roPayload occ, c), st') \<and> cb w occ st = (Inr (roPayload occ, c'), st')"
    if "wf_value (roPayload occ)" "occurs_in f occ" for occ st
  proof -
    obtain b m s1 where st: "st = (b, (m, s1))" by (metis surj_pair)
    from IH [OF that(2,1), of s1] obtain found s2
      where "walk_object w (roFields occ) (roPayload occ) (drop 3 ss) s1 = ((roPayload occ, found), s2)"
        "walk_object (mapped w) (roFields occ) (roPayload occ) (drop 3 ss) s1 = ((roPayload occ, found), s2)"
      unfolding kept_iff by auto
    then show ?thesis by (simp add: cb_def st) blast
  qed
  have same: "outcome (cb (mapped w) occ st) = outcome (cb w occ st)"
    if "wf_value (roPayload occ)" "occurs_in f occ" for occ st
    using shape [OF that, of st] by auto
  have keeps: "r = roPayload occ" if "wf_value (roPayload occ)" "occurs_in f occ"
    "cb (mapped w) occ st = (Inr (r, c), st') \<or> cb w occ st = (Inr (r, c), st')" for occ st r c st'
    using shape [OF that(1,2), of st] that(3) by auto
  let ?bs = "(NewBudget, (False, s))"
  have eq: "TransformValue f v (fldName f) (cb (mapped w)) ?bs = TransformValue f v (fldName f) (cb w) ?bs"
    by (rule TransformValue_agree_in(1) [OF v same]) (auto intro: keeps)
  have result: "u = v" if "TransformValue f v (fldName f) (cb w) ?bs = (Inr u, bs')" for u bs'
    by (rule TransformValue_agree_in(2) [OF v same _ _ that]) (auto intro: keeps)
  have unfold: "walk_fieldValue u f v (seg # ss) s =
      (case TransformValue f v (fldName f) (cb u) ?bs of
           (Inl e, (b, (matched, s1))) \<Rightarrow> ((v, False), s1)
         | (Inr updated, (b, (matched, s1))) \<Rightarrow> ((if pwMapping u then updated else v, matched), s1))" for u
  proof -
    obtain a list where ss: "ss = a # list" using f(2) by (cases ss) auto
    show ?thesis using f unfolding cb_def [abs_def] ss by simp
  qed
  obtain r b m s1 where r: "TransformValue f v (fldName f) (cb w) ?bs = (r, (b, (m, s1)))" by (metis surj_pair)
  show ?thesis
    unfolding unfold eq r using result r keepingD(1) [OF w] by (cases r) auto
qed

text \<open>
  All walkers at once; a field's value is measured by the segments still to resolve.
\<close>

lemma walk_field_kept:
  assumes w: "keeping w" and v: "wf_value v"
    and IH: "\<And>f c s. wf_value c \<Longrightarrow>
      walk_fieldValue (mapped w) f c ss s = walk_fieldValue w f c ss s \<and> kept c (walk_fieldValue w f c ss s)"
  shows "walk_field (mapped w) f v ss s = walk_field w f v ss s \<and> kept v (walk_field w f v ss s)"
proof (cases "fldLocalized f \<and> svalue_Kind v = KindObject \<and> ss \<noteq> [] \<and> hd ss = fldName f")
  case False
  then show ?thesis using IH [OF v, of f s] by (auto simp: walk_field.simps)
next
  case True
  note object = conjunct1 [OF conjunct2 [OF True]]
  have not_mapping: "\<not> pwMapping w" by (rule keepingD(1) [OF w])
  show ?thesis
  proof (cases "lslAll (pwLocales w)")
    case all: True
    define G where "G u c s = walk_fieldValue u (unlocalized f) c ss s" for u :: "'a path_walker" and c s
    have step: "G (mapped w) (Get v code) s = G w (Get v code) s \<and> kept (Get v code) (G w (Get v code) s)"
      for code s unfolding G_def by (rule IH) (simp add: v)
    from walk_locales_kept [OF w v object order_refl, of "G (mapped w)" "G w" "(None, False)" False s, OF step]
    obtain m' s' acc' where
      n: "fold (\<lambda>code (acc, s1). case G w (Get v code) s1 of (r, s2) \<Rightarrow> (record_locale False v code acc r, s2))
            (sortedKeys v) ((None, False), s) = ((None, m'), s')"
      and m: "fold (\<lambda>code (acc, s1). case G (mapped w) (Get v code) s1 of (r, s2) \<Rightarrow> (record_locale True v code acc r, s2))
            (sortedKeys v) ((None, False), s) = (acc', s')"
      and acc: "acc' = (None, m') \<or> acc' = (Some (fst (CopyObject v)), m')" by auto
    have "walk_field w f v ss s = ((v, m'), s')"
      using True all n not_mapping localized_kept [OF v _ object, of "(None, m')" m']
      by (simp add: walk_field.simps [of w] G_def)
    moreover have "walk_field (mapped w) f v ss s = ((v, m'), s')"
      using True all m localized_kept [OF v acc object] by (simp add: walk_field.simps [of "mapped w"] G_def)
    ultimately show ?thesis by simp
  next
    case one: False
    show ?thesis
    proof (cases "pick_locale False (lslChain (pwLocales w)) v")
      case (Some p)
      obtain code c where p: "p = (code, c)" by (cases p)
      have lookup: "Lookup v code = Some c" using pick_locale_Lookup Some p by blast
      from IH [OF wf_Lookup [OF v lookup], of "unlocalized f" s] obtain found s1
        where r: "walk_fieldValue w (unlocalized f) c ss s = ((c, found), s1)"
          "walk_fieldValue (mapped w) (unlocalized f) c ss s = ((c, found), s1)"
        unfolding kept_iff by auto
      have "localized_result v (record_locale True v code (None, False) (c, found)) = (v, found)"
        using record_locale_kept [OF v object lookup, of "(None, False)" False found]
          localized_kept [OF v _ object, of _ found] by auto
      moreover have "localized_result v (record_locale False v code (None, False) (c, found)) = (v, found)"
        by (simp add: record_locale_def localized_result_def)
      ultimately show ?thesis using True one Some p r not_mapping by (simp add: walk_field.simps)
    qed (use True one in \<open>simp add: walk_field.simps\<close>)
  qed
qed

lemma walk_fieldValue_kept:
  assumes w: "keeping w"
  shows "wf_value v \<Longrightarrow>
    walk_fieldValue (mapped w) f v ss s = walk_fieldValue w f v ss s \<and> kept v (walk_fieldValue w f v ss s)"
proof (induction "length ss" arbitrary: f v ss s rule: less_induct)
  case less
  have object: "walk_object (mapped w) fds c ss' s = walk_object w fds c ss' s \<and> kept c (walk_object w fds c ss' s)"
    if "length ss' < length ss" "wf_value c" for fds c ss' s
    by (rule walk_object_kept [OF w that(2)], rule walk_child_kept, assumption,
        rule walk_field_kept [OF w]) (use less.hyps [OF that(1)] in blast)+
  consider "ss = []" | seg where "ss = [seg]" | seg s2 rest where "ss = seg # s2 # rest"
    by (cases ss rule: remdups_adj.cases) auto
  then show ?case
  proof cases
    case 2
    obtain u s1 where r: "pwApply w f v s = (u, s1)" by fastforce
    then have "u = v" using w by (metis keeping_def fst_conv)
    then show ?thesis using 2 r by simp
  next
    case (3 seg s2 rest)
    note ss = 3
    show ?thesis
    proof (cases "embedded_HasFields f \<and> length (s2 # rest) \<ge> 4")
      case True
      show ?thesis unfolding ss
        by (rule walk_fieldValue_embedded_kept [OF w less.prems])
          (use True ss object in auto)
    next
      case False
      then have plain: "walk_fieldValue u f v ss s = (case fldType f of
        FieldTypeGroup \<Rightarrow>
          (case fldNested f of Some fs \<Rightarrow> walk_object u fs v (s2 # rest) s | None \<Rightarrow> ((v, False), s))
      | FieldTypeArray \<Rightarrow>
          (case fldNested f of Some fs \<Rightarrow> walk_list u fs v (s2 # rest) None s | None \<Rightarrow> ((v, False), s))
      | FieldTypeBlocks \<Rightarrow>
          (case fldBlocks f of
             None \<Rightarrow> ((v, False), s)
           | Some blocks \<Rightarrow>
               if length (s2 # rest) < 2 then ((v, False), s)
               else (case Definition blocks s2 of
                       Some block \<Rightarrow> walk_list u (bltFields block) v rest (Some (bltSlug block)) s
                     | None \<Rightarrow> ((v, False), s)))
      | _ \<Rightarrow> ((v, False), s))" for u :: "'a path_walker"
        unfolding ss by (auto split: field_type.splits option.splits)
      have list: "walk_list (mapped w) fds v ss' k s = walk_list w fds v ss' k s \<and> kept v (walk_list w fds v ss' k s)"
        if "length ss' < length ss" for fds ss' k
        by (rule walk_list_kept [OF w less.prems]) (rule object [OF that])
      have len: "length (s2 # rest) < length ss" "length rest < length ss" using ss by simp_all
      show ?thesis
        unfolding plain using object [OF len(1) less.prems] list [OF len(1)] list [OF len(2)]
        by (auto split: field_type.splits option.splits)
    qed
  qed simp
qed

text \<open>
  C35. Visiting every occurrence of a path and mapping it with a function that answers
  the value it is given are the same traversal: the callback sees the same fields and
  values in the same order, both report the same match, and the mapped document is the
  document it was given. Localized fields, arrays, block rows and plugin payloads included.
\<close>

theorem visiting_is_mapping_that_keeps:
  assumes "wf_values values"
  shows "MapAtPath fds values p locales (\<lambda>f v s. (v, see f v s)) s =
    (case VisitAtPath fds values p locales see s of (matched, s1) \<Rightarrow> ((values, matched), s1))"
proof -
  define w where "w = \<lparr>pwLocales = locales, pwMapping = False, pwApply = (\<lambda>f v s. (v, see f v s))\<rparr>"
  have w: "keeping w" by (simp add: w_def keeping_def)
  have lookup: "map_of values name = Some c \<Longrightarrow> wf_value c" for name c
    using assms by (simp add: wf_values_def)
  have child: "walk_child (mapped w) fds (map_of values) p s = walk_child w fds (map_of values) p s
    \<and> (case walk_child w fds (map_of values) p s of ((name, c, matched), s1) \<Rightarrow> matched \<longrightarrow> map_of values name = Some c)"
    by (rule walk_child_kept [OF lookup], assumption, rule walk_field_kept [OF w], assumption)
      (rule walk_fieldValue_kept [OF w])
  have "mapped w = \<lparr>pwLocales = locales, pwMapping = True, pwApply = (\<lambda>f v s. (v, see f v s))\<rparr>"
    by (simp add: w_def)
  with child show ?thesis
    using assms by (auto simp: MapAtPath_def VisitAtPath_def w_def Let_def put_same split: prod.splits)
qed

definition sample_text :: field where
  "sample_text = FieldDef ''f'' ''title'' [''title''] FieldTypeText FieldCategoryScalar False False False True
     None None None None None None None no_details"

theorem visiting_is_mapping_that_keeps_witness:
  "MapAtPath [sample_text] [(''title'', SObject [(''en'', SString ''x''), (''fr'', SString ''y'')])] [''title'']
      \<lparr>lslAll = True, lslChain = []\<rparr> (\<lambda>f v s. (v, s @ [v])) []
    = (([(''title'', SObject [(''en'', SString ''x''), (''fr'', SString ''y'')])], True), [SString ''x'', SString ''y''])"
proof -
  let ?m = "[(''title'', SObject [(''en'', SString ''x''), (''fr'', SString ''y'')])]"
  let ?l = "\<lparr>lslAll = True, lslChain = []\<rparr>"
  have "wf_values ?m" by (auto simp: wf_values_def wf_map_def wf_value_object)
  moreover have "VisitAtPath [sample_text] ?m [''title''] ?l (\<lambda>f v s. s @ [v]) [] = (True, [SString ''x'', SString ''y''])"
    by code_simp
  ultimately show ?thesis
    using visiting_is_mapping_that_keeps [of ?m "[sample_text]" "[''title'']" ?l "\<lambda>f v s. s @ [v]" "[]"] by simp
qed

end
