(* ===== verification/Reference_Properties.thy ===== *)
theory Reference_Properties
  imports Reference_Index Value_Shape
begin

text \<open>
  What the reference index guarantees: after a target is nullified or a resource is
  retired, the references that are left are exactly those to other targets; index
  entries are unique; the owners to cascade to are found once each, in order.
\<close>

section \<open>Rebuilding rows and locale maps\<close>

lemma fst_if_changed: "(\<not> c \<longrightarrow> u = x) \<Longrightarrow> (if c then u else x) = u"
  by simp

lemma map_list_items_unit:
  assumes "\<And>x. \<not> snd (g x) \<Longrightarrow> fst (g x) = x"
  shows "map_list_items (\<lambda>x (u :: unit). (g x, u)) xs u
    = ((map (\<lambda>x. fst (g x)) xs, list_ex (\<lambda>x. snd (g x)) xs), u)"
proof (induction xs)
  case (Cons x xs)
  then show ?case using assms [of x] by (cases "g x") auto
qed simp

lemma map_rows_items:
  assumes "wf_value v" "\<And>x. \<not> snd (g x) \<Longrightarrow> fst (g x) = x"
  shows "list_items (fst (map_rows g v)) = map (\<lambda>x. fst (g x)) (list_items v)"
    and "(\<And>x. wf_value x \<Longrightarrow> wf_value (fst (g x))) \<Longrightarrow> wf_value (fst (map_rows g v))"
    and "\<not> snd (map_rows g v) \<Longrightarrow> fst (map_rows g v) = v"
    and "svalue_Kind (fst (map_rows g v)) = svalue_Kind v"
proof -
  have same: "map (\<lambda>x. fst (g x)) xs = xs" if "\<not> list_ex (\<lambda>x. snd (g x)) xs" for xs
    using that assms(2) by (induction xs) auto
  show "list_items (fst (map_rows g v)) = map (\<lambda>x. fst (g x)) (list_items v)"
    using same by (cases v) (auto simp: map_rows_def mapList_def list_items_def map_list_items_unit [OF assms(2)]
        ListOf_def value_tree.list_build)
  show "wf_value (fst (map_rows g v))" if "\<And>x. wf_value x \<Longrightarrow> wf_value (fst (g x))"
    using assms(1) that by (cases v) (auto simp: map_rows_def mapList_def map_list_items_unit [OF assms(2)])
  show "\<not> snd (map_rows g v) \<Longrightarrow> fst (map_rows g v) = v"
    by (cases v) (auto simp: map_rows_def mapList_def map_list_items_unit [OF assms(2)])
  show "svalue_Kind (fst (map_rows g v)) = svalue_Kind v"
    by (cases v) (auto simp: map_rows_def mapList_def map_list_items_unit [OF assms(2)])
qed

lemma put_middle: "k \<notin> fst ` set pre \<Longrightarrow> put k u (pre @ (k, x) # rest) = pre @ (k, u) # rest"
  unfolding put_def by (induction pre) auto

lemma rewrite_locales_fold:
  assumes "\<And>x. \<not> snd (g x) \<Longrightarrow> fst (g x) = x" "wf_map (pre @ m)"
  shows "fold (\<lambda>(code, candidate) (result, changed). case g candidate of
            (updated, c) \<Rightarrow> (if c then put code updated result else result, changed \<or> c)) m (pre @ m, b)
    = (pre @ map (\<lambda>(k, x). (k, fst (g x))) m, b \<or> list_ex (\<lambda>(k, x). snd (g x)) m)"
  using assms(2)
proof (induction m arbitrary: pre b)
  case (Cons p m)
  obtain k x where p: "p = (k, x)" by (cases p)
  obtain u c where u: "g x = (u, c)" by fastforce
  have fresh: "k \<notin> fst ` set pre" using Cons.prems p by (auto simp: wf_map_def)
  have "(if c then put k u (pre @ (k, x) # m) else pre @ (k, x) # m) = (pre @ [(k, u)]) @ m"
    using put_middle [OF fresh] assms(1) [of x] u by auto
  moreover have "wf_map ((pre @ [(k, u)]) @ m)" using Cons.prems p by (simp add: wf_map_def)
  ultimately show ?case using Cons.IH [of "pre @ [(k, u)]" "b \<or> c"] p u by simp
qed simp

lemma rewrite_locales_map:
  assumes "\<And>x. \<not> snd (g x) \<Longrightarrow> fst (g x) = x" "wf_value (SObject m)"
  shows "fst (rewrite_locales g (SObject m)) = SObject (map (\<lambda>(k, x). (k, fst (g x))) m)"
    and "\<not> snd (rewrite_locales g (SObject m)) \<Longrightarrow> fst (rewrite_locales g (SObject m)) = SObject m"
proof -
  have wf: "wf_map m" using assms(2) by (simp add: wf_value_object wf_values_map)
  then have wf': "wf_map (map (\<lambda>(k, x). (k, fst (g x))) m)"
    by (simp add: wf_map_def comp_def case_prod_unfold)
  have same: "map (\<lambda>(k, x). (k, fst (g x))) m = m" if "\<not> list_ex (\<lambda>(k, x). snd (g x)) m" for m :: svalues
    using that assms(1) by (induction m) auto
  show "fst (rewrite_locales g (SObject m)) = SObject (map (\<lambda>(k, x). (k, fst (g x))) m)"
    "\<not> snd (rewrite_locales g (SObject m)) \<Longrightarrow> fst (rewrite_locales g (SObject m)) = SObject m"
    using rewrite_locales_fold [OF assms(1), of "[]" m False] wf wf' same [of m]
    by (auto simp: rewrite_locales_def CloneValues_id ObjectOf_def Let_def)
qed

section \<open>Schemas whose references can be followed\<close>

text \<open>
  The conditions a resolved schema meets for fields outside plugin envelopes: sibling
  names are distinct and no block declares a field called \<open>blockType\<close>.
\<close>

definition tidy_here :: "(field \<Rightarrow> bool) \<Rightarrow> field \<Rightarrow> bool" where
  "tidy_here ok f \<longleftrightarrow> ok f \<and> \<not> embedded_HasFields f
     \<and> (\<forall>fs\<in>set (eachDefinitionChildSource f). distinct (map fldName fs))
     \<and> (\<forall>bs. fldBlocks f = Some bs \<longrightarrow> (\<forall>b\<in>set bs. ''blockType'' \<notin> fldName ` set (bltFields b)))"

definition tidy :: "(field \<Rightarrow> bool) \<Rightarrow> field \<Rightarrow> bool" where
  "tidy ok f \<longleftrightarrow> (\<forall>g. below [f] g \<longrightarrow> tidy_here ok g)"

lemma tidy_self: "tidy ok f \<Longrightarrow> tidy_here ok f"
  by (simp add: tidy_def below_here)

lemma tidy_child: "tidy ok f \<Longrightarrow> fs \<in> set (eachDefinitionChildSource f) \<Longrightarrow> g \<in> set fs \<Longrightarrow> tidy ok g"
  unfolding tidy_def by (auto simp: below_Cons intro: below.intros)

lemma child_source_unlocalized: "eachDefinitionChildSource (unlocalized f) = eachDefinitionChildSource f"
  by (simp add: eachDefinitionChildSource_def)

lemma tidy_unlocalized:
  assumes "tidy ok f" "\<And>f. ok f \<Longrightarrow> ok (unlocalized f)"
  shows "tidy ok (unlocalized f)"
proof -
  have "tidy_here ok (unlocalized f)"
    using tidy_self [OF assms(1)] assms(2)
    by (simp add: tidy_here_def child_source_unlocalized embedded_HasFields_def)
  then show ?thesis
    using assms(1) by (auto simp: tidy_def below_Cons child_source_unlocalized)
qed

lemma nested_source: "fldNested f = Some fs \<Longrightarrow> fs \<in> set (eachDefinitionChildSource f)"
  by (simp add: eachDefinitionChildSource_def)

lemma block_source: "fldBlocks f = Some bs \<Longrightarrow> b \<in> set bs \<Longrightarrow> bltFields b \<in> set (eachDefinitionChildSource f)"
  by (simp add: eachDefinitionChildSource_def)

lemma block_of_mem: "block_of blocks x = Some b \<Longrightarrow> b \<in> set blocks"
  by (auto simp: block_of_def Definition_def definitionBySlug_def find_Some_iff)

section \<open>Rewriting commutes with collecting\<close>

text \<open>
  The contract between a rewriter and the index: what a rewriter does to one reference
  value, and what is collected from it before and after. \<open>P\<close> selects the entries that
  should survive, \<open>Q\<close> the entries that are compared.
\<close>

locale reference_rewrite =
  fixes leaf :: leaf_rewrite and Q P :: "entry \<Rightarrow> bool" and ok :: "field \<Rightarrow> bool"
  assumes relationship_law: "ok f \<Longrightarrow> wf_value v \<Longrightarrow> fldType f = FieldTypeRelationship \<Longrightarrow>
      filter Q (collectRelationship owner f (fst (leaf f v)) l i) = filter P (collectRelationship owner f v l i)"
    and upload_law: "ok f \<Longrightarrow> wf_value v \<Longrightarrow> fldType f = FieldTypeUpload \<Longrightarrow>
      filter Q (collectUpload owner f (fst (leaf f v)) l i) = filter P (collectUpload owner f v l i)"
    and leaf_unchanged: "\<not> snd (leaf f v) \<Longrightarrow> fst (leaf f v) = v"
    and leaf_wf: "wf_value v \<Longrightarrow> wf_value (fst (leaf f v))"
    and ok_unlocalized: "ok f \<Longrightarrow> ok (unlocalized f)"
begin

abbreviation follows :: "field \<Rightarrow> bool" where
  "follows \<equiv> tidy ok"

definition value_ok :: "field \<Rightarrow> bool" where
  "value_ok f \<longleftrightarrow> (\<forall>v. (\<not> snd (rewrite_value leaf f v) \<longrightarrow> fst (rewrite_value leaf f v) = v)
     \<and> (wf_value v \<longrightarrow> wf_value (fst (rewrite_value leaf f v))
         \<and> (\<forall>owner l at. filter Q (collectFieldValue owner f (fst (rewrite_value leaf f v)) l at)
              = filter P (collectFieldValue owner f v l at))))"

definition field_ok :: "field \<Rightarrow> bool" where
  "field_ok f \<longleftrightarrow> (\<forall>v. wf_value v \<longrightarrow>
     (\<not> snd (rewrite_field leaf f v) \<longrightarrow> fst (rewrite_field leaf f v) = v)
     \<and> wf_value (fst (rewrite_field leaf f v))
     \<and> (\<forall>owner l at. filter Q (collectField owner f (fst (rewrite_field leaf f v)) l at)
              = filter P (collectField owner f v l at)))"

lemma null_value: "collectFieldValue owner f SNull l at = []"
  by (simp add: collectFieldValue.simps)

lemma collectField_value:
  "\<not> fldLocalized f \<Longrightarrow> collectField owner f v l at = collectFieldValue owner f v l at"
  by (simp add: collectField.simps collectFieldValue.simps)

lemma field_step:
  assumes v: "value_ok (unlocalized f)" and f: "fldLocalized f \<or> value_ok f"
  shows "field_ok f"
  unfolding field_ok_def
proof (intro allI impI, goal_cases)
  case (1 v)
  note wf = 1
  show ?case
  proof (cases "fldLocalized f")
    case False
    with f wf show ?thesis
      by (auto simp: value_ok_def rewrite_field.simps collectField_value)
  next
    case True
    define g where "g = rewrite_value leaf (unlocalized f)"
    have unchanged: "\<not> snd (g x) \<Longrightarrow> fst (g x) = x" for x
      using v by (simp add: value_ok_def g_def)
    have keeps: "wf_value (fst (g x))" if "wf_value x" for x using v that by (simp add: value_ok_def g_def)
    have collects: "filter Q (collectFieldValue owner (unlocalized f) (fst (g x)) l at)
        = filter P (collectFieldValue owner (unlocalized f) x l at)" if "wf_value x" for owner x l at
      using v that by (simp add: value_ok_def g_def)
    have r: "rewrite_field leaf f v = rewrite_locales g v" using True by (simp add: rewrite_field.simps g_def)
    show ?thesis
    proof (cases "\<exists>m. v = SObject m")
      case False
      then have "rewrite_locales g v = (v, False)" by (cases v) (simp_all add: rewrite_locales_def)
      moreover have "sortedKeys v = []" using False by (cases v) (simp_all add: sortedKeys_def)
      ultimately show ?thesis using True wf r by (simp add: collectField.simps)
    next
      case object: True
      then obtain m where m: "v = SObject m" by blast
      note map = rewrite_locales_map [OF unchanged wf [unfolded m]]
      let ?m = "map (\<lambda>(k, x). (k, fst (g x))) m"
      have wfm: "wf_values m" using wf m by (simp add: wf_value_object)
      have lookup: "map_of ?m k = map_option (\<lambda>x. fst (g x)) (map_of m k)" for k
        by (induction m) auto
      have keys: "sortedKeys (SObject ?m) = sortedKeys v"
        by (simp add: sortedKeys_def m comp_def case_prod_unfold)
      have wf': "wf_value (SObject ?m)"
        using wfm keeps by (auto simp: wf_value_object wf_values_def wf_map_def comp_def case_prod_unfold lookup)
      have "filter Q (collectFieldValue owner (unlocalized f) (Get (SObject ?m) code) code at)
          = filter P (collectFieldValue owner (unlocalized f) (Get v code) code at)"
        if "code \<in> set (sortedKeys v)" for owner code at
      proof -
        from that obtain x where "map_of m code = Some x" by (auto simp: sortedKeys_def m dest: weak_map_of_SomeI)
        moreover from this wfm have "wf_value x" by (simp add: wf_values_def)
        ultimately show ?thesis using collects by (simp add: Get_def m lookup)
      qed
      then have "filter Q (collectField owner f (SObject ?m) l at) = filter P (collectField owner f v l at)" for owner l at
        using True by (simp add: collectField.simps m filter_concat comp_def keys [unfolded m] cong: map_cong)
      then show ?thesis using map wf' r m by simp
    qed
  qed
qed

lemma members_step:
  assumes "distinct (map fldName fs)" "\<And>f. f \<in> set fs \<Longrightarrow> field_ok f" "wf_values m"
  shows "(\<not> snd (rewrite_members leaf fs m) \<longrightarrow> fst (rewrite_members leaf fs m) = m)
    \<and> wf_values (fst (rewrite_members leaf fs m))
    \<and> (\<forall>k. k \<notin> fldName ` set fs \<longrightarrow> map_of (fst (rewrite_members leaf fs m)) k = map_of m k)
    \<and> (\<forall>f\<in>set fs. map_of (fst (rewrite_members leaf fs m)) (fldName f)
         = map_option (\<lambda>x. fst (rewrite_field leaf f x)) (map_of m (fldName f)))"
  using assms
proof (induction fs arbitrary: m)
  case Nil
  then show ?case by (simp add: rewrite_members.simps)
next
  case (Cons f fs)
  show ?case
  proof (cases "map_of m (fldName f)")
    case None
    then show ?thesis using Cons by (auto simp: rewrite_members.simps)
  next
    case (Some v)
    obtain u c where u: "rewrite_field leaf f v = (u, c)" by fastforce
    have v: "wf_value v" using Cons.prems(3) Some by (simp add: wf_values_def)
    have ok: "field_ok f" using Cons.prems(2) by simp
    let ?m = "if c then put (fldName f) u m else m"
    have same: "\<not> c \<Longrightarrow> u = v" and wu: "wf_value u" using ok v u by (auto simp: field_ok_def)
    have wm: "wf_values ?m" using Cons.prems(3) wu by simp
    have lookup: "map_of ?m k = (if k = fldName f then Some u else map_of m k)" for k
      using same Some by auto
    obtain m' c' where m': "rewrite_members leaf fs ?m = (m', c')" by fastforce
    have r: "rewrite_members leaf (f # fs) m = (m', c \<or> c')" using Some u m' by (simp add: rewrite_members.simps)
    have IH: "\<not> c' \<longrightarrow> m' = ?m" "wf_values m'" "\<And>k. k \<notin> fldName ` set fs \<Longrightarrow> map_of m' k = map_of ?m k"
      "\<And>g. g \<in> set fs \<Longrightarrow> map_of m' (fldName g) = map_option (\<lambda>x. fst (rewrite_field leaf g x)) (map_of ?m (fldName g))"
      using Cons.IH [OF _ _ wm] Cons.prems m' by auto
    have fresh: "fldName f \<notin> fldName ` set fs" using Cons.prems(1) by auto
    have "map_of m' (fldName g) = map_option (\<lambda>x. fst (rewrite_field leaf g x)) (map_of m (fldName g))"
      if "g \<in> set fs" for g
      using IH(4) [OF that] lookup that fresh by (metis imageI)
    then show ?thesis
      unfolding r using IH(1-3) lookup fresh Some u by auto
  qed
qed

lemma collect_members:
  assumes "distinct (map fldName fs)" "\<And>f. f \<in> set fs \<Longrightarrow> field_ok f" "wf_values m"
  shows "filter Q (collectObjectFields owner fs (SObject (fst (rewrite_members leaf fs m))) l at)
    = filter P (collectObjectFields owner fs (SObject m) l at)"
proof -
  note r = members_step [OF assms]
  have "filter Q (case Lookup (SObject (fst (rewrite_members leaf fs m))) (fldName f) of
         Some v \<Rightarrow> collectField owner f v l (placement_child at (fldName f)) | None \<Rightarrow> [])
      = filter P (case Lookup (SObject m) (fldName f) of
         Some v \<Rightarrow> collectField owner f v l (placement_child at (fldName f)) | None \<Rightarrow> [])"
    if "f \<in> set fs" for f
    using r assms(2) [OF that] assms(3) that
    by (cases "map_of m (fldName f)") (auto simp: field_ok_def wf_values_def)
  then show ?thesis
    by (simp add: collectObjectFields.simps filter_concat comp_def cong: map_cong)
qed

lemma row_step:
  assumes "distinct (map fldName fs)" "\<And>f. f \<in> set fs \<Longrightarrow> field_ok f"
  shows "\<not> snd (rewrite_row leaf fs x) \<Longrightarrow> fst (rewrite_row leaf fs x) = x"
    and "wf_value x \<Longrightarrow> wf_value (fst (rewrite_row leaf fs x))"
    and "svalue_Kind (fst (rewrite_row leaf fs x)) = svalue_Kind x"
    and "wf_value x \<Longrightarrow> k \<notin> fldName ` set fs \<Longrightarrow> Get (fst (rewrite_row leaf fs x)) k = Get x k"
    and "wf_value x \<Longrightarrow> svalue_Kind x = KindObject \<Longrightarrow>
      filter Q (collectObjectFields owner fs (fst (rewrite_row leaf fs x)) l at)
        = filter P (collectObjectFields owner fs x l at)"
proof -
  have object: "fst (rewrite_row leaf fs (SObject m)) = SObject (fst (rewrite_members leaf fs m))" if "wf_values m" for m
  proof -
    obtain m' c where m': "rewrite_members leaf fs m = (m', c)" by fastforce
    then show ?thesis
      using members_step [OF assms that] that
      by (cases c) (auto simp: rewrite_row.simps ObjectOf_def CloneValues_id wf_values_map)
  qed
  have other: "rewrite_row leaf fs x = (x, False)" if "svalue_Kind x \<noteq> KindObject"
    using that by (cases x) (simp_all add: rewrite_row.simps)
  show "\<not> snd (rewrite_row leaf fs x) \<Longrightarrow> fst (rewrite_row leaf fs x) = x"
    by (cases x) (auto simp: rewrite_row.simps split: prod.splits if_splits)
  show "svalue_Kind (fst (rewrite_row leaf fs x)) = svalue_Kind x"
    by (cases x) (auto simp: rewrite_row.simps split: prod.splits if_splits)
  show "wf_value (fst (rewrite_row leaf fs x))" if "wf_value x"
    using that object other members_step [OF assms]
    by (cases "svalue_Kind x = KindObject") (cases x; simp add: wf_value_object)+
  show "Get (fst (rewrite_row leaf fs x)) k = Get x k" if "wf_value x" "k \<notin> fldName ` set fs"
    using that object other members_step [OF assms]
    by (cases "svalue_Kind x = KindObject") (cases x; simp add: wf_value_object Get_def)+
  show "filter Q (collectObjectFields owner fs (fst (rewrite_row leaf fs x)) l at)
      = filter P (collectObjectFields owner fs x l at)" if "wf_value x" "svalue_Kind x = KindObject"
    using that object collect_members [OF assms] by (cases x) (simp_all add: wf_value_object)
qed

lemma rows_step:
  assumes "wf_value v" and g: "\<And>x. \<not> snd (g x) \<Longrightarrow> fst (g x) = x" "\<And>x. wf_value x \<Longrightarrow> wf_value (fst (g x))"
    and rows: "\<And>x. wf_value x \<Longrightarrow> filter Q (row (fst (g x))) = filter P (row x)"
  shows "filter Q (concat (map row (list_items (fst (map_rows g v))))) = filter P (concat (map row (list_items v)))"
proof -
  have "wf_value x" if "x \<in> set (list_items v)" for x
    using assms(1) that by (cases v) (auto simp: list_items_def)
  then show ?thesis
    by (simp add: map_rows_items(1) [OF assms(1) g(1)] filter_concat comp_def rows cong: map_cong)
qed

lemma map_rows_ok:
  assumes "wf_value v" "\<And>x. \<not> snd (g x) \<Longrightarrow> fst (g x) = x" "\<And>x. wf_value x \<Longrightarrow> wf_value (fst (g x))"
  shows "wf_value (fst (map_rows g v))" "svalue_Kind (fst (map_rows g v)) = svalue_Kind v"
  using map_rows_items(2,4) [OF assms(1,2)] assms(3) by blast+

lemma map_rows_unchanged:
  "(\<And>x. \<not> snd (g x) \<Longrightarrow> fst (g x) = x) \<Longrightarrow> \<not> snd (map_rows g v) \<Longrightarrow> fst (map_rows g v) = v"
  by (cases v) (auto simp: map_rows_def mapList_def map_list_items_unit)

lemma collect_null_relationship: "collectRelationship owner f SNull l i = []"
  by (auto simp: collectRelationship_def collect_relationship_item_def text_of_def list_items_def Get_def
      split: option.splits)

lemma collect_null_upload: "collectUpload owner f SNull l i = []"
  by (auto simp: collectUpload_def text_of_def list_items_def split: option.splits)

lemma Kind_null: "svalue_Kind v = KindNull \<longleftrightarrow> v = SNull"
  by (cases v) auto

lemma value_step:
  assumes tidy: "tidy_here ok f"
    and fields: "\<And>fs g. fs \<in> set (eachDefinitionChildSource f) \<Longrightarrow> g \<in> set fs \<Longrightarrow> field_ok g"
  shows "value_ok f"
proof -
  have ok: "ok f" and plain: "\<not> embedded_HasFields f" using tidy by (simp_all add: tidy_here_def)
  have distinct: "distinct (map fldName fs)" if "fs \<in> set (eachDefinitionChildSource f)" for fs
    using tidy that by (simp add: tidy_here_def)
  consider (relationship) "fldType f = FieldTypeRelationship" | (upload) "fldType f = FieldTypeUpload"
    | (group) fs where "fldType f = FieldTypeGroup" "fldNested f = Some fs"
    | (array) fs where "fldType f = FieldTypeArray" "fldNested f = Some fs"
    | (blocks) bs where "fldType f = FieldTypeBlocks" "fldBlocks f = Some bs"
    | (other) "\<And>v. rewrite_value leaf f v = (v, False)" "\<And>owner v l at. collectFieldValue owner f v l at = []"
    using plain
    by (cases "fldType f"; cases "fldNested f"; cases "fldBlocks f")
      (auto simp: rewrite_value.simps collectFieldValue.simps)
  then show ?thesis
  proof cases
    case relationship
    then have "rewrite_value leaf f v = leaf f v"
      "collectFieldValue owner f v l at = collectRelationship owner f v l (placement_fieldID at f)" for owner v l at
      using plain by (auto simp: rewrite_value.simps collectFieldValue.simps Kind_null collect_null_relationship)
    then show ?thesis
      using relationship_law [OF ok _ relationship] leaf_unchanged leaf_wf by (simp add: value_ok_def)
  next
    case upload
    then have "rewrite_value leaf f v = leaf f v"
      "collectFieldValue owner f v l at = collectUpload owner f v l (placement_fieldID at f)" for owner v l at
      using plain by (auto simp: rewrite_value.simps collectFieldValue.simps Kind_null collect_null_upload)
    then show ?thesis
      using upload_law [OF ok _ upload] leaf_unchanged leaf_wf by (simp add: value_ok_def)
  next
    case group
    have src: "fs \<in> set (eachDefinitionChildSource f)" by (rule nested_source [OF group(2)])
    note row = row_step [OF distinct [OF src] fields [OF src]]
    have r: "rewrite_value leaf f v = rewrite_row leaf fs v"
      "collectFieldValue owner f v l at = (if svalue_Kind v = KindObject then collectObjectFields owner fs v l at else [])"
      for owner v l at
      using group plain by (auto simp: rewrite_value.simps collectFieldValue.simps)
    show ?thesis unfolding value_ok_def r using row by auto
  next
    case array
    have src: "fs \<in> set (eachDefinitionChildSource f)" by (rule nested_source [OF array(2)])
    note row = row_step [OF distinct [OF src] fields [OF src]]
    define each where "each owner l at x = (if svalue_Kind x = KindObject then collectObjectFields owner fs x l at else [])"
      for owner l at x
    have r: "rewrite_value leaf f v = map_rows (rewrite_row leaf fs) v"
      "collectFieldValue owner f v l at = concat (map (each owner l at) (list_items v))" for owner v l at
      using array plain
      by (auto simp: rewrite_value.simps collectFieldValue.simps each_def [abs_def] Kind_null list_items_def)
    have "filter Q (each owner l at (fst (rewrite_row leaf fs x))) = filter P (each owner l at x)"
      if "wf_value x" for owner l at x using row that by (simp add: each_def)
    then show ?thesis unfolding value_ok_def r
      using rows_step [OF _ row(1,2)] map_rows_ok(1) [OF _ row(1,2)] map_rows_unchanged [OF row(1)] by blast
  next
    case blocks
    define g where "g x = (if svalue_Kind x \<noteq> KindObject then (x, False) else case block_of bs x of
                  Some block \<Rightarrow> rewrite_row leaf (bltFields block) x | None \<Rightarrow> (x, False))" for x
    define each where "each owner l at x = (if svalue_Kind x \<noteq> KindObject then [] else case block_of bs x of
                 Some block \<Rightarrow> collectObjectFields owner (bltFields block) x l (placement_enter at [bltSlug block])
               | None \<Rightarrow> [])" for owner l at x
    have r: "rewrite_value leaf f v = map_rows g v"
      "collectFieldValue owner f v l at = concat (map (each owner l at) (list_items v))" for owner v l at
      using blocks plain
      by (auto simp: rewrite_value.simps collectFieldValue.simps each_def [abs_def] g_def [abs_def] Kind_null list_items_def)
    have block: "distinct (map fldName (bltFields b))" "\<And>g. g \<in> set (bltFields b) \<Longrightarrow> field_ok g"
      "''blockType'' \<notin> fldName ` set (bltFields b)" if "block_of bs x = Some b" for x b
      using distinct [OF block_source [OF blocks(2) block_of_mem [OF that]]]
        fields [OF block_source [OF blocks(2) block_of_mem [OF that]]] tidy blocks(2) block_of_mem [OF that]
      by (auto simp: tidy_here_def)
    have unchanged: "fst (g x) = x" if "\<not> snd (g x)" for x
    proof (cases "block_of bs x")
      case (Some b)
      from row_step(1) [OF block(1) [OF Some] block(2) [OF Some], of x] that Some show ?thesis by (simp add: g_def split: if_splits)
    qed (simp add: g_def)
    have wf: "wf_value (fst (g x))" if "wf_value x" for x
    proof (cases "block_of bs x")
      case (Some b)
      from row_step(2) [OF block(1) [OF Some] block(2) [OF Some], of x] that Some show ?thesis by (simp add: g_def)
    qed (simp add: g_def that)
    have "filter Q (each owner l at (fst (g x))) = filter P (each owner l at x)" if x: "wf_value x" for owner l at x
    proof (cases "svalue_Kind x = KindObject \<and> block_of bs x \<noteq> None")
      case True
      then obtain b where b: "block_of bs x = Some b" by blast
      have gx: "g x = rewrite_row leaf (bltFields b) x" using True b by (simp add: g_def)
      have "block_of bs (fst (g x)) = Some b"
        using b row_step(4) [OF block(1) [OF b] block(2) [OF b] x block(3) [OF b]] by (simp add: gx block_of_def)
      then show ?thesis
        using True b row_step(3,5) [OF block(1) [OF b] block(2) [OF b], of x] x by (simp add: each_def gx)
    next
      case False
      then show ?thesis by (auto simp: each_def g_def)
    qed
    then show ?thesis unfolding value_ok_def r
      using rows_step [OF _ unchanged wf] map_rows_ok(1) [OF _ unchanged wf] map_rows_unchanged [OF unchanged] by blast
  qed (simp add: value_ok_def)
qed

lemma tidy_field_ok: "follows f \<Longrightarrow> value_ok f \<and> field_ok f"
proof (induction "size f" arbitrary: f rule: less_induct)
  case less
  have children: "field_ok g" if "fs \<in> set (eachDefinitionChildSource f)" "g \<in> set fs" for fs g
    using less.hyps [OF size_child_mem [OF that] tidy_child [OF less.prems that]] by simp
  have "value_ok f" by (rule value_step [OF tidy_self [OF less.prems] children])
  moreover have "value_ok (unlocalized f)"
    by (rule value_step [OF tidy_self [OF tidy_unlocalized [OF less.prems ok_unlocalized]]])
      (use children in \<open>simp_all add: child_source_unlocalized\<close>)
  ultimately show ?case using field_step by blast
qed

text \<open>The law over a whole document.\<close>

lemma document_step:
  assumes "distinct (map fldName fs)" "\<And>f. f \<in> set fs \<Longrightarrow> follows f" "wf_values m" "f \<in> set fs"
  shows "(case map_of (fst (rewrite_members leaf fs (CloneValues m))) (fldName f) of
      Some v \<Rightarrow> filter Q (collectField owner f v l at) | None \<Rightarrow> [])
    = (case map_of m (fldName f) of
      Some v \<Rightarrow> filter P (collectField owner f v l at) | None \<Rightarrow> [])"
proof -
  have ok: "\<And>f. f \<in> set fs \<Longrightarrow> field_ok f" using tidy_field_ok assms(2) by blast
  from members_step [OF assms(1) ok assms(3)] assms(3,4) ok [OF assms(4)] show ?thesis
    by (cases "map_of m (fldName f)") (auto simp: field_ok_def wf_values_def)
qed

end

section \<open>Deleting a document\<close>

definition unambiguous :: "field \<Rightarrow> bool" where
  "unambiguous f \<longleftrightarrow>
     (case fldRelationship f of Some r \<Rightarrow> distinct (map tgtCollectionSlug (relTargets r)) | None \<Rightarrow> True)"

text \<open>No reference field of the schema keeps its value when the target is deleted.\<close>

definition clearing :: "field \<Rightarrow> bool" where
  "clearing f \<longleftrightarrow> unambiguous f
     \<and> (case fldRelationship f of Some r \<Rightarrow> clearedOnDelete (relOnDelete r) | None \<Rightarrow> True)
     \<and> (case fldUpload f of Some u \<Rightarrow> clearedOnDelete (uplOnDelete u) | None \<Rightarrow> True)"

definition survives :: "document_reference \<Rightarrow> entry \<Rightarrow> bool" where
  "survives target e \<longleftrightarrow> enTarget e \<noteq> target"

lemma survives_entry:
  "survives target (reference_entry owner fieldID l c i) \<longleftrightarrow> (c, i) \<noteq> (refCollectionID target, refDocumentID target)"
  by (cases target) (auto simp: survives_def reference_entry_def)

lemma vlen_wf: "wf_value (SList t) \<Longrightarrow> vlen t = length (elements t)"
  by (metis vlen_build wf_value.simps(2))

lemma drop_items_cases:
  assumes "wf_value v"
  shows "list_items (fst (drop_items d v)) = filter (\<lambda>x. \<not> d x) (list_items v)"
    and "\<not> snd (drop_items d v) \<Longrightarrow> fst (drop_items d v) = v"
    and "wf_value (fst (drop_items d v))"
proof -
  have full: "filter p xs = xs" if "length (filter p xs) = length xs" for p and xs :: "svalue list"
    using that by (metis filter_id_conv length_filter_less less_irrefl)
  show "list_items (fst (drop_items d v)) = filter (\<lambda>x. \<not> d x) (list_items v)"
    using assms vlen_wf
    by (cases v) (auto simp: full drop_items_def list_items_def ListOf_def value_tree.list_build Let_def)
  show "\<not> snd (drop_items d v) \<Longrightarrow> fst (drop_items d v) = v"
    by (cases v) (auto simp: drop_items_def Let_def)
  show "wf_value (fst (drop_items d v))"
    using assms by (cases v) (auto simp: drop_items_def Let_def)
qed

lemma filter_concat_dropped:
  assumes "\<And>x. x \<in> set xs \<Longrightarrow> filter p (f x) = (if d x then [] else f x)"
  shows "concat (map f (filter (\<lambda>x. \<not> d x) xs)) = filter p (concat (map f xs))"
  using assms by (induction xs) auto

lemma text_of_Some: "text_of v = Some s \<longleftrightarrow> v = SString s"
  by (cases v) (auto simp: text_of_def)

lemma find_slug:
  "distinct (map tgtCollectionSlug ts) \<Longrightarrow>
   list_ex (\<lambda>t. tgtCollectionID t = c \<and> tgtCollectionSlug t = slug) ts
     \<longleftrightarrow> (\<exists>t. find (\<lambda>t. tgtCollectionSlug t = slug) ts = Some t \<and> tgtCollectionID t = c)"
proof (induction ts)
  case (Cons t ts)
  show ?case
  proof (cases "tgtCollectionSlug t = slug")
    case True
    then have "\<not> list_ex (\<lambda>t. tgtCollectionID t = c \<and> tgtCollectionSlug t = slug) ts"
      using Cons.prems by (auto simp: list_ex_iff image_iff)
    with True show ?thesis by simp
  qed (use Cons in simp)
qed simp

lemma relationship_item_survives:
  assumes "distinct (map tgtCollectionSlug (relTargets r))"
  shows "filter (survives target) (collect_relationship_item r (reference_entry owner fieldID l) x)
    = (if relationshipValueMatches r x target then [] else collect_relationship_item r (reference_entry owner fieldID l) x)"
proof -
  have hit: "list_ex (\<lambda>t. tgtCollectionID t = c \<and> tgtCollectionSlug t = slug) (relTargets r)
      \<longleftrightarrow> (\<exists>t. find (\<lambda>t. tgtCollectionSlug t = slug) (relTargets r) = Some t \<and> tgtCollectionID t = c)" for slug c
    by (rule find_slug [OF assms])
  show ?thesis
    unfolding collect_relationship_item_def relationshipValueMatches_def
    by (auto simp: survives_entry hit split: option.splits)
qed

lemma nullify_relationship_collects:
  assumes "unambiguous f" "wf_value v"
  shows "collectRelationship owner f (fst (nullifyRelationship target f v)) l i =
    (case fldRelationship f of
       Some r \<Rightarrow> if clearedOnDelete (relOnDelete r) then filter (survives target) (collectRelationship owner f v l i)
                 else collectRelationship owner f v l i
     | None \<Rightarrow> [])"
proof (cases "fldRelationship f")
  case (Some r)
  note item = relationship_item_survives [of r target owner i l]
  have slugs: "distinct (map tgtCollectionSlug (relTargets r))" using assms(1) Some by (simp add: unambiguous_def)
  have null: "collect_relationship_item r mk SNull = []" for mk
    by (simp add: collect_relationship_item_def text_of_def Get_def)
  show ?thesis
  proof (cases "relHasMany r")
    case True
    have "concat (map (collect_relationship_item r (reference_entry owner i l))
          (filter (\<lambda>x. \<not> relationshipValueMatches r x target) (list_items v)))
        = filter (survives target) (concat (map (collect_relationship_item r (reference_entry owner i l)) (list_items v)))"
      by (rule filter_concat_dropped) (rule item [OF slugs])
    then show ?thesis
      using Some True by (simp add: collectRelationship_def nullifyRelationship_def drop_items_cases(1) [OF assms(2)])
  next
    case False
    then show ?thesis using Some item [OF slugs, of v] null by (simp add: collectRelationship_def nullifyRelationship_def)
  qed
qed (simp add: collectRelationship_def)

lemma nullify_upload_collects:
  assumes "wf_value v"
  shows "collectUpload owner f (fst (nullifyUpload target f v)) l i =
    (case fldUpload f of
       Some u \<Rightarrow> if clearedOnDelete (uplOnDelete u) then filter (survives target) (collectUpload owner f v l i)
                 else collectUpload owner f v l i
     | None \<Rightarrow> [])"
proof (cases "fldUpload f")
  case (Some u)
  define c where "c x = (case text_of x of
               Some k \<Rightarrow> if k \<noteq> [] then [reference_entry owner i l (uplCollectionID u) k] else []
             | None \<Rightarrow> [])" for x
  have collect: "collectUpload owner f v l i = concat (map c (if uplHasMany u then list_items v else [v]))" for v
    using Some by (simp add: collectUpload_def c_def [abs_def])
  have item: "filter (survives target) (c x)
      = (if uplCollectionID u = refCollectionID target \<and> text_of x = Some (refDocumentID target) then [] else c x)" for x
    by (auto simp: c_def survives_entry split: option.splits)
  have null: "c SNull = []" by (simp add: c_def text_of_def)
  have all: "filter (survives target) (concat (map c xs)) = concat (map c xs)"
    if "uplCollectionID u \<noteq> refCollectionID target" for xs
    using item that by (induction xs) auto
  show ?thesis
  proof (cases "uplHasMany u \<and> uplCollectionID u = refCollectionID target")
    case True
    have "concat (map c (filter (\<lambda>x. text_of x \<noteq> Some (refDocumentID target)) (list_items v)))
        = filter (survives target) (concat (map c (list_items v)))"
      by (rule filter_concat_dropped) (use True item in simp)
    then show ?thesis using Some True
      by (simp add: collect nullifyUpload_def drop_items_cases(1) [OF assms])
  next
    case False
    then show ?thesis
      using Some item [of v] null all by (auto simp: collect nullifyUpload_def)
  qed
qed (simp add: collectUpload_def)

lemma nullify_leaf_unchanged: "\<not> snd (nullify_leaf target f v) \<Longrightarrow> fst (nullify_leaf target f v) = v"
proof -
  have drop: "\<not> snd (drop_items d v) \<Longrightarrow> fst (drop_items d v) = v" for d
    by (cases v) (auto simp: drop_items_def Let_def)
  assume "\<not> snd (nullify_leaf target f v)"
  then show ?thesis
    by (auto simp: nullify_leaf_def nullifyRelationship_def nullifyUpload_def dest: drop
        split: option.splits if_splits)
qed

lemma nullify_leaf_wf: "wf_value v \<Longrightarrow> wf_value (fst (nullify_leaf target f v))"
  using drop_items_cases(3)
  by (auto simp: nullify_leaf_def nullifyRelationship_def nullifyUpload_def split: option.splits)

lemma filter_survives_twice: "filter p (filter p xs) = filter p xs"
  by simp

lemma clearing_simps [simp]: "unambiguous (unlocalized f) = unambiguous f" "clearing (unlocalized f) = clearing f"
  by (simp_all add: unambiguous_def clearing_def)

lemma collect_without_field:
  "fldRelationship f = None \<Longrightarrow> collectRelationship owner f v l i = []"
  "fldUpload f = None \<Longrightarrow> collectUpload owner f v l i = []"
  by (simp_all add: collectRelationship_def collectUpload_def)

interpretation untouched: reference_rewrite "nullify_leaf target" "survives target" "survives target" unambiguous
  for target
proof (unfold_locales, goal_cases)
  case (1 f v owner l i)
  then show ?case
    by (cases "fldRelationship f") (simp_all add: nullify_leaf_def nullify_relationship_collects collect_without_field)
next
  case (2 f v owner l i)
  then show ?case
    by (cases "fldUpload f") (simp_all add: nullify_leaf_def nullify_upload_collects collect_without_field)
qed (simp_all add: nullify_leaf_unchanged nullify_leaf_wf)

interpretation cleared: reference_rewrite "nullify_leaf target" "\<lambda>_. True" "survives target" clearing
  for target
proof (unfold_locales, goal_cases)
  case (1 f v owner l i)
  then show ?case
    by (cases "fldRelationship f")
      (simp_all add: clearing_def nullify_leaf_def nullify_relationship_collects collect_without_field)
next
  case (2 f v owner l i)
  then show ?case
    by (cases "fldUpload f") (simp_all add: clearing_def nullify_leaf_def nullify_upload_collects collect_without_field)
qed (simp_all add: nullify_leaf_unchanged nullify_leaf_wf)

section \<open>Retiring a resource\<close>

definition stays :: "string list \<Rightarrow> entry \<Rightarrow> bool" where
  "stays targets e \<longleftrightarrow> refCollectionID (enTarget e) \<notin> set targets"

lemma stays_entry [simp]: "stays targets (reference_entry owner fieldID l c i) \<longleftrightarrow> c \<notin> set targets"
  by (simp add: stays_def reference_entry_def)

lemma clear_reference_items:
  "wf_value v \<Longrightarrow> list_items (fst (clear_reference True v)) = []"
  "fst (clear_reference False v) = SNull"
  "\<not> snd (clear_reference h v) \<Longrightarrow> fst (clear_reference h v) = v"
  "wf_value v \<Longrightarrow> wf_value (fst (clear_reference h v))"
proof -
  show "wf_value v \<Longrightarrow> list_items (fst (clear_reference True v)) = []"
    by (cases v) (auto simp: vlen_wf clear_reference_def list_items_def ListOf_def value_tree.list_build)
  show "fst (clear_reference False v) = SNull" by (cases v) (simp_all add: clear_reference_def)
  show "\<not> snd (clear_reference h v) \<Longrightarrow> fst (clear_reference h v) = v"
    by (auto simp: clear_reference_def split: if_splits)
  show "wf_value v \<Longrightarrow> wf_value (fst (clear_reference h v))" by (simp add: clear_reference_def)
qed

lemma polymorphic_item_stays:
  "relPolymorphic r \<Longrightarrow> filter (stays targets) (collect_relationship_item r (reference_entry owner fieldID l) x)
    = (if polymorphicValueTargetsResource r x targets then []
       else collect_relationship_item r (reference_entry owner fieldID l) x)"
  unfolding collect_relationship_item_def polymorphicValueTargetsResource_def
  by (auto split: option.splits)

lemma fixed_item_stays:
  "\<not> relPolymorphic r \<Longrightarrow> filter (stays targets) (collect_relationship_item r (reference_entry owner fieldID l) x)
    = (if relCollectionID r \<in> set targets then []
       else collect_relationship_item r (reference_entry owner fieldID l) x)"
  by (auto simp: collect_relationship_item_def split: option.splits)

lemma filter_concat_same:
  assumes "\<And>x. filter p (f x) = (if c then [] else f x)"
  shows "filter p (concat (map f xs)) = (if c then [] else concat (map f xs))"
  using assms by (induction xs) auto

lemma remove_relationship_collects:
  assumes "wf_value v"
  shows "collectRelationship owner f (fst (removeResourceRelationship targets f v)) l i
    = filter (stays targets) (collectRelationship owner f v l i)"
proof (cases "fldRelationship f")
  case (Some r)
  define c where "c = collect_relationship_item r (reference_entry owner i l)"
  have null: "c SNull = []" by (simp add: c_def collect_relationship_item_def text_of_def Get_def)
  have collect: "collectRelationship owner f v l i = concat (map c (if relHasMany r then list_items v else [v]))" for v
    using Some by (simp add: collectRelationship_def c_def)
  show ?thesis
  proof (cases "relPolymorphic r")
    case True
    note poly = polymorphic_item_stays [OF True, of targets owner i l, folded c_def]
    have "concat (map c (filter (\<lambda>x. \<not> polymorphicValueTargetsResource r x targets) (list_items v)))
        = filter (stays targets) (concat (map c (list_items v)))"
      by (rule filter_concat_dropped) (rule poly)
    then show ?thesis
      using Some True poly [of v] null
      by (simp add: collect removeResourceRelationship_def drop_items_cases(1) [OF assms])
  next
    case False
    note fixed = filter_concat_same [OF fixed_item_stays [OF False, of targets owner i l, folded c_def]]
    show ?thesis
      unfolding collect fixed using Some False null clear_reference_items(1) [OF assms] clear_reference_items(2)
      by (cases "relHasMany r") (auto simp: removeResourceRelationship_def)
  qed
qed (simp add: collectRelationship_def)

lemma remove_upload_collects:
  assumes "wf_value v"
  shows "collectUpload owner f (fst (removeResourceUpload targets f v)) l i
    = filter (stays targets) (collectUpload owner f v l i)"
proof (cases "fldUpload f")
  case (Some u)
  define c where "c x = (case text_of x of
               Some k \<Rightarrow> if k \<noteq> [] then [reference_entry owner i l (uplCollectionID u) k] else []
             | None \<Rightarrow> [])" for x
  have collect: "collectUpload owner f v l i = concat (map c (if uplHasMany u then list_items v else [v]))" for v
    using Some by (simp add: collectUpload_def c_def [abs_def])
  have "filter (stays targets) (c x) = (if uplCollectionID u \<in> set targets then [] else c x)" for x
    by (auto simp: c_def split: option.splits)
  note fixed = filter_concat_same [OF this]
  have null: "c SNull = []" by (simp add: c_def text_of_def)
  show ?thesis
    unfolding collect fixed using Some null clear_reference_items(1) [OF assms] clear_reference_items(2)
    by (cases "uplHasMany u") (auto simp: removeResourceUpload_def)
qed (simp add: collectUpload_def)

lemma remove_leaf_cases:
  "\<not> snd (remove_leaf targets f v) \<Longrightarrow> fst (remove_leaf targets f v) = v"
  "wf_value v \<Longrightarrow> wf_value (fst (remove_leaf targets f v))"
proof -
  have drop: "\<not> snd (drop_items d v) \<Longrightarrow> fst (drop_items d v) = v" for d
    by (cases v) (auto simp: drop_items_def Let_def)
  show "\<not> snd (remove_leaf targets f v) \<Longrightarrow> fst (remove_leaf targets f v) = v"
    by (auto simp: remove_leaf_def removeResourceRelationship_def removeResourceUpload_def
        dest: drop clear_reference_items(3) split: option.splits if_splits)
  show "wf_value v \<Longrightarrow> wf_value (fst (remove_leaf targets f v))"
    using drop_items_cases(3) clear_reference_items(4)
    by (auto simp: remove_leaf_def removeResourceRelationship_def removeResourceUpload_def split: option.splits)
qed

interpretation retired: reference_rewrite "remove_leaf targets" "\<lambda>_. True" "stays targets" "\<lambda>_. True"
  for targets
  by unfold_locales (simp_all add: remove_leaf_def remove_relationship_collects remove_upload_collects
      remove_leaf_cases [unfolded remove_leaf_def])

section \<open>The index of a document\<close>

definition with_values :: "document \<Rightarrow> svalues \<Rightarrow> document" where
  "with_values d values = (case d of Document i ca ua da st rv prv hc _ ls \<Rightarrow>
     Document i ca ua da st rv prv hc values ls)"

lemma with_values_simps [simp]: "docValues (with_values d m) = m" "docID (with_values d m) = docID d"
  by (cases d; simp add: with_values_def)+

text \<open>An entry as a fact about the document, without the position among equal facts.\<close>

definition unnumbered :: "entry \<Rightarrow> entry" where
  "unnumbered e = e\<lparr>enOccurrence := 0\<rparr>"

definition reference_facts :: "collection \<Rightarrow> document \<Rightarrow> entry list" where
  "reference_facts c d = map unnumbered (collectUnchecked c d)"

lemma unnumbered_assign: "map unnumbered (assign_from tally es) = map unnumbered es"
  by (induction es arbitrary: tally) (simp_all add: unnumbered_def Let_def)

lemma filter_unnumbered:
  "(\<And>e. p (unnumbered e) = p e) \<Longrightarrow> filter p (map unnumbered es) = map unnumbered (filter p es)"
  by (induction es) auto

lemma survives_unnumbered [simp]: "survives target (unnumbered e) = survives target e" "stays targets (unnumbered e) = stays targets e"
  by (simp_all add: unnumbered_def survives_def stays_def)

lemma facts_filter:
  assumes "\<And>e. p (unnumbered e) = p e"
  shows "filter p (reference_facts c d) = concat (map (\<lambda>f. case map_of (docValues d) (fldName f) of
      Some v \<Rightarrow> map unnumbered (filter p (collectField (owner_of c d) f v [] (root_placement (owner_of c d) f)))
    | None \<Rightarrow> []) (colFields c))"
proof -
  have "filter p (map unnumbered (collectFieldUnchecked (owner_of c d) f v []))
      = map unnumbered (filter p (collectField (owner_of c d) f v [] (root_placement (owner_of c d) f)))" for f v
    by (simp add: collectFieldUnchecked_def assignOccurrences_def unnumbered_assign filter_unnumbered [of p, OF assms])
  then show ?thesis
    unfolding reference_facts_def collectUnchecked_def assignOccurrences_def unnumbered_assign
    by (simp add: map_concat filter_concat comp_def option.case_distrib [of "map unnumbered"]
        option.case_distrib [of "filter p"] cong: option.case_cong)
qed

lemma facts_map_filter:
  assumes "\<And>f l at owner. f \<in> set (colFields c) \<Longrightarrow>
      (case map_of m' (fldName f) of Some v \<Rightarrow> filter q (collectField owner f v l at) | None \<Rightarrow> [])
    = (case map_of (docValues d) (fldName f) of Some v \<Rightarrow> filter p (collectField owner f v l at) | None \<Rightarrow> [])"
    and "\<And>e. p (unnumbered e) = p e" "\<And>e. q (unnumbered e) = q e"
  shows "filter q (reference_facts c (with_values d m')) = filter p (reference_facts c d)"
proof -
  have owner: "owner_of c (with_values d m') = owner_of c d" by (simp add: owner_of_def)
  have "(case map_of m' (fldName f) of
      Some v \<Rightarrow> map unnumbered (filter q (collectField (owner_of c d) f v [] (root_placement (owner_of c d) f))) | None \<Rightarrow> [])
    = (case map_of (docValues d) (fldName f) of
      Some v \<Rightarrow> map unnumbered (filter p (collectField (owner_of c d) f v [] (root_placement (owner_of c d) f))) | None \<Rightarrow> [])"
    if "f \<in> set (colFields c)" for f
    using arg_cong [OF assms(1) [OF that, of "owner_of c d" "[]" "root_placement (owner_of c d) f"], of "map unnumbered"]
    by (simp add: option.case_distrib [of "map unnumbered"] cong: option.case_cong)
  then show ?thesis
    unfolding facts_filter [of p, OF assms(2)] facts_filter [of q, OF assms(3)] owner with_values_simps
    by (simp cong: map_cong)
qed


definition sample_reference :: field where
  "sample_reference = FieldDef ''f'' ''tags'' [''tags''] FieldTypeRelationship FieldCategoryRelationship
     False False False False None
     (Some \<lparr>relCollectionID = ''t'', relCollectionSlug = ''t'', relTargets = [], relHasMany = True,
        relPolymorphic = False, relOnDelete = ReferenceDeleteNullify\<rparr>) None None None None None no_details"

definition sample_owner :: collection where
  "sample_owner = \<lparr>colID = ''c'', colSlug = ''c'', colCapabilities = \<lparr>capTrash = False, capVersions = False\<rparr>,
     colAuthIdentityField = None, colUpload = False, colVersions = None, colFields = [sample_reference], colIndexes = []\<rparr>"

definition sample_document :: document where
  "sample_document = Document ''d'' 0 0 None [] 0 0 False
     [(''tags'', ListOf [SString ''a'', SString ''b'', SString ''a''])] None"

lemma sample_tidy: "ok sample_reference \<Longrightarrow> tidy ok sample_reference"
  by (auto simp: tidy_def below_Cons tidy_here_def sample_reference_def eachDefinitionChildSource_def
      embedded_HasFields_def)

lemma sample_wf: "wf_values (docValues sample_document)"
  by (simp add: wf_values_def sample_document_def wf_map_def)

lemma sample_fields: "distinct (map fldName (colFields sample_owner))" "colFields sample_owner = [sample_reference]"
  by (simp_all add: sample_owner_def)




section \<open>Occurrences\<close>

definition tally_of :: "(string \<times> int) list \<Rightarrow> string \<Rightarrow> int" where
  "tally_of tally key = (case map_of tally key of Some n \<Rightarrow> n | None \<Rightarrow> 0)"

lemma occurrence_key_update [simp]: "occurrence_count_key (e\<lparr>enOccurrence := n\<rparr>) = occurrence_count_key e"
  by (simp add: occurrence_count_key_def)

lemma assign_from_occurrences:
  "map enOccurrence (filter (\<lambda>e. occurrence_count_key e = k) (assign_from tally es))
    = map (\<lambda>i. tally_of tally k + int i) [0..<length (filter (\<lambda>e. occurrence_count_key e = k) es)]"
proof (induction es arbitrary: tally)
  case (Cons e es)
  have upt: "map (\<lambda>i. n + int i) [0..<Suc m] = n # map (\<lambda>i. n + 1 + int i) [0..<m]" for n m
    by (simp add: upt_conv_Cons map_Suc_upt [symmetric] comp_def del: upt_Suc)
  show ?case
    using Cons.IH by (auto simp: Let_def tally_of_def upt simp del: upt_Suc)
qed simp

lemma filter_assign_length:
  "length (filter (\<lambda>e. occurrence_count_key e = k) (assign_from tally es))
    = length (filter (\<lambda>e. occurrence_count_key e = k) es)"
  by (induction es arbitrary: tally) (simp_all add: Let_def)

text \<open>
  C38. The entries of a document are numbered: those with the same owner, field, target
  and locale carry the occurrences 0, 1, 2 and so on in document order, so that no two
  entries have the same key and the derived index never loses a duplicate list member.
\<close>

theorem occurrences_are_consecutive:
  "map enOccurrence (filter (\<lambda>e. occurrence_count_key e = k) (collectUnchecked c d))
    = map int [0..<length (filter (\<lambda>e. occurrence_count_key e = k) (collectUnchecked c d))]"
  unfolding collectUnchecked_def assignOccurrences_def filter_assign_length assign_from_occurrences
  by (simp add: tally_of_def)

section \<open>Cascades\<close>

definition cascading :: "(string \<Rightarrow> collection option) \<Rightarrow> document_reference set \<Rightarrow> entry \<Rightarrow> bool" where
  "cascading collections pending e \<longleftrightarrow> enOwner e \<notin> pending \<and> enOwner e \<noteq> enTarget e
     \<and> (\<exists>c f root. collections (refCollectionID (enOwner e)) = Some c
          \<and> FindReferenceField c (enFieldID e) = Some (f, root) \<and> DeleteAction f = ReferenceDeleteCascade)"

definition unresolvable :: "(string \<Rightarrow> collection option) \<Rightarrow> document_reference set \<Rightarrow> entry \<Rightarrow> bool" where
  "unresolvable collections pending e \<longleftrightarrow> enOwner e \<notin> pending \<and> enOwner e \<noteq> enTarget e
     \<and> (case collections (refCollectionID (enOwner e)) of
          None \<Rightarrow> True | Some c \<Rightarrow> FindReferenceField c (enFieldID e) = None)"

lemma cascade_loop_result:
  "distinct owners \<Longrightarrow>
   (case cascade_loop collections pending es owners of
      Inr result \<Rightarrow> distinct result
        \<and> set result = set owners \<union> enOwner ` set (filter (cascading collections pending) es)
    | Inl err \<Rightarrow> list_ex (unresolvable collections pending) es)"
proof (induction es arbitrary: owners)
  case (Cons e es)
  show ?case
  proof (cases "enOwner e \<in> pending \<or> enOwner e \<in> set owners \<or> enOwner e = enTarget e")
    case True
    then show ?thesis
      using Cons.IH [OF Cons.prems] by (auto simp: cascading_def split: sum.splits)
  next
    case False
    show ?thesis
    proof (cases "\<exists>c f root. collections (refCollectionID (enOwner e)) = Some c \<and> FindReferenceField c (enFieldID e) = Some (f, root)")
      case True
      then obtain c f root where found: "collections (refCollectionID (enOwner e)) = Some c"
        "FindReferenceField c (enFieldID e) = Some (f, root)" by blast
      let ?owners = "if DeleteAction f = ReferenceDeleteCascade then owners @ [enOwner e] else owners"
      have "distinct ?owners" using False Cons.prems by simp
      from Cons.IH [OF this] found False show ?thesis
        by (auto simp: cascading_def split: sum.splits if_splits)
    next
      case None: False
      then have "unresolvable collections pending e"
        using False by (cases "collections (refCollectionID (enOwner e))";
            cases "FindReferenceField (the (collections (refCollectionID (enOwner e)))) (enFieldID e)")
          (auto simp: unresolvable_def)
      with None False show ?thesis by (auto split: option.splits)
    qed
  qed
qed simp

text \<open>
  C39. A cascade names every owner that refers to the target through a cascading field
  once, in the order of collection and document, leaves out owners that are already being
  deleted and the target itself, and fails only when an entry's owner collection or field
  is not in the schema it was given.
\<close>

theorem cascade_owners_are_exact:
  "case CascadeOwners entries collections pending of
     Inr owners \<Rightarrow> distinct owners \<and> sorted (map (\<lambda>o'. (refCollectionID o', refDocumentID o')) owners)
       \<and> set owners = enOwner ` set (filter (cascading collections pending) entries)
   | Inl err \<Rightarrow> list_ex (unresolvable collections pending) entries"
proof -
  from cascade_loop_result [of "[]" collections pending entries] show ?thesis
    by (auto simp: CascadeOwners_def split: sum.splits)
qed

end
