(* ===== verification/Localization.thy ===== *)
theory Localization
  imports Population_Walk Value_Shape Schema_Ids
begin

text \<open>
  Locales of a request and the transform between one locale's view of a document and its
  canonical storage (\<open>internal/localization/localization.go\<close>, \<open>embedded.go\<close>): the fallback
  chain, the storage patch of a write, the projection of a read with the locale that
  supplied each path, the merge of a patch into the stored values, and the localized
  values a copy to another locale takes along.
\<close>

section \<open>Selections\<close>

record selection =
  slnLocale :: string
  slnChain :: "string list"
  slnAll :: bool
  slnConfigured :: "string list"
  slnPreserveNull :: bool

definition no_selection :: selection where
  "no_selection = \<lparr>slnLocale = [], slnChain = [], slnAll = False, slnConfigured = [], slnPreserveNull = False\<rparr>"

datatype resolve_error =
  LocalizationNotConfigured | AllWithFallback | UnknownLocale string | UnknownFallback string

definition appendUnique :: "string list \<Rightarrow> string \<Rightarrow> string list" where
  "appendUnique values v = (if v \<in> set values then values else values @ [v])"

fun fallback_chain :: "(string, locale_setting) gomap \<Rightarrow> string list \<Rightarrow> string list \<Rightarrow> resolve_error + string list" where
  "fallback_chain byCode [] chain = Inr chain"
| "fallback_chain byCode (f # fs) chain =
     (if map_of byCode f = None then Inl (UnknownFallback f)
      else fallback_chain byCode fs (appendUnique chain f))"

definition by_code :: "localization_settings \<Rightarrow> (string, locale_setting) gomap" where
  "by_code settings = fold (\<lambda>l m. put (locCode l) l m) (lsLocales settings) []"

text \<open>A nil override is \<^const>\<open>None\<close>; an empty one is not.\<close>

definition Resolve ::
  "localization_settings option \<Rightarrow> string \<Rightarrow> string list option \<Rightarrow> bool \<Rightarrow> bool \<Rightarrow> resolve_error + selection" where
  "Resolve settings locale0 explicitFallback disableFallback all0 =
     (let explicit = (case explicitFallback of None \<Rightarrow> [] | Some fs \<Rightarrow> fs) in
      case settings of
        None \<Rightarrow>
          if locale0 \<noteq> [] \<or> explicit \<noteq> [] \<or> disableFallback \<or> all0
          then Inl LocalizationNotConfigured else Inr no_selection
      | Some st \<Rightarrow>
          let everything = (locale0 = ''all'' \<or> locale0 = ''*'');
              every = all0 \<or> everything;
              locale = (if everything then [] else locale0)
          in if every then
               (if locale \<noteq> [] \<or> explicit \<noteq> [] then Inl AllWithFallback
                else Inr (no_selection\<lparr>slnAll := True, slnChain := [lsDefaultLocale st], slnConfigured := LocaleCodes st\<rparr>))
             else
               let selected = (if locale = [] then lsDefaultLocale st else locale) in
               case map_of (by_code st) selected of
                 None \<Rightarrow> Inl (UnknownLocale selected)
               | Some l \<Rightarrow>
                   (case (if disableFallback then Inr [selected]
                          else fallback_chain (by_code st)
                                 (case explicitFallback of Some fs \<Rightarrow> fs | None \<Rightarrow> locFallbackLocales l) [selected]) of
                      Inl e \<Rightarrow> Inl e
                    | Inr chain \<Rightarrow>
                        Inr (no_selection\<lparr>slnLocale := selected, slnConfigured := LocaleCodes st,
                          slnChain := (if \<not> disableFallback \<and> lsFallback st
                                       then appendUnique chain (lsDefaultLocale st) else chain)\<rparr>)))"

definition fallback_disabled :: "string list" where
  "fallback_disabled = [''false'', ''none'', ''null'']"

fun fallback_parts :: "string list \<Rightarrow> string + string list" where
  "fallback_parts [] = Inr []"
| "fallback_parts (part # parts) =
     (let code = trim_space part in
      if \<not> IsValidLocaleCode code then Inl code
      else case fallback_parts parts of Inl e \<Rightarrow> Inl e | Inr codes \<Rightarrow> Inr (code # codes))"

text \<open>\<open>strings.ToLower\<close> is the parameter \<open>lower\<close>: on the disable tokens it is ASCII.\<close>

definition ParseFallbackQuery ::
  "(string \<Rightarrow> string) \<Rightarrow> string \<Rightarrow> string + string list option \<times> bool" where
  "ParseFallbackQuery lower raw =
     (let text = trim_space raw in
      if text = [] then Inr (None, False)
      else if lower text \<in> set fallback_disabled then Inr (Some [], True)
      else case fallback_parts (split_on (CHR '','') text) of
        Inl code \<Rightarrow> Inl code
      | Inr codes \<Rightarrow> Inr (Some codes, False))"

section \<open>What needs a traversal\<close>

definition fieldsHaveLocalization :: "field list \<Rightarrow> bool" where
  "fieldsHaveLocalization fs \<longleftrightarrow> ListTraits fs AND FieldTraitLocalized \<noteq> 0"

definition hasLocalizedDescendant :: "field \<Rightarrow> bool" where
  "hasLocalizedDescendant f \<longleftrightarrow> DescendantTraits f AND FieldTraitLocalized \<noteq> 0"

definition traversalTraits :: field_traits where
  "traversalTraits = FieldTraitLocalized OR FieldTraitEmbedded"

definition fieldsNeedTraversal :: "field list \<Rightarrow> bool" where
  "fieldsNeedTraversal fs \<longleftrightarrow> ListTraits fs AND traversalTraits \<noteq> 0"

definition descendantsNeedTraversal :: "field \<Rightarrow> bool" where
  "descendantsNeedTraversal f \<longleftrightarrow> DescendantTraits f AND traversalTraits \<noteq> 0"

section \<open>Child objects\<close>

type_synonym 's object_transform =
  "field list \<Rightarrow> svalue \<Rightarrow> string \<Rightarrow> 's \<Rightarrow> (embedded_error + svalue \<times> bool) \<times> 's"

definition mapChildObjects ::
  "field \<Rightarrow> svalue \<Rightarrow> string \<Rightarrow> 's object_transform \<Rightarrow> 's \<Rightarrow> (embedded_error + svalue \<times> bool) \<times> 's" where
  "mapChildObjects f v path transform s =
     (if embedded_HasFields f then
        (case TransformValue f v (if path = [] then fldName f else path)
             (\<lambda>occ (b, (s1, changed)).
                case transform (roFields occ) (roPayload occ) (roRuntimePath occ) s1 of
                  (Inl e, s2) \<Rightarrow> (Inl e, (b, (s2, changed)))
                | (Inr (next, updated), s2) \<Rightarrow> (Inr (next, updated), (b, (s2, changed \<or> updated))))
             (NewBudget, (s, False)) of
           (Inl e, (b, (s1, changed))) \<Rightarrow> (Inl e, s1)
         | (Inr transformed, (b, (s1, changed))) \<Rightarrow> (Inr (transformed, changed), s1))
      else if \<not> descendantsNeedTraversal f then (Inr (v, False), s)
      else if fldType f = FieldTypeGroup then
        (case fldNested f of
           Some fs \<Rightarrow> if svalue_Kind v = KindObject then transform fs v path s else (Inr (v, False), s)
         | None \<Rightarrow> (Inr (v, False), s))
      else if fldType f = FieldTypeArray \<or> fldType f = FieldTypeBlocks then
        (case v of
           SList t \<Rightarrow>
             (case map_node_items (\<lambda>x rowPath s1.
                   if svalue_Kind x \<noteq> KindObject \<or> \<not> fieldsNeedTraversal (row_fields f x)
                   then (Inr (x, False), s1)
                   else transform (row_fields f x) x (if path = [] then [] else rowPath) s1) path 0 (elements t) s of
                (Inl e, s1) \<Rightarrow> (Inl e, s1)
              | (Inr (items, changed), s1) \<Rightarrow> (Inr (if changed then ListOf items else v, changed), s1))
         | _ \<Rightarrow> (Inr (v, False), s))
      else (Inr (v, False), s))"

lemma mapChildObjects_cong [fundef_cong]:
  assumes "f = g" "v = w" "p = q" "s = s'"
    and same: "\<And>fs x r s. size_list size fs < size g \<Longrightarrow> t fs x r s = u fs x r s"
  shows "mapChildObjects f v p t s = mapChildObjects g w q u s'"
proof -
  have rows: "t (row_fields g x) x r s = u (row_fields g x) x r s" for x r s
    by (rule same) (rule size_row_fields)
  have items: "map_node_items (\<lambda>x rowPath s1. if c x then (Inr (x, False), s1)
        else t (row_fields g x) x (if q = [] then [] else rowPath) s1) q 0 xs s'
      = map_node_items (\<lambda>x rowPath s1. if c x then (Inr (x, False), s1)
        else u (row_fields g x) x (if q = [] then [] else rowPath) s1) q 0 xs s'" for c xs
    by (rule map_node_items_cong) (simp_all add: rows)
  have nested: "t fs x r s = u fs x r s" if "fldNested g = Some fs" for fs x r s
    by (rule same) (rule size_nested [OF that])
  have embedded: "TransformValue g w name
      (\<lambda>occ (b, (s1, changed)).
                case t (roFields occ) (roPayload occ) (roRuntimePath occ) s1 of
                  (Inl e, s2) \<Rightarrow> (Inl e, (b, (s2, changed)))
                | (Inr (next, updated), s2) \<Rightarrow> (Inr (next, updated), (b, (s2, changed \<or> updated)))) bs
    = TransformValue g w name
      (\<lambda>occ (b, (s1, changed)).
                case u (roFields occ) (roPayload occ) (roRuntimePath occ) s1 of
                  (Inl e, s2) \<Rightarrow> (Inl e, (b, (s2, changed)))
                | (Inr (next, updated), s2) \<Rightarrow> (Inr (next, updated), (b, (s2, changed \<or> updated)))) bs" for name bs
  proof (rule TransformValue_cong [OF refl refl refl refl])
    fix occ and st :: "ebudget \<times> ('a \<times> bool)" assume "occurs_in g occ"
    then have "t (roFields occ) x r s = u (roFields occ) x r s" for x r s
      by (intro same occurs_in_size)
    then show "(case st of (b, (s1, changed)) \<Rightarrow>
                case t (roFields occ) (roPayload occ) (roRuntimePath occ) s1 of
                  (Inl e, s2) \<Rightarrow> (Inl e, (b, (s2, changed)))
                | (Inr (next, updated), s2) \<Rightarrow> (Inr (next, updated), (b, (s2, changed \<or> updated))))
      = (case st of (b, (s1, changed)) \<Rightarrow>
                case u (roFields occ) (roPayload occ) (roRuntimePath occ) s1 of
                  (Inl e, s2) \<Rightarrow> (Inl e, (b, (s2, changed)))
                | (Inr (next, updated), s2) \<Rightarrow> (Inr (next, updated), (b, (s2, changed \<or> updated))))"
      by (simp split: prod.splits)
  qed
  show ?thesis
    unfolding assms(1-4) mapChildObjects_def embedded items
    using nested by (auto split: option.splits)
qed

fun transform_members ::
  "(field \<Rightarrow> svalue \<Rightarrow> 's \<Rightarrow> (embedded_error + svalue \<times> bool) \<times> 's) \<Rightarrow> svalue \<Rightarrow> field list \<Rightarrow> svalues option \<Rightarrow> 's \<Rightarrow>
   (embedded_error + svalues option) \<times> 's" where
  "transform_members transform object [] result s = (Inr result, s)"
| "transform_members transform object (c # cs) result s =
     (case Lookup object (fldName c) of
        None \<Rightarrow> transform_members transform object cs result s
      | Some v \<Rightarrow>
          (case transform c v s of
             (Inl e, s1) \<Rightarrow> (Inl e, s1)
           | (Inr r, s1) \<Rightarrow>
               transform_members transform object cs (store_member object (fldName c) r result) s1))"

definition transformObject ::
  "field list \<Rightarrow> svalue \<Rightarrow> (field \<Rightarrow> svalue \<Rightarrow> 's \<Rightarrow> (embedded_error + svalue \<times> bool) \<times> 's) \<Rightarrow> 's \<Rightarrow>
   (embedded_error + svalue \<times> bool) \<times> 's" where
  "transformObject fs object transform s =
     (case transform_members transform object fs None s of
        (Inl e, s1) \<Rightarrow> (Inl e, s1) | (Inr result, s1) \<Rightarrow> (Inr (object_or object result), s1))"

lemma transformObject_cong [fundef_cong]:
  assumes "fs = gs" "v = w" "s = s'" "\<And>c x s. c \<in> set gs \<Longrightarrow> t c x s = u c x s"
  shows "transformObject fs v t s = transformObject gs w u s'"
proof -
  have "transform_members t w gs r s' = transform_members u w gs r s'" for r
    using assms(4) by (induction gs arbitrary: r s') (auto split: option.splits prod.splits sum.splits)
  then show ?thesis unfolding assms(1-3) transformObject_def by simp
qed

section \<open>Writing one locale\<close>

text \<open>
  An all-locales write is checked in the order of the map, which decides only which of
  several unknown locales is named.
\<close>

function storageValue ::
  "selection \<Rightarrow> field \<Rightarrow> svalue \<Rightarrow> string \<Rightarrow> 's \<Rightarrow> (embedded_error + svalue \<times> bool) \<times> 's" where
  "storageValue sel f v path u =
     (if fldLocalized f then
        (if slnAll sel then
           (case v of
              SObject m \<Rightarrow>
                (case find (\<lambda>(code, _). code \<notin> set (slnConfigured sel)) m of
                   None \<Rightarrow> (Inr (v, False), u)
                 | Some (code, _) \<Rightarrow> (Inl (UnknownLocaleKey code, path), u))
            | _ \<Rightarrow> (Inl (LocaleMapExpected, path), u))
         else (Inr (ObjectOf [(slnLocale sel, v)], True), u))
      else mapChildObjects f v path (\<lambda>fs object objectPath.
             transformObject fs object (\<lambda>child childValue.
               storageValue sel child childValue (objectPath @ CHR ''.'' # fldName child))) u)"
  by pat_completeness auto
termination
  by (relation "measure (\<lambda>(sel, f, v, p, u). size f)") (auto dest: size_list_mem)

declare storageValue.simps [simp del]

fun storage_members ::
  "field list \<Rightarrow> svalues \<Rightarrow> selection \<Rightarrow> svalues \<Rightarrow> embedded_error + svalues" where
  "storage_members [] values sel result = Inr result"
| "storage_members (f # fs) values sel result =
     (case map_of values (fldName f) of
        None \<Rightarrow> storage_members fs values sel result
      | Some v \<Rightarrow>
          (case fst (storageValue sel f v (fldName f) ()) of
             Inl e \<Rightarrow> Inl e
           | Inr (localized, _) \<Rightarrow> storage_members fs values sel (put (fldName f) localized result)))"

definition StoragePatch :: "field list \<Rightarrow> svalues \<Rightarrow> selection \<Rightarrow> embedded_error + svalues" where
  "StoragePatch fs values sel =
     (if slnLocale sel = [] \<and> \<not> slnAll sel then Inr (CloneValues values)
      else storage_members fs values sel [])"

section \<open>Which locale supplied what\<close>

text \<open>
  \<open>localeSources\<close>: one record is held inline, a map is allocated for a second.
\<close>

record locale_sources =
  lsrPath :: string
  lsrLocale :: string
  lsrMore :: "(string, string) gomap option"

definition no_sources :: locale_sources where
  "no_sources = \<lparr>lsrPath = [], lsrLocale = [], lsrMore = None\<rparr>"

definition record_source :: "string \<Rightarrow> string \<Rightarrow> locale_sources \<Rightarrow> locale_sources" where
  "record_source path code sources =
     (if lsrMore sources = None \<and> (lsrPath sources = [] \<or> lsrPath sources = path)
      then sources\<lparr>lsrPath := path, lsrLocale := code\<rparr>
      else sources\<lparr>lsrMore := Some (put path code
        (case lsrMore sources of Some m \<Rightarrow> m | None \<Rightarrow> [(lsrPath sources, lsrLocale sources)]))\<rparr>)"

definition sources_len :: "locale_sources \<Rightarrow> nat" where
  "sources_len sources =
     (case lsrMore sources of Some m \<Rightarrow> length m | None \<Rightarrow> if lsrPath sources \<noteq> [] then 1 else 0)"

definition sources_copyInto :: "locale_sources \<Rightarrow> (string, string) gomap \<Rightarrow> (string, string) gomap" where
  "sources_copyInto sources target =
     (case lsrMore sources of
        Some m \<Rightarrow> fold (\<lambda>(path, code) t. put path code t) m target
      | None \<Rightarrow> if lsrPath sources \<noteq> [] then put (lsrPath sources) (lsrLocale sources) target else target)"

definition detachedMap :: "locale_sources \<Rightarrow> (string, string) gomap option" where
  "detachedMap sources = (if sources_len sources = 0 then None else Some (sources_copyInto sources []))"

section \<open>Reading one locale\<close>

text \<open>
  A projection answers the value, whether it is visible and whether it differs from
  the stored one.
\<close>

definition place_member :: "svalue \<Rightarrow> string \<Rightarrow> svalue \<times> bool \<times> bool \<Rightarrow> svalues option \<Rightarrow> svalues option" where
  "place_member object name r result =
     (case r of (projected, visible, changed) \<Rightarrow>
        if visible \<and> \<not> changed then result
        else let m = (case result of Some m \<Rightarrow> m | None \<Rightarrow> fst (CopyObject object))
             in Some (if visible then put name projected m else del name m))"

fun project_members ::
  "(field \<Rightarrow> svalue \<Rightarrow> 's \<Rightarrow> (svalue \<times> bool \<times> bool) \<times> 's) \<Rightarrow> svalue \<Rightarrow> field list \<Rightarrow> svalues option \<Rightarrow> 's \<Rightarrow>
   svalues option \<times> 's" where
  "project_members project object [] result s = (result, s)"
| "project_members project object (f # fs) result s =
     (if \<not> fldLocalized f \<and> \<not> embedded_HasFields f \<and> \<not> descendantsNeedTraversal f
      then project_members project object fs result s
      else case Lookup object (fldName f) of
        None \<Rightarrow> project_members project object fs result s
      | Some v \<Rightarrow>
          (case project f v s of
             (r, s1) \<Rightarrow> project_members project object fs (place_member object (fldName f) r result) s1))"

lemma project_members_cong [fundef_cong]:
  assumes "v = w" "fs = gs" "r = r'" "s = s'" "\<And>c x s. c \<in> set gs \<Longrightarrow> t c x s = u c x s"
  shows "project_members t v fs r s = project_members u w gs r' s'"
  unfolding assms(1-4) using assms(5)
  by (induction gs arbitrary: r' s') (auto split: option.splits prod.splits)

function projectValueAt ::
  "selection \<Rightarrow> field \<Rightarrow> svalue \<Rightarrow> string \<Rightarrow> locale_sources \<Rightarrow> (svalue \<times> bool \<times> bool) \<times> locale_sources" where
  "projectValueAt sel f v path sources =
     (if fldLocalized f then
        (if slnAll sel then ((v, True, False), sources)
         else if svalue_Kind v \<noteq> KindObject then ((SInvalid, False, True), sources)
         else case pick_locale (slnPreserveNull sel) (slnChain sel) v of
           None \<Rightarrow> ((SInvalid, False, True), sources)
         | Some (code, candidate) \<Rightarrow> ((candidate, True, True), record_source path code sources))
      else if fldNested f = None \<and> fldBlocks f = None \<and> fldPlugin f = None
      then ((v, True, False), sources)
      else case mapChildObjects f v path (\<lambda>fs object objectPath s.
               case project_members (\<lambda>c x. projectValueAt sel c x (objectPath @ CHR ''.'' # fldName c)) object fs None s of
                 (result, s1) \<Rightarrow> (Inr (object_or object result), s1)) sources of
          (Inl e, s1) \<Rightarrow> ((v, False, True), s1)
        | (Inr (transformed, changed), s1) \<Rightarrow> ((transformed, True, changed), s1))"
  by pat_completeness auto
termination
  by (relation "measure (\<lambda>(sel, f, v, p, s). size f)") (auto dest: size_list_mem)

declare projectValueAt.simps [simp del]

definition projectObject ::
  "field list \<Rightarrow> svalue \<Rightarrow> selection \<Rightarrow> string \<Rightarrow> locale_sources \<Rightarrow> (svalue \<times> bool) \<times> locale_sources" where
  "projectObject fs object sel parentPath sources =
     (case project_members (\<lambda>c x. projectValueAt sel c x (parentPath @ CHR ''.'' # fldName c)) object fs None sources of
        (result, s1) \<Rightarrow> (object_or object result, s1))"

fun project_roots ::
  "selection \<Rightarrow> field list \<Rightarrow> svalues \<Rightarrow> locale_sources \<Rightarrow> svalues \<times> locale_sources" where
  "project_roots sel [] values sources = (values, sources)"
| "project_roots sel (f # fs) values sources =
     (case map_of values (fldName f) of
        None \<Rightarrow> project_roots sel fs values sources
      | Some canonical \<Rightarrow>
          (case projectValueAt sel f canonical (fldName f) sources of
             ((v, visible, _), s1) \<Rightarrow>
               project_roots sel fs (if visible then put (fldName f) v values else del (fldName f) values) s1))"

definition with_projection :: "document \<Rightarrow> svalues \<Rightarrow> (string, string) gomap option \<Rightarrow> document" where
  "with_projection d values sources = (case d of Document i ca ua da st rv prv hc _ _ \<Rightarrow>
     Document i ca ua da st rv prv hc values sources)"

definition ProjectDocument :: "document \<Rightarrow> field list \<Rightarrow> selection \<Rightarrow> document" where
  "ProjectDocument d fs sel =
     (if slnLocale sel = [] \<and> \<not> slnAll sel then CloneDocument d
      else case project_roots sel fs (CloneValues (docValues d)) no_sources of
        (values, sources) \<Rightarrow> with_projection d values (detachedMap sources))"

definition ProjectDocumentChecked :: "document \<Rightarrow> field list \<Rightarrow> selection \<Rightarrow> embedded_error + document" where
  "ProjectDocumentChecked d fs sel =
     (case fst (validate_members fs (map_of (docValues d)) [] True NewBudget) of
        Some e \<Rightarrow> Inl e | None \<Rightarrow> Inr (ProjectDocument d fs sel))"

end
