(* ===== verification/Projector.thy ===== *)
theory Projector
  imports Localization
begin

text \<open>
  The cache of root-field projections of one operation (\<open>internal/localization/projector.go\<close>).
  \<open>Value.SameBacking\<close>, which compares the addresses of two values' storage, is the
  parameter \<open>same\<close>. A root holds the projections of one source value, most recent
  first; a missing root and one without entries behave alike and are both the empty root.
\<close>

definition projectionEntriesPerField :: nat where "projectionEntriesPerField = 4"

record projection_entry =
  penSelection :: selection
  penValue :: svalue
  penVisible :: bool
  penSources :: "locale_sources option"

record projection_root =
  prtSource :: svalue
  prtEntries :: "projection_entry list"

record projector =
  pjFields :: "field list"
  pjRoots :: "projection_root list"
  pjSelections :: "selection list"

definition empty_root :: projection_root where
  "empty_root = \<lparr>prtSource = SInvalid, prtEntries = []\<rparr>"

definition NewProjector :: "field list \<Rightarrow> projector" where
  "NewProjector fs = \<lparr>pjFields = fs, pjRoots = [], pjSelections = []\<rparr>"

definition projector_Clear :: "projector \<Rightarrow> projector" where
  "projector_Clear p = p\<lparr>pjRoots := [], pjSelections := []\<rparr>"

definition sameProjectionSelection :: "selection \<Rightarrow> selection \<Rightarrow> bool" where
  "sameProjectionSelection left right \<longleftrightarrow>
     slnLocale left = slnLocale right \<and> slnAll left = slnAll right
     \<and> slnPreserveNull left = slnPreserveNull right
     \<and> slnChain left = slnChain right \<and> slnConfigured left = slnConfigured right"

text \<open>A hit moves its entry to the front.\<close>

definition cached ::
  "(svalue \<Rightarrow> svalue \<Rightarrow> bool) \<Rightarrow> projection_root \<Rightarrow> svalue \<Rightarrow> selection \<Rightarrow> projection_entry option \<times> projection_root" where
  "cached same root v sel =
     (if prtEntries root = [] then (None, root)
      else if \<not> same (prtSource root) v then (None, empty_root)
      else case find (\<lambda>e. sameProjectionSelection (penSelection e) sel) (prtEntries root) of
        None \<Rightarrow> (None, root)
      | Some entry \<Rightarrow>
          (Some entry, root\<lparr>prtEntries :=
             entry # takeWhile (\<lambda>e. \<not> sameProjectionSelection (penSelection e) sel) (prtEntries root)
             @ tl (dropWhile (\<lambda>e. \<not> sameProjectionSelection (penSelection e) sel) (prtEntries root))\<rparr>))"

definition root_store :: "projection_root \<Rightarrow> svalue \<Rightarrow> projection_entry \<Rightarrow> projection_root" where
  "root_store root source entry =
     \<lparr>prtSource = source, prtEntries = take projectionEntriesPerField (entry # prtEntries root)\<rparr>"

definition ownedSelection :: "projector \<Rightarrow> selection \<Rightarrow> selection \<times> projector" where
  "ownedSelection p sel =
     (case find (\<lambda>owned. sameProjectionSelection owned sel) (pjSelections p) of
        Some owned \<Rightarrow> (owned, p)
      | None \<Rightarrow>
          (sel, p\<lparr>pjSelections :=
             (if length (pjSelections p) = projectionEntriesPerField then tl (pjSelections p)
              else pjSelections p) @ [sel]\<rparr>))"

definition projected_entry :: "field \<Rightarrow> svalue \<Rightarrow> selection \<Rightarrow> projection_entry" where
  "projected_entry f v owned =
     (case projectValueAt owned f v (fldName f) no_sources of
        ((projected, visible, _), scratch) \<Rightarrow>
          \<lparr>penSelection = owned, penValue = projected, penVisible = visible,
           penSources = (if sources_len scratch \<noteq> 0 then Some scratch else None)\<rparr>)"

definition root_entry ::
  "(svalue \<Rightarrow> svalue \<Rightarrow> bool) \<Rightarrow> projector \<Rightarrow> nat \<Rightarrow> field \<Rightarrow> svalue \<Rightarrow> selection \<Rightarrow> projection_entry \<times> projector" where
  "root_entry same p i f v sel =
     (case cached same (pjRoots p ! i) v sel of
        (Some entry, root) \<Rightarrow> (entry, p\<lparr>pjRoots := (pjRoots p)[i := root]\<rparr>)
      | (None, root) \<Rightarrow>
          (case ownedSelection p sel of
             (owned, p1) \<Rightarrow>
               let entry = projected_entry f v owned
               in (entry, p1\<lparr>pjRoots := (pjRoots p1)[i := root_store root v entry]\<rparr>)))"

definition add_sources ::
  "bool \<Rightarrow> projection_entry \<Rightarrow> (string, string) gomap option \<Rightarrow> (string, string) gomap option" where
  "add_sources includeSources entry sources =
     (case penSources entry of
        Some recorded \<Rightarrow>
          if includeSources
          then Some (sources_copyInto recorded (case sources of Some m \<Rightarrow> m | None \<Rightarrow> []))
          else sources
      | None \<Rightarrow> sources)"

fun project_fields ::
  "(svalue \<Rightarrow> svalue \<Rightarrow> bool) \<Rightarrow> selection \<Rightarrow> bool \<Rightarrow> field list \<Rightarrow> nat \<Rightarrow> projector \<Rightarrow> svalues \<Rightarrow>
   (string, string) gomap option \<Rightarrow> (svalues \<times> (string, string) gomap option) \<times> projector" where
  "project_fields same sel includeSources [] i p values sources = ((values, sources), p)"
| "project_fields same sel includeSources (f # fs) i p values sources =
     (case map_of values (fldName f) of
        None \<Rightarrow> project_fields same sel includeSources fs (i + 1) p values sources
      | Some v \<Rightarrow>
          (case root_entry same p i f v sel of
             (entry, p1) \<Rightarrow>
               project_fields same sel includeSources fs (i + 1) p1
                 (if penVisible entry then put (fldName f) (penValue entry) values else del (fldName f) values)
                 (add_sources includeSources entry sources)))"

definition projector_project ::
  "(svalue \<Rightarrow> svalue \<Rightarrow> bool) \<Rightarrow> projector \<Rightarrow> svalues \<Rightarrow> selection \<Rightarrow> bool \<Rightarrow>
   (svalues \<times> (string, string) gomap option) \<times> projector" where
  "projector_project same p values sel includeSources =
     (if slnLocale sel = [] \<and> \<not> slnAll sel then ((values, None), p)
      else project_fields same sel includeSources (pjFields p) 0
             (if pjRoots p = [] then p\<lparr>pjRoots := replicate (length (pjFields p)) empty_root\<rparr> else p) values None)"

definition projector_Values ::
  "(svalue \<Rightarrow> svalue \<Rightarrow> bool) \<Rightarrow> projector \<Rightarrow> svalues \<Rightarrow> selection \<Rightarrow> svalues \<times> projector" where
  "projector_Values same p values sel =
     (case projector_project same p (CloneValues values) sel False of ((result, _), p1) \<Rightarrow> (result, p1))"

definition projector_Document ::
  "(svalue \<Rightarrow> svalue \<Rightarrow> bool) \<Rightarrow> projector \<Rightarrow> document \<Rightarrow> selection \<Rightarrow> document \<times> projector" where
  "projector_Document same p d sel =
     (if slnLocale sel = [] \<and> \<not> slnAll sel then (CloneDocument d, p)
      else case projector_project same p (CloneValues (docValues d)) sel True of
        ((values, sources), p1) \<Rightarrow> (with_projection d values sources, p1))"

definition ValuesChecked ::
  "(svalue \<Rightarrow> svalue \<Rightarrow> bool) \<Rightarrow> projector \<Rightarrow> svalues \<Rightarrow> selection \<Rightarrow> (embedded_error + svalues) \<times> projector" where
  "ValuesChecked same p values sel =
     (case fst (validate_members (pjFields p) (map_of values) [] True NewBudget) of
        Some e \<Rightarrow> (Inl e, p)
      | None \<Rightarrow> (case projector_Values same p values sel of (result, p1) \<Rightarrow> (Inr result, p1)))"

definition DocumentChecked ::
  "(svalue \<Rightarrow> svalue \<Rightarrow> bool) \<Rightarrow> projector \<Rightarrow> document \<Rightarrow> selection \<Rightarrow> (embedded_error + document) \<times> projector" where
  "DocumentChecked same p d sel =
     (case fst (validate_members (pjFields p) (map_of (docValues d)) [] True NewBudget) of
        Some e \<Rightarrow> (Inl e, p)
      | None \<Rightarrow> (case projector_Document same p d sel of (result, p1) \<Rightarrow> (Inr result, p1)))"

end
