(* ===== verification/Projection_Properties.thy ===== *)
theory Projection_Properties
  imports Projector Value_Shape
begin

text \<open>
  The projection cache answers what a fresh projection answers. A projection threads its
  record of sources through the walk of a document, while the cache projects each root
  alone and merges the records, so the first section relates walks that differ only in
  the state they thread.
\<close>

section \<open>Walks that differ in their state\<close>

definition related :: "('s \<Rightarrow> 't \<Rightarrow> bool) \<Rightarrow> 'a \<times> 's \<Rightarrow> 'a \<times> 't \<Rightarrow> bool" where
  "related R x y \<longleftrightarrow> fst x = fst y \<and> R (snd x) (snd y)"

lemma related_pair [simp]: "related R (a, s) (b, t) \<longleftrightarrow> a = b \<and> R s t"
  by (simp add: related_def)

lemma relatedE:
  assumes "related R x y"
  obtains a s t where "x = (a, s)" "y = (a, t)" "R s t"
  using assms by (cases x; cases y) auto

definition walk_related :: "('s \<Rightarrow> 't \<Rightarrow> bool) \<Rightarrow> 's walk_state \<Rightarrow> 't walk_state \<Rightarrow> bool" where
  "walk_related R st st' \<longleftrightarrow> related R (fst st) (fst st') \<and> snd st = snd st'"

lemma walk_related_pair [simp]: "walk_related R (bs, seen) (bs', seen') \<longleftrightarrow> related R bs bs' \<and> seen = seen'"
  by (simp add: walk_related_def)

definition respectful :: "('s \<Rightarrow> 't \<Rightarrow> bool) \<Rightarrow> 's transform \<Rightarrow> 't transform \<Rightarrow> bool" where
  "respectful R t u \<longleftrightarrow> (\<forall>occ st st'. related R st st' \<longrightarrow> related (related R) (t occ st) (u occ st'))"

lemma visit_case_related:
  assumes "respectful R t u" "walk_related R st st'"
  shows "related (walk_related R) (visit_case t tree c v path st) (visit_case u tree c v path st')"
proof -
  obtain bs seen where st: "st = (bs, seen)" by (cases st)
  obtain bs' where st': "st' = (bs', seen)" "related R bs bs'" using assms(2) st by (cases st') auto
  let ?payload = "Get v (ecPayload c)" and ?path = "join path (ecPayload c)"
  show ?thesis
  proof (cases "svalue_Kind ?payload = KindObject")
    case True
    show ?thesis
    proof (cases "payload_type c ?payload")
      case variant: (Some variant)
      obtain k seen1 where k: "occurrence_key c ?payload ?path seen = (k, seen1)" by fastforce
      show ?thesis
      proof (cases k)
        case (Inr key)
        let ?occ = "occurrence_of tree c variant ?payload ?path key"
        have "related (related R) (t ?occ bs) (u ?occ bs')" using assms(1) st'(2) unfolding respectful_def by blast
        then obtain r x y where "t ?occ bs = (r, x)" "u ?occ bs' = (r, y)" "related R x y" by (rule relatedE)
        then show ?thesis using st st' True variant k Inr
          by (simp add: visit_case_def Let_def split: sum.splits prod.splits)
      qed (use st st' True variant k in \<open>simp add: visit_case_def Let_def\<close>)
    qed (use st st' True in \<open>simp add: visit_case_def Let_def\<close>)
  qed (use st st' in \<open>simp add: visit_case_def Let_def\<close>)
qed

lemma visit_cases_related:
  assumes "respectful R t u" "walk_related R st st'"
  shows "related (walk_related R) (visit_cases t tree v path st) (visit_cases u tree v path st')"
  using visit_case_related [OF assms] assms(2) by (auto simp: visit_cases_def Let_def split: option.splits)

lemma map_node_items_related:
  assumes "\<And>x r st st'. x \<in> set xs \<Longrightarrow> S st st' \<Longrightarrow> related S (f x r st) (g x r st')" "S st st'"
  shows "related S (map_node_items f path i xs st) (map_node_items g path i xs st')"
  using assms
proof (induction xs arbitrary: i st st')
  case (Cons x xs)
  have "related S (f x (path @ CHR ''.'' # nat_dec i) st) (g x (path @ CHR ''.'' # nat_dec i) st')"
    using Cons.prems by simp
  then obtain r s1 s2 where r: "f x (path @ CHR ''.'' # nat_dec i) st = (r, s1)"
    "g x (path @ CHR ''.'' # nat_dec i) st' = (r, s2)" "S s1 s2" by (rule relatedE)
  have "related S (map_node_items f path (i + 1) xs s1) (map_node_items g path (i + 1) xs s2)"
    by (rule Cons.IH) (use Cons.prems r in auto)
  then show ?case using r by (elim relatedE) (auto split: sum.splits)
qed simp

lemma mapNodes_related:
  assumes "\<And>x r st st'. x \<in> set (elements t) \<Longrightarrow> S st st' \<Longrightarrow> related S (f x r st) (g x r st')" "S st st'"
  shows "related S (mapNodes f t path st) (mapNodes g t path st')"
proof -
  have "related S (map_node_items f path 0 (elements t) st) (map_node_items g path 0 (elements t) st')"
    by (rule map_node_items_related [OF assms(1) assms(2)])
  then show ?thesis unfolding mapNodes_def by (elim relatedE) (auto split: sum.splits)
qed

lemma entering_related:
  assumes "walk_related R st st'"
    and "\<And>st st'. walk_related R st st' \<Longrightarrow> related (walk_related R) (f st) (g st')"
  shows "related (walk_related R) (entering path f st) (entering path g st')"
proof -
  obtain b s seen where st: "st = ((b, s), seen)" by (metis surj_pair)
  obtain s' where st': "st' = ((b, s'), seen)" "R s s'" using assms(1) st by (cases st') auto
  obtain e b1 where e: "Enter path b = (e, b1)" by fastforce
  show ?thesis
  proof (cases e)
    case None
    have "related (walk_related R) (f ((b1, s), seen)) (g ((b1, s'), seen))" using st' by (intro assms(2)) simp
    then obtain r x y where "f ((b1, s), seen) = (r, x)" "g ((b1, s'), seen) = (r, y)" "walk_related R x y"
      by (rule relatedE)
    then show ?thesis using st st' e None
      by (cases x; cases y) (auto simp: entering_def split: prod.splits)
  qed (use st st' e in \<open>simp add: entering_def\<close>)
qed

lemma walk_node_related:
  assumes t: "respectful R t u"
  shows "walk_related R st st' \<Longrightarrow>
    related (walk_related R) (walk_node t tree v path st) (walk_node u tree v path st')"
proof (induction "size v" arbitrary: v path st st' rule: less_induct)
  case less
  show ?case
    unfolding walk_node.simps [of _ tree v path]
  proof (rule entering_related [OF less.prems], goal_cases)
    case (1 st st')
    then obtain b s s' seen where st: "st = ((b, s), seen)" "st' = ((b, s'), seen)" "R s s'"
      by (cases st; cases st') auto
    obtain e b1 where e: "budget_node path b = (e, b1)" by fastforce
    have "related (walk_related R) (visit_cases t tree v path ((b1, s), seen)) (visit_cases u tree v path ((b1, s'), seen))"
      by (rule visit_cases_related [OF t]) (simp add: st)
    then obtain r x y where r: "visit_cases t tree v path ((b1, s), seen) = (r, x)"
      "visit_cases u tree v path ((b1, s'), seen) = (r, y)" "walk_related R x y" by (rule relatedE)
    have nodes: "related (walk_related R) (mapNodes (walk_node t tree) w p x) (mapNodes (walk_node u tree) w p y)"
      if "Lookup v (etChildren tree) = Some (SList w)" for w p
      by (rule mapNodes_related [where S = "walk_related R", OF less.hyps [OF size_Lookup_element [OF that]] r(3)])
    show ?case
    proof (cases "\<exists>w. Lookup v (etChildren tree) = Some (SList w)")
      case True
      then obtain w where w: "Lookup v (etChildren tree) = Some (SList w)" by blast
      show ?thesis
        using nodes [OF w, of "join path (etChildren tree)"] st e r w
        by (elim relatedE) (auto split: option.split sum.split)
    next
      case False
      then show ?thesis using st e r by (auto split: option.split sum.split svalue.split)
    qed
  qed
qed

lemma walk_root_related:
  assumes t: "respectful R t u"
  shows "walk_related R st st' \<Longrightarrow>
    related (walk_related R) (walk_root t tree v segments path st) (walk_root u tree v segments path st')"
proof (induction segments arbitrary: v path st st')
  case Nil
  have "related (walk_related R) (mapNodes (walk_node t tree) w path st) (mapNodes (walk_node u tree) w path st')" for w
    by (rule mapNodes_related [where S = "walk_related R", OF walk_node_related [OF t] Nil])
  then show ?case using walk_node_related [OF t Nil] by (auto split: svalue.split)
next
  case (Cons segment segments)
  show ?case
    unfolding walk_root.simps
  proof (rule entering_related [OF Cons.prems], goal_cases)
    case (1 st st')
    show ?case
    proof (cases "Lookup v segment")
      case (Some child)
      then show ?thesis using Cons.IH [OF 1, of child "join path segment"] 1
        by (elim relatedE) (auto split: sum.split)
    qed (use 1 in auto)
  qed
qed

lemma walk_trees_related:
  assumes t: "respectful R t u"
  shows "related R bs bs' \<Longrightarrow> related (related R) (walk_trees t trees v prefix bs) (walk_trees u trees v prefix bs')"
proof (induction trees arbitrary: v bs bs')
  case (Cons tree trees)
  have "related (walk_related R) (walk_root t tree v (etRoot tree) prefix (bs, [])) (walk_root u tree v (etRoot tree) prefix (bs', []))"
    by (rule walk_root_related [OF t]) (simp add: Cons.prems)
  then obtain r x y where r: "walk_root t tree v (etRoot tree) prefix (bs, []) = (r, x)"
    "walk_root u tree v (etRoot tree) prefix (bs', []) = (r, y)" "walk_related R x y" by (rule relatedE)
  then show ?case using Cons.IH by (cases x; cases y) (auto split: sum.split)
qed simp

lemma TransformValue_related:
  assumes same: "\<And>occ st st'. occurs_in f occ \<Longrightarrow> related R st st' \<Longrightarrow> related (related R) (t occ st) (u occ st')"
    and bs: "related R bs bs'"
  shows "related (related R) (TransformValue f v prefix t bs) (TransformValue f v prefix u bs')"
proof -
  define t' where "t' = (\<lambda>occ st. if occurs_in f occ then t occ st else (Inr (roPayload occ, False), st))"
  define u' where "u' = (\<lambda>occ st. if occurs_in f occ then u occ st else (Inr (roPayload occ, False), st))"
  have eq: "TransformValue f v prefix t bs = TransformValue f v prefix t' bs"
    "TransformValue f v prefix u bs' = TransformValue f v prefix u' bs'"
    by (rule TransformValue_cong; simp add: t'_def u'_def)+
  have "respectful R t' u'" using same by (simp add: respectful_def t'_def u'_def)
  from walk_trees_related [OF this bs] bs show ?thesis
    unfolding eq unfolding TransformValue_def walk_def by (cases bs; cases bs') (auto split: option.split)
qed

section \<open>Projections that differ in their sources\<close>

lemma mapChildObjects_related:
  assumes same: "\<And>fs x r s s'. size_list size fs < size f \<Longrightarrow> R s s' \<Longrightarrow> related R (t fs x r s) (u fs x r s')"
    and s: "R s s'"
  shows "related R (mapChildObjects f v path t s) (mapChildObjects f v path u s')"
proof -
  have nested: "related R (t fs x r s) (u fs x r s')" if "fldNested f = Some fs" for fs x r
    by (rule same [OF size_nested [OF that] s])
  have rows: "related R (map_node_items (\<lambda>x rowPath s1. if c x then (Inr (x, False), s1)
        else t (row_fields f x) x (if path = [] then [] else rowPath) s1) path 0 xs s)
      (map_node_items (\<lambda>x rowPath s1. if c x then (Inr (x, False), s1)
        else u (row_fields f x) x (if path = [] then [] else rowPath) s1) path 0 xs s')" for c xs
    by (rule map_node_items_related [where S = R, OF _ s]) (use same [OF size_row_fields] in auto)
  show ?thesis
  proof (cases "embedded_HasFields f")
    case True
    have "related (related (\<lambda>(x, c) (y, d). c = d \<and> R x y))
      (TransformValue f v (if path = [] then fldName f else path)
             (\<lambda>occ (b, (s1, changed)).
                case t (roFields occ) (roPayload occ) (roRuntimePath occ) s1 of
                  (Inl e, s2) \<Rightarrow> (Inl e, (b, (s2, changed)))
                | (Inr (next, updated), s2) \<Rightarrow> (Inr (next, updated), (b, (s2, changed \<or> updated)))) (NewBudget, (s, False)))
      (TransformValue f v (if path = [] then fldName f else path)
             (\<lambda>occ (b, (s1, changed)).
                case u (roFields occ) (roPayload occ) (roRuntimePath occ) s1 of
                  (Inl e, s2) \<Rightarrow> (Inl e, (b, (s2, changed)))
                | (Inr (next, updated), s2) \<Rightarrow> (Inr (next, updated), (b, (s2, changed \<or> updated)))) (NewBudget, (s', False)))"
    proof (rule TransformValue_related, goal_cases)
      case (1 occ st st')
      obtain b x c where st: "st = (b, (x, c))" by (metis surj_pair)
      obtain y where st': "st' = (b, (y, c))" "R x y" using 1(2) st by (cases st') auto
      have "related R (t (roFields occ) (roPayload occ) (roRuntimePath occ) x) (u (roFields occ) (roPayload occ) (roRuntimePath occ) y)"
        by (rule same [OF occurs_in_size [OF 1(1)] st'(2)])
      then show ?case using st st' by (elim relatedE) (auto split: sum.split prod.split)
    qed (simp add: s)
    then show ?thesis
      using True by (elim relatedE) (auto simp: mapChildObjects_def split: sum.split prod.splits)
  next
    case False
    show ?thesis
    proof (cases "fldType f = FieldTypeGroup")
      case True
      then show ?thesis using False nested s by (simp add: mapChildObjects_def split: option.split)
    next
      case other: False
      show ?thesis
      proof (cases v)
        case (SList w)
        show ?thesis
          using False other SList s rows [of "\<lambda>x. svalue_Kind x \<noteq> KindObject \<or> \<not> fieldsNeedTraversal (row_fields f x)" "elements w"]
          by (elim relatedE) (auto simp: mapChildObjects_def split: sum.split)
      qed (use False other s in \<open>simp_all add: mapChildObjects_def\<close>)
    qed
  qed
qed

lemma project_members_related:
  assumes "\<And>c x s s'. c \<in> set fs \<Longrightarrow> R s s' \<Longrightarrow> related R (t c x s) (u c x s')" "R s s'"
  shows "related R (project_members t object fs result s) (project_members u object fs result s')"
  using assms
proof (induction fs arbitrary: result s s')
  case (Cons f fs)
  show ?case
  proof (cases "Lookup object (fldName f)")
    case (Some v)
    have "related R (t f v s) (u f v s')" using Cons.prems by simp
    then obtain r x y where r: "t f v s = (r, x)" "u f v s' = (r, y)" "R x y" by (rule relatedE)
    show ?thesis using Cons.IH [OF Cons.prems(1), of x y] Cons.IH [OF Cons.prems] Some r by simp
  qed (use Cons in simp)
qed simp

lemma projectValueAt_related:
  assumes closed: "\<And>p code s s'. p \<noteq> [] \<Longrightarrow> R s s' \<Longrightarrow> R (record_source p code s) (record_source p code s')"
  shows "path \<noteq> [] \<Longrightarrow> R s s' \<Longrightarrow> related R (projectValueAt sel f v path s) (projectValueAt sel f v path s')"
proof (induction "size f" arbitrary: f v path s s' rule: less_induct)
  case less
  show ?case
  proof (cases "fldLocalized f \<or> fldNested f = None \<and> fldBlocks f = None \<and> fldPlugin f = None")
    case True
    show ?thesis
    proof (cases "fldLocalized f")
      case localized: True
      show ?thesis
      proof (cases "pick_locale (slnPreserveNull sel) (slnChain sel) v")
        case None
        then show ?thesis using localized less.prems by (simp add: projectValueAt.simps [of sel f])
      next
        case (Some c)
        then show ?thesis using localized less.prems closed by (cases c) (simp add: projectValueAt.simps [of sel f])
      qed
    next
      case False
      then have "fldNested f = None \<and> fldBlocks f = None \<and> fldPlugin f = None" using True by blast
      then show ?thesis using False less.prems by (simp add: projectValueAt.simps [of sel f])
    qed
  next
    case False
    let ?t = "\<lambda>fs object objectPath s.
       case project_members (\<lambda>c x. projectValueAt sel c x (objectPath @ CHR ''.'' # fldName c)) object fs None s of
         (result, s1) \<Rightarrow> (Inr (object_or object result) :: embedded_error + svalue \<times> bool, s1)"
    have "related R (mapChildObjects f v path ?t s) (mapChildObjects f v path ?t s')"
    proof (rule mapChildObjects_related [where R = R, OF _ less.prems(2)])
      fix fs :: "field list" and x r s s' assume fs: "size_list size fs < size f" and s: "R s s'"
      have "related R
         (project_members (\<lambda>c y. projectValueAt sel c y (r @ CHR ''.'' # fldName c)) x fs None s)
         (project_members (\<lambda>c y. projectValueAt sel c y (r @ CHR ''.'' # fldName c)) x fs None s')"
      proof (rule project_members_related [where R = R, OF _ s])
        fix c y s s' assume "c \<in> set fs" "R s s'"
        then show "related R (projectValueAt sel c y (r @ CHR ''.'' # fldName c) s)
          (projectValueAt sel c y (r @ CHR ''.'' # fldName c) s')"
          using size_list_mem [of c fs] fs by (intro less.hyps) auto
      qed
      then show "related R (?t fs x r s) (?t fs x r s')" by (elim relatedE) simp
    qed
    then obtain r x y where "mapChildObjects f v path ?t s = (r, x)" "mapChildObjects f v path ?t s' = (r, y)" "R x y"
      by (rule relatedE)
    moreover have "\<not> (fldNested f = None \<and> fldBlocks f = None \<and> fldPlugin f = None)" "\<not> fldLocalized f" using False by blast+
    ultimately show ?thesis
      by (cases r) (auto simp: projectValueAt.simps [of sel f])
  qed
qed

text \<open>What a record of sources says, and what a projection adds to it.\<close>

definition source_of :: "locale_sources \<Rightarrow> string \<rightharpoonup> string" where
  "source_of s = (case lsrMore s of
     Some m \<Rightarrow> map_of m
   | None \<Rightarrow> if lsrPath s \<noteq> [] then [lsrPath s \<mapsto> lsrLocale s] else Map.empty)"

definition sources_ok :: "locale_sources \<Rightarrow> bool" where
  "sources_ok s \<longleftrightarrow> (\<forall>m. lsrMore s = Some m \<longrightarrow> wf_map m)"

lemma record_source_of [simp]: "p \<noteq> [] \<Longrightarrow> source_of (record_source p code s) = (source_of s)(p \<mapsto> code)"
  by (auto simp: source_of_def record_source_def fun_eq_iff split: option.splits)

lemma record_source_ok [simp]: "sources_ok s \<Longrightarrow> sources_ok (record_source p code s)"
  by (auto simp: sources_ok_def record_source_def wf_map_def [of "[_]"] split: option.splits)

lemma no_sources_simps [simp]: "source_of no_sources = Map.empty" "sources_ok no_sources"
  by (simp_all add: source_of_def sources_ok_def no_sources_def)

lemma sources_len_0: "sources_len s = 0 \<longleftrightarrow> source_of s = Map.empty"
  by (auto simp: sources_len_def source_of_def split: option.splits)

lemma fold_put_override:
  "wf_map m \<Longrightarrow> map_of (fold (\<lambda>(p, code) t. put p code t) m target) = map_of target ++ map_of m"
proof (induction m arbitrary: target)
  case (Cons x m)
  obtain p code where x: "x = (p, code)" by (cases x)
  have "p \<notin> dom (map_of m)" using Cons.prems x by (simp add: wf_map_def dom_map_of_conv_image_fst)
  then show ?case using Cons x by (auto simp: wf_map_def map_add_def fun_eq_iff split: option.splits)
qed simp

lemma sources_copyInto_map: "sources_ok s \<Longrightarrow> map_of (sources_copyInto s target) = map_of target ++ source_of s"
  by (auto simp: sources_copyInto_def source_of_def sources_ok_def fold_put_override map_add_def fun_eq_iff split: option.splits)

lemma project_after:
  assumes "path \<noteq> []" "sources_ok s"
  shows "fst (projectValueAt sel f v path s) = fst (projectValueAt sel f v path no_sources)"
    and "source_of (snd (projectValueAt sel f v path s))
      = source_of s ++ source_of (snd (projectValueAt sel f v path no_sources))"
    and "sources_ok (snd (projectValueAt sel f v path s))"
proof -
  have "related (\<lambda>x y. source_of y = source_of s ++ source_of x \<and> sources_ok x \<and> sources_ok y)
    (projectValueAt sel f v path no_sources) (projectValueAt sel f v path s)"
    by (rule projectValueAt_related) (use assms in auto)
  then show "fst (projectValueAt sel f v path s) = fst (projectValueAt sel f v path no_sources)"
    "source_of (snd (projectValueAt sel f v path s))
      = source_of s ++ source_of (snd (projectValueAt sel f v path no_sources))"
    "sources_ok (snd (projectValueAt sel f v path s))"
    by (auto simp: related_def)
qed

section \<open>A cache as an interface\<close>

text \<open>
  Asking a valid memory gives an answer that agrees with a direct computation and leaves the
  memory valid; so does any sequence of questions.
\<close>

locale memo =
  fixes ask :: "'k \<Rightarrow> 'm \<Rightarrow> 'v \<times> 'm" and direct :: "'k \<Rightarrow> 'v"
    and valid :: "'m \<Rightarrow> bool" and agrees :: "'v \<Rightarrow> 'v \<Rightarrow> bool"
  assumes ask_valid: "valid m \<Longrightarrow> valid (snd (ask k m))"
    and ask_agrees: "valid m \<Longrightarrow> agrees (fst (ask k m)) (direct k)"
begin

lemma after_asking: "valid m \<Longrightarrow> valid (fold (\<lambda>k m. snd (ask k m)) ks m)"
  by (induction ks arbitrary: m) (simp_all add: ask_valid)

lemma asked_later: "valid m \<Longrightarrow> agrees (fst (ask k (fold (\<lambda>k m. snd (ask k m)) ks m))) (direct k)"
  by (rule ask_agrees [OF after_asking])

end

section \<open>The projection cache\<close>

definition root_ok :: "field \<Rightarrow> projection_root \<Rightarrow> bool" where
  "root_ok f root \<longleftrightarrow> (\<forall>e\<in>set (prtEntries root). e = projected_entry f (prtSource root) (penSelection e))"

text \<open>
  A cache is valid for fields with names when equal backing means equal values and every
  entry is the projection of its root's source.
\<close>

definition cache_ok :: "(svalue \<Rightarrow> svalue \<Rightarrow> bool) \<Rightarrow> field list \<Rightarrow> projector \<Rightarrow> bool" where
  "cache_ok same fs p \<longleftrightarrow> (\<forall>v w. same v w \<longrightarrow> v = w) \<and> [] \<notin> fldName ` set fs \<and> pjFields p = fs
     \<and> (pjRoots p = [] \<or> length (pjRoots p) = length fs)
     \<and> (\<forall>i<length (pjRoots p). root_ok (fs ! i) (pjRoots p ! i))"

lemma find_SomeD: "find P xs = Some x \<Longrightarrow> P x \<and> x \<in> set xs"
  by (induction xs) (auto split: if_splits)

lemma set_without_first: "set (takeWhile P xs @ tl (dropWhile P xs)) \<subseteq> set xs"
  by (induction xs) auto

lemma same_selection: "sameProjectionSelection s t \<Longrightarrow> s = t"
  by (cases s; cases t) (simp add: sameProjectionSelection_def)

lemma projected_selection [simp]: "penSelection (projected_entry f v sel) = sel"
  by (simp add: projected_entry_def split: prod.split)

lemma cached_ok:
  assumes sound: "\<forall>v w. same v w \<longrightarrow> v = w" and ok: "root_ok f root" and hit: "cached same root v sel = (r, root')"
  shows "root_ok f root'" and "r = Some e \<Longrightarrow> e = projected_entry f v sel"
    and "r = None \<Longrightarrow> prtEntries root' = [] \<or> prtSource root' = v"
proof -
  have "root_ok f root' \<and> (case r of Some e \<Rightarrow> e = projected_entry f v sel | None \<Rightarrow> prtEntries root' = [] \<or> prtSource root' = v)"
  proof (cases "prtEntries root = [] \<or> \<not> same (prtSource root) v")
    case True
    then show ?thesis using hit ok by (auto simp: cached_def empty_root_def root_ok_def split: if_splits)
  next
    case False
    then have v: "prtSource root = v" using sound by blast
    show ?thesis
    proof (cases "find (\<lambda>e. sameProjectionSelection (penSelection e) sel) (prtEntries root)")
      case None
      then show ?thesis using hit False ok v by (auto simp: cached_def)
    next
      case (Some entry)
      then have entry: "entry \<in> set (prtEntries root)" "penSelection entry = sel"
        by (auto dest!: find_SomeD dest: same_selection)
      let ?P = "\<lambda>e. \<not> sameProjectionSelection (penSelection e) sel"
      have "set (takeWhile ?P (prtEntries root) @ tl (dropWhile ?P (prtEntries root))) \<subseteq> set (prtEntries root)"
        by (rule set_without_first)
      moreover have hit': "r = Some entry" "root' = root\<lparr>prtEntries := entry # takeWhile ?P (prtEntries root)
          @ tl (dropWhile ?P (prtEntries root))\<rparr>"
        using hit False Some by (auto simp: cached_def)
      ultimately have "set (prtEntries root') \<subseteq> set (prtEntries root)" "prtSource root' = prtSource root"
        using entry(1) by auto
      then have "root_ok f root'" using ok unfolding root_ok_def by auto
      moreover have "entry = projected_entry f v sel" using ok entry v unfolding root_ok_def by auto
      ultimately show ?thesis using hit'(1) by simp
    qed
  qed
  then show "root_ok f root'" "r = Some e \<Longrightarrow> e = projected_entry f v sel"
    "r = None \<Longrightarrow> prtEntries root' = [] \<or> prtSource root' = v" by auto
qed

lemma root_store_ok:
  "root_ok f root \<Longrightarrow> prtEntries root = [] \<or> prtSource root = v \<Longrightarrow> root_ok f (root_store root v (projected_entry f v sel))"
  by (auto simp: root_ok_def root_store_def dest!: in_set_takeD)

lemma ownedSelection_same:
  "ownedSelection p sel = (owned, p') \<Longrightarrow> owned = sel \<and> pjRoots p' = pjRoots p \<and> pjFields p' = pjFields p"
  by (auto simp: ownedSelection_def split: option.splits dest!: find_SomeD dest: same_selection)

lemma root_entry_ok:
  assumes ok: "cache_ok same fs p" and i: "i < length (pjRoots p)" and r: "root_entry same p i (fs ! i) v sel = (e, p')"
  shows "e = projected_entry (fs ! i) v sel" and "cache_ok same fs p'" and "length (pjRoots p') = length (pjRoots p)"
proof -
  have sound: "\<forall>v w. same v w \<longrightarrow> v = w" and root: "root_ok (fs ! i) (pjRoots p ! i)" using ok i by (simp_all add: cache_ok_def)
  obtain hit root' where hit: "cached same (pjRoots p ! i) v sel = (hit, root')" by fastforce
  note cached = cached_ok [OF sound root hit]
  have stored: "cache_ok same fs q" if "pjFields q = pjFields p" "pjRoots q = (pjRoots p)[i := x]" "root_ok (fs ! i) x" for q x
    using ok i that by (auto simp: cache_ok_def nth_list_update)
  have "e = projected_entry (fs ! i) v sel \<and> cache_ok same fs p' \<and> length (pjRoots p') = length (pjRoots p)"
  proof (cases hit)
    case (Some entry)
    then show ?thesis using r hit cached stored [of p' root'] by (auto simp: root_entry_def)
  next
    case None
    obtain owned p1 where owned: "ownedSelection p sel = (owned, p1)" by fastforce
    then show ?thesis
      using r hit None ownedSelection_same [OF owned] root_store_ok [OF cached(1) cached(3) [OF None]]
        stored [of p' "root_store root' v (projected_entry (fs ! i) v sel)"]
      by (auto simp: root_entry_def Let_def)
  qed
  then show "e = projected_entry (fs ! i) v sel" "cache_ok same fs p'" "length (pjRoots p') = length (pjRoots p)" by auto
qed

text \<open>The merged records of the roots say what one record threaded through them says.\<close>

definition says :: "(string, string) gomap option \<Rightarrow> locale_sources \<Rightarrow> bool" where
  "says acc s \<longleftrightarrow> (acc = None \<longleftrightarrow> source_of s = Map.empty)
     \<and> (case acc of None \<Rightarrow> Map.empty | Some m \<Rightarrow> map_of m) = source_of s"

lemma detachedMap_says: "sources_ok s \<Longrightarrow> says (detachedMap s) s"
  by (simp add: says_def detachedMap_def sources_len_0 sources_copyInto_map)

lemma add_sources_says:
  assumes "says acc s" and e: "e = projected_entry f v sel" and name: "fldName f \<noteq> []" and s: "sources_ok s"
    and r: "projectValueAt sel f v (fldName f) s = ((x, visible, changed), s1)"
  shows "says (add_sources True e acc) s1" and "penValue e = x" and "penVisible e = visible" and "sources_ok s1"
proof -
  obtain x' visible' changed' scratch where scratch:
    "projectValueAt sel f v (fldName f) no_sources = ((x', visible', changed'), scratch)" by (metis surj_pair)
  have s1: "x' = x" "visible' = visible" "source_of s1 = source_of s ++ source_of scratch" "sources_ok s1"
    using project_after [OF name s, of sel f v] r scratch by simp_all
  have "sources_ok scratch" using project_after(3) [OF name no_sources_simps(2), of sel f v] scratch by simp
  then have "says (add_sources True e acc) s1"
    using assms(1) e scratch s1(3)
    by (auto simp: says_def add_sources_def projected_entry_def sources_len_0 sources_copyInto_map split: option.splits)
  then show "says (add_sources True e acc) s1" "penValue e = x" "penVisible e = visible" "sources_ok s1"
    using e scratch s1 by (simp_all add: projected_entry_def)
qed

lemma drop_ConsD: "drop i xs = y # ys \<Longrightarrow> i < length xs \<and> xs ! i = y \<and> drop (i + 1) xs = ys"
  by (cases "i < length xs") (simp_all add: Cons_nth_drop_Suc [symmetric])

lemma project_fields_ok:
  assumes "cache_ok same fs p" "length (pjRoots p) = length fs" "drop i fs = gs" "sources_ok s" "includeSources \<Longrightarrow> says acc s"
    and "project_fields same sel includeSources gs i p vals acc = ((vs, acc'), p')"
    and "project_roots sel gs vals s = (ws, s')"
  shows "vs = ws \<and> cache_ok same fs p' \<and> sources_ok s' \<and> (includeSources \<longrightarrow> says acc' s')"
  using assms
proof (induction gs arbitrary: i p vals acc s)
  case Nil
  then show ?case by simp
next
  case (Cons f gs)
  have i: "i < length fs" "fs ! i = f" "drop (i + 1) fs = gs"
    using drop_ConsD [OF Cons.prems(3)] by simp_all
  have "fldName f \<in> fldName ` set fs" using nth_mem [OF i(1)] unfolding i(2) by (rule imageI)
  moreover have "[] \<notin> fldName ` set fs" using Cons.prems(1) unfolding cache_ok_def by blast
  ultimately have name: "fldName f \<noteq> []" by metis
  show ?case
  proof (cases "map_of vals (fldName f)")
    case None
    then show ?thesis using Cons.IH [of p "i + 1" s acc vals] Cons.prems i by simp
  next
    case (Some v)
    obtain e p1 where e: "root_entry same p i f v sel = (e, p1)" by fastforce
    obtain x visible changed s1 where r: "projectValueAt sel f v (fldName f) s = ((x, visible, changed), s1)"
      by (metis surj_pair)
    have i': "i < length (pjRoots p)" using i Cons.prems(2) by simp
    note entry = root_entry_ok [OF Cons.prems(1) i', of v sel e p1, unfolded i(2), OF e]
    have same: "penValue e = x" "penVisible e = visible" "sources_ok s1"
      using add_sources_says [OF detachedMap_says [OF Cons.prems(4)] entry(1) name Cons.prems(4) r] by simp_all
    let ?vals = "if visible then put (fldName f) x vals else del (fldName f) vals"
    have says: "includeSources \<Longrightarrow> says (add_sources includeSources e acc) s1"
      using add_sources_says(1) [OF Cons.prems(5) entry(1) name Cons.prems(4) r] by simp
    have "project_fields same sel includeSources gs (i + 1) p1 ?vals (add_sources includeSources e acc) = ((vs, acc'), p')"
      using Cons.prems(6) Some e same(1,2) by (cases visible) simp_all
    moreover have "project_roots sel gs ?vals s1 = (ws, s')" using Cons.prems(7) Some r by simp
    moreover have "length (pjRoots p1) = length fs" using entry(3) Cons.prems(2) by simp
    ultimately show ?thesis using Cons.IH [OF entry(2) _ i(3) same(3) says] by blast
  qed
qed

lemma projector_project_ok:
  assumes ok: "cache_ok same fs p" and names: "slnLocale sel \<noteq> [] \<or> slnAll sel"
    and r: "projector_project same p vals sel includeSources = ((vs, acc), p')"
    and ws: "project_roots sel fs vals no_sources = (ws, s')"
  shows "vs = ws" and "cache_ok same fs p'" and "sources_ok s'" and "includeSources \<Longrightarrow> says acc s'"
proof -
  define q where "q = (if pjRoots p = [] then p\<lparr>pjRoots := replicate (length fs) empty_root\<rparr> else p)"
  have fs: "pjFields p = fs" using ok by (simp add: cache_ok_def)
  have q: "cache_ok same fs q" "length (pjRoots q) = length fs"
    using ok by (auto simp: q_def cache_ok_def root_ok_def empty_root_def)
  have "project_fields same sel includeSources fs 0 q vals None = ((vs, acc), p')"
    using r names by (auto simp: projector_project_def q_def fs)
  from project_fields_ok [OF q _ no_sources_simps(2) _ this ws]
  show "vs = ws" "cache_ok same fs p'" "sources_ok s'" "includeSources \<Longrightarrow> says acc s'"
    by (auto simp: says_def)
qed

lemma projector_project_valid: "cache_ok same fs p \<Longrightarrow> cache_ok same fs (snd (projector_project same p vals sel b))"
proof (cases "slnLocale sel = [] \<and> \<not> slnAll sel")
  case False
  assume ok: "cache_ok same fs p"
  obtain vs acc p' where r: "projector_project same p vals sel b = ((vs, acc), p')" by (metis surj_pair)
  obtain ws s' where "project_roots sel fs vals no_sources = (ws, s')" by fastforce
  then show ?thesis using projector_project_ok(2) [OF ok _ r] r False by simp
qed (simp add: projector_project_def)

lemma projector_Values_valid: "cache_ok same fs p \<Longrightarrow> cache_ok same fs (snd (projector_Values same p vals sel))"
  using projector_project_valid [of same fs p "CloneValues vals" sel False]
  by (simp add: projector_Values_def case_prod_beta)

lemma projector_Document_valid: "cache_ok same fs p \<Longrightarrow> cache_ok same fs (snd (projector_Document same p d sel))"
  using projector_project_valid [of same fs p "CloneValues (docValues d)" sel True]
  by (simp add: projector_Document_def case_prod_beta)

text \<open>Two documents are one projection when only the order of their recorded sources may differ.\<close>

definition same_projection :: "document \<Rightarrow> document \<Rightarrow> bool" where
  "same_projection d e \<longleftrightarrow> with_projection d (docValues d) None = with_projection e (docValues e) None
     \<and> rel_option (\<lambda>m n. map_of m = map_of n) (docLocalizationSources d) (docLocalizationSources e)"

lemma same_projection_refl [simp]: "same_projection d d"
  by (simp add: same_projection_def option.rel_refl)

lemma same_projection_with: "says acc s \<Longrightarrow> sources_ok s \<Longrightarrow>
    same_projection (with_projection d vs acc) (with_projection d vs (detachedMap s))"
  using detachedMap_says [of s]
  by (cases d) (auto simp: same_projection_def with_projection_def says_def split: option.splits)

lemma projector_Document_agrees:
  assumes ok: "cache_ok same fs p"
  shows "same_projection (fst (projector_Document same p d sel)) (ProjectDocument d fs sel)"
proof (cases "slnLocale sel = [] \<and> \<not> slnAll sel")
  case False
  obtain vs acc p' where r: "projector_project same p (CloneValues (docValues d)) sel True = ((vs, acc), p')"
    by (metis surj_pair)
  obtain ws s' where ws: "project_roots sel fs (CloneValues (docValues d)) no_sources = (ws, s')" by fastforce
  have "slnLocale sel \<noteq> [] \<or> slnAll sel" using False by simp
  note ok' = projector_project_ok [OF ok this r ws]
  show ?thesis
    using False r ws ok'(1) same_projection_with [OF ok'(4) [OF TrueI] ok'(3)]
    by (auto simp: projector_Document_def ProjectDocument_def)
qed (simp add: projector_Document_def ProjectDocument_def)

lemma projector_Values_agrees:
  assumes ok: "cache_ok same fs p"
  shows "fst (projector_Values same p (docValues d) sel) = docValues (ProjectDocument d fs sel)"
proof (cases "slnLocale sel = [] \<and> \<not> slnAll sel")
  case False
  obtain vs acc p' where r: "projector_project same p (CloneValues (docValues d)) sel False = ((vs, acc), p')"
    by (metis surj_pair)
  obtain ws s' where ws: "project_roots sel fs (CloneValues (docValues d)) no_sources = (ws, s')" by fastforce
  have "slnLocale sel \<noteq> [] \<or> slnAll sel" using False by simp
  then show ?thesis using False r ws projector_project_ok(1) [OF ok _ r ws]
    by (cases d) (auto simp: projector_Values_def ProjectDocument_def with_projection_def)
next
  case True
  then show ?thesis
    by (cases d) (simp add: projector_Values_def projector_project_def ProjectDocument_def)
qed

text \<open>The calls an operation makes on its projector.\<close>

inductive projector_step :: "(svalue \<Rightarrow> svalue \<Rightarrow> bool) \<Rightarrow> projector \<Rightarrow> projector \<Rightarrow> bool" for same where
  asked_document: "projector_step same p (snd (projector_Document same p d sel))"
| asked_values: "projector_step same p (snd (projector_Values same p vals sel))"
| asked_document_checked: "projector_step same p (snd (DocumentChecked same p d sel))"
| asked_values_checked: "projector_step same p (snd (ValuesChecked same p vals sel))"
| cleared: "projector_step same p (projector_Clear p)"

lemma projector_step_valid: "projector_step same p p' \<Longrightarrow> cache_ok same fs p \<Longrightarrow> cache_ok same fs p'"
proof (induction rule: projector_step.induct)
  case (asked_document_checked p d sel)
  then show ?case using projector_Document_valid [of same fs p d sel]
    by (auto simp: DocumentChecked_def split: option.split prod.splits)
next
  case (asked_values_checked p vals sel)
  then show ?case using projector_Values_valid [of same fs p vals sel]
    by (auto simp: ValuesChecked_def split: option.split prod.splits)
qed (simp_all add: projector_Document_valid projector_Values_valid, simp add: cache_ok_def projector_Clear_def)

lemma projector_steps_valid: "(projector_step same)\<^sup>*\<^sup>* p p' \<Longrightarrow> cache_ok same fs p \<Longrightarrow> cache_ok same fs p'"
  by (induction rule: rtranclp_induct) (auto intro: projector_step_valid)

lemma NewProjector_valid: "\<forall>v w. same v w \<longrightarrow> v = w \<Longrightarrow> [] \<notin> fldName ` set fs \<Longrightarrow> cache_ok same fs (NewProjector fs)"
  by (simp add: cache_ok_def NewProjector_def)

interpretation documents: memo "\<lambda>(d, sel) p. projector_Document same p d sel" "\<lambda>(d, sel). ProjectDocument d fs sel"
    "cache_ok same fs" same_projection
  for same fs
  by unfold_locales (auto simp: projector_Document_valid projector_Document_agrees)

interpretation document_values: memo "\<lambda>(d, sel) p. projector_Values same p (docValues d) sel"
    "\<lambda>(d, sel). docValues (ProjectDocument d fs sel)" "cache_ok same fs" "(=)"
  for same fs
  by unfold_locales (auto simp: projector_Values_valid projector_Values_agrees)

text \<open>C40. Whatever an operation has asked its projector for and however often it has cleared
  it, the projector's answer for a document is the document a fresh projection gives, with the
  same values and the same record of the locale each path was read from (\<open>same\<close> may say that
  two values share storage only if they are equal, and no root field has an empty name).\<close>

theorem cached_projections_are_projections:
  assumes "\<forall>v w. same v w \<longrightarrow> v = w" and "[] \<notin> fldName ` set fs"
    and "(projector_step same)\<^sup>*\<^sup>* (NewProjector fs) p"
  shows "same_projection (fst (projector_Document same p d sel)) (ProjectDocument d fs sel)
    \<and> fst (projector_Values same p (docValues d) sel) = docValues (ProjectDocument d fs sel)"
proof -
  have ok: "cache_ok same fs p" using projector_steps_valid [OF assms(3)] NewProjector_valid [OF assms(1,2)] by blast
  show ?thesis using documents.ask_agrees [OF ok, of "(d, sel)"] document_values.ask_agrees [OF ok, of "(d, sel)"] by simp
qed

text \<open>A localized title read in English after it was read in German, and again.\<close>

definition sample_title :: field where
  "sample_title = FieldDef ''f'' ''title'' [''title''] FieldTypeText FieldCategoryScalar False False False
     True None None None None None None None no_details"

definition sample_translated :: document where
  "sample_translated = Document ''d'' 0 0 None [] 1 0 False
     [(''title'', SObject [(''de'', SString ''Haus''), (''en'', SString ''house'')])] None"

definition english :: selection where
  "english = no_selection\<lparr>slnLocale := ''en'', slnChain := [''en''], slnConfigured := [''de'', ''en'']\<rparr>"

definition german :: selection where
  "german = english\<lparr>slnLocale := ''de'', slnChain := [''de'']\<rparr>"

definition sample_cache :: projector where
  "sample_cache = snd (projector_Document (=) (snd (projector_Document (=) (NewProjector [sample_title])
     sample_translated english)) sample_translated german)"

theorem cached_projections_are_projections_witness:
  "same_projection (fst (projector_Document (=) sample_cache sample_translated english))
      (ProjectDocument sample_translated [sample_title] english)
    \<and> fst (projector_Values (=) sample_cache (docValues sample_translated) english)
      = docValues (ProjectDocument sample_translated [sample_title] english)"
proof (rule cached_projections_are_projections)
  have "projector_step (=) (NewProjector [sample_title])
      (snd (projector_Document (=) (NewProjector [sample_title]) sample_translated english))"
    by (rule asked_document)
  moreover have "projector_step (=) (snd (projector_Document (=) (NewProjector [sample_title]) sample_translated english)) sample_cache"
    unfolding sample_cache_def by (rule asked_document)
  ultimately show "(projector_step (=))\<^sup>*\<^sup>* (NewProjector [sample_title]) sample_cache" by simp
qed (simp_all add: sample_title_def)

lemma sample_cache_hits:
  "docValues (fst (projector_Document (=) sample_cache sample_translated english)) = [(''title'', SString ''house'')]"
  "docLocalizationSources (fst (projector_Document (=) sample_cache sample_translated english)) = Some [(''title'', ''en'')]"
  by code_simp+

end
