(* ===== verification/Value_JSON.thy ===== *)
theory Value_JSON
  imports Value_Shape Json_Text
begin

text \<open>
  The JSON codec of application values (\<open>store/value_json.go\<close>). The decoder's position is
  the rest of the input; its table of repeated object keys, which maps every key to
  itself, is left out. \<open>strconv.AppendFloat\<close>, \<open>strconv.ParseFloat\<close> and \<open>Time.MarshalJSON\<close>
  are the members of a record of text rules.
\<close>

record json_rules =
  jrFormat :: "char \<Rightarrow> float64 \<Rightarrow> string"
  jrParse :: "string \<Rightarrow> float64 option"
  jrTime :: "time \<Rightarrow> string option"

definition maxJSONDepth :: nat where "maxJSONDepth = 10000"

unbundle bit_operations_syntax

section \<open>Runes\<close>

text \<open>
  \<open>utf8.DecodeRune\<close> of a string whose first byte is not ASCII: the width of a valid
  encoding, or \<^const>\<open>None\<close> for \<open>RuneError\<close> of width 1.
\<close>

definition rune_width :: "string \<Rightarrow> nat option" where
  "rune_width s =
     (case s of
        a # b # r \<Rightarrow>
          if between 194 223 a then (if between 128 191 b then Some 2 else None)
          else if between 224 239 a then
            (case r of
               c # _ \<Rightarrow>
                 if ((byte a = 224 \<and> between 160 191 b) \<or> (between 225 236 a \<and> between 128 191 b)
                     \<or> (byte a = 237 \<and> between 128 159 b) \<or> (between 238 239 a \<and> between 128 191 b))
                    \<and> between 128 191 c then Some 3 else None
             | [] \<Rightarrow> None)
          else if between 240 244 a then
            (case r of
               c # d # _ \<Rightarrow>
                 if ((byte a = 240 \<and> between 144 191 b) \<or> (between 241 243 a \<and> between 128 191 b)
                     \<or> (byte a = 244 \<and> between 128 143 b))
                    \<and> between 128 191 c \<and> between 128 191 d then Some 4 else None
             | _ \<Rightarrow> None)
          else None
      | _ \<Rightarrow> None)"

lemma rune_width_bounds: "rune_width s = Some k \<Longrightarrow> 2 \<le> k \<and> k \<le> length s"
  unfolding rune_width_def by (auto split: list.splits if_splits)

definition replacement_rune :: string where "replacement_rune = bytes [239, 191, 189]"

text \<open>\<open>utf8.AppendRune\<close>; a surrogate is written as U+FFFD.\<close>

definition AppendRune :: "nat \<Rightarrow> string" where
  "AppendRune r =
     (if r < 128 then bytes [r]
      else if r < 2048 then bytes [192 + r div 64, 128 + r mod 64]
      else if 55296 \<le> r \<and> r < 57344 \<or> 1114111 < r then replacement_rune
      else if r < 65536 then bytes [224 + r div 4096, 128 + r div 64 mod 64, 128 + r mod 64]
      else bytes [240 + r div 262144, 128 + r div 4096 mod 64, 128 + r div 64 mod 64, 128 + r mod 64])"

definition is_surrogate :: "nat \<Rightarrow> bool" where
  "is_surrogate r \<longleftrightarrow> 55296 \<le> r \<and> r < 57344"

definition decode_pair :: "nat \<Rightarrow> nat \<Rightarrow> nat option" where
  "decode_pair r1 r2 =
     (if 55296 \<le> r1 \<and> r1 < 56320 \<and> 56320 \<le> r2 \<and> r2 < 57344
      then Some ((r1 - 55296) * 1024 + (r2 - 56320) + 65536) else None)"

section \<open>Encoding\<close>

definition hexDigits :: string where "hexDigits = ''0123456789abcdef''"

definition html_safe :: "char \<Rightarrow> bool" where
  "html_safe c \<longleftrightarrow> 32 \<le> byte c \<and> byte c \<notin> {34, 92, 60, 62, 38}"

definition escape_ascii :: "char \<Rightarrow> string" where
  "escape_ascii c =
     (if byte c = 34 \<or> byte c = 92 then [CHR 0x5C, c]
      else if byte c = 8 then [CHR 0x5C, CHR ''b'']
      else if byte c = 12 then [CHR 0x5C, CHR ''f'']
      else if byte c = 10 then [CHR 0x5C, CHR ''n'']
      else if byte c = 13 then [CHR 0x5C, CHR ''r'']
      else if byte c = 9 then [CHR 0x5C, CHR ''t'']
      else [CHR 0x5C, CHR ''u'', CHR ''0'', CHR ''0'', hexDigits ! (byte c div 16), hexDigits ! (byte c mod 16)])"

definition line_separator :: "string \<Rightarrow> bool" where
  "line_separator s \<longleftrightarrow> take 3 s = bytes [226, 128, 168] \<or> take 3 s = bytes [226, 128, 169]"

function string_body :: "string \<Rightarrow> string" where
  "string_body [] = []"
| "string_body (c # r) =
     (if byte c < 128 then (if html_safe c then [c] else escape_ascii c) @ string_body r
      else case rune_width (c # r) of
        None \<Rightarrow> CHR 0x5C # ''ufffd'' @ string_body r
      | Some k \<Rightarrow>
          (if line_separator (c # r) then CHR 0x5C # ''u202'' @ [hexDigits ! (byte ((c # r) ! 2) mod 16)]
           else take k (c # r)) @ string_body (drop k (c # r)))"
  by pat_completeness auto
termination
  by (relation "measure length") (auto dest: rune_width_bounds)

declare string_body.simps(2) [simp del]

definition appendStringJSON :: "string \<Rightarrow> string" where
  "appendStringJSON text = CHR 0x22 # string_body text @ [CHR 0x22]"

definition float_abs :: "float64 \<Rightarrow> float64" where "float_abs x = word_of_nat (float_magnitude x)"

text \<open>The constants 1e-6 and 1e21 as bit patterns.\<close>

definition small_number :: float64 where "small_number = 0x3EB0C6F7A0B5ED8D"
definition large_number :: float64 where "large_number = 0x444B1AE4D6E2EF50"

definition number_format :: "float64 \<Rightarrow> char" where
  "number_format x =
     (if \<not> float_eq (float_abs x) 0 \<and> (float_lt (float_abs x) small_number \<or> float_le large_number (float_abs x))
      then CHR ''e'' else CHR ''f'')"

definition shorten_exponent :: "string \<Rightarrow> string" where
  "shorten_exponent s =
     (let n = length s in
      if n \<ge> 4 \<and> take 3 (drop (n - 4) s) = ''e-0'' then take (n - 2) s @ [s ! (n - 1)] else s)"

definition appendNumberJSON :: "json_rules \<Rightarrow> float64 \<Rightarrow> string option" where
  "appendNumberJSON jr x =
     (if IsInf x \<or> IsNaN x then None
      else let text = jrFormat jr (number_format x) x in
        Some (if number_format x = CHR ''e'' then shorten_exponent text else text))"

definition appendTimeJSON :: "json_rules \<Rightarrow> time \<Rightarrow> string option" where
  "appendTimeJSON jr t = jrTime jr t"

text \<open>
  The comma-separated pieces of a list or an object, in the order they are written;
  \<^const>\<open>None\<close> once one fails.
\<close>

fun append_all :: "('a \<Rightarrow> string option) \<Rightarrow> 'a list \<Rightarrow> string option" where
  "append_all enc [] = Some []"
| "append_all enc [x] = enc x"
| "append_all enc (x # y # r) =
     (case enc x of
        None \<Rightarrow> None
      | Some s \<Rightarrow> (case append_all enc (y # r) of None \<Rightarrow> None | Some t \<Rightarrow> Some (s @ CHR '','' # t)))"

lemma append_all_cong [fundef_cong]:
  "xs = ys \<Longrightarrow> (\<And>x. x \<in> set ys \<Longrightarrow> f x = g x) \<Longrightarrow> append_all f xs = append_all g ys"
  by (induction f xs arbitrary: ys rule: append_all.induct) (auto split: option.splits)

definition append_member :: "string \<Rightarrow> string option \<Rightarrow> string option" where
  "append_member name encoded = map_option (\<lambda>text. appendStringJSON name @ CHR '':'' # text) encoded"

definition document_metadata :: "json_rules \<Rightarrow> document \<Rightarrow> (string \<times> string option) list" where
  "document_metadata jr d =
     [(''id'', Some (appendStringJSON (docID d))), (''createdAt'', appendTimeJSON jr (docCreatedAt d)),
      (''updatedAt'', appendTimeJSON jr (docUpdatedAt d))]
     @ (if docStatus d \<noteq> [] then [(''_status'', Some (appendStringJSON (docStatus d)))] else [])
     @ (if docRevision d > 0 then [(''_revision'', Some (nat_dec (nat (docRevision d))))] else [])"

text \<open>The members by name; a field with a metadata name replaces that metadata.\<close>

definition sorted_members :: "(string \<times> 'a) list \<Rightarrow> (string \<times> 'a) list" where
  "sorted_members m = sort_key fst m"

lemma set_sorted_members [simp]: "set (sorted_members m) = set m"
  by (simp add: sorted_members_def)

function appendValueJSON :: "json_rules \<Rightarrow> svalue \<Rightarrow> string option" where
  "appendValueJSON jr SNull = Some ''null''"
| "appendValueJSON jr (SString text) = Some (appendStringJSON text)"
| "appendValueJSON jr (SNumber x) = appendNumberJSON jr x"
| "appendValueJSON jr (SBoolean b) = Some (if b then ''true'' else ''false'')"
| "appendValueJSON jr (SObject m) =
     map_option (\<lambda>text. CHR ''{'' # text @ ''}'')
       (append_all (\<lambda>(name, v). append_member name (appendValueJSON jr v)) (sorted_members m))"
| "appendValueJSON jr (SList t) =
     map_option (\<lambda>text. CHR ''['' # text @ '']'') (append_all (appendValueJSON jr) (elements t))"
| "appendValueJSON jr (SDocument None) = Some ''null''"
| "appendValueJSON jr (SDocument (Some (Document i ca ua da st rv prv hc vs ls))) =
     map_option (\<lambda>text. CHR ''{'' # text @ ''}'')
       (append_all (\<lambda>(name, encoded). append_member name encoded)
         (sorted_members
            (filter (\<lambda>(name, _). map_of vs name = None)
               (document_metadata jr (Document i ca ua da st rv prv hc vs ls))
             @ map (\<lambda>(name, v). (name, appendValueJSON jr v)) vs)))"
| "appendValueJSON jr SInvalid = None"
proof goal_cases
  case (1 P x)
  obtain jr v where x: "x = (jr, v)" by (cases x)
  show ?case
  proof (cases v)
    case (SDocument od)
    then show ?thesis using 1 x by (cases od) (metis document.exhaust)+
  qed (use 1 x in auto)
qed auto
termination
proof (relation "measure (\<lambda>(jr, v). size v)", goal_cases)
  case (2 jr m p name v)
  then show ?case using size_member [of name v m] by simp
next
  case (3 jr t x)
  then show ?case using size_elements [of x t size] by simp
next
  case (4 jr i ca ua da st rv prv hd vs ls p name v)
  then show ?case using size_member [of name v vs] by simp
qed simp

definition appendObjectJSON :: "json_rules \<Rightarrow> svalues \<Rightarrow> string option" where
  "appendObjectJSON jr values = appendValueJSON jr (SObject values)"

definition appendDocumentJSON :: "json_rules \<Rightarrow> document \<Rightarrow> string option" where
  "appendDocumentJSON jr d = appendValueJSON jr (SDocument (Some d))"

text \<open>A nil map is \<^const>\<open>None\<close> and encodes as null.\<close>

definition values_MarshalJSON :: "json_rules \<Rightarrow> svalues option \<Rightarrow> string option" where
  "values_MarshalJSON jr values = (case values of None \<Rightarrow> Some ''null'' | Some m \<Rightarrow> appendObjectJSON jr m)"

definition value_AppendJSON :: "json_rules \<Rightarrow> string \<Rightarrow> svalue \<Rightarrow> string option" where
  "value_AppendJSON jr dst v = map_option (\<lambda>text. dst @ text) (appendValueJSON jr v)"

definition value_MarshalJSON :: "json_rules \<Rightarrow> svalue \<Rightarrow> string option" where
  "value_MarshalJSON jr v = value_AppendJSON jr [] v"

section \<open>Decoding text\<close>

datatype json_fault =
    UnexpectedEnd | UnexpectedCharacter | TrailingData | TooDeep
  | ExpectedKey | ExpectedColon | ObjectEnd | ObjectSeparator | ListEnd | ListSeparator
  | ExpectedDigit | ExpectedFraction | ExpectedExponent | NumberRange string
  | UnterminatedString | ControlCharacter | UnterminatedEscape | InvalidUnicodeEscape | InvalidEscape
  | OutOfFuel

text \<open>A fault carries the input that remained at the decoder's position.\<close>

type_synonym 'a decoded = "json_fault \<times> string + 'a \<times> string"

definition hex_value :: "char \<Rightarrow> nat option" where
  "hex_value c =
     (if is_digit c then Some (byte c - 48)
      else if 97 \<le> byte c \<and> byte c \<le> 102 then Some (byte c - 97 + 10)
      else if 65 \<le> byte c \<and> byte c \<le> 70 then Some (byte c - 65 + 10)
      else None)"

definition hexRune :: "string \<Rightarrow> nat option" where
  "hexRune s =
     (case s of
        a # b # c # d # _ \<Rightarrow>
          (case (hex_value a, hex_value b, hex_value c, hex_value d) of
             (Some w, Some x, Some y, Some z) \<Rightarrow> Some (((w * 16 + x) * 16 + y) * 16 + z)
           | _ \<Rightarrow> None)
      | _ \<Rightarrow> None)"

text \<open>
  The rune a \<open>\u\<close> escape starts, with the number of bytes of a second half it consumes:
  six when a valid pair follows, none otherwise.
\<close>

definition escaped_rune :: "nat \<Rightarrow> string \<Rightarrow> nat \<times> nat" where
  "escaped_rune first r =
     (if \<not> is_surrogate first then (first, 0)
      else case r of
          a # b # r' \<Rightarrow>
            if a = CHR 0x5C \<and> b = CHR ''u'' then
              (case hexRune r' of
                 Some second \<Rightarrow>
                   (case decode_pair first second of Some pair \<Rightarrow> (pair, 6) | None \<Rightarrow> (65533, 0))
               | None \<Rightarrow> (65533, 0))
            else (65533, 0)
        | _ \<Rightarrow> (65533, 0))"

definition simple_escape :: "char \<Rightarrow> char option" where
  "simple_escape e =
     (if e = CHR 0x22 \<or> e = CHR 0x5C \<or> e = CHR ''/'' then Some e
      else if e = CHR ''b'' then Some (char_of (8 :: nat))
      else if e = CHR ''f'' then Some (char_of (12 :: nat))
      else if e = CHR ''n'' then Some (char_of (10 :: nat))
      else if e = CHR ''r'' then Some (char_of (13 :: nat))
      else if e = CHR ''t'' then Some (char_of (9 :: nat))
      else None)"

function escapedString :: "string \<Rightarrow> string \<Rightarrow> string decoded" where
  "escapedString [] decoded = Inl (UnterminatedString, [])"
| "escapedString (c # r) decoded =
     (if c = CHR 0x22 then Inr (decoded, r)
      else if byte c < 32 then Inl (ControlCharacter, c # r)
      else if c = CHR 0x5C then
        (case r of
           [] \<Rightarrow> Inl (UnterminatedEscape, c # r)
         | e # r' \<Rightarrow>
             (case simple_escape e of
                Some d \<Rightarrow> escapedString r' (decoded @ [d])
              | None \<Rightarrow>
                  if e \<noteq> CHR ''u'' then Inl (InvalidEscape, c # r)
                  else (case hexRune r' of
                      None \<Rightarrow> Inl (InvalidUnicodeEscape, c # r)
                    | Some first \<Rightarrow>
                        (case escaped_rune first (drop 4 r') of
                           (rune, extra) \<Rightarrow> escapedString (drop (4 + extra) r') (decoded @ AppendRune rune)))))
      else if byte c < 128 then escapedString r (decoded @ [c])
      else (case rune_width (c # r) of
          None \<Rightarrow> escapedString r (decoded @ AppendRune 65533)
        | Some k \<Rightarrow> escapedString (drop k (c # r)) (decoded @ take k (c # r))))"
  by pat_completeness auto
termination
  by (relation "measure (length \<circ> fst)") (auto dest: rune_width_bounds)

declare escapedString.simps(2) [simp del]

text \<open>
  \<open>string\<close>: \<open>plain\<close> is the text scanned so far, \<open>start\<close> the input after the quote. The
  scan returns plain text as it is and hands anything else to \<open>escapedString\<close>.
\<close>

definition is_plain :: "char \<Rightarrow> bool" where
  "is_plain c \<longleftrightarrow> c \<noteq> CHR 0x5C \<and> 32 \<le> byte c \<and> byte c < 128"

fun scan_plain :: "string \<Rightarrow> string \<Rightarrow> string \<Rightarrow> string decoded" where
  "scan_plain start [] plain = Inl (UnterminatedString, [])"
| "scan_plain start (c # r) plain =
     (if c = CHR 0x22 then Inr (plain, r)
      else if \<not> is_plain c then escapedString start []
      else scan_plain start r (plain @ [c]))"

definition decode_string :: "string \<Rightarrow> string decoded" where
  "decode_string s = scan_plain (tl s) (tl s) []"

definition decode_name :: "string \<Rightarrow> string decoded" where
  "decode_name s = decode_string s"

section \<open>Decoding numbers\<close>

text \<open>\<open>digits()\<close>: the digits read and what follows them.\<close>

definition read_digits :: "string \<Rightarrow> string \<times> string" where
  "read_digits s = (takeWhile is_digit s, dropWhile is_digit s)"

definition read_fraction :: "string \<Rightarrow> string decoded" where
  "read_fraction s =
     (case s of
        c # r \<Rightarrow>
          if c = CHR ''.'' then
            (case read_digits r of
               (ds, r') \<Rightarrow> if ds = [] then Inl (ExpectedFraction, r') else Inr (c # ds, r'))
          else Inr ([], s)
      | [] \<Rightarrow> Inr ([], s))"

definition read_exponent :: "string \<Rightarrow> string decoded" where
  "read_exponent s =
     (case s of
        c # r \<Rightarrow>
          if c = CHR ''e'' \<or> c = CHR ''E'' then
            (let sign = takeWhile (\<lambda>d. d = CHR ''+'' \<or> d = CHR ''-'') (take 1 r);
                 (ds, r') = read_digits (drop (length sign) r)
             in if ds = [] then Inl (ExpectedExponent, r') else Inr (c # sign @ ds, r'))
          else Inr ([], s)
      | [] \<Rightarrow> Inr ([], s))"

definition read_integer :: "string \<Rightarrow> string decoded" where
  "read_integer s =
     (case s of
        c # r \<Rightarrow>
          if c = CHR ''0'' then Inr ([c], r)
          else (case read_digits s of (ds, r') \<Rightarrow> if ds = [] then Inl (ExpectedDigit, r') else Inr (ds, r'))
      | [] \<Rightarrow> Inl (ExpectedDigit, []))"

definition float_negate :: "float64 \<Rightarrow> float64" where
  "float_negate x = x XOR 0x8000000000000000"

text \<open>
  The value of a number token: its sign, its integer digits and the rest of its text.
\<close>

definition number_value :: "json_rules \<Rightarrow> bool \<Rightarrow> string \<Rightarrow> string \<Rightarrow> float64 option" where
  "number_value jr negative mantissa rest =
     (if rest = [] \<and> length mantissa \<le> 15 then
        Some (let number = float64_of_int (int (dec_value mantissa))
              in if negative then float_negate number else number)
      else jrParse jr ((if negative then ''-'' else []) @ mantissa @ rest))"

definition decode_number :: "json_rules \<Rightarrow> string \<Rightarrow> float64 decoded" where
  "decode_number jr s =
     (let negative = (take 1 s = ''-''); s1 = (if negative then drop 1 s else s) in
      case read_integer s1 of
        Inl e \<Rightarrow> Inl e
      | Inr (mantissa, s2) \<Rightarrow>
          (case read_fraction s2 of
             Inl e \<Rightarrow> Inl e
           | Inr (fraction, s3) \<Rightarrow>
               (case read_exponent s3 of
                  Inl e \<Rightarrow> Inl e
                | Inr (expo, s4) \<Rightarrow>
                    (case number_value jr negative mantissa (fraction @ expo) of
                       Some x \<Rightarrow> Inr (x, s4)
                     | None \<Rightarrow>
                         Inl (NumberRange ((if negative then ''-'' else []) @ mantissa @ fraction @ expo), s4)))))"

section \<open>Decoding values\<close>

text \<open>
  \<open>depth\<close> is the number of containers entered so far. The loops of an object and of a
  list are functions of what was read before.
\<close>

fun decode_value :: "nat \<Rightarrow> json_rules \<Rightarrow> nat \<Rightarrow> string \<Rightarrow> svalue decoded"
  and decode_members :: "nat \<Rightarrow> json_rules \<Rightarrow> nat \<Rightarrow> svalues \<Rightarrow> string \<Rightarrow> svalues decoded"
  and decode_items :: "nat \<Rightarrow> json_rules \<Rightarrow> nat \<Rightarrow> svalue list \<Rightarrow> string \<Rightarrow> svalue decoded" where
  "decode_value 0 jr depth s = Inl (OutOfFuel, s)"
| "decode_value (Suc n) jr depth s0 =
     (let s = skip_ws s0 in
      case s of
        [] \<Rightarrow> Inl (UnexpectedEnd, s)
      | c # r \<Rightarrow>
          if c = CHR 0x22 then
            (case decode_string s of Inl e \<Rightarrow> Inl e | Inr (text, s1) \<Rightarrow> Inr (SString text, s1))
          else if c = CHR ''{'' then
            (if depth + 1 > maxJSONDepth then Inl (TooDeep, s)
             else if take 1 (skip_ws r) = ''}'' then Inr (SObject [], tl (skip_ws r))
             else (case decode_members n jr (depth + 1) [] (skip_ws r) of
                 Inl e \<Rightarrow> Inl e | Inr (m, s1) \<Rightarrow> Inr (SObject m, s1)))
          else if c = CHR ''['' then
            (if depth + 1 > maxJSONDepth then Inl (TooDeep, s)
             else if take 1 (skip_ws r) = '']'' then Inr (SList None, tl (skip_ws r))
             else decode_items n jr (depth + 1) [] (skip_ws r))
          else if c = CHR ''-'' \<or> is_digit c then
            (case decode_number jr s of Inl e \<Rightarrow> Inl e | Inr (x, s1) \<Rightarrow> Inr (SNumber x, s1))
          else if has_prefix s ''true'' then Inr (SBoolean True, drop 4 s)
          else if has_prefix s ''false'' then Inr (SBoolean False, drop 5 s)
          else if has_prefix s ''null'' then Inr (SNull, drop 4 s)
          else Inl (UnexpectedCharacter, s))"
| "decode_members 0 jr depth values s = Inl (OutOfFuel, s)"
| "decode_members (Suc n) jr depth values s0 =
     (let s = skip_ws s0 in
      if take 1 s \<noteq> [CHR 0x22] then Inl (ExpectedKey, s)
      else case decode_name s of
        Inl e \<Rightarrow> Inl e
      | Inr (name, s1) \<Rightarrow>
          if take 1 (skip_ws s1) \<noteq> '':'' then Inl (ExpectedColon, skip_ws s1)
          else (case decode_value n jr depth (tl (skip_ws s1)) of
              Inl e \<Rightarrow> Inl e
            | Inr (v, s2) \<Rightarrow>
                (case skip_ws s2 of
                   [] \<Rightarrow> Inl (ObjectEnd, [])
                 | d # s3 \<Rightarrow>
                     if d = CHR '','' then decode_members n jr depth (put name v values) s3
                     else if d = CHR ''}'' then Inr (put name v values, s3)
                     else Inl (ObjectSeparator, d # s3))))"
| "decode_items 0 jr depth items s = Inl (OutOfFuel, s)"
| "decode_items (Suc n) jr depth items s =
     (case decode_value n jr depth s of
        Inl e \<Rightarrow> Inl e
      | Inr (v, s1) \<Rightarrow>
          (case skip_ws s1 of
             [] \<Rightarrow> Inl (ListEnd, [])
           | d # s2 \<Rightarrow>
               if d = CHR '','' then decode_items n jr depth (items @ [v]) s2
               else if d = CHR '']'' then Inr (SList (ownValueList (items @ [v])), s2)
               else Inl (ListSeparator, d # s2)))"

declare decode_value.simps(2) [simp del] decode_members.simps(2) [simp del] decode_items.simps(2) [simp del]

definition decode_end :: "string \<Rightarrow> json_fault option" where
  "decode_end s = (if skip_ws s \<noteq> [] then Some TrailingData else None)"

text \<open>Every call consumes a byte, so this many calls are enough.\<close>

definition json_fuel :: "string \<Rightarrow> nat" where
  "json_fuel data = 2 * length data + 2"

definition value_UnmarshalJSON :: "json_rules \<Rightarrow> string \<Rightarrow> json_fault + svalue" where
  "value_UnmarshalJSON jr data =
     (case decode_value (json_fuel data) jr 0 data of
        Inl (e, _) \<Rightarrow> Inl e
      | Inr (v, s) \<Rightarrow> (case decode_end s of Some e \<Rightarrow> Inl e | None \<Rightarrow> Inr v))"

datatype values_fault = ValuesNotObject | ValuesFault json_fault

text \<open>The decoded members are added to the entries of \<open>values\<close>; a nil map is \<^const>\<open>None\<close>.\<close>

definition values_UnmarshalJSON ::
  "json_rules \<Rightarrow> svalues option \<Rightarrow> string \<Rightarrow> values_fault + svalues option" where
  "values_UnmarshalJSON jr values data =
     (let s = skip_ws data; known = (case values of None \<Rightarrow> [] | Some m \<Rightarrow> m) in
      if has_prefix s ''null'' then
        (case decode_end (drop 4 s) of Some e \<Rightarrow> Inl (ValuesFault e) | None \<Rightarrow> Inr None)
      else if take 1 s \<noteq> ''{'' then Inl ValuesNotObject
      else
        (case (if take 1 (skip_ws (tl s)) = ''}'' then Inr (known, tl (skip_ws (tl s)))
               else decode_members (json_fuel data) jr 1 known (skip_ws (tl s))) of
           Inl (e, _) \<Rightarrow> Inl (ValuesFault e)
         | Inr (m, r) \<Rightarrow> (case decode_end r of Some e \<Rightarrow> Inl (ValuesFault e) | None \<Rightarrow> Inr (Some m))))"

end
