(* ===== verification/Value_JSON_Properties.thy ===== *)
theory Value_JSON_Properties
  imports Value_JSON
begin

text \<open>
  Decoding what the JSON codec encoded gives the value back. The lemmas follow the
  grammar: strings, numbers, members, items, values.
\<close>

section \<open>Strings\<close>

lemma rune_width_valid:
  assumes "utf8_valid s" "s \<noteq> []" "128 \<le> byte (hd s)"
  shows "\<exists>k. rune_width s = Some k \<and> utf8_valid (drop k s)"
  using assms
  by (cases s rule: utf8_valid.cases) (auto simp: rune_width_def between_def split: if_splits)

lemma rune_width_take:
  assumes "rune_width s = Some k"
  shows "rune_width (take k s @ t) = Some k" and "take k (take k s @ t) = take k s"
    and "drop k (take k s @ t) = t" and "take k s \<noteq> []" and "128 \<le> byte (hd (take k s))"
proof -
  have bounds: "2 \<le> k" "k \<le> length s" using rune_width_bounds [OF assms] by simp_all
  then show "take k (take k s @ t) = take k s" "drop k (take k s @ t) = t" "take k s \<noteq> []" by auto
  obtain a b r where s: "s = a # b # r" using assms by (auto simp: rune_width_def split: list.splits)
  show "128 \<le> byte (hd (take k s))"
    using assms bounds unfolding s rune_width_def between_def by (auto split: if_splits list.splits)
  consider (two) "k = 2" | (three) c r' where "k = 3" "r = c # r'" | (four) c e r' where "k = 4" "r = c # e # r'"
    using assms unfolding s rune_width_def by (auto split: if_splits list.splits)
  then show "rune_width (take k s @ t) = Some k"
  proof cases
    case two
    then show ?thesis using assms unfolding s rune_width_def by (simp split: if_splits list.splits)
  next
    case three
    then show ?thesis using assms unfolding s rune_width_def by (simp split: if_splits list.splits; blast)
  next
    case four
    then show ?thesis using assms unfolding s rune_width_def by (simp split: if_splits list.splits; blast)
  qed
qed

lemma escaped_plain: "is_plain c \<Longrightarrow> c \<noteq> CHR 0x22 \<Longrightarrow> escapedString (c # r) d = escapedString r (d @ [c])"
  by (simp add: escapedString.simps(2) is_plain_def)

lemma scan_plain_escaped:
  assumes "\<forall>c\<in>set p. is_plain c \<and> c \<noteq> CHR 0x22"
  shows "scan_plain (p @ s) s p = escapedString (p @ s) []"
  using assms
proof (induction s arbitrary: p)
  have skip: "escapedString (p @ s) d = escapedString s (d @ p)"
    if "\<forall>c\<in>set p. is_plain c \<and> c \<noteq> CHR 0x22" for p s d
    using that by (induction p arbitrary: d) (simp_all add: escaped_plain)
  case Nil
  then show ?case using skip [of p "[]" "[]"] by simp
next
  have skip: "escapedString (p @ s) d = escapedString s (d @ p)"
    if "\<forall>c\<in>set p. is_plain c \<and> c \<noteq> CHR 0x22" for p s d
    using that by (induction p arbitrary: d) (simp_all add: escaped_plain)
  case (Cons c r)
  show ?case
  proof (cases "c = CHR 0x22")
    case True
    then show ?thesis using skip [OF Cons.prems, of "c # r" "[]"] by (simp add: escapedString.simps(2))
  next
    case False
    show ?thesis
    proof (cases "is_plain c")
      case True
      with False Cons.prems have "\<forall>c\<in>set (p @ [c]). is_plain c \<and> c \<noteq> CHR 0x22" by auto
      from Cons.IH [OF this] False True show ?thesis by simp
    qed (use False in simp)
  qed
qed

text \<open>The scan for plain text answers what the escape decoder answers.\<close>

lemma decode_string_escaped: "decode_string (CHR 0x22 # s) = escapedString s []"
  using scan_plain_escaped [of "[]" s] by (simp add: decode_string_def)

lemma escaped_rune_scalar: "\<not> is_surrogate first \<Longrightarrow> escaped_rune first r = (first, 0)"
  by (simp add: escaped_rune_def)

lemma escapedString_simple:
  "simple_escape e = Some d \<Longrightarrow> escapedString (CHR 0x5C # e # r) decoded = escapedString r (decoded @ [d])"
  by (simp add: escapedString.simps(2))

lemma escapedString_unicode:
  assumes "hexRune (a # b # c # d # r) = Some rune" "\<not> is_surrogate rune"
  shows "escapedString (CHR 0x5C # CHR ''u'' # a # b # c # d # r) decoded = escapedString r (decoded @ AppendRune rune)"
  using assms by (simp add: escapedString.simps(2) escaped_rune_scalar simple_escape_def)

text \<open>Every ASCII byte the encoder escapes is read back, checked byte by byte.\<close>

definition escape_read_back :: "nat \<Rightarrow> bool" where
  "escape_read_back n =
     (let c = char_of n; e = escape_ascii c in
      html_safe c
      \<or> hd e = CHR 0x5C
        \<and> (case tl e of
             [x] \<Rightarrow> simple_escape x = Some c
           | [u, w, x, y, z] \<Rightarrow> u = CHR ''u'' \<and> hexRune [w, x, y, z] = Some n
           | _ \<Rightarrow> False))"

lemma escape_read_back: "n < 128 \<Longrightarrow> escape_read_back n"
proof -
  have "list_all escape_read_back [0..<128]" by code_simp
  then show "n < 128 \<Longrightarrow> escape_read_back n" by (simp add: list_all_iff)
qed

lemma escape_ascii_decoded:
  assumes "byte c < 128" "\<not> html_safe c"
  shows "escapedString (escape_ascii c @ r) decoded = escapedString r (decoded @ [c])"
proof -
  have check: "escape_read_back (byte c)" by (rule escape_read_back [OF assms(1)])
  obtain h e where he: "escape_ascii c = h # e" by (cases "escape_ascii c") (simp_all add: escape_ascii_def split: if_splits)
  have h: "h = CHR 0x5C" using check assms(2) he by (simp add: escape_read_back_def Let_def)
  consider (simple) x where "e = [x]" "simple_escape x = Some c"
    | (unicode) w x y z where "e = [CHR ''u'', w, x, y, z]" "hexRune [w, x, y, z] = Some (byte c)"
    using check assms(2) he by (auto simp: escape_read_back_def Let_def split: list.splits)
  then show ?thesis
  proof cases
    case simple
    then show ?thesis using he h by (simp add: escapedString_simple)
  next
    case unicode
    have "hexRune (w # x # y # z # r) = Some (byte c)" using unicode(2) by (simp add: hexRune_def)
    moreover have "AppendRune (byte c) = [c]" using assms(1) by (simp add: AppendRune_def bytes_def)
    ultimately show ?thesis using he h unicode(1) assms(1)
      by (simp add: escapedString_unicode is_surrogate_def)
  qed
qed

lemma separator_decoded:
  assumes "line_separator s"
  shows "escapedString (CHR 0x5C # ''u202'' @ hexDigits ! (byte (s ! 2) mod 16) # r) decoded
    = escapedString r (decoded @ take 3 s)" and "rune_width s = Some 3"
proof -
  have s: "take 3 s = bytes [226, 128, 168] \<or> take 3 s = bytes [226, 128, 169]"
    using assms by (simp add: line_separator_def)
  then obtain a b c t where abc: "s = a # b # c # t"
    by (cases s; cases "tl s"; cases "tl (tl s)") (auto simp: bytes_def)
  with s have cases: "c = char_of (168::nat) \<or> c = char_of (169::nat)" and ab: "a = char_of (226::nat)" "b = char_of (128::nat)"
    by (auto simp: bytes_def)
  have "(hexRune (''202'' @ hexDigits ! (byte c mod 16) # r) = Some 8232 \<and> AppendRune 8232 = [a, b, c])
    \<or> (hexRune (''202'' @ hexDigits ! (byte c mod 16) # r) = Some 8233 \<and> AppendRune 8233 = [a, b, c])"
    using cases by (auto simp: hexRune_def hexDigits_def AppendRune_def bytes_def ab hex_value_def is_digit_def)
  then show "escapedString (CHR 0x5C # ''u202'' @ hexDigits ! (byte (s ! 2) mod 16) # r) decoded
    = escapedString r (decoded @ take 3 s)"
    using escapedString_unicode [of "CHR ''2''" "CHR ''0''" "CHR ''2''" _ r]
    by (auto simp: abc is_surrogate_def)
  show "rune_width s = Some 3"
    using cases ab by (auto simp: abc rune_width_def between_def)
qed

lemma string_body_decoded:
  "utf8_valid t \<Longrightarrow> escapedString (string_body t @ CHR 0x22 # r) decoded = Inr (decoded @ t, r)"
proof (induction t arbitrary: decoded rule: string_body.induct)
  case 1
  then show ?case by (simp add: escapedString.simps(2))
next
  case (2 c s)
  show ?case
  proof (cases "byte c < 128")
    case True
    have valid: "utf8_valid s" using 2(4) True by (cases "c # s" rule: utf8_valid.cases) auto
    note IH = "2.IH"(1) [OF True valid]
    show ?thesis
    proof (cases "html_safe c")
      case safe: True
      then have "c \<noteq> CHR 0x22" "c \<noteq> CHR 0x5C" "32 \<le> byte c" by (auto simp: html_safe_def)
      then show ?thesis using True safe IH by (simp add: string_body.simps escapedString.simps(2))
    next
      case False
      then show ?thesis using True IH by (simp add: string_body.simps escape_ascii_decoded)
    qed
  next
    case False
    obtain k where k: "rune_width (c # s) = Some k" "utf8_valid (drop k (c # s))"
      using rune_width_valid [OF 2(4)] False by auto
    note IH = "2.IH"(3) [OF False k]
    show ?thesis
    proof (cases "line_separator (c # s)")
      case True
      have "k = 3" using separator_decoded(2) [OF True] k(1) by simp
      then show ?thesis
        using separator_decoded(1) [OF True] IH False k True append_take_drop_id [of 3 "c # s"]
        by (simp add: string_body.simps)
    next
      case not_separator: False
      define p q where "p = take k (c # s)" and "q = drop k (c # s)"
      obtain d p' where p': "p = d # p'" "128 \<le> byte d"
        using rune_width_bounds [OF k(1)] False by (cases k) (auto simp: p_def)
      have w: "rune_width (p @ u) = Some k" "take k (p @ u) = p" "drop k (p @ u) = u" for u
        using rune_width_take [OF k(1)] by (simp_all add: p_def)
      have step: "escapedString (p @ u) decoded = escapedString u (decoded @ p)" for u
      proof -
        have "d \<noteq> CHR 0x22" "d \<noteq> CHR 0x5C" using p'(2) by auto
        then show ?thesis using w [of u] p' by (simp add: escapedString.simps(2))
      qed
      have "string_body (c # s) = p @ string_body q"
        using False k(1) not_separator by (simp add: string_body.simps p_def q_def)
      moreover have "p @ q = c # s" by (simp add: p_def q_def)
      ultimately show ?thesis using step IH by (simp add: q_def)
    qed
  qed
qed

lemma decode_string_text:
  "utf8_valid t \<Longrightarrow> decode_string (appendStringJSON t @ r) = Inr (t, r)"
  using string_body_decoded [of t r "[]"] by (simp add: appendStringJSON_def decode_string_escaped)

section \<open>Numbers\<close>

text \<open>The grammar of a JSON number.\<close>

definition int_token :: "string \<Rightarrow> bool" where
  "int_token m \<longleftrightarrow> m = ''0'' \<or> m \<noteq> [] \<and> list_all is_digit m \<and> hd m \<noteq> CHR ''0''"

definition fraction_token :: "string \<Rightarrow> bool" where
  "fraction_token f \<longleftrightarrow> f = [] \<or> hd f = CHR ''.'' \<and> tl f \<noteq> [] \<and> list_all is_digit (tl f)"

definition is_sign :: "char \<Rightarrow> bool" where "is_sign c \<longleftrightarrow> c = CHR ''+'' \<or> c = CHR ''-''"

definition exponent_token :: "string \<Rightarrow> bool" where
  "exponent_token e \<longleftrightarrow> e = [] \<or> (hd e = CHR ''e'' \<or> hd e = CHR ''E'')
     \<and> (\<exists>sg ds. tl e = sg @ ds \<and> list_all is_sign sg \<and> length sg \<le> 1 \<and> ds \<noteq> [] \<and> list_all is_digit ds)"

definition sign_text :: "bool \<Rightarrow> string" where "sign_text negative = (if negative then ''-'' else [])"

definition number_token :: "string \<Rightarrow> bool" where
  "number_token s \<longleftrightarrow> (\<exists>negative m f e. s = sign_text negative @ m @ f @ e
     \<and> int_token m \<and> fraction_token f \<and> exponent_token e)"

text \<open>
  What the codec relies on of \<open>strconv\<close>: formatting a finite number gives a JSON number
  that parses to the same number; a leading zero of the exponent does not matter; and
  short integers parse exactly.
\<close>

definition strconv_rules :: "json_rules \<Rightarrow> bool" where
  "strconv_rules jr \<longleftrightarrow>
     (\<forall>x c. \<not> IsNaN x \<longrightarrow> \<not> IsInf x \<longrightarrow> c = CHR ''e'' \<or> c = CHR ''f'' \<longrightarrow>
        number_token (jrFormat jr c x) \<and> jrParse jr (jrFormat jr c x) = Some x)
     \<and> (\<forall>s. number_token s \<longrightarrow> jrParse jr (shorten_exponent s) = jrParse jr s)
     \<and> (\<forall>negative m. int_token m \<longrightarrow> length m \<le> 15 \<longrightarrow>
          jrParse jr (sign_text negative @ m) = number_value jr negative m [])"

lemma int_token_cases:
  assumes "int_token m"
  obtains (zero) "m = ''0''" | (digits) c ds where "m = c # ds" "is_digit c" "c \<noteq> CHR ''0''" "list_all is_digit ds"
  using assms by (cases m) (auto simp: int_token_def)

lemma digits_before: "list_all is_digit ds \<Longrightarrow> (r = [] \<or> \<not> is_digit (hd r)) \<Longrightarrow> read_digits (ds @ r) = (ds, r)"
  unfolding read_digits_def
  by (induction ds) (auto simp: list_all_iff, (cases r; simp)+)

definition after_number :: "string \<Rightarrow> bool" where
  "after_number r \<longleftrightarrow> r = [] \<or> \<not> is_digit (hd r) \<and> hd r \<noteq> CHR ''.'' \<and> hd r \<noteq> CHR ''e'' \<and> hd r \<noteq> CHR ''E''"

lemma letters_not_digits: "\<not> is_digit CHR ''e''" "\<not> is_digit CHR ''E''" "\<not> is_digit CHR ''.''" "\<not> is_digit CHR ''-''"
  "\<not> is_digit CHR ''+''" "is_digit CHR ''0''"
  by (simp_all add: is_digit_def)

lemma read_exponent_token:
  assumes "exponent_token e" "after_number r"
  shows "read_exponent (e @ r) = Inr (e, r)"
proof (cases e)
  case Nil
  then show ?thesis using assms(2) by (cases r) (auto simp: read_exponent_def after_number_def)
next
  case (Cons c t)
  then obtain sg ds where t: "c = CHR ''e'' \<or> c = CHR ''E''" "t = sg @ ds" "list_all is_sign sg" "length sg \<le> 1" "ds \<noteq> []"
    "list_all is_digit ds" using assms(1) by (auto simp: exponent_token_def)
  have d: "read_digits (ds @ r) = (ds, r)" using digits_before [OF t(6)] assms(2) by (auto simp: after_number_def)
  obtain x xs where ds: "ds = x # xs" using t(5) by (cases ds) auto
  have x: "x \<noteq> CHR ''+''" "x \<noteq> CHR ''-''" using t(6) ds letters_not_digits by auto
  have sign: "takeWhile (\<lambda>d. d = CHR ''+'' \<or> d = CHR ''-'') (take 1 (sg @ ds @ r)) = sg"
    using t(3,4) x ds by (cases sg) (auto simp: is_sign_def)
  show ?thesis unfolding read_exponent_def Cons t(2) using t(1) sign d t(5) by (auto simp: Let_def)
qed

lemma after_exponent_token: "exponent_token e \<Longrightarrow> after_number r \<Longrightarrow> e @ r = [] \<or> \<not> is_digit (hd (e @ r)) \<and> hd (e @ r) \<noteq> CHR ''.''"
  by (cases e) (auto simp: exponent_token_def after_number_def letters_not_digits)

lemma read_fraction_token:
  assumes "fraction_token f" "r = [] \<or> \<not> is_digit (hd r) \<and> hd r \<noteq> CHR ''.''"
  shows "read_fraction (f @ r) = Inr (f, r)"
proof (cases f)
  case Nil
  then show ?thesis using assms(2) by (cases r) (auto simp: read_fraction_def)
next
  case (Cons c t)
  then show ?thesis using assms digits_before [of t r] by (auto simp: fraction_token_def read_fraction_def)
qed

lemma read_integer_token:
  assumes "int_token m" "r = [] \<or> \<not> is_digit (hd r)"
  shows "read_integer (m @ r) = Inr (m, r)"
  using assms(1)
proof (cases rule: int_token_cases)
  case (digits c ds)
  then show ?thesis using digits_before [of "c # ds" r] assms(2) by (simp add: read_integer_def)
qed (simp add: read_integer_def)

lemma decode_number_token:
  assumes m: "int_token m" and f: "fraction_token f" and e: "exponent_token e" and r: "after_number r"
    and x: "number_value jr negative m (f @ e) = Some x"
  shows "decode_number jr ((sign_text negative @ m @ f @ e) @ r) = Inr (x, r)"
proof -
  have er: "e @ r = [] \<or> \<not> is_digit (hd (e @ r)) \<and> hd (e @ r) \<noteq> CHR ''.''" by (rule after_exponent_token [OF e r])
  then have fer: "f @ e @ r = [] \<or> \<not> is_digit (hd (f @ e @ r))"
    using f letters_not_digits by (cases f) (auto simp: fraction_token_def)
  have "take 1 (m @ f @ e @ r) \<noteq> ''-''"
    using m letters_not_digits by (cases rule: int_token_cases) auto
  then have sign: "(take 1 ((sign_text negative @ m @ f @ e) @ r) = ''-'') = negative"
    "(if negative then drop 1 ((sign_text negative @ m @ f @ e) @ r) else (sign_text negative @ m @ f @ e) @ r) = m @ f @ e @ r"
    by (auto simp: sign_text_def)
  show ?thesis
    unfolding decode_number_def Let_def sign
    by (simp add: read_integer_token [OF m fer] read_fraction_token [OF f er] read_exponent_token [OF e r] x)
qed

lemma no_e_digits: "list_all is_digit ds \<Longrightarrow> CHR ''e'' \<notin> set ds"
  using letters_not_digits(1) by (auto simp: list_all_iff)

lemma split_at_first: "a \<notin> set xs \<Longrightarrow> dropWhile (\<lambda>c. c \<noteq> a) (xs @ a # ys) = a # ys"
  by (induction xs) auto

lemma number_token_shorten:
  assumes "number_token s"
  shows "number_token (shorten_exponent s)"
proof (cases "length s \<ge> 4 \<and> take 3 (drop (length s - 4) s) = ''e-0''")
  case False
  then show ?thesis using assms by (auto simp: shorten_exponent_def Let_def)
next
  case True
  obtain negative m f e where s: "s = sign_text negative @ m @ f @ e"
    and tokens: "int_token m" "fraction_token f" "exponent_token e"
    using assms by (auto simp: number_token_def)
  define p where "p = take (length s - 4) s"
  define c where "c = s ! (length s - 1)"
  have four: "drop (length s - 4) s = ''e-0'' @ [c]"
  proof -
    define t where "t = drop (length s - 4) s"
    have t: "length t = 4" "take 3 t = ''e-0''" "t ! 3 = c"
      using True by (simp_all add: t_def c_def)
    then obtain w x y z where "t = [w, x, y, z]"
      by (auto simp: numeral_eq_Suc length_Suc_conv)
    with t have "t = ''e-0'' @ [c]" by simp
    then show ?thesis by (simp add: t_def)
  qed
  have sp: "s = p @ CHR ''e'' # ''-0'' @ [c]"
    using append_take_drop_id [of "length s - 4" s] four by (simp add: p_def)
  let ?front = "sign_text negative @ m @ f"
  have front: "CHR ''e'' \<notin> set ?front"
  proof -
    have "CHR ''e'' \<notin> set m" using tokens(1) by (cases rule: int_token_cases) (auto dest: no_e_digits simp: letters_not_digits)
    moreover have "CHR ''e'' \<notin> set f"
      using tokens(2) by (cases f) (auto simp: fraction_token_def dest: no_e_digits)
    ultimately show ?thesis by (auto simp: sign_text_def)
  qed
  have "CHR ''e'' \<in> set s" by (simp add: sp)
  then have "CHR ''e'' \<in> set e" using front s by auto
  then have "e \<noteq> []" by auto
  then obtain h sg ds where e: "e = h # sg @ ds" "h = CHR ''e'' \<or> h = CHR ''E''" "list_all is_sign sg" "length sg \<le> 1"
    "ds \<noteq> []" "list_all is_digit ds" using tokens(3) by (cases e) (auto simp: exponent_token_def)
  have tail: "CHR ''e'' \<notin> set (sg @ ds)"
  proof -
    have "CHR ''e'' \<notin> set sg" using e(3) by (induction sg) (simp_all add: is_sign_def, blast)
    then show ?thesis using no_e_digits [OF e(6)] by simp
  qed
  then have h: "h = CHR ''e''" using \<open>CHR ''e'' \<in> set e\<close> tail e(1,2) by auto
  have "CHR ''e'' \<notin> set p"
  proof
    assume "CHR ''e'' \<in> set p"
    then have "count_list p CHR ''e'' \<noteq> 0" by (simp add: count_list_0_iff)
    then have "count_list s CHR ''e'' \<ge> 2" unfolding sp by simp
    moreover have "count_list s CHR ''e'' = 1" using front tail unfolding s e(1) h by (simp add: count_list_0_iff)
    ultimately show False by simp
  qed
  then have "dropWhile (\<lambda>c. c \<noteq> CHR ''e'') s = CHR ''e'' # ''-0'' @ [c]" unfolding sp by (rule split_at_first)
  moreover have "dropWhile (\<lambda>c. c \<noteq> CHR ''e'') s = CHR ''e'' # sg @ ds"
    unfolding s e(1) h using split_at_first [OF front, of "sg @ ds"] by simp
  ultimately have ed: "sg @ ds = ''-0'' @ [c]" by simp
  have sgds: "sg = ''-'' \<and> ds = [CHR ''0'', c]"
    using ed e(4,6) letters_not_digits by (cases sg; cases "tl sg") auto
  have pf: "p = ?front" using sp s e(1) h sgds by simp
  have short: "shorten_exponent s = p @ ''e-'' @ [c]"
  proof -
    have "take (length s - 2) s = p @ ''e-''" by (subst (2) sp) (simp add: sp)
    then show ?thesis using True by (simp add: shorten_exponent_def Let_def c_def)
  qed
  have "list_all is_digit [c]" using e(6) sgds by simp
  moreover have "tl (''e-'' @ [c]) = ''-'' @ [c]" "list_all is_sign ''-''" by (simp_all add: is_sign_def)
  ultimately have "exponent_token (''e-'' @ [c])"
    unfolding exponent_token_def by (metis One_nat_def hd_append2 le_refl length_Cons list.distinct(1) list.sel(1) list.size(3))
  then show ?thesis unfolding short pf number_token_def using tokens(1,2) by (metis append_assoc)
qed

lemma strconv_format:
  "strconv_rules jr \<Longrightarrow> \<not> IsNaN x \<Longrightarrow> \<not> IsInf x \<Longrightarrow> c = CHR ''e'' \<or> c = CHR ''f'' \<Longrightarrow>
   number_token (jrFormat jr c x) \<and> jrParse jr (jrFormat jr c x) = Some x"
  unfolding strconv_rules_def by blast

lemma strconv_shorten: "strconv_rules jr \<Longrightarrow> number_token s \<Longrightarrow> jrParse jr (shorten_exponent s) = jrParse jr s"
  unfolding strconv_rules_def by blast

lemma strconv_integer:
  "strconv_rules jr \<Longrightarrow> int_token m \<Longrightarrow> length m \<le> 15 \<Longrightarrow>
   jrParse jr (sign_text negative @ m) = number_value jr negative m []"
  unfolding strconv_rules_def by blast

lemma number_value_parse:
  assumes "strconv_rules jr" "int_token m" "jrParse jr (sign_text negative @ m @ rest) = Some x"
  shows "number_value jr negative m rest = Some x"
proof (cases "rest = [] \<and> length m \<le> 15")
  case True
  then show ?thesis using strconv_integer [OF assms(1,2), of negative] assms(3) by simp
next
  case False
  then show ?thesis using assms(3) by (simp only: number_value_def if_not_P [OF False] sign_text_def if_False)
qed

lemma number_text:
  assumes rules: "strconv_rules jr" and written: "appendNumberJSON jr x = Some s"
  shows "number_token s" and "after_number r \<Longrightarrow> decode_number jr (s @ r) = Inr (x, r)"
proof -
  have finite: "\<not> IsInf x" "\<not> IsNaN x" using written by (auto simp: appendNumberJSON_def split: if_splits)
  define c where "c = number_format x"
  have c: "c = CHR ''e'' \<or> c = CHR ''f''" by (simp add: c_def number_format_def)
  have formatted: "number_token (jrFormat jr c x)" "jrParse jr (jrFormat jr c x) = Some x"
    using strconv_format [OF rules finite(2,1) c] by simp_all
  have s: "s = (if c = CHR ''e'' then shorten_exponent (jrFormat jr c x) else jrFormat jr c x)"
    using written finite by (auto simp: appendNumberJSON_def c_def Let_def split: if_splits)
  show token: "number_token s" by (metis s formatted(1) number_token_shorten)
  have parse: "jrParse jr s = Some x" by (metis s strconv_shorten [OF rules formatted(1)] formatted(2))
  obtain negative m f e where parts: "s = sign_text negative @ m @ f @ e" "int_token m" "fraction_token f" "exponent_token e"
    using token by (auto simp: number_token_def)
  show "decode_number jr (s @ r) = Inr (x, r)" if "after_number r"
    unfolding parts(1)
    by (rule decode_number_token [OF parts(2-4) that])
      (rule number_value_parse [OF rules parts(2)], use parse parts(1) in simp)
qed

section \<open>Values\<close>

text \<open>
  What the encoder writes so that the decoder reads it back: no populated document, texts
  and names in UTF-8, objects that are maps, at most \<open>d\<close> levels of containers.
\<close>

function fits :: "nat \<Rightarrow> svalue \<Rightarrow> bool" where
  "fits d (SObject m) \<longleftrightarrow>
     d > 0 \<and> wf_map m \<and> (\<forall>p\<in>set m. utf8_valid (fst p) \<and> fits (d - 1) (snd p))"
| "fits d (SList t) \<longleftrightarrow> d > 0 \<and> (\<forall>x\<in>set (elements t). fits (d - 1) x)"
| "fits d (SString s) \<longleftrightarrow> utf8_valid s"
| "fits d SNull = True"
| "fits d (SNumber x) = True"
| "fits d (SBoolean b) = True"
| "fits d SInvalid = False"
| "fits d (SDocument od) = False"
  by pat_completeness auto
termination
proof (relation "measure (\<lambda>(d, v). size v)", goal_cases)
  case (2 d m p)
  then show ?case using size_member [of "fst p" "snd p" m] by simp
next
  case (3 d t x)
  then show ?case using size_elements [of x t size] by simp
qed simp

lemma is_ws [simp]: "skip_ws [] = []"
  "byte c \<notin> {9, 10, 13, 32} \<Longrightarrow> skip_ws (c # r) = c # r"
  by auto

definition starts_value :: "string \<Rightarrow> bool" where
  "starts_value s \<longleftrightarrow> s \<noteq> [] \<and> hd s \<notin> {CHR '','', CHR '']'', CHR ''}'', CHR '':''} \<and> byte (hd s) \<notin> {9, 10, 13, 32}"

lemma skip_starts: "starts_value s \<Longrightarrow> skip_ws (s @ r) = s @ r"
  by (cases s) (auto simp: starts_value_def)

lemma number_starts: "number_token s \<Longrightarrow> s \<noteq> [] \<and> (hd s = CHR ''-'' \<or> is_digit (hd s))"
  unfolding number_token_def sign_text_def
  by (auto elim!: int_token_cases simp: letters_not_digits split: if_splits)

lemma is_digit_not: "is_digit c \<Longrightarrow> c \<noteq> CHR '','' \<and> c \<noteq> CHR '']'' \<and> c \<noteq> CHR ''}'' \<and> c \<noteq> CHR '':''
   \<and> c \<noteq> CHR ''{'' \<and> c \<noteq> CHR ''['' \<and> c \<noteq> CHR 0x22 \<and> byte c \<notin> {9, 10, 13, 32}"
  by (auto simp: is_digit_def)

lemma encoded_starts:
  assumes "strconv_rules jr" "appendValueJSON jr v = Some s" "fits d v"
  shows "starts_value s"
proof (cases v)
  case (SNumber x)
  then have "number_token s" using number_text(1) [OF assms(1)] assms(2) by simp
  from number_starts [OF this] show ?thesis using is_digit_not by (auto simp: starts_value_def)
qed (use assms in \<open>auto simp: starts_value_def appendStringJSON_def split: if_splits\<close>)

definition closes :: "string \<Rightarrow> bool" where
  "closes r \<longleftrightarrow> r = [] \<or> hd r = CHR '','' \<or> hd r = CHR '']'' \<or> hd r = CHR ''}''"

lemma closes_after: "closes r \<Longrightarrow> after_number r"
  by (auto simp: closes_def after_number_def is_digit_def)

lemma closes_ws: "closes r \<Longrightarrow> skip_ws r = r"
  by (cases r) (auto simp: closes_def)

text \<open>
  The loops: what decoding reads of the members or items that were written, given that
  each value is read back.
\<close>

definition reads_back :: "json_rules \<Rightarrow> nat \<Rightarrow> svalue \<Rightarrow> bool" where
  "reads_back jr depth v \<longleftrightarrow>
     (\<forall>s n r. appendValueJSON jr v = Some s \<longrightarrow> 2 * length s \<le> n \<longrightarrow> closes r \<longrightarrow>
        (\<exists>w. decode_value n jr depth (s @ r) = Inr (w, r) \<and> veq w v))"

lemma reads_backD:
  assumes "reads_back jr depth v" "appendValueJSON jr v = Some s" "2 * length s \<le> n" "closes r"
  obtains w where "decode_value n jr depth (s @ r) = Inr (w, r)" "veq w v"
  using assms unfolding reads_back_def by blast

lemma append_all_Cons:
  assumes "append_all enc (x # xs) = Some s"
  obtains (one) "xs = []" "enc x = Some s"
  | (more) a b where "xs \<noteq> []" "enc x = Some a" "append_all enc xs = Some b" "s = a @ CHR '','' # b"
  using assms by (cases xs) (auto split: option.splits)

lemma items_read_back:
  assumes "append_all (appendValueJSON jr) (x # xs) = Some s"
    and "\<forall>v\<in>set (x # xs). reads_back jr depth v \<and> (\<forall>s. appendValueJSON jr v = Some s \<longrightarrow> starts_value s)"
    and "2 * length s + 1 \<le> n"
  shows "\<exists>ws. decode_items n jr depth items (s @ CHR '']'' # r) = Inr (SList (ownValueList (items @ ws)), r)
    \<and> list_all2 veq ws (x # xs)"
  using assms
proof (induction xs arbitrary: x s n items)
  case Nil
  then obtain m where n: "n = Suc m" "2 * length s \<le> m" by (cases n) auto
  have "closes (CHR '']'' # r)" by (simp add: closes_def)
  then obtain w where w: "decode_value m jr depth (s @ CHR '']'' # r) = Inr (w, CHR '']'' # r)" "veq w x"
    using reads_backD [of jr depth x s m "CHR '']'' # r"] Nil.prems n(2) by auto
  then show ?case by (intro exI [of _ "[w]"]) (simp add: n(1) decode_items.simps(2))
next
  case (Cons y ys)
  from Cons.prems(1) show ?case
  proof (cases rule: append_all_Cons)
    case (more a b)
    obtain m where n: "n = Suc m" "2 * length a \<le> m" "2 * length b + 1 \<le> m"
      using Cons.prems(3) more(4) by (cases n) auto
    have "closes (CHR '','' # b @ CHR '']'' # r)" by (simp add: closes_def)
    then obtain w where w: "decode_value m jr depth (a @ CHR '','' # b @ CHR '']'' # r) = Inr (w, CHR '','' # b @ CHR '']'' # r)"
      "veq w x" using reads_backD [of jr depth x a m "CHR '','' # b @ CHR '']'' # r"] Cons.prems(2) more(2) n(2) by auto
    have "\<exists>ws. decode_items m jr depth (items @ [w]) (b @ CHR '']'' # r)
        = Inr (SList (ownValueList ((items @ [w]) @ ws)), r) \<and> list_all2 veq ws (y # ys)"
      by (rule Cons.IH [OF more(3)]) (use Cons.prems(2) n(3) in auto)
    then obtain ws where "decode_items m jr depth (items @ [w]) (b @ CHR '']'' # r)
        = Inr (SList (ownValueList (items @ w # ws)), r)" "list_all2 veq ws (y # ys)" by auto
    then show ?thesis using w more(4) by (intro exI [of _ "w # ws"]) (simp add: n(1) decode_items.simps(2))
  qed simp
qed

lemma decode_name_text: "utf8_valid t \<Longrightarrow> decode_name (appendStringJSON t @ r) = Inr (t, r)"
  by (simp add: decode_name_def decode_string_text)

lemma member_read_back:
  assumes "append_member name (appendValueJSON jr v) = Some s" "utf8_valid name" "reads_back jr depth v"
    "\<forall>s. appendValueJSON jr v = Some s \<longrightarrow> starts_value s" "2 * length s \<le> n" "closes r"
  shows "\<exists>w. decode_members (Suc n) jr depth known (s @ r)
      = (case r of [] \<Rightarrow> Inl (ObjectEnd, [])
         | d # s3 \<Rightarrow> if d = CHR '','' then decode_members n jr depth (put name w known) s3
                    else if d = CHR ''}'' then Inr (put name w known, s3)
                    else Inl (ObjectSeparator, d # s3)) \<and> veq w v"
proof -
  obtain t where t: "appendValueJSON jr v = Some t" "s = appendStringJSON name @ CHR '':'' # t"
    using assms(1) by (auto simp: append_member_def)
  obtain w where w: "decode_value n jr depth (t @ r) = Inr (w, r)" "veq w v"
    using reads_backD [OF assms(3) t(1) _ assms(6), of n] assms(5) t(2) by auto
  have quote: "take 1 (appendStringJSON name @ u) = [CHR 0x22]" "skip_ws (appendStringJSON name @ u) = appendStringJSON name @ u" for u
    by (simp_all add: appendStringJSON_def)
  have name: "decode_name (appendStringJSON name @ CHR '':'' # t @ r) = Inr (name, CHR '':'' # t @ r)"
    by (rule decode_name_text [OF assms(2)])
  show ?thesis
    using w quote name closes_ws [OF assms(6)]
    by (intro exI [of _ w]) (simp add: t(2) decode_members.simps(2) Let_def)
qed

lemma members_read_back:
  assumes "append_all (\<lambda>(name, v). append_member name (appendValueJSON jr v)) (p # ps) = Some s"
    and "\<forall>(name, v)\<in>set (p # ps). utf8_valid name \<and> reads_back jr depth v
        \<and> (\<forall>s. appendValueJSON jr v = Some s \<longrightarrow> starts_value s)"
    and "2 * length s + 1 \<le> n"
  shows "\<exists>ws. decode_members n jr depth known (s @ CHR ''}'' # r) = Inr (fold (\<lambda>(k, w) m. put k w m) ws known, r)
    \<and> list_all2 (\<lambda>(k, w) (name, v). k = name \<and> veq w v) ws (p # ps)"
  using assms
proof (induction ps arbitrary: p s n known)
  case Nil
  obtain name v where p: "p = (name, v)" by (cases p)
  obtain m where n: "n = Suc m" "2 * length s \<le> m" using Nil.prems(3) by (cases n) auto
  have closing: "closes (CHR ''}'' # r)" by (simp add: closes_def)
  obtain w where "decode_members (Suc m) jr depth known (s @ CHR ''}'' # r) = Inr (put name w known, r)" "veq w v"
    using member_read_back [of name jr v s depth m "CHR ''}'' # r" known] Nil.prems p n(2) closing by auto
  then show ?case by (intro exI [of _ "[(name, w)]"]) (simp add: n(1) p)
next
  case (Cons q qs)
  obtain name v where p: "p = (name, v)" by (cases p)
  from Cons.prems(1) show ?case
  proof (cases rule: append_all_Cons)
    case (more a b)
    obtain m where n: "n = Suc m" "2 * length a \<le> m" "2 * length b + 1 \<le> m"
      using Cons.prems(3) more(4) by (cases n) auto
    have closing: "closes (CHR '','' # b @ CHR ''}'' # r)" by (simp add: closes_def)
    obtain w where w: "decode_members (Suc m) jr depth known (a @ CHR '','' # b @ CHR ''}'' # r)
        = decode_members m jr depth (put name w known) (b @ CHR ''}'' # r)" "veq w v"
      using member_read_back [of name jr v a depth m "CHR '','' # b @ CHR ''}'' # r" known] Cons.prems(2) p more(2) n(2) closing
      by auto
    obtain ws where "decode_members m jr depth (put name w known) (b @ CHR ''}'' # r)
        = Inr (fold (\<lambda>(k, w) m. put k w m) ws (put name w known), r)"
      "list_all2 (\<lambda>(k, w) (name, v). k = name \<and> veq w v) ws (q # qs)"
      using Cons.IH [OF more(3) _ n(3), of "put name w known"] Cons.prems(2) by auto
    then show ?thesis using w more(4) by (intro exI [of _ "(name, w) # ws"]) (simp add: n(1) p)
  qed simp
qed

lemma append_all_starts:
  "append_all enc (x # xs) = Some s \<Longrightarrow> (\<forall>t. enc x = Some t \<longrightarrow> starts_value t) \<Longrightarrow> starts_value s"
  by (erule append_all_Cons) (auto simp: starts_value_def)

lemma starts_not: "starts_value s \<Longrightarrow> take 1 (s @ r) \<noteq> '']'' \<and> take 1 (s @ r) \<noteq> ''}''"
  by (cases s) (auto simp: starts_value_def)

lemma member_starts: "append_member name e = Some s \<Longrightarrow> starts_value s"
  by (auto simp: append_member_def appendStringJSON_def starts_value_def)

lemma sorted_members_map:
  assumes "wf_map m" shows "map_of (sorted_members m) = map_of m" and "wf_map (sorted_members m)"
proof -
  have "mset (map fst (sorted_members m)) = mset (map fst m)"
    by (simp add: sorted_members_def)
  then have "distinct (map fst (sorted_members m))"
    using assms mset_eq_imp_distinct_iff [of "map fst (sorted_members m)" "map fst m"] by (simp add: wf_map_def)
  then show "wf_map (sorted_members m)" "map_of (sorted_members m) = map_of m"
    using assms by (simp_all add: wf_map_def map_of_inject_set)
qed

lemma read_members_map:
  assumes "list_all2 (\<lambda>(k, w) (name, v). k = name \<and> veq w v) ws ms" "wf_map ms"
  shows "rel_option veq (map_of (fold (\<lambda>(k, w) m. put k w m) ws []) k) (map_of ms k)"
proof -
  have keys: "map fst ws = map fst ms" using assms(1) by (induction rule: list_all2_induct) auto
  then have "map_of (fold (\<lambda>(k, w) m. put k w m) ws []) k = map_of ws k"
    using assms(2) map_of_rev [of ws] by (simp add: fold_put_map_of wf_map_def split: option.splits)
  moreover have "rel_option veq (map_of ws k) (map_of ms k)"
    using assms(1) by (induction rule: list_all2_induct) auto
  ultimately show ?thesis by simp
qed

lemma decode_literal:
  "8 \<le> n \<Longrightarrow> decode_value n jr depth (''null'' @ r) = Inr (SNull, r)"
  "8 \<le> n \<Longrightarrow> decode_value n jr depth (''true'' @ r) = Inr (SBoolean True, r)"
  "8 \<le> n \<Longrightarrow> decode_value n jr depth (''false'' @ r) = Inr (SBoolean False, r)"
  by (cases n; simp add: decode_value.simps(2) has_prefix_def is_digit_def)+

lemma value_read_back:
  assumes "strconv_rules jr"
  shows "fits d v \<Longrightarrow> depth + d \<le> maxJSONDepth \<Longrightarrow> reads_back jr depth v"
proof (induction d v arbitrary: depth rule: fits.induct)
  case (1 d m)
  have deep: "\<not> depth + 1 > maxJSONDepth" "d > 0" using 1 by auto
  have members: "\<forall>(name, v)\<in>set (sorted_members m). utf8_valid name \<and> reads_back jr (depth + 1) v
        \<and> (\<forall>s. appendValueJSON jr v = Some s \<longrightarrow> starts_value s)"
  proof (clarsimp, intro conjI allI impI)
    fix name v assume mem: "(name, v) \<in> set m"
    then show "utf8_valid name" using 1(2) by auto
    have fit: "fits (d - 1) v" using 1(2) mem by auto
    show "reads_back jr (Suc depth) v"
      using "1.IH" [OF mem, of "Suc depth"] fit 1(3) deep(2) by simp
    show "starts_value s" if "appendValueJSON jr v = Some s" for s
      by (rule encoded_starts [OF assms that fit])
  qed
  show ?case unfolding reads_back_def
  proof (intro allI impI)
    fix s n r assume s: "appendValueJSON jr (SObject m) = Some s" and n: "2 * length s \<le> n" and r: "closes r"
    obtain t where t: "append_all (\<lambda>(name, v). append_member name (appendValueJSON jr v)) (sorted_members m) = Some t"
      "s = CHR ''{'' # t @ ''}''" using s by auto
    obtain k where k: "n = Suc k" "2 * length t + 1 \<le> k" using n t(2) by (cases n) auto
    show "\<exists>w. decode_value n jr depth (s @ r) = Inr (w, r) \<and> veq w (SObject m)"
    proof (cases "sorted_members m")
      case Nil
      then have "m = []" using set_sorted_members [of m] by auto
      then show ?thesis using t Nil deep
        by (intro exI [of _ "SObject []"]) (simp add: k(1) decode_value.simps(2) veq_refl)
    next
      case (Cons p ps)
      obtain ws where ws: "decode_members k jr (depth + 1) [] (t @ CHR ''}'' # r)
          = Inr (fold (\<lambda>(k, w) m. put k w m) ws [], r)"
        "list_all2 (\<lambda>(k, w) (name, v). k = name \<and> veq w v) ws (sorted_members m)"
        using members_read_back [of jr p ps t "depth + 1" k "[]" r] t(1) members k(2) unfolding Cons by blast
      have start: "starts_value t"
        by (rule append_all_starts [OF t(1) [unfolded Cons]]) (auto split: prod.splits intro: member_starts)
      have "veq (SObject (fold (\<lambda>(k, w) m. put k w m) ws [])) (SObject m)"
        using read_members_map [OF ws(2) sorted_members_map(2)] sorted_members_map(1) [of m] 1(2)
        by (simp add: veq_Object_iff)
      then show ?thesis
        using ws(1) start deep starts_not [OF start] skip_starts [OF start]
        by (intro exI [of _ "SObject (fold (\<lambda>(k, w) m. put k w m) ws [])"])
          (simp add: t(2) k(1) decode_value.simps(2))
    qed
  qed
next
  case (2 d t)
  have deep: "\<not> depth + 1 > maxJSONDepth" "d > 0" using 2 by auto
  have items: "\<forall>v\<in>set (elements t). reads_back jr (depth + 1) v
        \<and> (\<forall>s. appendValueJSON jr v = Some s \<longrightarrow> starts_value s)"
    using 2 deep(2) encoded_starts [OF assms] by fastforce
  show ?case unfolding reads_back_def
  proof (intro allI impI)
    fix s n r assume s: "appendValueJSON jr (SList t) = Some s" and n: "2 * length s \<le> n" and r: "closes r"
    obtain u where u: "append_all (appendValueJSON jr) (elements t) = Some u" "s = CHR ''['' # u @ '']''"
      using s by auto
    obtain k where k: "n = Suc k" "2 * length u + 1 \<le> k" using n u(2) by (cases n) auto
    show "\<exists>w. decode_value n jr depth (s @ r) = Inr (w, r) \<and> veq w (SList t)"
    proof (cases "elements t")
      case Nil
      then show ?thesis using u deep
        by (intro exI [of _ "SList None"]) (simp add: k(1) decode_value.simps(2) veq_list elements_def)
    next
      case (Cons x xs)
      obtain ws where ws: "decode_items k jr (depth + 1) [] (u @ CHR '']'' # r) = Inr (SList (ownValueList ws), r)"
        "list_all2 veq ws (elements t)"
        using items_read_back [of jr x xs u "depth + 1" k "[]" r] u(1) items k(2) unfolding Cons by auto
      have start: "starts_value u"
        by (rule append_all_starts [OF u(1) [unfolded Cons]]) (use items Cons in auto)
      have "veq (SList (ownValueList ws)) (SList t)"
        using ws(2) by (intro veq_list) (simp add: value_tree.list_build)
      then show ?thesis
        using ws(1) start deep starts_not [OF start] skip_starts [OF start]
        by (intro exI [of _ "SList (ownValueList ws)"]) (simp add: u(2) k(1) decode_value.simps(2))
    qed
  qed
next
  case (3 d s)
  show ?case unfolding reads_back_def
  proof (intro allI impI)
    fix t n r assume "appendValueJSON jr (SString s) = Some t" "2 * length t \<le> n" "closes r"
    then obtain k where t: "t = appendStringJSON s" "n = Suc k" by (cases n) (auto simp: appendStringJSON_def)
    have "decode_string (appendStringJSON s @ r) = Inr (s, r)" using 3 by (simp add: decode_string_text)
    then show "\<exists>w. decode_value n jr depth (t @ r) = Inr (w, r) \<and> veq w (SString s)"
      using t by (simp add: decode_value.simps(2) appendStringJSON_def veq_refl)
  qed
next
  case (5 d x)
  show ?case unfolding reads_back_def
  proof (intro allI impI)
    fix t n r assume t: "appendValueJSON jr (SNumber x) = Some t" "2 * length t \<le> n" "closes r"
    then have tok: "number_token t" "decode_number jr (t @ r) = Inr (x, r)"
      using number_text [OF assms] closes_after by simp_all
    obtain c u where c: "t = c # u" "c = CHR ''-'' \<or> is_digit c" using number_starts [OF tok(1)] by (cases t) auto
    obtain k where k: "n = Suc k" using t(2) c(1) by (cases n) auto
    have "skip_ws (t @ r) = t @ r" "c \<noteq> CHR 0x22" "c \<noteq> CHR ''{''" "c \<noteq> CHR ''[''"
      using c is_digit_not by auto
    then show "\<exists>w. decode_value n jr depth (t @ r) = Inr (w, r) \<and> veq w (SNumber x)"
      using tok(2) c k by (auto simp: decode_value.simps(2) veq_refl Let_def)
  qed
next
  case (4 d)
  show ?case unfolding reads_back_def
    by (auto simp: decode_literal [simplified] veq_refl)
next
  case (6 d b)
  show ?case unfolding reads_back_def
    by (auto simp: decode_literal [simplified] veq_refl)
qed simp_all

section \<open>The round trip\<close>

text \<open>
  C5. A value without populated documents, with UTF-8 texts and names and at most ten
  thousand nested containers, is decoded from its own JSON text as an equal value, given
  what the codec relies on of the conversions of numbers.
\<close>

theorem value_json_roundtrip:
  assumes "strconv_rules jr" "fits maxJSONDepth v" "value_MarshalJSON jr v = Some text"
  shows "\<exists>w. value_UnmarshalJSON jr text = Inr w \<and> veq w v"
proof -
  have "reads_back jr 0 v" by (rule value_read_back [OF assms(1,2)]) simp
  moreover have "appendValueJSON jr v = Some text"
    using assms(3) by (simp add: value_MarshalJSON_def value_AppendJSON_def split: option.splits)
  moreover have "2 * length text \<le> json_fuel text" "closes []" by (simp_all add: json_fuel_def closes_def)
  ultimately obtain w where "decode_value (json_fuel text) jr 0 (text @ []) = Inr (w, [])" "veq w v"
    by (rule reads_backD)
  then show ?thesis by (simp add: value_UnmarshalJSON_def decode_end_def)
qed

text \<open>
  Rules of numbers that satisfy the hypothesis: sixteen digits and the bit pattern.
\<close>

definition pattern_text :: "float64 \<Rightarrow> string" where
  "pattern_text x = CHR ''1'' # replicate 15 CHR ''0'' @ nat_dec (unat x)"

definition pattern_parse :: "string \<Rightarrow> float64 option" where
  "pattern_parse s =
     (let negative = (take 1 s = ''-''); m = (if negative then drop 1 s else s) in
      if m \<noteq> [] \<and> list_all is_digit m then
        (if length m \<le> 15 then
           Some (let number = float64_of_int (int (dec_value m)) in if negative then float_negate number else number)
         else Some (word_of_nat (dec_value (drop 16 m))))
      else Some 0)"

definition pattern_rules :: json_rules where
  "pattern_rules = \<lparr>jrFormat = \<lambda>c. pattern_text, jrParse = pattern_parse, jrTime = \<lambda>t. None\<rparr>"

lemma nat_dec_digits: "list_all is_digit (nat_dec n)"
proof (induction n rule: nat_dec.induct)
  case (1 n)
  have "is_digit (char_of (48 + d))" if "d < 10" for d :: nat
    using that by (simp add: is_digit_def)
  then show ?case using 1 by (subst nat_dec.simps) simp
qed

lemma pattern_text_token: "int_token (pattern_text x)"
  using nat_dec_digits [of "unat x"] by (simp add: pattern_text_def int_token_def is_digit_def list_all_iff)

lemma int_token_digits: "int_token m \<Longrightarrow> m \<noteq> [] \<and> list_all is_digit m \<and> take 1 m \<noteq> ''-''"
  by (erule int_token_cases) (auto simp: letters_not_digits)

lemma parse_e: "CHR ''e'' \<in> set s \<Longrightarrow> pattern_parse s = Some 0"
  by (cases s) (auto simp: pattern_parse_def Let_def list_all_iff letters_not_digits)

lemma pattern_rules_hold: "strconv_rules pattern_rules"
proof -
  have format: "number_token (pattern_text x)" "pattern_parse (pattern_text x) = Some x" for x
  proof -
    have "pattern_text x = sign_text False @ pattern_text x @ [] @ []" "fraction_token []" "exponent_token []"
      by (simp_all add: sign_text_def fraction_token_def exponent_token_def)
    then show "number_token (pattern_text x)" using pattern_text_token unfolding number_token_def by blast
    have "\<not> length (pattern_text x) \<le> 15" "drop 16 (pattern_text x) = nat_dec (unat x)"
      by (simp_all add: pattern_text_def)
    then show "pattern_parse (pattern_text x) = Some x"
      using int_token_digits [OF pattern_text_token, of x]
      by (simp add: pattern_parse_def dec_value_nat_dec)
  qed
  have shorten: "pattern_parse (shorten_exponent s) = pattern_parse s" for s
  proof (cases "length s \<ge> 4 \<and> take 3 (drop (length s - 4) s) = ''e-0''")
    case True
    then have "length s - 2 = length s - 4 + 2" by linarith
    then have "take (length s - 2) s = take (length s - 4) s @ take 2 (drop (length s - 4) s)"
      by (simp only: take_add)
    moreover have "take 2 (drop (length s - 4) s) = take 2 (take 3 (drop (length s - 4) s))" by simp
    ultimately have "CHR ''e'' \<in> set (take (length s - 2) s)" using True by simp
    then show ?thesis
      using True set_take_subset [of "length s - 2" s] by (auto simp: shorten_exponent_def Let_def parse_e)
  qed (simp only: shorten_exponent_def Let_def if_False)
  have integer: "pattern_parse (sign_text negative @ m) = number_value jr negative m []"
    if "int_token m" "length m \<le> 15" for negative m jr
    using int_token_digits [OF that(1)] that(2)
    by (simp add: pattern_parse_def number_value_def sign_text_def Let_def)
  show ?thesis using format shorten integer by (simp add: strconv_rules_def pattern_rules_def)
qed

definition sample_value :: svalue where
  "sample_value =
     SObject [(''b'', SBoolean True),
       (''a'', SList (newValueList [SNull, SString [CHR ''x'', CHR 0x22, CHR 0x0A, CHR ''<'']]))]"

theorem value_json_roundtrip_witness:
  "\<exists>text w. value_MarshalJSON pattern_rules sample_value = Some text
     \<and> value_UnmarshalJSON pattern_rules text = Inr w \<and> veq w sample_value"
proof -
  have fits: "fits maxJSONDepth sample_value"
    by (simp add: sample_value_def maxJSONDepth_def wf_map_def value_tree.list_build)
  have "value_MarshalJSON pattern_rules sample_value \<noteq> None"
    by code_simp
  then obtain t where t: "value_MarshalJSON pattern_rules sample_value = Some t" by blast
  show ?thesis using value_json_roundtrip [OF pattern_rules_hold fits t] t by blast
qed

end
