(* ===== verification/Value_JSON_Termination.thy ===== *)
theory Value_JSON_Termination
  imports Value_JSON
begin

text \<open>
  The decoder of \<open>store/value_json.go\<close> always answers: every call of a decoding function
  consumes input, so the calls \<^const>\<open>json_fuel\<close> allows are enough for every text.
\<close>

text \<open>An answer that did not run out of calls and left less than \<open>n\<close> bytes.\<close>

definition advances :: "nat \<Rightarrow> 'a decoded \<Rightarrow> bool" where
  "advances n answer = (case answer of Inl (e, _) \<Rightarrow> e \<noteq> OutOfFuel | Inr (_, r) \<Rightarrow> length r < n)"

lemma advances_simps [simp]:
  "advances n (Inl (e, s)) \<longleftrightarrow> e \<noteq> OutOfFuel" "advances n (Inr (v, r)) \<longleftrightarrow> length r < n"
  by (simp_all add: advances_def)

lemma advances_le: "advances m answer \<Longrightarrow> m \<le> n \<Longrightarrow> advances n answer"
  by (cases answer) auto

lemma advancesE:
  assumes "advances n answer"
  obtains (fault) e s where "answer = Inl (e, s)" "e \<noteq> OutOfFuel" | (step) v r where "answer = Inr (v, r)" "length r < n"
  using assms by (cases answer) auto

lemma skip_ws_length: "length (skip_ws s) \<le> length s"
  by (induction s) auto

lemma escaped_advances: "advances (Suc (length s)) (escapedString s decoded)"
proof (induction s decoded rule: escapedString.induct)
  case (2 c r decoded)
  have shorter: "advances (Suc (Suc (length r))) answer"
    if "advances (Suc (length s)) answer" "length s \<le> length r" for s :: string and answer :: "string decoded"
    by (rule advances_le [OF that(1)]) (use that(2) in simp)
  consider "c = CHR 0x22 \<or> byte c < 32" | (escape) "c \<noteq> CHR 0x22" "\<not> byte c < 32" "c = CHR 0x5C"
    | (ascii) "c \<noteq> CHR 0x22" "\<not> byte c < 32" "c \<noteq> CHR 0x5C" "byte c < 128"
    | (rune) "c \<noteq> CHR 0x22" "\<not> byte c < 32" "c \<noteq> CHR 0x5C" "\<not> byte c < 128" by blast
  then show ?case
  proof cases
    case 1
    then show ?thesis by (auto simp: escapedString.simps(2))
  next
    case escape
    note step = "2.IH"(2,1) [OF escape]
    show ?thesis
    proof (cases r)
      case (Cons e r')
      show ?thesis
      proof (cases "simple_escape e")
        case (Some d)
        have "advances (Suc (length r')) (escapedString r' (decoded @ [d]))" by (rule step(1) [OF Cons Some])
        then show ?thesis using escape Cons Some shorter [of r'] by (simp add: escapedString.simps(2))
      next
        case None
        show ?thesis
        proof (cases "e = CHR ''u'' \<and> hexRune r' \<noteq> None")
          case True
          then obtain first rune extra where u: "e = CHR ''u''" "hexRune r' = Some first"
            "escaped_rune first (drop 4 r') = (rune, extra)" by (metis not_None_eq surj_pair)
          have "advances (Suc (length (drop (4 + extra) r'))) (escapedString (drop (4 + extra) r') (decoded @ AppendRune rune))"
            using step(2) [OF Cons None _ u(2) u(3) [symmetric]] u(1) by simp
          then show ?thesis using escape Cons None u shorter [of "drop (4 + extra) r'"] by (simp add: escapedString.simps(2))
        next
          case False
          then show ?thesis using escape Cons None by (auto simp: escapedString.simps(2))
        qed
      qed
    qed (use escape in \<open>simp add: escapedString.simps(2)\<close>)
  next
    case ascii
    have "advances (Suc (length r)) (escapedString r (decoded @ [c]))" by (rule "2.IH"(3) [OF ascii])
    then show ?thesis using ascii shorter [of r] by (simp add: escapedString.simps(2))
  next
    case rune
    show ?thesis
    proof (cases "rune_width (c # r)")
      case None
      have "advances (Suc (length r)) (escapedString r (decoded @ AppendRune 65533))" by (rule "2.IH"(4) [OF rune None])
      then show ?thesis using rune None shorter [of r] by (simp add: escapedString.simps(2))
    next
      case (Some k)
      have "length (drop k (c # r)) \<le> length r" using rune_width_bounds [OF Some] by (simp, linarith)
      moreover have "advances (Suc (length (drop k (c # r)))) (escapedString (drop k (c # r)) (decoded @ take k (c # r)))"
        by (rule "2.IH"(5) [OF rune Some])
      ultimately show ?thesis using rune Some shorter [of "drop k (c # r)"] by (simp add: escapedString.simps(2))
    qed
  qed
qed simp

lemma scan_advances: "length s \<le> length start \<Longrightarrow> advances (Suc (length start)) (scan_plain start s plain)"
  by (induction start s plain rule: scan_plain.induct) (auto simp: escaped_advances)

lemma decode_string_advances: "s \<noteq> [] \<Longrightarrow> advances (length s) (decode_string s)"
  using scan_advances [of "tl s" "tl s" "[]"] by (cases s) (simp_all add: decode_string_def)

lemma read_digits_length: "read_digits s = (ds, r) \<Longrightarrow> length ds + length r = length s"
  unfolding read_digits_def by (metis length_append prod.inject takeWhile_dropWhile_id)

lemma read_integer_advances: "advances (length s) (read_integer s)"
proof (cases s)
  case (Cons c r)
  obtain ds r' where d: "read_digits s = (ds, r')" by fastforce
  then show ?thesis using Cons read_digits_length [OF d] by (cases ds) (auto simp: read_integer_def)
qed (simp add: read_integer_def)

lemma read_fraction_advances: "advances (Suc (length s)) (read_fraction s)"
  by (auto simp: read_fraction_def split: list.splits prod.splits dest: read_digits_length)

lemma read_exponent_advances: "advances (Suc (length s)) (read_exponent s)"
  by (fastforce simp: read_exponent_def Let_def split: list.splits prod.splits dest: read_digits_length)

lemma decode_number_advances: "advances (length s) (decode_number jr s)"
proof -
  define s1 where "s1 = (if take 1 s = ''-'' then drop 1 s else s)"
  have "length s1 \<le> length s" by (simp add: s1_def)
  moreover have "advances (length s1) (decode_number jr s)"
    unfolding decode_number_def Let_def s1_def [symmetric]
    using read_integer_advances [of s1]
    by (cases rule: advancesE)
      (auto split: sum.splits option.splits, (metis advances_simps less_Suc_eq_le le_less_trans less_imp_le_nat read_fraction_advances read_exponent_advances)+)
  ultimately show ?thesis by (rule advances_le [rotated])
qed


text \<open>
  A value needs twice its input and one more call; the members of an object and the items
  of a list, whose first value may be the whole input, one more.
\<close>

lemma decode_value_step:
  assumes members: "\<And>depth s. 2 * length s + 2 \<le> n \<Longrightarrow> advances (Suc (length s)) (decode_members n jr depth [] s)"
    and items: "\<And>depth s. 2 * length s + 2 \<le> n \<Longrightarrow> advances (Suc (length s)) (decode_items n jr depth [] s)"
    and calls: "2 * length s + 1 \<le> Suc n"
  shows "advances (length s) (decode_value (Suc n) jr depth s)"
proof (cases "skip_ws s")
  case (Cons c r)
  have short: "length (skip_ws r) \<le> length r" "length r < length s"
    using skip_ws_length [of r] skip_ws_length [of s] Cons by simp_all
  then have inner: "advances (length s) (decode_members n jr (Suc depth) [] (skip_ws r))"
    "advances (length s) (decode_items n jr (Suc depth) [] (skip_ws r))"
    using calls by (auto intro!: advances_le [OF members] advances_le [OF items])
  have tokens: "advances (length s) (decode_string (c # r))" "advances (length s) (decode_number jr (c # r))"
    using advances_le [OF decode_string_advances [of "c # r"], of "length s"]
      advances_le [OF decode_number_advances [of "c # r"], of "length s"] short by simp_all
  consider "c = CHR 0x22" | "c = CHR ''{''" | "c = CHR ''[''"
    | "c \<noteq> CHR 0x22" "c \<noteq> CHR ''{''" "c \<noteq> CHR ''[''" by blast
  then show ?thesis
  proof cases
    case 1
    show ?thesis using tokens(1) 1 short by (cases rule: advancesE) (auto simp: decode_value.simps(2) Cons)
  next
    case 2
    show ?thesis using inner(1) 2 short by (cases rule: advancesE) (auto simp: decode_value.simps(2) Cons)
  next
    case 3
    then show ?thesis using inner(2) short by (auto simp: decode_value.simps(2) Cons)
  next
    case 4
    show ?thesis using tokens(2) 4 short by (cases rule: advancesE) (auto simp: decode_value.simps(2) Cons Let_def)
  qed
qed (simp add: decode_value.simps(2))

lemma decode_members_step:
  assumes val: "\<And>s. 2 * length s + 1 \<le> n \<Longrightarrow> advances (length s) (decode_value n jr depth s)"
    and members: "\<And>values s. 2 * length s + 2 \<le> n \<Longrightarrow> advances (Suc (length s)) (decode_members n jr depth values s)"
    and calls: "2 * length s + 2 \<le> Suc n"
  shows "advances (Suc (length s)) (decode_members (Suc n) jr depth values s)"
proof (cases "take 1 (skip_ws s) = [CHR 0x22]")
  case True
  then have "skip_ws s \<noteq> []" by auto
  then have "advances (length (skip_ws s)) (decode_name (skip_ws s))"
    unfolding decode_name_def by (rule decode_string_advances)
  then show ?thesis
  proof (cases rule: advancesE)
    case (step name s1)
    then have s1: "length (skip_ws s1) < length s" using skip_ws_length [of s1] skip_ws_length [of s] by simp
    show ?thesis
    proof (cases "take 1 (skip_ws s1) = '':''")
      case colon: True
      have "length (tl (skip_ws s1)) < length s" using s1 by simp
      then have "advances (length s) (decode_value n jr depth (tl (skip_ws s1)))"
        by (intro advances_le [OF val]) (use calls in auto)
      then show ?thesis
      proof (cases rule: advancesE)
        case v: (step v s2)
        show ?thesis
        proof (cases "skip_ws s2")
          case (Cons d s3)
          then have "length s3 < length s" using skip_ws_length [of s2] v(2) by simp
          then have "advances (Suc (length s)) (decode_members n jr depth (put name v values) s3)" "length s3 < Suc (length s)"
            using calls by (auto intro!: advances_le [OF members])
          then show ?thesis using True step(1) colon v(1) Cons by (simp add: decode_members.simps(2) Let_def)
        qed (use True step(1) colon v(1) in \<open>simp add: decode_members.simps(2) Let_def\<close>)
      qed (use True step(1) colon in \<open>simp add: decode_members.simps(2) Let_def\<close>)
    qed (use True step(1) in \<open>simp add: decode_members.simps(2) Let_def\<close>)
  qed (use True in \<open>simp add: decode_members.simps(2) Let_def\<close>)
qed (simp add: decode_members.simps(2) Let_def)

lemma decode_items_step:
  assumes val: "\<And>s. 2 * length s + 1 \<le> n \<Longrightarrow> advances (length s) (decode_value n jr depth s)"
    and items: "\<And>read s. 2 * length s + 2 \<le> n \<Longrightarrow> advances (Suc (length s)) (decode_items n jr depth read s)"
    and calls: "2 * length s + 2 \<le> Suc n"
  shows "advances (Suc (length s)) (decode_items (Suc n) jr depth read s)"
proof -
  have "advances (length s) (decode_value n jr depth s)" by (rule val) (use calls in simp)
  then show ?thesis
  proof (cases rule: advancesE)
    case (step v s1)
    show ?thesis
    proof (cases "skip_ws s1")
      case (Cons d s2)
      then have "length s2 < length s" using skip_ws_length [of s1] step(2) by simp
      then have "advances (Suc (length s)) (decode_items n jr depth (read @ [v]) s2)" "length s2 < Suc (length s)"
        using calls by (auto intro!: advances_le [OF items])
      then show ?thesis using step(1) Cons by (simp add: decode_items.simps(2))
    qed (use step(1) in \<open>simp add: decode_items.simps(2)\<close>)
  qed (simp add: decode_items.simps(2))
qed

lemma enough_calls:
  "(\<forall>depth s. 2 * length s + 1 \<le> n \<longrightarrow> advances (length s) (decode_value n jr depth s))
   \<and> (\<forall>depth values s. 2 * length s + 2 \<le> n \<longrightarrow> advances (Suc (length s)) (decode_members n jr depth values s))
   \<and> (\<forall>depth items s. 2 * length s + 2 \<le> n \<longrightarrow> advances (Suc (length s)) (decode_items n jr depth items s))"
proof (induction n)
  case (Suc n)
  show ?case
    by (intro conjI allI impI; (rule decode_value_step | rule decode_members_step | rule decode_items_step)) (use Suc in auto)
qed simp

text \<open>
  C14. Decoding answers every text, valid or not, within the calls the model allows.
\<close>

theorem value_json_answers:
  "value_UnmarshalJSON jr data \<noteq> Inl OutOfFuel \<and> values_UnmarshalJSON jr values data \<noteq> Inl (ValuesFault OutOfFuel)"
proof
  have v: "advances (length data) (decode_value (json_fuel data) jr 0 data)"
    using enough_calls by (simp add: json_fuel_def)
  then show "value_UnmarshalJSON jr data \<noteq> Inl OutOfFuel"
    by (cases rule: advancesE) (auto simp: value_UnmarshalJSON_def decode_end_def split: if_splits)
  define s where "s = skip_ws (tl (skip_ws data))"
  have "length s \<le> length data" using skip_ws_length [of data] skip_ws_length [of "tl (skip_ws data)"] by (simp add: s_def)
  then have "advances (Suc (length s)) (decode_members (json_fuel data) jr 1 known s)" for known
    using enough_calls [of "json_fuel data" jr] by (simp add: json_fuel_def)
  then have "fst fault \<noteq> OutOfFuel" if "decode_members (json_fuel data) jr 1 known s = Inl fault" for known fault
    using that by (metis advances_simps(1) prod.collapse)
  then show "values_UnmarshalJSON jr values data \<noteq> Inl (ValuesFault OutOfFuel)"
    unfolding values_UnmarshalJSON_def Let_def s_def [symmetric]
    by (fastforce simp: decode_end_def split: sum.splits prod.splits option.splits if_splits)
qed

end
