(* ===== verification/Lock_Queue.thy ===== *)
theory Lock_Queue
  imports Prelude "HOL-Library.Word"
begin

text \<open>
  The queue of document locks of one MongoDB store (\<open>adapters/mongodb/lock_queue.go\<close>). A
  transaction, a pointer in the code, is a number; its age is passed along. A channel is a
  number too: \<open>lqChannels\<close> channels have been made, \<open>lqClosed\<close> are closed. Every operation
  holds the queue's mutex, so it is one function of the queue.
\<close>

section \<open>State\<close>

record mongoFenceTarget =
  ftCollection :: string
  ftDocument :: string

datatype mongoLockMode = mongoLockShared | mongoLockExclusive

instantiation mongoLockMode :: linorder
begin

definition less_eq_mongoLockMode :: "mongoLockMode \<Rightarrow> mongoLockMode \<Rightarrow> bool" where
  "less_eq_mongoLockMode m n \<longleftrightarrow> m = mongoLockShared \<or> n = mongoLockExclusive"

definition less_mongoLockMode :: "mongoLockMode \<Rightarrow> mongoLockMode \<Rightarrow> bool" where
  "less_mongoLockMode m n \<longleftrightarrow> m = mongoLockShared \<and> n = mongoLockExclusive"

instance
proof
  fix m n k :: mongoLockMode
  show "m < n \<longleftrightarrow> m \<le> n \<and> \<not> n \<le> m" "m \<le> m" "m \<le> n \<or> n \<le> m"
    by (cases m; cases n; simp add: less_eq_mongoLockMode_def less_mongoLockMode_def)+
  show "m \<le> n \<Longrightarrow> n \<le> k \<Longrightarrow> m \<le> k"
    by (cases m; cases n; cases k; simp add: less_eq_mongoLockMode_def)
  show "m \<le> n \<Longrightarrow> n \<le> m \<Longrightarrow> m = n"
    by (cases m; cases n; simp add: less_eq_mongoLockMode_def)
qed

end

lemma mongoLockMode_order [simp]: "m \<le> mongoLockExclusive" "mongoLockShared \<le> m"
    "m \<le> mongoLockShared \<longleftrightarrow> m = mongoLockShared" "mongoLockExclusive \<le> m \<longleftrightarrow> m = mongoLockExclusive"
  by (auto simp: less_eq_mongoLockMode_def)

record mongoQueuedHold =
  qhMode :: mongoLockMode
  qhAge :: "64 word"
  qhWaiting :: bool
  qhExpires :: time

record mongoLockQueueEntry =
  qeHolders :: "(nat, mongoQueuedHold) gomap"
  qeExclusive :: "(nat, 64 word) gomap"
  qeChanged :: nat

record mongoLockQueue =
  lqEntries :: "(mongoFenceTarget, mongoLockQueueEntry) gomap"
  lqBegan :: "64 word"
  lqChannels :: nat
  lqClosed :: "nat list"

definition mongoLockQueueEntries :: nat where "mongoLockQueueEntries = 4096"

definition empty_queue :: mongoLockQueue where
  "empty_queue = \<lparr>lqEntries = [], lqBegan = 0, lqChannels = 0, lqClosed = []\<rparr>"

section \<open>Operations\<close>

definition queue_begin :: "mongoLockQueue \<Rightarrow> 64 word \<times> mongoLockQueue" where
  "queue_begin q = (lqBegan q + 1, q\<lparr>lqBegan := lqBegan q + 1\<rparr>)"

definition queue_entry ::
  "mongoFenceTarget \<Rightarrow> mongoLockQueue \<Rightarrow> mongoLockQueueEntry option \<times> mongoLockQueue" where
  "queue_entry target q =
     (case map_of (lqEntries q) target of
        Some entry \<Rightarrow> (Some entry, q)
      | None \<Rightarrow>
          if length (lqEntries q) \<ge> mongoLockQueueEntries then (None, q)
          else let entry = \<lparr>qeHolders = [], qeExclusive = [], qeChanged = lqChannels q\<rparr>
               in (Some entry, q\<lparr>lqEntries := put target entry (lqEntries q), lqChannels := lqChannels q + 1\<rparr>))"

text \<open>The code changes an entry through its pointer; here the changed entry is stored.\<close>

definition store_entry :: "mongoFenceTarget \<Rightarrow> mongoLockQueueEntry \<Rightarrow> mongoLockQueue \<Rightarrow> mongoLockQueue" where
  "store_entry target entry q = q\<lparr>lqEntries := put target entry (lqEntries q)\<rparr>"

definition queue_changed :: "mongoFenceTarget \<Rightarrow> mongoLockQueueEntry \<Rightarrow> mongoLockQueue \<Rightarrow> mongoLockQueue" where
  "queue_changed target entry q =
     (let closed = q\<lparr>lqClosed := qeChanged entry # lqClosed q\<rparr>
      in if qeHolders entry = [] \<and> qeExclusive entry = []
         then closed\<lparr>lqEntries := del target (lqEntries q)\<rparr>
         else store_entry target (entry\<lparr>qeChanged := lqChannels q\<rparr>) (closed\<lparr>lqChannels := lqChannels q + 1\<rparr>))"

definition hold ::
  "nat \<Rightarrow> 64 word \<Rightarrow> mongoFenceTarget \<Rightarrow> mongoLockMode \<Rightarrow> time \<Rightarrow> mongoLockQueue \<Rightarrow> bool \<times> mongoLockQueue" where
  "hold transaction age target mode expires q =
     (case queue_entry target q of
        (None, q1) \<Rightarrow> (False, q1)
      | (Some entry, q1) \<Rightarrow>
          let current = map_of (qeHolders entry) transaction;
              held = \<lparr>qhMode = (case current of None \<Rightarrow> mode | Some c \<Rightarrow> max mode (qhMode c)), qhAge = age,
                qhWaiting = False, qhExpires = expires\<rparr>
          in (current = None,
              store_entry target (entry\<lparr>qeHolders := put transaction held (qeHolders entry)\<rparr>) q1))"

definition queue_update_target ::
  "nat \<Rightarrow> (mongoLockQueueEntry \<Rightarrow> mongoQueuedHold \<Rightarrow> mongoLockQueueEntry) \<Rightarrow> mongoFenceTarget \<Rightarrow>
   mongoLockQueue \<Rightarrow> mongoLockQueue" where
  "queue_update_target transaction change target q =
     (case map_of (lqEntries q) target of
        None \<Rightarrow> q
      | Some entry \<Rightarrow>
          (case map_of (qeHolders entry) transaction of
             None \<Rightarrow> q
           | Some held \<Rightarrow> queue_changed target (change entry held) q))"

definition queue_update ::
  "nat \<Rightarrow> (mongoLockQueueEntry \<Rightarrow> mongoQueuedHold \<Rightarrow> mongoLockQueueEntry) \<Rightarrow> mongoFenceTarget list \<Rightarrow>
   mongoLockQueue \<Rightarrow> mongoLockQueue" where
  "queue_update transaction change targets q = fold (queue_update_target transaction change) targets q"

definition queue_wait :: "nat \<Rightarrow> mongoFenceTarget list \<Rightarrow> mongoLockQueue \<Rightarrow> mongoLockQueue" where
  "queue_wait transaction targets =
     queue_update transaction
       (\<lambda>entry held. entry\<lparr>qeHolders := put transaction (held\<lparr>qhWaiting := True\<rparr>) (qeHolders entry)\<rparr>) targets"

definition queue_release :: "nat \<Rightarrow> mongoFenceTarget list \<Rightarrow> mongoLockQueue \<Rightarrow> mongoLockQueue" where
  "queue_release transaction targets =
     queue_update transaction (\<lambda>entry _. entry\<lparr>qeHolders := del transaction (qeHolders entry)\<rparr>) targets"

definition enqueue :: "nat \<Rightarrow> 64 word \<Rightarrow> mongoFenceTarget \<Rightarrow> mongoLockQueue \<Rightarrow> bool \<times> mongoLockQueue" where
  "enqueue transaction age target q =
     (case queue_entry target q of
        (None, q1) \<Rightarrow> (False, q1)
      | (Some entry, q1) \<Rightarrow>
          (True, store_entry target (entry\<lparr>qeExclusive := put transaction age (qeExclusive entry)\<rparr>) q1))"

definition dequeue :: "nat \<Rightarrow> mongoFenceTarget \<Rightarrow> mongoLockQueue \<Rightarrow> mongoLockQueue" where
  "dequeue transaction target q =
     (case map_of (lqEntries q) target of
        None \<Rightarrow> q
      | Some entry \<Rightarrow> queue_changed target (entry\<lparr>qeExclusive := del transaction (qeExclusive entry)\<rparr>) q)"

text \<open>Whether a hold stands in the way, and the earliest expiry of those that do.\<close>

definition passes :: "nat \<Rightarrow> 64 word \<Rightarrow> mongoLockMode \<Rightarrow> time \<Rightarrow> nat \<Rightarrow> mongoQueuedHold \<Rightarrow> bool" where
  "passes transaction age mode now holder held \<longleftrightarrow>
     holder = transaction
     \<or> mode = mongoLockShared \<and> qhMode held = mongoLockShared
     \<or> qhWaiting held \<and> qhAge held > age
     \<or> \<not> now < qhExpires held"

fun blocking ::
  "nat \<Rightarrow> 64 word \<Rightarrow> mongoLockMode \<Rightarrow> time \<Rightarrow> (nat, mongoQueuedHold) gomap \<Rightarrow> bool \<times> time \<Rightarrow> bool \<times> time" where
  "blocking transaction age mode now [] (blocked, expires) = (blocked, expires)"
| "blocking transaction age mode now ((holder, held) # holders) (blocked, expires) =
     (if passes transaction age mode now holder held
      then blocking transaction age mode now holders (blocked, expires)
      else blocking transaction age mode now holders
             (True, if time_IsZero expires \<or> qhExpires held < expires then qhExpires held else expires))"

definition behind_exclusive :: "nat \<Rightarrow> 64 word \<Rightarrow> (nat, 64 word) gomap \<Rightarrow> bool" where
  "behind_exclusive transaction age exclusive \<longleftrightarrow>
     list_ex (\<lambda>(waiting, older). waiting \<noteq> transaction \<and> older < age) exclusive"

text \<open>The channel and expiry to wait for, or nothing when the lock may be taken.\<close>

definition turn ::
  "nat \<Rightarrow> 64 word \<Rightarrow> mongoFenceTarget \<Rightarrow> mongoLockMode \<Rightarrow> time \<Rightarrow> mongoLockQueue \<Rightarrow> (nat \<times> time) option" where
  "turn transaction age target mode now q =
     (case map_of (lqEntries q) target of
        None \<Rightarrow> None
      | Some entry \<Rightarrow>
          if (case map_of (qeHolders entry) transaction of None \<Rightarrow> False | Some own \<Rightarrow> qhMode own \<ge> mode) then None
          else case blocking transaction age mode now (qeHolders entry) (False, zero_time) of
            (blocked, expires) \<Rightarrow>
              if blocked \<or> mode = mongoLockShared \<and> behind_exclusive transaction age (qeExclusive entry)
              then Some (qeChanged entry, expires) else None)"

section \<open>What the queue says\<close>

text \<open>Who holds and who asks for a document, and the channel of its entry.\<close>

definition holder :: "mongoLockQueue \<Rightarrow> mongoFenceTarget \<Rightarrow> nat \<rightharpoonup> mongoQueuedHold" where
  "holder q target t = (case map_of (lqEntries q) target of None \<Rightarrow> None | Some e \<Rightarrow> map_of (qeHolders e) t)"

definition asker :: "mongoLockQueue \<Rightarrow> mongoFenceTarget \<Rightarrow> nat \<rightharpoonup> 64 word" where
  "asker q target t = (case map_of (lqEntries q) target of None \<Rightarrow> None | Some e \<Rightarrow> map_of (qeExclusive e) t)"

definition channel :: "mongoLockQueue \<Rightarrow> mongoFenceTarget \<rightharpoonup> nat" where
  "channel q target = map_option qeChanged (map_of (lqEntries q) target)"

definition entry_ok :: "mongoLockQueueEntry \<Rightarrow> bool" where
  "entry_ok e \<longleftrightarrow> wf_map (qeHolders e) \<and> wf_map (qeExclusive e) \<and> (qeHolders e \<noteq> [] \<or> qeExclusive e \<noteq> [])"

definition queue_ok :: "mongoLockQueue \<Rightarrow> bool" where
  "queue_ok q \<longleftrightarrow> wf_map (lqEntries q) \<and> length (lqEntries q) \<le> mongoLockQueueEntries
     \<and> (\<forall>target e. map_of (lqEntries q) target = Some e \<longrightarrow> entry_ok e)
     \<and> (\<forall>target c. channel q target = Some c \<longrightarrow> c < lqChannels q \<and> c \<notin> set (lqClosed q))
     \<and> (\<forall>x y c. channel q x = Some c \<longrightarrow> channel q y = Some c \<longrightarrow> x = y)
     \<and> (\<forall>c\<in>set (lqClosed q). c < lqChannels q)"

text \<open>Room for the document: it has an entry, or there is space for one.\<close>

definition tracked :: "mongoLockQueue \<Rightarrow> mongoFenceTarget \<Rightarrow> bool" where
  "tracked q target \<longleftrightarrow> mem_key (lqEntries q) target \<or> length (lqEntries q) < mongoLockQueueEntries"

section \<open>What each operation does\<close>

lemma queue_entry_tracked:
  "tracked q target \<Longrightarrow> \<exists>e q1. queue_entry target q = (Some e, q1) \<and> map_of (lqEntries q1) target = Some e
     \<and> (\<forall>x. x \<noteq> target \<longrightarrow> map_of (lqEntries q1) x = map_of (lqEntries q) x)
     \<and> map_of (qeHolders e) = holder q target \<and> map_of (qeExclusive e) = asker q target
     \<and> (channel q target = None \<or> channel q target = Some (qeChanged e)) \<and> lqClosed q1 = lqClosed q \<and> lqBegan q1 = lqBegan q"
  by (auto simp: queue_entry_def tracked_def holder_def asker_def channel_def Let_def fun_eq_iff split: option.splits)

lemma queue_entry_untracked: "\<not> tracked q target \<Longrightarrow> queue_entry target q = (None, q)"
  by (auto simp: queue_entry_def tracked_def split: option.splits)

lemma store_entry_says [simp]:
  "holder (store_entry target e q) x u = (if x = target then map_of (qeHolders e) u else holder q x u)"
  "asker (store_entry target e q) x u = (if x = target then map_of (qeExclusive e) u else asker q x u)"
  "channel (store_entry target e q) x = (if x = target then Some (qeChanged e) else channel q x)"
  "lqClosed (store_entry target e q) = lqClosed q" "lqBegan (store_entry target e q) = lqBegan q"
  "lqChannels (store_entry target e q) = lqChannels q"
  by (simp_all add: store_entry_def holder_def asker_def channel_def)

lemma queue_changed_says [simp]:
  "holder (queue_changed target e q) x u = (if x = target then map_of (qeHolders e) u else holder q x u)"
  "asker (queue_changed target e q) x u = (if x = target then map_of (qeExclusive e) u else asker q x u)"
  "lqClosed (queue_changed target e q) = qeChanged e # lqClosed q" "lqBegan (queue_changed target e q) = lqBegan q"
  by (auto simp: queue_changed_def Let_def holder_def asker_def store_entry_def)

lemma queue_changed_elsewhere: "x \<noteq> target \<Longrightarrow> channel (queue_changed target e q) x = channel q x"
  by (auto simp: queue_changed_def Let_def channel_def store_entry_def)

lemma hold_says:
  "holder (snd (hold t age target mode expires q)) x u =
     (if x = target \<and> u = t \<and> tracked q target
      then Some \<lparr>qhMode = (case holder q target t of None \<Rightarrow> mode | Some c \<Rightarrow> max mode (qhMode c)), qhAge = age,
        qhWaiting = False, qhExpires = expires\<rparr>
      else holder q x u)" (is ?A)
  "asker (snd (hold t age target mode expires q)) x u = asker q x u" (is ?B)
  "lqClosed (snd (hold t age target mode expires q)) = lqClosed q" (is ?C)
  "lqBegan (snd (hold t age target mode expires q)) = lqBegan q" (is ?D)
  "channel q x = Some c \<Longrightarrow> channel (snd (hold t age target mode expires q)) x = Some c" (is "?X \<Longrightarrow> ?E")
  "fst (hold t age target mode expires q) \<longleftrightarrow> tracked q target \<and> holder q target t = None" (is ?F)
proof -
  have "?A \<and> ?B \<and> ?C \<and> ?D \<and> (?X \<longrightarrow> ?E) \<and> ?F"
  proof (cases "tracked q target")
    case True
    from queue_entry_tracked [OF this] obtain e q1 where e: "queue_entry target q = (Some e, q1)"
      "\<forall>x. x \<noteq> target \<longrightarrow> map_of (lqEntries q1) x = map_of (lqEntries q) x" "map_of (qeHolders e) = holder q target"
      "map_of (qeExclusive e) = asker q target" "channel q target = None \<or> channel q target = Some (qeChanged e)"
      "lqClosed q1 = lqClosed q" "lqBegan q1 = lqBegan q" by blast
    have same: "x \<noteq> target \<Longrightarrow> holder q1 x u = holder q x u" "x \<noteq> target \<Longrightarrow> asker q1 x u = asker q x u"
      "x \<noteq> target \<Longrightarrow> channel q1 x = channel q x"
      using e(2) by (simp_all add: holder_def asker_def channel_def)
    show ?thesis using True e same by (auto simp: hold_def Let_def)
  qed (simp add: hold_def queue_entry_untracked)
  then show ?A ?B ?C ?D ?F "?X \<Longrightarrow> ?E" by blast+
qed

lemma enqueue_says:
  "holder (snd (enqueue t age target q)) x u = holder q x u" (is ?A)
  "asker (snd (enqueue t age target q)) x u
     = (if x = target \<and> u = t \<and> tracked q target then Some age else asker q x u)" (is ?B)
  "lqClosed (snd (enqueue t age target q)) = lqClosed q" (is ?C)
  "lqBegan (snd (enqueue t age target q)) = lqBegan q" (is ?D)
  "channel q x = Some c \<Longrightarrow> channel (snd (enqueue t age target q)) x = Some c" (is "?X \<Longrightarrow> ?E")
  "fst (enqueue t age target q) \<longleftrightarrow> tracked q target" (is ?F)
proof -
  have "?A \<and> ?B \<and> ?C \<and> ?D \<and> (?X \<longrightarrow> ?E) \<and> ?F"
  proof (cases "tracked q target")
    case True
    from queue_entry_tracked [OF this] obtain e q1 where e: "queue_entry target q = (Some e, q1)"
      "\<forall>x. x \<noteq> target \<longrightarrow> map_of (lqEntries q1) x = map_of (lqEntries q) x" "map_of (qeHolders e) = holder q target"
      "map_of (qeExclusive e) = asker q target" "channel q target = None \<or> channel q target = Some (qeChanged e)"
      "lqClosed q1 = lqClosed q" "lqBegan q1 = lqBegan q" by blast
    have same: "x \<noteq> target \<Longrightarrow> holder q1 x u = holder q x u" "x \<noteq> target \<Longrightarrow> asker q1 x u = asker q x u"
      "x \<noteq> target \<Longrightarrow> channel q1 x = channel q x"
      using e(2) by (simp_all add: holder_def asker_def channel_def)
    show ?thesis using True e same by (auto simp: enqueue_def)
  qed (simp add: enqueue_def queue_entry_untracked)
  then show ?A ?B ?C ?D ?F "?X \<Longrightarrow> ?E" by blast+
qed

lemma dequeue_says:
  "holder (dequeue t target q) x u = holder q x u"
  "asker (dequeue t target q) x u = (if x = target \<and> u = t then None else asker q x u)"
  "lqBegan (dequeue t target q) = lqBegan q" "set (lqClosed q) \<subseteq> set (lqClosed (dequeue t target q))"
  by (auto simp: dequeue_def holder_def [of q] asker_def [of q] split: option.split)

lemma dequeue_channel:
  "channel q x = Some c \<Longrightarrow> channel (dequeue t target q) x = Some c \<or> c \<in> set (lqClosed (dequeue t target q))"
  by (cases "x = target") (auto simp: dequeue_def channel_def [of q] queue_changed_elsewhere split: option.split)

lemma update_target_channel:
  assumes "\<And>e h. qeChanged (change e h) = qeChanged e"
  shows "channel q x = Some c \<Longrightarrow> channel (queue_update_target t change target q) x = Some c
    \<or> c \<in> set (lqClosed (queue_update_target t change target q))"
  using assms
  by (cases "x = target") (auto simp: queue_update_target_def channel_def [of q] queue_changed_elsewhere split: option.split)

lemma update_target_closed: "set (lqClosed q) \<subseteq> set (lqClosed (queue_update_target t change target q))"
  by (auto simp: queue_update_target_def split: option.split)

lemma update_closed: "set (lqClosed q) \<subseteq> set (lqClosed (queue_update t change targets q))"
  unfolding queue_update_def by (induction targets arbitrary: q) (use update_target_closed in fastforce)+

lemma update_channel:
  assumes "\<And>e h. qeChanged (change e h) = qeChanged e"
  shows "channel q x = Some c \<Longrightarrow> channel (queue_update t change targets q) x = Some c
    \<or> c \<in> set (lqClosed (queue_update t change targets q))"
proof (induction targets arbitrary: q)
  case (Cons target targets)
  have "channel (queue_update_target t change target q) x = Some c \<or> c \<in> set (lqClosed (queue_update_target t change target q))"
    by (rule update_target_channel) (use assms Cons.prems in auto)
  then show ?case
    using Cons.IH [of "queue_update_target t change target q"]
      update_closed [of "queue_update_target t change target q" t change targets]
    by (auto simp: queue_update_def)
qed (simp add: queue_update_def)

lemma wait_target_says:
  "holder (queue_update_target t (\<lambda>entry held. entry\<lparr>qeHolders := put t (held\<lparr>qhWaiting := True\<rparr>) (qeHolders entry)\<rparr>) target q) x u
     = (if x = target \<and> u = t then map_option (qhWaiting_update (\<lambda>_. True)) (holder q x u) else holder q x u)"
  "asker (queue_update_target t (\<lambda>entry held. entry\<lparr>qeHolders := put t (held\<lparr>qhWaiting := True\<rparr>) (qeHolders entry)\<rparr>) target q) x u
     = asker q x u"
  by (auto simp: queue_update_target_def holder_def [of q] asker_def [of q] split: option.split)

lemma release_target_says:
  "holder (queue_update_target t (\<lambda>entry _. entry\<lparr>qeHolders := del t (qeHolders entry)\<rparr>) target q) x u
     = (if x = target \<and> u = t then None else holder q x u)"
  "asker (queue_update_target t (\<lambda>entry _. entry\<lparr>qeHolders := del t (qeHolders entry)\<rparr>) target q) x u = asker q x u"
  by (auto simp: queue_update_target_def holder_def [of q] asker_def [of q] split: option.split)

lemma queue_wait_says:
  "holder (queue_wait t targets q) x u
     = (if u = t \<and> x \<in> set targets then map_option (qhWaiting_update (\<lambda>_. True)) (holder q x u) else holder q x u)"
  "asker (queue_wait t targets q) x u = asker q x u"
  unfolding queue_wait_def queue_update_def
  by (induction targets arbitrary: q) (auto simp: wait_target_says option.map_comp o_def)

lemma queue_release_says:
  "holder (queue_release t targets q) x u = (if u = t \<and> x \<in> set targets then None else holder q x u)"
  "asker (queue_release t targets q) x u = asker q x u"
  unfolding queue_release_def queue_update_def
  by (induction targets arbitrary: q) (auto simp: release_target_says)

lemma update_target_began [simp]: "lqBegan (queue_update_target t change target q) = lqBegan q"
  by (auto simp: queue_update_target_def split: option.split)

lemma update_began [simp]: "lqBegan (queue_update t change targets q) = lqBegan q"
  unfolding queue_update_def by (induction targets arbitrary: q) simp_all

lemma queue_wait_channel:
  "channel q x = Some c \<Longrightarrow> channel (queue_wait t targets q) x = Some c \<or> c \<in> set (lqClosed (queue_wait t targets q))"
  "set (lqClosed q) \<subseteq> set (lqClosed (queue_wait t targets q))" "lqBegan (queue_wait t targets q) = lqBegan q"
  using update_channel update_closed by (simp_all add: queue_wait_def)

lemma queue_release_channel:
  "channel q x = Some c \<Longrightarrow> channel (queue_release t targets q) x = Some c \<or> c \<in> set (lqClosed (queue_release t targets q))"
  "set (lqClosed q) \<subseteq> set (lqClosed (queue_release t targets q))" "lqBegan (queue_release t targets q) = lqBegan q"
  using update_channel update_closed by (simp_all add: queue_release_def)

text \<open>When a lock may be taken.\<close>

definition blocks ::
  "mongoLockQueue \<Rightarrow> time \<Rightarrow> nat \<Rightarrow> 64 word \<Rightarrow> mongoFenceTarget \<Rightarrow> mongoLockMode \<Rightarrow> nat \<Rightarrow> bool" where
  "blocks q now t age target mode u \<longleftrightarrow>
     (\<exists>h. holder q target u = Some h \<and> \<not> passes t age mode now u h)
     \<or> mode = mongoLockShared \<and> u \<noteq> t \<and> (\<exists>a. asker q target u = Some a \<and> a < age)"

lemma blocking_fst: "fst (blocking t age mode now hs (b, x)) \<longleftrightarrow> b \<or> (\<exists>(u, h)\<in>set hs. \<not> passes t age mode now u h)"
proof (induction hs arbitrary: b x)
  case (Cons uh hs)
  obtain u h where uh: "uh = (u, h)" by (cases uh)
  show ?case unfolding uh blocking.simps by (cases "passes t age mode now u h") (simp_all add: Cons.IH)
qed simp

lemma blocking_spec:
  "blocking t age mode now hs (b, x) = (b', x') \<Longrightarrow>
     (b' \<longleftrightarrow> b \<or> (\<exists>(u, h)\<in>set hs. \<not> passes t age mode now u h))"
  using blocking_fst [of t age mode now hs b x] by simp

lemma blocking_expires:
  "blocking t age mode now hs (b, x) = (b', x') \<Longrightarrow> 0 \<le> now \<Longrightarrow> 0 \<le> x \<Longrightarrow>
     0 \<le> x' \<and> (x \<noteq> 0 \<longrightarrow> x' \<noteq> 0 \<and> x' \<le> x)
     \<and> (\<forall>(u, h)\<in>set hs. \<not> passes t age mode now u h \<longrightarrow> x' \<noteq> 0 \<and> x' \<le> qhExpires h)"
proof (induction hs arbitrary: b x)
  case (Cons uh hs)
  obtain u h where uh: "uh = (u, h)" by (cases uh)
  show ?case
  proof (cases "passes t age mode now u h")
    case True
    then show ?thesis using Cons.IH [of b x] Cons.prems uh by auto
  next
    case False
    let ?x = "if time_IsZero x \<or> qhExpires h < x then qhExpires h else x"
    have "now < qhExpires h" using False by (auto simp: passes_def)
    then have "0 \<le> ?x" "?x \<noteq> 0" "?x \<le> qhExpires h" "x \<noteq> 0 \<Longrightarrow> ?x \<le> x"
      using Cons.prems(2,3) by (auto simp: time_IsZero_def zero_time_def)
    then show ?thesis using Cons.IH [of True ?x] Cons.prems False uh by force
  qed
qed simp

lemma blocked_iff:
  assumes "map_of (lqEntries q) target = Some e" "entry_ok e" "blocking t age mode now (qeHolders e) (False, x) = (b, x')"
  shows "b \<or> mode = mongoLockShared \<and> behind_exclusive t age (qeExclusive e) \<longleftrightarrow> (\<exists>u. blocks q now t age target mode u)"
proof -
  have "b \<longleftrightarrow> (\<exists>u h. (u, h) \<in> set (qeHolders e) \<and> \<not> passes t age mode now u h)"
    using blocking_spec [OF assms(3)] by auto
  moreover have "behind_exclusive t age (qeExclusive e) \<longleftrightarrow> (\<exists>u a. (u, a) \<in> set (qeExclusive e) \<and> u \<noteq> t \<and> a < age)"
    by (auto simp: behind_exclusive_def list_ex_iff)
  moreover have "(u, h) \<in> set (qeHolders e) \<longleftrightarrow> holder q target u = Some h"
    "(u, a) \<in> set (qeExclusive e) \<longleftrightarrow> asker q target u = Some a" for u h a
    using assms(1,2) by (simp_all add: holder_def asker_def entry_ok_def wf_map_mem)
  ultimately show ?thesis unfolding blocks_def by blast
qed

lemma turn_blocked:
  assumes "queue_ok q" "turn t age target mode now q = Some (c, x)" "0 \<le> now"
  shows "channel q target = Some c"
    and "\<exists>u. blocks q now t age target mode u"
    and "\<And>h. holder q target t = Some h \<Longrightarrow> \<not> mode \<le> qhMode h"
    and "\<And>u h. holder q target u = Some h \<Longrightarrow> \<not> passes t age mode now u h \<Longrightarrow> x \<noteq> 0 \<and> x \<le> qhExpires h"
proof -
  obtain e where e: "map_of (lqEntries q) target = Some e"
    using assms(2) by (auto simp: turn_def split: option.splits)
  obtain b x' where b: "blocking t age mode now (qeHolders e) (False, zero_time) = (b, x')" by fastforce
  have wf: "entry_ok e" using assms(1) e by (auto simp: queue_ok_def)
  have r: "qeChanged e = c" "x' = x" "b \<or> mode = mongoLockShared \<and> behind_exclusive t age (qeExclusive e)"
    using assms(2) e b by (auto simp: turn_def split: option.splits if_splits)
  show "\<And>h. holder q target t = Some h \<Longrightarrow> \<not> mode \<le> qhMode h"
    using assms(2) e by (auto simp: turn_def holder_def split: if_splits)
  show "channel q target = Some c" using e r(1) by (simp add: channel_def)
  show "\<exists>u. blocks q now t age target mode u" using blocked_iff [OF e wf b] r(3) by simp
  fix u h assume "holder q target u = Some h" "\<not> passes t age mode now u h"
  then have "(u, h) \<in> set (qeHolders e)" using e by (auto simp: holder_def dest: map_of_SomeD)
  then show "x \<noteq> 0 \<and> x \<le> qhExpires h"
    using blocking_expires [OF b assms(3)] \<open>\<not> passes t age mode now u h\<close> r(2) by (auto simp: zero_time_def)
qed

lemma turn_ready:
  assumes "queue_ok q" "turn t age target mode now q = None"
  shows "channel q target = None \<or> (\<exists>h. holder q target t = Some h \<and> mode \<le> qhMode h)
    \<or> (\<forall>u. \<not> blocks q now t age target mode u)"
proof (cases "map_of (lqEntries q) target")
  case (Some e)
  obtain b x where b: "blocking t age mode now (qeHolders e) (False, zero_time) = (b, x)" by fastforce
  have wf: "entry_ok e" using assms(1) Some by (auto simp: queue_ok_def)
  show ?thesis
  proof (cases "\<exists>h. holder q target t = Some h \<and> mode \<le> qhMode h")
    case False
    then have "\<not> (b \<or> mode = mongoLockShared \<and> behind_exclusive t age (qeExclusive e))"
      using assms(2) Some b by (auto simp: turn_def holder_def split: option.splits if_splits)
    then show ?thesis using blocked_iff [OF Some wf b] by simp
  qed simp
qed (simp add: channel_def)

text \<open>Every operation keeps the queue in order.\<close>

lemma put_length: "length (put k v m) = (if mem_key m k then length m else length m + 1)"
proof -
  have "length (put k v m) = length (map fst (put k v m))" by simp
  then show ?thesis by (simp add: put_def update_keys map_of_eq_None_iff)
qed

lemma del_length: "length (del k m) \<le> length m"
  by (simp add: del_def length_delete_le)

lemma queue_okD: "queue_ok q \<Longrightarrow> map_of (lqEntries q) target = Some e \<Longrightarrow> entry_ok e"
  by (simp add: queue_ok_def)

lemma queue_entry_store_ok:
  assumes ok: "queue_ok q" and e: "queue_entry target q = (Some e, q1)"
    and e': "entry_ok e'" "qeChanged e' = qeChanged e"
  shows "queue_ok (store_entry target e' q1)"
proof (cases "map_of (lqEntries q) target")
  case None
  have fresh: "c < lqChannels q" if "channel q x = Some c" for x c using ok that by (auto simp: queue_ok_def)
  have e1: "e = \<lparr>qeHolders = [], qeExclusive = [], qeChanged = lqChannels q\<rparr>" "length (lqEntries q) < mongoLockQueueEntries"
    "q1 = q\<lparr>lqEntries := put target e (lqEntries q), lqChannels := lqChannels q + 1\<rparr>"
    using e None by (auto simp: queue_entry_def Let_def split: if_splits)
  have chan: "channel (store_entry target e' q1) x = (if x = target then Some (lqChannels q) else channel q x)" for x
    using e1 e'(2) by (simp add: channel_def store_entry_def)
  show ?thesis unfolding queue_ok_def chan
    using ok e1 e' None fresh by (auto simp: store_entry_def queue_ok_def put_length dest: less_SucI)
next
  case (Some e0)
  have q1: "e = e0" "q1 = q" using e Some by (auto simp: queue_entry_def)
  have chan: "channel (store_entry target e' q1) x = channel q x" for x
    using q1 e'(2) Some by (simp add: channel_def store_entry_def)
  show ?thesis unfolding queue_ok_def chan
    using ok q1 e'(1) Some by (auto simp: store_entry_def queue_ok_def put_length)
qed

lemma queue_entry_wf:
  assumes "queue_ok q" "queue_entry target q = (Some e, q1)"
  shows "wf_map (qeHolders e)" "wf_map (qeExclusive e)"
  using assms queue_okD [OF assms(1)]
  by (auto simp: queue_entry_def Let_def entry_ok_def split: option.splits if_splits)

lemma put_not_Nil [simp]: "put k v m \<noteq> []"
  by (cases m) (auto simp: put_def)

lemma hold_ok: "queue_ok q \<Longrightarrow> queue_ok (snd (hold t age target mode expires q))"
proof (cases "tracked q target")
  case True
  assume ok: "queue_ok q"
  from queue_entry_tracked [OF True] obtain e q1 where e: "queue_entry target q = (Some e, q1)" by blast
  show ?thesis
    using queue_entry_store_ok [OF ok e] queue_entry_wf [OF ok e] e by (simp add: hold_def Let_def entry_ok_def)
qed (simp add: hold_def queue_entry_untracked)

lemma enqueue_ok: "queue_ok q \<Longrightarrow> queue_ok (snd (enqueue t age target q))"
proof (cases "tracked q target")
  case True
  assume ok: "queue_ok q"
  from queue_entry_tracked [OF True] obtain e q1 where e: "queue_entry target q = (Some e, q1)" by blast
  show ?thesis
    using queue_entry_store_ok [OF ok e] queue_entry_wf [OF ok e] e by (simp add: enqueue_def entry_ok_def)
qed (simp add: enqueue_def queue_entry_untracked)

lemma queue_changed_ok:
  assumes ok: "queue_ok q" and e0: "map_of (lqEntries q) target = Some e0"
    and e: "qeChanged e = qeChanged e0" "wf_map (qeHolders e)" "wf_map (qeExclusive e)"
  shows "queue_ok (queue_changed target e q)"
proof -
  have fresh: "c < lqChannels q \<and> c \<notin> set (lqClosed q)" if "channel q x = Some c" for x c
    using ok that by (auto simp: queue_ok_def)
  have one: "x = y" if "channel q x = Some c" "channel q y = Some c" for x y c
    using ok that unfolding queue_ok_def by blast
  have closed: "c < lqChannels q" if "c \<in> set (lqClosed q)" for c using ok that by (auto simp: queue_ok_def)
  have here: "channel q target = Some (qeChanged e)" using e0 e(1) by (simp add: channel_def)
  have size: "length (lqEntries q) \<le> mongoLockQueueEntries" "wf_map (lqEntries q)"
    and entries: "\<And>x f. map_of (lqEntries q) x = Some f \<Longrightarrow> entry_ok f" using ok by (auto simp: queue_ok_def)
  show ?thesis
  proof (cases "qeHolders e = [] \<and> qeExclusive e = []")
    case True
    have chan: "channel (queue_changed target e q) x = (if x = target then None else channel q x)" for x
      using True by (simp add: queue_changed_def Let_def channel_def)
    show ?thesis unfolding queue_ok_def chan
      using True size entries fresh one closed here le_trans [OF del_length size(1)]
      by (auto simp: queue_changed_def Let_def dest: one)
  next
    case False
    have chan: "channel (queue_changed target e q) x = (if x = target then Some (lqChannels q) else channel q x)" for x
      using False by (auto simp: queue_changed_def Let_def channel_def store_entry_def)
    have other: "c \<noteq> qeChanged e" if "channel q x = Some c" "x \<noteq> target" for x c using one [OF that(1)] here that(2) by blast
    have lt: "c < Suc (lqChannels q)" if "channel q x = Some c" for x c using fresh [OF that] by simp
    have "queue_changed target e q = store_entry target (e\<lparr>qeChanged := lqChannels q\<rparr>)
        (q\<lparr>lqClosed := qeChanged e # lqClosed q, lqChannels := lqChannels q + 1\<rparr>)"
      using False by (auto simp: queue_changed_def Let_def)
    then show ?thesis unfolding queue_ok_def chan
      using size entries e(2,3) False e0 fresh [OF here] fresh other lt closed closed [of "lqChannels q"]
      by (auto simp: store_entry_def entry_ok_def put_length less_SucI dest: one)
  qed
qed

lemma dequeue_ok: "queue_ok q \<Longrightarrow> queue_ok (dequeue t target q)"
  by (auto simp: dequeue_def entry_ok_def split: option.split intro!: queue_changed_ok dest: queue_okD)

lemma update_ok:
  assumes "\<And>e h. wf_map (qeHolders e) \<Longrightarrow> wf_map (qeHolders (change e h))"
    and "\<And>e h. qeExclusive (change e h) = qeExclusive e" "\<And>e h. qeChanged (change e h) = qeChanged e"
  shows "queue_ok q \<Longrightarrow> queue_ok (queue_update t change targets q)"
proof (induction targets arbitrary: q)
  case (Cons target targets)
  have "queue_ok (queue_update_target t change target q)"
    using Cons.prems assms queue_okD [OF Cons.prems]
    by (auto simp: queue_update_target_def entry_ok_def split: option.split intro!: queue_changed_ok)
  then show ?case using Cons.IH by (simp add: queue_update_def)
qed (simp add: queue_update_def)

lemma queue_wait_ok: "queue_ok q \<Longrightarrow> queue_ok (queue_wait t targets q)"
  unfolding queue_wait_def by (rule update_ok) auto

lemma queue_release_ok: "queue_ok q \<Longrightarrow> queue_ok (queue_release t targets q)"
  unfolding queue_release_def by (rule update_ok) auto

lemma empty_queue_ok: "queue_ok empty_queue"
  by (simp add: queue_ok_def empty_queue_def channel_def)

lemma queue_begin_ok: "queue_ok q \<Longrightarrow> queue_ok (snd (queue_begin q))"
  by (simp add: queue_begin_def queue_ok_def channel_def)

lemma begin_says [simp]:
  "holder (snd (queue_begin q)) = holder q" "asker (snd (queue_begin q)) = asker q" "channel (snd (queue_begin q)) = channel q"
  "lqClosed (snd (queue_begin q)) = lqClosed q" "lqBegan (snd (queue_begin q)) = lqBegan q + 1"
  "fst (queue_begin q) = lqBegan q + 1"
  by (simp_all add: queue_begin_def holder_def asker_def channel_def fun_eq_iff)

end
