(* ===== verification/Lock_Waits.thy ===== *)
theory Lock_Waits
  imports Lock_Queue
begin

text \<open>
  The transactions of one MongoDB store that lock documents (\<open>adapters/mongodb/fences.go\<close>,
  \<open>lockDocument\<close> and what it calls). What the database answers to a statement is a choice:
  a fence is taken, or conflicts, or fails. Every call on the queue is a step of its own, so
  transactions interleave wherever the code lets them.
\<close>

section \<open>Transactions\<close>

definition mongoStatementTimeLimit :: time where "mongoStatementTimeLimit = 60 * Second"

record mongoHeldLock =
  hlMode :: mongoLockMode
  hlTarget :: mongoFenceTarget

text \<open>
  Where a transaction is in \<open>lockDocument\<close>: at the top of the loop, told to wait, waiting for a
  channel until a time, retaking its locks on a new server transaction, or taking this one, about to return.
  The flag says that its exclusive request is in the queue.
\<close>

datatype wait_phase =
  Idle
| Deciding mongoHeldLock bool
| Blocked mongoHeldLock bool nat time
| Waiting mongoHeldLock bool nat time
| Retaking mongoHeldLock bool "mongoHeldLock list"
| Taking mongoHeldLock bool
| Returning mongoHeldLock bool

record documentTransaction =
  dtAge :: "64 word"
  dtOperation :: bool
  dtReadOnly :: bool
  dtWrote :: bool
  dtSuspended :: bool
  dtStarted :: time
  dtLocks :: "mongoHeldLock list"
  dtExclusive :: "mongoFenceTarget list"
  dtQueueHolds :: "mongoFenceTarget list"
  dtPhase :: wait_phase

definition canRestart :: "documentTransaction \<Rightarrow> bool" where
  "canRestart tx \<longleftrightarrow> dtOperation tx \<and> \<not> dtWrote tx \<and> \<not> dtReadOnly tx"

definition queueHold ::
  "nat \<Rightarrow> mongoFenceTarget \<Rightarrow> mongoLockMode \<Rightarrow> documentTransaction \<times> mongoLockQueue \<Rightarrow> documentTransaction \<times> mongoLockQueue" where
  "queueHold i target mode = (\<lambda>(tx, q).
     if \<not> dtOperation tx then (tx, q)
     else case hold i (dtAge tx) target mode (dtStarted tx + mongoStatementTimeLimit) q of
       (new, q1) \<Rightarrow> (if new then tx\<lparr>dtQueueHolds := dtQueueHolds tx @ [target]\<rparr> else tx, q1))"

definition holdExclusive ::
  "nat \<Rightarrow> mongoFenceTarget \<Rightarrow> documentTransaction \<times> mongoLockQueue \<Rightarrow> documentTransaction \<times> mongoLockQueue" where
  "holdExclusive i target = (\<lambda>(tx, q).
     queueHold i target mongoLockExclusive (tx\<lparr>dtExclusive := List.insert target (dtExclusive tx)\<rparr>, q))"

text \<open>What \<open>takeLock\<close> records once the database let it through.\<close>

definition takeLock ::
  "nat \<Rightarrow> mongoHeldLock \<Rightarrow> documentTransaction \<times> mongoLockQueue \<Rightarrow> documentTransaction \<times> mongoLockQueue" where
  "takeLock i lock = (\<lambda>(tx, q).
     case hlMode lock of
       mongoLockExclusive \<Rightarrow> holdExclusive i (hlTarget lock) (tx, q)
     | mongoLockShared \<Rightarrow>
         if hlTarget lock \<in> set (dtExclusive tx) then (tx, q)
         else queueHold i (hlTarget lock) mongoLockShared (tx, q))"

definition suspend :: "nat \<Rightarrow> documentTransaction \<times> mongoLockQueue \<Rightarrow> documentTransaction \<times> mongoLockQueue" where
  "suspend i = (\<lambda>(tx, q).
     if dtSuspended tx then (tx, q)
     else (tx\<lparr>dtSuspended := True, dtExclusive := []\<rparr>,
           if dtQueueHolds tx \<noteq> [] then queue_wait i (dtQueueHolds tx) q else q))"

definition releaseQueuedHolds ::
  "nat \<Rightarrow> documentTransaction \<times> mongoLockQueue \<Rightarrow> documentTransaction \<times> mongoLockQueue" where
  "releaseQueuedHolds i = (\<lambda>(tx, q).
     if dtQueueHolds tx \<noteq> [] then (tx\<lparr>dtQueueHolds := []\<rparr>, queue_release i (dtQueueHolds tx) q) else (tx, q))"

text \<open>\<open>lockDocument\<close> begins; its deferred \<open>dequeue\<close> runs whichever way it returns.\<close>

definition request_lock ::
  "nat \<Rightarrow> mongoHeldLock \<Rightarrow> documentTransaction \<times> mongoLockQueue \<Rightarrow> documentTransaction \<times> mongoLockQueue" where
  "request_lock i lock = (\<lambda>(tx, q).
     if canRestart tx \<and> hlMode lock = mongoLockExclusive
     then case enqueue i (dtAge tx) (hlTarget lock) q of
       (queued, q1) \<Rightarrow> (tx\<lparr>dtPhase := Deciding lock queued\<rparr>, q1)
     else (tx\<lparr>dtPhase := Deciding lock False\<rparr>, q))"

definition lock_return ::
  "nat \<Rightarrow> mongoHeldLock \<Rightarrow> bool \<Rightarrow> documentTransaction \<times> mongoLockQueue \<Rightarrow> documentTransaction \<times> mongoLockQueue" where
  "lock_return i lock queued = (\<lambda>(tx, q).
     (tx\<lparr>dtPhase := Idle\<rparr>, if queued then dequeue i (hlTarget lock) q else q))"

definition move :: "wait_phase \<Rightarrow> documentTransaction \<times> mongoLockQueue \<Rightarrow> documentTransaction \<times> mongoLockQueue" where
  "move phase = (\<lambda>(tx, q). (tx\<lparr>dtPhase := phase\<rparr>, q))"

section \<open>The store's transactions\<close>

record lock_system =
  lsQueue :: mongoLockQueue
  lsTransactions :: "(nat, documentTransaction) gomap"
  lsBegun :: nat
  lsNow :: time

definition initial_system :: lock_system where
  "initial_system = \<lparr>lsQueue = empty_queue, lsTransactions = [], lsBegun = 0, lsNow = zero_time\<rparr>"

abbreviation tx_at :: "lock_system \<Rightarrow> nat \<Rightarrow> documentTransaction \<Rightarrow> bool" where
  "tx_at s i tx \<equiv> map_of (lsTransactions s) i = Some tx"

definition set_tx :: "nat \<Rightarrow> lock_system \<Rightarrow> documentTransaction \<times> mongoLockQueue \<Rightarrow> lock_system" where
  "set_tx i s = (\<lambda>(tx, q). s\<lparr>lsQueue := q, lsTransactions := put i tx (lsTransactions s)\<rparr>)"

definition my_turn :: "lock_system \<Rightarrow> nat \<Rightarrow> documentTransaction \<Rightarrow> mongoHeldLock \<Rightarrow> (nat \<times> time) option" where
  "my_turn s i tx lock = turn i (dtAge tx) (hlTarget lock) (hlMode lock) (lsNow s) (lsQueue s)"

definition lock_begin :: "bool \<Rightarrow> bool \<Rightarrow> lock_system \<Rightarrow> lock_system" where
  "lock_begin operation readOnly s =
     (case queue_begin (lsQueue s) of
        (age, q) \<Rightarrow>
          s\<lparr>lsQueue := q, lsBegun := lsBegun s + 1,
            lsTransactions := put (lsBegun s)
              \<lparr>dtAge = age, dtOperation = operation, dtReadOnly = readOnly, dtWrote = False, dtSuspended = False,
               dtStarted = lsNow s, dtLocks = [], dtExclusive = [], dtQueueHolds = [], dtPhase = Idle\<rparr>
              (lsTransactions s)\<rparr>)"

definition lock_end :: "nat \<Rightarrow> documentTransaction \<Rightarrow> lock_system \<Rightarrow> lock_system" where
  "lock_end i tx s =
     s\<lparr>lsQueue := snd (releaseQueuedHolds i (tx, lsQueue s)), lsTransactions := del i (lsTransactions s)\<rparr>"

inductive lock_step :: "lock_system \<Rightarrow> lock_system \<Rightarrow> bool" where
  time_passes: "lsNow s \<le> now \<Longrightarrow> lock_step s (s\<lparr>lsNow := now\<rparr>)"
| begins: "lock_step s (lock_begin operation readOnly s)"
| ends: "tx_at s i tx \<Longrightarrow> dtPhase tx = Idle \<Longrightarrow> lock_step s (lock_end i tx s)"
| writes: "tx_at s i tx \<Longrightarrow> dtPhase tx = Idle \<Longrightarrow> \<not> dtSuspended tx \<Longrightarrow> \<not> dtReadOnly tx \<Longrightarrow>
    lock_step s (set_tx i s (tx\<lparr>dtWrote := True\<rparr>, lsQueue s))"
| locks_for_write: "tx_at s i tx \<Longrightarrow> dtPhase tx = Idle \<Longrightarrow> \<not> dtSuspended tx \<Longrightarrow> dtWrote tx \<Longrightarrow>
    target \<notin> set (dtExclusive tx) \<Longrightarrow> lock_step s (set_tx i s (holdExclusive i target (tx, lsQueue s)))"
| requests: "tx_at s i tx \<Longrightarrow> dtPhase tx = Idle \<Longrightarrow> \<not> dtSuspended tx \<Longrightarrow> \<not> dtReadOnly tx \<Longrightarrow>
    lock_step s (set_tx i s (request_lock i lock (tx, lsQueue s)))"
| must_wait: "tx_at s i tx \<Longrightarrow> dtPhase tx = Deciding lock queued \<Longrightarrow> canRestart tx \<Longrightarrow>
    my_turn s i tx lock = Some (changed, expires) \<Longrightarrow>
    lock_step s (set_tx i s (move (Blocked lock queued changed expires) (tx, lsQueue s)))"
| suspends: "tx_at s i tx \<Longrightarrow> dtPhase tx = Blocked lock queued changed expires \<Longrightarrow>
    lock_step s (set_tx i s (move (Waiting lock queued changed expires) (suspend i (tx, lsQueue s))))"
| wakes: "tx_at s i tx \<Longrightarrow> dtPhase tx = Waiting lock queued changed expires \<Longrightarrow>
    changed \<in> set (lqClosed (lsQueue s)) \<or> \<not> time_IsZero expires \<and> expires \<le> lsNow s \<Longrightarrow>
    lock_step s (set_tx i s (move (Deciding lock queued) (tx, lsQueue s)))"
| restarts: "tx_at s i tx \<Longrightarrow> dtPhase tx = Deciding lock queued \<Longrightarrow> \<not> canRestart tx \<or> my_turn s i tx lock = None \<Longrightarrow>
    dtSuspended tx \<Longrightarrow>
    lock_step s (set_tx i s (move (Retaking lock queued (dtLocks tx))
      (tx\<lparr>dtSuspended := False, dtStarted := lsNow s\<rparr>, lsQueue s)))"
| retakes: "tx_at s i tx \<Longrightarrow> dtPhase tx = Retaking lock queued (held # todo) \<Longrightarrow>
    lock_step s (set_tx i s (move (Retaking lock queued todo) (takeLock i held (tx, lsQueue s))))"
| restarted: "tx_at s i tx \<Longrightarrow> dtPhase tx = Retaking lock queued [] \<Longrightarrow>
    lock_step s (set_tx i s (move (Taking lock queued) (tx, lsQueue s)))"
| proceeds: "tx_at s i tx \<Longrightarrow> dtPhase tx = Deciding lock queued \<Longrightarrow> \<not> canRestart tx \<or> my_turn s i tx lock = None \<Longrightarrow>
    \<not> dtSuspended tx \<Longrightarrow> lock_step s (set_tx i s (move (Taking lock queued) (tx, lsQueue s)))"
| conflicts: "tx_at s i tx \<Longrightarrow> dtPhase tx = Taking lock queued \<or> dtPhase tx = Retaking lock queued todo \<Longrightarrow> canRestart tx \<Longrightarrow>
    lock_step s (set_tx i s (move (Deciding lock queued) (suspend i (tx, lsQueue s))))"
| takes: "tx_at s i tx \<Longrightarrow> dtPhase tx = Taking lock queued \<Longrightarrow>
    takeLock i lock (tx, lsQueue s) = (tx1, q1) \<Longrightarrow>
    lock_step s (set_tx i s (move (Returning lock queued) (tx1\<lparr>dtLocks := dtLocks tx1 @ [lock]\<rparr>, q1)))"
| returns: "tx_at s i tx \<Longrightarrow> dtPhase tx \<in> {Deciding lock queued, Waiting lock queued changed expires,
      Retaking lock queued todo, Taking lock queued, Returning lock queued} \<Longrightarrow>
    lock_step s (set_tx i s (lock_return i lock queued (tx, lsQueue s)))"

end
