(* ===== verification/Lock_Wait_Properties.thy ===== *)
theory Lock_Wait_Properties
  imports Lock_Waits
begin

text \<open>
  Waiting for document locks makes progress: transactions never wait for one another in a
  circle, and no transaction sleeps past the moment its turn comes.
\<close>

section \<open>What a call changes for the others\<close>

text \<open>
  An operation either wakes the waiters of a document or leaves what they wait for: holds
  stay at least as strong, and requests stay. The transactions in \<open>I\<close> keep the mode of their
  own holds.
\<close>

definition stronger :: "mongoQueuedHold \<Rightarrow> mongoQueuedHold \<Rightarrow> bool" where
  "stronger h h' \<longleftrightarrow> qhMode h \<le> qhMode h' \<and> qhAge h' = qhAge h \<and> (qhWaiting h' \<longrightarrow> qhWaiting h)
     \<and> qhExpires h \<le> qhExpires h'"

definition follows :: "nat set \<Rightarrow> mongoLockQueue \<Rightarrow> mongoLockQueue \<Rightarrow> bool" where
  "follows I q q' \<longleftrightarrow> set (lqClosed q) \<subseteq> set (lqClosed q')
     \<and> (\<forall>x c. channel q x = Some c \<longrightarrow> c \<notin> set (lqClosed q') \<longrightarrow> channel q' x = Some c
          \<and> (\<forall>u h. holder q x u = Some h \<longrightarrow> (\<exists>h'. holder q' x u = Some h' \<and> stronger h h'))
          \<and> (\<forall>u a. asker q x u = Some a \<longrightarrow> asker q' x u = Some a)
          \<and> (\<forall>i\<in>I. \<forall>h'. holder q' x i = Some h' \<longrightarrow> (\<exists>h. holder q x i = Some h \<and> qhMode h' = qhMode h)))"

lemma stronger_refl [simp]: "stronger h h"
  by (simp add: stronger_def)

lemma stronger_trans: "stronger h k \<Longrightarrow> stronger k l \<Longrightarrow> stronger h l"
  by (auto simp: stronger_def)

lemma follows_refl [simp]: "follows I q q"
  by (simp add: follows_def)

lemma followsD:
  assumes "follows I q q'" "channel q x = Some c" "c \<notin> set (lqClosed q')"
  shows "channel q' x = Some c"
    and "holder q x u = Some h \<Longrightarrow> \<exists>h'. holder q' x u = Some h' \<and> stronger h h'"
    and "asker q x u = Some a \<Longrightarrow> asker q' x u = Some a"
    and "i \<in> I \<Longrightarrow> holder q' x i = Some h' \<Longrightarrow> \<exists>h. holder q x i = Some h \<and> qhMode h' = qhMode h"
  using assms unfolding follows_def by blast+

lemma follows_trans: "follows I q q1 \<Longrightarrow> follows I q1 q2 \<Longrightarrow> follows I q q2"
proof -
  assume f: "follows I q q1" "follows I q1 q2"
  have closed: "set (lqClosed q) \<subseteq> set (lqClosed q1)" "set (lqClosed q1) \<subseteq> set (lqClosed q2)"
    using f by (simp_all add: follows_def)
  have step: "channel q2 x = Some c
      \<and> (\<forall>u h. holder q x u = Some h \<longrightarrow> (\<exists>h'. holder q2 x u = Some h' \<and> stronger h h'))
      \<and> (\<forall>u a. asker q x u = Some a \<longrightarrow> asker q2 x u = Some a)
      \<and> (\<forall>i\<in>I. \<forall>h'. holder q2 x i = Some h' \<longrightarrow> (\<exists>h. holder q x i = Some h \<and> qhMode h' = qhMode h))"
    if "channel q x = Some c" "c \<notin> set (lqClosed q2)" for x c
  proof -
    have c: "c \<notin> set (lqClosed q1)" using closed that(2) by blast
    note one = followsD [OF f(1) that(1) c]
    note two = followsD [OF f(2) one(1) that(2)]
    show ?thesis
    proof (intro conjI allI impI ballI)
      show "\<exists>h'. holder q2 x u = Some h' \<and> stronger h h'" if "holder q x u = Some h" for u h
        using one(2) [OF that] two(2) stronger_trans by blast
      show "\<exists>h. holder q x i = Some h \<and> qhMode h' = qhMode h" if "i \<in> I" "holder q2 x i = Some h'" for i h'
        using two(4) [OF that] one(4) [OF that(1)] by force
    qed (use one(3) two(1,3) in blast)+
  qed
  then show ?thesis unfolding follows_def using closed by blast
qed

lemma queue_changed_follows:
  assumes "map_of (lqEntries q) target = Some e0" "qeChanged e = qeChanged e0"
  shows "follows I q (queue_changed target e q)"
proof -
  have "x \<noteq> target" if "channel q x = Some c" "c \<notin> set (lqClosed (queue_changed target e q))" for x c
    using that assms by (auto simp: channel_def)
  then show ?thesis unfolding follows_def by (auto simp: queue_changed_elsewhere)
qed

lemma queue_update_target_follows:
  assumes "\<And>e h. qeChanged (change e h) = qeChanged e"
  shows "follows I q (queue_update_target t change target q)"
  using assms by (auto simp: queue_update_target_def intro!: queue_changed_follows split: option.split)

lemma queue_update_follows:
  assumes "\<And>e h. qeChanged (change e h) = qeChanged e"
  shows "follows I q (queue_update t change targets q)"
proof (induction targets arbitrary: q)
  case (Cons target targets)
  have "follows I q (queue_update_target t change target q)" by (rule queue_update_target_follows) (rule assms)
  then show ?case using Cons.IH follows_trans by (auto simp: queue_update_def)
qed (simp add: queue_update_def)

lemma queue_wait_follows: "follows I q (queue_wait t targets q)"
  unfolding queue_wait_def by (rule queue_update_follows) simp

lemma queue_release_follows: "follows I q (queue_release t targets q)"
  unfolding queue_release_def by (rule queue_update_follows) simp

lemma dequeue_follows: "follows I q (dequeue t target q)"
  by (auto simp: dequeue_def intro!: queue_changed_follows split: option.split)

lemma enqueue_follows: "asker q target t = None \<Longrightarrow> follows I q (snd (enqueue t age target q))"
  by (auto simp: follows_def enqueue_says)

lemma hold_follows:
  assumes "t \<notin> I" "\<And>h. holder q target t = Some h \<Longrightarrow> qhAge h = age \<and> qhExpires h \<le> expires"
  shows "follows I q (snd (hold t age target mode expires q))"
  using assms by (auto simp: follows_def hold_says stronger_def)

lemma begin_follows: "follows I q (snd (queue_begin q))"
  by (simp add: follows_def)

section \<open>The invariant\<close>

definition asking :: "documentTransaction \<Rightarrow> mongoFenceTarget \<Rightarrow> bool" where
  "asking tx x \<longleftrightarrow> (case dtPhase tx of
     Idle \<Rightarrow> False
   | Deciding l queued \<Rightarrow> queued \<and> hlTarget l = x
   | Blocked l queued _ _ \<Rightarrow> queued \<and> hlTarget l = x
   | Waiting l queued _ _ \<Rightarrow> queued \<and> hlTarget l = x
   | Retaking l queued _ \<Rightarrow> queued \<and> hlTarget l = x
   | Taking l queued \<Rightarrow> queued \<and> hlTarget l = x
   | Returning l queued \<Rightarrow> queued \<and> hlTarget l = x)"

text \<open>While a channel is open, what a transaction was told to wait for is still there.\<close>

definition watched :: "mongoLockQueue \<Rightarrow> nat \<Rightarrow> 64 word \<Rightarrow> mongoHeldLock \<Rightarrow> nat \<Rightarrow> time \<Rightarrow> bool" where
  "watched q i age l c x \<longleftrightarrow> (c \<notin> set (lqClosed q) \<longrightarrow>
     channel q (hlTarget l) = Some c
     \<and> (\<forall>h. holder q (hlTarget l) i = Some h \<longrightarrow> \<not> hlMode l \<le> qhMode h)
     \<and> (\<exists>u. u \<noteq> i \<and>
         ((\<exists>h. holder q (hlTarget l) u = Some h \<and> \<not> (hlMode l = mongoLockShared \<and> qhMode h = mongoLockShared)
            \<and> \<not> (qhWaiting h \<and> age < qhAge h) \<and> x \<noteq> 0 \<and> x \<le> qhExpires h)
          \<or> hlMode l = mongoLockShared \<and> (\<exists>a. asker q (hlTarget l) u = Some a \<and> a < age))))"

definition phase_ok :: "mongoLockQueue \<Rightarrow> nat \<Rightarrow> documentTransaction \<Rightarrow> bool" where
  "phase_ok q i tx \<longleftrightarrow> (case dtPhase tx of
     Blocked l queued c x \<Rightarrow> watched q i (dtAge tx) l c x
   | Waiting l queued c x \<Rightarrow> watched q i (dtAge tx) l c x \<and> dtSuspended tx
   | Retaking l queued _ \<Rightarrow> \<not> dtSuspended tx
   | Taking l queued \<Rightarrow> \<not> dtSuspended tx
   | _ \<Rightarrow> True)"

definition holds_ok :: "mongoLockQueue \<Rightarrow> nat \<Rightarrow> documentTransaction \<Rightarrow> bool" where
  "holds_ok q i tx \<longleftrightarrow> (\<forall>x h. holder q x i = Some h \<longrightarrow> x \<in> set (dtQueueHolds tx) \<and> qhAge h = dtAge tx
     \<and> (dtSuspended tx \<longrightarrow> qhWaiting h) \<and> qhExpires h \<le> dtStarted tx + mongoStatementTimeLimit)"

definition asks_ok :: "mongoLockQueue \<Rightarrow> nat \<Rightarrow> documentTransaction \<Rightarrow> bool" where
  "asks_ok q i tx \<longleftrightarrow> (\<forall>x a. asker q x i = Some a \<longrightarrow> a = dtAge tx \<and> asking tx x)"

definition tx_ok :: "nat \<Rightarrow> time \<Rightarrow> mongoLockQueue \<Rightarrow> nat \<Rightarrow> documentTransaction \<Rightarrow> bool" where
  "tx_ok begun now q i tx \<longleftrightarrow> i < begun \<and> dtAge tx = of_nat (i + 1) \<and> dtStarted tx \<le> now
     \<and> phase_ok q i tx \<and> holds_ok q i tx \<and> asks_ok q i tx"

definition lock_ok :: "lock_system \<Rightarrow> bool" where
  "lock_ok s \<longleftrightarrow> queue_ok (lsQueue s) \<and> lqBegan (lsQueue s) = of_nat (lsBegun s) \<and> 0 \<le> lsNow s
     \<and> (\<forall>i tx. tx_at s i tx \<longrightarrow> tx_ok (lsBegun s) (lsNow s) (lsQueue s) i tx)
     \<and> (\<forall>x i. holder (lsQueue s) x i \<noteq> None \<or> asker (lsQueue s) x i \<noteq> None \<longrightarrow> mem_key (lsTransactions s) i)"

lemma watched_follows:
  assumes "watched q i age l c x" "follows I q q'" "i \<in> I"
  shows "watched q' i age l c x"
  unfolding watched_def
proof (intro impI)
  assume open': "c \<notin> set (lqClosed q')"
  then have "c \<notin> set (lqClosed q)" using assms(2) by (auto simp: follows_def)
  then have w: "channel q (hlTarget l) = Some c" "\<forall>h. holder q (hlTarget l) i = Some h \<longrightarrow> \<not> hlMode l \<le> qhMode h"
    and "\<exists>u. u \<noteq> i \<and> ((\<exists>h. holder q (hlTarget l) u = Some h \<and> \<not> (hlMode l = mongoLockShared \<and> qhMode h = mongoLockShared)
            \<and> \<not> (qhWaiting h \<and> age < qhAge h) \<and> x \<noteq> 0 \<and> x \<le> qhExpires h)
          \<or> hlMode l = mongoLockShared \<and> (\<exists>a. asker q (hlTarget l) u = Some a \<and> a < age))"
    using assms(1) unfolding watched_def by blast+
  then obtain u where u: "u \<noteq> i" "(\<exists>h. holder q (hlTarget l) u = Some h \<and> \<not> (hlMode l = mongoLockShared \<and> qhMode h = mongoLockShared)
            \<and> \<not> (qhWaiting h \<and> age < qhAge h) \<and> x \<noteq> 0 \<and> x \<le> qhExpires h)
          \<or> hlMode l = mongoLockShared \<and> (\<exists>a. asker q (hlTarget l) u = Some a \<and> a < age)" by blast
  note f = assms(2) [unfolded follows_def, THEN conjunct2, rule_format, OF w(1) open']
  have "(\<exists>h. holder q' (hlTarget l) u = Some h \<and> \<not> (hlMode l = mongoLockShared \<and> qhMode h = mongoLockShared)
            \<and> \<not> (qhWaiting h \<and> age < qhAge h) \<and> x \<noteq> 0 \<and> x \<le> qhExpires h)
          \<or> hlMode l = mongoLockShared \<and> (\<exists>a. asker q' (hlTarget l) u = Some a \<and> a < age)"
    using u(2)
  proof
    assume "\<exists>h. holder q (hlTarget l) u = Some h \<and> \<not> (hlMode l = mongoLockShared \<and> qhMode h = mongoLockShared)
            \<and> \<not> (qhWaiting h \<and> age < qhAge h) \<and> x \<noteq> 0 \<and> x \<le> qhExpires h"
    then obtain h where h: "holder q (hlTarget l) u = Some h" "\<not> (hlMode l = mongoLockShared \<and> qhMode h = mongoLockShared)"
      "\<not> (qhWaiting h \<and> age < qhAge h)" "x \<noteq> 0" "x \<le> qhExpires h" by blast
    obtain h' where h': "holder q' (hlTarget l) u = Some h'" "stronger h h'" using f h(1) by blast
    have "\<not> (hlMode l = mongoLockShared \<and> qhMode h' = mongoLockShared)" using h(2) h'(2) by (auto simp: stronger_def)
    moreover have "\<not> (qhWaiting h' \<and> age < qhAge h')" "x \<le> qhExpires h'" using h h'(2) by (auto simp: stronger_def)
    ultimately show ?thesis using h'(1) h(4) by blast
  qed (use f in blast)
  moreover have "\<forall>h. holder q' (hlTarget l) i = Some h \<longrightarrow> \<not> hlMode l \<le> qhMode h" using f w(2) assms(3) by metis
  ultimately show "channel q' (hlTarget l) = Some c
     \<and> (\<forall>h. holder q' (hlTarget l) i = Some h \<longrightarrow> \<not> hlMode l \<le> qhMode h)
     \<and> (\<exists>u. u \<noteq> i \<and>
         ((\<exists>h. holder q' (hlTarget l) u = Some h \<and> \<not> (hlMode l = mongoLockShared \<and> qhMode h = mongoLockShared)
            \<and> \<not> (qhWaiting h \<and> age < qhAge h) \<and> x \<noteq> 0 \<and> x \<le> qhExpires h)
          \<or> hlMode l = mongoLockShared \<and> (\<exists>a. asker q' (hlTarget l) u = Some a \<and> a < age)))"
    using f u(1) by blast
qed

text \<open>A step of one transaction: what the others hold and ask for stays.\<close>

definition acts :: "nat \<Rightarrow> mongoLockQueue \<Rightarrow> mongoLockQueue \<Rightarrow> bool" where
  "acts i q q' \<longleftrightarrow> queue_ok q' \<and> lqBegan q' = lqBegan q \<and> follows (- {i}) q q'
     \<and> (\<forall>x u. u \<noteq> i \<longrightarrow> holder q' x u = holder q x u \<and> asker q' x u = asker q x u)"

lemma acts_refl [simp]: "queue_ok q \<Longrightarrow> acts i q q"
  by (simp add: acts_def)

lemma acts_trans: "acts i q q1 \<Longrightarrow> acts i q1 q2 \<Longrightarrow> acts i q q2"
  unfolding acts_def using follows_trans by auto

lemma tx_ok_acts: "tx_ok begun now q u tx \<Longrightarrow> acts i q q' \<Longrightarrow> u \<noteq> i \<Longrightarrow> tx_ok begun now q' u tx"
  using watched_follows [of q u "dtAge tx" _ _ _ "- {i}" q']
  by (auto simp: tx_ok_def acts_def phase_ok_def holds_ok_def asks_ok_def split: wait_phase.splits)

lemma set_tx_ok:
  assumes ok: "lock_ok s" and a: "acts i (lsQueue s) q" and tx: "tx_ok (lsBegun s) (lsNow s) q i tx"
  shows "lock_ok (set_tx i s (tx, q))"
proof -
  have "tx_ok (lsBegun s) (lsNow s) q u tx'" if "tx_at s u tx'" "u \<noteq> i" for u tx'
    using tx_ok_acts [OF _ a that(2)] ok that(1) by (auto simp: lock_ok_def)
  moreover have "mem_key (lsTransactions s) u" if "holder q x u \<noteq> None \<or> asker q x u \<noteq> None" "u \<noteq> i" for x u
    using ok a that unfolding lock_ok_def acts_def by metis
  ultimately show ?thesis using ok a tx by (auto simp: lock_ok_def set_tx_def acts_def)
qed

lemma hold_acts:
  "queue_ok q \<Longrightarrow> (\<And>h. holder q target i = Some h \<Longrightarrow> qhAge h = age \<and> qhExpires h \<le> expires) \<Longrightarrow>
   acts i q (snd (hold i age target mode expires q))"
  by (simp add: acts_def hold_ok hold_follows hold_says)

lemma enqueue_acts: "queue_ok q \<Longrightarrow> asker q target i = None \<Longrightarrow> acts i q (snd (enqueue i age target q))"
  by (simp add: acts_def enqueue_ok enqueue_follows enqueue_says)

lemma dequeue_acts: "queue_ok q \<Longrightarrow> acts i q (dequeue i target q)"
  by (simp add: acts_def dequeue_ok dequeue_follows dequeue_says)

lemma queue_wait_acts: "queue_ok q \<Longrightarrow> acts i q (queue_wait i targets q)"
  by (simp add: acts_def queue_wait_ok queue_wait_follows queue_wait_says queue_wait_channel)

lemma queue_release_acts: "queue_ok q \<Longrightarrow> acts i q (queue_release i targets q)"
  by (simp add: acts_def queue_release_ok queue_release_follows queue_release_says queue_release_channel)

section \<open>The steps keep the invariant\<close>

lemma holds_ok_fields [simp]: "holds_ok q i (tx\<lparr>dtPhase := p\<rparr>) = holds_ok q i tx"
    "holds_ok q i (tx\<lparr>dtLocks := ls\<rparr>) = holds_ok q i tx" "holds_ok q i (tx\<lparr>dtWrote := w\<rparr>) = holds_ok q i tx"
  by (simp_all add: holds_ok_def)

lemma holds_known: "holds_ok q i tx \<Longrightarrow> x \<notin> set (dtQueueHolds tx) \<Longrightarrow> holder q x i = None"
  by (cases "holder q x i") (auto simp: holds_ok_def)

lemma suspend_says:
  assumes "queue_ok q" "holds_ok q i tx" "suspend i (tx, q) = (tx1, q1)"
  shows "acts i q q1" "follows UNIV q q1" "holds_ok q1 i tx1" "asker q1 = asker q"
    and "tx1 = tx\<lparr>dtSuspended := True, dtExclusive := dtExclusive tx1\<rparr>"
proof -
  have "acts i q q1 \<and> follows UNIV q q1 \<and> holds_ok q1 i tx1 \<and> asker q1 = asker q
      \<and> tx1 = tx\<lparr>dtSuspended := True, dtExclusive := dtExclusive tx1\<rparr>"
  proof (cases "dtSuspended tx")
    case False
    then have tx1: "tx1 = tx\<lparr>dtSuspended := True, dtExclusive := []\<rparr>"
      "q1 = (if dtQueueHolds tx \<noteq> [] then queue_wait i (dtQueueHolds tx) q else q)"
      using assms(3) by (auto simp: suspend_def)
    have "holds_ok q1 i tx1"
      using assms(2) tx1 holds_known [OF assms(2)] by (auto simp: holds_ok_def queue_wait_says split: if_splits)
    then show ?thesis using assms(1) tx1
      by (auto simp: queue_wait_acts queue_wait_follows queue_wait_says fun_eq_iff)
  qed (use assms in \<open>auto simp: suspend_def\<close>)
  then show "acts i q q1" "follows UNIV q q1" "holds_ok q1 i tx1" "asker q1 = asker q"
    "tx1 = tx\<lparr>dtSuspended := True, dtExclusive := dtExclusive tx1\<rparr>" by blast+
qed

definition holds_more :: "nat \<Rightarrow> documentTransaction \<times> mongoLockQueue \<Rightarrow> documentTransaction \<times> mongoLockQueue \<Rightarrow> bool" where
  "holds_more i = (\<lambda>(tx, q) (tx1, q1). acts i q q1 \<and> holds_ok q1 i tx1 \<and> asker q1 = asker q
     \<and> tx1 = tx\<lparr>dtExclusive := dtExclusive tx1, dtQueueHolds := dtQueueHolds tx1\<rparr>)"

lemma queueHold_says:
  assumes "queue_ok q" "holds_ok q i tx" "\<not> dtSuspended tx"
  shows "holds_more i (tx, q) (queueHold i target mode (tx, q))"
proof (cases "dtOperation tx")
  case True
  let ?h = "hold i (dtAge tx) target mode (dtStarted tx + mongoStatementTimeLimit) q"
  have "acts i q (snd ?h)" using assms(1,2) by (intro hold_acts) (auto simp: holds_ok_def)
  moreover have "holds_ok (snd ?h) i (if fst ?h then tx\<lparr>dtQueueHolds := dtQueueHolds tx @ [target]\<rparr> else tx)"
    using assms(2,3) unfolding holds_ok_def hold_says by (auto split: if_splits)
  moreover have "asker (snd ?h) = asker q" by (simp add: fun_eq_iff hold_says)
  ultimately show ?thesis using True by (auto simp: holds_more_def queueHold_def case_prod_beta)
qed (use assms in \<open>simp add: holds_more_def queueHold_def\<close>)

lemma holdExclusive_says:
  assumes "queue_ok q" "holds_ok q i tx" "\<not> dtSuspended tx"
  shows "holds_more i (tx, q) (holdExclusive i target (tx, q))"
  using queueHold_says [of q i "tx\<lparr>dtExclusive := List.insert target (dtExclusive tx)\<rparr>" target mongoLockExclusive] assms
  by (auto simp: holds_more_def holdExclusive_def holds_ok_def split: prod.splits)

lemma takeLock_says:
  assumes "queue_ok q" "holds_ok q i tx" "\<not> dtSuspended tx"
  shows "holds_more i (tx, q) (takeLock i lock (tx, q))"
  using queueHold_says [OF assms] holdExclusive_says [OF assms] assms
  by (auto simp: takeLock_def holds_more_def split: mongoLockMode.split)

lemma must_wait_watched:
  assumes "queue_ok q" "0 \<le> now" "turn i age (hlTarget l) (hlMode l) now q = Some (c, x)"
  shows "watched q i age l c x"
proof -
  note b = turn_blocked [OF assms(1,3,2)]
  from b(2) obtain u where u: "blocks q now i age (hlTarget l) (hlMode l) u" by blast
  then have "u \<noteq> i" by (auto simp: blocks_def passes_def)
  then show ?thesis using b(1,3,4) u unfolding watched_def blocks_def passes_def by (auto simp: not_less)
qed

lemma tx_ok_queue: "lock_ok s \<Longrightarrow> tx_at s i tx \<Longrightarrow> queue_ok (lsQueue s) \<and> tx_ok (lsBegun s) (lsNow s) (lsQueue s) i tx"
  by (simp add: lock_ok_def)

lemma lock_begin_ok:
  assumes ok: "lock_ok s"
  shows "lock_ok (lock_begin operation readOnly s)"
proof -
  let ?q = "snd (queue_begin (lsQueue s))"
  have "\<not> tx_at s (lsBegun s) tx" for tx using ok by (auto simp: lock_ok_def tx_ok_def)
  then have unknown: "\<not> mem_key (lsTransactions s) (lsBegun s)" by auto
  then have none: "holder (lsQueue s) x (lsBegun s) = None" "asker (lsQueue s) x (lsBegun s) = None" for x
    using ok unfolding lock_ok_def by blast+
  have "tx_ok (lsBegun s + 1) (lsNow s) ?q u tx" if "tx_at s u tx" for u tx
  proof -
    have "watched ?q u age l c x = watched (lsQueue s) u age l c x" for age l c x by (simp add: watched_def)
    then have "tx_ok (lsBegun s) (lsNow s) ?q u tx = tx_ok (lsBegun s) (lsNow s) (lsQueue s) u tx"
      by (simp add: tx_ok_def phase_ok_def holds_ok_def asks_ok_def cong: wait_phase.case_cong)
    then show ?thesis using tx_ok_queue [OF ok that] by (simp add: tx_ok_def)
  qed
  note old = this
  define new where "new = \<lparr>dtAge = fst (queue_begin (lsQueue s)), dtOperation = operation, dtReadOnly = readOnly, dtWrote = False,
    dtSuspended = False, dtStarted = lsNow s, dtLocks = [], dtExclusive = [], dtQueueHolds = [], dtPhase = Idle\<rparr>"
  have s': "lock_begin operation readOnly s
      = s\<lparr>lsQueue := ?q, lsBegun := lsBegun s + 1, lsTransactions := put (lsBegun s) new (lsTransactions s)\<rparr>"
    by (simp add: lock_begin_def case_prod_beta new_def)
  have began: "lqBegan (lsQueue s) = of_nat (lsBegun s)" using ok by (simp add: lock_ok_def)
  have "tx_ok (lsBegun s + 1) (lsNow s) ?q (lsBegun s) new"
    using began none by (simp add: new_def tx_ok_def phase_ok_def holds_ok_def asks_ok_def)
  moreover have "queue_ok ?q" using ok by (simp add: lock_ok_def queue_begin_ok)
  moreover have "\<forall>x u. holder (lsQueue s) x u \<noteq> None \<or> asker (lsQueue s) x u \<noteq> None \<longrightarrow> mem_key (lsTransactions s) u" "0 \<le> lsNow s"
    using ok unfolding lock_ok_def by blast+
  ultimately show ?thesis unfolding s' lock_ok_def using old began by (simp del: not_None_eq)
qed

lemma lock_end_ok:
  assumes ok: "lock_ok s" and tx: "tx_at s i tx" "dtPhase tx = Idle"
  shows "lock_ok (lock_end i tx s)"
proof -
  let ?q = "snd (releaseQueuedHolds i (tx, lsQueue s))"
  have t: "queue_ok (lsQueue s)" "tx_ok (lsBegun s) (lsNow s) (lsQueue s) i tx" using tx_ok_queue [OF ok tx(1)] by auto
  have a: "acts i (lsQueue s) ?q" using t(1) by (auto simp: releaseQueuedHolds_def queue_release_acts)
  have gone: "holder ?q x i = None" "asker ?q x i = None" for x
  proof -
    have "holder (lsQueue s) x i = None \<or> x \<in> set (dtQueueHolds tx)" "asker (lsQueue s) x i = None"
      using t(2) tx(2) holds_known by (auto simp: tx_ok_def asks_ok_def asking_def)
    then show "holder ?q x i = None" "asker ?q x i = None"
      by (auto simp: releaseQueuedHolds_def queue_release_says)
  qed
  have "tx_ok (lsBegun s) (lsNow s) ?q u tx'" if "tx_at s u tx'" "u \<noteq> i" for u tx'
    using tx_ok_acts [OF _ a that(2)] ok that(1) by (auto simp: lock_ok_def)
  moreover have "mem_key (lsTransactions s) u \<and> u \<noteq> i" if "holder ?q x u \<noteq> None \<or> asker ?q x u \<noteq> None" for x u
  proof -
    have u: "u \<noteq> i" using that gone [of x] by auto
    then have "holder (lsQueue s) x u \<noteq> None \<or> asker (lsQueue s) x u \<noteq> None" using a that by (simp add: acts_def)
    then show ?thesis using ok u unfolding lock_ok_def by blast
  qed
  moreover have "queue_ok ?q" "lqBegan ?q = of_nat (lsBegun s)" "0 \<le> lsNow s" using a ok by (simp_all add: acts_def lock_ok_def)
  ultimately show ?thesis unfolding lock_ok_def lock_end_def by simp
qed

lemma suspend_moves_ok:
  assumes ok: "lock_ok s" and tx: "tx_at s i tx"
    and watched: "\<And>l queued c x. phase \<in> {Blocked l queued c x, Waiting l queued c x} \<Longrightarrow>
      watched (lsQueue s) i (dtAge tx) l c x"
    and awake: "\<And>l queued todo. phase \<notin> {Retaking l queued todo, Taking l queued}"
    and same: "\<And>x. asking (tx\<lparr>dtPhase := phase\<rparr>) x = asking tx x"
  shows "lock_ok (set_tx i s (move phase (suspend i (tx, lsQueue s))))"
proof -
  obtain tx1 q1 where r: "suspend i (tx, lsQueue s) = (tx1, q1)" by fastforce
  have t: "queue_ok (lsQueue s)" "tx_ok (lsBegun s) (lsNow s) (lsQueue s) i tx" using tx_ok_queue [OF ok tx] by auto
  then have holds: "holds_ok (lsQueue s) i tx" by (simp add: tx_ok_def)
  note s = suspend_says [OF t(1) holds r]
  have same': "asking (tx1\<lparr>dtPhase := phase\<rparr>) x = asking tx x" for x
    using same [of x] by (subst s(5)) (simp add: asking_def)
  have "phase_ok q1 i (tx1\<lparr>dtPhase := phase\<rparr>)"
    using awake watched_follows [OF watched s(2)] arg_cong [OF s(5), of dtAge] arg_cong [OF s(5), of dtSuspended]
    by (auto simp: phase_ok_def split: wait_phase.split)
  then have "tx_ok (lsBegun s) (lsNow s) q1 i (tx1\<lparr>dtPhase := phase\<rparr>)"
    using t(2) s(3,4) same' arg_cong [OF s(5), of dtAge] arg_cong [OF s(5), of dtStarted]
    by (auto simp: tx_ok_def asks_ok_def)
  from set_tx_ok [OF ok s(1) this] show ?thesis by (simp add: r move_def)
qed

lemma takes_ok:
  assumes ok: "lock_ok s" and tx: "tx_at s i tx" "\<not> dtSuspended tx" and r: "takeLock i lock (tx, lsQueue s) = (tx1, q1)
      \<or> holdExclusive i target (tx, lsQueue s) = (tx1, q1)"
    and phase: "\<And>l queued c x. phase \<notin> {Blocked l queued c x, Waiting l queued c x}"
    and same: "\<And>x. asking (tx\<lparr>dtPhase := phase\<rparr>) x = asking tx x"
  shows "lock_ok (set_tx i s (move phase (tx1\<lparr>dtLocks := locks\<rparr>, q1)))"
proof -
  have t: "queue_ok (lsQueue s)" "tx_ok (lsBegun s) (lsNow s) (lsQueue s) i tx" using tx_ok_queue [OF ok tx(1)] by auto
  then have holds: "holds_ok (lsQueue s) i tx" by (simp add: tx_ok_def)
  have "holds_more i (tx, lsQueue s) (tx1, q1)"
    using r takeLock_says [OF t(1) holds tx(2), of lock] holdExclusive_says [OF t(1) holds tx(2), of target] by auto
  then have s: "acts i (lsQueue s) q1" "holds_ok q1 i tx1" "asker q1 = asker (lsQueue s)"
    "tx1 = tx\<lparr>dtExclusive := dtExclusive tx1, dtQueueHolds := dtQueueHolds tx1\<rparr>" by (auto simp: holds_more_def)
  let ?tx = "tx1\<lparr>dtLocks := locks, dtPhase := phase\<rparr>"
  have "asking ?tx x = asking tx x" for x
    using same [of x] by (subst s(4)) (simp add: asking_def)
  moreover have "phase_ok q1 i ?tx"
    using phase tx(2) arg_cong [OF s(4), of dtSuspended] by (auto simp: phase_ok_def split: wait_phase.split)
  ultimately have "tx_ok (lsBegun s) (lsNow s) q1 i ?tx"
    using t(2) s(2,3) arg_cong [OF s(4), of dtAge] arg_cong [OF s(4), of dtStarted]
    by (auto simp: tx_ok_def asks_ok_def)
  from set_tx_ok [OF ok s(1) this] show ?thesis by (simp add: move_def)
qed

lemma lock_step_ok: "lock_step s s' \<Longrightarrow> lock_ok s \<Longrightarrow> lock_ok s'"
proof (induction rule: lock_step.induct)
  case (time_passes s now)
  then show ?case by (auto simp: lock_ok_def tx_ok_def intro: order_trans)
next
  case (begins s operation readOnly)
  then show ?case by (rule lock_begin_ok)
next
  case (ends s i tx)
  then show ?case by (intro lock_end_ok)
next
  case (writes s i tx)
  from writes(5) tx_ok_queue [OF writes(5,1)] writes(2) show ?case
    by (intro set_tx_ok) (auto simp: tx_ok_def phase_ok_def holds_ok_def asks_ok_def asking_def)
next
  case (locks_for_write s i tx target)
  obtain tx1 q1 where r: "holdExclusive i target (tx, lsQueue s) = (tx1, q1)" by fastforce
  have "dtPhase tx1 = Idle"
    using r locks_for_write(2) by (auto simp: holdExclusive_def queueHold_def split: if_splits prod.splits)
  then have "set_tx i s (holdExclusive i target (tx, lsQueue s)) = set_tx i s (move Idle (tx1\<lparr>dtLocks := dtLocks tx1\<rparr>, q1))"
    using r by (cases tx1) (simp add: move_def)
  also have "lock_ok \<dots>" by (rule takes_ok) (use locks_for_write r in \<open>auto simp: asking_def\<close>)
  finally show ?case .
next
  case (requests s i tx lock)
  have t: "queue_ok (lsQueue s)" "tx_ok (lsBegun s) (lsNow s) (lsQueue s) i tx"
    using tx_ok_queue [OF requests(5,1)] by auto
  have none: "asker (lsQueue s) x i = None" for x
    using t(2) requests(2) by (auto simp: tx_ok_def asks_ok_def asking_def)
  let ?e = "enqueue i (dtAge tx) (hlTarget lock) (lsQueue s)"
  have "lock_ok (set_tx i s (tx\<lparr>dtPhase := Deciding lock (fst ?e)\<rparr>, snd ?e))"
  proof (rule set_tx_ok [OF requests(5) enqueue_acts [OF t(1) none]])
    show "tx_ok (lsBegun s) (lsNow s) (snd ?e) i (tx\<lparr>dtPhase := Deciding lock (fst ?e)\<rparr>)"
      using t(2) none by (auto simp: tx_ok_def phase_ok_def holds_ok_def asks_ok_def asking_def enqueue_says split: if_splits)
  qed
  moreover have "lock_ok (set_tx i s (tx\<lparr>dtPhase := Deciding lock False\<rparr>, lsQueue s))"
    by (rule set_tx_ok [OF requests(5) acts_refl [OF t(1)]])
      (use t(2) none in \<open>auto simp: tx_ok_def phase_ok_def holds_ok_def asks_ok_def asking_def\<close>)
  ultimately show ?case by (auto simp: request_lock_def case_prod_beta)
next
  case (must_wait s i tx lock queued changed expires)
  have t: "queue_ok (lsQueue s)" "tx_ok (lsBegun s) (lsNow s) (lsQueue s) i tx" "0 \<le> lsNow s"
    using tx_ok_queue [OF must_wait(5,1)] must_wait(5) by (auto simp: lock_ok_def)
  have "watched (lsQueue s) i (dtAge tx) lock changed expires"
    by (rule must_wait_watched [OF t(1,3)]) (use must_wait(4) in \<open>simp add: my_turn_def\<close>)
  then show ?case unfolding move_def prod.case using t must_wait(2)
    by (intro set_tx_ok [OF must_wait(5)]) (auto simp: tx_ok_def phase_ok_def holds_ok_def asks_ok_def asking_def)
next
  case (suspends s i tx lock queued changed expires)
  then have "watched (lsQueue s) i (dtAge tx) lock changed expires"
    using tx_ok_queue [of s i tx] by (auto simp: tx_ok_def phase_ok_def)
  then show ?case using suspends by (intro suspend_moves_ok) (auto simp: asking_def)
next
  case (wakes s i tx lock queued changed expires)
  from wakes(4) tx_ok_queue [OF wakes(4,1)] wakes(2) show ?case unfolding move_def prod.case
    by (intro set_tx_ok) (auto simp: tx_ok_def phase_ok_def holds_ok_def asks_ok_def asking_def)
next
  case (restarts s i tx lock queued)
  from restarts(5) tx_ok_queue [OF restarts(5,1)] restarts(2) show ?case unfolding move_def prod.case
    by (intro set_tx_ok) (fastforce simp: tx_ok_def phase_ok_def holds_ok_def asks_ok_def asking_def)+
next
  case (retakes s i tx lock queued held todo)
  obtain tx1 q1 where r: "takeLock i held (tx, lsQueue s) = (tx1, q1)" by fastforce
  have "\<not> dtSuspended tx" using tx_ok_queue [of s i tx] retakes by (auto simp: tx_ok_def phase_ok_def)
  then have "lock_ok (set_tx i s (move (Retaking lock queued todo) (tx1\<lparr>dtLocks := dtLocks tx1\<rparr>, q1)))"
    using retakes r by (intro takes_ok) (auto simp: asking_def)
  then show ?case using r by simp
next
  case (restarted s i tx lock queued)
  from restarted(3) tx_ok_queue [OF restarted(3,1)] restarted(2) show ?case unfolding move_def prod.case
    by (intro set_tx_ok) (auto simp: tx_ok_def phase_ok_def holds_ok_def asks_ok_def asking_def)
next
  case (proceeds s i tx lock queued)
  from proceeds(5) tx_ok_queue [OF proceeds(5,1)] proceeds(2,4) show ?case unfolding move_def prod.case
    by (intro set_tx_ok) (auto simp: tx_ok_def phase_ok_def holds_ok_def asks_ok_def asking_def)
next
  case (conflicts s i tx lock queued todo)
  then show ?case by (intro suspend_moves_ok) (auto simp: asking_def)
next
  case (takes s i tx lock queued tx1 q1)
  have "\<not> dtSuspended tx" using tx_ok_queue [of s i tx] takes by (auto simp: tx_ok_def phase_ok_def)
  then show ?case using takes by (intro takes_ok) (auto simp: asking_def)
next
  case (returns s i tx lock queued changed expires todo)
  have t: "queue_ok (lsQueue s)" "tx_ok (lsBegun s) (lsNow s) (lsQueue s) i tx"
    using tx_ok_queue [OF returns(3,1)] by auto
  let ?q = "if queued then dequeue i (hlTarget lock) (lsQueue s) else lsQueue s"
  have "acts i (lsQueue s) ?q" using t(1) by (simp add: dequeue_acts)
  moreover have "asker ?q x i = None" for x
  proof -
    have "asker (lsQueue s) x i = None \<or> queued \<and> hlTarget lock = x"
      using t(2) returns(2) by (cases "asker (lsQueue s) x i") (auto simp: tx_ok_def asks_ok_def asking_def)
    then show ?thesis by (auto simp: dequeue_says)
  qed
  moreover have "holds_ok ?q i tx" using t(2) by (simp add: tx_ok_def holds_ok_def dequeue_says)
  ultimately show ?case unfolding lock_return_def prod.case using t(2)
    by (intro set_tx_ok [OF returns(3)]) (auto simp: tx_ok_def phase_ok_def holds_ok_def asks_ok_def)
qed

lemma initial_system_ok: "lock_ok initial_system"
  by (simp add: lock_ok_def initial_system_def empty_queue_ok zero_time_def)
    (simp add: empty_queue_def holder_def asker_def)

lemma reachable_lock_ok: "lock_step\<^sup>*\<^sup>* initial_system s \<Longrightarrow> lock_ok s"
  by (induction rule: rtranclp_induct) (auto intro: initial_system_ok lock_step_ok)

section \<open>Properties\<close>

definition waits :: "lock_system \<Rightarrow> nat \<Rightarrow> bool" where
  "waits s i \<longleftrightarrow> (\<exists>tx l queued c x. tx_at s i tx \<and> dtPhase tx = Waiting l queued c x)"

definition waits_for :: "lock_system \<Rightarrow> nat \<Rightarrow> nat \<Rightarrow> bool" where
  "waits_for s i u \<longleftrightarrow> (\<exists>tx l queued c x. tx_at s i tx \<and> dtPhase tx = Waiting l queued c x
     \<and> blocks (lsQueue s) (lsNow s) i (dtAge tx) (hlTarget l) (hlMode l) u)"

lemma age_order: "i < n \<Longrightarrow> u < n \<Longrightarrow> n < 2 ^ 64 \<Longrightarrow> (of_nat (i + 1) :: 64 word) < of_nat (u + 1) \<longleftrightarrow> i < u"
  by (subst word_of_nat_less_iff) (simp add: take_bit_nat_eq_self)

lemma waits_for_older:
  assumes ok: "lock_ok s" and bound: "lsBegun s < 2 ^ 64" and w: "waits_for s i u" "waits s u"
  shows "u < i"
proof -
  obtain tx and l :: mongoHeldLock where tx: "tx_at s i tx"
    and b: "blocks (lsQueue s) (lsNow s) i (dtAge tx) (hlTarget l) (hlMode l) u" using w(1) by (auto simp: waits_for_def)
  obtain tx' l' queued' c' x' where tx': "tx_at s u tx'" "dtPhase tx' = Waiting l' queued' c' x'" using w(2) by (auto simp: waits_def)
  have t: "i < lsBegun s" "dtAge tx = of_nat (i + 1)" "u < lsBegun s" "dtAge tx' = of_nat (u + 1)"
    "holds_ok (lsQueue s) u tx'" "asks_ok (lsQueue s) u tx'" "dtSuspended tx'"
    using tx_ok_queue [OF ok tx] tx_ok_queue [OF ok tx'(1)] tx'(2) by (auto simp: tx_ok_def phase_ok_def)
  have "u \<noteq> i" using b by (auto simp: blocks_def passes_def)
  moreover have "\<not> dtAge tx < dtAge tx'" using b t(5-7)
    by (auto simp: blocks_def passes_def holds_ok_def asks_ok_def)
  ultimately show ?thesis using age_order [OF t(1,3) bound] t(2,4) by simp
qed

text \<open>C8. Transactions that wait for a document lock never wait for one another in a circle, and
  while any waits, one of them waits for running transactions alone; one that nobody blocks
  has its turn (before the 64-bit ages wrap around).\<close>

theorem lock_waiters_make_progress:
  assumes "lock_step\<^sup>*\<^sup>* initial_system s" and "lsBegun s < 2 ^ 64"
  shows "acyclicP (\<lambda>i u. waits_for s i u \<and> waits s u)
    \<and> (Collect (waits s) \<noteq> {} \<longrightarrow> (\<exists>i. waits s i \<and> (\<forall>u. waits_for s i u \<longrightarrow> \<not> waits s u)))
    \<and> (\<forall>i tx l queued c x. tx_at s i tx \<and> dtPhase tx = Waiting l queued c x \<and> (\<forall>u. \<not> waits_for s i u)
        \<longrightarrow> my_turn s i tx l = None)"
proof (intro conjI impI allI)
  have ok: "lock_ok s" using reachable_lock_ok [OF assms(1)] .
  note older = waits_for_older [OF ok assms(2)]
  show "acyclicP (\<lambda>i u. waits_for s i u \<and> waits s u)"
  proof (rule acyclic_subset)
    have "{(i, u :: nat). u < i} = {(u, i). u < i}\<inverse>" by auto
    then show "acyclic {(i, u :: nat). u < i}" using wf_acyclic [OF wf_less] by (simp only: acyclic_converse)
  qed (use older in auto)
  show "\<exists>i. waits s i \<and> (\<forall>u. waits_for s i u \<longrightarrow> \<not> waits s u)" if "Collect (waits s) \<noteq> {}"
  proof -
    have "waits s (LEAST i. waits s i)" using that by (auto intro: LeastI)
    moreover have "\<not> waits s u" if "waits_for s (LEAST i. waits s i) u" for u
      using older [OF that] not_less_Least by blast
    ultimately show ?thesis by blast
  qed
  fix i tx l queued c x
  assume w: "tx_at s i tx \<and> dtPhase tx = Waiting l queued c x \<and> (\<forall>u. \<not> waits_for s i u)"
  show "my_turn s i tx l = None"
  proof (rule ccontr)
    assume "my_turn s i tx l \<noteq> None"
    then obtain c' x' where "turn i (dtAge tx) (hlTarget l) (hlMode l) (lsNow s) (lsQueue s) = Some (c', x')"
      by (auto simp: my_turn_def)
    from turn_blocked(2) [OF _ this] ok w show False by (auto simp: lock_ok_def waits_for_def)
  qed
qed

text \<open>C9. A transaction that waits for a lock whose turn has come is woken: the channel it waits
  on is closed, or the expiry it waits for has passed, and it may go on.\<close>

theorem no_lock_wakeup_is_lost:
  assumes "lock_step\<^sup>*\<^sup>* initial_system s"
    and "tx_at s i tx" "dtPhase tx = Waiting l queued c x" "my_turn s i tx l = None"
  shows "(c \<in> set (lqClosed (lsQueue s)) \<or> \<not> time_IsZero x \<and> x \<le> lsNow s)
    \<and> (\<exists>s'. lock_step s s' \<and> map_option dtPhase (map_of (lsTransactions s') i) = Some (Deciding l queued))"
proof -
  have t: "queue_ok (lsQueue s)" "watched (lsQueue s) i (dtAge tx) l c x"
    using tx_ok_queue [OF reachable_lock_ok [OF assms(1)] assms(2)] assms(3) by (auto simp: tx_ok_def phase_ok_def)
  have wake: "c \<in> set (lqClosed (lsQueue s)) \<or> \<not> time_IsZero x \<and> x \<le> lsNow s"
  proof (rule disjCI)
    assume waiting: "\<not> (\<not> time_IsZero x \<and> x \<le> lsNow s)"
    show "c \<in> set (lqClosed (lsQueue s))"
    proof (rule ccontr)
      assume "c \<notin> set (lqClosed (lsQueue s))"
      with t(2) have w: "channel (lsQueue s) (hlTarget l) = Some c"
        "\<forall>h. holder (lsQueue s) (hlTarget l) i = Some h \<longrightarrow> \<not> hlMode l \<le> qhMode h"
        "\<exists>u. blocks (lsQueue s) (lsNow s) i (dtAge tx) (hlTarget l) (hlMode l) u"
        using waiting unfolding watched_def blocks_def passes_def time_IsZero_def zero_time_def by (blast, blast, fastforce)
      then show False using turn_ready [OF t(1) assms(4) [unfolded my_turn_def]] by (metis option.distinct(1))
    qed
  qed
  moreover have "lock_step s (set_tx i s (move (Deciding l queued) (tx, lsQueue s)))"
    by (rule wakes [OF assms(2,3) wake])
  ultimately show ?thesis by (auto simp: set_tx_def move_def intro!: exI)
qed

text \<open>A transaction holds a document exclusively, and a younger one asks for it.\<close>

definition sample_target :: mongoFenceTarget where
  "sample_target = \<lparr>ftCollection = ''pages'', ftDocument = ''home''\<rparr>"

definition sample_lock :: mongoHeldLock where
  "sample_lock = \<lparr>hlMode = mongoLockExclusive, hlTarget = sample_target\<rparr>"

definition sample_tx :: "nat \<Rightarrow> lock_system \<Rightarrow> documentTransaction" where
  "sample_tx i s = the (map_of (lsTransactions s) i)"

definition sample_begun :: lock_system where
  "sample_begun = lock_begin True False (lock_begin True False initial_system)"

definition sample_act ::
  "nat \<Rightarrow> (documentTransaction \<times> mongoLockQueue \<Rightarrow> documentTransaction \<times> mongoLockQueue) \<Rightarrow> lock_system \<Rightarrow> lock_system" where
  "sample_act i f s = set_tx i s (f (sample_tx i s, lsQueue s))"

definition sample_held :: lock_system where
  "sample_held = sample_act 0 (\<lambda>(tx, q). case takeLock 0 sample_lock (tx, q) of
       (tx1, q1) \<Rightarrow> move (Returning sample_lock True) (tx1\<lparr>dtLocks := dtLocks tx1 @ [sample_lock]\<rparr>, q1))
     (sample_act 0 (move (Taking sample_lock True)) (sample_act 0 (request_lock 0 sample_lock) sample_begun))"

definition sample_blocked :: lock_system where
  "sample_blocked = sample_act 1 (move (Blocked sample_lock True 0 mongoStatementTimeLimit))
     (sample_act 1 (request_lock 1 sample_lock) sample_held)"

definition sample_waiting :: lock_system where
  "sample_waiting = sample_act 1 (\<lambda>(tx, q). move (Waiting sample_lock True 0 mongoStatementTimeLimit) (suspend 1 (tx, q))) sample_blocked"

definition sample_ended :: lock_system where
  "sample_ended = (let s = sample_act 0 (lock_return 0 sample_lock True) sample_waiting in lock_end 0 (sample_tx 0 s) s)"

lemmas sample_defs = sample_target_def sample_lock_def sample_tx_def sample_begun_def sample_act_def sample_held_def
  sample_blocked_def sample_waiting_def sample_ended_def lock_begin_def lock_end_def initial_system_def empty_queue_def
  queue_begin_def set_tx_def move_def request_lock_def lock_return_def takeLock_def holdExclusive_def queueHold_def
  releaseQueuedHolds_def suspend_def canRestart_def my_turn_def hold_def enqueue_def dequeue_def queue_entry_def
  store_entry_def queue_changed_def mongoLockQueueEntries_def mongoStatementTimeLimit_def zero_time_def duration_defs

lemmas sample_simps = sample_defs Let_def put_def del_def queue_wait_def queue_release_def queue_update_def queue_update_target_def

lemma sample_step: "lock_step\<^sup>*\<^sup>* initial_system s \<Longrightarrow> lock_step s s' \<Longrightarrow> lock_step\<^sup>*\<^sup>* initial_system s'"
  by simp

lemma sample_begun_reached: "lock_step\<^sup>*\<^sup>* initial_system sample_begun"
  unfolding sample_begun_def by (intro sample_step [OF _ begins] rtranclp.rtrancl_refl)

lemma sample_held_reached: "lock_step\<^sup>*\<^sup>* initial_system sample_held"
proof -
  let ?s1 = "sample_act 0 (request_lock 0 sample_lock) sample_begun"
  let ?s2 = "sample_act 0 (move (Taking sample_lock True)) ?s1"
  have "lock_step sample_begun ?s1" unfolding sample_act_def
    by (rule requests) (simp_all add: sample_simps)
  moreover have "lock_step ?s1 ?s2" unfolding sample_act_def [of 0 "move (Taking sample_lock True)"]
    by (rule proceeds) (simp_all add: sample_simps turn_def)
  moreover have "lock_step ?s2 sample_held"
  proof -
    obtain tx1 q1 where r: "takeLock 0 sample_lock (sample_tx 0 ?s2, lsQueue ?s2) = (tx1, q1)" by fastforce
    have "tx_at ?s2 0 (sample_tx 0 ?s2)" "dtPhase (sample_tx 0 ?s2) = Taking sample_lock True"
      by (simp_all add: sample_simps)
    from takes [OF this r] show ?thesis by (simp add: sample_held_def sample_act_def [of 0 _ ?s2] r)
  qed
  ultimately show ?thesis using sample_begun_reached by (meson sample_step)
qed

lemma sample_waiting_reached: "lock_step\<^sup>*\<^sup>* initial_system sample_waiting"
proof -
  let ?s1 = "sample_act 1 (request_lock 1 sample_lock) sample_held"
  have "lock_step sample_held ?s1" unfolding sample_act_def
    by (rule requests) (simp_all add: sample_simps)
  moreover have "lock_step ?s1 sample_blocked" unfolding sample_blocked_def sample_act_def [of 1 "move _"]
    by (rule must_wait) (simp_all add: sample_simps turn_def passes_def time_IsZero_def)
  moreover have "lock_step sample_blocked sample_waiting" unfolding sample_waiting_def sample_act_def [of 1] prod.case
    by (rule suspends) (simp_all add: sample_simps)
  ultimately show ?thesis using sample_held_reached by (meson sample_step)
qed

lemma sample_ended_reached: "lock_step\<^sup>*\<^sup>* initial_system sample_ended"
proof -
  let ?s1 = "sample_act 0 (lock_return 0 sample_lock True) sample_waiting"
  have "lock_step sample_waiting ?s1" unfolding sample_act_def
    by (rule returns) (simp_all add: sample_simps)
  moreover have "lock_step ?s1 sample_ended" unfolding sample_ended_def Let_def
    by (rule ends) (simp_all add: sample_simps)
  ultimately show ?thesis using sample_waiting_reached by (meson sample_step)
qed

theorem lock_waiters_make_progress_witness:
  "Collect (waits sample_waiting) \<noteq> {} \<and> (\<exists>i. waits sample_waiting i \<and> (\<forall>u. waits_for sample_waiting i u \<longrightarrow> \<not> waits sample_waiting u))"
proof -
  have "waits sample_waiting 1"
    unfolding waits_def by (rule exI [of _ "sample_tx 1 sample_waiting"]) (auto simp: sample_simps)
  moreover have "lsBegun sample_waiting < 2 ^ 64" by (simp add: sample_simps)
  ultimately show ?thesis using lock_waiters_make_progress [OF sample_waiting_reached] by blast
qed

theorem no_lock_wakeup_is_lost_witness:
  "0 \<in> set (lqClosed (lsQueue sample_ended)) \<or> \<not> time_IsZero mongoStatementTimeLimit \<and> mongoStatementTimeLimit \<le> lsNow sample_ended"
  by (rule no_lock_wakeup_is_lost [OF sample_ended_reached, of 1 "sample_tx 1 sample_ended" sample_lock True, THEN conjunct1])
    (simp_all add: sample_simps turn_def)

end
