(* ===== verification/Json_Limit.thy ===== *)
theory Json_Limit
  imports Prelude
begin

text \<open>
  The structural check of untrusted JSON (\<open>internal/jsonlimit/jsonlimit.go\<close>). The tokens that
  \<open>json.Decoder\<close> delivers are the input: a delimiter, a string, another scalar, or \<^const>\<open>None\<close>
  for a syntax error; the list ends where the decoder reports \<open>io.EOF\<close>.
\<close>

section \<open>The validator\<close>

datatype json_token = Delim char | StringToken string | ScalarToken

datatype limit_error =
  InvalidJSON | ErrTooManyTokens | MultipleValues | ErrTooDeep | UnmatchedDelimiter | MismatchedDelimiters
| KeyNotString | ErrDuplicateKey string | IncompleteValue | NotOneValue

definition DefaultMaxDepth :: int where "DefaultMaxDepth = 128"
definition DefaultMaxTokens :: int where "DefaultMaxTokens = 100000"

record limit_frame =
  frKind :: char
  frExpectKey :: bool
  frKeys :: "string list"

text \<open>The stack's top is the head of the list.\<close>

record limit_state =
  lmStack :: "limit_frame list"
  lmTokens :: int
  lmRoots :: int
  lmRootInProgress :: bool

definition completeValue :: "limit_state \<Rightarrow> limit_state" where
  "completeValue st =
     (case lmStack st of
        [] \<Rightarrow> st\<lparr>lmRoots := lmRoots st + 1, lmRootInProgress := False\<rparr>
      | parent # below \<Rightarrow>
          if frKind parent = CHR ''{'' then st\<lparr>lmStack := parent\<lparr>frExpectKey := True\<rparr> # below\<rparr> else st)"

definition limit_open :: "int \<Rightarrow> char \<Rightarrow> limit_state \<Rightarrow> limit_error + limit_state" where
  "limit_open maxDepth delimiter st =
     (if lmStack st = [] \<and> (lmRootInProgress st \<or> lmRoots st \<noteq> 0) then Inl MultipleValues
      else let entry = \<lparr>frKind = delimiter, frExpectKey = (delimiter = CHR ''{''), frKeys = []\<rparr>;
               st1 = st\<lparr>lmStack := entry # lmStack st, lmRootInProgress := lmStack st = [] \<or> lmRootInProgress st\<rparr>
           in if int (length (lmStack st1)) > maxDepth then Inl ErrTooDeep else Inr st1)"

definition limit_close :: "char \<Rightarrow> limit_state \<Rightarrow> limit_error + limit_state" where
  "limit_close delimiter st =
     (case lmStack st of
        [] \<Rightarrow> Inl UnmatchedDelimiter
      | current # below \<Rightarrow>
          if frKind current = CHR ''{'' \<and> delimiter \<noteq> CHR ''}'' \<or> frKind current = CHR ''['' \<and> delimiter \<noteq> CHR '']''
          then Inl MismatchedDelimiters
          else Inr (completeValue (st\<lparr>lmStack := below\<rparr>)))"

definition limit_scalar :: "json_token \<Rightarrow> limit_state \<Rightarrow> limit_error + limit_state" where
  "limit_scalar token st =
     (case lmStack st of
        [] \<Rightarrow> if lmRootInProgress st \<or> lmRoots st \<noteq> 0 then Inl MultipleValues
              else Inr (completeValue (st\<lparr>lmRootInProgress := True\<rparr>))
      | current # below \<Rightarrow>
          if frKind current = CHR ''{'' \<and> frExpectKey current
          then case token of
                 StringToken key \<Rightarrow>
                   if key \<in> set (frKeys current) then Inl (ErrDuplicateKey key)
                   else Inr (st\<lparr>lmStack := current\<lparr>frKeys := key # frKeys current, frExpectKey := False\<rparr> # below\<rparr>)
               | _ \<Rightarrow> Inl KeyNotString
          else Inr (completeValue st))"

definition limit_token :: "int \<Rightarrow> int \<Rightarrow> json_token \<Rightarrow> limit_state \<Rightarrow> limit_error + limit_state" where
  "limit_token maxDepth maxTokens token st =
     (let st1 = st\<lparr>lmTokens := lmTokens st + 1\<rparr>
      in if lmTokens st1 > maxTokens then Inl ErrTooManyTokens
         else case token of
           Delim c \<Rightarrow>
             if c = CHR ''{'' \<or> c = CHR ''['' then limit_open maxDepth c st1
             else if c = CHR ''}'' \<or> c = CHR '']'' then limit_close c st1
             else Inr st1
         | _ \<Rightarrow> limit_scalar token st1)"

fun limit_loop :: "int \<Rightarrow> int \<Rightarrow> json_token option list \<Rightarrow> limit_state \<Rightarrow> limit_error + limit_state" where
  "limit_loop maxDepth maxTokens [] st = Inr st"
| "limit_loop maxDepth maxTokens (None # tokens) st = Inl InvalidJSON"
| "limit_loop maxDepth maxTokens (Some token # tokens) st =
     (case limit_token maxDepth maxTokens token st of
        Inl e \<Rightarrow> Inl e
      | Inr st1 \<Rightarrow> limit_loop maxDepth maxTokens tokens st1)"

definition empty_limit_state :: limit_state where
  "empty_limit_state = \<lparr>lmStack = [], lmTokens = 0, lmRoots = 0, lmRootInProgress = False\<rparr>"

definition json_limit_Validate :: "json_token option list \<Rightarrow> int \<Rightarrow> int \<Rightarrow> limit_error option" where
  "json_limit_Validate tokens maxDepth0 maxTokens0 =
     (let maxDepth = (if maxDepth0 \<le> 0 then DefaultMaxDepth else maxDepth0);
          maxTokens = (if maxTokens0 \<le> 0 then DefaultMaxTokens else maxTokens0)
      in case limit_loop maxDepth maxTokens tokens empty_limit_state of
           Inl e \<Rightarrow> Some e
         | Inr st \<Rightarrow>
             if lmStack st \<noteq> [] \<or> lmRootInProgress st then Some IncompleteValue
             else if lmRoots st \<noteq> 1 then Some NotOneValue
             else None)"

section \<open>Values and their tokens\<close>

datatype json_tree = JScalar | JString string | JArray "json_tree list" | JObject "(string \<times> json_tree) list"

fun tokens_of :: "json_tree \<Rightarrow> json_token list" where
  "tokens_of JScalar = [ScalarToken]"
| "tokens_of (JString s) = [StringToken s]"
| "tokens_of (JArray js) = Delim CHR ''['' # concat (map tokens_of js) @ [Delim CHR '']'']"
| "tokens_of (JObject ms) = Delim CHR ''{'' # concat (map (\<lambda>(k, j). StringToken k # tokens_of j) ms) @ [Delim CHR ''}'']"

fun nesting :: "json_tree \<Rightarrow> nat" where
  "nesting (JArray js) = 1 + fold max (map nesting js) 0"
| "nesting (JObject ms) = 1 + fold max (map (\<lambda>(k, j). nesting j) ms) 0"
| "nesting _ = 0"

fun unique_keys :: "json_tree \<Rightarrow> bool" where
  "unique_keys (JArray js) \<longleftrightarrow> (\<forall>j\<in>set js. unique_keys j)"
| "unique_keys (JObject ms) \<longleftrightarrow> distinct (map fst ms) \<and> (\<forall>(k, j)\<in>set ms. unique_keys j)"
| "unique_keys _ \<longleftrightarrow> True"

lemma fold_max_le: "fold max ns (a::nat) \<le> d \<longleftrightarrow> a \<le> d \<and> (\<forall>n\<in>set ns. n \<le> d)"
  by (induction ns arbitrary: a) auto

section \<open>What the validator does with a value\<close>

text \<open>A state in which a value may begin.\<close>

definition awaits_value :: "limit_state \<Rightarrow> bool" where
  "awaits_value st \<longleftrightarrow> (case lmStack st of
     [] \<Rightarrow> \<not> lmRootInProgress st \<and> lmRoots st = 0
   | f # _ \<Rightarrow> frKind f = CHR ''['' \<or> frKind f = CHR ''{'' \<and> \<not> frExpectKey f)"

text \<open>The state after a value of so many tokens.\<close>

definition after_value :: "int \<Rightarrow> limit_state \<Rightarrow> limit_state" where
  "after_value n st = completeValue (st\<lparr>lmTokens := lmTokens st + n\<rparr>)"

definition fits :: "int \<Rightarrow> int \<Rightarrow> limit_state \<Rightarrow> json_tree \<Rightarrow> bool" where
  "fits d t st j \<longleftrightarrow> (nesting j = 0 \<or> int (nesting j) + int (length (lmStack st)) \<le> d)
     \<and> lmTokens st + int (length (tokens_of j)) \<le> t \<and> unique_keys j"

abbreviation run :: "int \<Rightarrow> int \<Rightarrow> json_token list \<Rightarrow> limit_state \<Rightarrow> limit_error + limit_state" where
  "run d t ts st \<equiv> limit_loop d t (map Some ts) st"

lemma run_append: "run d t (ts @ us) st = (case run d t ts st of Inl e \<Rightarrow> Inl e | Inr st1 \<Rightarrow> run d t us st1)"
  by (induction ts arbitrary: st) (auto split: sum.split)

lemma completeValue_tokens [simp]: "lmTokens (completeValue st) = lmTokens st"
  by (auto simp: completeValue_def split: list.split)

lemma completeValue_length [simp]: "length (lmStack (completeValue st)) = length (lmStack st)"
  by (auto simp: completeValue_def split: list.split)

lemma completeValue_Nil [simp]: "lmStack (completeValue st) = [] \<longleftrightarrow> lmStack st = []"
  by (metis completeValue_length length_0_conv)

lemma after_after [simp]: "lmTokens (after_value n st) = lmTokens st + n"
  by (simp add: after_value_def)

lemma limit_token_over: "lmTokens st + 1 > t \<Longrightarrow> limit_token d t tok st = Inl ErrTooManyTokens"
  by (simp add: limit_token_def Let_def)

lemma scalar_value:
  assumes "awaits_value st" "lmTokens st + 1 \<le> t" "\<And>c. tok \<noteq> Delim c"
  shows "limit_token d t tok st = Inr (after_value 1 st)"
proof -
  have "limit_token d t tok st = limit_scalar tok (st\<lparr>lmTokens := lmTokens st + 1\<rparr>)"
    using assms(2,3) by (cases tok) (auto simp: limit_token_def Let_def)
  also have "\<dots> = Inr (after_value 1 st)"
    using assms(1) by (cases "lmStack st") (auto simp: limit_scalar_def awaits_value_def after_value_def completeValue_def)
  finally show ?thesis .
qed

text \<open>The state inside a container that was opened in the state \<open>st\<close>.\<close>

definition inside :: "limit_state \<Rightarrow> char \<Rightarrow> bool \<Rightarrow> string list \<Rightarrow> int \<Rightarrow> limit_state" where
  "inside st c expect keys n = st\<lparr>lmTokens := lmTokens st + n,
     lmStack := \<lparr>frKind = c, frExpectKey = expect, frKeys = keys\<rparr> # lmStack st,
     lmRootInProgress := lmStack st = [] \<or> lmRootInProgress st\<rparr>"

lemma inside_simps [simp]: "lmTokens (inside st c e ks n) = lmTokens st + n"
    "lmStack (inside st c e ks n) = \<lparr>frKind = c, frExpectKey = e, frKeys = ks\<rparr> # lmStack st"
  by (simp_all add: inside_def)

lemma open_value:
  assumes "awaits_value st" "c = CHR ''{'' \<or> c = CHR ''[''"
  shows "limit_token d t (Delim c) st =
    (if lmTokens st + 1 > t then Inl ErrTooManyTokens
     else if int (length (lmStack st)) + 1 > d then Inl ErrTooDeep
     else Inr (inside st c (c = CHR ''{'') [] 1))"
  using assms by (cases "lmStack st") (auto simp: limit_token_def limit_open_def Let_def awaits_value_def inside_def)

lemma close_value:
  assumes "lmTokens st + n + 1 \<le> t" "awaits_value st"
  shows "limit_token d t (Delim CHR '']'') (inside st CHR ''['' e ks n) = Inr (after_value (n + 1) st)"
    and "limit_token d t (Delim CHR ''}'') (inside st CHR ''{'' e ks n) = Inr (after_value (n + 1) st)"
  using assms by (cases "lmStack st"; auto simp: limit_token_def limit_close_def Let_def inside_def after_value_def
      completeValue_def awaits_value_def)+

lemma key_token:
  assumes "lmTokens st + n + 1 \<le> t"
  shows "limit_token d t (StringToken k) (inside st CHR ''{'' True ks n) =
    (if k \<in> set ks then Inl (ErrDuplicateKey k) else Inr (inside st CHR ''{'' False (k # ks) (n + 1)))"
  using assms by (simp add: limit_token_def limit_scalar_def Let_def inside_def)

lemma after_inside:
  "after_value m (inside st CHR ''['' e ks n) = inside st CHR ''['' e ks (n + m)"
  "after_value m (inside st CHR ''{'' e ks n) = inside st CHR ''{'' True ks (n + m)"
  by (simp_all add: after_value_def completeValue_def inside_def)

lemma awaits_inside [simp]: "awaits_value (inside st CHR ''['' e ks n)" "awaits_value (inside st CHR ''{'' False ks n)"
  by (simp_all add: awaits_value_def)

text \<open>A value that fits is passed, any other is an error.\<close>

definition passed :: "int \<Rightarrow> int \<Rightarrow> limit_state \<Rightarrow> json_tree \<Rightarrow> bool" where
  "passed d t st j \<longleftrightarrow> (if fits d t st j then run d t (tokens_of j) st = Inr (after_value (int (length (tokens_of j))) st)
     else isl (run d t (tokens_of j) st))"

lemma passedD: "passed d t st j \<Longrightarrow> run d t (tokens_of j @ ts) st =
    (if fits d t st j then run d t ts (after_value (int (length (tokens_of j))) st) else run d t (tokens_of j) st)"
  unfolding run_append by (auto simp: passed_def isl_def)

lemma items_pass:
  assumes "\<And>j st. j \<in> set js \<Longrightarrow> awaits_value st \<Longrightarrow> passed d t st j" "awaits_value st"
    "int (length (lmStack st)) + 1 \<le> d" "lmTokens st + n \<le> t"
  shows "let r = run d t (concat (map tokens_of js)) (inside st CHR ''['' False [] n) in
    if (\<forall>j\<in>set js. nesting j = 0 \<or> int (nesting j) + 1 + int (length (lmStack st)) \<le> d)
       \<and> lmTokens st + n + int (length (concat (map tokens_of js))) \<le> t \<and> (\<forall>j\<in>set js. unique_keys j)
    then r = Inr (inside st CHR ''['' False [] (n + int (length (concat (map tokens_of js))))) else isl r"
  using assms
proof (induction js arbitrary: n)
  case (Cons j js)
  let ?st = "inside st CHR ''['' False [] n"
  have p: "passed d t ?st j" using Cons.prems(1) by simp
  show ?case
  proof (cases "fits d t ?st j")
    case True
    have len: "lmTokens st + (n + int (length (tokens_of j))) \<le> t" using True by (simp add: fits_def)
    have "run d t (concat (map tokens_of (j # js))) ?st
        = run d t (concat (map tokens_of js)) (inside st CHR ''['' False [] (n + int (length (tokens_of j))))"
      using passedD [OF p] True by (simp add: after_inside del: map_append)
    then show ?thesis using Cons.IH [OF Cons.prems(1,2,3) len] True
      by (auto simp: Let_def fits_def add_ac split: if_splits)
  next
    case False
    then have "isl (run d t (concat (map tokens_of (j # js))) ?st)"
      using passedD [OF p] p by (simp add: passed_def del: map_append)
    moreover have "\<not> ((\<forall>j\<in>set (j # js). nesting j = 0 \<or> int (nesting j) + 1 + int (length (lmStack st)) \<le> d)
       \<and> lmTokens st + n + int (length (concat (map tokens_of (j # js)))) \<le> t \<and> (\<forall>j\<in>set (j # js). unique_keys j))"
      using False by (auto simp: fits_def)
    ultimately show ?thesis by (simp only: Let_def if_False)
  qed
qed (simp add: Let_def)

definition member_tokens :: "(string \<times> json_tree) list \<Rightarrow> json_token list" where
  "member_tokens ms = concat (map (\<lambda>(k, j). StringToken k # tokens_of j) ms)"

lemma member_tokens_simps [simp]: "member_tokens [] = []"
    "member_tokens ((k, j) # ms) = StringToken k # tokens_of j @ member_tokens ms"
  by (simp_all add: member_tokens_def)

lemma members_pass:
  assumes "\<And>k j st. (k, j) \<in> set ms \<Longrightarrow> awaits_value st \<Longrightarrow> passed d t st j" "awaits_value st"
    "int (length (lmStack st)) + 1 \<le> d" "lmTokens st + n \<le> t" "distinct ks"
  shows "let r = run d t (member_tokens ms) (inside st CHR ''{'' True ks n) in
    if (\<forall>(k, j)\<in>set ms. nesting j = 0 \<or> int (nesting j) + 1 + int (length (lmStack st)) \<le> d)
       \<and> lmTokens st + n + int (length (member_tokens ms)) \<le> t \<and> (\<forall>(k, j)\<in>set ms. unique_keys j)
       \<and> distinct (map fst ms) \<and> set (map fst ms) \<inter> set ks = {}
    then \<exists>ks'. r = Inr (inside st CHR ''{'' True ks' (n + int (length (member_tokens ms)))) else isl r"
  using assms
proof (induction ms arbitrary: n ks)
  case (Cons m ms)
  obtain k j where m: "m = (k, j)" by (cases m)
  show ?case
  proof (cases "lmTokens st + n + 1 \<le> t \<and> k \<notin> set ks")
    case False
    then have "isl (run d t (member_tokens (m # ms)) (inside st CHR ''{'' True ks n))"
      using key_token [of st n t d k ks] limit_token_over [of t "inside st CHR ''{'' True ks n" d "StringToken k"] m
      by (cases "lmTokens st + n + 1 \<le> t") (simp_all add: isl_def)
    moreover have "\<not> (lmTokens st + n + int (length (member_tokens (m # ms))) \<le> t \<and> set (map fst (m # ms)) \<inter> set ks = {})"
      using False m by auto
    ultimately show ?thesis by (auto simp: Let_def)
  next
    case key: True
    let ?st = "inside st CHR ''{'' False (k # ks) (n + 1)"
    have start: "run d t (member_tokens (m # ms)) (inside st CHR ''{'' True ks n) = run d t (tokens_of j @ member_tokens ms) ?st"
      using key_token [of st n t d k ks] key m by simp
    have p: "passed d t ?st j" using Cons.prems(1) [of k j ?st] m by simp
    show ?thesis
    proof (cases "fits d t ?st j")
      case True
      have step: "run d t (member_tokens (m # ms)) (inside st CHR ''{'' True ks n)
          = run d t (member_tokens ms) (inside st CHR ''{'' True (k # ks) (n + 1 + int (length (tokens_of j))))"
        unfolding start using passedD [OF p] True by (simp add: after_inside)
      have "\<And>k j st. (k, j) \<in> set ms \<Longrightarrow> awaits_value st \<Longrightarrow> passed d t st j" using Cons.prems(1) by (meson list.set_intros(2))
      moreover have len: "lmTokens st + (n + 1 + int (length (tokens_of j))) \<le> t" using True by (simp add: fits_def)
      moreover have "distinct (k # ks)" using key Cons.prems(5) by simp
      ultimately have ih: "let r = run d t (member_tokens ms) (inside st CHR ''{'' True (k # ks) (n + 1 + int (length (tokens_of j)))) in
        if (\<forall>(k, j)\<in>set ms. nesting j = 0 \<or> int (nesting j) + 1 + int (length (lmStack st)) \<le> d)
           \<and> lmTokens st + (n + 1 + int (length (tokens_of j))) + int (length (member_tokens ms)) \<le> t \<and> (\<forall>(k, j)\<in>set ms. unique_keys j)
           \<and> distinct (map fst ms) \<and> set (map fst ms) \<inter> set (k # ks) = {}
        then \<exists>ks'. r = Inr (inside st CHR ''{'' True ks' (n + 1 + int (length (tokens_of j)) + int (length (member_tokens ms)))) else isl r"
        using Cons.IH [OF _ Cons.prems(2,3) len, of "k # ks"] by blast
      have g: "((\<forall>(k, j)\<in>set (m # ms). nesting j = 0 \<or> int (nesting j) + 1 + int (length (lmStack st)) \<le> d)
         \<and> lmTokens st + n + int (length (member_tokens (m # ms))) \<le> t \<and> (\<forall>(k, j)\<in>set (m # ms). unique_keys j)
         \<and> distinct (map fst (m # ms)) \<and> set (map fst (m # ms)) \<inter> set ks = {})
        \<longleftrightarrow> (\<forall>(k, j)\<in>set ms. nesting j = 0 \<or> int (nesting j) + 1 + int (length (lmStack st)) \<le> d)
           \<and> lmTokens st + (n + 1 + int (length (tokens_of j))) + int (length (member_tokens ms)) \<le> t \<and> (\<forall>(k, j)\<in>set ms. unique_keys j)
           \<and> distinct (map fst ms) \<and> set (map fst ms) \<inter> set (k # ks) = {}"
        using True m key by (auto simp: fits_def)
      have "n + int (length (member_tokens (m # ms))) = n + 1 + int (length (tokens_of j)) + int (length (member_tokens ms))"
        using m by simp
      then show ?thesis using ih unfolding step g by presburger
    next
      case False
      then have "isl (run d t (member_tokens (m # ms)) (inside st CHR ''{'' True ks n))"
        unfolding start using passedD [OF p] p by (simp add: passed_def)
      moreover have "\<not> ((\<forall>(k, j)\<in>set (m # ms). nesting j = 0 \<or> int (nesting j) + 1 + int (length (lmStack st)) \<le> d)
         \<and> lmTokens st + n + int (length (member_tokens (m # ms))) \<le> t \<and> (\<forall>(k, j)\<in>set (m # ms). unique_keys j))"
        using False m by (auto simp: fits_def)
      ultimately show ?thesis by (auto simp: Let_def)
    qed
  qed
qed (auto simp: Let_def)

lemma nested_fits:
  assumes "L + 1 \<le> d"
  shows "int (1 + fold max ns 0) + L \<le> d \<longleftrightarrow> (\<forall>n\<in>set ns. n = 0 \<or> int n + 1 + L \<le> d)"
proof -
  have "int (1 + fold max ns 0) + L \<le> d \<longleftrightarrow> fold max ns 0 \<le> nat (d - L - 1)" using assms by linarith
  also have "\<dots> \<longleftrightarrow> (\<forall>n\<in>set ns. n \<le> nat (d - L - 1))" by (simp add: fold_max_le)
  also have "\<dots> \<longleftrightarrow> (\<forall>n\<in>set ns. n = 0 \<or> int n + 1 + L \<le> d)"
    by (rule ball_cong [OF refl]) (use assms in linarith)
  finally show ?thesis .
qed

lemma value_passes: "awaits_value st \<Longrightarrow> passed d t st j"
proof (induction j arbitrary: st)
  case JScalar
  then show ?case using scalar_value [OF JScalar, of t ScalarToken d] limit_token_over [of t st d ScalarToken]
    by (auto simp: passed_def fits_def isl_def)
next
  case (JString s)
  then show ?case using scalar_value [OF JString, of t "StringToken s" d] limit_token_over [of t st d "StringToken s"]
    by (auto simp: passed_def fits_def isl_def)
next
  case (JArray js)
  let ?o = "limit_token d t (Delim CHR ''['') st"
  show ?case
  proof (cases "lmTokens st + 1 \<le> t \<and> int (length (lmStack st)) + 1 \<le> d")
    case False
    then show ?thesis using open_value [OF JArray.prems, of "CHR ''[''" d t]
      by (auto simp: passed_def fits_def isl_def)
  next
    case True
    let ?n = "1 + int (length (concat (map tokens_of js)))"
    have o: "?o = Inr (inside st CHR ''['' False [] 1)" using True open_value [OF JArray.prems, of "CHR ''[''" d t] by simp
    have items: "let r = run d t (concat (map tokens_of js)) (inside st CHR ''['' False [] 1) in
      if (\<forall>j\<in>set js. nesting j = 0 \<or> int (nesting j) + 1 + int (length (lmStack st)) \<le> d)
         \<and> lmTokens st + 1 + int (length (concat (map tokens_of js))) \<le> t \<and> (\<forall>j\<in>set js. unique_keys j)
      then r = Inr (inside st CHR ''['' False [] (1 + int (length (concat (map tokens_of js))))) else isl r"
      by (rule items_pass) (use JArray True in auto)
    show ?thesis
    proof (cases "(\<forall>j\<in>set js. nesting j = 0 \<or> int (nesting j) + 1 + int (length (lmStack st)) \<le> d)
         \<and> lmTokens st + 1 + int (length (concat (map tokens_of js))) \<le> t \<and> (\<forall>j\<in>set js. unique_keys j)")
      case good: True
      then have r: "run d t (concat (map tokens_of js)) (inside st CHR ''['' False [] 1) = Inr (inside st CHR ''['' False [] ?n)"
        using items by (simp add: Let_def)
      have "run d t (tokens_of (JArray js)) st = (if lmTokens st + ?n + 1 \<le> t then Inr (after_value (?n + 1) st) else Inl ErrTooManyTokens)"
        using o r close_value(1) [OF _ JArray.prems, of ?n t d False "[]"]
          limit_token_over [of t "inside st CHR ''['' False [] ?n" d "Delim CHR '']''"]
        by (simp add: run_append del: map_append)
      then show ?thesis using good nested_fits [of "int (length (lmStack st))" d "map nesting js"] True
        by (auto simp: passed_def fits_def isl_def add_ac)
    next
      case bad: False
      then have r: "isl (run d t (concat (map tokens_of js)) (inside st CHR ''['' False [] 1))"
        using items by (simp only: Let_def if_False)
      then have "isl (run d t (tokens_of (JArray js)) st)"
        using o by (auto simp: run_append isl_def simp del: map_append)
      moreover have "\<not> fits d t st (JArray js)"
        using bad nested_fits [of "int (length (lmStack st))" d "map nesting js"] True by (auto simp: fits_def)
      ultimately show ?thesis by (simp add: passed_def)
    qed
  qed
next
  case (JObject ms)
  have toks: "tokens_of (JObject ms) = Delim CHR ''{'' # member_tokens ms @ [Delim CHR ''}'']" by (simp add: member_tokens_def)
  show ?case
  proof (cases "lmTokens st + 1 \<le> t \<and> int (length (lmStack st)) + 1 \<le> d")
    case False
    then show ?thesis using open_value [OF JObject.prems, of "CHR ''{''" d t]
      by (auto simp: passed_def fits_def isl_def)
  next
    case True
    let ?n = "1 + int (length (member_tokens ms))"
    have o: "limit_token d t (Delim CHR ''{'') st = Inr (inside st CHR ''{'' True [] 1)"
      using True open_value [OF JObject.prems, of "CHR ''{''" d t] by simp
    let ?good = "(\<forall>(k, j)\<in>set ms. nesting j = 0 \<or> int (nesting j) + 1 + int (length (lmStack st)) \<le> d)
         \<and> lmTokens st + 1 + int (length (member_tokens ms)) \<le> t \<and> (\<forall>(k, j)\<in>set ms. unique_keys j)
         \<and> distinct (map fst ms) \<and> set (map fst ms) \<inter> set [] = {}"
    have members: "let r = run d t (member_tokens ms) (inside st CHR ''{'' True [] 1) in
      if ?good then \<exists>ks'. r = Inr (inside st CHR ''{'' True ks' (1 + int (length (member_tokens ms)))) else isl r"
      by (rule members_pass) (use JObject True in auto)
    have nest: "int (nesting (JObject ms)) + int (length (lmStack st)) \<le> d
        \<longleftrightarrow> (\<forall>(k, j)\<in>set ms. nesting j = 0 \<or> int (nesting j) + 1 + int (length (lmStack st)) \<le> d)"
      using nested_fits [of "int (length (lmStack st))" d "map (\<lambda>(k, j). nesting j) ms"] True by (auto simp: case_prod_beta)
    show ?thesis
    proof (cases ?good)
      case good: True
      then obtain ks where r: "run d t (member_tokens ms) (inside st CHR ''{'' True [] 1) = Inr (inside st CHR ''{'' True ks ?n)"
        using members by (auto simp: Let_def)
      have "run d t (tokens_of (JObject ms)) st = (if lmTokens st + ?n + 1 \<le> t then Inr (after_value (?n + 1) st) else Inl ErrTooManyTokens)"
        using o r close_value(2) [OF _ JObject.prems, of ?n t d True ks]
          limit_token_over [of t "inside st CHR ''{'' True ks ?n" d "Delim CHR ''}''"] unfolding toks
        by (simp add: run_append del: map_append)
      then show ?thesis using good nest unfolding passed_def fits_def toks by (auto simp: isl_def add_ac)
    next
      case bad: False
      then have r: "isl (run d t (member_tokens ms) (inside st CHR ''{'' True [] 1))"
        using members by (simp only: Let_def if_False)
      then have "isl (run d t (tokens_of (JObject ms)) st)"
        using o unfolding toks by (auto simp: run_append isl_def simp del: map_append)
      moreover have "\<not> fits d t st (JObject ms)" using bad nest unfolding fits_def toks by auto
      ultimately show ?thesis by (simp add: passed_def)
    qed
  qed
qed

section \<open>Unfinished values\<close>

fun net :: "json_token list \<Rightarrow> int" where
  "net [] = 0"
| "net (Delim c # ts) = (if c = CHR ''{'' \<or> c = CHR ''['' then 1 else if c = CHR ''}'' \<or> c = CHR '']'' then -1 else 0) + net ts"
| "net (_ # ts) = net ts"

lemma net_append [simp]: "net (ts @ us) = net ts + net us"
  by (induction ts rule: net.induct) simp_all

lemma limit_token_depth: "limit_token d t tok st = Inr st1 \<Longrightarrow>
    int (length (lmStack st1)) = int (length (lmStack st)) + net [tok]"
  by (auto simp: limit_token_def limit_open_def limit_close_def limit_scalar_def Let_def
      split: if_splits json_token.splits list.splits)

lemma run_depth: "run d t ts st = Inr st1 \<Longrightarrow> int (length (lmStack st1)) = int (length (lmStack st)) + net ts"
proof (induction ts arbitrary: st)
  case (Cons tok ts)
  obtain st2 where st2: "limit_token d t tok st = Inr st2" "run d t ts st2 = Inr st1"
    using Cons.prems by (auto split: sum.splits)
  have "net (tok # ts) = net [tok] + net ts" using net_append [of "[tok]" ts] by simp
  then show ?case using Cons.IH [OF st2(2)] limit_token_depth [OF st2(1)] by simp
qed simp

lemma net_concat:
  assumes "\<And>p q. p @ q \<in> set xss \<Longrightarrow> 0 \<le> net p" "\<And>xs. xs \<in> set xss \<Longrightarrow> net xs = 0"
  shows "(concat xss = p @ q \<longrightarrow> 0 \<le> net p) \<and> net (concat xss) = 0"
  using assms
proof (induction xss arbitrary: p)
  case (Cons xs xss)
  have ih: "(concat xss = p @ q \<longrightarrow> 0 \<le> net p) \<and> net (concat xss) = 0" for p
    by (rule Cons.IH) (use Cons.prems in auto)
  have xs: "net xs = 0" "xs = p @ r \<Longrightarrow> 0 \<le> net p" for p r using Cons.prems(2) [of xs] Cons.prems(1) [of p r] by auto
  show ?case
  proof (intro conjI impI)
    assume "concat (xs # xss) = p @ q"
    then consider us where "xs = p @ us" | us where "p = xs @ us" "concat xss = us @ q"
      by (auto simp: append_eq_append_conv2)
    then show "0 \<le> net p" by cases (use xs ih in auto)
  qed (use ih xs in simp)
qed simp

lemma net_wrapped:
  assumes "\<And>p q. ts = p @ q \<Longrightarrow> 0 \<le> net p" "net ts = 0" "c = CHR ''['' \<and> e = CHR '']'' \<or> c = CHR ''{'' \<and> e = CHR ''}''"
  shows "net (Delim c # ts @ [Delim e]) = 0"
    and "Delim c # ts @ [Delim e] = p @ q \<Longrightarrow> p \<noteq> [] \<Longrightarrow> q \<noteq> [] \<Longrightarrow> 1 \<le> net p"
proof -
  show "net (Delim c # ts @ [Delim e]) = 0" using assms(2,3) by auto
  assume e: "Delim c # ts @ [Delim e] = p @ q" "p \<noteq> []" "q \<noteq> []"
  obtain p' where p: "p = Delim c # p'" using e(1,2) by (cases p) auto
  have "\<exists>q'. ts = p' @ q'" using e(1,3) p by (cases q rule: rev_cases) auto
  then show "1 \<le> net p" using assms(1,3) p by auto
qed

lemma net_tokens: "net (tokens_of j) = 0 \<and> (\<forall>p q. tokens_of j = p @ q \<longrightarrow> p \<noteq> [] \<longrightarrow> q \<noteq> [] \<longrightarrow> 1 \<le> net p)"
proof (induction j)
  case (JArray js)
  have prefix: "0 \<le> net p" if pq: "p @ q \<in> set (map tokens_of js)" for p q
  proof -
    obtain j where j': "p @ q = tokens_of j" "j \<in> set js" using pq unfolding set_map by (rule imageE)
    have j: "j \<in> set js" "tokens_of j = p @ q" using j' by simp_all
    show ?thesis using JArray [OF j(1)] j(2) by (cases "p = [] \<or> q = []") (auto, force)
  qed
  have "net xs = 0" if "xs \<in> set (map tokens_of js)" for xs using that JArray by auto
  then have "(concat (map tokens_of js) = p @ q \<longrightarrow> 0 \<le> net p) \<and> net (concat (map tokens_of js)) = 0" for p q
    by (intro net_concat prefix)
  then show ?case using net_wrapped [of "concat (map tokens_of js)" "CHR ''[''" "CHR '']''"] by simp
next
  case (JObject ms)
  let ?f = "\<lambda>(k, j). StringToken k # tokens_of j"
  have all: "net (tokens_of j) = 0 \<and> (\<forall>p q. tokens_of j = p @ q \<longrightarrow> p \<noteq> [] \<longrightarrow> q \<noteq> [] \<longrightarrow> 1 \<le> net p)"
    if "(k, j) \<in> set ms" for k j using JObject [OF that] by (simp add: snds.simps)
  have prefix: "0 \<le> net p" if pq: "p @ q \<in> set (map ?f ms)" for p q
  proof (cases p)
    case (Cons tok p')
    obtain m where m: "p @ q = ?f m" "m \<in> set ms" using pq unfolding set_map by (rule imageE)
    obtain k j where "m = (k, j)" by fastforce
    then have j: "(k, j) \<in> set ms" "StringToken k # tokens_of j = p @ q" using m by simp_all
    then have "tokens_of j = p' @ q" "tok = StringToken k" using Cons by auto
    then show ?thesis using all [OF j(1)] Cons by (cases "p' = [] \<or> q = []") (auto, force)
  qed simp
  have "net xs = 0" if "xs \<in> set (map ?f ms)" for xs using that all by auto
  then have "(concat (map ?f ms) = p @ q \<longrightarrow> 0 \<le> net p) \<and> net (concat (map ?f ms)) = 0" for p q
    by (intro net_concat prefix)
  then show ?case using net_wrapped [of "concat (map ?f ms)" "CHR ''{''" "CHR ''}''"] by simp
qed (auto simp: Cons_eq_append_conv)

lemma first_token: "\<exists>tok ts. tokens_of j = tok # ts \<and> (tok = Delim CHR ''{'' \<or> tok = Delim CHR ''['' \<or> (\<forall>c. tok \<noteq> Delim c))"
  by (cases j) auto

lemma after_root: "after_value n empty_limit_state = \<lparr>lmStack = [], lmTokens = n, lmRoots = 1, lmRootInProgress = False\<rparr>"
  by (simp add: after_value_def empty_limit_state_def completeValue_def)

lemma second_value: "isl (run d t (tokens_of j) \<lparr>lmStack = [], lmTokens = n, lmRoots = 1, lmRootInProgress = False\<rparr>)"
  using first_token [of j]
  by (auto simp: limit_token_def limit_open_def limit_scalar_def isl_def Let_def split: json_token.split)

lemma error_stops: "isl (limit_loop d t ts st) \<Longrightarrow> isl (limit_loop d t (ts @ us) st)"
  by (induction d t ts st rule: limit_loop.induct) (auto split: sum.splits)

lemma syntax_error_stops: "isl (limit_loop d t (ts @ None # us) st)"
  by (induction d t ts st rule: limit_loop.induct) (auto split: sum.splits)

section \<open>The property\<close>

text \<open>C12. The validator accepts the tokens of exactly the values that nest no deeper than the
  limit, have no more tokens than the limit and repeat no key in an object; it refuses a value
  that breaks off, two values, and input with a syntax error.\<close>

theorem json_limits_are_exact:
  assumes "d = (if maxDepth \<le> 0 then 128 else maxDepth)" "t = (if maxTokens \<le> 0 then 100000 else maxTokens)"
    and "n < length (tokens_of j)"
  shows "(json_limit_Validate (map Some (tokens_of j)) maxDepth maxTokens = None \<longleftrightarrow>
       int (nesting j) \<le> d \<and> int (length (tokens_of j)) \<le> t \<and> unique_keys j)
    \<and> json_limit_Validate (map Some (take n (tokens_of j))) maxDepth maxTokens \<noteq> None
    \<and> json_limit_Validate (map Some (tokens_of j @ tokens_of k)) maxDepth maxTokens \<noteq> None
    \<and> json_limit_Validate (before @ None # after) maxDepth maxTokens \<noteq> None"
proof (intro conjI)
  have d: "json_limit_Validate ts maxDepth maxTokens = (case limit_loop d t ts empty_limit_state of
      Inl e \<Rightarrow> Some e
    | Inr st \<Rightarrow> if lmStack st \<noteq> [] \<or> lmRootInProgress st then Some IncompleteValue
         else if lmRoots st \<noteq> 1 then Some NotOneValue else None)" for ts
    using assms(1,2) by (simp add: json_limit_Validate_def Let_def DefaultMaxDepth_def DefaultMaxTokens_def)
  have start: "awaits_value empty_limit_state" by (simp add: awaits_value_def empty_limit_state_def)
  have p: "passed d t empty_limit_state j" by (rule value_passes [OF start])
  have positive: "0 \<le> d" using assms(1) by simp
  have fits: "fits d t empty_limit_state j \<longleftrightarrow> int (nesting j) \<le> d \<and> int (length (tokens_of j)) \<le> t \<and> unique_keys j"
    using positive by (auto simp: fits_def empty_limit_state_def)
  show "json_limit_Validate (map Some (tokens_of j)) maxDepth maxTokens = None \<longleftrightarrow>
       int (nesting j) \<le> d \<and> int (length (tokens_of j)) \<le> t \<and> unique_keys j"
    using p unfolding fits [symmetric] d passed_def by (auto simp: after_root isl_def split: if_splits)
  show "json_limit_Validate (map Some (take n (tokens_of j))) maxDepth maxTokens \<noteq> None"
  proof (cases "run d t (take n (tokens_of j)) empty_limit_state")
    case (Inr st)
    have "lmStack st \<noteq> [] \<or> lmRoots st \<noteq> 1"
    proof (cases "n = 0")
      case True
      then show ?thesis using Inr by (auto simp: empty_limit_state_def)
    next
      case False
      have "tokens_of j = take n (tokens_of j) @ drop n (tokens_of j)" by simp
      moreover have "take n (tokens_of j) \<noteq> []" "drop n (tokens_of j) \<noteq> []" using False assms(3) by auto
      ultimately have "1 \<le> net (take n (tokens_of j))" using net_tokens by blast
      then show ?thesis using run_depth [OF Inr] by (auto simp: empty_limit_state_def)
    qed
    then show ?thesis using Inr by (auto simp: d)
  qed (simp add: d)
  have "isl (run d t (tokens_of j @ tokens_of k) empty_limit_state)"
    using passedD [OF p, of "tokens_of k"] p second_value [of d t k] by (auto simp: after_root passed_def split: if_splits)
  then show "json_limit_Validate (map Some (tokens_of j @ tokens_of k)) maxDepth maxTokens \<noteq> None"
    unfolding d by (auto simp: isl_def)
  show "json_limit_Validate (before @ None # after) maxDepth maxTokens \<noteq> None"
    unfolding d using syntax_error_stops [of d t before after empty_limit_state] by (auto simp: isl_def)
qed

theorem json_limits_are_exact_witness:
  "json_limit_Validate (map Some (tokens_of (JObject [(''a'', JArray [JScalar]), (''b'', JString ''x'')]))) 2 9 = None
   \<and> json_limit_Validate (map Some (tokens_of (JObject [(''a'', JArray [JScalar]), (''b'', JString ''x'')]))) 1 9 \<noteq> None
   \<and> json_limit_Validate (map Some (tokens_of (JObject [(''a'', JScalar), (''a'', JScalar)]))) 2 9 \<noteq> None"
  using json_limits_are_exact [of 2 2 9 9 0 "JObject [(''a'', JArray [JScalar]), (''b'', JString ''x'')]" JScalar "[]" "[]"]
    json_limits_are_exact [of 1 1 9 9 0 "JObject [(''a'', JArray [JScalar]), (''b'', JString ''x'')]" JScalar "[]" "[]"]
    json_limits_are_exact [of 2 2 9 9 0 "JObject [(''a'', JScalar), (''a'', JScalar)]" JScalar "[]" "[]"]
  by simp

end
