(* ===== verification/Block_Graph.thy ===== *)
theory Block_Graph
  imports Schema_Fields
begin

text \<open>
  The graph of block definitions a schema places (\<open>internal/blockgraph/graph.go\<close>). A set of
  keys is a set; \<open>Closure\<close> keeps its answers in a memory, which the code holds in the graph.
\<close>

section \<open>State\<close>

datatype graph_key = Key (keySlug: string) (keyLocalized: bool)

text \<open>\<open>Less\<close>: by slug, the unlocalized view first.\<close>

definition key_Less :: "graph_key \<Rightarrow> graph_key \<Rightarrow> bool" where
  "key_Less k l \<longleftrightarrow> (if keySlug k \<noteq> keySlug l then keySlug k < keySlug l else \<not> keyLocalized k \<and> keyLocalized l)"

instantiation graph_key :: linorder
begin

definition less_eq_graph_key :: "graph_key \<Rightarrow> graph_key \<Rightarrow> bool" where
  "less_eq_graph_key k l \<longleftrightarrow> k = l \<or> key_Less k l"

definition less_graph_key :: "graph_key \<Rightarrow> graph_key \<Rightarrow> bool" where
  "less_graph_key k l \<longleftrightarrow> key_Less k l"

lemmas graph_key_order_defs = less_eq_graph_key_def less_graph_key_def key_Less_def

instance
proof
  fix k l m :: graph_key
  show "k < l \<longleftrightarrow> k \<le> l \<and> \<not> l \<le> k" by (cases k; cases l) (auto simp: graph_key_order_defs)
  show "k \<le> k" by (simp add: graph_key_order_defs)
  show "k \<le> l \<Longrightarrow> l \<le> m \<Longrightarrow> k \<le> m"
    by (cases k; cases l; cases m) (auto simp: graph_key_order_defs split: if_splits)
  show "k \<le> l \<Longrightarrow> l \<le> k \<Longrightarrow> k = l" by (cases k; cases l) (auto simp: graph_key_order_defs split: if_splits)
  show "k \<le> l \<or> l \<le> k" by (cases k; cases l) (auto simp: graph_key_order_defs)
qed

end

datatype graph_selection = Selection (selKey: graph_key) (selView: block_type) (selEmbedded: bool)

record graph_root =
  rtField :: field
  rtOrdinary :: "graph_key list"
  rtEmbedded :: "graph_key list"

record graph_resource =
  rsCollection :: collection
  rsGlobal :: bool
  rsRoots :: "graph_root list"

record block_graph =
  grViews :: "(graph_key, block_type) gomap"
  grOrdinary :: "(graph_key, graph_key list) gomap"
  grEmbedded :: "(graph_key, graph_key list) gomap"
  grResources :: "graph_resource list"
  grByID :: "(bool \<times> string, nat) gomap"

record block_snapshot =
  bsCollections :: "collection list"
  bsGlobals :: "collection list"

section \<open>Building the graph\<close>

definition appendKey :: "graph_key list \<Rightarrow> graph_key \<Rightarrow> graph_key list" where
  "appendKey keys key = (if key \<in> set keys then keys else keys @ [key])"

text \<open>The selections of the definitions of a field's containers.\<close>

definition definition_selections :: "bool \<Rightarrow> bool \<Rightarrow> block_type list \<Rightarrow> graph_selection list" where
  "definition_selections localized embedded defs =
     map (\<lambda>view. Selection (Key (bltSlug view) localized) view embedded) defs"

function collectSelections :: "field \<Rightarrow> bool \<Rightarrow> graph_selection list" where
  "collectSelections f localized0 =
     (let localized = (localized0 \<or> fldLocalized f) in
      (case fldNested f of
         None \<Rightarrow> [] | Some fs \<Rightarrow> concat (map (\<lambda>c. collectSelections c localized) fs))
      @ (case fldBlocks f of
           None \<Rightarrow> [] | Some bs \<Rightarrow> definition_selections localized False bs)
      @ (case fldPlugin f of
           None \<Rightarrow> []
         | Some p \<Rightarrow> concat (map (\<lambda>t. concat (map (\<lambda>c. definition_selections localized True (ecDefinitions c)) (etCases t)))
                      (plgEmbeddedTrees p))))"
  by pat_completeness auto
termination
  by (relation "measure (\<lambda>(f, l). size f)") (auto intro: less_trans [OF size_list_mem size_nested])

declare collectSelections.simps [simp del]

definition selections_of :: "field list \<Rightarrow> bool \<Rightarrow> graph_selection list" where
  "selections_of fs localized = concat (map (\<lambda>f. collectSelections f localized) fs)"

definition selected_keys :: "bool \<Rightarrow> graph_selection list \<Rightarrow> graph_key list" where
  "selected_keys embedded selected =
     fold (\<lambda>s keys. if selEmbedded s = embedded then appendKey keys (selKey s) else keys) selected []"

definition FieldSelections :: "field \<Rightarrow> bool \<Rightarrow> graph_key list \<times> graph_key list" where
  "FieldSelections f localized =
     (let selected = collectSelections f localized in (selected_keys False selected, selected_keys True selected))"

text \<open>A view found for the first time is recorded, and waits with its key for its own turn.\<close>

definition discover ::
  "graph_selection list \<Rightarrow> (graph_key, block_type) gomap \<times> (graph_key \<times> block_type) list \<Rightarrow>
   (graph_key, block_type) gomap \<times> (graph_key \<times> block_type) list" where
  "discover selections = fold (\<lambda>s (views, pending).
     if mem_key views (selKey s) then (views, pending)
     else (put (selKey s) (selView s) views, (selKey s, selView s) # pending)) selections"

definition graph_root_of :: "field \<Rightarrow> graph_root" where
  "graph_root_of f =
     (let selected = collectSelections f False
      in \<lparr>rtField = f, rtOrdinary = selected_keys False selected, rtEmbedded = selected_keys True selected\<rparr>)"

definition add_resource ::
  "bool \<Rightarrow> collection \<Rightarrow> block_graph \<times> (graph_key \<times> block_type) list \<Rightarrow> block_graph \<times> (graph_key \<times> block_type) list" where
  "add_resource global resource = (\<lambda>(g, pending).
     case fold (\<lambda>f. discover (collectSelections f False)) (colFields resource) (grViews g, pending) of
       (views, pending1) \<Rightarrow>
         (g\<lparr>grViews := views,
            grByID := put (global, colID resource) (length (grResources g)) (grByID g),
            grResources := grResources g @ [\<lparr>rsCollection = resource, rsGlobal = global,
              rsRoots = map graph_root_of (colFields resource)\<rparr>]\<rparr>, pending1))"

definition record_edges :: "graph_key \<Rightarrow> graph_selection list \<Rightarrow> block_graph \<Rightarrow> block_graph" where
  "record_edges key selected g =
     g\<lparr>grOrdinary := (if \<exists>s\<in>set selected. \<not> selEmbedded s then put key (selected_keys False selected) (grOrdinary g) else grOrdinary g),
       grEmbedded := (if \<exists>s\<in>set selected. selEmbedded s then put key (selected_keys True selected) (grEmbedded g) else grEmbedded g)\<rparr>"

text \<open>Discovered views are parts of the view that selects them.\<close>

abbreviation weight :: "graph_selection list \<Rightarrow> nat" where
  "weight selected \<equiv> sum_list (map (size \<circ> selView) selected)"

lemma weight_definitions [simp]: "weight (definition_selections l e defs) = sum_list (map size defs)"
  by (simp add: definition_selections_def o_def)

lemma sum_list_le_size: "(\<And>x. x \<in> set xs \<Longrightarrow> h x \<le> size x) \<Longrightarrow> sum_list (map h xs) \<le> size_list size xs"
proof (induction xs)
  case (Cons x xs)
  have "h x \<le> size x" "sum_list (map h xs) \<le> size_list size xs" using Cons by auto
  then show ?case by simp
qed simp

lemma weight_concat: "weight (concat (map h xs)) = sum_list (map (\<lambda>x. weight (h x)) xs)"
  by (induction xs) simp_all

lemma weight_case: "weight (definition_selections l e (ecDefinitions c)) \<le> size c"
  using sum_list_le_size [of "ecDefinitions c" size] size_case_definitions [of c] by simp

lemma weight_tree: "weight (concat (map (\<lambda>c. definition_selections l e (ecDefinitions c)) (etCases t))) \<le> size t"
  using sum_list_le_size [of "etCases t", OF weight_case] size_tree_cases [of t] unfolding weight_concat by (meson less_imp_le order_trans)

lemma weight_field: "weight (collectSelections f l) \<le> size f"
proof (induction f l rule: collectSelections.induct)
  case (1 f l)
  have nested: "weight (case fldNested f of None \<Rightarrow> [] | Some fs \<Rightarrow> concat (map (\<lambda>c. collectSelections c (l \<or> fldLocalized f)) fs))
      \<le> size_option (size_list size) (fldNested f)"
  proof (cases "fldNested f")
    case (Some fs)
    have "sum_list (map (\<lambda>c. weight (collectSelections c (l \<or> fldLocalized f))) fs) \<le> size_list size fs"
      by (rule sum_list_le_size) (rule 1 [OF refl Some])
    then show ?thesis using Some by (simp add: weight_concat)
  qed simp
  have blocks: "weight (case fldBlocks f of None \<Rightarrow> [] | Some bs \<Rightarrow> definition_selections (l \<or> fldLocalized f) False bs)
      \<le> size_option (size_list size) (fldBlocks f)"
    using sum_list_le_size [of _ size] by (auto split: option.split intro: le_SucI)
  have plugin: "weight (case fldPlugin f of None \<Rightarrow> []
         | Some p \<Rightarrow> concat (map (\<lambda>t. concat (map (\<lambda>c. definition_selections (l \<or> fldLocalized f) True (ecDefinitions c)) (etCases t)))
                      (plgEmbeddedTrees p))) \<le> size_option size (fldPlugin f)"
  proof (cases "fldPlugin f")
    case (Some p)
    have "sum_list (map (\<lambda>t. weight (concat (map (\<lambda>c. definition_selections (l \<or> fldLocalized f) True (ecDefinitions c)) (etCases t))))
        (plgEmbeddedTrees p)) \<le> size_list size (plgEmbeddedTrees p)"
      by (rule sum_list_le_size) (rule weight_tree)
    then show ?thesis using Some by (cases p) (simp add: weight_concat)
  qed simp
  have "size_option (size_list size) (fldNested f) + size_option (size_list size) (fldBlocks f) + size_option size (fldPlugin f) \<le> size f"
    by (cases f) simp
  then show ?case using nested blocks plugin
    by (subst collectSelections.simps) (simp add: Let_def)
qed

lemma weight_view: "weight (selections_of (bltFields view) l) < size view"
proof -
  have "weight (selections_of (bltFields view) l) \<le> size_list size (bltFields view)"
    unfolding selections_of_def weight_concat by (rule sum_list_le_size) (rule weight_field)
  then show ?thesis using size_block_fields [of view] by linarith
qed

lemma discover_weight: "discover selected (views, pending) = (views', pending') \<Longrightarrow>
    sum_list (map (size \<circ> snd) pending') \<le> sum_list (map (size \<circ> snd) pending) + weight selected"
proof (induction selected arbitrary: views pending)
  case (Cons s selected)
  show ?case
  proof (cases "mem_key views (selKey s)")
    case True
    then have "discover selected (views, pending) = (views', pending')" using Cons.prems by (simp add: discover_def)
    then show ?thesis using Cons.IH by force
  next
    case False
    then have "discover selected (put (selKey s) (selView s) views, (selKey s, selView s) # pending) = (views', pending')"
      using Cons.prems by (simp add: discover_def)
    then show ?thesis using Cons.IH by force
  qed
qed (simp add: discover_def)

lemma discover_view_weight: "discover (selections_of (bltFields view) l) (views, pending) = (views', pending') \<Longrightarrow>
    sum_list (map (size \<circ> snd) pending') < size view + sum_list (map (size \<circ> snd) pending)"
  using discover_weight [of _ views pending views' pending'] weight_view [of view l] by fastforce

function explore :: "(graph_key \<times> block_type) list \<Rightarrow> block_graph \<Rightarrow> block_graph" where
  "explore [] g = g"
| "explore ((key, view) # pending) g =
     (let selected = selections_of (bltFields view) (keyLocalized key) in
      case discover selected (grViews g, pending) of
        (views, pending1) \<Rightarrow> explore pending1 ((record_edges key selected g)\<lparr>grViews := views\<rparr>))"
  by pat_completeness auto
termination
  by (relation "measure (\<lambda>(pending, g). sum_list (map (size \<circ> snd) pending))")
    (auto dest!: discover_view_weight [OF sym])

definition empty_graph :: block_graph where
  "empty_graph = \<lparr>grViews = [], grOrdinary = [], grEmbedded = [], grResources = [], grByID = []\<rparr>"

definition graph_New :: "block_snapshot \<Rightarrow> block_graph" where
  "graph_New snapshot =
     (case fold (add_resource True) (bsGlobals snapshot) (fold (add_resource False) (bsCollections snapshot) (empty_graph, [])) of
        (g, pending) \<Rightarrow> explore pending g)"

section \<open>Reading the graph\<close>

definition Keys :: "block_graph \<Rightarrow> graph_key list" where
  "Keys g = sort (map fst (grViews g))"

definition View :: "block_graph \<Rightarrow> graph_key \<Rightarrow> block_type option" where
  "View g key = map_of (grViews g) key"

definition graph_Resource :: "block_graph \<Rightarrow> string \<Rightarrow> bool \<Rightarrow> graph_resource option" where
  "graph_Resource g i global = map_option (\<lambda>index. grResources g ! index) (map_of (grByID g) (global, i))"

definition ResourceOf :: "block_graph \<Rightarrow> collection \<Rightarrow> graph_resource option" where
  "ResourceOf g resource =
     (case graph_Resource g (colID resource) False of
        Some node \<Rightarrow>
          if colSlug (rsCollection node) = colSlug resource then Some node
          else (case graph_Resource g (colID resource) True of
                  Some node1 \<Rightarrow> if colSlug (rsCollection node1) = colSlug resource then Some node1 else None
                | None \<Rightarrow> None)
      | None \<Rightarrow>
          (case graph_Resource g (colID resource) True of
             Some node1 \<Rightarrow> if colSlug (rsCollection node1) = colSlug resource then Some node1 else None
           | None \<Rightarrow> None))"

definition Selects :: "block_graph \<Rightarrow> graph_key \<Rightarrow> bool \<Rightarrow> graph_key list" where
  "Selects g key embedded =
     (case map_of (if embedded then grEmbedded g else grOrdinary g) key of None \<Rightarrow> [] | Some keys \<Rightarrow> keys)"

definition graph_children :: "block_graph \<Rightarrow> graph_key \<Rightarrow> bool \<Rightarrow> graph_key list" where
  "graph_children g key embedded = Selects g key False @ (if embedded then Selects g key True else [])"

text \<open>
  The recursion of \<open>closure\<close> follows the definitions, which are acyclic; each call takes fuel,
  and \<open>graph_fuel\<close> is enough for every graph that \<open>graph_New\<close> builds.
\<close>

type_synonym closure_memory = "(graph_key \<times> bool, graph_key set) gomap"

fun closure :: "nat \<Rightarrow> block_graph \<Rightarrow> bool \<Rightarrow> graph_key \<Rightarrow> closure_memory \<Rightarrow> (graph_key set \<times> closure_memory) option"
  and closures :: "nat \<Rightarrow> block_graph \<Rightarrow> bool \<Rightarrow> graph_key list \<Rightarrow> graph_key set \<Rightarrow> closure_memory \<Rightarrow>
    (graph_key set \<times> closure_memory) option" where
  "closure 0 g embedded key memory = None"
| "closure (Suc fuel) g embedded key memory =
     (case map_of memory (key, embedded) of
        Some reached \<Rightarrow> Some (reached, memory)
      | None \<Rightarrow>
          (case closures fuel g embedded (graph_children g key embedded) {key} memory of
             None \<Rightarrow> None
           | Some (reached, memory1) \<Rightarrow> Some (reached, put (key, embedded) reached memory1)))"
| "closures fuel g embedded [] reached memory = Some (reached, memory)"
| "closures fuel g embedded (child # children) reached memory =
     (case closure fuel g embedded child memory of
        None \<Rightarrow> None
      | Some (reached1, memory1) \<Rightarrow> closures fuel g embedded children (reached \<union> reached1) memory1)"

definition graph_fuel :: "block_graph \<Rightarrow> nat" where
  "graph_fuel g = length (grViews g) + 1"

definition Closure :: "block_graph \<Rightarrow> graph_key list \<Rightarrow> bool \<Rightarrow> closure_memory \<Rightarrow> (graph_key set \<times> closure_memory) option" where
  "Closure g keys embedded memory =
     (case keys of
        [key] \<Rightarrow> closure (graph_fuel g) g embedded key memory
      | _ \<Rightarrow> closures (graph_fuel g) g embedded keys {} memory)"

definition Placed :: "block_graph \<Rightarrow> graph_resource \<Rightarrow> bool \<Rightarrow> closure_memory \<Rightarrow> (graph_key set \<times> closure_memory) option" where
  "Placed g resource embedded memory =
     Closure g (concat (map (\<lambda>r. rtOrdinary r @ (if embedded then rtEmbedded r else [])) (rsRoots resource))) embedded memory"

definition EmbeddedPlacements :: "block_graph \<Rightarrow> closure_memory \<Rightarrow> (graph_key set \<times> closure_memory) option" where
  "EmbeddedPlacements g memory =
     Closure g (concat (map (\<lambda>r. concat (map rtEmbedded (rsRoots r))) (grResources g))
       @ concat (map (\<lambda>(key, _). Selects g key True) (grViews g))) True memory"

definition RootPlaces :: "block_graph \<Rightarrow> graph_root \<Rightarrow> string set \<Rightarrow> closure_memory \<Rightarrow> (bool \<times> closure_memory) option" where
  "RootPlaces g root slugs memory =
     map_option (\<lambda>(reached, m). (\<exists>key\<in>reached. keySlug key \<in> slugs, m)) (Closure g (rtOrdinary root) False memory)"

fun containing :: "block_graph \<Rightarrow> string set \<Rightarrow> graph_key list \<Rightarrow> string set \<Rightarrow> closure_memory \<Rightarrow> (string set \<times> closure_memory) option" where
  "containing g slugs [] result memory = Some (result, memory)"
| "containing g slugs (key # keys) result memory =
     (if keySlug key \<in> result then containing g slugs keys result memory
      else case closure (graph_fuel g) g False key memory of
        None \<Rightarrow> None
      | Some (reached, memory1) \<Rightarrow>
          containing g slugs keys
            (if \<exists>r\<in>reached. keySlug r \<in> slugs then insert (keySlug key) result else result) memory1)"

definition Containing :: "block_graph \<Rightarrow> string set \<Rightarrow> closure_memory \<Rightarrow> (string set \<times> closure_memory) option" where
  "Containing g slugs memory = containing g slugs (map fst (grViews g)) slugs memory"

definition SortedKeys :: "graph_key set \<Rightarrow> graph_key list" where
  "SortedKeys keys = sorted_list_of_set keys"

text \<open>\<open>Survivors\<close> and \<open>Shared\<close> compare the graphs of two schemas.\<close>

definition Survivors :: "block_graph \<Rightarrow> block_graph \<Rightarrow> (string, string) gomap \<Rightarrow> (graph_resource \<times> graph_resource) list" where
  "Survivors before after renamed =
     concat (map (\<lambda>previous.
        let i = colID (rsCollection previous);
            mapped = (case map_of renamed i of None \<Rightarrow> [] | Some to \<Rightarrow> to);
            j = (if mapped \<noteq> [] \<and> \<not> rsGlobal previous then mapped else i)
        in case graph_Resource after j (rsGlobal previous) of None \<Rightarrow> [] | Some next \<Rightarrow> [(previous, next)])
      (grResources before))"

fun shared_views ::
  "block_graph \<Rightarrow> block_graph \<Rightarrow> bool \<Rightarrow> (graph_resource \<times> graph_resource) list \<Rightarrow> graph_key set \<Rightarrow>
   closure_memory \<times> closure_memory \<Rightarrow> (graph_key set \<times> closure_memory \<times> closure_memory) option" where
  "shared_views before after embedded [] shared (m, n) = Some (shared, (m, n))"
| "shared_views before after embedded ((previous, next) # pairs) shared (m, n) =
     (case (Placed before previous embedded m, Placed after next embedded n) of
        (Some (p, m1), Some (q, n1)) \<Rightarrow> shared_views before after embedded pairs (shared \<union> (q \<inter> p)) (m1, n1)
      | _ \<Rightarrow> None)"

definition Shared ::
  "block_graph \<Rightarrow> block_graph \<Rightarrow> (string, string) gomap \<Rightarrow> bool \<Rightarrow> closure_memory \<times> closure_memory \<Rightarrow>
   (graph_key set \<times> closure_memory \<times> closure_memory) option" where
  "Shared before after renamed embedded memories =
     shared_views before after embedded (Survivors before after renamed) {} memories"

end
