(* ===== verification/Block_Walk.thy ===== *)
theory Block_Walk
  imports Block_Graph Population_Walk
begin

text \<open>
  Walks over stored values that look for the rows of chosen block definitions
  (\<open>internal/blockgraph/values.go\<close>). The walker enters only containers that can hold such a
  row. It remembers its answers by the address of a field list; here they are computed anew.
  A callback threads a state, and its error ends the walk.
\<close>

lemma size_nested_field: "fldNested f = Some fs \<Longrightarrow> c \<in> set fs \<Longrightarrow> size c < size f"
  using size_nested size_list_mem less_trans by blast

lemma size_definition_field:
  "fldBlocks f = Some bs \<Longrightarrow> Definition bs slug = Some view \<Longrightarrow> c \<in> set (bltFields view) \<Longrightarrow> size c < size f"
  using size_block_definition [of f bs slug view] size_list_mem [of c "bltFields view"]
  by (simp add: Definition_def definitionBySlug_def)

record block_walker =
  bwTargets :: "string set"
  bwWithin :: "string set"

definition graph_Walker :: "block_graph \<Rightarrow> string set \<Rightarrow> closure_memory \<Rightarrow> (block_walker \<times> closure_memory) option" where
  "graph_Walker g targets memory =
     map_option (\<lambda>(within, m). (\<lparr>bwTargets = targets, bwWithin = within\<rparr>, m)) (Containing g targets memory)"

record block_row =
  brBlock :: block_type
  brLocale :: string

function fieldHolds :: "block_walker \<Rightarrow> field \<Rightarrow> bool" where
  "fieldHolds w f \<longleftrightarrow>
     (case fldNested f of None \<Rightarrow> False | Some fs \<Rightarrow> list_ex (fieldHolds w) fs)
     \<or> (case fldBlocks f of None \<Rightarrow> False | Some bs \<Rightarrow> list_ex (\<lambda>b. bltSlug b \<in> bwWithin w) bs)"
  by pat_completeness auto
termination
  by (relation "measure (\<lambda>(w, f). size f)") (auto dest: size_nested_field)

declare fieldHolds.simps [simp del]

definition walker_Holds :: "block_walker \<Rightarrow> field list \<Rightarrow> bool" where
  "walker_Holds w fs = list_ex (fieldHolds w) fs"

text \<open>A loop that an error leaves.\<close>

fun each_until :: "('a \<Rightarrow> 's \<Rightarrow> 'e option \<times> 's) \<Rightarrow> 'a list \<Rightarrow> 's \<Rightarrow> 'e option \<times> 's" where
  "each_until f [] s = (None, s)"
| "each_until f (x # xs) s = (case f x s of (Some e, s1) \<Rightarrow> (Some e, s1) | (None, s1) \<Rightarrow> each_until f xs s1)"

lemma each_until_cong [fundef_cong]:
  assumes "xs = ys" "s = t" "\<And>x u. x \<in> set ys \<Longrightarrow> f x u = g x u"
  shows "each_until f xs s = each_until g ys t"
  unfolding assms(1,2) using assms(3) by (induction ys arbitrary: t) (auto split: option.split prod.split)

definition row_kind :: "svalue \<Rightarrow> string" where
  "row_kind entry = (case Get entry ''blockType'' of SString kind \<Rightarrow> kind | _ \<Rightarrow> [])"

text \<open>\<open>Visit\<close>, whose values are read by a lookup, given the visit of one field's value.\<close>

definition visit_fields ::
  "block_walker \<Rightarrow> (field \<Rightarrow> svalue \<Rightarrow> 's \<Rightarrow> 'e option \<times> 's) \<Rightarrow> field list \<Rightarrow> (string \<Rightarrow> svalue option) \<Rightarrow> 's \<Rightarrow> 'e option \<times> 's" where
  "visit_fields w visitField fs lookup s =
     (if \<not> walker_Holds w fs then (None, s)
      else each_until (\<lambda>f s. if \<not> fieldHolds w f then (None, s)
             else case lookup (fldName f) of None \<Rightarrow> (None, s) | Some v \<Rightarrow> visitField f v s) fs s)"

lemma visit_fields_cong [fundef_cong]:
  assumes "w = w'" "fs = gs" "l = l'" "s = s'" "\<And>f v s. f \<in> set gs \<Longrightarrow> t f v s = u f v s"
  shows "visit_fields w t fs l s = visit_fields w' u gs l' s'"
  unfolding visit_fields_def assms(1-4) using assms(5) by (auto intro!: each_until_cong split: option.split)

function VisitField ::
  "block_walker \<Rightarrow> (block_row \<Rightarrow> svalue \<Rightarrow> 's \<Rightarrow> 'e option \<times> 's) \<Rightarrow> string \<Rightarrow> field \<Rightarrow> svalue \<Rightarrow> 's \<Rightarrow> 'e option \<times> 's" where
  "VisitField w see code f v s =
     (if svalue_Kind v = KindInvalid \<or> svalue_Kind v = KindNull \<or> \<not> fieldHolds w f then (None, s)
      else if fldLocalized f \<and> code = [] then
        (if svalue_Kind v \<noteq> KindObject then (None, s)
         else each_until (\<lambda>l. VisitField w see l (unlocalized f) (Get v l)) (sortedKeys v) s)
      else case fldBlocks f of
        Some bs \<Rightarrow>
          (case v of
             SList t \<Rightarrow>
               each_until (\<lambda>entry s.
                 if svalue_Kind entry \<noteq> KindObject \<or> row_kind entry \<notin> bwWithin w then (None, s)
                 else case Definition bs (row_kind entry) of
                   None \<Rightarrow> (None, s)
                 | Some view \<Rightarrow>
                     (case if row_kind entry \<in> bwTargets w then see \<lparr>brBlock = view, brLocale = code\<rparr> entry s else (None, s) of
                        (Some e, s1) \<Rightarrow> (Some e, s1)
                      | (None, s1) \<Rightarrow> visit_fields w (VisitField w see code) (bltFields view) (Lookup entry) s1))
               (elements t) s
           | _ \<Rightarrow> (None, s))
      | None \<Rightarrow>
          (case fldNested f of
             None \<Rightarrow> (None, s)
           | Some fs \<Rightarrow>
               if fldType f = FieldTypeGroup then
                 (if svalue_Kind v = KindObject then visit_fields w (VisitField w see code) fs (Lookup v) s else (None, s))
               else
                 (case v of
                    SList t \<Rightarrow>
                      each_until (\<lambda>entry s.
                        if svalue_Kind entry = KindObject
                        then visit_fields w (VisitField w see code) fs (Lookup entry) s else (None, s)) (elements t) s
                  | _ \<Rightarrow> (None, s))))"
  by pat_completeness auto
termination
proof (relation "measures [\<lambda>(w, v, c, f, x, s). size f, \<lambda>(w, v, c, f, x, s). if fldLocalized f then 1 else 0]", goal_cases)
  case 1
  then show ?case by simp
qed (auto dest: size_nested_field size_definition_field)

declare VisitField.simps [simp del]

definition walker_Visit ::
  "block_walker \<Rightarrow> (block_row \<Rightarrow> svalue \<Rightarrow> 's \<Rightarrow> 'e option \<times> 's) \<Rightarrow> string \<Rightarrow> field list \<Rightarrow> (string \<Rightarrow> svalue option) \<Rightarrow> 's \<Rightarrow> 'e option \<times> 's" where
  "walker_Visit w see code fs lookup s = visit_fields w (VisitField w see code) fs lookup s"

section \<open>Rewriting\<close>

text \<open>
  A rewrite changes its private copy of a row's members and says whether it did. The values
  are returned unchanged unless a row below them changed.
\<close>

type_synonym ('e, 's) row_rewrite = "block_row \<Rightarrow> svalues \<Rightarrow> 's \<Rightarrow> ('e + svalues \<times> bool) \<times> 's"

fun rewrite_row_members ::
  "block_walker \<Rightarrow> (field \<Rightarrow> svalue \<Rightarrow> 's \<Rightarrow> ('e + svalue \<times> bool) \<times> 's) \<Rightarrow> field list \<Rightarrow> svalues \<Rightarrow> svalues option \<Rightarrow> 's \<Rightarrow>
   ('e + svalues option) \<times> 's" where
  "rewrite_row_members w rewriteField [] vals result s = (Inr result, s)"
| "rewrite_row_members w rewriteField (f # fs) vals result s =
     (if \<not> fieldHolds w f then rewrite_row_members w rewriteField fs vals result s
      else case map_of vals (fldName f) of
        None \<Rightarrow> rewrite_row_members w rewriteField fs vals result s
      | Some v \<Rightarrow>
          (case rewriteField f v s of
             (Inl e, s1) \<Rightarrow> (Inl e, s1)
           | (Inr (updated, changed), s1) \<Rightarrow>
               if \<not> changed then rewrite_row_members w rewriteField fs vals result s1
               else rewrite_row_members w rewriteField fs vals
                      (Some (put (fldName f) updated (case result of Some m \<Rightarrow> m | None \<Rightarrow> CloneValues vals))) s1))"

definition rewrite_fields ::
  "block_walker \<Rightarrow> (field \<Rightarrow> svalue \<Rightarrow> 's \<Rightarrow> ('e + svalue \<times> bool) \<times> 's) \<Rightarrow> field list \<Rightarrow> svalues \<Rightarrow> 's \<Rightarrow>
   ('e + svalues \<times> bool) \<times> 's" where
  "rewrite_fields w rewriteField fs vals s =
     (if \<not> walker_Holds w fs then (Inr (vals, False), s)
      else case rewrite_row_members w rewriteField fs vals None s of
        (Inl e, s1) \<Rightarrow> (Inl e, s1)
      | (Inr None, s1) \<Rightarrow> (Inr (vals, False), s1)
      | (Inr (Some result), s1) \<Rightarrow> (Inr (result, True), s1))"

lemma rewrite_row_members_cong:
  assumes "\<And>f v s. f \<in> set fs \<Longrightarrow> t f v s = u f v s"
  shows "rewrite_row_members w t fs vals r s = rewrite_row_members w u fs vals r s"
  using assms by (induction fs arbitrary: r s) (auto split: option.split sum.split prod.split)

lemma rewrite_fields_cong [fundef_cong]:
  assumes "w = w'" "fs = gs" "m = m'" "s = s'" "\<And>f v s. f \<in> set gs \<Longrightarrow> t f v s = u f v s"
  shows "rewrite_fields w t fs m s = rewrite_fields w' u gs m' s'"
proof -
  have "rewrite_row_members w' t gs m' None s' = rewrite_row_members w' u gs m' None s'"
    by (rule rewrite_row_members_cong) (rule assms(5))
  then show ?thesis unfolding rewrite_fields_def assms(1-4) by simp
qed

text \<open>
  \<open>rewriteRows\<close>: a row's fields and, when it is chosen, its definition view; \<^const>\<open>None\<close>
  passes the row over. The items before and after a change are the state of the loop.
\<close>

fun rewrite_items ::
  "(svalues \<Rightarrow> (field list \<times> block_type option) option) \<Rightarrow> ('e, 's) row_rewrite \<Rightarrow> string \<Rightarrow>
   (field list \<Rightarrow> svalues \<Rightarrow> 's \<Rightarrow> ('e + svalues \<times> bool) \<times> 's) \<Rightarrow> svalue list \<Rightarrow> 's \<Rightarrow> ('e + svalue list \<times> bool) \<times> 's" where
  "rewrite_items row rewrite code nested [] s = (Inr ([], False), s)"
| "rewrite_items row rewrite code nested (entry # items) s =
     (let skip = (\<lambda>s. case rewrite_items row rewrite code nested items s of
            (Inl e, s1) \<Rightarrow> (Inl e, s1) | (Inr (rest, changed), s1) \<Rightarrow> (Inr (entry # rest, changed), s1))
      in case CopyObject entry of
        (object, valid) \<Rightarrow>
          if \<not> valid then skip s
          else case row object of
            None \<Rightarrow> skip s
          | Some (fs, chosen) \<Rightarrow>
              (case (case chosen of None \<Rightarrow> (Inr (object, False), s) | Some view \<Rightarrow> rewrite \<lparr>brBlock = view, brLocale = code\<rparr> object s) of
                 (Inl e, s1) \<Rightarrow> (Inl e, s1)
               | (Inr (object1, rowChanged), s1) \<Rightarrow>
                   (case nested fs object1 s1 of
                      (Inl e, s2) \<Rightarrow> (Inl e, s2)
                    | (Inr (object2, nestedChanged), s2) \<Rightarrow>
                        (case rewrite_items row rewrite code nested items s2 of
                           (Inl e, s3) \<Rightarrow> (Inl e, s3)
                         | (Inr (rest, changed), s3) \<Rightarrow>
                             if rowChanged \<or> nestedChanged then (Inr (ObjectOf object2 # rest, True), s3)
                             else (Inr (entry # rest, changed), s3)))))"

definition rewriteRows ::
  "(svalues \<Rightarrow> (field list \<times> block_type option) option) \<Rightarrow> ('e, 's) row_rewrite \<Rightarrow> string \<Rightarrow>
   (field list \<Rightarrow> svalues \<Rightarrow> 's \<Rightarrow> ('e + svalues \<times> bool) \<times> 's) \<Rightarrow> svalue \<Rightarrow> 's \<Rightarrow> ('e + svalue \<times> bool) \<times> 's" where
  "rewriteRows row rewrite code nested v s =
     (case CopyList v of
        (items, valid) \<Rightarrow>
          if \<not> valid then (Inr (v, False), s)
          else case rewrite_items row rewrite code nested items s of
            (Inl e, s1) \<Rightarrow> (Inl e, s1)
          | (Inr (result, changed), s1) \<Rightarrow> (Inr (if changed then ListOf result else v, changed), s1))"

lemma rewrite_items_cong:
  assumes "\<And>m fs c vals s. row m = Some (fs, c) \<Longrightarrow> t fs vals s = u fs vals s"
  shows "rewrite_items row rewrite code t items s = rewrite_items row rewrite code u items s"
proof (induction items arbitrary: s)
  case (Cons entry items)
  then show ?case using assms by (simp add: Let_def case_prod_beta cong: option.case_cong sum.case_cong if_cong)
      (auto split: option.split sum.split)
qed simp

lemma rewriteRows_cong [fundef_cong]:
  assumes "row = row'" "rewrite = rewrite'" "code = code'" "v = v'" "s = s'"
    "\<And>m fs c vals s. row' m = Some (fs, c) \<Longrightarrow> t fs vals s = u fs vals s"
  shows "rewriteRows row rewrite code t v s = rewriteRows row' rewrite' code' u v' s'"
proof -
  have "rewrite_items row' rewrite' code' t items s' = rewrite_items row' rewrite' code' u items s'" for items
    by (rule rewrite_items_cong) (rule assms(6))
  then show ?thesis unfolding rewriteRows_def assms(1-5) by (cases "CopyList v'") simp
qed

text \<open>The members of an object value by locale, as \<open>RewriteField\<close> rewrites them.\<close>

fun rewrite_each_locale ::
  "(string \<Rightarrow> svalue \<Rightarrow> 's \<Rightarrow> ('e + svalue \<times> bool) \<times> 's) \<Rightarrow> svalue \<Rightarrow> string list \<Rightarrow> svalues option \<Rightarrow> 's \<Rightarrow> ('e + svalues option) \<times> 's" where
  "rewrite_each_locale rewriteLocale v [] result s = (Inr result, s)"
| "rewrite_each_locale rewriteLocale v (l # ls) result s =
     (case rewriteLocale l (Get v l) s of
        (Inl e, s1) \<Rightarrow> (Inl e, s1)
      | (Inr (updated, changed), s1) \<Rightarrow>
          rewrite_each_locale rewriteLocale v ls
            (if changed then Some (put l updated (case result of Some m \<Rightarrow> m | None \<Rightarrow> fst (CopyObject v))) else result) s1)"

lemma rewrite_each_locale_cong [fundef_cong]:
  assumes "v = v'" "ls = ls'" "r = r'" "s = s'" "\<And>l x s. l \<in> set ls' \<Longrightarrow> t l x s = u l x s"
  shows "rewrite_each_locale t v ls r s = rewrite_each_locale u v' ls' r' s'"
  unfolding assms(1-4) using assms(5) by (induction ls' arbitrary: r' s') (auto split: sum.split prod.split)

definition block_row_fields :: "block_walker \<Rightarrow> block_type list \<Rightarrow> svalues \<Rightarrow> (field list \<times> block_type option) option" where
  "block_row_fields w bs entry =
     (let slug = (case map_of entry ''blockType'' of Some (SString kind) \<Rightarrow> kind | _ \<Rightarrow> []) in
      if slug \<notin> bwWithin w then None
      else case Definition bs slug of
        None \<Rightarrow> None
      | Some view \<Rightarrow> Some (bltFields view, if slug \<in> bwTargets w then Some view else None))"

function RewriteField ::
  "block_walker \<Rightarrow> ('e, 's) row_rewrite \<Rightarrow> string \<Rightarrow> field \<Rightarrow> svalue \<Rightarrow> 's \<Rightarrow> ('e + svalue \<times> bool) \<times> 's" where
  "RewriteField w rewrite code f v s =
     (if svalue_Kind v = KindInvalid \<or> svalue_Kind v = KindNull \<or> \<not> fieldHolds w f then (Inr (v, False), s)
      else if fldLocalized f \<and> code = [] then
        (if svalue_Kind v \<noteq> KindObject then (Inr (v, False), s)
         else case rewrite_each_locale (\<lambda>l. RewriteField w rewrite l (unlocalized f)) v (sortedKeys v) None s of
           (Inl e, s1) \<Rightarrow> (Inl e, s1)
         | (Inr None, s1) \<Rightarrow> (Inr (v, False), s1)
         | (Inr (Some result), s1) \<Rightarrow> (Inr (ObjectOf result, True), s1))
      else case fldBlocks f of
        Some bs \<Rightarrow>
          rewriteRows (block_row_fields w bs) rewrite code (\<lambda>fs. rewrite_fields w (RewriteField w rewrite code) fs) v s
      | None \<Rightarrow>
          (case fldNested f of
             None \<Rightarrow> (Inr (v, False), s)
           | Some fs \<Rightarrow>
               if fldType f = FieldTypeGroup then
                 (case CopyObject v of
                    (object, valid) \<Rightarrow>
                      if \<not> valid then (Inr (v, False), s)
                      else case rewrite_fields w (RewriteField w rewrite code) fs object s of
                        (Inl e, s1) \<Rightarrow> (Inl e, s1)
                      | (Inr (updated, changed), s1) \<Rightarrow> (Inr (if changed then ObjectOf updated else v, changed), s1))
               else
                 rewriteRows (\<lambda>_. Some (fs, None)) rewrite code (\<lambda>fs. rewrite_fields w (RewriteField w rewrite code) fs) v s))"
  by pat_completeness auto
termination
proof (relation "measures [\<lambda>(w, v, c, f, x, s). size f, \<lambda>(w, v, c, f, x, s). if fldLocalized f then 1 else 0]", goal_cases)
  case 1
  then show ?case by simp
qed (auto dest: size_nested_field size_definition_field simp: block_row_fields_def Let_def split: if_splits option.splits)

declare RewriteField.simps [simp del]

definition Rewrite ::
  "block_walker \<Rightarrow> ('e, 's) row_rewrite \<Rightarrow> string \<Rightarrow> field list \<Rightarrow> svalues \<Rightarrow> 's \<Rightarrow> ('e + svalues \<times> bool) \<times> 's" where
  "Rewrite w rewrite code fs vals s = rewrite_fields w (RewriteField w rewrite code) fs vals s"

end
