(* ===== verification/Block_Graph_Views.thy ===== *)
theory Block_Graph_Views
  imports Block_Graph
begin

text \<open>
  What a schema places, and that the graph built from it (\<open>internal/blockgraph/graph.go\<close>) has
  exactly the placed views and an edge for every direct placement.
\<close>

section \<open>What a schema places\<close>

lemma selection_size: "s \<in> set (collectSelections f l) \<Longrightarrow> size (selView s) \<le> size f"
  using weight_field [of f l] member_le_sum_list [of "size (selView s)" "map (size \<circ> selView) (collectSelections f l)"]
  by simp

lemma selection_fields_size: "s \<in> set (collectSelections f l) \<Longrightarrow> c \<in> set (bltFields (selView s)) \<Longrightarrow> size c < size f"
  using selection_size [of s f l] size_block_fields [of "selView s"] size_list_mem [of c "bltFields (selView s)"] by linarith

function placements :: "field \<Rightarrow> bool \<Rightarrow> (graph_key \<times> block_type) list" where
  "placements f l = concat (map (\<lambda>s. (selKey s, selView s)
     # concat (map (\<lambda>c. placements c (keyLocalized (selKey s))) (bltFields (selView s)))) (collectSelections f l))"
  by pat_completeness auto
termination
  by (relation "measure (\<lambda>(f, l). size f)") (auto intro: selection_fields_size)

declare placements.simps [simp del]

definition resource_fields :: "block_snapshot \<Rightarrow> field list" where
  "resource_fields s = concat (map colFields (bsCollections s @ bsGlobals s))"

definition placed_views :: "block_snapshot \<Rightarrow> (graph_key \<times> block_type) list" where
  "placed_views s = concat (map (\<lambda>f. placements f False) (resource_fields s))"

text \<open>Every placement of a definition shares one of its two views.\<close>

definition views_agree :: "block_snapshot \<Rightarrow> bool" where
  "views_agree s \<longleftrightarrow> (\<forall>(k, v)\<in>set (placed_views s). \<forall>(l, w)\<in>set (placed_views s). k = l \<longrightarrow> v = w)"

definition view_selections :: "graph_key \<Rightarrow> block_type \<Rightarrow> graph_selection list" where
  "view_selections k v = selections_of (bltFields v) (keyLocalized k)"

text \<open>A view places another one directly.\<close>

definition places :: "block_snapshot \<Rightarrow> bool \<Rightarrow> (graph_key \<times> graph_key) set" where
  "places s embedded = {(k, k'). \<exists>v. (k, v) \<in> set (placed_views s)
     \<and> (\<exists>sel\<in>set (view_selections k v). selKey sel = k' \<and> (selEmbedded sel \<longrightarrow> embedded))}"

lemma placements_here: "sel \<in> set (collectSelections f l) \<Longrightarrow> (selKey sel, selView sel) \<in> set (placements f l)"
  by (subst placements.simps) auto

lemma placements_below: "sel \<in> set (collectSelections f l) \<Longrightarrow> c \<in> set (bltFields (selView sel)) \<Longrightarrow>
    p \<in> set (placements c (keyLocalized (selKey sel))) \<Longrightarrow> p \<in> set (placements f l)"
  by (subst placements.simps) auto

lemma placements_closed:
  "(k, v) \<in> set (placements f l) \<Longrightarrow> sel \<in> set (view_selections k v) \<Longrightarrow> (selKey sel, selView sel) \<in> set (placements f l)"
proof (induction "size f" arbitrary: f l rule: less_induct)
  case less
  from less.prems(1) obtain s where s: "s \<in> set (collectSelections f l)"
    and "(k, v) = (selKey s, selView s) \<or> (\<exists>c\<in>set (bltFields (selView s)). (k, v) \<in> set (placements c (keyLocalized (selKey s))))"
    by (subst (asm) placements.simps) auto
  then consider "k = selKey s" "v = selView s" | c where "c \<in> set (bltFields (selView s))" "(k, v) \<in> set (placements c (keyLocalized (selKey s)))"
    by auto
  then show ?case
  proof cases
    case 1
    then obtain c where "c \<in> set (bltFields (selView s))" "sel \<in> set (collectSelections c (keyLocalized (selKey s)))"
      using less.prems(2) by (auto simp: view_selections_def selections_of_def)
    then show ?thesis using placements_below [OF s] placements_here by blast
  next
    case (2 c)
    then show ?thesis using less.hyps [OF selection_fields_size [OF s 2(1)] 2(2) less.prems(2)] placements_below [OF s] by blast
  qed
qed

lemma placed_closed: "(k, v) \<in> set (placed_views s) \<Longrightarrow> sel \<in> set (view_selections k v) \<Longrightarrow>
    (selKey sel, selView sel) \<in> set (placed_views s)"
  using placements_closed [of k v _ _ sel] by (fastforce simp: placed_views_def)

lemma placed_root: "f \<in> set (resource_fields s) \<Longrightarrow> sel \<in> set (collectSelections f False) \<Longrightarrow>
    (selKey sel, selView sel) \<in> set (placed_views s)"
  unfolding placed_views_def using placements_here by fastforce

lemma placements_induct:
  assumes "(k, v) \<in> set (placements f l)"
    and "\<And>sel. sel \<in> set (collectSelections f l) \<Longrightarrow> P (selKey sel) (selView sel)"
    and "\<And>k v sel. P k v \<Longrightarrow> sel \<in> set (view_selections k v) \<Longrightarrow> P (selKey sel) (selView sel)"
  shows "P k v"
  using assms(1,2)
proof (induction "size f" arbitrary: f l rule: less_induct)
  case less
  from less.prems(1) obtain s where s: "s \<in> set (collectSelections f l)"
    and "(k, v) = (selKey s, selView s) \<or> (\<exists>c\<in>set (bltFields (selView s)). (k, v) \<in> set (placements c (keyLocalized (selKey s))))"
    by (subst (asm) placements.simps) auto
  then consider "k = selKey s" "v = selView s" | c where "c \<in> set (bltFields (selView s))" "(k, v) \<in> set (placements c (keyLocalized (selKey s)))"
    by auto
  then show ?case
  proof cases
    case 1
    then show ?thesis using less.prems(2) [OF s] by simp
  next
    case (2 c)
    have "P (selKey sel) (selView sel)" if "sel \<in> set (collectSelections c (keyLocalized (selKey s)))" for sel
      by (rule assms(3) [OF less.prems(2) [OF s]]) (use that 2(1) in \<open>auto simp: view_selections_def selections_of_def\<close>)
    then show ?thesis using less.hyps [OF selection_fields_size [OF s 2(1)] 2(2)] by blast
  qed
qed

lemma placed_induct:
  assumes "(k, v) \<in> set (placed_views s)"
    and "\<And>f sel. f \<in> set (resource_fields s) \<Longrightarrow> sel \<in> set (collectSelections f False) \<Longrightarrow> P (selKey sel) (selView sel)"
    and "\<And>k v sel. P k v \<Longrightarrow> sel \<in> set (view_selections k v) \<Longrightarrow> P (selKey sel) (selView sel)"
  shows "P k v"
proof -
  obtain f where f: "f \<in> set (resource_fields s)" "(k, v) \<in> set (placements f False)" using assms(1) by (auto simp: placed_views_def)
  show ?thesis by (rule placements_induct [OF f(2)]) (use assms(2) [OF f(1)] assms(3) in auto)
qed

section \<open>Building the graph\<close>

lemma selected_keys_set: "set (selected_keys e sels) = selKey ` {sel \<in> set sels. selEmbedded sel = e}"
proof -
  have "set (fold (\<lambda>s keys. if selEmbedded s = e then appendKey keys (selKey s) else keys) sels keys)
      = set keys \<union> selKey ` {sel \<in> set sels. selEmbedded sel = e}" for keys
    by (induction sels arbitrary: keys) (auto simp: appendKey_def)
  then show ?thesis by (simp add: selected_keys_def)
qed

text \<open>The worklist: the views found, and those whose own selections are not yet recorded.\<close>

definition exploring :: "block_snapshot \<Rightarrow> (graph_key, block_type) gomap \<Rightarrow> (graph_key \<times> block_type) list \<Rightarrow> bool" where
  "exploring s views pending \<longleftrightarrow> (\<forall>k v. map_of views k = Some v \<longrightarrow> (k, v) \<in> set (placed_views s))
     \<and> (\<forall>(k, v)\<in>set pending. map_of views k = Some v) \<and> distinct (map fst pending)"

definition edges_ok :: "block_graph \<Rightarrow> (graph_key \<times> block_type) list \<Rightarrow> bool" where
  "edges_ok g pending \<longleftrightarrow>
     (\<forall>k. k \<in> fst ` set pending \<or> map_of (grViews g) k = None \<longrightarrow> map_of (grOrdinary g) k = None \<and> map_of (grEmbedded g) k = None)
     \<and> (\<forall>k v. map_of (grViews g) k = Some v \<longrightarrow> k \<notin> fst ` set pending \<longrightarrow>
          (\<forall>e. Selects g k e = selected_keys e (view_selections k v))
          \<and> (\<forall>sel\<in>set (view_selections k v). mem_key (grViews g) (selKey sel)))"

lemma edges_ok_unset:
  assumes "edges_ok g pending" "k \<in> fst ` set pending \<or> map_of (grViews g) k = None"
  shows "map_of (grOrdinary g) k = None \<and> map_of (grEmbedded g) k = None"
  by (rule mp [OF spec [OF conjunct1 [OF assms(1) [unfolded edges_ok_def]]] assms(2)])

lemma edges_ok_set:
  assumes "edges_ok g pending" "map_of (grViews g) k = Some v" "k \<notin> fst ` set pending"
  shows "Selects g k e = selected_keys e (view_selections k v)"
    and "sel \<in> set (view_selections k v) \<Longrightarrow> mem_key (grViews g) (selKey sel)"
  using conjunct2 [OF assms(1) [unfolded edges_ok_def]] assms(2,3) by simp_all

lemma selected_keys_none: "\<not> (\<exists>sel\<in>set sels. selEmbedded sel = e) \<Longrightarrow> selected_keys e sels = []"
proof -
  assume "\<not> (\<exists>sel\<in>set sels. selEmbedded sel = e)"
  then have "{sel \<in> set sels. selEmbedded sel = e} = {}" by blast
  then have "set (selected_keys e sels) = {}" by (simp only: selected_keys_set image_empty)
  then show ?thesis by simp
qed

lemma exploring_put:
  assumes "exploring s views pending" "(k, v) \<in> set (placed_views s)" "\<not> mem_key views k"
  shows "exploring s (put k v views) ((k, v) # pending)"
proof -
  have waits: "map_of views l = Some w" if "(l, w) \<in> set pending" for l w
    using assms(1) that unfolding exploring_def by blast
  have "k \<notin> fst ` set pending" using waits assms(3) by fastforce
  then show ?thesis using assms waits unfolding exploring_def by (auto simp: image_iff)
qed

lemma discover_says:
  assumes "\<And>sel. sel \<in> set sels \<Longrightarrow> (selKey sel, selView sel) \<in> set (placed_views s)" "exploring s views pending"
    "discover sels (views, pending) = (views', pending')"
  shows "exploring s views' pending' \<and> map_of views \<subseteq>\<^sub>m map_of views'
    \<and> (\<forall>sel\<in>set sels. mem_key views' (selKey sel))
    \<and> fst ` set pending' = fst ` set pending \<union> (dom (map_of views') - dom (map_of views))"
  using assms
proof (induction sels arbitrary: views pending)
  case Nil
  then show ?case by (simp add: discover_def)
next
  case (Cons sel sels)
  show ?case
  proof (cases "mem_key views (selKey sel)")
    case True
    have "discover sels (views, pending) = (views', pending')" using Cons.prems(3) True by (simp add: discover_def)
    then have ih: "exploring s views' pending' \<and> map_of views \<subseteq>\<^sub>m map_of views'
      \<and> (\<forall>sel\<in>set sels. mem_key views' (selKey sel))
      \<and> fst ` set pending' = fst ` set pending \<union> (dom (map_of views') - dom (map_of views))"
      by (intro Cons.IH) (use Cons.prems in auto)
    then have "mem_key views' (selKey sel)" using True by (auto simp: map_le_def dom_def)
    then show ?thesis using ih by simp
  next
    case False
    let ?views = "put (selKey sel) (selView sel) views" and ?pending = "(selKey sel, selView sel) # pending"
    have "discover sels (?views, ?pending) = (views', pending')" using Cons.prems(3) False by (simp add: discover_def)
    moreover have "exploring s ?views ?pending"
      by (rule exploring_put [OF Cons.prems(2) _ False]) (rule Cons.prems(1), simp)
    ultimately have ih: "exploring s views' pending' \<and> map_of ?views \<subseteq>\<^sub>m map_of views'
      \<and> (\<forall>sel\<in>set sels. mem_key views' (selKey sel))
      \<and> fst ` set pending' = fst ` set ?pending \<union> (dom (map_of views') - dom (map_of ?views))"
      by (intro Cons.IH) (use Cons.prems in auto)
    then have le: "map_of ?views \<subseteq>\<^sub>m map_of views'" by blast
    have "map_of views \<subseteq>\<^sub>m map_of ?views" using False by (auto simp: map_le_def dom_def)
    then have "map_of views \<subseteq>\<^sub>m map_of views'" using le map_le_trans by blast
    moreover have here: "map_of views' (selKey sel) = Some (selView sel)" using le by (auto simp: map_le_def dom_def)
    moreover have "dom (map_of ?views) = insert (selKey sel) (dom (map_of views))" by (auto simp: dom_def)
    ultimately show ?thesis using ih False by (auto simp: dom_def)
  qed
qed

lemma map_leD: "m \<subseteq>\<^sub>m n \<Longrightarrow> m k = Some v \<Longrightarrow> n k = Some v"
  by (auto simp: map_le_def dom_def)

lemma record_edges_says:
  "map_of (grOrdinary (record_edges key sels g)) k =
     (if k = key \<and> (\<exists>sel\<in>set sels. \<not> selEmbedded sel) then Some (selected_keys False sels) else map_of (grOrdinary g) k)"
  "map_of (grEmbedded (record_edges key sels g)) k =
     (if k = key \<and> (\<exists>sel\<in>set sels. selEmbedded sel) then Some (selected_keys True sels) else map_of (grEmbedded g) k)"
  by (auto simp: record_edges_def)

lemma record_edges_kept [simp]:
  "grViews (record_edges key sels g) = grViews g" "grResources (record_edges key sels g) = grResources g"
  "grByID (record_edges key sels g) = grByID g"
  by (simp_all add: record_edges_def)

lemma Selects_views [simp]: "Selects (g\<lparr>grViews := views\<rparr>) k e = Selects g k e"
  by (simp add: Selects_def)

lemma explore_step:
  assumes x: "exploring s (grViews g) ((key, view) # pending)" and ok: "edges_ok g ((key, view) # pending)"
    and d: "discover (view_selections key view) (grViews g, pending) = (views', pending')"
  shows "exploring s views' pending' \<and> edges_ok ((record_edges key (view_selections key view) g)\<lparr>grViews := views'\<rparr>) pending'
    \<and> map_of (grViews g) \<subseteq>\<^sub>m map_of views'"
proof -
  let ?sels = "view_selections key view" and ?g = "record_edges key (view_selections key view) g"
  have here: "map_of (grViews g) key = Some view" "(key, view) \<in> set (placed_views s)" "key \<notin> fst ` set pending"
    using x by (auto simp: exploring_def)
  have "exploring s (grViews g) pending" using x by (auto simp: exploring_def)
  from discover_says [OF placed_closed [OF here(2)] this d]
  have new: "exploring s views' pending'" "map_of (grViews g) \<subseteq>\<^sub>m map_of views'" "\<forall>sel\<in>set ?sels. mem_key views' (selKey sel)"
    "fst ` set pending' = fst ` set pending \<union> (dom (map_of views') - dom (map_of (grViews g)))" by blast+
  have unset: "map_of (grOrdinary g) k = None \<and> map_of (grEmbedded g) k = None"
    if "k \<in> fst ` set ((key, view) # pending) \<or> map_of (grViews g) k = None" for k
    by (rule edges_ok_unset [OF ok that])
  have "edges_ok (?g\<lparr>grViews := views'\<rparr>) pending'"
    unfolding edges_ok_def
  proof (intro conjI allI impI)
    fix k assume k: "k \<in> fst ` set pending' \<or> map_of (grViews (?g\<lparr>grViews := views'\<rparr>)) k = None"
    have key: "key \<notin> dom (map_of views') - dom (map_of (grViews g))" "map_of views' key \<noteq> None"
      using here(1) map_leD [OF new(2) here(1)] by auto
    have "k \<noteq> key" using k here(3) key unfolding new(4) by auto
    moreover have "map_of (grViews g) k = None" if "map_of views' k = None"
      using that map_leD [OF new(2), of k] by (cases "map_of (grViews g) k") auto
    then have "k \<in> fst ` set pending \<or> map_of (grViews g) k = None" using k unfolding new(4) by auto
    ultimately show "map_of (grOrdinary (?g\<lparr>grViews := views'\<rparr>)) k = None" "map_of (grEmbedded (?g\<lparr>grViews := views'\<rparr>)) k = None"
      using unset [of k] by (auto simp: record_edges_says)
  next
    fix k v assume k: "map_of (grViews (?g\<lparr>grViews := views'\<rparr>)) k = Some v" "k \<notin> fst ` set pending'"
    then have v: "map_of views' k = Some v" by simp
    have "k \<notin> fst ` set pending" "k \<notin> dom (map_of views') - dom (map_of (grViews g))"
      using k(2) unfolding new(4) by blast+
    then obtain w where w: "map_of (grViews g) k = Some w" using v by blast
    then have "w = v" using map_leD [OF new(2) w] v by simp
    then have old: "map_of (grViews g) k = Some v" "k \<notin> fst ` set pending" using w \<open>k \<notin> fst ` set pending\<close> by auto
    show "Selects (?g\<lparr>grViews := views'\<rparr>) k e = selected_keys e (view_selections k v)" for e
    proof (cases "k = key")
      case True
      then have "v = view" using old here by simp
      then show ?thesis using True unset [of key] selected_keys_none [of ?sels e]
        by (cases e) (auto simp: Selects_def record_edges_says)
    next
      case False
      have "Selects g k e = selected_keys e (view_selections k v)"
        by (rule edges_ok_set(1) [OF ok old(1)]) (use False old(2) in simp)
      then show ?thesis using False by (cases e) (simp_all add: Selects_def record_edges_says)
    qed
    show "\<forall>sel\<in>set (view_selections k v). mem_key (grViews (?g\<lparr>grViews := views'\<rparr>)) (selKey sel)"
    proof (cases "k = key")
      case True
      then show ?thesis using old here new(3) by simp
    next
      case False
      then have "\<forall>sel\<in>set (view_selections k v). mem_key (grViews g) (selKey sel)"
        using edges_ok_set(2) [OF ok old(1)] old(2) by simp
      then show ?thesis using map_leD [OF new(2)] by fastforce
    qed
  qed
  then show ?thesis using new(1,2) by blast
qed

lemma explore_ok:
  "exploring s (grViews g) pending \<Longrightarrow> edges_ok g pending \<Longrightarrow>
   exploring s (grViews (explore pending g)) [] \<and> edges_ok (explore pending g) []
   \<and> map_of (grViews g) \<subseteq>\<^sub>m map_of (grViews (explore pending g))
   \<and> grResources (explore pending g) = grResources g \<and> grByID (explore pending g) = grByID g"
proof (induction pending g rule: explore.induct)
  case (2 key view pending g)
  obtain views' pending' where d: "discover (view_selections key view) (grViews g, pending) = (views', pending')" by fastforce
  note step = explore_step [OF 2(2,3) d]
  let ?g = "(record_edges key (view_selections key view) g)\<lparr>grViews := views'\<rparr>"
  have e: "explore ((key, view) # pending) g = explore pending' ?g"
    using d by (simp add: view_selections_def Let_def)
  have "exploring s (grViews (explore pending' ?g)) [] \<and> edges_ok (explore pending' ?g) []
     \<and> map_of (grViews ?g) \<subseteq>\<^sub>m map_of (grViews (explore pending' ?g))
     \<and> grResources (explore pending' ?g) = grResources ?g \<and> grByID (explore pending' ?g) = grByID ?g"
    by (rule 2(1)) (use d step in \<open>auto simp: view_selections_def\<close>)
  then show ?case unfolding e using conjunct2 [OF conjunct2 [OF step]] map_le_trans by simp blast
qed simp

text \<open>The resources are read first: every view found so far waits.\<close>

definition gathering :: "block_snapshot \<Rightarrow> field set \<Rightarrow> (graph_key, block_type) gomap \<Rightarrow> (graph_key \<times> block_type) list \<Rightarrow> bool" where
  "gathering s R views pending \<longleftrightarrow> exploring s views pending \<and> fst ` set pending = dom (map_of views)
     \<and> (\<forall>f\<in>R. \<forall>sel\<in>set (collectSelections f False). mem_key views (selKey sel))"

lemma discover_gathering:
  assumes "gathering s R views pending" "f \<in> set (resource_fields s)"
    "discover (collectSelections f False) (views, pending) = (views', pending')"
  shows "gathering s (insert f R) views' pending'"
proof -
  have x: "exploring s views pending" using assms(1) by (simp add: gathering_def)
  from discover_says [OF placed_root [OF assms(2)] x assms(3)]
  have new: "exploring s views' pending'" "map_of views \<subseteq>\<^sub>m map_of views'"
    "\<forall>sel\<in>set (collectSelections f False). mem_key views' (selKey sel)"
    "fst ` set pending' = fst ` set pending \<union> (dom (map_of views') - dom (map_of views))" by blast+
  have "dom (map_of views) \<subseteq> dom (map_of views')" using new(2) by (auto simp: map_le_def dom_def)
  moreover have "mem_key views' k" if "mem_key views k" for k using that map_leD [OF new(2)] by fastforce
  ultimately have "fst ` set pending' = dom (map_of views')"
    "\<And>g sel. g \<in> insert f R \<Longrightarrow> sel \<in> set (collectSelections g False) \<Longrightarrow> mem_key views' (selKey sel)"
    using assms(1) new(3,4) unfolding gathering_def by auto
  then show ?thesis using new(1) unfolding gathering_def by simp
qed

lemma discover_fields_gathering:
  "gathering s R views pending \<Longrightarrow> set fs \<subseteq> set (resource_fields s) \<Longrightarrow>
   fold (\<lambda>f. discover (collectSelections f False)) fs (views, pending) = (views', pending') \<Longrightarrow>
   gathering s (R \<union> set fs) views' pending'"
proof (induction fs arbitrary: R views pending)
  case (Cons f fs)
  obtain views1 pending1 where d: "discover (collectSelections f False) (views, pending) = (views1, pending1)" by fastforce
  have "gathering s (insert f R) views1 pending1" using discover_gathering [OF Cons.prems(1) _ d] Cons.prems(2) by simp
  from Cons.IH [OF this] show ?case using Cons.prems(2,3) d by simp
qed simp

definition bare :: "block_graph \<Rightarrow> bool" where
  "bare g \<longleftrightarrow> grOrdinary g = [] \<and> grEmbedded g = []"

lemma add_resource_gathering:
  assumes "gathering s R (grViews g) pending \<and> bare g" "set (colFields c) \<subseteq> set (resource_fields s)"
    "add_resource global c (g, pending) = (g', pending')"
  shows "gathering s (R \<union> set (colFields c)) (grViews g') pending' \<and> bare g'"
  using discover_fields_gathering [of s R "grViews g" pending "colFields c"] assms
  by (auto simp: add_resource_def bare_def split: prod.splits)

lemma add_resources_gathering:
  "gathering s R (grViews g) pending \<and> bare g \<Longrightarrow> (\<And>c. c \<in> set cs \<Longrightarrow> set (colFields c) \<subseteq> set (resource_fields s)) \<Longrightarrow>
   fold (add_resource global) cs (g, pending) = (g', pending') \<Longrightarrow>
   gathering s (R \<union> set (concat (map colFields cs))) (grViews g') pending' \<and> bare g'"
proof (induction cs arbitrary: R g pending)
  case (Cons c cs)
  obtain g1 pending1 where d: "add_resource global c (g, pending) = (g1, pending1)" by fastforce
  have "gathering s (R \<union> set (colFields c)) (grViews g1) pending1 \<and> bare g1"
    by (rule add_resource_gathering [OF Cons.prems(1) _ d]) (use Cons.prems(2) in simp)
  from Cons.IH [OF this] show ?case using Cons.prems(2,3) d by (simp add: Un_assoc)
qed simp

lemma graph_New_ok:
  "exploring s (grViews (graph_New s)) [] \<and> edges_ok (graph_New s) []
   \<and> (\<forall>f\<in>set (resource_fields s). \<forall>sel\<in>set (collectSelections f False). mem_key (grViews (graph_New s)) (selKey sel))"
proof -
  obtain g1 p1 where a: "fold (add_resource False) (bsCollections s) (empty_graph, []) = (g1, p1)" by fastforce
  obtain g2 p2 where b: "fold (add_resource True) (bsGlobals s) (g1, p1) = (g2, p2)" by fastforce
  have start: "gathering s {} (grViews empty_graph) [] \<and> bare empty_graph"
    by (simp add: gathering_def exploring_def bare_def empty_graph_def)
  have one: "gathering s ({} \<union> set (concat (map colFields (bsCollections s)))) (grViews g1) p1 \<and> bare g1"
    by (rule add_resources_gathering [OF start _ a]) (auto simp: resource_fields_def)
  have two: "gathering s ({} \<union> set (concat (map colFields (bsCollections s))) \<union> set (concat (map colFields (bsGlobals s)))) (grViews g2) p2 \<and> bare g2"
    by (rule add_resources_gathering [OF one _ b]) (auto simp: resource_fields_def)
  then have x: "exploring s (grViews g2) p2"
    and roots: "\<forall>f\<in>set (resource_fields s). \<forall>sel\<in>set (collectSelections f False). mem_key (grViews g2) (selKey sel)"
    by (auto simp: gathering_def resource_fields_def)
  have "edges_ok g2 p2"
    unfolding edges_ok_def
  proof (intro conjI allI impI)
    show "map_of (grOrdinary g2) k = None" "map_of (grEmbedded g2) k = None" for k using two by (simp_all add: bare_def)
    fix k v assume "map_of (grViews g2) k = Some v" "k \<notin> fst ` set p2"
    then have False using two by (auto simp: gathering_def dom_def)
    then show "Selects g2 k e = selected_keys e (view_selections k v)"
      "\<forall>sel\<in>set (view_selections k v). mem_key (grViews g2) (selKey sel)" for e by simp_all
  qed
  note explored = explore_ok [OF x this]
  have "graph_New s = explore p2 g2" using a b by (simp add: graph_New_def)
  moreover have "mem_key (grViews (explore p2 g2)) k" if "mem_key (grViews g2) k" for k
    using that map_leD [of "map_of (grViews g2)"] explored by blast
  ultimately show ?thesis using explored roots by auto
qed

section \<open>Views and their edges\<close>

lemma graph_views:
  assumes "views_agree s"
  shows "map_of (grViews (graph_New s)) k = Some v \<longleftrightarrow> (k, v) \<in> set (placed_views s)"
proof
  let ?g = "graph_New s"
  have ok: "exploring s (grViews ?g) []" "edges_ok ?g []"
    "\<forall>f\<in>set (resource_fields s). \<forall>sel\<in>set (collectSelections f False). mem_key (grViews ?g) (selKey sel)"
    using graph_New_ok [of s] by blast+
  have placed: "(k, v) \<in> set (placed_views s)" if "map_of (grViews ?g) k = Some v" for k v
    using ok(1) that by (auto simp: exploring_def)
  then show "map_of (grViews ?g) k = Some v \<Longrightarrow> (k, v) \<in> set (placed_views s)" .
  have agree: "v = w" if "(k, v) \<in> set (placed_views s)" "(k, w) \<in> set (placed_views s)" for k v w
    using assms that unfolding views_agree_def by fastforce
  assume kv: "(k, v) \<in> set (placed_views s)"
  have "(k, v) \<in> set (placed_views s) \<and> mem_key (grViews ?g) k"
  proof (rule placed_induct [OF kv])
    fix f sel assume "f \<in> set (resource_fields s)" "sel \<in> set (collectSelections f False)"
    then show "(selKey sel, selView sel) \<in> set (placed_views s) \<and> mem_key (grViews ?g) (selKey sel)"
      using ok(3) placed_root by blast
  next
    fix k v sel assume k: "(k, v) \<in> set (placed_views s) \<and> mem_key (grViews ?g) k" and sel: "sel \<in> set (view_selections k v)"
    then obtain w where w: "map_of (grViews ?g) k = Some w" by blast
    then have "w = v" using agree placed k by blast
    then have "mem_key (grViews ?g) (selKey sel)" using ok(2) w sel by (auto simp: edges_ok_def)
    then show "(selKey sel, selView sel) \<in> set (placed_views s) \<and> mem_key (grViews ?g) (selKey sel)"
      using placed_closed k sel by blast
  qed
  then show "map_of (grViews ?g) k = Some v" using agree placed kv by blast
qed

lemma graph_children_places:
  assumes "views_agree s" "k' \<in> set (graph_children (graph_New s) k e)"
  shows "(k, k') \<in> places s e"
proof -
  let ?g = "graph_New s"
  have ok: "edges_ok ?g []" using graph_New_ok [of s] by blast
  obtain e' where e': "k' \<in> set (Selects ?g k e')" "e' \<longrightarrow> e" using assms(2) by (auto simp: graph_children_def split: if_splits)
  have "mem_key (grViews ?g) k"
  proof (rule ccontr)
    assume "\<not> mem_key (grViews ?g) k"
    then have "map_of (grOrdinary ?g) k = None" "map_of (grEmbedded ?g) k = None" using ok by (auto simp: edges_ok_def)
    then show False using e'(1) by (auto simp: Selects_def split: if_splits)
  qed
  then obtain v where v: "map_of (grViews ?g) k = Some v" by blast
  then have "Selects ?g k e' = selected_keys e' (view_selections k v)" using ok by (auto simp: edges_ok_def)
  then show ?thesis using e' v graph_views [OF assms(1), of k v] by (auto simp: places_def selected_keys_set)
qed

lemma places_graph_children:
  assumes "views_agree s" "(k, k') \<in> places s e"
  shows "k' \<in> set (graph_children (graph_New s) k e)"
proof -
  let ?g = "graph_New s"
  obtain v sel where v: "(k, v) \<in> set (placed_views s)" "sel \<in> set (view_selections k v)" "selKey sel = k'" "selEmbedded sel \<longrightarrow> e"
    using assms(2) by (auto simp: places_def)
  have "map_of (grViews ?g) k = Some v" using v(1) graph_views [OF assms(1)] by blast
  then have "Selects ?g k b = selected_keys b (view_selections k v)" for b
    using graph_New_ok [of s] by (auto simp: edges_ok_def)
  then show ?thesis using v by (cases "selEmbedded sel") (auto simp: graph_children_def selected_keys_set)
qed

lemma graph_children_iff:
  "views_agree s \<Longrightarrow> set (graph_children (graph_New s) k e) = places s e `` {k}"
  using graph_children_places places_graph_children by blast

end
