(* ===== verification/Block_Graph_Properties.thy ===== *)
theory Block_Graph_Properties
  imports Block_Graph_Views Projection_Properties
begin

text \<open>
  Closures in the graph of block definitions (\<open>internal/blockgraph/graph.go\<close>) are reachability
  by direct placements, whatever the graph was asked before, and its fuel is enough.
\<close>

section \<open>Closures are reachability\<close>

definition memory_ok :: "(bool \<Rightarrow> (graph_key \<times> graph_key) set) \<Rightarrow> closure_memory \<Rightarrow> bool" where
  "memory_ok R m \<longleftrightarrow> (\<forall>k e r. map_of m (k, e) = Some r \<longrightarrow> r = (R e)\<^sup>* `` {k})"

lemma memory_ok_empty [simp]: "memory_ok R []"
  by (simp add: memory_ok_def)

lemma memory_ok_put: "memory_ok R m \<Longrightarrow> r = (R e)\<^sup>* `` {k} \<Longrightarrow> memory_ok R (put (k, e) r m)"
  by (auto simp: memory_ok_def)

lemma memory_ok_known: "memory_ok R m \<Longrightarrow> map_of m (k, e) = Some r \<Longrightarrow> r = (R e)\<^sup>* `` {k}"
  by (simp add: memory_ok_def)

lemma reach_step: "(R :: 'a rel)\<^sup>* `` {k} = {k} \<union> R\<^sup>* `` (R `` {k})"
  by (auto elim: converse_rtranclE intro: converse_rtrancl_into_rtrancl)

lemma closure_sound:
  assumes children: "\<And>k e. set (graph_children g k e) = R e `` {k}"
  shows "G = g \<Longrightarrow> closure n G e k m = Some (r, m') \<Longrightarrow> memory_ok R m \<Longrightarrow> r = (R e)\<^sup>* `` {k} \<and> memory_ok R m'"
    and "G = g \<Longrightarrow> closures n G e ks acc m = Some (r, m') \<Longrightarrow> memory_ok R m \<Longrightarrow> r = acc \<union> (R e)\<^sup>* `` set ks \<and> memory_ok R m'"
proof (induction n G e k m and n G e ks acc m arbitrary: r m' and r m' rule: closure_closures.induct)
  case (2 fuel g0 e key m)
  show ?case
  proof (cases "map_of m (key, e)")
    case None
    then obtain r1 m1 where c: "closures fuel g e (graph_children g key e) {key} m = Some (r1, m1)"
      "r = r1" "m' = put (key, e) r1 m1" using 2(2,3) by (auto split: option.splits)
    have "r1 = {key} \<union> (R e)\<^sup>* `` set (graph_children g key e)" "memory_ok R m1"
      using 2(1) [OF None 2(2)] c(1) 2(2,4) by simp_all
    then have "r1 = (R e)\<^sup>* `` {key}" unfolding children using reach_step [of "R e" key] by simp
    then show ?thesis using c memory_ok_put [OF \<open>memory_ok R m1\<close>] by simp
  next
    case (Some r1)
    then show ?thesis using 2(3) memory_ok_known [OF 2(4) Some] 2(4) by simp
  qed
next
  case (4 fuel g0 e child children reached m)
  obtain r1 m1 where c: "closure fuel g e child m = Some (r1, m1)" "closures fuel g e children (reached \<union> r1) m1 = Some (r, m')"
    using 4(3,4) by (auto split: option.splits)
  have "r1 = (R e)\<^sup>* `` {child}" "memory_ok R m1" using 4(1) [OF 4(3)] c(1) 4(3,5) by simp_all
  moreover have "r = reached \<union> r1 \<union> (R e)\<^sup>* `` set children \<and> memory_ok R m'"
    by (rule 4(2) [OF _ refl 4(3)]) (use c 4(3) \<open>memory_ok R m1\<close> in simp_all)
  ultimately show ?case by auto
qed simp_all

lemma closure_total:
  assumes falls: "\<And>k e k'. k' \<in> set (graph_children g k e) \<Longrightarrow> rank k' < rank k"
  shows "G = g \<Longrightarrow> rank k < n \<Longrightarrow> closure n G e k m \<noteq> None"
    and "G = g \<Longrightarrow> (\<And>k. k \<in> set ks \<Longrightarrow> rank k < n) \<Longrightarrow> closures n G e ks acc m \<noteq> None"
proof (induction n G e k m and n G e ks acc m rule: closure_closures.induct)
  case (2 fuel g0 e key m)
  show ?case
  proof (cases "map_of m (key, e)")
    case None
    have "closures fuel g0 e (graph_children g0 key e) {key} m \<noteq> None"
      by (rule 2(1) [OF None 2(2)]) (use falls [of _ key e] 2(2,3) in fastforce)
    then show ?thesis using None by auto
  qed simp
next
  case (4 fuel g0 e child children reached m)
  have "closure fuel g0 e child m \<noteq> None" by (rule 4(1) [OF 4(3)]) (use 4(4) in simp)
  then obtain r1 m1 where c: "closure fuel g0 e child m = Some (r1, m1)" by auto
  have "closures fuel g0 e children (reached \<union> r1) m1 \<noteq> None"
    by (rule 4(2) [OF c refl 4(3)]) (use 4(4) in simp)
  then show ?case using c by simp
qed simp_all

text \<open>A view that another one places is smaller.\<close>

definition view_size :: "block_graph \<Rightarrow> graph_key \<Rightarrow> nat" where
  "view_size g k = (case map_of (grViews g) k of None \<Rightarrow> 0 | Some v \<Rightarrow> size v)"

definition rank :: "block_graph \<Rightarrow> graph_key \<Rightarrow> nat" where
  "rank g k = card {l \<in> fst ` set (grViews g). view_size g l < view_size g k}"

lemma rank_fuel: "rank g k < graph_fuel g"
proof -
  have "rank g k \<le> card (fst ` set (grViews g))" unfolding rank_def by (rule card_mono) auto
  also have "\<dots> \<le> length (grViews g)" by (metis card_length length_map set_map)
  finally show ?thesis by (simp add: graph_fuel_def)
qed

lemma rank_falls: "l \<in> fst ` set (grViews g) \<Longrightarrow> view_size g l < view_size g k \<Longrightarrow> rank g l < rank g k"
  unfolding rank_def by (rule psubset_card_mono) auto

lemma selection_smaller: "sel \<in> set (view_selections k v) \<Longrightarrow> size (selView sel) < size v"
  using selection_size size_block_fields [of v] size_list_mem [of _ "bltFields v"]
  unfolding view_selections_def selections_of_def by fastforce

lemma children_fall:
  assumes "views_agree s" "k' \<in> set (graph_children (graph_New s) k e)"
  shows "rank (graph_New s) k' < rank (graph_New s) k"
proof -
  have "(k, k') \<in> places s e" using assms(2) graph_children_iff [OF assms(1)] by blast
  then obtain v sel where v: "(k, v) \<in> set (placed_views s)" "sel \<in> set (view_selections k v)" "selKey sel = k'"
    by (auto simp: places_def)
  have views: "map_of (grViews (graph_New s)) k = Some v" "map_of (grViews (graph_New s)) k' = Some (selView sel)"
    using v placed_closed [OF v(1,2)] graph_views [OF assms(1)] by blast+
  have "k' \<in> fst ` set (grViews (graph_New s))" using map_of_SomeD [OF views(2)] by force
  then show ?thesis by (rule rank_falls) (use views selection_smaller [OF v(2)] in \<open>simp add: view_size_def\<close>)
qed

lemma closure_answers:
  assumes "views_agree s" "memory_ok (places s) m"
  obtains m' where "closure (graph_fuel (graph_New s)) (graph_New s) e k m = Some ((places s e)\<^sup>* `` {k}, m')" "memory_ok (places s) m'"
proof -
  have "closure (graph_fuel (graph_New s)) (graph_New s) e k m \<noteq> None"
    by (rule closure_total(1) [OF children_fall [OF assms(1)] refl rank_fuel])
  then obtain r m' where c: "closure (graph_fuel (graph_New s)) (graph_New s) e k m = Some (r, m')" by auto
  then show ?thesis using closure_sound(1) [OF graph_children_iff [OF assms(1)] refl c assms(2)] that by blast
qed

lemma Closure_answers:
  assumes "views_agree s" "memory_ok (places s) m"
  obtains m' where "Closure (graph_New s) keys e m = Some ((places s e)\<^sup>* `` set keys, m')" "memory_ok (places s) m'"
proof -
  have many: "\<exists>m'. closures (graph_fuel (graph_New s)) (graph_New s) e keys {} m = Some ((places s e)\<^sup>* `` set keys, m')
    \<and> memory_ok (places s) m'"
  proof -
    have "closures (graph_fuel (graph_New s)) (graph_New s) e keys {} m \<noteq> None"
      by (rule closure_total(2) [OF children_fall [OF assms(1)] refl rank_fuel])
    then obtain r m' where c: "closures (graph_fuel (graph_New s)) (graph_New s) e keys {} m = Some (r, m')" by auto
    then show ?thesis using closure_sound(2) [OF graph_children_iff [OF assms(1)] refl c assms(2)] by simp
  qed
  have one: "\<exists>m'. closure (graph_fuel (graph_New s)) (graph_New s) e k m = Some ((places s e)\<^sup>* `` {k}, m') \<and> memory_ok (places s) m'" for k
    using closure_answers [OF assms] by blast
  have "\<exists>m'. Closure (graph_New s) keys e m = Some ((places s e)\<^sup>* `` set keys, m') \<and> memory_ok (places s) m'"
    using many one unfolding Closure_def by (cases keys rule: remdups_adj.cases) auto
  then show ?thesis using that by blast
qed

section \<open>The graph as a memo of reachability\<close>

definition ask_closure :: "block_graph \<Rightarrow> graph_key list \<times> bool \<Rightarrow> closure_memory \<Rightarrow> graph_key set option \<times> closure_memory" where
  "ask_closure g = (\<lambda>(keys, e) m. case Closure g keys e m of None \<Rightarrow> (None, m) | Some (r, m1) \<Rightarrow> (Some r, m1))"

interpretation reachability: memo "ask_closure (graph_New s)" "\<lambda>(keys, e). Some ((places s e)\<^sup>* `` set keys)"
    "\<lambda>m. views_agree s \<and> memory_ok (places s) m" "(=)" for s
proof (unfold_locales, goal_cases)
  case (1 m k)
  then show ?case using Closure_answers [of s m "fst k" "snd k"] by (cases k) (fastforce simp: ask_closure_def)
next
  case (2 m k)
  then show ?case using Closure_answers [of s m "fst k" "snd k"] by (cases k) (fastforce simp: ask_closure_def)
qed

lemma Keys_views: "set (Keys g) = dom (map_of (grViews g))"
  by (simp add: Keys_def dom_map_of_conv_image_fst)

text \<open>
  C11. The graph built for a schema has the schema's placed views and no others, and a closure
  of keys is the keys themselves with all that their views reach by direct placements. This
  holds after any earlier questions, whose answers the graph remembers, and the recursion
  always ends.
\<close>

theorem block_graph_is_reachability:
  assumes "views_agree s"
  shows "set (Keys (graph_New s)) = fst ` set (placed_views s)
    \<and> (View (graph_New s) k = Some v \<longleftrightarrow> (k, v) \<in> set (placed_views s))
    \<and> fst (ask_closure (graph_New s) (keys, e) (fold (\<lambda>q m. snd (ask_closure (graph_New s) q m)) earlier []))
        = Some ((places s e)\<^sup>* `` set keys)"
proof (intro conjI)
  show "View (graph_New s) k = Some v \<longleftrightarrow> (k, v) \<in> set (placed_views s)"
    unfolding View_def by (rule graph_views [OF assms])
  show "set (Keys (graph_New s)) = fst ` set (placed_views s)"
    unfolding Keys_views using graph_views [OF assms] by force
  show "fst (ask_closure (graph_New s) (keys, e) (fold (\<lambda>q m. snd (ask_closure (graph_New s) q m)) earlier []))
      = Some ((places s e)\<^sup>* `` set keys)"
    using reachability.asked_later [of s "[]" "(keys, e)" earlier] assms by simp
qed

text \<open>A page places the hero, whose group of cards places the card.\<close>

definition sample_field_of :: "string \<Rightarrow> field_type \<Rightarrow> field list option \<Rightarrow> block_type list option \<Rightarrow> field" where
  "sample_field_of name kind nested defs = FieldDef name name [name] kind FieldCategoryScalar False False False False
     None None None None nested defs None no_details"

definition sample_card :: block_type where
  "sample_card = BlockType ''card'' [sample_field_of ''title'' FieldTypeText None None]"

definition sample_hero :: block_type where
  "sample_hero = BlockType ''hero'' [sample_field_of ''side'' FieldTypeGroup
     (Some [sample_field_of ''cards'' FieldTypeBlocks None (Some [sample_card])]) None]"

definition sample_page :: collection where
  "sample_page = \<lparr>colID = ''p'', colSlug = ''page'', colCapabilities = \<lparr>capTrash = False, capVersions = False\<rparr>, colAuthIdentityField = None, colUpload = False,
     colVersions = None, colFields = [sample_field_of ''body'' FieldTypeBlocks None (Some [sample_hero])], colIndexes = []\<rparr>"

definition sample_snapshot :: block_snapshot where
  "sample_snapshot = \<lparr>bsCollections = [sample_page], bsGlobals = []\<rparr>"

lemmas collect_known = collectSelections.simps [of "FieldDef i n p t c r u x l s rel up jn ns bs pl ds" for i n p t c r u x l s rel up jn ns bs pl ds, simplified]
lemmas placements_known = placements.simps [of "FieldDef i n p t c r u x l s rel up jn ns bs pl ds" for i n p t c r u x l s rel up jn ns bs pl ds]
lemmas sample_graph = sample_snapshot_def sample_page_def sample_hero_def sample_card_def sample_field_of_def
  collect_known definition_selections_def

lemma sample_placed: "placed_views sample_snapshot = [(Key ''hero'' False, sample_hero), (Key ''card'' False, sample_card)]"
  by (simp add: placed_views_def resource_fields_def placements_known sample_graph)

lemma sample_agree: "views_agree sample_snapshot"
  by (simp add: views_agree_def sample_placed)

lemma block_graph_is_reachability_witness:
  "View (graph_New sample_snapshot) (Key ''card'' False) = Some sample_card
   \<and> (places sample_snapshot False)\<^sup>* `` {Key ''hero'' False} = {Key ''hero'' False, Key ''card'' False}"
proof -
  note says = block_graph_is_reachability [OF sample_agree, of "Key ''card'' False" sample_card "[Key ''hero'' False]" False "[]"]
  have "fst (ask_closure (graph_New sample_snapshot) ([Key ''hero'' False], False) [])
      = Some {Key ''hero'' False, Key ''card'' False}"
    by (simp add: graph_New_def add_resource_def empty_graph_def discover_def selections_of_def record_edges_def selected_keys_def
      appendKey_def graph_root_of_def ask_closure_def Closure_def graph_fuel_def graph_children_def Selects_def put_def sample_graph
      numeral_2_eq_2 insert_commute)
  then show ?thesis using says by (simp add: sample_placed)
qed

end
