(* ===== verification/Block_Walk_Properties.thy ===== *)
theory Block_Walk_Properties
  imports Block_Walk Block_Graph_Properties
begin

text \<open>
  The walks of \<open>internal/blockgraph/values.go\<close> enter only containers that can hold a chosen row.
  They do what walks that enter every container do.
\<close>

section \<open>Fields that can hold a chosen row\<close>

function chooses :: "string set \<Rightarrow> field \<Rightarrow> bool" where
  "chooses T f \<longleftrightarrow>
     (case fldNested f of None \<Rightarrow> False | Some fs \<Rightarrow> list_ex (chooses T) fs)
     \<or> (case fldBlocks f of None \<Rightarrow> False
       | Some bs \<Rightarrow> list_ex (\<lambda>b. bltSlug b \<in> T \<or> list_ex (chooses T) (bltFields b)) bs)"
  by pat_completeness auto

lemma size_block_field: "fldBlocks f = Some bs \<Longrightarrow> b \<in> set bs \<Longrightarrow> c \<in> set (bltFields b) \<Longrightarrow> size c < size f"
  using size_blocks [of f bs] size_list_mem [of b bs] size_block_fields [of b] size_list_mem [of c "bltFields b"] by linarith

termination chooses
  by (relation "measure (\<lambda>(T, f). size f)") (auto dest: size_nested_field size_block_field)

declare chooses.simps [simp del]

text \<open>A walker covers a field when it enters every row below it that is, or holds, a chosen row.\<close>

function covered :: "block_walker \<Rightarrow> field \<Rightarrow> bool" where
  "covered w f \<longleftrightarrow>
     (case fldNested f of None \<Rightarrow> True | Some fs \<Rightarrow> list_all (covered w) fs)
     \<and> (case fldBlocks f of None \<Rightarrow> True
       | Some bs \<Rightarrow> list_all (\<lambda>b. (bltSlug b \<in> bwTargets w \<or> list_ex (chooses (bwTargets w)) (bltFields b) \<longrightarrow> bltSlug b \<in> bwWithin w)
           \<and> list_all (covered w) (bltFields b)) bs)"
  by pat_completeness auto
termination
  by (relation "measure (\<lambda>(w, f). size f)") (auto dest: size_nested_field size_block_field)

declare covered.simps [simp del]

lemma chooses_nested: "\<not> chooses T f \<Longrightarrow> fldNested f = Some fs \<Longrightarrow> c \<in> set fs \<Longrightarrow> \<not> chooses T c"
  by (subst (asm) chooses.simps) (auto simp: list_ex_iff)

lemma chooses_block:
  "\<not> chooses T f \<Longrightarrow> fldBlocks f = Some bs \<Longrightarrow> b \<in> set bs \<Longrightarrow> bltSlug b \<notin> T \<and> (\<forall>c\<in>set (bltFields b). \<not> chooses T c)"
  by (subst (asm) chooses.simps) (auto simp: list_ex_iff)

lemma covered_nested: "covered w f \<Longrightarrow> fldNested f = Some fs \<Longrightarrow> c \<in> set fs \<Longrightarrow> covered w c"
  by (subst (asm) covered.simps) (auto simp: list_all_iff)

lemma covered_block:
  "covered w f \<Longrightarrow> fldBlocks f = Some bs \<Longrightarrow> b \<in> set bs \<Longrightarrow>
   (bltSlug b \<notin> bwWithin w \<longrightarrow> bltSlug b \<notin> bwTargets w \<and> (\<forall>c\<in>set (bltFields b). \<not> chooses (bwTargets w) c))
   \<and> (\<forall>c\<in>set (bltFields b). covered w c)"
  by (subst (asm) covered.simps) (auto simp: list_all_iff list_ex_iff)

lemma unlocalized_fields [simp]:
  "chooses T (unlocalized f) = chooses T f" "covered w (unlocalized f) = covered w f" "fieldHolds w (unlocalized f) = fieldHolds w f"
  by (simp_all add: chooses.simps [of T] covered.simps [of w] fieldHolds.simps [of w])

lemma Definition_SomeD: "Definition bs slug = Some b \<Longrightarrow> b \<in> set bs \<and> bltSlug b = slug"
  by (auto simp: Definition_def definitionBySlug_def find_Some_iff)

lemma covered_holds: "covered w f \<Longrightarrow> \<not> fieldHolds w f \<Longrightarrow> \<not> chooses (bwTargets w) f"
proof (induction w f rule: fieldHolds.induct)
  case (1 w f)
  have nested: "\<not> chooses (bwTargets w) c" if "fldNested f = Some fs" "c \<in> set fs" for fs c
    by (rule 1(1) [OF that covered_nested [OF 1(2) that]]) (use 1(3) that in \<open>auto simp: fieldHolds.simps [of w f] list_ex_iff\<close>)
  have blocks: "bltSlug b \<notin> bwTargets w \<and> (\<forall>c\<in>set (bltFields b). \<not> chooses (bwTargets w) c)" if "fldBlocks f = Some bs" "b \<in> set bs" for bs b
    using covered_block [OF 1(2) that] 1(3) that by (auto simp: fieldHolds.simps [of w f] list_ex_iff)
  show ?case using nested blocks by (subst chooses.simps) (auto simp: list_ex_iff split: option.split)
qed

text \<open>A walk that enters every container that has rows.\<close>

definition unpruned :: "block_walker \<Rightarrow> block_walker" where
  "unpruned w = w\<lparr>bwWithin := UNIV\<rparr>"

lemma unpruned_simps [simp]: "bwTargets (unpruned w) = bwTargets w" "bwWithin (unpruned w) = UNIV"
  by (simp_all add: unpruned_def)

lemma holds_unpruned: "fieldHolds w f \<Longrightarrow> fieldHolds (unpruned w) f"
proof (induction w f rule: fieldHolds.induct)
  case (1 w f)
  then show ?case unfolding fieldHolds.simps [of "unpruned w" f] fieldHolds.simps [of w f]
    by (auto simp: list_ex_iff split: option.splits)
qed

section \<open>Visiting\<close>

lemma each_until_nothing: "(\<And>x u. x \<in> set xs \<Longrightarrow> f x u = (None, u)) \<Longrightarrow> each_until f xs s = (None, s)"
  by (induction xs arbitrary: s) simp_all

lemma visit_fields_loop:
  "visit_fields w t fs lookup s = each_until (\<lambda>f s. if \<not> fieldHolds w f then (None, s)
     else case lookup (fldName f) of None \<Rightarrow> (None, s) | Some v \<Rightarrow> t f v s) fs s"
  unfolding visit_fields_def walker_Holds_def by (auto simp: list_ex_iff intro: each_until_nothing [symmetric])

lemma visit_fields_nothing: "(\<And>f v u. f \<in> set fs \<Longrightarrow> t f v u = (None, u)) \<Longrightarrow> visit_fields w t fs lookup s = (None, s)"
  unfolding visit_fields_loop by (rule each_until_nothing) (auto split: option.split)

lemma visit_fields_unpruned:
  assumes "\<And>f v u. f \<in> set fs \<Longrightarrow> fieldHolds w f \<Longrightarrow> t f v u = t' f v u"
    and "\<And>f v u. f \<in> set fs \<Longrightarrow> \<not> fieldHolds w f \<Longrightarrow> t' f v u = (None, u)"
  shows "visit_fields w t fs lookup s = visit_fields (unpruned w) t' fs lookup s"
  unfolding visit_fields_loop
  by (rule each_until_cong [OF refl refl]) (use assms holds_unpruned in \<open>auto split: option.split\<close>)

text \<open>The two kinds of calls: of a localized field, and of the value of one locale.\<close>

lemma VisitField_locales:
  assumes "fldLocalized f" "code = []"
  shows "VisitField w see code f v s = (if svalue_Kind v \<noteq> KindObject \<or> \<not> fieldHolds w f then (None, s)
    else each_until (\<lambda>l. VisitField w see l (unlocalized f) (Get v l)) (sortedKeys v) s)"
  using assms by (subst VisitField.simps) auto

definition visit_row ::
  "block_walker \<Rightarrow> (block_row \<Rightarrow> svalue \<Rightarrow> 's \<Rightarrow> 'e option \<times> 's) \<Rightarrow> string \<Rightarrow> (field \<Rightarrow> svalue \<Rightarrow> 's \<Rightarrow> 'e option \<times> 's) \<Rightarrow>
   block_type list \<Rightarrow> svalue \<Rightarrow> 's \<Rightarrow> 'e option \<times> 's" where
  "visit_row w see code visitField bs entry s =
     (if svalue_Kind entry \<noteq> KindObject \<or> row_kind entry \<notin> bwWithin w then (None, s)
      else case Definition bs (row_kind entry) of
        None \<Rightarrow> (None, s)
      | Some view \<Rightarrow>
          (case if row_kind entry \<in> bwTargets w then see \<lparr>brBlock = view, brLocale = code\<rparr> entry s else (None, s) of
             (Some e, s1) \<Rightarrow> (Some e, s1)
           | (None, s1) \<Rightarrow> visit_fields w visitField (bltFields view) (Lookup entry) s1))"

definition visit_nested ::
  "block_walker \<Rightarrow> (field \<Rightarrow> svalue \<Rightarrow> 's \<Rightarrow> 'e option \<times> 's) \<Rightarrow> field \<Rightarrow> field list \<Rightarrow> svalue \<Rightarrow> 's \<Rightarrow> 'e option \<times> 's" where
  "visit_nested w visitField f fs v s =
     (if fldType f = FieldTypeGroup then
        (if svalue_Kind v = KindObject then visit_fields w visitField fs (Lookup v) s else (None, s))
      else case v of
        SList t \<Rightarrow> each_until (\<lambda>entry s. if svalue_Kind entry = KindObject
          then visit_fields w visitField fs (Lookup entry) s else (None, s)) (elements t) s
      | _ \<Rightarrow> (None, s))"

lemma VisitField_plain:
  assumes "\<not> (fldLocalized f \<and> code = [])"
  shows "VisitField w see code f v s =
    (if svalue_Kind v = KindInvalid \<or> svalue_Kind v = KindNull \<or> \<not> fieldHolds w f then (None, s)
     else case fldBlocks f of
       Some bs \<Rightarrow> (case v of SList t \<Rightarrow> each_until (visit_row w see code (VisitField w see code) bs) (elements t) s | _ \<Rightarrow> (None, s))
     | None \<Rightarrow> (case fldNested f of None \<Rightarrow> (None, s) | Some fs \<Rightarrow> visit_nested w (VisitField w see code) f fs v s))"
  by (subst VisitField.simps) (simp only: assms if_False visit_row_def [abs_def] visit_nested_def)

lemma walk_induct [case_names field]:
  assumes "\<And>f. (\<And>fs c. fldNested f = Some fs \<Longrightarrow> c \<in> set fs \<Longrightarrow> P c) \<Longrightarrow>
    (\<And>bs b c. fldBlocks f = Some bs \<Longrightarrow> b \<in> set bs \<Longrightarrow> c \<in> set (bltFields b) \<Longrightarrow> P c) \<Longrightarrow> P f"
  shows "P f"
proof (induction "size f" arbitrary: f rule: less_induct)
  case less
  show ?case by (rule assms) (use less size_nested_field size_block_field in blast)+
qed

lemma visit_nested_nothing:
  "(\<And>c x u. c \<in> set fs \<Longrightarrow> t c x u = (None, u)) \<Longrightarrow> visit_nested w t f fs v s = (None, s)"
  unfolding visit_nested_def by (auto simp: visit_fields_nothing intro!: each_until_nothing split: svalue.split)

lemma visit_row_nothing:
  assumes "\<And>b. b \<in> set bs \<Longrightarrow> bltSlug b \<notin> bwTargets w"
    and "\<And>b c x u. b \<in> set bs \<Longrightarrow> c \<in> set (bltFields b) \<Longrightarrow> t c x u = (None, u)"
  shows "visit_row w see code t bs entry s = (None, s)"
  unfolding visit_row_def
  by (auto dest!: Definition_SomeD dest: assms(1) split: option.split intro!: visit_fields_nothing assms(2))

lemma VisitField_nothing: "\<not> chooses (bwTargets w) f \<Longrightarrow> VisitField w see code f v s = (None, s)"
proof (induction f arbitrary: code v s rule: walk_induct)
  case (field f)
  have nested: "VisitField w see code c x u = (None, u)" if "fldNested f = Some fs" "c \<in> set fs" for fs c code x u
    by (rule field(1) [OF that chooses_nested [OF field(3) that]])
  have blocks: "bltSlug b \<notin> bwTargets w" "c \<in> set (bltFields b) \<Longrightarrow> VisitField w see code c x u = (None, u)"
    if "fldBlocks f = Some bs" "b \<in> set bs" for bs b c code x u
    using chooses_block [OF field(3) that] field(2) [OF that] by blast+
  have plain: "VisitField w see code g v s = (None, s)"
    if "\<not> (fldLocalized g \<and> code = [])" "fldNested g = fldNested f" "fldBlocks g = fldBlocks f" for g code v s
  proof -
    have "visit_nested w (VisitField w see code) g fs v s = (None, s)" if "fldNested f = Some fs" for fs
      by (rule visit_nested_nothing) (rule nested [OF that])
    moreover have "each_until (visit_row w see code (VisitField w see code) bs) xs s = (None, s)" if "fldBlocks f = Some bs" for bs xs
      by (rule each_until_nothing) (rule visit_row_nothing [OF blocks(1) [OF that] blocks(2) [OF that]])
    ultimately show ?thesis unfolding VisitField_plain [OF that(1)] that(2,3) by (simp split: option.split svalue.split)
  qed
  show ?case
  proof (cases "fldLocalized f \<and> code = []")
    case True
    have "each_until (\<lambda>l. VisitField w see l (unlocalized f) (Get v l)) (sortedKeys v) s = (None, s)"
      by (rule each_until_nothing) (rule plain, simp_all)
    then show ?thesis using True by (simp add: VisitField_locales)
  qed (rule plain, simp_all)
qed

lemma VisitField_stop: "covered w f \<Longrightarrow> \<not> fieldHolds w f \<Longrightarrow> VisitField (unpruned w) see code f v s = (None, s)"
  using VisitField_nothing [of "unpruned w" f see code v s] covered_holds [of w f] by simp

lemma visit_nested_unpruned:
  assumes "\<And>c x u. c \<in> set fs \<Longrightarrow> t c x u = t' c x u"
    and "\<And>c x u. c \<in> set fs \<Longrightarrow> \<not> fieldHolds w c \<Longrightarrow> t' c x u = (None, u)"
  shows "visit_nested w t f fs v s = visit_nested (unpruned w) t' f fs v s"
proof -
  have "visit_fields w t fs = visit_fields (unpruned w) t' fs"
    by (intro ext visit_fields_unpruned) (simp_all add: assms)
  then show ?thesis unfolding visit_nested_def by (simp only:)
qed

lemma visit_row_unpruned:
  assumes "\<And>b. b \<in> set bs \<Longrightarrow> bltSlug b \<notin> bwWithin w \<Longrightarrow>
      bltSlug b \<notin> bwTargets w \<and> (\<forall>c\<in>set (bltFields b). \<forall>x u. t' c x u = (None, u))"
    and "\<And>b c x u. b \<in> set bs \<Longrightarrow> c \<in> set (bltFields b) \<Longrightarrow> t c x u = t' c x u"
    and "\<And>b c x u. b \<in> set bs \<Longrightarrow> c \<in> set (bltFields b) \<Longrightarrow> \<not> fieldHolds w c \<Longrightarrow> t' c x u = (None, u)"
  shows "visit_row w see code t bs entry s = visit_row (unpruned w) see code t' bs entry s"
proof (cases "Definition bs (row_kind entry)")
  case (Some b)
  then have b: "b \<in> set bs" "bltSlug b = row_kind entry" using Definition_SomeD by blast+
  show ?thesis
  proof (cases "row_kind entry \<in> bwWithin w")
    case True
    have "visit_fields w t (bltFields b) l u = visit_fields (unpruned w) t' (bltFields b) l u" for l u
      by (rule visit_fields_unpruned) (simp_all add: assms(2,3) [OF b(1)])
    then show ?thesis using True Some unfolding visit_row_def by (simp split: option.split prod.split)
  next
    case False
    then have out: "row_kind entry \<notin> bwTargets w" "\<And>c x u. c \<in> set (bltFields b) \<Longrightarrow> t' c x u = (None, u)"
      using assms(1) [OF b(1)] b(2) by auto
    then have "visit_fields (unpruned w) t' (bltFields b) l u = (None, u)" for l u by (intro visit_fields_nothing)
    then show ?thesis using False Some out(1) unfolding visit_row_def by simp
  qed
qed (simp add: visit_row_def)

lemma VisitField_unpruned: "covered w f \<Longrightarrow> VisitField w see code f v s = VisitField (unpruned w) see code f v s"
proof (induction f arbitrary: code v s rule: walk_induct)
  case (field f)
  have idle: "VisitField (unpruned w) see code c x u = (None, u)" if "\<not> chooses (bwTargets w) c" for c code x u
    by (rule VisitField_nothing) (simp add: that)
  have nested: "VisitField w see code c x u = VisitField (unpruned w) see code c x u"
    "\<not> fieldHolds w c \<Longrightarrow> VisitField (unpruned w) see code c x u = (None, u)" if "fldNested f = Some fs" "c \<in> set fs" for fs c code x u
    by (rule field(1) [OF that covered_nested [OF field(3) that]], rule VisitField_stop [OF covered_nested [OF field(3) that]])
  have in_block: "covered w c" if "fldBlocks f = Some bs" "b \<in> set bs" "c \<in> set (bltFields b)" for bs b c
    using covered_block [OF field(3) that(1,2)] that(3) by blast
  have blocks: "VisitField w see code c x u = VisitField (unpruned w) see code c x u"
    "\<not> fieldHolds w c \<Longrightarrow> VisitField (unpruned w) see code c x u = (None, u)"
    if "fldBlocks f = Some bs" "b \<in> set bs" "c \<in> set (bltFields b)" for bs b c code x u
    by (rule field(2) [OF that in_block [OF that]], rule VisitField_stop [OF in_block [OF that]])
  have out: "bltSlug b \<notin> bwTargets w \<and> (\<forall>c\<in>set (bltFields b). \<forall>x u. VisitField (unpruned w) see code c x u = (None, u))"
    if "fldBlocks f = Some bs" "b \<in> set bs" "bltSlug b \<notin> bwWithin w" for bs b code
    using covered_block [OF field(3) that(1,2)] that(3) idle by blast
  have plain: "VisitField w see code g v s = VisitField (unpruned w) see code g v s"
    if "\<not> (fldLocalized g \<and> code = [])" "fldNested g = fldNested f" "fldBlocks g = fldBlocks f" "fieldHolds w g" for g code v s
  proof -
    have "visit_nested w (VisitField w see code) g fs v s = visit_nested (unpruned w) (VisitField (unpruned w) see code) g fs v s"
      if "fldNested f = Some fs" for fs
      by (rule visit_nested_unpruned) (rule nested [OF that], assumption+)+
    moreover have "visit_row w see code (VisitField w see code) bs = visit_row (unpruned w) see code (VisitField (unpruned w) see code) bs"
      if "fldBlocks f = Some bs" for bs
      by (intro ext visit_row_unpruned) (use out [OF that] blocks [OF that] in blast)+
    ultimately show ?thesis
      using that(4) holds_unpruned [OF that(4)] unfolding VisitField_plain [OF that(1)] that(2,3) by (simp split: option.split svalue.split)
  qed
  show ?case
  proof (cases "fieldHolds w f")
    case True
    show ?thesis
    proof (cases "fldLocalized f \<and> code = []")
      case local: True
      have "each_until (\<lambda>l. VisitField w see l (unlocalized f) (Get v l)) (sortedKeys v) s
          = each_until (\<lambda>l. VisitField (unpruned w) see l (unlocalized f) (Get v l)) (sortedKeys v) s"
        by (rule each_until_cong [OF refl refl]) (rule plain, simp_all add: True)
      then show ?thesis using local True holds_unpruned [OF True] by (simp add: VisitField_locales)
    qed (rule plain, simp_all add: True)
  next
    case False
    then show ?thesis by (subst VisitField.simps) (simp add: VisitField_stop [OF field(3) False])
  qed
qed

section \<open>Rewriting\<close>

lemma RewriteField_locales:
  assumes "fldLocalized f" "code = []"
  shows "RewriteField w rewrite code f v s = (if svalue_Kind v \<noteq> KindObject \<or> \<not> fieldHolds w f then (Inr (v, False), s)
    else case rewrite_each_locale (\<lambda>l. RewriteField w rewrite l (unlocalized f)) v (sortedKeys v) None s of
        (Inl e, s1) \<Rightarrow> (Inl e, s1)
      | (Inr None, s1) \<Rightarrow> (Inr (v, False), s1)
      | (Inr (Some result), s1) \<Rightarrow> (Inr (ObjectOf result, True), s1))"
  using assms by (subst RewriteField.simps) auto

definition rewrite_nested ::
  "block_walker \<Rightarrow> ('e, 's) row_rewrite \<Rightarrow> string \<Rightarrow> (field list \<Rightarrow> svalues \<Rightarrow> 's \<Rightarrow> ('e + svalues \<times> bool) \<times> 's) \<Rightarrow>
   field \<Rightarrow> field list \<Rightarrow> svalue \<Rightarrow> 's \<Rightarrow> ('e + svalue \<times> bool) \<times> 's" where
  "rewrite_nested w rewrite code nested f fs v s =
     (if fldType f = FieldTypeGroup then
        (case CopyObject v of
           (object, valid) \<Rightarrow>
             if \<not> valid then (Inr (v, False), s)
             else case nested fs object s of
               (Inl e, s1) \<Rightarrow> (Inl e, s1)
             | (Inr (updated, changed), s1) \<Rightarrow> (Inr (if changed then ObjectOf updated else v, changed), s1))
      else rewriteRows (\<lambda>_. Some (fs, None)) rewrite code nested v s)"

lemma RewriteField_plain:
  assumes "\<not> (fldLocalized f \<and> code = [])"
  shows "RewriteField w rewrite code f v s =
    (if svalue_Kind v = KindInvalid \<or> svalue_Kind v = KindNull \<or> \<not> fieldHolds w f then (Inr (v, False), s)
     else case fldBlocks f of
       Some bs \<Rightarrow> rewriteRows (block_row_fields w bs) rewrite code (\<lambda>fs. rewrite_fields w (RewriteField w rewrite code) fs) v s
     | None \<Rightarrow> (case fldNested f of None \<Rightarrow> (Inr (v, False), s)
         | Some fs \<Rightarrow> rewrite_nested w rewrite code (\<lambda>fs. rewrite_fields w (RewriteField w rewrite code) fs) f fs v s))"
  by (subst RewriteField.simps) (simp only: assms if_False rewrite_nested_def)

text \<open>Rewrites that change nothing.\<close>

lemma rewrite_row_members_idle:
  "(\<And>f v u. f \<in> set fs \<Longrightarrow> fieldHolds w f \<Longrightarrow> t f v u = (Inr (v, False), u)) \<Longrightarrow> rewrite_row_members w t fs vals r s = (Inr r, s)"
  by (induction fs arbitrary: r s) (auto split: option.split)

lemma rewrite_fields_loop:
  "rewrite_fields w t fs vals s = (case rewrite_row_members w t fs vals None s of
     (Inl e, s1) \<Rightarrow> (Inl e, s1)
   | (Inr None, s1) \<Rightarrow> (Inr (vals, False), s1)
   | (Inr (Some result), s1) \<Rightarrow> (Inr (result, True), s1))"
proof (cases "walker_Holds w fs")
  case False
  then have "rewrite_row_members w t fs vals None s = (Inr None, s)"
    by (intro rewrite_row_members_idle) (auto simp: walker_Holds_def list_ex_iff)
  then show ?thesis using False by (simp add: rewrite_fields_def)
qed (simp add: rewrite_fields_def)

lemma rewrite_fields_idle:
  "(\<And>f v u. f \<in> set fs \<Longrightarrow> t f v u = (Inr (v, False), u)) \<Longrightarrow> rewrite_fields w t fs vals s = (Inr (vals, False), s)"
  unfolding rewrite_fields_loop by (simp add: rewrite_row_members_idle)

lemma rewrite_each_locale_idle:
  "(\<And>l x u. l \<in> set ls \<Longrightarrow> t l x u = (Inr (x, False), u)) \<Longrightarrow> rewrite_each_locale t v ls r s = (Inr r, s)"
  by (induction ls arbitrary: r s) simp_all

lemma rewriteRows_idle:
  assumes "\<And>m fs c vals u. row m = Some (fs, c) \<Longrightarrow> c = None \<and> nested fs vals u = (Inr (vals, False), u)"
  shows "rewriteRows row rewrite code nested v s = (Inr (v, False), s)"
proof -
  have "rewrite_items row rewrite code nested items s = (Inr (items, False), s)" for items s
  proof (induction items arbitrary: s)
    case (Cons entry items)
    obtain object valid where o: "CopyObject entry = (object, valid)" by fastforce
    show ?case
    proof (cases "row object")
      case (Some p)
      then obtain fs c where p: "row object = Some (fs, c)" by (cases p) auto
      have "c = None" "\<And>vals u. nested fs vals u = (Inr (vals, False), u)" using assms [OF p] by blast+
      then show ?thesis using p o Cons by (simp add: Let_def)
    qed (use o Cons in \<open>simp add: Let_def\<close>)
  qed simp
  then show ?thesis by (simp add: rewriteRows_def split: prod.split)
qed

definition row_slug :: "svalues \<Rightarrow> string" where
  "row_slug m = (case map_of m ''blockType'' of Some (SString kind) \<Rightarrow> kind | _ \<Rightarrow> [])"

lemma block_row_fields_slug: "block_row_fields w bs m =
   (if row_slug m \<notin> bwWithin w then None
    else case Definition bs (row_slug m) of
      None \<Rightarrow> None
    | Some view \<Rightarrow> Some (bltFields view, if row_slug m \<in> bwTargets w then Some view else None))"
  unfolding block_row_fields_def row_slug_def Let_def by (rule refl)

lemma block_row_fields_SomeD:
  assumes "block_row_fields w bs m = Some (fs, c)"
  obtains b where "b \<in> set bs" "fs = bltFields b" "bltSlug b \<notin> bwTargets w \<Longrightarrow> c = None"
proof (cases "Definition bs (row_slug m)")
  case None
  then show ?thesis using assms by (simp add: block_row_fields_slug split: if_splits)
next
  case (Some b)
  have "fs = bltFields b \<and> (row_slug m \<notin> bwTargets w \<longrightarrow> c = None)"
    using assms Some by (simp add: block_row_fields_slug split: if_splits)
  then show ?thesis using that [of b] Definition_SomeD [OF Some] by simp
qed

lemma RewriteField_idle: "\<not> chooses (bwTargets w) f \<Longrightarrow> RewriteField w rewrite code f v s = (Inr (v, False), s)"
proof (induction f arbitrary: code v s rule: walk_induct)
  case (field f)
  have nested: "rewrite_fields w (RewriteField w rewrite code) fs vals u = (Inr (vals, False), u)" if "fldNested f = Some fs" for fs code vals u
    by (rule rewrite_fields_idle) (rule field(1) [OF that _ chooses_nested [OF field(3) that]])
  have blocks: "bltSlug b \<notin> bwTargets w" "rewrite_fields w (RewriteField w rewrite code) (bltFields b) vals u = (Inr (vals, False), u)"
    if "fldBlocks f = Some bs" "b \<in> set bs" for bs b code vals u
    using chooses_block [OF field(3) that] field(2) [OF that] by (auto intro: rewrite_fields_idle)
  have plain: "RewriteField w rewrite code g v s = (Inr (v, False), s)"
    if "\<not> (fldLocalized g \<and> code = [])" "fldNested g = fldNested f" "fldBlocks g = fldBlocks f" for g code v s
  proof -
    have "rewrite_nested w rewrite code (rewrite_fields w (RewriteField w rewrite code)) g fs v s = (Inr (v, False), s)"
      if "fldNested f = Some fs" for fs
      unfolding rewrite_nested_def by (auto simp: nested [OF that] intro!: rewriteRows_idle split: prod.split)
    moreover have "rewriteRows (block_row_fields w bs) rewrite code (rewrite_fields w (RewriteField w rewrite code)) v s = (Inr (v, False), s)"
      if "fldBlocks f = Some bs" for bs
      by (rule rewriteRows_idle) (use blocks [OF that] in \<open>auto elim!: block_row_fields_SomeD\<close>)
    ultimately show ?thesis unfolding RewriteField_plain [OF that(1)] that(2,3) by (simp split: option.split)
  qed
  show ?case
  proof (cases "fldLocalized f \<and> code = []")
    case True
    have "rewrite_each_locale (\<lambda>l. RewriteField w rewrite l (unlocalized f)) v (sortedKeys v) None s = (Inr None, s)"
      by (rule rewrite_each_locale_idle) (rule plain, simp_all)
    then show ?thesis using True by (simp add: RewriteField_locales)
  qed (rule plain, simp_all)
qed

lemma RewriteField_stop:
  "covered w f \<Longrightarrow> \<not> fieldHolds w f \<Longrightarrow> RewriteField (unpruned w) rewrite code f v s = (Inr (v, False), s)"
  using RewriteField_idle [of "unpruned w" f rewrite code v s] covered_holds [of w f] by simp

lemma rewrite_fields_unpruned:
  assumes "\<And>f v u. f \<in> set fs \<Longrightarrow> fieldHolds w f \<Longrightarrow> t f v u = t' f v u"
    and "\<And>f v u. f \<in> set fs \<Longrightarrow> \<not> fieldHolds w f \<Longrightarrow> t' f v u = (Inr (v, False), u)"
  shows "rewrite_fields w t fs vals s = rewrite_fields (unpruned w) t' fs vals s"
proof -
  have "rewrite_row_members w t fs vals r s = rewrite_row_members (unpruned w) t' fs vals r s" for r s
    using assms
  proof (induction fs arbitrary: r s)
    case (Cons f fs)
    have ih: "rewrite_row_members w t fs vals r s = rewrite_row_members (unpruned w) t' fs vals r s" for r s
      by (rule Cons.IH) (simp_all add: Cons.prems)
    show ?case
    proof (cases "fieldHolds w f")
      case True
      then show ?thesis using Cons.prems(1) [of f] holds_unpruned [OF True] by (simp add: ih split: option.split prod.split sum.split)
    next
      case False
      then show ?thesis using Cons.prems(2) [of f] by (simp add: ih split: option.split)
    qed
  qed simp
  then show ?thesis unfolding rewrite_fields_loop by simp
qed

lemma rewriteRows_unpruned:
  assumes "\<And>m. (row m = row' m \<and> (\<forall>fs c. row m = Some (fs, c) \<longrightarrow> nested fs = nested' fs))
    \<or> (row m = None \<and> (\<exists>fs. row' m = Some (fs, None) \<and> (\<forall>vals u. nested' fs vals u = (Inr (vals, False), u))))"
  shows "rewriteRows row rewrite code nested v s = rewriteRows row' rewrite code nested' v s"
proof -
  have "rewrite_items row rewrite code nested items s = rewrite_items row' rewrite code nested' items s" for items s
  proof (induction items arbitrary: s)
    case (Cons entry items)
    obtain object valid where o: "CopyObject entry = (object, valid)" by fastforce
    from assms [of object] consider "row object = None" "row' object = None"
      | fs c where "row object = Some (fs, c)" "row' object = Some (fs, c)" "nested fs = nested' fs"
      | fs where "row object = None" "row' object = Some (fs, None)" "\<And>vals u. nested' fs vals u = (Inr (vals, False), u)"
      by (cases "row object") auto
    then show ?case using o Cons by cases (simp_all add: Let_def split: prod.split sum.split)
  qed simp
  then have "rewrite_items row rewrite code nested = rewrite_items row' rewrite code nested'" by (intro ext)
  then show ?thesis unfolding rewriteRows_def by (simp only:)
qed

lemma RewriteField_unpruned: "covered w f \<Longrightarrow> RewriteField w rewrite code f v s = RewriteField (unpruned w) rewrite code f v s"
proof (induction f arbitrary: code v s rule: walk_induct)
  case (field f)
  have idle: "RewriteField (unpruned w) rewrite code c x u = (Inr (x, False), u)" if "\<not> chooses (bwTargets w) c" for c code x u
    by (rule RewriteField_idle) (simp add: that)
  have nested: "rewrite_fields w (RewriteField w rewrite code) fs = rewrite_fields (unpruned w) (RewriteField (unpruned w) rewrite code) fs"
    if "fldNested f = Some fs" for fs code
    by (intro ext rewrite_fields_unpruned)
      (rule field(1) [OF that _ covered_nested [OF field(3) that]] RewriteField_stop [OF covered_nested [OF field(3) that]], assumption+)+
  have in_block: "covered w c" if "fldBlocks f = Some bs" "b \<in> set bs" "c \<in> set (bltFields b)" for bs b c
    using covered_block [OF field(3) that(1,2)] that(3) by blast
  have blocks: "rewrite_fields w (RewriteField w rewrite code) (bltFields b)
      = rewrite_fields (unpruned w) (RewriteField (unpruned w) rewrite code) (bltFields b)"
    if "fldBlocks f = Some bs" "b \<in> set bs" for bs b code
    by (intro ext rewrite_fields_unpruned)
      (rule field(2) [OF that _ in_block [OF that]] RewriteField_stop [OF in_block [OF that]], assumption+)+
  have out: "bltSlug b \<notin> bwTargets w
      \<and> (\<forall>vals u. rewrite_fields (unpruned w) (RewriteField (unpruned w) rewrite code) (bltFields b) vals u = (Inr (vals, False), u))"
    if "fldBlocks f = Some bs" "b \<in> set bs" "bltSlug b \<notin> bwWithin w" for bs b code
    using covered_block [OF field(3) that(1,2)] that(3) idle by (auto intro!: rewrite_fields_idle)
  have plain: "RewriteField w rewrite code g v s = RewriteField (unpruned w) rewrite code g v s"
    if "\<not> (fldLocalized g \<and> code = [])" "fldNested g = fldNested f" "fldBlocks g = fldBlocks f" "fieldHolds w g" for g code v s
  proof -
    have "rewrite_nested w rewrite code (rewrite_fields w (RewriteField w rewrite code)) g fs v s
        = rewrite_nested (unpruned w) rewrite code (rewrite_fields (unpruned w) (RewriteField (unpruned w) rewrite code)) g fs v s"
      if "fldNested f = Some fs" for fs
      unfolding rewrite_nested_def nested [OF that] by (rule if_cong [OF refl refl]) (rule rewriteRows_unpruned, simp add: nested [OF that])
    moreover have "rewriteRows (block_row_fields w bs) rewrite code (rewrite_fields w (RewriteField w rewrite code)) v s
        = rewriteRows (block_row_fields (unpruned w) bs) rewrite code (rewrite_fields (unpruned w) (RewriteField (unpruned w) rewrite code)) v s"
      if f: "fldBlocks f = Some bs" for bs
    proof (rule rewriteRows_unpruned)
      fix m
      show "(block_row_fields w bs m = block_row_fields (unpruned w) bs m \<and> (\<forall>fs c. block_row_fields w bs m = Some (fs, c) \<longrightarrow>
            rewrite_fields w (RewriteField w rewrite code) fs = rewrite_fields (unpruned w) (RewriteField (unpruned w) rewrite code) fs))
          \<or> (block_row_fields w bs m = None \<and> (\<exists>fs. block_row_fields (unpruned w) bs m = Some (fs, None)
            \<and> (\<forall>vals u. rewrite_fields (unpruned w) (RewriteField (unpruned w) rewrite code) fs vals u = (Inr (vals, False), u))))"
      proof (cases "Definition bs (row_slug m)")
        case (Some b)
        then have b: "b \<in> set bs" "bltSlug b = row_slug m" using Definition_SomeD by blast+
        show ?thesis
        proof (cases "row_slug m \<in> bwWithin w")
          case True
          then show ?thesis using Some blocks [OF f b(1)] by (simp add: block_row_fields_slug)
        next
          case False
          then show ?thesis using Some out [OF f b(1)] b(2) by (simp add: block_row_fields_slug)
        qed
      qed (simp add: block_row_fields_slug)
    qed
    ultimately show ?thesis
      using that(4) holds_unpruned [OF that(4)] unfolding RewriteField_plain [OF that(1)] that(2,3) by (simp split: option.split)
  qed
  show ?case
  proof (cases "fieldHolds w f")
    case True
    show ?thesis
    proof (cases "fldLocalized f \<and> code = []")
      case local: True
      have "rewrite_each_locale (\<lambda>l. RewriteField w rewrite l (unlocalized f)) v (sortedKeys v) None s
          = rewrite_each_locale (\<lambda>l. RewriteField (unpruned w) rewrite l (unlocalized f)) v (sortedKeys v) None s"
        by (rule rewrite_each_locale_cong [OF refl refl refl refl]) (rule plain, simp_all add: True)
      then show ?thesis using local True holds_unpruned [OF True] by (simp add: RewriteField_locales)
    qed (rule plain, simp_all add: True)
  next
    case False
    then show ?thesis by (subst RewriteField.simps) (simp add: RewriteField_stop [OF field(3) False])
  qed
qed

section \<open>Walkers of a graph\<close>

lemma collect_nested:
  "fldNested f = Some fs \<Longrightarrow> c \<in> set fs \<Longrightarrow> sel \<in> set (collectSelections c (l \<or> fldLocalized f)) \<Longrightarrow> sel \<in> set (collectSelections f l)"
  by (subst collectSelections.simps) (auto simp: Let_def)

lemma collect_block:
  "fldBlocks f = Some bs \<Longrightarrow> b \<in> set bs \<Longrightarrow> Selection (Key (bltSlug b) (l \<or> fldLocalized f)) b False \<in> set (collectSelections f l)"
  by (subst collectSelections.simps) (auto simp: Let_def definition_selections_def)

lemma chooses_cases:
  assumes "chooses T f"
  obtains fs c where "fldNested f = Some fs" "c \<in> set fs" "chooses T c"
  | bs b where "fldBlocks f = Some bs" "b \<in> set bs" "bltSlug b \<in> T \<or> (\<exists>c\<in>set (bltFields b). chooses T c)"
proof (cases "\<exists>fs c. fldNested f = Some fs \<and> c \<in> set fs \<and> chooses T c")
  case False
  then have "\<exists>bs b. fldBlocks f = Some bs \<and> b \<in> set bs \<and> (bltSlug b \<in> T \<or> (\<exists>c\<in>set (bltFields b). chooses T c))"
    using assms chooses.simps [of T f] by (auto simp: list_ex_iff split: option.splits)
  then show ?thesis using that(2) by blast
qed (use that(1) in blast)

lemma chooses_selection:
  "chooses T f \<Longrightarrow> \<exists>sel\<in>set (collectSelections f l). \<not> selEmbedded sel
     \<and> (keySlug (selKey sel) \<in> T \<or> (\<exists>c\<in>set (bltFields (selView sel)). chooses T c))"
proof (induction f arbitrary: l rule: walk_induct)
  case (field f)
  consider fs c where "fldNested f = Some fs" "c \<in> set fs" "chooses T c"
    | bs b where "fldBlocks f = Some bs" "b \<in> set bs" "bltSlug b \<in> T \<or> (\<exists>c\<in>set (bltFields b). chooses T c)"
    by (rule chooses_cases [OF field(3)])
  then show ?case
  proof cases
    case (1 fs c)
    then show ?thesis using field(1) [OF 1, of "l \<or> fldLocalized f"] collect_nested [OF 1(1,2)] by blast
  next
    case (2 bs b)
    then show ?thesis by (intro bexI [OF _ collect_block [OF 2(1,2), of l]]) simp
  qed
qed

lemma chooses_reaches:
  "(k, v) \<in> set (placed_views s) \<Longrightarrow> c \<in> set (bltFields v) \<Longrightarrow> chooses T c \<Longrightarrow>
   \<exists>r. (k, r) \<in> (places s False)\<^sup>* \<and> keySlug r \<in> T"
proof (induction "size v" arbitrary: k v c rule: less_induct)
  case less
  obtain sel where sel: "sel \<in> set (collectSelections c (keyLocalized k))" "\<not> selEmbedded sel"
    "keySlug (selKey sel) \<in> T \<or> (\<exists>c\<in>set (bltFields (selView sel)). chooses T c)"
    using chooses_selection [OF less.prems(3)] by blast
  have in_view: "sel \<in> set (view_selections k v)"
    using sel(1) less.prems(2) by (auto simp: view_selections_def selections_of_def)
  have edge: "(k, selKey sel) \<in> places s False" using less.prems(1) in_view sel(2) by (auto simp: places_def)
  have "\<exists>r. (selKey sel, r) \<in> (places s False)\<^sup>* \<and> keySlug r \<in> T"
    using sel(3) less.hyps [OF selection_smaller [OF in_view] placed_closed [OF less.prems(1) in_view]] by blast
  then show ?case using edge by (meson converse_rtrancl_into_rtrancl)
qed

text \<open>The slugs a walker has to enter.\<close>

definition holds_targets :: "block_snapshot \<Rightarrow> string set \<Rightarrow> graph_key \<Rightarrow> bool" where
  "holds_targets s T k \<longleftrightarrow> (\<exists>r. (k, r) \<in> (places s False)\<^sup>* \<and> keySlug r \<in> T)"

lemma covered_placed:
  assumes within: "\<And>k v. (k, v) \<in> set (placed_views s) \<Longrightarrow> holds_targets s (bwTargets w) k \<Longrightarrow> keySlug k \<in> bwWithin w"
  shows "(\<And>sel. sel \<in> set (collectSelections f l) \<Longrightarrow> (selKey sel, selView sel) \<in> set (placed_views s)) \<Longrightarrow> covered w f"
proof (induction f arbitrary: l rule: walk_induct)
  case (field f)
  have nested: "covered w c" if "fldNested f = Some fs" "c \<in> set fs" for fs c
    by (rule field(1) [OF that]) (rule field(3) [OF collect_nested [OF that]])
  have blocks: "(bltSlug b \<in> bwTargets w \<or> (\<exists>c\<in>set (bltFields b). chooses (bwTargets w) c) \<longrightarrow> bltSlug b \<in> bwWithin w)
      \<and> (\<forall>c\<in>set (bltFields b). covered w c)" if "fldBlocks f = Some bs" "b \<in> set bs" for bs b
  proof -
    let ?k = "Key (bltSlug b) (l \<or> fldLocalized f)"
    have placed: "(?k, b) \<in> set (placed_views s)" using field(3) [OF collect_block [OF that]] by simp
    have "holds_targets s (bwTargets w) ?k" if "bltSlug b \<in> bwTargets w \<or> (\<exists>c\<in>set (bltFields b). chooses (bwTargets w) c)"
      using that chooses_reaches [OF placed] unfolding holds_targets_def by fastforce
    then have "bltSlug b \<in> bwWithin w" if "bltSlug b \<in> bwTargets w \<or> (\<exists>c\<in>set (bltFields b). chooses (bwTargets w) c)"
      using that within [OF placed] by simp
    moreover have "covered w c" if c: "c \<in> set (bltFields b)" for c
    proof (rule field(2) [OF \<open>fldBlocks f = Some bs\<close> \<open>b \<in> set bs\<close> c])
      fix sel assume "sel \<in> set (collectSelections c (keyLocalized ?k))"
      then have "sel \<in> set (view_selections ?k b)" using c by (auto simp: view_selections_def selections_of_def)
      then show "(selKey sel, selView sel) \<in> set (placed_views s)" by (rule placed_closed [OF placed])
    qed
    ultimately show ?thesis by blast
  qed
  show ?case using nested blocks by (subst covered.simps) (auto simp: list_all_iff list_ex_iff split: option.split)
qed

lemma containing_answers:
  assumes agree: "views_agree s" and "memory_ok (places s) m"
  shows "\<exists>result' m'. containing (graph_New s) T keys result m = Some (result', m') \<and> memory_ok (places s) m'
    \<and> result \<subseteq> result' \<and> (\<forall>k\<in>set keys. holds_targets s T k \<longrightarrow> keySlug k \<in> result')"
  using assms(2)
proof (induction keys arbitrary: result m)
  case (Cons k keys)
  show ?case
  proof (cases "keySlug k \<in> result")
    case True
    then show ?thesis using Cons.IH [OF Cons.prems, of result] by auto
  next
    case False
    obtain m1 where c: "closure (graph_fuel (graph_New s)) (graph_New s) False k m = Some ((places s False)\<^sup>* `` {k}, m1)"
      "memory_ok (places s) m1" by (rule closure_answers [OF agree Cons.prems])
    let ?result = "if \<exists>r\<in>(places s False)\<^sup>* `` {k}. keySlug r \<in> T then insert (keySlug k) result else result"
    have step: "containing (graph_New s) T (k # keys) result m = containing (graph_New s) T keys ?result m1"
      using False c(1) by simp
    have here: "holds_targets s T k \<Longrightarrow> keySlug k \<in> ?result" by (auto simp: holds_targets_def)
    show ?thesis using Cons.IH [OF c(2), of ?result] here unfolding step by (auto split: if_splits)
  qed
qed simp

lemma graph_Walker_covers:
  assumes "views_agree s" "memory_ok (places s) m"
  shows "\<exists>w m'. graph_Walker (graph_New s) T m = Some (w, m') \<and> bwTargets w = T
    \<and> (\<forall>f\<in>set (resource_fields s). covered w f)"
proof -
  obtain within m' where c: "Containing (graph_New s) T m = Some (within, m')" "memory_ok (places s) m'"
    "\<forall>k\<in>fst ` set (grViews (graph_New s)). holds_targets s T k \<longrightarrow> keySlug k \<in> within"
    using containing_answers [OF assms, of T "map fst (grViews (graph_New s))" T] by (auto simp: Containing_def)
  let ?w = "\<lparr>bwTargets = T, bwWithin = within\<rparr>"
  have "keySlug k \<in> within" if "(k, v) \<in> set (placed_views s)" "holds_targets s T k" for k v
  proof -
    have "map_of (grViews (graph_New s)) k = Some v" using graph_views [OF assms(1)] that(1) by blast
    then have "k \<in> fst ` set (grViews (graph_New s))" using map_of_SomeD by force
    then show ?thesis using c(3) that(2) by blast
  qed
  then have "covered ?w f" if "f \<in> set (resource_fields s)" for f
    by (intro covered_placed [of s ?w f False]) (simp_all add: placed_root [OF that])
  then show ?thesis using c(1) by (simp add: graph_Walker_def)
qed

lemma walker_Visit_unpruned: "(\<And>f. f \<in> set fs \<Longrightarrow> covered w f) \<Longrightarrow>
    walker_Visit w see code fs lookup s = walker_Visit (unpruned w) see code fs lookup s"
  unfolding walker_Visit_def
  by (rule visit_fields_unpruned) (auto intro: VisitField_unpruned VisitField_stop)

lemma Rewrite_unpruned: "(\<And>f. f \<in> set fs \<Longrightarrow> covered w f) \<Longrightarrow>
    Rewrite w rewrite code fs vals s = Rewrite (unpruned w) rewrite code fs vals s"
  unfolding Rewrite_def
  by (rule rewrite_fields_unpruned) (auto intro: RewriteField_unpruned RewriteField_stop)

text \<open>
  C10. A walker made from a schema's graph enters only the rows whose definitions can hold a
  chosen one. Over the values of a resource of the schema it visits the same rows in the same
  order, and rewrites to the same values, as a walker that enters every row; whatever the
  callbacks do, their state and errors included, and whatever the graph was asked before.
\<close>

theorem pruned_walks_miss_nothing:
  assumes "views_agree s" "c \<in> set (bsCollections s @ bsGlobals s)"
  shows "\<exists>w m. graph_Walker (graph_New s) targets (fold (\<lambda>q m. snd (ask_closure (graph_New s) q m)) earlier []) = Some (w, m)
    \<and> bwTargets w = targets
    \<and> walker_Visit w see code (colFields c) lookup st = walker_Visit (unpruned w) see code (colFields c) lookup st
    \<and> Rewrite w rewrite code (colFields c) vals st' = Rewrite (unpruned w) rewrite code (colFields c) vals st'"
proof -
  have "memory_ok (places s) (fold (\<lambda>q m. snd (ask_closure (graph_New s) q m)) earlier [])"
    using reachability.after_asking [of s "[]" earlier] assms(1) by simp
  then obtain w m where w: "graph_Walker (graph_New s) targets (fold (\<lambda>q m. snd (ask_closure (graph_New s) q m)) earlier []) = Some (w, m)"
    "bwTargets w = targets" "\<forall>f\<in>set (resource_fields s). covered w f"
    using graph_Walker_covers [OF assms(1), of _ targets] by blast
  have "covered w f" if "f \<in> set (colFields c)" for f
    using w(3) that assms(2) by (auto simp: resource_fields_def)
  then show ?thesis
    by (intro exI [of _ w] exI [of _ m] conjI w(1,2) walker_Visit_unpruned Rewrite_unpruned)
qed

definition sample_page_value :: svalue where
  "sample_page_value = ListOf [ObjectOf [(''blockType'', SString ''hero''),
     (''side'', ObjectOf [(''cards'', ListOf [ObjectOf [(''blockType'', SString ''card''), (''title'', SString ''a'')]])])]]"

definition sample_body :: "string \<Rightarrow> svalue option" where
  "sample_body name = (if name = ''body'' then Some sample_page_value else None)"

definition sample_see :: "block_row \<Rightarrow> svalue \<Rightarrow> svalue list \<Rightarrow> unit option \<times> svalue list" where
  "sample_see row v seen = (None, seen @ [Get v ''title''])"

definition sample_keep :: "block_row \<Rightarrow> svalues \<Rightarrow> unit \<Rightarrow> (unit + svalues \<times> bool) \<times> unit" where
  "sample_keep row m u = (Inr (m, False), u)"

lemma sample_walk: "bwTargets w = {''card''} \<Longrightarrow>
    walker_Visit (unpruned w) sample_see [] (colFields sample_page) sample_body [] = (None, [SString ''a''])"
  by (simp add: walker_Visit_def visit_fields_loop sample_graph fieldHolds.simps VisitField.simps sample_body_def
    ListOf_def ObjectOf_def CloneValues_def put_def Get_def value_tree.list_build sample_page_value_def row_kind_def Definition_def definitionBySlug_def sample_see_def)

lemma pruned_walks_miss_nothing_witness:
  "\<exists>w m. graph_Walker (graph_New sample_snapshot) {''card''} [] = Some (w, m)
    \<and> walker_Visit w sample_see [] (colFields sample_page) sample_body [] = (None, [SString ''a''])"
proof -
  have page: "sample_page \<in> set (bsCollections sample_snapshot @ bsGlobals sample_snapshot)" by (simp add: sample_snapshot_def)
  show ?thesis
    using pruned_walks_miss_nothing [OF sample_agree page, of "{''card''}" "[]" sample_see "[]" sample_body "[]" sample_keep "[]" "()"]
      sample_walk by fastforce
qed

end
