(* ===== verification/Validation.thy ===== *)
theory Validation
  imports Projector Value_JSON
begin

text \<open>
  Validation of document values against their fields (\<open>internal/operation/validate.go\<close> and
  \<open>primitive_lists.go\<close>). The collected issues and the traversal budget are the state. An
  issue's message is not modelled. \<open>time.Parse\<close>, \<open>mail.ParseAddress\<close> and \<open>strconv.ParseFloat\<close>
  are rules, and so are the validators of plugins, which applications supply.
\<close>

section \<open>Issues\<close>

record issue =
  isuCode :: string
  isuPath :: string
  isuLocale :: string

definition issue_at :: "string \<Rightarrow> string \<Rightarrow> issue" where
  "issue_at code path = \<lparr>isuCode = code, isuPath = path, isuLocale = []\<rparr>"

definition MaxValidationIssues :: nat where "MaxValidationIssues = 128"

definition add_issues :: "issue list \<Rightarrow> issue list \<Rightarrow> issue list" where
  "add_issues additions collected = collected @ take (MaxValidationIssues - length collected) additions"

definition issues_full :: "issue list \<Rightarrow> bool" where
  "issues_full collected \<longleftrightarrow> length collected \<ge> MaxValidationIssues"

type_synonym vstate = "ebudget \<times> issue list"

definition report :: "issue list \<Rightarrow> vstate \<Rightarrow> vstate" where
  "report additions st = (fst st, add_issues additions (snd st))"

section \<open>Options and objects\<close>

text \<open>
  What the standard library and the plugins answer: the parsed address, the time that a layout
  reads from a text, the stored text of a time, the number \<open>ParseFloat\<close> returns even with an
  error, and the validator of a plugin.
\<close>

record validation_rules =
  vrAddress :: "string \<Rightarrow> string option"
  vrParse :: "string \<Rightarrow> string \<Rightarrow> time option"
  vrFormat :: "time \<Rightarrow> string"
  vrFloat :: "string \<Rightarrow> float64"
  vrJSON :: json_rules
  vrPlugin :: "string \<Rightarrow> (field \<Rightarrow> svalue \<Rightarrow> string \<Rightarrow> issue list) option"

record validation_options =
  voPrefix :: string
  voRequireMissing :: bool
  voDeferCompleteness :: bool
  voPrevious :: "svalues option"
  voPreviousValue :: svalue
  voPreviousScope :: bool
  voRowMetadata :: "field_type option"
  voEmbeddedMetadata :: "string \<times> string"

definition plain_options :: validation_options where
  "plain_options = \<lparr>voPrefix = [], voRequireMissing = False, voDeferCompleteness = False, voPrevious = None,
     voPreviousValue = SInvalid, voPreviousScope = False, voRowMetadata = None, voEmbeddedMetadata = ([], [])\<rparr>"

definition retained :: "validation_options \<Rightarrow> bool" where
  "retained o1 \<longleftrightarrow> voPrevious o1 \<noteq> None \<or> svalue_Kind (voPreviousValue o1) = KindObject \<or> voPreviousScope o1"

definition or_zero :: "svalue option \<Rightarrow> svalue" where
  "or_zero v = (case v of Some x \<Rightarrow> x | None \<Rightarrow> SInvalid)"

definition prior :: "validation_options \<Rightarrow> string \<Rightarrow> svalue" where
  "prior o1 name = (case voPrevious o1 of
     Some m \<Rightarrow> or_zero (map_of m name) | None \<Rightarrow> or_zero (Lookup (voPreviousValue o1) name))"

text \<open>The options of a child, which is validated in full.\<close>

definition child_options :: "validation_options \<Rightarrow> string \<Rightarrow> svalue \<Rightarrow> validation_options" where
  "child_options o1 path previous = plain_options\<lparr>voPrefix := path, voRequireMissing := True,
     voDeferCompleteness := voDeferCompleteness o1, voPreviousScope := voPreviousScope o1, voPreviousValue := previous\<rparr>"

record validation_object =
  vobValues :: "svalues option"
  vobValue :: svalue
  vobEdited :: "svalues option"

definition object_lookup :: "validation_object \<Rightarrow> string \<Rightarrow> svalue option" where
  "object_lookup ob name = (case vobValues ob of Some m \<Rightarrow> map_of m name | None \<Rightarrow> Lookup (vobValue ob) name)"

definition object_entries :: "validation_object \<Rightarrow> (string \<times> svalue) list" where
  "object_entries ob = (case vobValues ob of Some m \<Rightarrow> m | None \<Rightarrow> (case vobValue ob of SObject m \<Rightarrow> m | _ \<Rightarrow> []))"

definition object_copy :: "validation_object \<Rightarrow> svalues" where
  "object_copy ob = (case vobValues ob of Some m \<Rightarrow> CloneValues m | None \<Rightarrow> fst (CopyObject (vobValue ob)))"

definition object_edit :: "validation_object \<Rightarrow> svalues" where
  "object_edit ob = (case vobEdited ob of Some m \<Rightarrow> m | None \<Rightarrow> object_copy ob)"

definition object_set :: "string \<Rightarrow> svalue \<Rightarrow> validation_object \<Rightarrow> validation_object" where
  "object_set name v ob = ob\<lparr>vobEdited := Some (put name v (object_edit ob))\<rparr>"

definition object_remove :: "string \<Rightarrow> validation_object \<Rightarrow> validation_object" where
  "object_remove name ob =
     (if object_lookup ob name = None then ob else ob\<lparr>vobEdited := Some (del name (object_edit ob))\<rparr>)"

definition object_result :: "validation_object \<Rightarrow> svalue \<times> bool" where
  "object_result ob = (case vobEdited ob of None \<Rightarrow> (vobValue ob, False) | Some m \<Rightarrow> (ObjectOf m, True))"

section \<open>Scalars\<close>

definition stringLengthConstraints :: "field \<Rightarrow> int option \<times> int option" where
  "stringLengthConstraints f =
     (let d = fldDetails f; bounds = (\<lambda>x. case x of Some t \<Rightarrow> (txfMinLength t, txfMaxLength t) | None \<Rightarrow> (None, None)) in
      case fldType f of
        FieldTypeText \<Rightarrow> bounds (fdText d)
      | FieldTypeTextarea \<Rightarrow> bounds (fdTextarea d)
      | FieldTypeCode \<Rightarrow> (case fdCode d of Some c \<Rightarrow> (cdfMinLength c, cdfMaxLength c) | None \<Rightarrow> (None, None))
      | _ \<Rightarrow> (None, None))"

text \<open>\<open>utf8.RuneCountInString\<close>: an invalid byte counts as one rune.\<close>

function RuneCount :: "string \<Rightarrow> nat" where
  "RuneCount [] = 0"
| "RuneCount (c # r) =
     (if byte c < 128 then Suc (RuneCount r)
      else case rune_width (c # r) of None \<Rightarrow> Suc (RuneCount r) | Some k \<Rightarrow> Suc (RuneCount (drop (k - 1) r)))"
  by pat_completeness auto
termination
  by (relation "measure length") auto

definition length_issues :: "bool \<Rightarrow> int option \<Rightarrow> int option \<Rightarrow> int \<Rightarrow> string \<Rightarrow> issue list" where
  "length_issues defer lower upper n path =
     (case lower of Some l \<Rightarrow> if n < l \<and> \<not> defer then [issue_at ''min_length'' path] else [] | None \<Rightarrow> [])
     @ (case upper of Some u \<Rightarrow> if n > u then [issue_at ''max_length'' path] else [] | None \<Rightarrow> [])"

definition text_issues :: "bool \<Rightarrow> field \<Rightarrow> svalue \<Rightarrow> string \<Rightarrow> issue list" where
  "text_issues defer f v path =
     (case v of
        SString s \<Rightarrow>
          if fldRequired f \<and> s = [] \<and> \<not> defer then [issue_at ''required'' path]
          else (case stringLengthConstraints f of (lower, upper) \<Rightarrow> length_issues defer lower upper (int (RuneCount s)) path)
      | _ \<Rightarrow> [issue_at ''invalid_type'' path])"

definition email_issues :: "validation_rules \<Rightarrow> bool \<Rightarrow> field \<Rightarrow> svalue \<Rightarrow> string \<Rightarrow> issue list" where
  "email_issues R defer f v path =
     (case v of
        SString s \<Rightarrow>
          if s = [] then (if fldRequired f \<and> \<not> defer then [issue_at ''required'' path] else [])
          else if vrAddress R s \<noteq> Some s then [issue_at ''invalid_email'' path] else []
      | _ \<Rightarrow> [issue_at ''invalid_type'' path])"

definition canonicalDateValue :: "validation_rules \<Rightarrow> field \<Rightarrow> string \<Rightarrow> string option" where
  "canonicalDateValue R f s =
     (let format = (case fdDate (fldDetails f) of Some d \<Rightarrow> d | None \<Rightarrow> DateOnly) in
      case format of
        DateOnly \<Rightarrow> if vrParse R ''2006-01-02'' s = None then None else Some s
      | DateAndTime \<Rightarrow> map_option (vrFormat R) (vrParse R ''2006-01-02T15:04:05Z07:00'' s)
      | TimeOnly \<Rightarrow>
          if vrParse R ''15:04'' s \<noteq> None then Some s
          else if vrParse R ''15:04:05'' s = None then None else Some s
      | DateFormatUnknown \<Rightarrow> None)"

text \<open>A date and the text that replaces it.\<close>

definition date_check :: "validation_rules \<Rightarrow> bool \<Rightarrow> field \<Rightarrow> svalue \<Rightarrow> string \<Rightarrow> issue list \<times> svalue option" where
  "date_check R defer f v path =
     (case v of
        SString s \<Rightarrow>
          if s = [] then (if fldRequired f \<and> \<not> defer then [issue_at ''required'' path] else [], None)
          else (case canonicalDateValue R f s of
                  None \<Rightarrow> ([issue_at ''invalid_date'' path], None)
                | Some canonical \<Rightarrow> ([], if canonical \<noteq> s then Some (SString canonical) else None))
      | _ \<Rightarrow> ([issue_at ''invalid_type'' path], None))"

definition bound_issues :: "field \<Rightarrow> float64 \<Rightarrow> string \<Rightarrow> issue list" where
  "bound_issues f x path =
     (case fdNumber (fldDetails f) of
        None \<Rightarrow> []
      | Some n \<Rightarrow>
          (case nufMin n of Some l \<Rightarrow> if float_lt x l then [issue_at ''min_value'' path] else [] | None \<Rightarrow> [])
          @ (case nufMax n of Some u \<Rightarrow> if float_lt u x then [issue_at ''max_value'' path] else [] | None \<Rightarrow> []))"

definition number_issues :: "field \<Rightarrow> svalue \<Rightarrow> string \<Rightarrow> issue list" where
  "number_issues f v path =
     (case v of
        SNumber x \<Rightarrow> if IsNaN x \<or> IsInf x then [issue_at ''invalid_number'' path] else bound_issues f x path
      | _ \<Rightarrow> [issue_at ''invalid_number'' path])"

definition point_issues :: "svalue \<Rightarrow> string \<Rightarrow> issue list" where
  "point_issues v path =
     (if svalue_Kind v \<noteq> KindList \<or> Len v \<noteq> 2 then [issue_at ''invalid_point'' path]
      else case (ListItem v 0, ListItem v 1) of
        (Some (SNumber longitude), Some (SNumber latitude)) \<Rightarrow>
          if IsNaN longitude \<or> IsNaN latitude \<or> IsInf longitude \<or> IsInf latitude
             \<or> float_lt longitude (float64_of_int (-180)) \<or> float_lt (float64_of_int 180) longitude
             \<or> float_lt latitude (float64_of_int (-90)) \<or> float_lt (float64_of_int 90) latitude
          then [issue_at ''invalid_point'' path] else []
      | _ \<Rightarrow> [issue_at ''invalid_point'' path])"

section \<open>Selections and lists\<close>

text \<open>A resolved select or radio field has its options.\<close>

definition select_options :: "field \<Rightarrow> string list" where
  "select_options f = (case fldSelect f of Some s \<Rightarrow> selOptions s | None \<Rightarrow> [])"

fun option_issues :: "string list \<Rightarrow> string \<Rightarrow> nat \<Rightarrow> string set \<Rightarrow> svalue list \<Rightarrow> issue list" where
  "option_issues options path i seen [] = []"
| "option_issues options path i seen (entry # items) =
     (let itemPath = path @ CHR ''.'' # nat_dec i in
      case entry of
        SString s \<Rightarrow>
          if s \<in> seen then issue_at ''duplicate_option'' itemPath # option_issues options path (i + 1) seen items
          else (if s \<in> set options then [] else [issue_at ''invalid_option'' itemPath])
            @ option_issues options path (i + 1) (insert s seen) items
      | _ \<Rightarrow> issue_at ''invalid_type'' itemPath # option_issues options path (i + 1) seen items)"

definition select_issues :: "bool \<Rightarrow> field \<Rightarrow> svalue \<Rightarrow> string \<Rightarrow> issue list" where
  "select_issues defer f v path =
     (if fldType f = FieldTypeSelect \<and> (case fldSelect f of Some s \<Rightarrow> selHasMany s | None \<Rightarrow> False) then
        (case v of
           SList t \<Rightarrow> (if fldRequired f \<and> vlen t = 0 \<and> \<not> defer then [issue_at ''required'' path] else [])
             @ option_issues (select_options f) path 0 {} (elements t)
         | _ \<Rightarrow> [issue_at ''invalid_type'' path])
      else case v of
        SString s \<Rightarrow>
          if s = [] then (if fldRequired f \<and> \<not> defer then [issue_at ''required'' path] else [])
          else if s \<in> set (select_options f) then [] else [issue_at ''invalid_option'' path]
      | _ \<Rightarrow> [issue_at ''invalid_type'' path])"

definition primitive_item_issues :: "bool \<Rightarrow> field \<Rightarrow> svalue \<Rightarrow> string \<Rightarrow> issue list" where
  "primitive_item_issues defer f entry path =
     (if fldType f = FieldTypeTextList then
        (case entry of
           SString s \<Rightarrow>
             (case fdText (fldDetails f) of
                None \<Rightarrow> []
              | Some t \<Rightarrow> length_issues defer (txfMinLength t) (txfMaxLength t) (int (RuneCount s)) path)
         | _ \<Rightarrow> [issue_at ''invalid_type'' path])
      else number_issues f entry path)"

fun primitive_items :: "bool \<Rightarrow> field \<Rightarrow> string \<Rightarrow> svalue list \<Rightarrow> issue list \<Rightarrow> issue list" where
  "primitive_items defer f path [] collected = collected"
| "primitive_items defer f path (entry # items) collected =
     (if issues_full collected then collected
      else primitive_items defer f path items (add_issues (primitive_item_issues defer f entry path) collected))"

definition validatePrimitiveList :: "bool \<Rightarrow> field \<Rightarrow> svalue \<Rightarrow> string \<Rightarrow> issue list \<Rightarrow> issue list" where
  "validatePrimitiveList defer f v path collected =
     (case v of
        SList t \<Rightarrow>
          let n = int (vlen t);
              c1 = add_issues (if fldRequired f \<and> n = 0 \<and> \<not> defer then [issue_at ''required'' path] else []) collected;
              c2 = (case fdList (fldDetails f) of
                      None \<Rightarrow> c1
                    | Some l \<Rightarrow>
                        add_issues (if plfMaxRows l > 0 \<and> n > plfMaxRows l then [issue_at ''max_rows'' path] else [])
                          (add_issues (if n < plfMinRows l \<and> \<not> defer then [issue_at ''min_rows'' path] else []) c1))
          in primitive_items defer f path (elements t) c2
      | _ \<Rightarrow> add_issues [issue_at ''invalid_type'' path] collected)"

text \<open>
  What read hooks make of a list is checked for its shape only. The error has the one-based
  index of the item that fails, or 0 where the value is no list.
\<close>

fun primitive_output :: "bool \<Rightarrow> nat \<Rightarrow> svalue list \<Rightarrow> nat option" where
  "primitive_output texts i [] = None"
| "primitive_output texts i (entry # items) =
     (case entry of
        SString s \<Rightarrow> if texts then primitive_output texts (i + 1) items else Some (i + 1)
      | SNumber x \<Rightarrow> if texts \<or> IsNaN x \<or> IsInf x then Some (i + 1) else primitive_output texts (i + 1) items
      | _ \<Rightarrow> Some (i + 1))"

definition validatePrimitiveListReadOutput :: "field \<Rightarrow> svalue \<Rightarrow> nat option" where
  "validatePrimitiveListReadOutput f v =
     (case v of
        SNull \<Rightarrow> None
      | SList t \<Rightarrow> primitive_output (fldType f = FieldTypeTextList) 0 (elements t)
      | _ \<Rightarrow> Some 0)"

section \<open>References\<close>

definition MaxDocumentReferences :: nat where "MaxDocumentReferences = 512"

definition referenceElements :: "svalue \<Rightarrow> bool \<Rightarrow> svalue list" where
  "referenceElements v many = (if many then (case v of SList t \<Rightarrow> elements t | _ \<Rightarrow> []) else [v])"

text \<open>The checks of a list of references, then of each of them until there are too many issues.\<close>

definition reference_list_issues :: "bool \<Rightarrow> bool \<Rightarrow> field \<Rightarrow> svalue \<Rightarrow> string \<Rightarrow> issue list option" where
  "reference_list_issues many defer f v path =
     (if \<not> many then None
      else if svalue_Kind v \<noteq> KindList then Some [issue_at ''invalid_type'' path]
      else if fldRequired f \<and> Len v = 0 \<and> \<not> defer then Some [issue_at ''required'' path]
      else if Len v > MaxDocumentReferences then Some [issue_at ''max_references'' path]
      else None)"

fun reference_items :: "(nat \<Rightarrow> svalue \<Rightarrow> issue list) \<Rightarrow> nat \<Rightarrow> svalue list \<Rightarrow> issue list \<Rightarrow> issue list" where
  "reference_items check i [] found = found"
| "reference_items check i (entry # items) found =
     (if length found \<ge> MaxValidationIssues then found else reference_items check (i + 1) items (found @ check i entry))"

definition id_issues :: "string \<Rightarrow> bool \<Rightarrow> bool \<Rightarrow> field \<Rightarrow> string \<Rightarrow> nat \<Rightarrow> svalue \<Rightarrow> issue list" where
  "id_issues code many defer f path i entry =
     (case entry of
        SString s \<Rightarrow>
          if s = [] \<and> \<not> many then (if fldRequired f \<and> \<not> defer then [issue_at ''required'' path] else [])
          else if s = [] then [issue_at code (if many then path @ CHR ''.'' # nat_dec i else path)] else []
      | _ \<Rightarrow> [issue_at code (if many then path @ CHR ''.'' # nat_dec i else path)])"

definition validateUpload :: "bool \<Rightarrow> field \<Rightarrow> svalue \<Rightarrow> string \<Rightarrow> issue list" where
  "validateUpload defer f v path =
     (case fldUpload f of
        None \<Rightarrow> [issue_at ''invalid_upload'' path]
      | Some u \<Rightarrow>
          (case reference_list_issues (uplHasMany u) defer f v path of
             Some found \<Rightarrow> found
           | None \<Rightarrow> reference_items (id_issues ''invalid_upload'' (uplHasMany u) defer f path) 0 (referenceElements v (uplHasMany u)) []))"

definition relationshipTargetExists :: "relationship_target list \<Rightarrow> string \<Rightarrow> bool" where
  "relationshipTargetExists targets slug \<longleftrightarrow> (\<exists>t\<in>set targets. tgtCollectionSlug t = slug)"

definition polymorphic_issues :: "relationship_field \<Rightarrow> string \<Rightarrow> nat \<Rightarrow> svalue \<Rightarrow> issue list" where
  "polymorphic_issues r path i entry =
     (let itemPath = (if relHasMany r then path @ CHR ''.'' # nat_dec i else path) in
      if svalue_Kind entry \<noteq> KindObject then [issue_at ''invalid_relationship'' itemPath]
      else case (Get entry ''relationTo'', Get entry ''id'') of
        (SString slug, SString target) \<Rightarrow>
          if target = [] \<or> \<not> relationshipTargetExists (relTargets r) slug then [issue_at ''invalid_relationship'' itemPath] else []
      | _ \<Rightarrow> [issue_at ''invalid_relationship'' itemPath])"

definition validateRelationship :: "bool \<Rightarrow> field \<Rightarrow> svalue \<Rightarrow> string \<Rightarrow> issue list" where
  "validateRelationship defer f v path =
     (case fldRelationship f of
        None \<Rightarrow> [issue_at ''invalid_relationship'' path]
      | Some r \<Rightarrow>
          (case reference_list_issues (relHasMany r) defer f v path of
             Some found \<Rightarrow> found
           | None \<Rightarrow>
               reference_items
                 (if relPolymorphic r then polymorphic_issues r path
                  else id_issues ''invalid_relationship'' (relHasMany r) defer f path)
                 0 (referenceElements v (relHasMany r)) []))"

section \<open>Defaults\<close>

definition ParseBool :: "string \<Rightarrow> bool" where
  "ParseBool s \<longleftrightarrow> s \<in> {''1'', ''t'', ''T'', ''TRUE'', ''true'', ''True''}"

definition defaultValue :: "validation_rules \<Rightarrow> field \<Rightarrow> string \<Rightarrow> svalue" where
  "defaultValue R f s =
     (case fldType f of
        FieldTypeTextList \<Rightarrow> (case value_UnmarshalJSON (vrJSON R) s of Inr v \<Rightarrow> v | Inl _ \<Rightarrow> SNull)
      | FieldTypeNumberList \<Rightarrow> (case value_UnmarshalJSON (vrJSON R) s of Inr v \<Rightarrow> v | Inl _ \<Rightarrow> SNull)
      | FieldTypeNumber \<Rightarrow> SNumber (vrFloat R s)
      | FieldTypeCheckbox \<Rightarrow> SBoolean (ParseBool s)
      | _ \<Rightarrow> SString s)"

function missingDefaultValue :: "validation_rules \<Rightarrow> field \<Rightarrow> svalue option" where
  "missingDefaultValue R f =
     (case fdDefault (fldDetails f) of
        Some s \<Rightarrow> Some (defaultValue R f s)
      | None \<Rightarrow>
          (case (case fldSelect f of Some s \<Rightarrow> if selHasMany s then selDefaultValues s else [] | None \<Rightarrow> []) of
             option # options \<Rightarrow> Some (ListOf (map SString (option # options)))
           | [] \<Rightarrow>
               (case (if fldType f = FieldTypeGroup then fldNested f else None) of
                  None \<Rightarrow> None
                | Some fs \<Rightarrow>
                    let m = fold (\<lambda>c m. if fldCategory c = FieldCategoryPresentation then m
                                else case missingDefaultValue R c of Some v \<Rightarrow> put (fldName c) v m | None \<Rightarrow> m) fs []
                    in if m = [] then None else Some (ObjectOf m))))"
  by pat_completeness auto
termination
  by (relation "measure (\<lambda>(R, f). size f)") (auto split: if_splits dest: size_nested intro: less_trans [OF size_list_mem])

declare missingDefaultValue.simps [simp del]

end
