(* ===== verification/Validation_Walk.thy ===== *)
theory Validation_Walk
  imports Validation
begin

text \<open>
  The traversal of \<open>internal/operation/validate.go\<close>: members, groups, rows, blocks and the
  payloads of plugin envelopes. The recursive call is an argument of the steps.
\<close>

type_synonym validate_rec = "validation_options \<Rightarrow> field list \<Rightarrow> svalue \<Rightarrow> vstate \<Rightarrow> (svalue \<times> bool) \<times> vstate"

section \<open>Rows\<close>

definition row_text :: "svalue \<Rightarrow> string \<Rightarrow> string" where
  "row_text row name = (case Get row name of SString s \<Rightarrow> s | _ \<Rightarrow> [])"

definition validationRowsByKey :: "svalue \<Rightarrow> svalues" where
  "validationRowsByKey v =
     (case v of
        SList t \<Rightarrow> fold (\<lambda>row byKey.
            if svalue_Kind row = KindObject \<and> row_text row ''_key'' \<noteq> [] then put (row_text row ''_key'') row byKey else byKey)
          (elements t) []
      | _ \<Rightarrow> [])"

definition validateRowKeyValue ::
  "svalue option \<Rightarrow> (string, nat) gomap \<Rightarrow> string \<Rightarrow> nat \<Rightarrow> issue list \<times> (string, nat) gomap" where
  "validateRowKeyValue v seen rowPath i =
     (case v of
        None \<Rightarrow> ([], seen)
      | Some (SString key) \<Rightarrow>
          if trim_space key = [] then ([issue_at ''invalid_row_key'' (rowPath @ ''._key'')], seen)
          else if mem_key seen key then ([issue_at ''duplicate_row_key'' (rowPath @ ''._key'')], seen)
          else ([], put key i seen)
      | Some _ \<Rightarrow> ([issue_at ''invalid_row_key'' (rowPath @ ''._key'')], seen))"

definition validateRowKey ::
  "svalues \<Rightarrow> svalues \<Rightarrow> (string, nat) gomap \<Rightarrow> string \<Rightarrow> nat \<Rightarrow> issue list \<times> svalues \<times> (string, nat) gomap" where
  "validateRowKey input validated seen rowPath i =
     (case validateRowKeyValue (map_of input ''_key'') seen rowPath i of
        (found, seen1) \<Rightarrow>
          (found,
           (case map_of input ''_key'' of Some v \<Rightarrow> if found = [] then put ''_key'' v validated else validated | None \<Rightarrow> validated),
           seen1))"

text \<open>
  A loop over rows that stops when there are too many issues. A step may replace its row, and
  threads the keys seen so far.
\<close>

type_synonym row_step = "nat \<Rightarrow> svalue \<Rightarrow> (string, nat) gomap \<Rightarrow> vstate \<Rightarrow> (svalue option \<times> (string, nat) gomap) \<times> vstate"

fun validate_rows :: "row_step \<Rightarrow> nat \<Rightarrow> svalue list \<Rightarrow> (string, nat) gomap \<Rightarrow> vstate \<Rightarrow> (svalue list \<times> bool) \<times> vstate" where
  "validate_rows step i [] seen st = (([], False), st)"
| "validate_rows step i (row # rows) seen st =
     (if issues_full (snd st) then ((row # rows, False), st)
      else case step i row seen st of
        ((replacement, seen1), st1) \<Rightarrow>
          (case validate_rows step (i + 1) rows seen1 st1 of
             ((rest, changed), st2) \<Rightarrow>
               (((case replacement of Some r \<Rightarrow> r | None \<Rightarrow> row) # rest, replacement \<noteq> None \<or> changed), st2)))"

definition finish_row ::
  "nat \<Rightarrow> svalue \<Rightarrow> (string, nat) gomap \<Rightarrow> string \<Rightarrow> (svalue \<times> bool) \<times> vstate \<Rightarrow>
   (svalue option \<times> (string, nat) gomap) \<times> vstate" where
  "finish_row i row seen rowPath validated =
     (case validated of ((child, changed), st) \<Rightarrow>
        (case validateRowKeyValue (Lookup row ''_key'') seen rowPath i of
           (found, seen1) \<Rightarrow> ((if changed then Some child else None, seen1), report found st)))"

definition array_row :: "validate_rec \<Rightarrow> validation_options \<Rightarrow> field list \<Rightarrow> svalues \<Rightarrow> string \<Rightarrow> row_step" where
  "array_row rec o1 fs previousRows path i row seen st =
     (let rowPath = path @ CHR ''.'' # nat_dec i in
      if svalue_Kind row \<noteq> KindObject then ((Some SInvalid, seen), report [issue_at ''invalid_type'' rowPath] st)
      else finish_row i row seen rowPath
        (rec ((child_options o1 rowPath (or_zero (map_of previousRows (row_text row ''_key''))))\<lparr>voRowMetadata := Some FieldTypeArray\<rparr>)
          fs row st))"

definition blocks_row :: "validate_rec \<Rightarrow> validation_options \<Rightarrow> block_type list \<Rightarrow> svalues \<Rightarrow> string \<Rightarrow> row_step" where
  "blocks_row rec o1 bs previousRows path i row seen st =
     (let rowPath = path @ CHR ''.'' # nat_dec i in
      if svalue_Kind row \<noteq> KindObject then ((Some SInvalid, seen), report [issue_at ''invalid_type'' rowPath] st)
      else case (case Lookup row ''blockType'' of Some (SString kind) \<Rightarrow> definitionBySlug bs kind | _ \<Rightarrow> None) of
        None \<Rightarrow> ((Some SInvalid, seen), report [issue_at ''invalid_block'' (rowPath @ ''.blockType'')] st)
      | Some block \<Rightarrow>
          (let previous = or_zero (map_of previousRows (row_text row ''_key''));
               same = (if row_text previous ''blockType'' = row_text row ''blockType'' then previous else SInvalid)
           in finish_row i row seen rowPath
             (rec ((child_options o1 rowPath same)\<lparr>voRowMetadata := Some FieldTypeBlocks\<rparr>) (bltFields block) row st)))"

definition row_count_issues :: "bool \<Rightarrow> field \<Rightarrow> row_limits \<Rightarrow> int \<Rightarrow> string \<Rightarrow> issue list" where
  "row_count_issues defer f limits n path =
     (if fldRequired f \<and> n = 0 \<and> \<not> defer then [issue_at ''required'' path] else [])
     @ (if n < rlMinRows limits \<and> \<not> defer \<and> \<not> (fldRequired f \<and> n = 0) then [issue_at ''min_rows'' path] else [])
     @ (if rlMaxRows limits > 0 \<and> n > rlMaxRows limits then [issue_at ''max_rows'' path] else [])"

text \<open>The list of an array or blocks field, given the step of a row.\<close>

definition validate_list :: "row_step \<Rightarrow> bool \<Rightarrow> field \<Rightarrow> row_limits \<Rightarrow> svalue \<Rightarrow> string \<Rightarrow> vstate \<Rightarrow> svalue option \<times> vstate" where
  "validate_list step defer f limits v path st =
     (case v of
        SList t \<Rightarrow>
          (case validate_rows step 0 (elements t) [] (report (row_count_issues defer f limits (int (vlen t)) path) st) of
             ((rows, changed), st1) \<Rightarrow> (if changed then Some (ListOf rows) else None, st1))
      | _ \<Rightarrow> (None, report [issue_at ''invalid_type'' path] st))"

section \<open>Envelopes\<close>

definition validationEmbeddedByIdentity :: "field \<Rightarrow> svalue \<Rightarrow> string \<Rightarrow> ebudget \<Rightarrow> svalues \<times> ebudget" where
  "validationEmbeddedByIdentity f v path b =
     (case Visit f v path (\<lambda>occ (b, previous). (None, (b, put (roIdentity occ) (roPayload occ) previous))) (b, []) of
        (Some e, (b1, previous)) \<Rightarrow> ([], b1)
      | (None, (b1, previous)) \<Rightarrow> (previous, b1))"

fun embedded_code_text :: "embedded_code \<Rightarrow> string" where
  "embedded_code_text EmbeddedLimit = ''embedded_limit''"
| "embedded_code_text InvalidEmbeddedNode = ''invalid_embedded_node''"
| "embedded_code_text InvalidEmbeddedPayload = ''invalid_embedded_payload''"
| "embedded_code_text UnknownEmbeddedSchema = ''unknown_embedded_schema''"
| "embedded_code_text InvalidRowKey = ''invalid_row_key''"
| "embedded_code_text (DuplicateRowKey previous) = ''duplicate_row_key''"
| "embedded_code_text InvalidEmbeddedChildren = ''invalid_embedded_children''"
| "embedded_code_text InvalidEmbeddedRoot = ''invalid_embedded_root''"
| "embedded_code_text _ = ''invalid_embedded''"

definition validate_envelope ::
  "validate_rec \<Rightarrow> validation_options \<Rightarrow> field \<Rightarrow> svalue \<Rightarrow> string \<Rightarrow> vstate \<Rightarrow> svalue option \<times> vstate" where
  "validate_envelope rec o1 f v path st =
     (case validationEmbeddedByIdentity f (prior o1 (fldName f)) path (fst st) of
        (previous, b1) \<Rightarrow>
          (case TransformValue f v path
                  (\<lambda>occ (b, (changed, found)).
                     case rec ((child_options o1 (roRuntimePath occ) (or_zero (map_of previous (roIdentity occ))))
                              \<lparr>voEmbeddedMetadata := (ecIdentity (roCase occ), ecDiscriminator (roCase occ))\<rparr>)
                            (roFields occ) (roPayload occ) (b, found) of
                       ((child, childChanged), (b2, found2)) \<Rightarrow> (Inr (child, childChanged), (b2, (changed \<or> childChanged, found2))))
                  (b1, (False, snd st)) of
             (Inl e, (b3, (changed, found))) \<Rightarrow>
               (None, report [issue_at (embedded_code_text (fst e)) (snd e)] (b3, found))
           | (Inr updated, (b3, (changed, found))) \<Rightarrow> (if changed then Some updated else None, (b3, found))))"

definition validate_plugin ::
  "validation_rules \<Rightarrow> validate_rec \<Rightarrow> validation_options \<Rightarrow> field \<Rightarrow> svalue \<Rightarrow> string \<Rightarrow> vstate \<Rightarrow> svalue option \<times> vstate" where
  "validate_plugin R rec o1 f v path st =
     (if fldPlugin f = None then (None, report [issue_at ''invalid_plugin_field'' path] st)
      else case vrPlugin R (case fldPlugin f of Some p \<Rightarrow> plgKey p | None \<Rightarrow> []) of
        None \<Rightarrow> (None, report [issue_at ''missing_plugin_validator'' path] st)
      | Some validator \<Rightarrow>
          (let st1 = report (validator f v path) st in
           if embedded_HasFields f \<and> \<not> issues_full (snd st1) then validate_envelope rec o1 f v path st1 else (None, st1)))"

section \<open>Members\<close>

text \<open>The value of a member that is present and not null, and what replaces it.\<close>

definition validate_value ::
  "validation_rules \<Rightarrow> validate_rec \<Rightarrow> validation_options \<Rightarrow> field \<Rightarrow> svalue \<Rightarrow> string \<Rightarrow> vstate \<Rightarrow> svalue option \<times> vstate" where
  "validate_value R rec o1 f v path st =
     (let defer = voDeferCompleteness o1; scalar = (\<lambda>found. (None, report found st)) in
      case fldType f of
        FieldTypeText \<Rightarrow> scalar (text_issues defer f v path)
      | FieldTypeTextarea \<Rightarrow> scalar (text_issues defer f v path)
      | FieldTypeCode \<Rightarrow> scalar (text_issues defer f v path)
      | FieldTypeTextList \<Rightarrow> (None, (fst st, validatePrimitiveList defer f v path (snd st)))
      | FieldTypeNumberList \<Rightarrow> (None, (fst st, validatePrimitiveList defer f v path (snd st)))
      | FieldTypeRelationship \<Rightarrow> scalar (validateRelationship defer f v path)
      | FieldTypeUpload \<Rightarrow> scalar (validateUpload defer f v path)
      | FieldTypeEmail \<Rightarrow> scalar (email_issues R defer f v path)
      | FieldTypeDate \<Rightarrow> (case date_check R defer f v path of (found, canonical) \<Rightarrow> (canonical, report found st))
      | FieldTypeNumber \<Rightarrow> scalar (number_issues f v path)
      | FieldTypeCheckbox \<Rightarrow> scalar (if svalue_Kind v = KindBoolean then [] else [issue_at ''invalid_type'' path])
      | FieldTypeJSON \<Rightarrow> scalar (if svalue_Kind v = KindDocument then [issue_at ''invalid_json'' path] else [])
      | FieldTypeSelect \<Rightarrow> scalar (select_issues defer f v path)
      | FieldTypeRadio \<Rightarrow> scalar (select_issues defer f v path)
      | FieldTypePoint \<Rightarrow> scalar (point_issues v path)
      | FieldTypeGroup \<Rightarrow>
          (case fldNested f of
             None \<Rightarrow> scalar [issue_at ''invalid_type'' path]
           | Some fs \<Rightarrow>
               if svalue_Kind v \<noteq> KindObject then scalar [issue_at ''invalid_type'' path]
               else (case rec (child_options o1 path (prior o1 (fldName f))) fs v st of
                       ((child, changed), st1) \<Rightarrow> (if changed then Some child else None, st1)))
      | FieldTypeArray \<Rightarrow>
          (case fldNested f of
             None \<Rightarrow> scalar [issue_at ''invalid_type'' path]
           | Some fs \<Rightarrow>
               validate_list (array_row rec o1 fs (validationRowsByKey (prior o1 (fldName f))) path) defer f
                 (fdNestedRows (fldDetails f)) v path st)
      | FieldTypeBlocks \<Rightarrow>
          (case fldBlocks f of
             None \<Rightarrow> scalar [issue_at ''invalid_type'' path]
           | Some bs \<Rightarrow>
               validate_list (blocks_row rec o1 bs (validationRowsByKey (prior o1 (fldName f))) path) defer f
                 (fdBlocksRows (fldDetails f)) v path st)
      | FieldTypePlugin \<Rightarrow> validate_plugin R rec o1 f v path st
      | _ \<Rightarrow> (None, st))"

text \<open>What a missing or null value of a field lacks.\<close>

definition lacking_issues :: "field \<Rightarrow> string \<Rightarrow> issue list" where
  "lacking_issues f path =
     (if fldRequired f then [issue_at ''required'' path]
      else if (case fdList (fldDetails f) of Some l \<Rightarrow> plfMinRows l > 0 | None \<Rightarrow> False) then [issue_at ''min_rows'' path]
      else if fldType f = FieldTypeArray \<and> fldNested f \<noteq> None \<and> rlMinRows (fdNestedRows (fldDetails f)) > 0
      then [issue_at ''min_rows'' path] else [])"

definition validate_present ::
  "validation_rules \<Rightarrow> validate_rec \<Rightarrow> validation_options \<Rightarrow> field \<Rightarrow> svalue \<Rightarrow> string \<Rightarrow> validation_object \<times> vstate \<Rightarrow>
   validation_object \<times> vstate" where
  "validate_present R rec o1 f v path = (\<lambda>(ob, st).
     if svalue_Kind v = KindNull then (ob, report (if voDeferCompleteness o1 then [] else lacking_issues f path) st)
     else case validate_value R rec o1 f v path st of
       (None, st1) \<Rightarrow> (ob, st1)
     | (Some u, st1) \<Rightarrow> (object_set (fldName f) u ob, st1))"

definition validate_member ::
  "validation_rules \<Rightarrow> validate_rec \<Rightarrow> validation_options \<Rightarrow> field \<Rightarrow> validation_object \<times> vstate \<Rightarrow> validation_object \<times> vstate" where
  "validate_member R rec o1 f = (\<lambda>(ob, st).
     let path = join (voPrefix o1) (fldName f) in
     if fldCategory f = FieldCategoryPresentation then (object_remove (fldName f) ob, st)
     else case object_lookup ob (fldName f) of
       Some v \<Rightarrow> validate_present R rec o1 f v path (ob, st)
     | None \<Rightarrow>
         if fldLocalized f \<and> retained o1 then (ob, st)
         else case (if voRequireMissing o1 then missingDefaultValue R f else None) of
           Some v \<Rightarrow> validate_present R rec o1 f v path (object_set (fldName f) v ob, st)
         | None \<Rightarrow>
             (ob, report (if voRequireMissing o1 \<and> \<not> voDeferCompleteness o1 then lacking_issues f path else []) st))"

fun each_member ::
  "validation_rules \<Rightarrow> validate_rec \<Rightarrow> validation_options \<Rightarrow> field list \<Rightarrow> validation_object \<times> vstate \<Rightarrow> validation_object \<times> vstate" where
  "each_member R rec o1 [] ob = ob"
| "each_member R rec o1 (f # fs) ob =
     (if issues_full (snd (snd ob)) then ob else each_member R rec o1 fs (validate_member R rec o1 f ob))"

definition metadata_name :: "validation_options \<Rightarrow> string \<Rightarrow> bool" where
  "metadata_name o1 name \<longleftrightarrow>
     name = ''_key'' \<and> voRowMetadata o1 \<in> {Some FieldTypeArray, Some FieldTypeBlocks}
     \<or> name = ''blockType'' \<and> voRowMetadata o1 = Some FieldTypeBlocks
     \<or> name \<noteq> [] \<and> (name = fst (voEmbeddedMetadata o1) \<or> name = snd (voEmbeddedMetadata o1))"

definition stored_names :: "field list \<Rightarrow> string set" where
  "stored_names fs = fldName ` {f \<in> set fs. fldCategory f \<noteq> FieldCategoryPresentation}"

fun unknown_members :: "validation_options \<Rightarrow> string set \<Rightarrow> (string \<times> svalue) list \<Rightarrow> vstate \<Rightarrow> vstate" where
  "unknown_members o1 names [] st = st"
| "unknown_members o1 names ((name, v) # entries) st =
     (if issues_full (snd st) then st
      else unknown_members o1 names entries
        (if metadata_name o1 name \<or> name \<in> names then st
         else report [issue_at ''unknown_field'' (join (voPrefix o1) name)] st))"

definition validateMembers ::
  "validation_rules \<Rightarrow> validate_rec \<Rightarrow> validation_options \<Rightarrow> field list \<Rightarrow> validation_object \<Rightarrow> vstate \<Rightarrow> validation_object \<times> vstate" where
  "validateMembers R rec o1 fs ob st =
     each_member R rec o1 fs (ob, unknown_members o1 (stored_names fs) (object_entries ob) st)"

section \<open>The recursion\<close>

lemma array_row_cong: "(\<And>o1 w st. rec o1 fs w st = rec' o1 fs w st) \<Longrightarrow> array_row rec o1 fs previous path = array_row rec' o1 fs previous path"
  by (intro ext) (simp add: array_row_def Let_def)

lemma blocks_row_cong:
  assumes "\<And>o1 b w st. definitionBySlug bs (bltSlug b) = Some b \<Longrightarrow> rec o1 (bltFields b) w st = rec' o1 (bltFields b) w st"
  shows "blocks_row rec o1 bs previous path = blocks_row rec' o1 bs previous path"
proof (intro ext)
  fix i row seen st
  have found: "definitionBySlug bs (bltSlug b) = Some b"
    if "(case Lookup row ''blockType'' of Some (SString kind) \<Rightarrow> definitionBySlug bs kind | _ \<Rightarrow> None) = Some b" for b
    using that by (auto simp: definitionBySlug_def find_Some_iff split: option.splits svalue.splits)
  show "blocks_row rec o1 bs previous path i row seen st = blocks_row rec' o1 bs previous path i row seen st"
    by (cases "case Lookup row ''blockType'' of Some (SString kind) \<Rightarrow> definitionBySlug bs kind | _ \<Rightarrow> None")
      (simp_all add: blocks_row_def Let_def assms found)
qed

lemma validate_envelope_cong:
  assumes "\<And>o1 hs w st. size_list size hs < size f \<Longrightarrow> rec o1 hs w st = rec' o1 hs w st"
  shows "validate_envelope rec o1 f v path st = validate_envelope rec' o1 f v path st"
proof -
  have "TransformValue f v path (\<lambda>occ (b, (changed, found)).
           case rec ((child_options o1 (roRuntimePath occ) (or_zero (map_of previous (roIdentity occ))))
                    \<lparr>voEmbeddedMetadata := (ecIdentity (roCase occ), ecDiscriminator (roCase occ))\<rparr>)
                  (roFields occ) (roPayload occ) (b, found) of
             ((child, childChanged), (b2, found2)) \<Rightarrow> (Inr (child, childChanged), (b2, (changed \<or> childChanged, found2)))) bs
      = TransformValue f v path (\<lambda>occ (b, (changed, found)).
           case rec' ((child_options o1 (roRuntimePath occ) (or_zero (map_of previous (roIdentity occ))))
                    \<lparr>voEmbeddedMetadata := (ecIdentity (roCase occ), ecDiscriminator (roCase occ))\<rparr>)
                  (roFields occ) (roPayload occ) (b, found) of
             ((child, childChanged), (b2, found2)) \<Rightarrow> (Inr (child, childChanged), (b2, (changed \<or> childChanged, found2)))) bs"
    for previous bs
    by (rule TransformValue_cong [OF refl refl refl refl]) (simp add: assms occurs_in_size split: prod.split)
  then show ?thesis unfolding validate_envelope_def by (simp only:)
qed

lemma validate_value_cong:
  assumes "\<And>o1 hs w st. size_list size hs < size f \<Longrightarrow> rec o1 hs w st = rec' o1 hs w st"
  shows "validate_value R rec o1 f v path st = validate_value R rec' o1 f v path st"
proof -
  have group: "rec o1 fs w s = rec' o1 fs w s" if "fldNested f = Some fs" for fs o1 w s
    by (rule assms) (rule size_nested [OF that])
  have rows: "array_row rec o1 fs previous path = array_row rec' o1 fs previous path" if "fldNested f = Some fs" for fs previous
    by (rule array_row_cong) (rule group [OF that])
  have blocks: "blocks_row rec o1 bs previous path = blocks_row rec' o1 bs previous path" if "fldBlocks f = Some bs" for bs previous
    by (rule blocks_row_cong) (rule assms, rule size_block_definition [OF that], simp add: definitionBySlug_def)
  have "validate_plugin R rec o1 f v path st = validate_plugin R rec' o1 f v path st"
    unfolding validate_plugin_def by (simp only: validate_envelope_cong [OF assms])
  then show ?thesis unfolding validate_value_def Let_def
    by (simp add: group rows blocks split: field_type.split option.split)
qed

lemma validate_present_cong:
  assumes "\<And>o1 hs w st. size_list size hs < size f \<Longrightarrow> rec o1 hs w st = rec' o1 hs w st"
  shows "validate_present R rec o1 f v path = validate_present R rec' o1 f v path"
  unfolding validate_present_def by (simp only: validate_value_cong [OF assms])

lemma validate_member_cong:
  assumes "\<And>o1 hs w st. size_list size hs < size f \<Longrightarrow> rec o1 hs w st = rec' o1 hs w st"
  shows "validate_member R rec o1 f = validate_member R rec' o1 f"
  unfolding validate_member_def by (simp only: validate_present_cong [OF assms])

lemma each_member_cong:
  assumes "\<And>f. f \<in> set fs \<Longrightarrow> validate_member R rec o1 f = validate_member R rec' o1 f"
  shows "each_member R rec o1 fs ob = each_member R rec' o1 fs ob"
  using assms by (induction fs arbitrary: ob) simp_all

lemma validateMembers_cong [fundef_cong]:
  assumes "R = R'" "o1 = o2" "fs = gs" "ob = ob'" "st = st'"
    and "\<And>o3 hs w s. size_list size hs < size_list size gs \<Longrightarrow> rec o3 hs w s = rec' o3 hs w s"
  shows "validateMembers R rec o1 fs ob st = validateMembers R' rec' o2 gs ob' st'"
  unfolding validateMembers_def assms(1-5)
  by (intro each_member_cong validate_member_cong) (metis assms(6) less_trans size_list_mem)

function validateObject ::
  "validation_rules \<Rightarrow> validation_options \<Rightarrow> field list \<Rightarrow> svalue \<Rightarrow> vstate \<Rightarrow> (svalue \<times> bool) \<times> vstate" where
  "validateObject R o1 fs v st =
     (case validateMembers R (validateObject R) o1 fs \<lparr>vobValues = None, vobValue = v, vobEdited = None\<rparr> st of
        (ob, st1) \<Rightarrow> (object_result ob, st1))"
  by pat_completeness auto
termination
  by (relation "measure (\<lambda>(R, o1, fs, v, st). size_list size fs)") auto

declare validateObject.simps [simp del]

definition validateFields ::
  "validation_rules \<Rightarrow> validation_options \<Rightarrow> field list \<Rightarrow> svalues \<Rightarrow> vstate \<Rightarrow> svalues \<times> vstate" where
  "validateFields R o1 fs vals st =
     (case validateMembers R (validateObject R) o1 fs \<lparr>vobValues = Some vals, vobValue = SInvalid, vobEdited = None\<rparr> st of
        (ob, st1) \<Rightarrow> (case vobEdited ob of Some m \<Rightarrow> m | None \<Rightarrow> CloneValues vals, st1))"

definition validateWithOptions ::
  "validation_rules \<Rightarrow> validation_options \<Rightarrow> field list \<Rightarrow> svalues \<Rightarrow> svalues \<times> issue list" where
  "validateWithOptions R o1 fs vals =
     (case validateFields R o1 fs vals (NewBudget, []) of (validated, st) \<Rightarrow> (validated, snd st))"

definition validate_document :: "validation_rules \<Rightarrow> field list \<Rightarrow> svalues \<Rightarrow> bool \<Rightarrow> svalues \<times> issue list" where
  "validate_document R fs vals create = validateWithOptions R (plain_options\<lparr>voRequireMissing := create\<rparr>) fs vals"

section \<open>Publication\<close>

text \<open>
  Every configured locale of the canonical document is validated through the projection cache;
  translations other than the selected one may be absent.
\<close>

fun publication_issues ::
  "validation_rules \<Rightarrow> (svalue \<Rightarrow> svalue \<Rightarrow> bool) \<Rightarrow> field list \<Rightarrow> svalues \<Rightarrow> string \<Rightarrow> string list \<Rightarrow> string list \<Rightarrow>
   issue list \<times> projector \<Rightarrow> issue list \<times> projector" where
  "publication_issues R same fs canonical selected configured [] (found, p) = (found, p)"
| "publication_issues R same fs canonical selected configured (l # ls) (found, p) =
     (case projector_Values same p canonical
            \<lparr>slnLocale = l, slnChain = [l], slnAll = False, slnConfigured = configured, slnPreserveNull = True\<rparr> of
        (vals, p1) \<Rightarrow>
          (case validateWithOptions R (plain_options\<lparr>voRequireMissing := True, voPreviousScope := l \<noteq> selected\<rparr>) fs vals of
             (_, issued) \<Rightarrow>
               let found1 = take MaxValidationIssues (found @ map (\<lambda>i. i\<lparr>isuLocale := l\<rparr>) issued) in
               if length found1 \<ge> MaxValidationIssues then (found1, p1)
               else publication_issues R same fs canonical selected configured ls (found1, p1)))"

definition validatePublicationCandidate ::
  "validation_rules \<Rightarrow> (svalue \<Rightarrow> svalue \<Rightarrow> bool) \<Rightarrow> field list \<Rightarrow> svalues \<Rightarrow> string \<Rightarrow> string list \<Rightarrow> projector \<Rightarrow>
   issue list \<times> projector" where
  "validatePublicationCandidate R same fs canonical selected configured p =
     publication_issues R same fs canonical selected configured (if configured = [] then [[]] else configured) ([], p)"

end
