(* ===== verification/Validation_Properties.thy ===== *)
theory Validation_Properties
  imports Validation_Walk
begin

text \<open>
  Documents that validation passes (\<open>internal/operation/validate.go\<close>) are well typed: a type
  system for values with respect to fields, and its soundness.
\<close>

section \<open>Issues are never taken back\<close>

lemma snd_report [simp]: "fst (report found st) = fst st" "snd (report found st) = add_issues found (snd st)"
  by (simp_all add: report_def)

lemma add_issues_Nil [simp]: "add_issues found collected = [] \<longleftrightarrow> found = [] \<and> collected = []"
  by (auto simp: add_issues_def MaxValidationIssues_def)

lemma not_full_Nil [simp]: "\<not> issues_full []"
  by (simp add: issues_full_def MaxValidationIssues_def)

definition quiet :: "validate_rec \<Rightarrow> nat \<Rightarrow> bool" where
  "quiet rec n \<longleftrightarrow> (\<forall>o1 gs v st. size_list size gs < n \<longrightarrow> snd (snd (rec o1 gs v st)) = [] \<longrightarrow> snd st = [])"

lemma quiet_mono: "quiet rec n \<Longrightarrow> k \<le> n \<Longrightarrow> quiet rec k"
  unfolding quiet_def by (meson order_less_le_trans)

lemma quietD: "quiet rec n \<Longrightarrow> rec o1 gs v st = (r, st') \<Longrightarrow> size_list size gs < n \<Longrightarrow> snd st' = [] \<Longrightarrow> snd st = []"
  unfolding quiet_def by (metis snd_conv)

lemma validate_rows_quiet:
  assumes "\<And>i x seen st r st'. step i x seen st = (r, st') \<Longrightarrow> snd st' = [] \<Longrightarrow> snd st = []"
  shows "validate_rows step i xs seen st = (r, st') \<Longrightarrow> snd st' = [] \<Longrightarrow> snd st = []"
proof (induction xs arbitrary: i seen st r st')
  case (Cons x xs)
  show ?case
  proof (cases "issues_full (snd st)")
    case False
    obtain u seen1 st1 where step: "step i x seen st = ((u, seen1), st1)" by (metis surj_pair)
    obtain r2 st2 where rest: "validate_rows step (i + 1) xs seen1 st1 = (r2, st2)" by (metis surj_pair)
    have "st' = st2" using Cons.prems(1) False step rest by (simp split: prod.splits)
    then show ?thesis using Cons.IH [OF rest] assms [OF step] Cons.prems(2) by simp
  qed (use Cons.prems in simp)
qed simp

lemma finish_row_quiet: "finish_row i row seen path (r, st) = (u, st') \<Longrightarrow> snd st' = [] \<Longrightarrow> snd st = []"
  by (auto simp: finish_row_def split: prod.splits)

lemma array_row_quiet:
  assumes "quiet rec n" "size_list size fs < n" "array_row rec o1 fs previous path i row seen st = (r, st')" "snd st' = []"
  shows "snd st = []"
proof (cases "svalue_Kind row = KindObject")
  case True
  obtain r1 st1 where c: "rec ((child_options o1 (path @ CHR ''.'' # nat_dec i) (or_zero (map_of previous (row_text row ''_key''))))
      \<lparr>voRowMetadata := Some FieldTypeArray\<rparr>) fs row st = (r1, st1)" by (metis surj_pair)
  then have "snd st1 = []" using assms(3,4) True finish_row_quiet [of i row seen _ r1 st1 r st'] by (simp add: array_row_def Let_def)
  then show ?thesis using quietD [OF assms(1) c assms(2)] by simp
qed (use assms(3,4) in \<open>auto simp: array_row_def Let_def\<close>)

lemma blocks_row_quiet:
  assumes "quiet rec n" "\<And>b. b \<in> set bs \<Longrightarrow> size_list size (bltFields b) < n"
    "blocks_row rec o1 bs previous path i row seen st = (r, st')" "snd st' = []"
  shows "snd st = []"
proof (cases "svalue_Kind row = KindObject")
  case True
  show ?thesis
  proof (cases "case Lookup row ''blockType'' of Some (SString kind) \<Rightarrow> definitionBySlug bs kind | _ \<Rightarrow> None")
    case None
    then show ?thesis using assms(3,4) True by (auto simp: blocks_row_def Let_def)
  next
    case (Some b)
    then have b: "b \<in> set bs" by (auto simp: definitionBySlug_def find_Some_iff split: option.splits svalue.splits)
    let ?previous = "or_zero (map_of previous (row_text row ''_key''))"
    obtain r1 st1 where c: "rec ((child_options o1 (path @ CHR ''.'' # nat_dec i)
          (if row_text ?previous ''blockType'' = row_text row ''blockType'' then ?previous else SInvalid))
        \<lparr>voRowMetadata := Some FieldTypeBlocks\<rparr>) (bltFields b) row st = (r1, st1)" by (metis surj_pair)
    then have "snd st1 = []"
      using assms(3,4) True Some finish_row_quiet [of i row seen _ r1 st1 r st'] by (simp add: blocks_row_def Let_def)
    then show ?thesis using quietD [OF assms(1) c assms(2) [OF b]] by simp
  qed
qed (use assms(3,4) in \<open>auto simp: blocks_row_def Let_def\<close>)

lemma validate_list_quiet:
  assumes "\<And>i x seen st r st'. step i x seen st = (r, st') \<Longrightarrow> snd st' = [] \<Longrightarrow> snd st = []"
    "validate_list step defer f limits v path st = (r, st')" "snd st' = []"
  shows "snd st = []"
proof (cases v)
  case (SList t)
  obtain r1 st1 where c: "validate_rows step 0 (elements t) [] (report (row_count_issues defer f limits (int (vlen t)) path) st) = (r1, st1)"
    by (metis surj_pair)
  have "st1 = st'" using assms(2) SList c by (simp add: validate_list_def split: prod.splits)
  then show ?thesis using validate_rows_quiet [OF assms(1) c] assms(3) by simp
qed (use assms(2,3) in \<open>auto simp: validate_list_def\<close>)

lemma primitive_items_quiet: "primitive_items defer f path xs collected = [] \<Longrightarrow> collected = []"
proof (induction xs arbitrary: collected)
  case (Cons x xs)
  then show ?case using Cons.IH [of "add_issues (primitive_item_issues defer f x path) collected"] by (simp split: if_splits)
qed simp

lemma validatePrimitiveList_quiet: "validatePrimitiveList defer f v path collected = [] \<Longrightarrow> collected = []"
  by (auto simp: validatePrimitiveList_def Let_def dest!: primitive_items_quiet split: svalue.splits option.splits)

lemma validate_envelope_quiet:
  assumes "quiet rec (size f)" "validate_envelope rec o1 f v path st = (r, st')" "snd st' = []"
  shows "snd st = []"
proof (rule ccontr)
  assume some: "snd st \<noteq> []"
  obtain previous b1 where p: "validationEmbeddedByIdentity f (prior o1 (fldName f)) path (fst st) = (previous, b1)" by (metis surj_pair)
  let ?c = "\<lambda>occ (b, (changed, found)).
     case rec ((child_options o1 (roRuntimePath occ) (or_zero (map_of previous (roIdentity occ))))
              \<lparr>voEmbeddedMetadata := (ecIdentity (roCase occ), ecDiscriminator (roCase occ))\<rparr>)
            (roFields occ) (roPayload occ) (b, found) of
       ((child, childChanged), (b2, found2)) \<Rightarrow> (Inr (child, childChanged), (b2, (changed \<or> childChanged, found2)))"
  let ?I = "\<lambda>st :: ebudget \<times> bool \<times> issue list. snd (snd st) \<noteq> []"
  have "embedded_consumer ?c (occurs_in f) ?I ?I"
  proof (unfold_locales, goal_cases)
    case (6 occ st r st')
    obtain b changed found where st: "st = (b, (changed, found))" by (metis surj_pair)
    obtain child childChanged b2 found2 where c:
      "rec ((child_options o1 (roRuntimePath occ) (or_zero (map_of previous (roIdentity occ))))
          \<lparr>voEmbeddedMetadata := (ecIdentity (roCase occ), ecDiscriminator (roCase occ))\<rparr>)
        (roFields occ) (roPayload occ) (b, found) = ((child, childChanged), (b2, found2))" by (metis surj_pair)
    then have "found2 \<noteq> []" using quietD [OF assms(1) c occurs_in_size [OF 6(1)]] 6(2) st by auto
    then show ?case using 6(3) st c by auto
  qed simp_all
  then have "?I (snd (TransformValue f v path ?c (b1, (False, snd st))))"
    by (rule embedded_consumer.TransformValue_keeps) (simp_all add: some)
  then show False using assms(2,3) p by (auto simp: validate_envelope_def split: prod.splits sum.splits)
qed

lemma validate_value_quiet:
  assumes "quiet rec (size f)" "validate_value R rec o1 f v path st = (r, st')" "snd st' = []"
  shows "snd st = []"
proof -
  have block: "size_list size (bltFields b) < size f" if "fldBlocks f = Some bs" "b \<in> set bs" for bs b
    using size_blocks [OF that(1)] size_list_mem [OF that(2)] size_block_fields [of b] by linarith
  have plugin: "validate_plugin R rec o1 f v path st = (r, st') \<Longrightarrow> snd st = []"
    using assms(3) validate_envelope_quiet [OF assms(1)]
    by (auto simp: validate_plugin_def Let_def split: if_splits option.splits dest!: validate_envelope_quiet [OF assms(1)])
  have group: "snd st = []" if "fldNested f = Some fs" "rec o2 fs v st = (x, st')" for fs o2 x
    by (rule quietD [OF assms(1) that(2) size_nested [OF that(1)] assms(3)])
  have rows: "snd st = []" if "fldNested f = Some fs"
    "validate_list (array_row rec o1 fs previous path) (voDeferCompleteness o1) f limits v path st = (r, st')" for fs previous limits
    by (rule validate_list_quiet [OF _ that(2) assms(3)]) (rule array_row_quiet [OF assms(1) size_nested [OF that(1)]])
  have blocks: "snd st = []" if "fldBlocks f = Some bs"
    "validate_list (blocks_row rec o1 bs previous path) (voDeferCompleteness o1) f limits v path st = (r, st')" for bs previous limits
    by (rule validate_list_quiet [OF _ that(2) assms(3)]) (rule blocks_row_quiet [OF assms(1) block [OF that(1)]])
  show ?thesis
    using assms(2,3)
    by (cases "fldType f")
      (auto simp: validate_value_def Let_def dest: plugin group rows blocks validatePrimitiveList_quiet
        split: option.splits if_splits prod.splits)
qed

lemma validate_present_quiet:
  "quiet rec (size f) \<Longrightarrow> validate_present R rec o1 f v path (ob, st) = (ob', st') \<Longrightarrow> snd st' = [] \<Longrightarrow> snd st = []"
  by (auto simp: validate_present_def dest: validate_value_quiet split: if_splits option.splits prod.splits)

lemma validate_member_quiet:
  "quiet rec (size f) \<Longrightarrow> validate_member R rec o1 f (ob, st) = (ob', st') \<Longrightarrow> snd st' = [] \<Longrightarrow> snd st = []"
  by (auto simp: validate_member_def Let_def dest: validate_present_quiet split: if_splits option.splits)

lemma each_member_quiet:
  "quiet rec (size_list size fs) \<Longrightarrow> each_member R rec o1 fs (ob, st) = (ob', st') \<Longrightarrow> snd st' = [] \<Longrightarrow> snd st = []"
proof (induction fs arbitrary: ob st)
  case (Cons f fs)
  obtain ob1 st1 where s: "validate_member R rec o1 f (ob, st) = (ob1, st1)" by (metis surj_pair)
  have q: "quiet rec (size f)" "quiet rec (size_list size fs)" by (rule quiet_mono [OF Cons.prems(1)], simp)+
  show ?case using Cons.IH [OF q(2)] validate_member_quiet [OF q(1) s] Cons.prems(2,3) s by (auto split: if_splits)
qed simp

lemma unknown_members_quiet:
  "snd (unknown_members o1 names entries st) = [] \<Longrightarrow> snd st = [] \<and> (\<forall>name\<in>fst ` set entries. metadata_name o1 name \<or> name \<in> names)"
proof (induction entries arbitrary: st)
  case (Cons e entries)
  obtain name v where e: "e = (name, v)" by (cases e)
  show ?case
  proof (cases "issues_full (snd st)")
    case False
    then show ?thesis
      using Cons.IH [of "if metadata_name o1 name \<or> name \<in> names then st
         else report [issue_at ''unknown_field'' (join (voPrefix o1) name)] st"] Cons.prems
      by (cases "metadata_name o1 name \<or> name \<in> names") (simp_all add: e)
  qed (use Cons.prems e in auto)
qed simp

lemma validateObject_quiet: "quiet (validateObject R) n"
proof (induction n)
  case (Suc n)
  show ?case
    unfolding quiet_def
  proof (intro allI impI)
    fix o1 gs v st assume gs: "size_list size gs < Suc n" "snd (snd (validateObject R o1 gs v st)) = []"
    have q: "quiet (validateObject R) (size_list size gs)" by (rule quiet_mono [OF Suc]) (use gs(1) in simp)
    obtain ob st1 where m: "validateMembers R (validateObject R) o1 gs \<lparr>vobValues = None, vobValue = v, vobEdited = None\<rparr> st = (ob, st1)"
      by (metis surj_pair)
    have "snd st1 = []" using gs(2) m by (simp add: validateObject.simps [of R o1 gs v st])
    then show "snd st = []"
      using each_member_quiet [OF q] m unknown_members_quiet unfolding validateMembers_def by (metis prod.collapse)
  qed
qed (simp add: quiet_def)

section \<open>A type system for values\<close>

text \<open>
  \<open>complete\<close> is whether presence and lower bounds are demanded, which drafts defer; \<open>fresh\<close>
  whether no occurrence is retained, so that translations are demanded as well.
\<close>

definition needs :: "field \<Rightarrow> bool" where
  "needs f \<longleftrightarrow> fldRequired f \<or> (\<exists>l. fdList (fldDetails f) = Some l \<and> plfMinRows l > 0)
     \<or> fldType f = FieldTypeArray \<and> fldNested f \<noteq> None \<and> rlMinRows (fdNestedRows (fldDetails f)) > 0"

definition within :: "bool \<Rightarrow> int option \<Rightarrow> int option \<Rightarrow> nat \<Rightarrow> bool" where
  "within complete lower upper n \<longleftrightarrow>
     (complete \<longrightarrow> (\<forall>l. lower = Some l \<longrightarrow> l \<le> int n)) \<and> (\<forall>u. upper = Some u \<longrightarrow> int n \<le> u)"

definition number_typed :: "field \<Rightarrow> float64 \<Rightarrow> bool" where
  "number_typed f x \<longleftrightarrow> \<not> IsNaN x \<and> \<not> IsInf x
     \<and> (\<forall>n. fdNumber (fldDetails f) = Some n \<longrightarrow>
          (\<forall>l. nufMin n = Some l \<longrightarrow> \<not> float_lt x l) \<and> (\<forall>u. nufMax n = Some u \<longrightarrow> \<not> float_lt u x))"

definition date_typed :: "validation_rules \<Rightarrow> field \<Rightarrow> string \<Rightarrow> bool" where
  "date_typed R f s \<longleftrightarrow>
     (case (case fdDate (fldDetails f) of Some d \<Rightarrow> d | None \<Rightarrow> DateOnly) of
        DateOnly \<Rightarrow> vrParse R ''2006-01-02'' s \<noteq> None
      | DateAndTime \<Rightarrow> (\<exists>u t. vrParse R ''2006-01-02T15:04:05Z07:00'' u = Some t \<and> s = vrFormat R t)
      | TimeOnly \<Rightarrow> vrParse R ''15:04'' s \<noteq> None \<or> vrParse R ''15:04:05'' s \<noteq> None
      | DateFormatUnknown \<Rightarrow> False)"

definition list_bounds :: "bool \<Rightarrow> field \<Rightarrow> nat \<Rightarrow> bool" where
  "list_bounds complete f n \<longleftrightarrow> (complete \<and> fldRequired f \<longrightarrow> n \<noteq> 0)
     \<and> (\<forall>l. fdList (fldDetails f) = Some l \<longrightarrow> (complete \<longrightarrow> plfMinRows l \<le> int n) \<and> (plfMaxRows l > 0 \<longrightarrow> int n \<le> plfMaxRows l))"

definition row_bounds :: "bool \<Rightarrow> field \<Rightarrow> row_limits \<Rightarrow> nat \<Rightarrow> bool" where
  "row_bounds complete f limits n \<longleftrightarrow> (complete \<and> fldRequired f \<longrightarrow> n \<noteq> 0)
     \<and> (complete \<longrightarrow> rlMinRows limits \<le> int n) \<and> (rlMaxRows limits > 0 \<longrightarrow> int n \<le> rlMaxRows limits)"

definition id_typed :: "svalue \<Rightarrow> bool" where
  "id_typed v \<longleftrightarrow> (\<exists>s. v = SString s \<and> s \<noteq> [])"

definition target_typed :: "relationship_field \<Rightarrow> svalue \<Rightarrow> bool" where
  "target_typed r v \<longleftrightarrow> (\<exists>slug i. svalue_Kind v = KindObject \<and> Get v ''relationTo'' = SString slug \<and> Get v ''id'' = SString i
     \<and> i \<noteq> [] \<and> relationshipTargetExists (relTargets r) slug)"

definition reference_typed :: "bool \<Rightarrow> field \<Rightarrow> bool \<Rightarrow> bool \<Rightarrow> (svalue \<Rightarrow> bool) \<Rightarrow> svalue \<Rightarrow> bool" where
  "reference_typed complete f many emptiable ok v \<longleftrightarrow>
     (if many then \<exists>t. v = SList t \<and> length (elements t) \<le> MaxDocumentReferences
           \<and> (complete \<and> fldRequired f \<longrightarrow> elements t \<noteq> []) \<and> (\<forall>x\<in>set (elements t). ok x)
      else ok v \<or> emptiable \<and> v = SString [] \<and> \<not> (complete \<and> fldRequired f))"

definition point_typed :: "svalue list \<Rightarrow> bool" where
  "point_typed xs \<longleftrightarrow> (\<exists>longitude latitude. xs = [SNumber longitude, SNumber latitude]
     \<and> \<not> IsNaN longitude \<and> \<not> IsInf longitude \<and> \<not> IsNaN latitude \<and> \<not> IsInf latitude
     \<and> \<not> float_lt longitude (float64_of_int (-180)) \<and> \<not> float_lt (float64_of_int 180) longitude
     \<and> \<not> float_lt latitude (float64_of_int (-90)) \<and> \<not> float_lt (float64_of_int 90) latitude)"

text \<open>The keys of rows are texts that are not blank, and no two rows share one.\<close>

definition row_keys :: "svalue list \<Rightarrow> svalue list" where
  "row_keys rows = concat (map (\<lambda>row. case Lookup row ''_key'' of Some k \<Rightarrow> [k] | None \<Rightarrow> []) rows)"

definition keys_typed :: "svalue list \<Rightarrow> bool" where
  "keys_typed rows \<longleftrightarrow> distinct (row_keys rows) \<and> (\<forall>k\<in>set (row_keys rows). \<exists>s. k = SString s \<and> trim_space s \<noteq> [])"

inductive typed :: "validation_rules \<Rightarrow> bool \<Rightarrow> bool \<Rightarrow> field \<Rightarrow> svalue \<Rightarrow> bool"
  and conforms :: "validation_rules \<Rightarrow> bool \<Rightarrow> bool \<Rightarrow> bool \<Rightarrow> string set \<Rightarrow> field list \<Rightarrow> svalues \<Rightarrow> bool"
  for R :: validation_rules and complete fresh :: bool where
  typed_text: "fldType f \<in> {FieldTypeText, FieldTypeTextarea, FieldTypeCode} \<Longrightarrow> (complete \<and> fldRequired f \<longrightarrow> s \<noteq> []) \<Longrightarrow>
    within complete (fst (stringLengthConstraints f)) (snd (stringLengthConstraints f)) (RuneCount s) \<Longrightarrow>
    typed R complete fresh f (SString s)"
| typed_email: "fldType f = FieldTypeEmail \<Longrightarrow> s = [] \<and> \<not> (complete \<and> fldRequired f) \<or> vrAddress R s = Some s \<Longrightarrow>
    typed R complete fresh f (SString s)"
| typed_date: "fldType f = FieldTypeDate \<Longrightarrow> s = [] \<and> \<not> (complete \<and> fldRequired f) \<or> date_typed R f s \<Longrightarrow>
    typed R complete fresh f (SString s)"
| typed_number: "fldType f = FieldTypeNumber \<Longrightarrow> number_typed f x \<Longrightarrow> typed R complete fresh f (SNumber x)"
| typed_checkbox: "fldType f = FieldTypeCheckbox \<Longrightarrow> typed R complete fresh f (SBoolean b)"
| typed_json: "fldType f = FieldTypeJSON \<Longrightarrow> svalue_Kind v \<noteq> KindDocument \<Longrightarrow> typed R complete fresh f v"
| typed_option: "fldType f \<in> {FieldTypeSelect, FieldTypeRadio} \<Longrightarrow>
    s = [] \<and> \<not> (complete \<and> fldRequired f) \<or> s \<in> set (select_options f) \<Longrightarrow> typed R complete fresh f (SString s)"
| typed_options: "fldType f = FieldTypeSelect \<Longrightarrow> fldSelect f = Some sel \<Longrightarrow> selHasMany sel \<Longrightarrow> elements t = map SString ss \<Longrightarrow>
    distinct ss \<Longrightarrow> set ss \<subseteq> set (selOptions sel) \<Longrightarrow> (complete \<and> fldRequired f \<longrightarrow> ss \<noteq> []) \<Longrightarrow> typed R complete fresh f (SList t)"
| typed_point: "fldType f = FieldTypePoint \<Longrightarrow> point_typed (elements t) \<Longrightarrow> typed R complete fresh f (SList t)"
| typed_texts: "fldType f = FieldTypeTextList \<Longrightarrow> elements t = map SString ss \<Longrightarrow> list_bounds complete f (length ss) \<Longrightarrow>
    (\<forall>s\<in>set ss. \<forall>d. fdText (fldDetails f) = Some d \<longrightarrow> within complete (txfMinLength d) (txfMaxLength d) (RuneCount s)) \<Longrightarrow>
    typed R complete fresh f (SList t)"
| typed_numbers: "fldType f = FieldTypeNumberList \<Longrightarrow> elements t = map SNumber xs \<Longrightarrow> list_bounds complete f (length xs) \<Longrightarrow>
    (\<forall>x\<in>set xs. number_typed f x) \<Longrightarrow> typed R complete fresh f (SList t)"
| typed_relationship: "fldType f = FieldTypeRelationship \<Longrightarrow> fldRelationship f = Some r \<Longrightarrow>
    reference_typed complete f (relHasMany r) (\<not> relPolymorphic r) (if relPolymorphic r then target_typed r else id_typed) v \<Longrightarrow>
    typed R complete fresh f v"
| typed_upload: "fldType f = FieldTypeUpload \<Longrightarrow> fldUpload f = Some u \<Longrightarrow>
    reference_typed complete f (uplHasMany u) True id_typed v \<Longrightarrow> typed R complete fresh f v"
| typed_group: "fldType f = FieldTypeGroup \<Longrightarrow> fldNested f = Some fs \<Longrightarrow> conforms R complete fresh True {} fs m \<Longrightarrow>
    typed R complete fresh f (SObject m)"
| typed_rows: "fldType f = FieldTypeArray \<Longrightarrow> fldNested f = Some fs \<Longrightarrow>
    row_bounds complete f (fdNestedRows (fldDetails f)) (length (elements t)) \<Longrightarrow> keys_typed (elements t) \<Longrightarrow>
    (\<forall>row\<in>set (elements t). \<exists>m. row = SObject m \<and> conforms R complete fresh True {''_key''} fs m) \<Longrightarrow>
    typed R complete fresh f (SList t)"
| typed_blocks: "fldType f = FieldTypeBlocks \<Longrightarrow> fldBlocks f = Some bs \<Longrightarrow>
    row_bounds complete f (fdBlocksRows (fldDetails f)) (length (elements t)) \<Longrightarrow> keys_typed (elements t) \<Longrightarrow>
    (\<forall>row\<in>set (elements t). \<exists>m kind b. row = SObject m \<and> map_of m ''blockType'' = Some (SString kind)
       \<and> definitionBySlug bs kind = Some b \<and> conforms R complete fresh True {''_key'', ''blockType''} (bltFields b) m) \<Longrightarrow>
    typed R complete fresh f (SList t)"
| typed_plugin: "fldType f = FieldTypePlugin \<Longrightarrow> fldPlugin f = Some p \<Longrightarrow> vrPlugin R (plgKey p) \<noteq> None \<Longrightarrow> typed R complete fresh f v"
| typed_unstored: "fldType f \<in> {FieldTypeUI, FieldTypeJoin, FieldTypeVirtual} \<Longrightarrow> typed R complete fresh f v"
| conforms: "fst ` set m \<subseteq> names \<union> stored_names fs \<Longrightarrow>
    (\<forall>f\<in>set fs. fldCategory f \<noteq> FieldCategoryPresentation \<longrightarrow>
       map_of m (fldName f) = None \<and> (complete \<and> present \<and> needs f \<longrightarrow> fldLocalized f \<and> \<not> fresh)
       \<or> map_of m (fldName f) = Some SNull \<and> \<not> (complete \<and> needs f)
       \<or> (\<exists>v. map_of m (fldName f) = Some v \<and> typed R complete fresh f v)) \<Longrightarrow>
    conforms R complete fresh present names fs m"

section \<open>Scalars without issues\<close>

lemma lacking_Nil: "lacking_issues f path = [] \<longleftrightarrow> \<not> needs f"
  by (auto simp: lacking_issues_def needs_def split: option.splits)

lemma length_Nil: "length_issues defer lower upper (int n) path = [] \<longleftrightarrow> within (\<not> defer) lower upper n"
  by (auto simp: length_issues_def within_def split: option.splits)

lemma text_typed: "text_issues defer f v path = [] \<Longrightarrow> fldType f \<in> {FieldTypeText, FieldTypeTextarea, FieldTypeCode} \<Longrightarrow>
    typed R (\<not> defer) fresh f v"
  by (cases v) (auto simp: text_issues_def length_Nil intro!: typed_text split: if_splits prod.splits)

lemma email_typed: "email_issues R defer f v path = [] \<Longrightarrow> fldType f = FieldTypeEmail \<Longrightarrow> typed R (\<not> defer) fresh f v"
  by (cases v) (auto simp: email_issues_def intro!: typed_email split: if_splits)

lemma canonical_typed: "canonicalDateValue R f s = Some c \<Longrightarrow> date_typed R f c"
  by (cases "case fdDate (fldDetails f) of Some d \<Rightarrow> d | None \<Rightarrow> DateOnly")
    (auto simp: canonicalDateValue_def date_typed_def split: if_splits)

lemma date_check_typed:
  assumes "date_check R defer f v path = ([], u)" "fldType f = FieldTypeDate"
  shows "typed R (\<not> defer) fresh f (case u of Some w \<Rightarrow> w | None \<Rightarrow> v)"
proof (cases v)
  case (SString s)
  show ?thesis
  proof (cases "s = []")
    case True
    then show ?thesis using assms SString by (auto simp: date_check_def intro!: typed_date split: if_splits)
  next
    case False
    then obtain c where c: "canonicalDateValue R f s = Some c" using assms SString by (auto simp: date_check_def split: option.splits)
    have "(case u of Some w \<Rightarrow> w | None \<Rightarrow> v) = SString c" using assms SString False c by (auto simp: date_check_def split: if_splits)
    then show ?thesis using typed_date [OF assms(2)] canonical_typed [OF c] by simp
  qed
qed (use assms in \<open>auto simp: date_check_def\<close>)

lemma number_Nil: "number_issues f v path = [] \<longleftrightarrow> (\<exists>x. v = SNumber x \<and> number_typed f x)"
  by (cases v) (auto simp: number_issues_def bound_issues_def number_typed_def split: option.splits)

lemma point_Nil:
  assumes "point_issues v path = []" "wf_value v" "fldType f = FieldTypePoint"
  shows "typed R complete fresh f v"
proof (cases v)
  case (SList t)
  have n: "vlen t = length (elements t)" using assms(2) SList value_tree.size_build [of "elements t"] by simp
  then obtain x y where e: "elements t = [x, y]" using assms(1) SList
    by (auto simp: point_issues_def length_Suc_conv numeral_2_eq_2 split: if_splits)
  have at: "ListItem v 0 = Some x" "ListItem v 1 = Some y"
    using ListItem_spec [of "elements t" 0] ListItem_spec [of "elements t" 1] SList wf_SList [of t] assms(2) e by simp_all
  have "point_typed [x, y]"
    using assms(1) SList n e at by (cases x; cases y) (auto simp: point_issues_def point_typed_def split: if_splits)
  then show ?thesis using typed_point [OF assms(3)] SList e by simp
qed (use assms(1) in \<open>auto simp: point_issues_def\<close>)

lemma option_Nil:
  "option_issues options path i seen xs = [] \<Longrightarrow>
   \<exists>ss. xs = map SString ss \<and> distinct ss \<and> set ss \<subseteq> set options \<and> set ss \<inter> seen = {}"
proof (induction xs arbitrary: i seen)
  case (Cons x xs)
  obtain s where s: "x = SString s" "s \<notin> seen" "s \<in> set options" "option_issues options path (i + 1) (insert s seen) xs = []"
    using Cons.prems by (cases x) (auto simp: Let_def split: if_splits)
  obtain ss where "xs = map SString ss" "distinct ss" "set ss \<subseteq> set options" "set ss \<inter> insert s seen = {}"
    using Cons.IH [OF s(4)] by blast
  then show ?case using s by (intro exI [of _ "s # ss"]) auto
qed simp

lemma wf_length: "wf_value (SList t) \<Longrightarrow> vlen t = length (elements t)"
  using value_tree.size_build [of "elements t"] by simp

lemma select_typed:
  assumes "select_issues defer f v path = []" "wf_value v" "fldType f \<in> {FieldTypeSelect, FieldTypeRadio}"
  shows "typed R (\<not> defer) fresh f v"
proof (cases "fldType f = FieldTypeSelect \<and> (case fldSelect f of Some s \<Rightarrow> selHasMany s | None \<Rightarrow> False)")
  case True
  then obtain sel where sel: "fldType f = FieldTypeSelect" "fldSelect f = Some sel" "selHasMany sel" by (auto split: option.splits)
  then obtain t where t: "v = SList t" "option_issues (selOptions sel) path 0 {} (elements t) = []"
    "\<not> (fldRequired f \<and> vlen t = 0 \<and> \<not> defer)"
    using assms(1) by (cases v) (auto simp: select_issues_def select_options_def split: if_splits)
  obtain ss where ss: "elements t = map SString ss" "distinct ss" "set ss \<subseteq> set (selOptions sel)" using option_Nil [OF t(2)] by blast
  show ?thesis unfolding t(1)
    by (rule typed_options [OF sel ss]) (use t(3) wf_length [of t] assms(2) t(1) ss(1) in auto)
next
  case False
  then obtain s where "v = SString s" "s = [] \<and> \<not> (fldRequired f \<and> \<not> defer) \<or> s \<in> set (select_options f)"
    using assms(1) by (cases v) (auto simp: select_issues_def split: if_splits)
  then show ?thesis using typed_option [OF assms(3), of s "\<not> defer"] by auto
qed

lemma primitive_items_Nil:
  "primitive_items defer f path xs collected = [] \<Longrightarrow> collected = [] \<and> (\<forall>x\<in>set xs. primitive_item_issues defer f x path = [])"
proof (induction xs arbitrary: collected)
  case (Cons x xs)
  show ?case
  proof (cases "issues_full collected")
    case False
    then show ?thesis
      using Cons.IH [of "add_issues (primitive_item_issues defer f x path) collected"] Cons.prems by simp
  qed (use Cons.prems in auto)
qed simp

lemma map_exists: "(\<And>x. x \<in> set xs \<Longrightarrow> \<exists>y. x = c y \<and> P y) \<Longrightarrow> \<exists>ys. xs = map c ys \<and> (\<forall>y\<in>set ys. P y)"
proof (induction xs)
  case (Cons x xs)
  obtain y where "x = c y" "P y" using Cons.prems [of x] by auto
  moreover obtain ys where "xs = map c ys" "\<forall>y\<in>set ys. P y" using Cons.IH Cons.prems by auto
  ultimately show ?case by (intro exI [of _ "y # ys"]) simp
qed simp

lemma primitive_typed:
  assumes "validatePrimitiveList defer f v path collected = []" "wf_value v" "fldType f \<in> {FieldTypeTextList, FieldTypeNumberList}"
  shows "typed R (\<not> defer) fresh f v"
proof (cases v)
  case (SList t)
  have n: "vlen t = length (elements t)" using wf_length assms(2) SList by simp
  have quiet: "\<forall>x\<in>set (elements t). primitive_item_issues defer f x path = []" and bounds: "list_bounds (\<not> defer) f (vlen t)"
    using assms(1) SList
    by (auto simp: validatePrimitiveList_def Let_def list_bounds_def dest!: primitive_items_Nil split: option.splits if_splits)
  show ?thesis
  proof (cases "fldType f = FieldTypeTextList")
    case True
    have "\<exists>s. x = SString s \<and> (\<forall>d. fdText (fldDetails f) = Some d \<longrightarrow> within (\<not> defer) (txfMinLength d) (txfMaxLength d) (RuneCount s))"
      if "x \<in> set (elements t)" for x
      using bspec [OF quiet that] True by (cases x) (auto simp: primitive_item_issues_def length_Nil split: option.splits)
    from map_exists [OF this] obtain ss where ss: "elements t = map SString ss"
      "\<forall>s\<in>set ss. \<forall>d. fdText (fldDetails f) = Some d \<longrightarrow> within (\<not> defer) (txfMinLength d) (txfMaxLength d) (RuneCount s)" by blast
    show ?thesis unfolding SList by (rule typed_texts [OF True ss(1) _ ss(2)]) (use bounds n ss(1) in simp)
  next
    case False
    then have numbers: "fldType f = FieldTypeNumberList" using assms(3) by simp
    have "\<exists>y. x = SNumber y \<and> number_typed f y" if "x \<in> set (elements t)" for x
      using bspec [OF quiet that] False by (simp add: primitive_item_issues_def number_Nil)
    from map_exists [OF this] obtain xs where xs: "elements t = map SNumber xs" "\<forall>x\<in>set xs. number_typed f x" by blast
    show ?thesis unfolding SList by (rule typed_numbers [OF numbers xs(1) _ xs(2)]) (use bounds n xs(1) in simp)
  qed
qed (use assms(1) in \<open>auto simp: validatePrimitiveList_def\<close>)

lemma reference_items_Nil: "reference_items check i xs found = [] \<Longrightarrow> found = [] \<and> (\<forall>x\<in>set xs. \<exists>j. check j x = [])"
proof (induction xs arbitrary: i found)
  case (Cons x xs)
  have "\<not> length found \<ge> MaxValidationIssues \<or> found \<noteq> []" by (auto simp: MaxValidationIssues_def)
  then show ?case using Cons.IH [of "i + 1" "found @ check i x"] Cons.prems by (auto split: if_splits)
qed simp

lemma reference_list_Nil:
  assumes "(case reference_list_issues many defer f v path of Some found \<Rightarrow> found
      | None \<Rightarrow> reference_items check 0 (referenceElements v many) []) = []" "wf_value v"
    and "\<And>i x. check i x = [] \<Longrightarrow> ok x \<or> emptiable \<and> \<not> many \<and> x = SString [] \<and> \<not> (\<not> defer \<and> fldRequired f)"
  shows "reference_typed (\<not> defer) f many emptiable ok v"
proof (cases many)
  case True
  then obtain t where t: "v = SList t" using assms(1) by (cases v) (auto simp: reference_list_issues_def)
  have n: "vlen t = length (elements t)" using wf_length assms(2) t by simp
  have "reference_list_issues many defer f v path = None"
    using assms(1) True t by (auto simp: reference_list_issues_def split: if_splits)
  then have bounds: "length (elements t) \<le> MaxDocumentReferences" "\<not> defer \<and> fldRequired f \<longrightarrow> elements t \<noteq> []"
    and "reference_items check 0 (elements t) [] = []"
    using assms(1) True t n by (auto simp: reference_list_issues_def referenceElements_def split: if_splits)
  then have "\<forall>x\<in>set (elements t). ok x" using reference_items_Nil assms(3) True by blast
  then show ?thesis using True t bounds by (simp add: reference_typed_def)
next
  case False
  then have "reference_items check 0 [v] [] = []" using assms(1) by (simp add: reference_list_issues_def referenceElements_def)
  then have "\<exists>j. check j v = []" using reference_items_Nil [of check 0 "[v]" "[]"] by simp
  then show ?thesis using assms(3) False by (auto simp: reference_typed_def)
qed

lemma id_Nil: "id_issues code many defer f path i x = [] \<Longrightarrow>
    id_typed x \<or> True \<and> \<not> many \<and> x = SString [] \<and> \<not> (\<not> defer \<and> fldRequired f)"
  by (cases x) (auto simp: id_issues_def id_typed_def split: if_splits)

lemma polymorphic_Nil: "polymorphic_issues r path i x = [] \<Longrightarrow> target_typed r x"
  by (auto simp: polymorphic_issues_def target_typed_def Let_def split: if_splits svalue.splits)

lemma upload_typed: "validateUpload defer f v path = [] \<Longrightarrow> wf_value v \<Longrightarrow> fldType f = FieldTypeUpload \<Longrightarrow> typed R (\<not> defer) fresh f v"
  by (cases "fldUpload f")
    (auto simp: validateUpload_def intro!: typed_upload reference_list_Nil [OF _ _ id_Nil])

lemma relationship_typed:
  assumes "validateRelationship defer f v path = []" "wf_value v" "fldType f = FieldTypeRelationship"
  shows "typed R (\<not> defer) fresh f v"
proof (cases "fldRelationship f")
  case (Some r)
  let ?check = "if relPolymorphic r then polymorphic_issues r path else id_issues ''invalid_relationship'' (relHasMany r) defer f path"
  have "reference_typed (\<not> defer) f (relHasMany r) (\<not> relPolymorphic r) (if relPolymorphic r then target_typed r else id_typed) v"
  proof (rule reference_list_Nil [OF _ assms(2)])
    show "(case reference_list_issues (relHasMany r) defer f v path of Some found \<Rightarrow> found
      | None \<Rightarrow> reference_items ?check 0 (referenceElements v (relHasMany r)) []) = []"
      using assms(1) Some by (simp add: validateRelationship_def)
    show "(if relPolymorphic r then target_typed r else id_typed) x
        \<or> \<not> relPolymorphic r \<and> \<not> relHasMany r \<and> x = SString [] \<and> \<not> (\<not> defer \<and> fldRequired f)" if "?check i x = []" for i x
      using that polymorphic_Nil [of r path i x] id_Nil [of _ "relHasMany r" "defer" f path i x] by (auto split: if_splits)
  qed
  then show ?thesis by (rule typed_relationship [OF assms(3) Some])
qed (use assms(1) in \<open>simp add: validateRelationship_def\<close>)

end
