(* ===== verification/Validation_Soundness.thy ===== *)
theory Validation_Soundness
  imports Validation_Properties
begin

text \<open>
  Values that validation passes are well typed: the recursion of \<open>internal/operation/validate.go\<close>.
\<close>

section \<open>Values from defaults\<close>

lemma decode_wf:
  "decode_value n jr depth s = Inr (v, s') \<Longrightarrow> wf_value v"
  "decode_members n jr depth m s = Inr (m', s') \<Longrightarrow> wf_values m \<Longrightarrow> wf_values m'"
  "decode_items n jr depth xs s = Inr (v, s') \<Longrightarrow> (\<forall>x\<in>set xs. wf_value x) \<Longrightarrow> wf_value v"
proof (induction n jr depth s and n jr depth m s and n jr depth xs s arbitrary: v s' and m' s' and v s'
    rule: decode_value_decode_members_decode_items.induct)
  case (2 n jr depth s)
  then show ?case
    by (subst (asm) decode_value.simps)
      (auto simp: Let_def wf_value_object wf_values_def newValueList_def elements_def split: list.splits if_splits sum.splits)
next
  case (4 n jr depth m s)
  then show ?case
    by (subst (asm) decode_members.simps) (auto simp: Let_def split: list.splits if_splits sum.splits)
next
  case (6 n jr depth xs s)
  then show ?case
    by (subst (asm) decode_items.simps)
      (auto simp: value_tree.list_build split: list.splits if_splits sum.splits)
qed simp_all

lemma UnmarshalJSON_wf: "value_UnmarshalJSON jr s = Inr v \<Longrightarrow> wf_value v"
  by (auto simp: value_UnmarshalJSON_def decode_wf split: sum.splits option.splits)

lemma default_wf: "missingDefaultValue R f = Some v \<Longrightarrow> wf_value v"
proof (induction R f arbitrary: v rule: missingDefaultValue.induct)
  case (1 R f)
  have scalar: "wf_value (defaultValue R f s)" for s
    by (auto simp: defaultValue_def UnmarshalJSON_wf split: field_type.split sum.split)
  let ?fold = "\<lambda>fs m. fold (\<lambda>c m. if fldCategory c = FieldCategoryPresentation then m
                                else case missingDefaultValue R c of Some v \<Rightarrow> put (fldName c) v m | None \<Rightarrow> m) fs m"
  have members: "wf_values (?fold fs m)"
    if "\<And>c v. c \<in> set fs \<Longrightarrow> fldCategory c \<noteq> FieldCategoryPresentation \<Longrightarrow> missingDefaultValue R c = Some v \<Longrightarrow> wf_value v"
      "wf_values m" for fs m
    using that by (induction fs arbitrary: m) (auto split: option.split)
  show ?case
  proof (cases "fdDefault (fldDetails f)")
    case (Some s)
    then show ?thesis using 1(2) scalar by (subst (asm) missingDefaultValue.simps) auto
  next
    case None
    show ?thesis
    proof (cases "case fldSelect f of Some s \<Rightarrow> if selHasMany s then selDefaultValues s else [] | None \<Rightarrow> []")
      case (Cons option options)
      then show ?thesis using 1(2) None by (subst (asm) missingDefaultValue.simps) auto
    next
      case Nil
      then obtain fs where fs: "fldType f = FieldTypeGroup" "fldNested f = Some fs" and v: "v = ObjectOf (?fold fs [])"
        using 1(2) None by (subst (asm) missingDefaultValue.simps) (auto simp: Let_def split: option.splits if_splits)
      have "wf_values (?fold fs [])"
        by (rule members) (use 1(1) [OF None Nil] fs in \<open>auto simp: wf_values_def\<close>)
      then show ?thesis using v by (simp add: wf_ObjectOf)
    qed
  qed
qed

section \<open>Objects\<close>

definition object_view :: "validation_object \<Rightarrow> string \<Rightarrow> svalue option" where
  "object_view ob = (case vobEdited ob of Some m \<Rightarrow> map_of m | None \<Rightarrow> object_lookup ob)"

definition object_ok :: "validation_object \<Rightarrow> bool" where
  "object_ok ob \<longleftrightarrow> (case vobValues ob of Some m \<Rightarrow> wf_values m | None \<Rightarrow> \<exists>m. vobValue ob = SObject m \<and> wf_values m)
     \<and> (\<forall>m. vobEdited ob = Some m \<longrightarrow> wf_map m)"

lemma edit_view: "object_ok ob \<Longrightarrow> map_of (object_edit ob) = object_view ob \<and> wf_map (object_edit ob)"
  by (auto simp: object_ok_def object_edit_def object_view_def object_copy_def object_lookup_def wf_values_map
      split: option.splits)

lemma object_set_says:
  assumes "object_ok ob"
  shows "object_ok (object_set name v ob)" "object_view (object_set name v ob) = (object_view ob)(name \<mapsto> v)"
    "object_lookup (object_set name v ob) = object_lookup ob"
  using assms edit_view [OF assms]
  by (auto simp: object_ok_def object_set_def object_view_def object_lookup_def split: option.splits)

lemma object_remove_says:
  assumes "object_ok ob" "object_view ob name = object_lookup ob name"
  shows "object_ok (object_remove name ob)" "object_view (object_remove name ob) = (object_view ob)(name := None)"
    "object_lookup (object_remove name ob) = object_lookup ob"
  using assms edit_view [OF assms(1)]
  by (auto simp: object_ok_def object_remove_def object_view_def object_lookup_def split: option.splits)

section \<open>Schemas\<close>

text \<open>
  Names are distinct among the fields of one list, and the fields of rows do not take the
  names of a row's own metadata.
\<close>

definition rows_named :: "field \<Rightarrow> bool" where
  "rows_named f \<longleftrightarrow> (\<forall>gs\<in>set (eachDefinitionChildSource f). distinct (map fldName gs)
     \<and> (fldType f \<in> {FieldTypeArray, FieldTypeBlocks} \<longrightarrow> {''_key'', ''blockType''} \<inter> fldName ` set gs = {}))"

definition well_named :: "field list \<Rightarrow> bool" where
  "well_named fs \<longleftrightarrow> distinct (map fldName fs) \<and> (\<forall>f. below fs f \<longrightarrow> rows_named f)"

lemma well_named_here: "well_named fs \<Longrightarrow> f \<in> set fs \<Longrightarrow> rows_named f"
  by (simp add: well_named_def below_here)

lemma well_named_child:
  assumes "well_named fs" "f \<in> set fs" "gs \<in> set (eachDefinitionChildSource f)"
  shows "well_named gs"
proof -
  have "distinct (map fldName gs)" using well_named_here [OF assms(1,2)] assms(3) unfolding rows_named_def by blast
  moreover have "rows_named g" if "below gs g" for g
    using assms below_child [OF assms(2,3) that] unfolding well_named_def by blast
  ultimately show ?thesis by (simp add: well_named_def)
qed

lemma nested_fields_source: "fldNested f = Some fs \<Longrightarrow> fs \<in> set (eachDefinitionChildSource f)"
  by (simp add: eachDefinitionChildSource_def)

lemma definition_source: "fldBlocks f = Some bs \<Longrightarrow> b \<in> set bs \<Longrightarrow> bltFields b \<in> set (eachDefinitionChildSource f)"
  by (simp add: eachDefinitionChildSource_def)

section \<open>Options of children\<close>

lemma child_options_simps [simp]:
  "voDeferCompleteness (child_options o1 path v) = voDeferCompleteness o1" "voRequireMissing (child_options o1 path v) = True"
  "voRowMetadata (child_options o1 path v) = None" "voEmbeddedMetadata (child_options o1 path v) = ([], [])"
  "voPrevious (child_options o1 path v) = None" "voPreviousValue (child_options o1 path v) = v"
  "voPreviousScope (child_options o1 path v) = voPreviousScope o1"
  by (simp_all add: child_options_def plain_options_def)

lemma not_retained: "\<not> retained o1 \<Longrightarrow> prior o1 name = SInvalid \<and> \<not> voPreviousScope o1"
  by (cases "voPreviousValue o1") (auto simp: retained_def prior_def or_zero_def)

lemma rows_by_key_Invalid [simp]: "validationRowsByKey SInvalid = []"
  by (simp add: validationRowsByKey_def)

lemma or_zero_None [simp]: "or_zero None = SInvalid"
  by (simp add: or_zero_def)

text \<open>A recursive call is sound up to a size of field lists.\<close>

definition sound :: "validation_rules \<Rightarrow> validate_rec \<Rightarrow> nat \<Rightarrow> bool" where
  "sound R rec n \<longleftrightarrow> (\<forall>o1 gs m st r st' fresh. size_list size gs < n \<longrightarrow> rec o1 gs (SObject m) st = (r, st') \<longrightarrow> snd st' = [] \<longrightarrow>
     wf_values m \<longrightarrow> well_named gs \<longrightarrow> (fresh \<longrightarrow> \<not> retained o1) \<longrightarrow>
     (\<exists>m'. fst r = SObject m' \<and> conforms R (\<not> voDeferCompleteness o1) fresh (voRequireMissing o1) (Collect (metadata_name o1)) gs m'
        \<and> (\<forall>n. n \<notin> fldName ` set gs \<longrightarrow> map_of m' n = map_of m n) \<and> (\<not> snd r \<longrightarrow> m' = m)))"

lemma soundD:
  assumes "sound R rec n" "rec o1 gs (SObject m) st = ((w, changed), st')" "size_list size gs < n" "snd st' = []" "wf_values m"
    "well_named gs" "fresh \<longrightarrow> \<not> retained o1"
  shows "\<exists>m'. w = SObject m'
    \<and> conforms R (\<not> voDeferCompleteness o1) fresh (voRequireMissing o1) (Collect (metadata_name o1)) gs m'
    \<and> (\<forall>n. n \<notin> fldName ` set gs \<longrightarrow> map_of m' n = map_of m n) \<and> (\<not> changed \<longrightarrow> m' = m)"
  using assms(1) [unfolded sound_def, rule_format, OF assms(3,2,4-6)] assms(7) by simp

lemma sound_mono:
  assumes "sound R rec n" "k \<le> n"
  shows "sound R rec k"
  unfolding sound_def
proof (intro allI impI, goal_cases)
  case (1 o1 gs m st r st' fresh)
  have "size_list size gs < n" using 1(1) assms(2) by simp
  from assms(1) [unfolded sound_def, rule_format, OF this 1(2-5)] 1(6) show ?case by simp
qed

section \<open>Rows\<close>

text \<open>A step that raises no issue: what it makes of the row, and the row's key.\<close>

definition row_sound :: "(svalue \<Rightarrow> svalue \<Rightarrow> bool) \<Rightarrow> row_step \<Rightarrow> bool" where
  "row_sound Q step \<longleftrightarrow> (\<forall>i row seen st u seen1 st1. step i row seen st = ((u, seen1), st1) \<longrightarrow> snd st1 = [] \<longrightarrow> wf_value row \<longrightarrow>
     (let row1 = (case u of Some y \<Rightarrow> y | None \<Rightarrow> row) in
        Q row row1 \<and> Lookup row1 ''_key'' = Lookup row ''_key''
        \<and> (case Lookup row ''_key'' of
             None \<Rightarrow> seen1 = seen
           | Some k \<Rightarrow> \<exists>s. k = SString s \<and> trim_space s \<noteq> [] \<and> \<not> mem_key seen s \<and> seen1 = put s i seen)))"

lemma row_soundD:
  assumes "row_sound Q step" "step i row seen st = ((u, seen1), st1)" "snd st1 = []" "wf_value row"
  defines "row1 \<equiv> case u of Some y \<Rightarrow> y | None \<Rightarrow> row"
  shows "Q row row1" "Lookup row1 ''_key'' = Lookup row ''_key''"
    "Lookup row ''_key'' = None \<Longrightarrow> seen1 = seen"
    "Lookup row ''_key'' = Some k \<Longrightarrow> \<exists>s. k = SString s \<and> trim_space s \<noteq> [] \<and> \<not> mem_key seen s \<and> seen1 = put s i seen"
proof -
  have all: "Q row row1 \<and> Lookup row1 ''_key'' = Lookup row ''_key''
    \<and> (case Lookup row ''_key'' of
         None \<Rightarrow> seen1 = seen
       | Some k \<Rightarrow> \<exists>s. k = SString s \<and> trim_space s \<noteq> [] \<and> \<not> mem_key seen s \<and> seen1 = put s i seen)"
    unfolding row1_def by (rule assms(1) [unfolded row_sound_def Let_def, rule_format, OF assms(2-4)])
  then show "Q row row1" "Lookup row1 ''_key'' = Lookup row ''_key''" by blast+
  show "Lookup row ''_key'' = None \<Longrightarrow> seen1 = seen" using all by simp
  show "Lookup row ''_key'' = Some k \<Longrightarrow> \<exists>s. k = SString s \<and> trim_space s \<noteq> [] \<and> \<not> mem_key seen s \<and> seen1 = put s i seen"
    using all by simp
qed

lemma row_keys_Cons: "row_keys (row # rows) = (case Lookup row ''_key'' of Some k \<Rightarrow> [k] | None \<Rightarrow> []) @ row_keys rows"
  by (simp add: row_keys_def)

lemma validate_rows_sound:
  assumes step: "row_sound Q step"
    and quiet: "\<And>i x seen st r st'. step i x seen st = (r, st') \<Longrightarrow> snd st' = [] \<Longrightarrow> snd st = []"
  shows "validate_rows step i xs seen st = ((ys, changed), st') \<Longrightarrow> snd st' = [] \<Longrightarrow> (\<forall>x\<in>set xs. wf_value x) \<Longrightarrow>
    list_all2 Q xs ys \<and> (\<not> changed \<longrightarrow> ys = xs) \<and> keys_typed ys
    \<and> (\<forall>s. SString s \<in> set (row_keys ys) \<longrightarrow> \<not> mem_key seen s)"
proof (induction xs arbitrary: i seen st ys changed st')
  case Nil
  then show ?case by (simp add: keys_typed_def row_keys_def)
next
  case (Cons x xs)
  obtain u seen1 st1 where s: "step i x seen st = ((u, seen1), st1)" by (metis surj_pair)
  obtain rest changed1 st2 where r: "validate_rows step (i + 1) xs seen1 st1 = ((rest, changed1), st2)" by (metis surj_pair)
  have "\<not> issues_full (snd st)"
  proof
    assume "issues_full (snd st)"
    then have "st' = st" using Cons.prems(1) by simp
    then show False using Cons.prems(2) \<open>issues_full (snd st)\<close> by simp
  qed
  then have e: "st' = st2" "changed \<longleftrightarrow> u \<noteq> None \<or> changed1" "ys = (case u of Some y \<Rightarrow> y | None \<Rightarrow> x) # rest"
    using Cons.prems(1) s r by auto
  have st1: "snd st1 = []" using validate_rows_quiet [OF quiet r] Cons.prems(2) e(1) by simp
  note ih = Cons.IH [OF r Cons.prems(2) [unfolded e(1)]]
  have wf: "wf_value x" "\<forall>x\<in>set xs. wf_value x" using Cons.prems(3) by simp_all
  note row = row_soundD [OF step s st1 wf(1)]
  have rest: "list_all2 Q xs rest" "\<not> changed1 \<longrightarrow> rest = xs" "keys_typed rest"
    "\<And>s. SString s \<in> set (row_keys rest) \<Longrightarrow> \<not> mem_key seen1 s" using ih wf(2) by blast+
  have keys: "keys_typed ys \<and> (\<forall>s. SString s \<in> set (row_keys ys) \<longrightarrow> \<not> mem_key seen s)"
  proof (cases "Lookup x ''_key''")
    case None
    then show ?thesis using row(2,3) rest(3,4) e(3) by (simp add: keys_typed_def row_keys_Cons)
  next
    case (Some k)
    then obtain s where k: "k = SString s" "trim_space s \<noteq> []" "\<not> mem_key seen s" "seen1 = put s i seen" using row(4) by blast
    have "row_keys ys = k # row_keys rest" using row(2) Some e(3) by (simp add: row_keys_Cons)
    moreover have "SString s \<notin> set (row_keys rest)" using rest(4) [of s] k(4) by auto
    moreover have "\<not> mem_key seen s'" if "SString s' \<in> set (row_keys rest)" for s'
      using rest(4) [OF that] k(4) by (auto split: if_splits)
    ultimately show ?thesis using rest(3) k by (auto simp: keys_typed_def)
  qed
  show ?case using row(1) rest(1,2) e keys by (auto split: option.splits)
qed

lemma validateRowKey_Nil:
  "validateRowKeyValue x seen path i = ([], seen1) \<Longrightarrow>
   (case x of None \<Rightarrow> seen1 = seen
    | Some k \<Rightarrow> \<exists>s. k = SString s \<and> trim_space s \<noteq> [] \<and> \<not> mem_key seen s \<and> seen1 = put s i seen)"
  by (auto simp: validateRowKeyValue_def split: option.splits svalue.splits if_splits)

lemma finish_row_sound:
  assumes "finish_row i row seen path ((child, changed), st) = ((u, seen1), st1)" "snd st1 = []"
  shows "snd st = []" "u = (if changed then Some child else None)"
    "case Lookup row ''_key'' of None \<Rightarrow> seen1 = seen
     | Some k \<Rightarrow> \<exists>s. k = SString s \<and> trim_space s \<noteq> [] \<and> \<not> mem_key seen s \<and> seen1 = put s i seen"
proof -
  obtain found seen2 where k: "validateRowKeyValue (Lookup row ''_key'') seen path i = (found, seen2)" by fastforce
  then have e: "found = []" "snd st = []" "seen1 = seen2" "u = (if changed then Some child else None)"
    using assms by (auto simp: finish_row_def)
  show "snd st = []" "u = (if changed then Some child else None)" using e by simp_all
  have "validateRowKeyValue (Lookup row ''_key'') seen path i = ([], seen1)" using k e by simp
  then show "case Lookup row ''_key'' of None \<Rightarrow> seen1 = seen
     | Some k \<Rightarrow> \<exists>s. k = SString s \<and> trim_space s \<noteq> [] \<and> \<not> mem_key seen s \<and> seen1 = put s i seen"
    by (rule validateRowKey_Nil)
qed

lemma metadata_array: "Collect (metadata_name ((child_options o1 path v)\<lparr>voRowMetadata := Some FieldTypeArray\<rparr>)) = {''_key''}"
  by (auto simp: metadata_name_def)

lemma metadata_blocks:
  "Collect (metadata_name ((child_options o1 path v)\<lparr>voRowMetadata := Some FieldTypeBlocks\<rparr>)) = {''_key'', ''blockType''}"
  by (auto simp: metadata_name_def)

lemma metadata_group: "Collect (metadata_name (child_options o1 path v)) = {}"
  by (auto simp: metadata_name_def)

lemma row_kept: "m' = m \<or> changed \<Longrightarrow> (case if changed then Some (SObject m') else None of Some y \<Rightarrow> y | None \<Rightarrow> SObject m) = SObject m'"
  by auto

lemma array_row_sound:
  assumes rec: "sound R rec n" "size_list size fs < n" and names: "well_named fs" "''_key'' \<notin> fldName ` set fs"
    and fresh: "fresh \<longrightarrow> \<not> retained o1" "previous = validationRowsByKey (prior o1 name)"
  shows "row_sound (\<lambda>row row1. \<exists>m. row1 = SObject m \<and> conforms R (\<not> voDeferCompleteness o1) fresh True {''_key''} fs m)
    (array_row rec o1 fs previous path)"
  unfolding row_sound_def
proof (intro allI impI)
  fix i row seen st u seen1 st1
  assume a: "array_row rec o1 fs previous path i row seen st = ((u, seen1), st1)" "snd st1 = []" "wf_value row"
  have "svalue_Kind row = KindObject" using a(1,2) by (auto simp: array_row_def Let_def split: if_splits)
  then obtain m where m: "row = SObject m" by (cases row) auto
  have wf: "wf_values m" using a(3) m by (simp add: wf_value_object)
  let ?o = "(child_options o1 (path @ CHR ''.'' # nat_dec i) (or_zero (map_of previous (row_text row ''_key''))))\<lparr>voRowMetadata := Some FieldTypeArray\<rparr>"
  obtain child changed st2 where c: "rec ?o fs (SObject m) st = ((child, changed), st2)" by (metis surj_pair)
  have f: "finish_row i row seen (path @ CHR ''.'' # nat_dec i) ((child, changed), st2) = ((u, seen1), st1)"
    using a(1) m c by (simp add: array_row_def Let_def)
  note done_row = finish_row_sound [OF f a(2)]
  have keep: "fresh \<longrightarrow> \<not> retained ?o" using fresh not_retained [of o1 name] by (auto simp: retained_def)
  obtain m' where m': "child = SObject m'" "conforms R (\<not> voDeferCompleteness ?o) fresh (voRequireMissing ?o) (Collect (metadata_name ?o)) fs m'"
    "\<forall>n. n \<notin> fldName ` set fs \<longrightarrow> map_of m' n = map_of m n" "\<not> changed \<longrightarrow> m' = m"
    using soundD [OF rec(1) c rec(2) done_row(1) wf names(1) keep] by blast
  have row1: "(case u of Some y \<Rightarrow> y | None \<Rightarrow> row) = SObject m'" unfolding done_row(2) m m'(1) by (rule row_kept) (use m'(4) in blast)
  have "conforms R (\<not> voDeferCompleteness o1) fresh True {''_key''} fs m'" using m'(2) unfolding metadata_array by simp
  moreover have "Lookup (SObject m') ''_key'' = Lookup row ''_key''" using m'(3) names(2) m by simp
  ultimately show "let row1 = (case u of Some y \<Rightarrow> y | None \<Rightarrow> row) in
      (\<exists>m. row1 = SObject m \<and> conforms R (\<not> voDeferCompleteness o1) fresh True {''_key''} fs m)
      \<and> Lookup row1 ''_key'' = Lookup row ''_key''
      \<and> (case Lookup row ''_key'' of
           None \<Rightarrow> seen1 = seen
         | Some k \<Rightarrow> \<exists>s. k = SString s \<and> trim_space s \<noteq> [] \<and> \<not> mem_key seen s \<and> seen1 = put s i seen)"
    unfolding Let_def row1 using done_row(3) by simp
qed

lemma blocks_row_sound:
  assumes rec: "sound R rec n" "\<And>b. b \<in> set bs \<Longrightarrow> size_list size (bltFields b) < n"
    and names: "\<And>b. b \<in> set bs \<Longrightarrow> well_named (bltFields b) \<and> {''_key'', ''blockType''} \<inter> fldName ` set (bltFields b) = {}"
    and fresh: "fresh \<longrightarrow> \<not> retained o1" "previous = validationRowsByKey (prior o1 name)"
  shows "row_sound (\<lambda>row row1. \<exists>m kind b. row1 = SObject m \<and> map_of m ''blockType'' = Some (SString kind) \<and> definitionBySlug bs kind = Some b
      \<and> conforms R (\<not> voDeferCompleteness o1) fresh True {''_key'', ''blockType''} (bltFields b) m)
    (blocks_row rec o1 bs previous path)"
  unfolding row_sound_def
proof (intro allI impI)
  fix i row seen st u seen1 st1
  assume a: "blocks_row rec o1 bs previous path i row seen st = ((u, seen1), st1)" "snd st1 = []" "wf_value row"
  have "svalue_Kind row = KindObject" using a(1,2) by (auto simp: blocks_row_def Let_def split: if_splits)
  then obtain m where m: "row = SObject m" by (cases row) auto
  have wf: "wf_values m" using a(3) m by (simp add: wf_value_object)
  have "(case map_of m ''blockType'' of Some (SString kind) \<Rightarrow> definitionBySlug bs kind | _ \<Rightarrow> None) \<noteq> None"
  proof
    assume "(case map_of m ''blockType'' of Some (SString kind) \<Rightarrow> definitionBySlug bs kind | _ \<Rightarrow> None) = None"
    then show False using a(1,2) m by (auto simp: blocks_row_def Let_def)
  qed
  then obtain kind b where kind: "map_of m ''blockType'' = Some (SString kind)" "definitionBySlug bs kind = Some b"
    by (auto split: option.splits svalue.splits)
  have b: "b \<in> set bs" using kind(2) by (auto simp: definitionBySlug_def find_Some_iff)
  let ?previous = "or_zero (map_of previous (row_text (SObject m) ''_key''))"
  let ?o = "(child_options o1 (path @ CHR ''.'' # nat_dec i)
      (if row_text ?previous ''blockType'' = row_text (SObject m) ''blockType'' then ?previous else SInvalid))\<lparr>voRowMetadata := Some FieldTypeBlocks\<rparr>"
  obtain child changed st2 where c: "rec ?o (bltFields b) (SObject m) st = ((child, changed), st2)" by (metis surj_pair)
  have f: "finish_row i row seen (path @ CHR ''.'' # nat_dec i) ((child, changed), st2) = ((u, seen1), st1)"
    using a(1) m kind c by (simp add: blocks_row_def Let_def)
  note done_row = finish_row_sound [OF f a(2)]
  have keep: "fresh \<longrightarrow> \<not> retained ?o" using fresh not_retained [of o1 name] by (auto simp: retained_def)
  obtain m' where m': "child = SObject m'" "conforms R (\<not> voDeferCompleteness ?o) fresh (voRequireMissing ?o) (Collect (metadata_name ?o)) (bltFields b) m'"
    "\<forall>n. n \<notin> fldName ` set (bltFields b) \<longrightarrow> map_of m' n = map_of m n" "\<not> changed \<longrightarrow> m' = m"
    using soundD [OF rec(1) c rec(2) [OF b] done_row(1) wf conjunct1 [OF names [OF b]] keep] by blast
  have row1: "(case u of Some y \<Rightarrow> y | None \<Rightarrow> row) = SObject m'" unfolding done_row(2) m m'(1) by (rule row_kept) (use m'(4) in blast)
  have "conforms R (\<not> voDeferCompleteness o1) fresh True {''_key'', ''blockType''} (bltFields b) m'" using m'(2) unfolding metadata_blocks by simp
  moreover have "Lookup (SObject m') ''_key'' = Lookup row ''_key''" "map_of m' ''blockType'' = Some (SString kind)"
    using m'(3) names [OF b] m kind(1) by auto
  ultimately show "let row1 = (case u of Some y \<Rightarrow> y | None \<Rightarrow> row) in
      (\<exists>m kind b. row1 = SObject m \<and> map_of m ''blockType'' = Some (SString kind) \<and> definitionBySlug bs kind = Some b
        \<and> conforms R (\<not> voDeferCompleteness o1) fresh True {''_key'', ''blockType''} (bltFields b) m)
      \<and> Lookup row1 ''_key'' = Lookup row ''_key''
      \<and> (case Lookup row ''_key'' of
           None \<Rightarrow> seen1 = seen
         | Some k \<Rightarrow> \<exists>s. k = SString s \<and> trim_space s \<noteq> [] \<and> \<not> mem_key seen s \<and> seen1 = put s i seen)"
    unfolding Let_def row1 using done_row(3) kind(2) by simp
qed

section \<open>Members\<close>

lemma row_count_Nil: "row_count_issues defer f limits (int n) path = [] \<Longrightarrow> row_bounds (\<not> defer) f limits n"
  by (auto simp: row_count_issues_def row_bounds_def split: if_splits)

lemma all2_right: "list_all2 (\<lambda>x y. P y) xs ys \<Longrightarrow> \<forall>y\<in>set ys. P y"
  by (induction xs ys rule: list_all2_induct) simp_all

lemma validate_list_sound:
  assumes list: "validate_list step defer f limits v path st = (u, st')" "snd st' = []" "wf_value v"
    and step: "row_sound Q step" and quiet: "\<And>i x seen st r st'. step i x seen st = (r, st') \<Longrightarrow> snd st' = [] \<Longrightarrow> snd st = []"
  obtains t t' where "v = SList t" "(case u of Some w \<Rightarrow> w | None \<Rightarrow> v) = SList t'" "list_all2 Q (elements t) (elements t')"
    "row_bounds (\<not> defer) f limits (length (elements t'))" "keys_typed (elements t')"
proof -
  obtain t where t: "v = SList t" using list(1,2) by (cases v) (auto simp: validate_list_def)
  obtain ys changed st2 where r: "validate_rows step 0 (elements t) [] (report (row_count_issues defer f limits (int (vlen t)) path) st)
      = ((ys, changed), st2)" by (metis surj_pair)
  have e: "st' = st2" "u = (if changed then Some (ListOf ys) else None)" using list(1) t r by (auto simp: validate_list_def)
  have wf: "\<forall>x\<in>set (elements t). wf_value x" "SList t = ListOf (elements t)" "vlen t = length (elements t)"
    using list(3) t wf_SList [of t] wf_length [of t] by simp_all
  have "list_all2 Q (elements t) ys \<and> (\<not> changed \<longrightarrow> ys = elements t) \<and> keys_typed ys
      \<and> (\<forall>s. SString s \<in> set (row_keys ys) \<longrightarrow> \<not> mem_key ([] :: (string, nat) gomap) s)"
    by (rule validate_rows_sound [OF step _ r list(2) [unfolded e(1)] wf(1)]) (rule quiet)
  then have says: "list_all2 Q (elements t) ys" "\<not> changed \<longrightarrow> ys = elements t" "keys_typed ys" by blast+
  have "row_count_issues defer f limits (int (vlen t)) path = []"
    using validate_rows_quiet [OF quiet r] list(2) e(1) by simp
  then have bounds: "row_bounds (\<not> defer) f limits (length ys)"
    using row_count_Nil wf(3) list_all2_lengthD [OF says(1)] by simp
  have "(case u of Some w \<Rightarrow> w | None \<Rightarrow> v) = ListOf ys" using e(2) says(2) t wf(2) by simp
  then show ?thesis using that [OF t, of "newValueList ys"] says(1,3) bounds by (simp add: ListOf_def value_tree.list_build)
qed

lemma boolean_kind: "svalue_Kind v = KindBoolean \<Longrightarrow> fldType f = FieldTypeCheckbox \<Longrightarrow> typed R complete fresh f v"
  by (cases v) (simp_all add: typed_checkbox)

lemma validate_value_sound:
  assumes rec: "sound R rec (size f)" "quiet rec (size f)"
    and checked: "validate_value R rec o1 f v path st = (u, st')" "snd st' = []" "wf_value v"
    and names: "rows_named f" "\<And>gs. gs \<in> set (eachDefinitionChildSource f) \<Longrightarrow> well_named gs"
    and fresh: "fresh \<longrightarrow> \<not> retained o1"
  shows "typed R (\<not> voDeferCompleteness o1) fresh f (case u of Some w \<Rightarrow> w | None \<Rightarrow> v)"
proof -
  let ?T = "typed R (\<not> voDeferCompleteness o1) fresh f (case u of Some w \<Rightarrow> w | None \<Rightarrow> v)"
  have group: ?T if kind: "fldType f = FieldTypeGroup"
  proof -
    obtain fs where fs: "fldNested f = Some fs" using checked kind by (auto simp: validate_value_def Let_def split: option.splits)
    obtain m where m: "v = SObject m" using checked kind fs by (cases v) (auto simp: validate_value_def Let_def)
    let ?o = "child_options o1 path (prior o1 (fldName f))"
    obtain child changed st2 where c: "rec ?o fs (SObject m) st = ((child, changed), st2)" by (metis surj_pair)
    have e: "st2 = st'" "u = (if changed then Some child else None)" using checked(1) kind fs m c by (auto simp: validate_value_def Let_def)
    have wf: "wf_values m" using checked(3) m by (simp add: wf_value_object)
    have keep: "fresh \<longrightarrow> \<not> retained ?o" using fresh not_retained [of o1 "fldName f"] by (auto simp: retained_def)
    obtain m' where m': "child = SObject m'" "conforms R (\<not> voDeferCompleteness ?o) fresh (voRequireMissing ?o) (Collect (metadata_name ?o)) fs m'"
      "\<not> changed \<longrightarrow> m' = m"
      using soundD [OF rec(1) c size_nested [OF fs] _ wf names(2) [OF nested_fields_source [OF fs]] keep] checked(2) e(1) by blast
    have "(case u of Some w \<Rightarrow> w | None \<Rightarrow> v) = SObject m'" using e(2) m m'(1,3) by auto
    moreover have "conforms R (\<not> voDeferCompleteness o1) fresh True {} fs m'" using m'(2) unfolding metadata_group by simp
    ultimately show ?T using typed_group [OF kind fs] by simp
  qed
  have rows: ?T if kind: "fldType f = FieldTypeArray"
  proof -
    obtain fs where fs: "fldNested f = Some fs" using checked kind by (auto simp: validate_value_def Let_def split: option.splits)
    let ?step = "array_row rec o1 fs (validationRowsByKey (prior o1 (fldName f))) path"
    have list: "validate_list ?step (voDeferCompleteness o1) f (fdNestedRows (fldDetails f)) v path st = (u, st')"
      using checked(1) kind fs by (simp add: validate_value_def Let_def)
    have own: "well_named fs" "''_key'' \<notin> fldName ` set fs"
      using names(2) [OF nested_fields_source [OF fs]] names(1) nested_fields_source [OF fs] kind unfolding rows_named_def by auto
    obtain t t' where says: "v = SList t" "(case u of Some w \<Rightarrow> w | None \<Rightarrow> v) = SList t'"
      "list_all2 (\<lambda>row row1. \<exists>m. row1 = SObject m \<and> conforms R (\<not> voDeferCompleteness o1) fresh True {''_key''} fs m) (elements t) (elements t')"
      "row_bounds (\<not> voDeferCompleteness o1) f (fdNestedRows (fldDetails f)) (length (elements t'))" "keys_typed (elements t')"
      by (rule validate_list_sound [OF list checked(2,3) array_row_sound [OF rec(1) size_nested [OF fs] own fresh refl]
        array_row_quiet [OF rec(2) size_nested [OF fs]]])
    show ?T unfolding says(2) by (rule typed_rows [OF kind fs says(4,5) all2_right [OF says(3)]])
  qed
  have blocks: ?T if kind: "fldType f = FieldTypeBlocks"
  proof -
    obtain bs where bs: "fldBlocks f = Some bs" using checked kind by (auto simp: validate_value_def Let_def split: option.splits)
    let ?step = "blocks_row rec o1 bs (validationRowsByKey (prior o1 (fldName f))) path"
    have list: "validate_list ?step (voDeferCompleteness o1) f (fdBlocksRows (fldDetails f)) v path st = (u, st')"
      using checked(1) kind bs by (simp add: validate_value_def Let_def)
    have small: "size_list size (bltFields b) < size f" if "b \<in> set bs" for b
      using size_blocks [OF bs] size_list_mem [OF that] size_block_fields [of b] by linarith
    have own: "well_named (bltFields b) \<and> {''_key'', ''blockType''} \<inter> fldName ` set (bltFields b) = {}" if "b \<in> set bs" for b
      using names(2) [OF definition_source [OF bs that]] names(1) definition_source [OF bs that] kind
      unfolding rows_named_def by auto
    obtain t t' where says: "v = SList t" "(case u of Some w \<Rightarrow> w | None \<Rightarrow> v) = SList t'"
      "list_all2 (\<lambda>row row1. \<exists>m kind b. row1 = SObject m \<and> map_of m ''blockType'' = Some (SString kind) \<and> definitionBySlug bs kind = Some b
        \<and> conforms R (\<not> voDeferCompleteness o1) fresh True {''_key'', ''blockType''} (bltFields b) m) (elements t) (elements t')"
      "row_bounds (\<not> voDeferCompleteness o1) f (fdBlocksRows (fldDetails f)) (length (elements t'))" "keys_typed (elements t')"
      by (rule validate_list_sound [OF list checked(2,3) blocks_row_sound [OF rec(1) small own fresh refl] blocks_row_quiet [OF rec(2) small]])
    show ?T unfolding says(2) by (rule typed_blocks [OF kind bs says(4,5) all2_right [OF says(3)]])
  qed
  have plugin: ?T if kind: "fldType f = FieldTypePlugin"
    using checked(1,2) kind by (auto simp: validate_value_def validate_plugin_def Let_def intro!: typed_plugin split: if_splits option.splits)
  show ?thesis
    using checked
    by (cases "fldType f")
      (auto simp: validate_value_def Let_def number_Nil
        intro: group rows blocks plugin text_typed email_typed date_check_typed select_typed point_Nil primitive_typed upload_typed relationship_typed
          typed_number boolean_kind typed_json typed_unstored split: if_splits prod.splits)
qed

section \<open>The members of an object\<close>

text \<open>What is demanded of the member of a field, which is the clause of \<open>conforms\<close>.\<close>

definition member_typed :: "validation_rules \<Rightarrow> bool \<Rightarrow> bool \<Rightarrow> bool \<Rightarrow> field \<Rightarrow> svalue option \<Rightarrow> bool" where
  "member_typed R complete fresh present f x \<longleftrightarrow>
     x = None \<and> (complete \<and> present \<and> needs f \<longrightarrow> fldLocalized f \<and> \<not> fresh)
     \<or> x = Some SNull \<and> \<not> (complete \<and> needs f)
     \<or> (\<exists>v. x = Some v \<and> typed R complete fresh f v)"

definition settled :: "validation_rules \<Rightarrow> validation_options \<Rightarrow> bool \<Rightarrow> field \<Rightarrow> svalue option \<Rightarrow> bool" where
  "settled R o1 fresh f x \<longleftrightarrow>
     (if fldCategory f = FieldCategoryPresentation then x = None
      else member_typed R (\<not> voDeferCompleteness o1) fresh (voRequireMissing o1) f x)"

text \<open>A step at one name: the object stays well formed, what it was read from and the other names stay.\<close>

definition steps_at :: "string set \<Rightarrow> validation_object \<Rightarrow> validation_object \<Rightarrow> bool" where
  "steps_at names ob ob' \<longleftrightarrow> object_ok ob' \<and> object_lookup ob' = object_lookup ob
     \<and> (\<forall>n. n \<notin> names \<longrightarrow> object_view ob' n = object_view ob n)
     \<and> vobValues ob' = vobValues ob \<and> vobValue ob' = vobValue ob"

lemma steps_at_refl: "object_ok ob \<Longrightarrow> steps_at names ob ob"
  by (simp add: steps_at_def)

lemma steps_at_trans: "steps_at a ob ob1 \<Longrightarrow> steps_at b ob1 ob2 \<Longrightarrow> steps_at (a \<union> b) ob ob2"
  by (simp add: steps_at_def)

lemma steps_at_set: "object_ok ob \<Longrightarrow> steps_at {name} ob (object_set name v ob)"
  by (simp add: steps_at_def object_set_says) (simp add: object_set_def)

lemma steps_at_remove: "object_ok ob \<Longrightarrow> object_view ob name = object_lookup ob name \<Longrightarrow> steps_at {name} ob (object_remove name ob)"
  by (simp add: steps_at_def object_remove_says) (simp add: object_remove_def)

lemma lookup_wf: "object_ok ob \<Longrightarrow> object_lookup ob name = Some v \<Longrightarrow> wf_value v"
  by (auto simp: object_ok_def object_lookup_def wf_values_def split: option.splits dest!: map_of_SomeD)

lemma kind_null: "svalue_Kind v = KindNull \<longleftrightarrow> v = SNull"
  by (cases v) simp_all

lemma validate_present_sound:
  assumes rec: "sound R rec (size f)" "quiet rec (size f)"
    and checked: "validate_present R rec o1 f v path (ob, st) = (ob', st')" "snd st' = []"
    and v: "wf_value v" "object_view ob (fldName f) = Some v" "object_ok ob"
    and names: "rows_named f" "\<And>gs. gs \<in> set (eachDefinitionChildSource f) \<Longrightarrow> well_named gs"
    and fresh: "fresh \<longrightarrow> \<not> retained o1"
  shows "steps_at {fldName f} ob ob'
    \<and> member_typed R (\<not> voDeferCompleteness o1) fresh present f (object_view ob' (fldName f))"
proof (cases "v = SNull")
  case True
  then have "ob' = ob" "voDeferCompleteness o1 \<or> lacking_issues f path = []"
    using checked by (auto simp: validate_present_def split: if_splits)
  then show ?thesis using v True by (auto simp: steps_at_refl member_typed_def lacking_Nil)
next
  case False
  obtain u st1 where c: "validate_value R rec o1 f v path st = (u, st1)" by (metis surj_pair)
  have e: "st1 = st'" "ob' = (case u of Some w \<Rightarrow> object_set (fldName f) w ob | None \<Rightarrow> ob)"
    using checked(1) c False by (auto simp: validate_present_def kind_null split: option.splits)
  have "typed R (\<not> voDeferCompleteness o1) fresh f (case u of Some w \<Rightarrow> w | None \<Rightarrow> v)"
    by (rule validate_value_sound [OF rec c [unfolded e(1)] checked(2) v(1) names fresh])
  moreover have "object_view ob' (fldName f) = Some (case u of Some w \<Rightarrow> w | None \<Rightarrow> v)"
    using e(2) v by (simp add: object_set_says split: option.split)
  moreover have "steps_at {fldName f} ob ob'"
    using e(2) v(3) by (simp add: steps_at_refl steps_at_set split: option.split)
  ultimately show ?thesis by (simp add: member_typed_def)
qed

lemma validate_member_sound:
  assumes rec: "sound R rec (size f)" "quiet rec (size f)"
    and checked: "validate_member R rec o1 f (ob, st) = (ob', st')" "snd st' = []"
    and ob: "object_ok ob" "object_view ob (fldName f) = object_lookup ob (fldName f)"
    and names: "rows_named f" "\<And>gs. gs \<in> set (eachDefinitionChildSource f) \<Longrightarrow> well_named gs"
    and fresh: "fresh \<longrightarrow> \<not> retained o1"
  shows "steps_at {fldName f} ob ob' \<and> settled R o1 fresh f (object_view ob' (fldName f))"
proof (cases "fldCategory f = FieldCategoryPresentation")
  case True
  then have "ob' = object_remove (fldName f) ob" using checked(1) by (simp add: validate_member_def)
  then show ?thesis using True ob by (simp add: settled_def steps_at_remove object_remove_says)
next
  case False
  let ?path = "join (voPrefix o1) (fldName f)"
  note present = validate_present_sound [OF rec _ checked(2) _ _ _ names fresh]
  show ?thesis
  proof (cases "object_lookup ob (fldName f)")
    case (Some v)
    then have c: "validate_present R rec o1 f v ?path (ob, st) = (ob', st')"
      using checked(1) False by (simp add: validate_member_def)
    show ?thesis
      using present [OF c lookup_wf [OF ob(1) Some] _ ob(1)] ob(2) Some False by (simp add: settled_def)
  next
    case missing: None
    have absent: "object_view ob (fldName f) = None" using ob(2) missing by simp
    show ?thesis
    proof (cases "fldLocalized f \<and> retained o1")
      case True
      then have "ob' = ob" using checked(1) False missing by (simp add: validate_member_def)
      then show ?thesis using True fresh absent False ob(1) by (auto simp: settled_def member_typed_def steps_at_refl)
    next
      case other: False
      show ?thesis
      proof (cases "if voRequireMissing o1 then missingDefaultValue R f else None")
        case (Some v)
        then have c: "validate_present R rec o1 f v ?path (object_set (fldName f) v ob, st) = (ob', st')"
          using checked(1) False missing other by (simp add: validate_member_def)
        have wf: "wf_value v" using Some default_wf by (simp split: if_splits)
        have step: "steps_at {fldName f} ob (object_set (fldName f) v ob)" by (rule steps_at_set [OF ob(1)])
        have "steps_at {fldName f} (object_set (fldName f) v ob) ob'
            \<and> member_typed R (\<not> voDeferCompleteness o1) fresh (voRequireMissing o1) f (object_view ob' (fldName f))"
          by (rule present [OF c wf]) (simp_all add: object_set_says ob(1))
        then show ?thesis using steps_at_trans [OF step, of "{fldName f}" ob'] False by (simp add: settled_def)
      next
        case None
        then have e: "ob' = ob" "voRequireMissing o1 \<and> \<not> voDeferCompleteness o1 \<longrightarrow> lacking_issues f ?path = []"
          using checked False missing other by (auto simp: validate_member_def Let_def)
        then show ?thesis using absent False ob(1) by (auto simp: settled_def member_typed_def steps_at_refl lacking_Nil)
      qed
    qed
  qed
qed

lemma each_member_sound:
  assumes "sound R rec (size_list size fs)" "quiet rec (size_list size fs)"
    and "each_member R rec o1 fs (ob, st) = (ob', st')" "snd st' = []" "object_ok ob"
    and "distinct (map fldName fs)" "\<forall>f\<in>set fs. object_view ob (fldName f) = object_lookup ob (fldName f)"
    and "\<And>f. f \<in> set fs \<Longrightarrow> rows_named f" "\<And>f gs. f \<in> set fs \<Longrightarrow> gs \<in> set (eachDefinitionChildSource f) \<Longrightarrow> well_named gs"
    and "fresh \<longrightarrow> \<not> retained o1"
  shows "steps_at (fldName ` set fs) ob ob' \<and> (\<forall>f\<in>set fs. settled R o1 fresh f (object_view ob' (fldName f)))"
  using assms
proof (induction fs arbitrary: ob st)
  case Nil
  then show ?case by (simp add: steps_at_refl)
next
  case (Cons f fs)
  obtain ob1 st1 where m: "validate_member R rec o1 f (ob, st) = (ob1, st1)" by (metis surj_pair)
  have small: "sound R rec (size f)" "sound R rec (size_list size fs)" "quiet rec (size f)" "quiet rec (size_list size fs)"
    by (rule sound_mono [OF Cons.prems(1)], simp)+ (rule quiet_mono [OF Cons.prems(2)], simp)+
  have rest: "each_member R rec o1 fs (ob1, st1) = (ob', st')"
  proof (cases "issues_full (snd st)")
    case True
    then show ?thesis using Cons.prems(3,4) by auto
  qed (use Cons.prems(3) m in simp)
  have st1: "snd st1 = []" by (rule each_member_quiet [OF small(4) rest Cons.prems(4)])
  have one: "steps_at {fldName f} ob ob1 \<and> settled R o1 fresh f (object_view ob1 (fldName f))"
    by (rule validate_member_sound [OF small(1,3) m st1 Cons.prems(5) _ _ _ Cons.prems(10)])
      (use Cons.prems(7,8,9) in \<open>auto simp del: distinct.simps\<close>)
  have apart: "fldName f \<notin> fldName ` set fs" "distinct (map fldName fs)" using Cons.prems(6) by auto
  have "steps_at (fldName ` set fs) ob1 ob' \<and> (\<forall>f\<in>set fs. settled R o1 fresh f (object_view ob' (fldName f)))"
  proof (rule Cons.IH [OF small(2,4) rest Cons.prems(4) _ apart(2)])
    show "object_ok ob1" using one by (simp add: steps_at_def)
    show "\<forall>g\<in>set fs. object_view ob1 (fldName g) = object_lookup ob1 (fldName g)"
      using one Cons.prems(7) apart(1) by (metis imageI list.set_intros(2) singletonD steps_at_def)
  qed (use Cons.prems(8-10) in auto)
  moreover from this have "object_view ob' (fldName f) = object_view ob1 (fldName f)"
    using apart(1) by (simp add: steps_at_def)
  ultimately show ?case using one steps_at_trans [of "{fldName f}" ob ob1 "fldName ` set fs" ob'] by simp
qed

end
