(* ===== verification/Validation_Typing.thy ===== *)
theory Validation_Typing
  imports Validation_Soundness
begin

text \<open>
  The soundness of validation as a whole (\<open>validateFields\<close> and \<open>validateWithOptions\<close> of
  \<open>internal/operation/validate.go\<close>): what it passes conforms to the fields.
\<close>

section \<open>Objects\<close>

lemma conforms_view:
  assumes "wf_map m" "map_of m = object_view ob'" "distinct (map fldName fs)"
    and names: "\<And>n. n \<notin> fldName ` set fs \<Longrightarrow> object_view ob' n \<noteq> None \<Longrightarrow> n \<in> metadata"
    and each: "\<forall>f\<in>set fs. settled R o1 fresh f (object_view ob' (fldName f))"
  shows "conforms R (\<not> voDeferCompleteness o1) fresh (voRequireMissing o1) metadata fs m"
proof (rule typed_conforms.conforms)
  show "fst ` set m \<subseteq> metadata \<union> stored_names fs"
  proof
    fix n assume "n \<in> fst ` set m"
    then have n: "object_view ob' n \<noteq> None" using assms(2) by (metis map_of_eq_None_iff)
    show "n \<in> metadata \<union> stored_names fs"
    proof (cases "n \<in> fldName ` set fs")
      case True
      then obtain f where f: "f \<in> set fs" "fldName f = n" by auto
      then have "fldCategory f \<noteq> FieldCategoryPresentation" using each n by (auto simp: settled_def)
      then show ?thesis using f by (auto simp: stored_names_def)
    next
      case False
      then show ?thesis using names n by simp
    qed
  qed
  show "\<forall>f\<in>set fs. fldCategory f \<noteq> FieldCategoryPresentation \<longrightarrow>
       map_of m (fldName f) = None \<and> (\<not> voDeferCompleteness o1 \<and> voRequireMissing o1 \<and> needs f \<longrightarrow> fldLocalized f \<and> \<not> fresh)
       \<or> map_of m (fldName f) = Some SNull \<and> \<not> (\<not> voDeferCompleteness o1 \<and> needs f)
       \<or> (\<exists>v. map_of m (fldName f) = Some v \<and> typed R (\<not> voDeferCompleteness o1) fresh f v)"
  proof (intro ballI impI)
    fix f assume f: "f \<in> set fs" "fldCategory f \<noteq> FieldCategoryPresentation"
    then have "member_typed R (\<not> voDeferCompleteness o1) fresh (voRequireMissing o1) f (object_view ob' (fldName f))"
      using bspec [OF each f(1)] by (simp add: settled_def)
    then show "map_of m (fldName f) = None \<and> (\<not> voDeferCompleteness o1 \<and> voRequireMissing o1 \<and> needs f \<longrightarrow> fldLocalized f \<and> \<not> fresh)
       \<or> map_of m (fldName f) = Some SNull \<and> \<not> (\<not> voDeferCompleteness o1 \<and> needs f)
       \<or> (\<exists>v. map_of m (fldName f) = Some v \<and> typed R (\<not> voDeferCompleteness o1) fresh f v)"
      unfolding assms(2) member_typed_def .
  qed
qed

lemma members_sound:
  assumes rec: "sound R rec (size_list size fs)" "quiet rec (size_list size fs)"
    and checked: "validateMembers R rec o1 fs ob st = (ob', st')" "snd st' = []"
    and ob: "object_ok ob" "vobEdited ob = None" "map_of (object_entries ob) = object_lookup ob"
    and names: "well_named fs" and fresh: "fresh \<longrightarrow> \<not> retained o1"
  shows "steps_at (fldName ` set fs) ob ob'
    \<and> conforms R (\<not> voDeferCompleteness o1) fresh (voRequireMissing o1) (Collect (metadata_name o1)) fs (object_edit ob')"
proof -
  obtain st1 where st1: "unknown_members o1 (stored_names fs) (object_entries ob) st = st1" by simp
  have e: "each_member R rec o1 fs (ob, st1) = (ob', st')" using checked(1) st1 by (simp add: validateMembers_def)
  have quiet1: "snd st1 = []" by (rule each_member_quiet [OF rec(2) e checked(2)])
  have known: "metadata_name o1 n \<or> n \<in> stored_names fs" if "object_lookup ob n \<noteq> None" for n
    using unknown_members_quiet [of o1 "stored_names fs" "object_entries ob" st] st1 quiet1 that ob(3)
    by (metis map_of_eq_None_iff)
  have view: "object_view ob = object_lookup ob" using ob(2) by (simp add: object_view_def)
  have distinct: "distinct (map fldName fs)" using names by (simp add: well_named_def)
  have steps: "steps_at (fldName ` set fs) ob ob' \<and> (\<forall>f\<in>set fs. settled R o1 fresh f (object_view ob' (fldName f)))"
    by (rule each_member_sound [OF rec e checked(2) ob(1) distinct _ well_named_here [OF names] well_named_child [OF names] fresh])
      (simp add: view)
  then have ok: "object_ok ob'" by (simp add: steps_at_def)
  have "conforms R (\<not> voDeferCompleteness o1) fresh (voRequireMissing o1) (Collect (metadata_name o1)) fs (object_edit ob')"
  proof (rule conforms_view [OF _ _ distinct _ conjunct2 [OF steps]])
    show "wf_map (object_edit ob')" "map_of (object_edit ob') = object_view ob'" using edit_view [OF ok] by simp_all
    show "n \<in> Collect (metadata_name o1)" if "n \<notin> fldName ` set fs" "object_view ob' n \<noteq> None" for n
    proof -
      have "object_lookup ob n \<noteq> None" using steps that view by (simp add: steps_at_def)
      then show ?thesis using known that(1) by (auto simp: stored_names_def)
    qed
  qed
  then show ?thesis using steps by blast
qed

lemma validateObject_sound: "sound R (validateObject R) n"
proof (induction n)
  case (Suc n)
  show ?case
    unfolding sound_def
  proof (intro allI impI, goal_cases)
    case (1 o1 gs m st r st' fresh)
    let ?ob = "\<lparr>vobValues = None, vobValue = SObject m, vobEdited = None\<rparr>"
    have rec: "sound R (validateObject R) (size_list size gs)" by (rule sound_mono [OF Suc]) (use 1(1) in simp)
    obtain ob st1 where c: "validateMembers R (validateObject R) o1 gs ?ob st = (ob, st1)" by (metis surj_pair)
    then have e: "st' = st1" "r = object_result ob" using 1(2) by (simp_all add: validateObject.simps [of R o1 gs])
    have says: "steps_at (fldName ` set gs) ?ob ob
      \<and> conforms R (\<not> voDeferCompleteness o1) fresh (voRequireMissing o1) (Collect (metadata_name o1)) gs (object_edit ob)"
      by (rule members_sound [OF rec validateObject_quiet c 1(3) [unfolded e(1)] _ _ _ 1(5,6)])
        (use 1(4) in \<open>auto simp: object_ok_def object_entries_def object_lookup_def\<close>)
    then have kept: "vobValue ob = SObject m" "object_ok ob" "vobValues ob = None"
      "\<forall>n. n \<notin> fldName ` set gs \<longrightarrow> object_view ob n = map_of m n"
      by (simp_all add: steps_at_def object_view_def object_lookup_def)
    have "fst r = SObject (object_edit ob)" "\<not> snd r \<longrightarrow> object_edit ob = m"
      using e(2) kept(1-3) 1(4) edit_view [OF kept(2)]
      by (auto simp: object_result_def object_edit_def object_copy_def ObjectOf_def CloneValues_id wf_values_map split: option.splits)
    moreover have "\<forall>n. n \<notin> fldName ` set gs \<longrightarrow> map_of (object_edit ob) n = map_of m n"
      using kept(4) edit_view [OF kept(2)] by simp
    ultimately show ?case using says by blast
  qed
qed (simp add: sound_def)

section \<open>Documents\<close>

lemma validateFields_sound:
  assumes "validateFields R o1 fs vals st = (validated, st')" "snd st' = []" "wf_values vals" "well_named fs"
  shows "conforms R (\<not> voDeferCompleteness o1) (\<not> retained o1) (voRequireMissing o1) (Collect (metadata_name o1)) fs validated
    \<and> (\<forall>n. n \<notin> fldName ` set fs \<longrightarrow> map_of validated n = map_of vals n)"
proof -
  let ?ob = "\<lparr>vobValues = Some vals, vobValue = SInvalid, vobEdited = None\<rparr>"
  obtain ob st1 where c: "validateMembers R (validateObject R) o1 fs ?ob st = (ob, st1)" by (metis surj_pair)
  have e: "st' = st1" "validated = (case vobEdited ob of Some m \<Rightarrow> m | None \<Rightarrow> CloneValues vals)"
    using assms(1) c by (simp_all add: validateFields_def)
  have says: "steps_at (fldName ` set fs) ?ob ob
    \<and> conforms R (\<not> voDeferCompleteness o1) (\<not> retained o1) (voRequireMissing o1) (Collect (metadata_name o1)) fs (object_edit ob)"
    by (rule members_sound [OF validateObject_sound validateObject_quiet c assms(2) [unfolded e(1)] _ _ _ assms(4)])
      (use assms(3) in \<open>auto simp: object_ok_def object_entries_def object_lookup_def\<close>)
  then have kept: "vobValues ob = Some vals" "object_ok ob"
    "\<forall>n. n \<notin> fldName ` set fs \<longrightarrow> object_view ob n = map_of vals n"
    by (simp_all add: steps_at_def object_view_def object_lookup_def)
  have "object_copy ob = CloneValues vals" using kept(1) by (simp add: object_copy_def)
  then have "validated = object_edit ob" using e(2) by (cases "vobEdited ob") (simp_all add: object_edit_def)
  then show ?thesis using says kept(3) edit_view [OF kept(2)] by simp
qed


definition lenient_rules :: validation_rules where
  "lenient_rules = \<lparr>vrAddress = Some, vrParse = (\<lambda>_ _. None), vrFormat = (\<lambda>_. []), vrFloat = (\<lambda>_. 0),
     vrJSON = \<lparr>jrFormat = (\<lambda>_ _. []), jrParse = (\<lambda>_. None), jrTime = (\<lambda>_. None)\<rparr>, vrPlugin = (\<lambda>_. None)\<rparr>"

definition named_title :: field where
  "named_title = FieldDef ''t1'' ''title'' [''title''] FieldTypeText FieldCategoryScalar True False False False None None None None
     None None None (no_details\<lparr>fdText := Some \<lparr>txfMinLength = None, txfMaxLength = Some 5\<rparr>\<rparr>)"

definition named_rows :: field where
  "named_rows = FieldDef ''r1'' ''rows'' [''rows''] FieldTypeArray FieldCategoryNested False False False False None None None None
     (Some [named_title]) None None no_details"

definition named_values :: svalues where
  "named_values = [(''title'', SString ''one''),
     (''rows'', ListOf [SObject [(''_key'', SString ''k''), (''title'', SString ''two'')]])]"


end
