(* ===== verification/Upload_Locks.thy ===== *)
theory Upload_Locks
  imports Backend
begin

text \<open>
  The locks of upload objects (\<open>internal/teststore/store.go\<close>, \<open>LockUploadObjects\<close>): a
  call takes the lock of every object key it names, in the order of the keys, and waits
  for each; the context may end first, which gives the locks taken so far back. A lock is
  a channel of one token: here the table says whether the token is in the channel. Calls
  interleave at every lock operation, so the system is a step relation.
\<close>

section \<open>Operations\<close>

datatype lock_phase = Acquiring | Holding | Released | Canceled

record locker =
  lkWanted :: "string list"
  lkAcquired :: "string list"
  lkPhase :: lock_phase

record upload_system =
  usLocks :: "(string, bool) gomap"
  usLockers :: "(nat, locker) gomap"

definition lock_keys :: "string list \<Rightarrow> store_error + string list" where
  "lock_keys objectKeys =
     (if list_ex (\<lambda>key. key = []) objectKeys then Inl ErrUploadLockKey else Inr (sort (remdups objectKeys)))"

definition token_present :: "upload_system \<Rightarrow> string \<Rightarrow> bool" where
  "token_present s key = (case map_of (usLocks s) key of None \<Rightarrow> True | Some token \<Rightarrow> token)"

text \<open>The call begins: it has the keys to take, or fails on an empty one.\<close>

definition begin_lock :: "nat \<Rightarrow> string list \<Rightarrow> upload_system \<Rightarrow> (store_error + unit) \<times> upload_system" where
  "begin_lock i objectKeys s =
     (case lock_keys objectKeys of
        Inl e \<Rightarrow> (Inl e, s)
      | Inr keys \<Rightarrow>
          (Inr (), s\<lparr>usLockers := put i \<lparr>lkWanted = keys, lkAcquired = [],
              lkPhase = (if keys = [] then Holding else Acquiring)\<rparr> (usLockers s)\<rparr>))"

text \<open>The next lock of the loop, or \<^const>\<open>None\<close> while its token is taken.\<close>

definition take_next :: "nat \<Rightarrow> upload_system \<Rightarrow> upload_system option" where
  "take_next i s =
     (case map_of (usLockers s) i of
        None \<Rightarrow> None
      | Some l \<Rightarrow>
          (case (lkPhase l, lkWanted l) of
             (Acquiring, key # keys) \<Rightarrow>
               if token_present s key
               then Some (s\<lparr>usLocks := put key False (usLocks s),
                 usLockers := put i \<lparr>lkWanted = keys, lkAcquired = lkAcquired l @ [key],
                   lkPhase = (if keys = [] then Holding else Acquiring)\<rparr> (usLockers s)\<rparr>)
               else None
           | _ \<Rightarrow> None))"

definition give_back :: "string list \<Rightarrow> upload_system \<Rightarrow> upload_system" where
  "give_back keys s = s\<lparr>usLocks := fold (\<lambda>key m. put key True m) (rev keys) (usLocks s)\<rparr>"

definition finish :: "nat \<Rightarrow> lock_phase \<Rightarrow> lock_phase \<Rightarrow> upload_system \<Rightarrow> upload_system option" where
  "finish i from to' s =
     (case map_of (usLockers s) i of
        None \<Rightarrow> None
      | Some l \<Rightarrow>
          if lkPhase l = from
          then Some (give_back (lkAcquired l) (s\<lparr>usLockers := put i (l\<lparr>lkPhase := to'\<rparr>) (usLockers s)\<rparr>))
          else None)"

text \<open>The context ends while the call waits; the function the call returned is called.\<close>

definition cancel :: "nat \<Rightarrow> upload_system \<Rightarrow> upload_system option" where
  "cancel i s = finish i Acquiring Canceled s"

definition release :: "nat \<Rightarrow> upload_system \<Rightarrow> upload_system option" where
  "release i s = finish i Holding Released s"

definition no_locks :: upload_system where
  "no_locks = \<lparr>usLocks = [], usLockers = []\<rparr>"

section \<open>Steps\<close>

text \<open>\<open>progress\<close> holds of the steps that need no context to end: a lock taken or given back.\<close>

inductive progress :: "upload_system \<Rightarrow> upload_system \<Rightarrow> bool" where
  progress_take: "take_next i s = Some s' \<Longrightarrow> progress s s'"
| progress_release: "release i s = Some s' \<Longrightarrow> progress s s'"

inductive upload_step :: "upload_system \<Rightarrow> upload_system \<Rightarrow> bool" where
  step_progress: "progress s s' \<Longrightarrow> upload_step s s'"
| step_begin: "map_of (usLockers s) i = None \<Longrightarrow> upload_step s (snd (begin_lock i keys s))"
| step_cancel: "cancel i s = Some s' \<Longrightarrow> upload_step s s'"

definition reachable_locks :: "upload_system \<Rightarrow> bool" where
  "reachable_locks s \<longleftrightarrow> upload_step\<^sup>*\<^sup>* no_locks s"

definition held :: "locker \<Rightarrow> string list" where
  "held l = (if lkPhase l = Acquiring \<or> lkPhase l = Holding then lkAcquired l else [])"

definition locker_ok :: "locker \<Rightarrow> bool" where
  "locker_ok l \<longleftrightarrow> sorted_wrt (<) (lkAcquired l @ lkWanted l)
     \<and> (lkPhase l = Acquiring \<longrightarrow> lkWanted l \<noteq> [])"

text \<open>
  The tokens that are out are those of the held keys, and no key is held twice.
\<close>

definition locks_ok :: "upload_system \<Rightarrow> bool" where
  "locks_ok s \<longleftrightarrow>
     (\<forall>i l. map_of (usLockers s) i = Some l \<longrightarrow> locker_ok l \<and> (\<forall>key \<in> set (held l). \<not> token_present s key))
     \<and> (\<forall>key. \<not> token_present s key \<longrightarrow> (\<exists>i l. map_of (usLockers s) i = Some l \<and> key \<in> set (held l)))
     \<and> (\<forall>i j l m. i \<noteq> j \<longrightarrow> map_of (usLockers s) i = Some l \<longrightarrow> map_of (usLockers s) j = Some m \<longrightarrow>
          set (held l) \<inter> set (held m) = {})"

lemma locks_okD:
  assumes "locks_ok s" "map_of (usLockers s) i = Some l"
  shows "locker_ok l" "key \<in> set (held l) \<Longrightarrow> \<not> token_present s key"
    and "j \<noteq> i \<Longrightarrow> map_of (usLockers s) j = Some m \<Longrightarrow> key \<in> set (held l) \<Longrightarrow> key \<notin> set (held m)"
  using assms unfolding locks_ok_def by blast+

lemma locks_ok_holder:
  assumes "locks_ok s" "\<not> token_present s key"
  obtains i l where "map_of (usLockers s) i = Some l" "key \<in> set (held l)"
  using assms unfolding locks_ok_def by blast

lemma locks_okI:
  assumes "\<And>i l. map_of (usLockers s) i = Some l \<Longrightarrow> locker_ok l"
    and "\<And>i l key. map_of (usLockers s) i = Some l \<Longrightarrow> key \<in> set (held l) \<Longrightarrow> \<not> token_present s key"
    and "\<And>key. \<not> token_present s key \<Longrightarrow> \<exists>i l. map_of (usLockers s) i = Some l \<and> key \<in> set (held l)"
    and "\<And>i j l m key. i \<noteq> j \<Longrightarrow> map_of (usLockers s) i = Some l \<Longrightarrow> map_of (usLockers s) j = Some m \<Longrightarrow>
          key \<in> set (held l) \<Longrightarrow> key \<notin> set (held m)"
  shows "locks_ok s"
  using assms unfolding locks_ok_def by blast

lemma token_present_put [simp]:
  "token_present (s\<lparr>usLocks := put key t (usLocks s)\<rparr>) k = (if k = key then t else token_present s k)"
  "token_present (s\<lparr>usLockers := ls\<rparr>) k = token_present s k"
  by (auto simp: token_present_def)

lemma map_of_give_back:
  "map_of (fold (\<lambda>key m. put key True m) keys m) k = (if k \<in> set keys then Some True else map_of m k)"
  by (induction keys arbitrary: m) auto

lemma token_present_back [simp]:
  "token_present (give_back keys s) k \<longleftrightarrow> k \<in> set keys \<or> token_present s k"
  by (auto simp: give_back_def token_present_def map_of_give_back)

lemma lockers_back [simp]: "usLockers (give_back keys s) = usLockers s"
  by (simp add: give_back_def)

lemma take_nextE:
  assumes "take_next i s = Some s'"
  obtains l key keys where "map_of (usLockers s) i = Some l" "lkPhase l = Acquiring" "lkWanted l = key # keys"
    "token_present s key"
    "s' = s\<lparr>usLocks := put key False (usLocks s), usLockers := put i \<lparr>lkWanted = keys, lkAcquired = lkAcquired l @ [key],
        lkPhase = (if keys = [] then Holding else Acquiring)\<rparr> (usLockers s)\<rparr>"
  using assms by (auto simp: take_next_def split: option.splits lock_phase.splits list.splits if_splits)

lemma finishE:
  assumes "finish i from to' s = Some s'"
  obtains l where "map_of (usLockers s) i = Some l" "lkPhase l = from"
    "s' = give_back (lkAcquired l) (s\<lparr>usLockers := put i (l\<lparr>lkPhase := to'\<rparr>) (usLockers s)\<rparr>)"
  using assms by (auto simp: finish_def split: option.splits if_splits)

lemma take_next_ok:
  assumes ok: "locks_ok s" and step: "take_next i s = Some s'"
  shows "locks_ok s'"
  using step
proof (cases rule: take_nextE)
  case (1 l key keys)
  let ?l = "\<lparr>lkWanted = keys, lkAcquired = lkAcquired l @ [key], lkPhase = (if keys = [] then Holding else Acquiring)\<rparr>"
  have l: "locker_ok l" by (rule locks_okD(1) [OF ok 1(1)])
  have held: "set (held l) = set (lkAcquired l)" "set (held ?l) = insert key (set (lkAcquired l))"
    using 1(2) by (auto simp: held_def)
  have free: "key \<notin> set (held m)" if "map_of (usLockers s) j = Some m" for j m
    using locks_okD(2) [OF ok that] 1(4) by blast
  show ?thesis
  proof (rule locks_okI)
    fix j m assume m: "map_of (usLockers s') j = Some m"
    show "locker_ok m"
      using m l 1(2,3) locks_okD(1) [OF ok, of j m] unfolding 1(5) by (auto simp: locker_ok_def split: if_splits)
    show "\<not> token_present s' k" if "k \<in> set (held m)" for k
      using m that held 1(1) locks_okD(2) [OF ok, of j m k] locks_okD(2) [OF ok 1(1), of k]
      unfolding 1(5) by (auto split: if_splits)
  next
    fix k assume "\<not> token_present s' k"
    then have "k = key \<or> \<not> token_present s k" unfolding 1(5) by (auto split: if_splits)
    then show "\<exists>j m. map_of (usLockers s') j = Some m \<and> k \<in> set (held m)"
    proof
      assume "k = key"
      then show ?thesis using held unfolding 1(5) by (intro exI [of _ i] exI [of _ ?l]) simp
    next
      assume "\<not> token_present s k"
      then obtain j m where m: "map_of (usLockers s) j = Some m" "k \<in> set (held m)" by (rule locks_ok_holder [OF ok])
      show ?thesis
      proof (cases "j = i")
        case True
        then show ?thesis using m 1(1) held unfolding 1(5) by (intro exI [of _ i] exI [of _ ?l]) auto
      next
        case False
        then show ?thesis using m unfolding 1(5) by (intro exI [of _ j] exI [of _ m]) simp
      qed
    qed
  next
    fix j j' m m' k assume "j \<noteq> j'" "map_of (usLockers s') j = Some m" "map_of (usLockers s') j' = Some m'" "k \<in> set (held m)"
    then show "k \<notin> set (held m')"
      using free held locks_okD(3) [OF ok, of j m j' m' k] locks_okD(3) [OF ok 1(1), of j' m' k]
        locks_okD(3) [OF ok, of j m i l k] 1(1)
      unfolding 1(5) by (auto split: if_splits)
  qed
qed

lemma finish_ok:
  assumes ok: "locks_ok s" and step: "finish i from to' s = Some s'"
    and phases: "from = Acquiring \<or> from = Holding" "to' = Released \<or> to' = Canceled"
  shows "locks_ok s'"
  using step
proof (cases rule: finishE)
  case (1 l)
  have held: "held l = lkAcquired l" "held (l\<lparr>lkPhase := to'\<rparr>) = []"
    using 1(2) phases by (auto simp: held_def)
  show ?thesis
  proof (rule locks_okI)
    fix j m assume m: "map_of (usLockers s') j = Some m"
    show "locker_ok m"
      using m locks_okD(1) [OF ok, of j m] locks_okD(1) [OF ok 1(1)] phases(2) unfolding 1(3)
      by (auto simp: locker_ok_def split: if_splits)
    show "\<not> token_present s' k" if "k \<in> set (held m)" for k
      using m that held 1(1) locks_okD(2) [OF ok, of j m k] locks_okD(3) [OF ok 1(1), of j m k]
      unfolding 1(3) by (auto split: if_splits)
  next
    fix k assume "\<not> token_present s' k"
    then have k: "k \<notin> set (held l)" "\<not> token_present s k" unfolding 1(3) held by simp_all
    obtain j m where m: "map_of (usLockers s) j = Some m" "k \<in> set (held m)" using k(2) by (rule locks_ok_holder [OF ok])
    then show "\<exists>j m. map_of (usLockers s') j = Some m \<and> k \<in> set (held m)"
      using k(1) 1(1) unfolding 1(3) by (intro exI [of _ j] exI [of _ m]) auto
  next
    fix j j' m m' k assume "j \<noteq> j'" "map_of (usLockers s') j = Some m" "map_of (usLockers s') j' = Some m'" "k \<in> set (held m)"
    then show "k \<notin> set (held m')"
      using held locks_okD(3) [OF ok, of j m j' m' k] unfolding 1(3) by (auto split: if_splits)
  qed
qed

lemma begin_ok:
  assumes ok: "locks_ok s" and new: "map_of (usLockers s) i = None"
  shows "locks_ok (snd (begin_lock i keys s))"
proof (cases "lock_keys keys")
  case (Inr ks)
  have sorted: "sorted_wrt (<) ks"
    using Inr by (auto simp: lock_keys_def strict_sorted_iff split: if_splits)
  let ?l = "\<lparr>lkWanted = ks, lkAcquired = [], lkPhase = (if ks = [] then Holding else Acquiring)\<rparr>"
  have state: "snd (begin_lock i keys s) = s\<lparr>usLockers := put i ?l (usLockers s)\<rparr>"
    by (simp add: begin_lock_def Inr)
  have held: "held ?l = []" by (simp add: held_def)
  show ?thesis unfolding state
  proof (rule locks_okI)
    fix j m assume m: "map_of (usLockers (s\<lparr>usLockers := put i ?l (usLockers s)\<rparr>)) j = Some m"
    then show "locker_ok m"
      using sorted locks_okD(1) [OF ok, of j m] by (auto simp: locker_ok_def split: if_splits)
    show "\<not> token_present (s\<lparr>usLockers := put i ?l (usLockers s)\<rparr>) k" if "k \<in> set (held m)" for k
      using m that held locks_okD(2) [OF ok, of j m k] by (auto split: if_splits)
  next
    fix k assume "\<not> token_present (s\<lparr>usLockers := put i ?l (usLockers s)\<rparr>) k"
    then obtain j m where m: "map_of (usLockers s) j = Some m" "k \<in> set (held m)"
      using locks_ok_holder [OF ok, of k] by auto
    then show "\<exists>j m. map_of (usLockers (s\<lparr>usLockers := put i ?l (usLockers s)\<rparr>)) j = Some m \<and> k \<in> set (held m)"
      using new by (intro exI [of _ j] exI [of _ m]) auto
  next
    fix j j' m m' k assume "j \<noteq> j'" "map_of (usLockers (s\<lparr>usLockers := put i ?l (usLockers s)\<rparr>)) j = Some m"
      "map_of (usLockers (s\<lparr>usLockers := put i ?l (usLockers s)\<rparr>)) j' = Some m'" "k \<in> set (held m)"
    then show "k \<notin> set (held m')"
      using held locks_okD(3) [OF ok, of j m j' m' k] by (auto split: if_splits)
  qed
qed (simp add: begin_lock_def ok)

lemma progress_ok: "progress s s' \<Longrightarrow> locks_ok s \<Longrightarrow> locks_ok s'"
  by (induction rule: progress.induct) (auto simp: release_def intro: take_next_ok finish_ok)

lemma step_ok: "upload_step s s' \<Longrightarrow> locks_ok s \<Longrightarrow> locks_ok s'"
proof (induction rule: upload_step.induct)
  case (step_cancel i s s')
  show ?case by (rule finish_ok [OF step_cancel(2) step_cancel(1) [unfolded cancel_def]]) simp_all
qed (simp_all add: progress_ok begin_ok)

lemma reachable_locks_ok: "reachable_locks s \<Longrightarrow> locks_ok s"
  unfolding reachable_locks_def
proof (induction rule: rtranclp_induct)
  case base
  show ?case by (simp add: locks_ok_def no_locks_def token_present_def)
qed (rule step_ok)

text \<open>Two calls: the first holds \<open>a\<close>, the second \<open>b\<close>; a third wants both.\<close>

definition two_holders :: upload_system where
  "two_holders = the (take_next 1 (the (take_next 0
     (snd (begin_lock 1 [''b'', ''b''] (snd (begin_lock 0 [''a''] no_locks)))))))"

definition one_waits :: upload_system where
  "one_waits = snd (begin_lock 2 [''b'', ''a''] two_holders)"

lemma two_holders_eq:
  "two_holders = \<lparr>usLocks = [(''a'', False), (''b'', False)],
     usLockers = [(0, \<lparr>lkWanted = [], lkAcquired = [''a''], lkPhase = Holding\<rparr>),
                  (1, \<lparr>lkWanted = [], lkAcquired = [''b''], lkPhase = Holding\<rparr>)]\<rparr>"
  by code_simp

lemma one_waits_eq:
  "one_waits = two_holders\<lparr>usLockers := usLockers two_holders @
     [(2, \<lparr>lkWanted = [''a'', ''b''], lkAcquired = [], lkPhase = Acquiring\<rparr>)]\<rparr>"
  by code_simp

lemma reachable_begin: "reachable_locks s \<Longrightarrow> map_of (usLockers s) i = None \<Longrightarrow> reachable_locks (snd (begin_lock i keys s))"
  unfolding reachable_locks_def by (blast intro: rtranclp.rtrancl_into_rtrancl step_begin)

lemma reachable_take: "reachable_locks s \<Longrightarrow> take_next i s = Some s' \<Longrightarrow> reachable_locks s'"
  unfolding reachable_locks_def by (blast intro: rtranclp.rtrancl_into_rtrancl step_progress progress_take)

lemma reachable_two_holders: "reachable_locks two_holders"
proof -
  let ?s = "snd (begin_lock 1 [''b'', ''b''] (snd (begin_lock 0 [''a''] no_locks)))"
  have "reachable_locks no_locks" by (simp add: reachable_locks_def)
  then have "reachable_locks (snd (begin_lock 0 [''a''] no_locks))"
    by (rule reachable_begin) (simp add: no_locks_def)
  then have "reachable_locks ?s" by (rule reachable_begin) code_simp
  moreover have "take_next 0 ?s \<noteq> None" by code_simp
  then have "take_next 0 ?s = Some (the (take_next 0 ?s))" by simp
  ultimately have "reachable_locks (the (take_next 0 ?s))" by (rule reachable_take)
  moreover have "take_next 1 (the (take_next 0 ?s)) \<noteq> None" by code_simp
  then have "take_next 1 (the (take_next 0 ?s)) = Some two_holders" by (simp add: two_holders_def)
  ultimately show ?thesis by (rule reachable_take)
qed

lemma reachable_one_waits: "reachable_locks one_waits"
  unfolding one_waits_def by (rule reachable_begin [OF reachable_two_holders]) (simp add: two_holders_eq)

section \<open>Exclusion\<close>

text \<open>
  C6. Two calls that both hold their locks never hold the lock of one object.
\<close>

theorem upload_locks_exclusive:
  assumes "reachable_locks s" "i \<noteq> j"
    and "map_of (usLockers s) i = Some l" "map_of (usLockers s) j = Some m"
    and "lkPhase l = Holding" "lkPhase m = Holding"
  shows "set (lkAcquired l) \<inter> set (lkAcquired m) = {}"
  using locks_okD(3) [OF reachable_locks_ok [OF assms(1)] assms(3) _ assms(4)] assms(2,5,6) by (auto simp: held_def)

theorem upload_locks_exclusive_witness:
  "set [''a''] \<inter> set [''b''] = {}"
  using upload_locks_exclusive [OF reachable_two_holders, of 0 1
      "\<lparr>lkWanted = [], lkAcquired = [''a''], lkPhase = Holding\<rparr>" "\<lparr>lkWanted = [], lkAcquired = [''b''], lkPhase = Holding\<rparr>"]
  by (simp add: two_holders_eq)

section \<open>Progress\<close>

definition settled :: "locker \<Rightarrow> bool" where
  "settled l \<longleftrightarrow> lkPhase l = Released \<or> lkPhase l = Canceled"

text \<open>
  The call that holds the greatest key held by a waiting call waits for a greater one,
  which nobody that waits holds.
\<close>

lemma waiting_can_take:
  assumes ok: "locks_ok s" and fin: "finite W"
    and waiting: "\<forall>i l. map_of (usLockers s) i = Some l \<longrightarrow> lkPhase l \<noteq> Holding"
    and W: "W = {key. \<exists>i l. map_of (usLockers s) i = Some l \<and> key \<in> set (held l)}"
    and some: "map_of (usLockers s) i0 = Some l0" "lkPhase l0 = Acquiring"
  shows "\<exists>i s'. take_next i s = Some s'"
proof -
  have take: "\<exists>s'. take_next i s = Some s'"
    if "map_of (usLockers s) i = Some l" "lkPhase l = Acquiring" "lkWanted l = k # ks" "token_present s k" for i l k ks
    using that by (simp add: take_next_def)
  have next_key: "\<exists>k ks. lkWanted l = k # ks \<and> (\<forall>x\<in>set (lkAcquired l). x < k)"
    if "map_of (usLockers s) i = Some l" "lkPhase l = Acquiring" for i l
    using locks_okD(1) [OF ok that(1)] that(2) by (cases "lkWanted l") (auto simp: locker_ok_def sorted_wrt_append)
  show ?thesis
  proof (cases "W = {}")
    case True
    obtain k ks where k: "lkWanted l0 = k # ks" using next_key [OF some] by blast
    have "token_present s k"
    proof (rule ccontr)
      assume "\<not> token_present s k"
      then have "k \<in> W" unfolding W using locks_ok_holder [OF ok] by blast
      with True show False by simp
    qed
    then show ?thesis using take [OF some k] by blast
  next
    case False
    define top where "top = Max W"
    have "top \<in> W" using fin False by (simp add: top_def)
    then obtain i l where l: "map_of (usLockers s) i = Some l" "top \<in> set (held l)" unfolding W by blast
    then have acq: "lkPhase l = Acquiring" "top \<in> set (lkAcquired l)"
      using waiting by (auto simp: held_def split: if_splits)
    obtain k ks where k: "lkWanted l = k # ks" "\<forall>x\<in>set (lkAcquired l). x < k" using next_key [OF l(1) acq(1)] by blast
    have "token_present s k"
    proof (rule ccontr)
      assume "\<not> token_present s k"
      then have "k \<in> W" unfolding W using locks_ok_holder [OF ok] by blast
      then have "k \<le> top" using fin by (simp add: top_def)
      moreover have "top < k" using k(2) acq(2) by blast
      ultimately show False by simp
    qed
    then show ?thesis using take [OF l(1) acq(1) k(1)] by blast
  qed
qed

lemma held_finite:
  "finite {key. \<exists>i l. map_of (usLockers s) i = Some l \<and> key \<in> set (held l)}"
proof (rule finite_subset)
  show "{key. \<exists>i l. map_of (usLockers s) i = Some l \<and> key \<in> set (held l)} \<subseteq> (\<Union>(i, l)\<in>set (usLockers s). set (held l))"
    by (auto dest: map_of_SomeD)
qed auto

lemma unsettled_progress:
  assumes "locks_ok s" "map_of (usLockers s) i = Some l" "\<not> settled l"
  shows "\<exists>s'. progress s s'"
proof (cases "\<exists>j m. map_of (usLockers s) j = Some m \<and> lkPhase m = Holding")
  case True
  then obtain j m where "map_of (usLockers s) j = Some m" "lkPhase m = Holding" by blast
  then have "\<exists>s'. release j s = Some s'" by (simp add: release_def finish_def)
  then show ?thesis by (blast intro: progress_release)
next
  case False
  then have "lkPhase l = Acquiring" using assms(2,3) by (cases "lkPhase l") (auto simp: settled_def)
  then have "\<exists>j s'. take_next j s = Some s'"
    using waiting_can_take [OF assms(1) held_finite _ refl assms(2)] False by blast
  then show ?thesis by (blast intro: progress_take)
qed

text \<open>What is left to do: the locks still to take and, for each call, its release.\<close>

definition work :: "locker \<Rightarrow> nat" where
  "work l = (case lkPhase l of Acquiring \<Rightarrow> length (lkWanted l) + 1 | Holding \<Rightarrow> 1 | _ \<Rightarrow> 0)"

definition left_to_do :: "upload_system \<Rightarrow> nat" where
  "left_to_do s = sum_list (map (work \<circ> snd) (usLockers s))"

lemma work_put:
  "map_of m i = Some l \<Longrightarrow> sum_list (map (work \<circ> snd) (put i l' m)) + work l = sum_list (map (work \<circ> snd) m) + work l'"
  by (induction m) (auto simp: put_def)

lemma progress_less: "progress s s' \<Longrightarrow> left_to_do s' < left_to_do s"
proof (induction rule: progress.induct)
  case (progress_take i s s')
  then show ?case
  proof (cases rule: take_nextE)
    case (1 l key keys)
    then show ?thesis
      using work_put [OF 1(1), of "\<lparr>lkWanted = keys, lkAcquired = lkAcquired l @ [key],
          lkPhase = (if keys = [] then Holding else Acquiring)\<rparr>"]
      by (simp add: left_to_do_def work_def split: if_splits)
  qed
next
  case (progress_release i s s')
  then show ?case unfolding release_def
  proof (cases rule: finishE)
    case (1 l)
    then show ?thesis
      using work_put [OF 1(1), of "l\<lparr>lkPhase := Released\<rparr>"] by (simp add: left_to_do_def work_def)
  qed
qed

lemma progress_bounded: "(progress ^^ n) s s' \<Longrightarrow> n + left_to_do s' \<le> left_to_do s"
  by (induction n arbitrary: s') (fastforce dest: progress_less)+

definition bounded_runs :: "upload_system \<Rightarrow> bool" where
  "bounded_runs s \<longleftrightarrow> (\<exists>N. \<forall>n s'. (progress ^^ n) s s' \<longrightarrow> n \<le> N)"

text \<open>
  C7. No call is left waiting: from a state the calls can reach, as long as no context
  ends and no call is added, only boundedly many steps are possible, and a state where no
  step is possible is one where every call got its locks and gave them back.
\<close>

theorem upload_locks_live:
  assumes "reachable_locks s"
  shows "bounded_runs s
    \<and> \<not> (\<exists>s'. progress\<^sup>*\<^sup>* s s' \<and> \<not> (\<exists>s''. progress s' s'')
         \<and> (\<exists>i l. map_of (usLockers s') i = Some l \<and> \<not> settled l))"
proof
  show "bounded_runs s" unfolding bounded_runs_def using progress_bounded by (metis add_leE)
  have "locks_ok s'" if "progress\<^sup>*\<^sup>* s s'" for s'
    using that reachable_locks_ok [OF assms] by (induction rule: rtranclp_induct) (auto intro: progress_ok)
  then show "\<not> (\<exists>s'. progress\<^sup>*\<^sup>* s s' \<and> \<not> (\<exists>s''. progress s' s'')
         \<and> (\<exists>i l. map_of (usLockers s') i = Some l \<and> \<not> settled l))"
    using unsettled_progress by blast
qed

theorem upload_locks_live_witness:
  "bounded_runs one_waits \<and> (\<exists>i l. map_of (usLockers one_waits) i = Some l \<and> \<not> settled l)"
proof
  show "bounded_runs one_waits" using upload_locks_live [OF reachable_one_waits] by blast
  have "map_of (usLockers one_waits) 2 = Some \<lparr>lkWanted = [''a'', ''b''], lkAcquired = [], lkPhase = Acquiring\<rparr>"
    by (simp add: one_waits_eq two_holders_eq)
  then show "\<exists>i l. map_of (usLockers one_waits) i = Some l \<and> \<not> settled l"
    by (intro exI conjI, assumption) (simp add: settled_def)
qed

end
