(* ===== verification/Document_Locks.thy ===== *)
theory Document_Locks
  imports Backend
begin

text \<open>
  The editing locks of documents and the preferences of users in the in-memory store
  (\<open>internal/teststore/store.go\<close>, \<open>FindDocumentLock\<close> to \<open>Ready\<close>). A lock belongs to its
  owner until it expires, is released by that owner, or is taken over.
\<close>

section \<open>Editing locks\<close>

definition documentLockKey :: "string \<Rightarrow> string \<Rightarrow> string" where
  "documentLockKey collectionID documentID = collectionID @ NUL # documentID"

definition lock_at :: "string \<Rightarrow> time \<Rightarrow> backend \<Rightarrow> document_lock outcome" where
  "lock_at key now b =
     (case map_of (bkDocumentLocks b) key of
        Some lock \<Rightarrow>
          if dlkExpiresAt lock > now then (Inr lock, b)
          else (Inl ErrNotFound, b\<lparr>bkDocumentLocks := del key (bkDocumentLocks b)\<rparr>)
      | None \<Rightarrow> (Inl ErrNotFound, b\<lparr>bkDocumentLocks := del key (bkDocumentLocks b)\<rparr>))"

definition FindDocumentLock :: "string \<Rightarrow> string \<Rightarrow> time \<Rightarrow> backend \<Rightarrow> document_lock outcome" where
  "FindDocumentLock collectionID documentID now b = lock_at (documentLockKey collectionID documentID) now b"

definition same_owner :: "document_lock \<Rightarrow> document_lock \<Rightarrow> bool" where
  "same_owner l m \<longleftrightarrow> dlkOwnerCollectionID l = dlkOwnerCollectionID m \<and> dlkOwnerID l = dlkOwnerID m"

text \<open>The lock as it stands after the call and whether the candidate got it.\<close>

definition AcquireDocumentLock ::
  "document_lock \<Rightarrow> time \<Rightarrow> bool \<Rightarrow> backend \<Rightarrow> (document_lock \<times> bool) outcome" where
  "AcquireDocumentLock candidate now takeover b =
     (if \<not> activeDocument b (dlkCollectionID candidate) (dlkDocumentID candidate)
         \<or> \<not> activeDocument b (dlkOwnerCollectionID candidate) (dlkOwnerID candidate)
      then (Inl ErrNotFound, b)
      else let key = documentLockKey (dlkCollectionID candidate) (dlkDocumentID candidate) in
        (case map_of (bkDocumentLocks b) key of
           Some current \<Rightarrow>
             if dlkExpiresAt current > now \<and> \<not> same_owner current candidate \<and> \<not> takeover
             then (Inr (current, False), b)
             else let granted = (if same_owner current candidate
                        then candidate\<lparr>dlkCreatedAt := dlkCreatedAt current\<rparr> else candidate)
                  in (Inr (granted, True), b\<lparr>bkDocumentLocks := put key granted (bkDocumentLocks b)\<rparr>)
         | None \<Rightarrow> (Inr (candidate, True), b\<lparr>bkDocumentLocks := put key candidate (bkDocumentLocks b)\<rparr>)))"

definition ReleaseDocumentLock :: "string \<Rightarrow> string \<Rightarrow> string \<Rightarrow> string \<Rightarrow> backend \<Rightarrow> unit outcome" where
  "ReleaseDocumentLock collectionID documentID ownerCollectionID ownerID b =
     (let key = documentLockKey collectionID documentID in
      case map_of (bkDocumentLocks b) key of
        None \<Rightarrow> (Inr (), b)
      | Some current \<Rightarrow>
          if dlkOwnerCollectionID current \<noteq> ownerCollectionID \<or> dlkOwnerID current \<noteq> ownerID then (Inr (), b)
          else (Inr (), b\<lparr>bkDocumentLocks := del key (bkDocumentLocks b)\<rparr>))"

section \<open>Preferences\<close>

definition preferenceKey :: "string \<Rightarrow> string \<Rightarrow> string \<Rightarrow> string" where
  "preferenceKey collectionID userID key = collectionID @ NUL # userID @ NUL # key"

definition GetPreference :: "string \<Rightarrow> string \<Rightarrow> string \<Rightarrow> backend \<Rightarrow> preference outcome" where
  "GetPreference collectionID userID key b =
     (case map_of (bkPreferences b) (preferenceKey collectionID userID key) of
        None \<Rightarrow> (Inl ErrNotFound, b)
      | Some p \<Rightarrow> (Inr p, b))"

definition SetPreference :: "preference \<Rightarrow> time \<Rightarrow> backend \<Rightarrow> preference outcome" where
  "SetPreference p now b =
     (if \<not> activeDocument b (prfCollectionID p) (prfUserID p) then (Inl ErrNotFound, b)
      else let p = p\<lparr>prfUpdatedAt := now\<rparr> in
        (Inr p, b\<lparr>bkPreferences := put (preferenceKey (prfCollectionID p) (prfUserID p) (prfKey p)) p (bkPreferences b)\<rparr>))"

definition DeletePreference :: "string \<Rightarrow> string \<Rightarrow> string \<Rightarrow> backend \<Rightarrow> unit outcome" where
  "DeletePreference collectionID userID key b =
     (Inr (), b\<lparr>bkPreferences := del (preferenceKey collectionID userID key) (bkPreferences b)\<rparr>)"

definition DeletePreferences :: "string \<Rightarrow> string \<Rightarrow> backend \<Rightarrow> unit outcome" where
  "DeletePreferences collectionID userID b =
     (Inr (), b\<lparr>bkPreferences := filter (\<lambda>(key, _). \<not> has_prefix key (preferenceKey collectionID userID []))
        (bkPreferences b)\<rparr>)"

definition Ping :: "string option \<Rightarrow> string option" where "Ping ctx = ctx"
definition Ready :: "string option \<Rightarrow> string option" where "Ready ctx = ctx"

section \<open>Finding locks\<close>

interpretation document_locks: expiring_lookup
  "\<lambda>b. map_of (bkDocumentLocks b)" "\<lambda>lock now. dlkExpiresAt lock > now" lock_at
  by unfold_locales (auto simp: lock_at_def split: option.splits)

section \<open>Whose lock it is\<close>

text \<open>
  What others than the owner of \<open>lock\<close> do before it expires, short of taking it over:
  look locks up, ask for locks of their own, release their own, and change preferences.
\<close>

inductive others_step :: "document_lock \<Rightarrow> backend \<Rightarrow> backend \<Rightarrow> bool" for lock where
  others_find: "now < dlkExpiresAt lock \<Longrightarrow> others_step lock b (snd (FindDocumentLock c i now b))"
| others_acquire: "now < dlkExpiresAt lock \<Longrightarrow> \<not> same_owner lock candidate \<Longrightarrow>
    others_step lock b (snd (AcquireDocumentLock candidate now False b))"
| others_release: "dlkOwnerCollectionID lock \<noteq> oc \<or> dlkOwnerID lock \<noteq> oi \<Longrightarrow>
    others_step lock b (snd (ReleaseDocumentLock c i oc oi b))"
| others_set_preference: "others_step lock b (snd (SetPreference p now b))"
| others_delete_preference: "others_step lock b (snd (DeletePreference c i key b))"
| others_delete_preferences: "others_step lock b (snd (DeletePreferences c i b))"

lemma others_step_keep:
  assumes "others_step lock b b'" "map_of (bkDocumentLocks b) key = Some lock"
  shows "map_of (bkDocumentLocks b') key = Some lock"
  using assms
proof (induction rule: others_step.induct)
  case (others_find now b c i)
  then show ?case by (auto simp: FindDocumentLock_def lock_at_def split: option.splits)
next
  case (others_acquire now candidate b)
  then show ?case by (auto simp: AcquireDocumentLock_def Let_def split: option.splits)
next
  case (others_release oc oi b c i)
  then show ?case by (auto simp: ReleaseDocumentLock_def Let_def split: option.splits)
qed (simp_all add: SetPreference_def DeletePreference_def DeletePreferences_def Let_def)


definition blank_document :: "string \<Rightarrow> document" where
  "blank_document i = Document i 0 0 None [] 0 0 False [] None"

definition editing_store :: backend where
  "editing_store = New\<lparr>bkDocuments := [(''posts'', [(''p'', blank_document ''p'')]),
     (''users'', [(''a'', blank_document ''a''), (''b'', blank_document ''b'')])]\<rparr>"

definition editing_lock :: "string \<Rightarrow> document_lock" where
  "editing_lock user = \<lparr>dlkCollectionID = ''posts'', dlkDocumentID = ''p'', dlkOwnerCollectionID = ''users'',
     dlkOwnerID = user, dlkOwnerLabel = user, dlkCreatedAt = 1, dlkUpdatedAt = 1, dlkExpiresAt = 60\<rparr>"

definition editing_locked :: backend where
  "editing_locked = snd (AcquireDocumentLock (editing_lock ''a'') 1 False editing_store)"


end
