(* ===== verification/Query_Match.thy ===== *)
theory Query_Match
  imports Membership Localization
begin

text \<open>
  How the in-memory store evaluates a request against a document
  (\<open>internal/teststore/store.go\<close>): the values a path selects in one locale, the
  comparisons, filters and access predicates, the order of a list and the distinct
  values of a field. \<open>strings.ToLower\<close> and \<open>time.Parse(time.RFC3339Nano, _)\<close> are the
  parameters \<open>lower\<close> and \<open>parse\<close>; a \<open>time.Time\<close> compares as its instant.
\<close>

section \<open>Words\<close>

text \<open>\<open>strings.Fields\<close>.\<close>

function words_from :: "string \<Rightarrow> string \<Rightarrow> string list" where
  "words_from word s =
     (case s of
        [] \<Rightarrow> if word = [] then [] else [word]
      | c # r \<Rightarrow>
          (case strip_one space_encodings s of
             Some rest \<Rightarrow> (if word = [] then [] else [word]) @ words_from [] rest
           | None \<Rightarrow> words_from (word @ [c]) r))"
  by pat_completeness auto
termination
  by (relation "measure (\<lambda>(w, s). length s)") (auto dest: strip_one_shorter)

declare words_from.simps [simp del]

definition string_Fields :: "string \<Rightarrow> string list" where
  "string_Fields s = words_from [] s"

section \<open>One value and one operand\<close>

definition string_Compare :: "string \<Rightarrow> string \<Rightarrow> int" where
  "string_Compare a b = (if a < b then -1 else if b < a then 1 else 0)"

definition number_Compare :: "float64 \<Rightarrow> float64 \<Rightarrow> int" where
  "number_Compare a b = (if float_lt a b then -1 else if float_lt b a then 1 else 0)"

definition compareTimes :: "time \<Rightarrow> time \<Rightarrow> int" where
  "compareTimes a b = (if a < b then -1 else if a > b then 1 else 0)"

definition compareOrdered :: "svalue \<Rightarrow> qvalue \<Rightarrow> int option" where
  "compareOrdered actual expected =
     (case expected of
        VString right \<Rightarrow> map_option (\<lambda>left. string_Compare left right) (s_string actual)
      | VNumber right \<Rightarrow> map_option (\<lambda>left. number_Compare left right) (s_number actual)
      | _ \<Rightarrow> None)"

definition equalValue :: "svalue \<Rightarrow> svalue \<Rightarrow> bool" where
  "equalValue left right =
     (case (left, right) of
        (SNull, SNull) \<Rightarrow> True
      | (SString a, SString b) \<Rightarrow> a = b
      | (SNumber a, SNumber b) \<Rightarrow> float_eq a b
      | (SBoolean a, SBoolean b) \<Rightarrow> a = b
      | _ \<Rightarrow> False)"

definition ordered_test :: "operator \<Rightarrow> int \<Rightarrow> bool" where
  "ordered_test op comparison =
     (case op of
        OpGreaterThan \<Rightarrow> comparison > 0
      | OpGreaterThanEqual \<Rightarrow> comparison \<ge> 0
      | OpLessThan \<Rightarrow> comparison < 0
      | _ \<Rightarrow> comparison \<le> 0)"

text \<open>An absent value is \<^const>\<open>None\<close>: the source's zero \<open>Value\<close> with \<open>exists\<close> false.\<close>

definition equals_operand :: "svalue option \<Rightarrow> qvalue \<Rightarrow> bool" where
  "equals_operand actual expected =
     (case expected of
        VNull \<Rightarrow> (case actual of None \<Rightarrow> True | Some v \<Rightarrow> svalue_Kind v = KindNull)
      | VString text \<Rightarrow> (case actual of None \<Rightarrow> False | Some v \<Rightarrow> s_string v = Some text)
      | VNumber x \<Rightarrow>
          (case actual of None \<Rightarrow> False
             | Some v \<Rightarrow> (case s_number v of Some y \<Rightarrow> float_eq y x | None \<Rightarrow> False))
      | VBoolean b \<Rightarrow> (case actual of None \<Rightarrow> False | Some v \<Rightarrow> s_boolean v = Some b)
      | _ \<Rightarrow> False)"

definition is_present :: "svalue option \<Rightarrow> bool" where
  "is_present actual = (case actual of None \<Rightarrow> False | Some v \<Rightarrow> svalue_Kind v \<noteq> KindNull)"

definition wanted :: "qvalue \<Rightarrow> bool" where
  "wanted expected = (BooleanValue expected = Some True)"

function compare :: "(string \<Rightarrow> string) \<Rightarrow> svalue option \<Rightarrow> operator \<Rightarrow> qvalue \<Rightarrow> bool" where
  "compare lower actual op expected =
     (case op of
        OpExists \<Rightarrow> is_present actual = wanted expected
      | OpIn \<Rightarrow> list_ex (compare lower actual OpEqual) (value_Values expected)
      | OpContains \<Rightarrow>
          (case (StringValue expected, Option.bind actual s_string) of
             (Some text, Some actualText) \<Rightarrow> contains_text (lower actualText) (lower text)
           | _ \<Rightarrow> False)
      | OpLike \<Rightarrow>
          (case (StringValue expected, Option.bind actual s_string) of
             (Some text, Some actualText) \<Rightarrow>
               list_all (contains_text (lower actualText)) (string_Fields (lower text))
           | _ \<Rightarrow> False)
      | OpEqual \<Rightarrow> equals_operand actual expected
      | OpNotEqual \<Rightarrow> \<not> equals_operand actual expected
      | OpOther _ \<Rightarrow> equals_operand actual expected
      | _ \<Rightarrow>
          (case Option.bind actual (\<lambda>v. compareOrdered v expected) of
             None \<Rightarrow> False | Some c \<Rightarrow> ordered_test op c))"
  by pat_completeness auto
termination
  by (relation "measure (\<lambda>(l, a, op, e). if op = OpIn then 1 else 0)") auto

declare compare.simps [simp del]

function matchesTimestamp :: "(string \<Rightarrow> time option) \<Rightarrow> time \<Rightarrow> operator \<Rightarrow> qvalue \<Rightarrow> bool" where
  "matchesTimestamp parse actual op expected =
     (case op of
        OpExists \<Rightarrow> wanted expected
      | OpIn \<Rightarrow> list_ex (matchesTimestamp parse actual OpEqual) (value_Values expected)
      | _ \<Rightarrow>
          if value_Kind expected = ValueNull then op = OpNotEqual
          else case Option.bind (StringValue expected) parse of
            None \<Rightarrow> False
          | Some want \<Rightarrow>
              let comparison = compareTimes actual want in
              (case op of
                 OpEqual \<Rightarrow> comparison = 0
               | OpNotEqual \<Rightarrow> comparison \<noteq> 0
               | OpGreaterThan \<Rightarrow> comparison > 0
               | OpGreaterThanEqual \<Rightarrow> comparison \<ge> 0
               | OpLessThan \<Rightarrow> comparison < 0
               | OpLessThanEqual \<Rightarrow> comparison \<le> 0
               | _ \<Rightarrow> False))"
  by pat_completeness auto
termination
  by (relation "measure (\<lambda>(p, a, op, e). if op = OpIn then 1 else 0)") auto

declare matchesTimestamp.simps [simp del]

section \<open>What a path selects\<close>

definition documentTimestamp :: "document \<Rightarrow> path \<Rightarrow> time option" where
  "documentTimestamp d p =
     (if path_String p = ''createdAt'' then Some (docCreatedAt d)
      else if path_String p = ''updatedAt'' then Some (docUpdatedAt d)
      else None)"

definition system_value :: "document \<Rightarrow> string list \<Rightarrow> svalue option" where
  "system_value d segments =
     (if segments = [''_revision''] \<and> docRevision d > 0 then Some (SNumber (float64_of_int (docRevision d)))
      else if segments = [''id''] then Some (SString (docID d))
      else if segments = [''_status''] \<and> docStatus d \<noteq> [] then Some (SString (docStatus d))
      else None)"

text \<open>
  A step below an object that holds a block skips a segment that names the block's
  type; a list contributes the values of all its rows.
\<close>

definition skip_block :: "svalue \<Rightarrow> string list \<Rightarrow> string list" where
  "skip_block v segments =
     (case Lookup v ''blockType'' of
        None \<Rightarrow> segments
      | Some b \<Rightarrow> if segments \<noteq> [] \<and> (case s_string b of Some kind \<Rightarrow> kind | None \<Rightarrow> []) = hd segments
                  then tl segments else segments)"

lemma length_skip_block [termination_simp]: "length (skip_block v ss) \<le> length ss"
  by (cases ss) (auto simp: skip_block_def split: option.splits)

function (sequential) valuesBelow :: "svalue \<Rightarrow> string list \<Rightarrow> svalue list" where
  "valuesBelow (SObject m) segments =
     (case skip_block (SObject m) segments of
        [] \<Rightarrow> []
      | name # rest \<Rightarrow>
          (case Lookup (SObject m) name of
             None \<Rightarrow> []
           | Some child \<Rightarrow> if rest = [] then [child] else valuesBelow child rest))"
| "valuesBelow (SList t) segments = concat (map (\<lambda>x. valuesBelow x segments) (elements t))"
| "valuesBelow v segments = []"
  by pat_completeness auto
termination
proof (relation "measure (\<lambda>(v, ss). size v)", goal_cases)
  case (2 m ss s rest child)
  then have "(s, child) \<in> set m" by (auto dest: map_of_SomeD)
  then show ?case using size_member [of s child m] by simp
next
  case (3 t ss x)
  then show ?case using size_elements [of x t size] by simp
qed simp

definition valuesAtSegments :: "svalues \<Rightarrow> string list \<Rightarrow> svalue list" where
  "valuesAtSegments values segments =
     (case segments of
        [] \<Rightarrow> []
      | name # rest \<Rightarrow>
          (case map_of values name of
             None \<Rightarrow> []
           | Some v \<Rightarrow> if rest = [] then [v] else valuesBelow v rest))"

definition documentValues :: "document \<Rightarrow> string list \<Rightarrow> svalue list" where
  "documentValues d segments =
     (case system_value d segments of
        Some v \<Rightarrow> [v] | None \<Rightarrow> valuesAtSegments (docValues d) segments)"

fun value_at :: "svalue option \<Rightarrow> string list \<Rightarrow> svalue option" where
  "value_at v [] = v"
| "value_at v (s # ss) = (case v of None \<Rightarrow> None | Some x \<Rightarrow> value_at (Lookup x s) ss)"

definition documentValue :: "document \<Rightarrow> string list \<Rightarrow> svalue option" where
  "documentValue d segments =
     (case system_value d segments of
        Some v \<Rightarrow> Some v
      | None \<Rightarrow> (case segments of [] \<Rightarrow> None | s # ss \<Rightarrow> value_at (map_of (docValues d) s) ss))"

fun opaqueValueAt :: "svalue \<Rightarrow> string list \<Rightarrow> svalue option" where
  "opaqueValueAt v [] = Some v"
| "opaqueValueAt v (s # ss) = (case Lookup v s of None \<Rightarrow> None | Some child \<Rightarrow> opaqueValueAt child ss)"

definition is_opaque :: "field \<Rightarrow> bool" where
  "is_opaque f \<longleftrightarrow> fldType f = FieldTypeJSON \<or> fldType f = FieldTypePlugin \<and> \<not> embedded_HasFields f"

text \<open>The longest proper prefix that is an opaque field, with what remains below it.\<close>

fun opaque_prefix :: "field list \<Rightarrow> string list \<Rightarrow> nat \<Rightarrow> (string list \<times> string list) option" where
  "opaque_prefix fds segments 0 = None"
| "opaque_prefix fds segments (Suc n) =
     (case NewPath (take (Suc n) segments) of
        Inl _ \<Rightarrow> opaque_prefix fds segments n
      | Inr prefix \<Rightarrow>
          (case FieldAtPath fds prefix of
             None \<Rightarrow> opaque_prefix fds segments n
           | Some f \<Rightarrow> if is_opaque f then Some (prefix, drop (Suc n) segments)
                       else opaque_prefix fds segments n))"

definition visited_values :: "request \<Rightarrow> string \<Rightarrow> svalue \<Rightarrow> path \<Rightarrow> string list \<Rightarrow> svalue list" where
  "visited_values r name root prefix remainder =
     snd (VisitAtPath (colFields (reqCollection r)) [(name, root)] prefix
            \<lparr>lslAll = reqAllLocales r, lslChain = reqLocaleChain r\<rparr>
            (\<lambda>f v values. case opaqueValueAt v remainder of Some x \<Rightarrow> values @ [x] | None \<Rightarrow> values) [])"

definition queryDocumentValues :: "document \<Rightarrow> request \<Rightarrow> path \<Rightarrow> svalue list" where
  "queryDocumentValues d r p =
     (if p \<in> {[''id''], [''_status''], [''_revision'']} then documentValues d p
      else case p of
        [] \<Rightarrow> []
      | name # _ \<Rightarrow>
          (case map_of (docValues d) name of
             None \<Rightarrow> []
           | Some root \<Rightarrow>
               if FieldAtPath (colFields (reqCollection r)) p \<noteq> None then visited_values r name root p []
               else case opaque_prefix (colFields (reqCollection r)) p (length p - 1) of
                 None \<Rightarrow> []
               | Some (prefix, remainder) \<Rightarrow> visited_values r name root prefix remainder))"

section \<open>Filters\<close>

text \<open>What the store needs of Go's text and time packages.\<close>

record text_rules =
  txtLower :: "string \<Rightarrow> string"
  txtParse :: "string \<Rightarrow> time option"

definition comparison_holds :: "text_rules \<Rightarrow> document \<Rightarrow> (path \<Rightarrow> svalue list) \<Rightarrow> comparison \<Rightarrow> bool" where
  "comparison_holds tr d atPath c =
     (case documentTimestamp d (cmpPath c) of
        Some timestamp \<Rightarrow> matchesTimestamp (txtParse tr) timestamp (cmpOperator c) (cmpValue c)
      | None \<Rightarrow>
          let values = atPath (cmpPath c) in
          if cmpOperator c = OpExists
          then list_ex (\<lambda>v. svalue_Kind v \<noteq> KindNull) values = wanted (cmpValue c)
          else if values = [] then compare (txtLower tr) None (cmpOperator c) (cmpValue c)
          else if cmpOperator c = OpNotEqual
          then \<not> list_ex (\<lambda>v. compare (txtLower tr) (Some v) OpEqual (cmpValue c)) values
          else list_ex (\<lambda>v. compare (txtLower tr) (Some v) (cmpOperator c) (cmpValue c)) values)"

fun matchesWithValues :: "text_rules \<Rightarrow> document \<Rightarrow> node \<Rightarrow> (path \<Rightarrow> svalue list) \<Rightarrow> bool" where
  "matchesWithValues tr d (Node kind comparison children) atPath =
     (case kind of
        ExpressionComparison \<Rightarrow>
          (case comparison of None \<Rightarrow> False | Some c \<Rightarrow> comparison_holds tr d atPath c)
      | ExpressionAnd \<Rightarrow> list_all (\<lambda>child. matchesWithValues tr d child atPath) children
      | ExpressionOr \<Rightarrow> list_ex (\<lambda>child. matchesWithValues tr d child atPath) children
      | ExpressionNot \<Rightarrow>
          (case children of [child] \<Rightarrow> \<not> matchesWithValues tr d child atPath | _ \<Rightarrow> False)
      | ExpressionOther _ \<Rightarrow> False)"

definition matches :: "text_rules \<Rightarrow> document \<Rightarrow> node \<Rightarrow> bool" where
  "matches tr d n = matchesWithValues tr d n (documentValues d)"

definition membership_comparison :: "field list \<Rightarrow> expression_kind \<Rightarrow> comparison option \<Rightarrow> comparison option" where
  "membership_comparison fds kind comparison =
     (case comparison of
        None \<Rightarrow> None
      | Some c \<Rightarrow>
          if kind = ExpressionComparison \<and> cmpOperator c = OpIn
             \<and> (case FieldAtPath fds (cmpPath c) of None \<Rightarrow> False | Some f \<Rightarrow> KindOf f \<noteq> KindNone)
          then Some c else None)"

fun matchesPrimitiveQuery ::
  "text_rules \<Rightarrow> document \<Rightarrow> field list \<Rightarrow> node \<Rightarrow> (path \<Rightarrow> svalue list) \<Rightarrow> bool" where
  "matchesPrimitiveQuery tr d fds (Node kind comparison children) values =
     (case membership_comparison fds kind comparison of
        Some c \<Rightarrow> list_ex (\<lambda>v. Matches v (cmpValue c)) (values (cmpPath c))
      | None \<Rightarrow>
          (case kind of
             ExpressionAnd \<Rightarrow> list_all (\<lambda>child. matchesPrimitiveQuery tr d fds child values) children
           | ExpressionOr \<Rightarrow> list_ex (\<lambda>child. matchesPrimitiveQuery tr d fds child values) children
           | ExpressionNot \<Rightarrow>
               (case children of
                  [child] \<Rightarrow> \<not> matchesPrimitiveQuery tr d fds child values | _ \<Rightarrow> False)
           | _ \<Rightarrow> matchesWithValues tr d (Node kind comparison children) values))"

text \<open>
  One node of \<open>matchesAll\<close>; its cache answers what \<^const>\<open>queryDocumentValues\<close> answers.
\<close>

definition matches_node :: "text_rules \<Rightarrow> document \<Rightarrow> request \<Rightarrow> node option \<Rightarrow> bool" where
  "matches_node tr d r n =
     (case n of
        None \<Rightarrow> True
      | Some n \<Rightarrow> matchesPrimitiveQuery tr d (colFields (reqCollection r)) n (queryDocumentValues d r))"

definition matchesAll :: "text_rules \<Rightarrow> document \<Rightarrow> request \<Rightarrow> node option list \<Rightarrow> bool" where
  "matchesAll tr d r ns = list_all (matches_node tr d r) ns"

definition matchesRequest :: "text_rules \<Rightarrow> document \<Rightarrow> request \<Rightarrow> bool" where
  "matchesRequest tr d r \<longleftrightarrow>
     matchesAll tr d (r\<lparr>reqAllLocales := False\<rparr>) [reqFilter r]
     \<and> (if reqAccess r = None then True
        else if \<not> reqAllLocales r \<or> reqLocales r = [] then matchesAll tr d r [reqAccess r]
        else list_all (\<lambda>l. matchesAll tr d (r\<lparr>reqAllLocales := False, reqLocaleChain := [l]\<rparr>) [reqAccess r])
               (reqLocales r))"

definition matchesDeletion :: "document \<Rightarrow> deletion_mode \<Rightarrow> bool" where
  "matchesDeletion d mode =
     (case mode of
        DeletionAll \<Rightarrow> True
      | DeletionTrash \<Rightarrow> docDeletedAt d \<noteq> None
      | DeletionActive \<Rightarrow> docDeletedAt d = None)"

definition localizedForRequest :: "document \<Rightarrow> request \<Rightarrow> document" where
  "localizedForRequest d r =
     ProjectDocument d (colFields (reqCollection r))
       (no_selection\<lparr>slnConfigured := reqLocales r, slnChain := reqLocaleChain r, slnAll := reqAllLocales r,
          slnLocale := (if reqLocaleChain r = [] then [] else hd (reqLocaleChain r))\<rparr>)"

section \<open>Order\<close>

definition stableSort :: "sort_term list \<Rightarrow> sort_term list" where
  "stableSort sorts =
     (if list_ex (\<lambda>t. path_String (srtPath t) = ''id'') sorts then sorts
      else sorts @ [\<lparr>srtPath = [''id''], srtDirection = Ascending\<rparr>])"

definition compare_values :: "svalue option \<Rightarrow> svalue option \<Rightarrow> int" where
  "compare_values left right =
     (case (Option.bind left s_number, Option.bind right s_number) of
        (Some a, Some b) \<Rightarrow> number_Compare a b
      | _ \<Rightarrow>
          (case Option.bind left s_boolean of
             Some a \<Rightarrow>
               (case Option.bind right s_boolean of
                  Some b \<Rightarrow> if a \<noteq> b then (if a then 1 else -1) else 0
                | None \<Rightarrow> 0)
           | None \<Rightarrow>
               string_Compare (case Option.bind left s_string of Some s \<Rightarrow> s | None \<Rightarrow> [])
                 (case Option.bind right s_string of Some s \<Rightarrow> s | None \<Rightarrow> [])))"

definition compare_term :: "document \<Rightarrow> document \<Rightarrow> sort_term \<Rightarrow> int" where
  "compare_term left right t =
     (let comparison =
        (case documentTimestamp left (srtPath t) of
           Some leftTime \<Rightarrow>
             compareTimes leftTime (case documentTimestamp right (srtPath t) of Some u \<Rightarrow> u | None \<Rightarrow> zero_time)
         | None \<Rightarrow> compare_values (documentValue left (srtPath t)) (documentValue right (srtPath t)))
      in if srtDirection t = Descending then - comparison else comparison)"

fun compareDocuments :: "document \<Rightarrow> document \<Rightarrow> sort_term list \<Rightarrow> int" where
  "compareDocuments left right [] = 0"
| "compareDocuments left right (t # ts) =
     (let c = compare_term left right t in if c \<noteq> 0 then c else compareDocuments left right ts)"

text \<open>
  \<open>sort.SliceStable\<close> of a comparison that is a strict weak order.
\<close>

fun insert_stable :: "('a \<Rightarrow> 'a \<Rightarrow> bool) \<Rightarrow> 'a \<Rightarrow> 'a list \<Rightarrow> 'a list" where
  "insert_stable before x [] = [x]"
| "insert_stable before x (y # ys) = (if before y x then y # insert_stable before x ys else x # y # ys)"

fun stable_sort :: "('a \<Rightarrow> 'a \<Rightarrow> bool) \<Rightarrow> 'a list \<Rightarrow> 'a list" where
  "stable_sort before [] = []"
| "stable_sort before (x # xs) = insert_stable before x (stable_sort before xs)"

definition sorted_documents :: "request \<Rightarrow> document list \<Rightarrow> document list" where
  "sorted_documents r ds =
     stable_sort (\<lambda>left right.
       compareDocuments (localizedForRequest left (r\<lparr>reqAllLocales := False\<rparr>))
         (localizedForRequest right (r\<lparr>reqAllLocales := False\<rparr>)) (stableSort (reqSort r)) < 0) ds"

section \<open>Distinct values\<close>

datatype distinct_key = DistinctNull | DistinctString string | DistinctNumber float64 | DistinctBoolean bool

text \<open>
  \<open>distinctValueKey\<close> as a value rather than text: \<open>strconv.FormatFloat(_, 'g', -1, 64)\<close> tells
  two numbers apart exactly when they differ as numbers, all NaNs being alike.
\<close>

definition distinctValueKey :: "svalue \<Rightarrow> svalue_kind + distinct_key" where
  "distinctValueKey v =
     (case v of
        SNull \<Rightarrow> Inr DistinctNull
      | SString s \<Rightarrow> Inr (DistinctString s)
      | SNumber x \<Rightarrow>
          Inr (DistinctNumber (if float_eq x 0 then 0 else if IsNaN x then 0x7FF8000000000001 else x))
      | SBoolean b \<Rightarrow> Inr (DistinctBoolean b)
      | _ \<Rightarrow> Inl (svalue_Kind v))"

definition compareDistinctValues :: "svalue \<Rightarrow> svalue \<Rightarrow> int" where
  "compareDistinctValues left right =
     (if svalue_Kind left = KindNull then (if svalue_Kind right = KindNull then 0 else -1)
      else if svalue_Kind right = KindNull then 1
      else case s_number left of
        Some a \<Rightarrow> number_Compare a (case s_number right of Some b \<Rightarrow> b | None \<Rightarrow> 0)
      | None \<Rightarrow>
          (case s_boolean left of
             Some a \<Rightarrow> (let b = (s_boolean right = Some True) in if a = b then 0 else if a then 1 else -1)
           | None \<Rightarrow>
               string_Compare (case s_string left of Some s \<Rightarrow> s | None \<Rightarrow> [])
                 (case s_string right of Some s \<Rightarrow> s | None \<Rightarrow> [])))"

end
