(* ===== verification/Uniqueness.thy ===== *)
theory Uniqueness
  imports Query_Match Backend
begin

text \<open>
  The uniqueness rules of the in-memory store (\<open>internal/teststore/store.go\<close>): unique
  fields, localized unique fields, the identity of an authentication collection and
  compound unique indexes. Values that are absent or null never conflict.
\<close>

section \<open>Single fields\<close>

definition uniqueFieldValuesEqual :: "collection \<Rightarrow> field \<Rightarrow> svalue \<Rightarrow> svalue \<Rightarrow> bool" where
  "uniqueFieldValuesEqual c f left right =
     (if colAuthIdentityField c = Some (fldName f)
      then (case (s_string left, s_string right) of (Some a, Some b) \<Rightarrow> a = b | _ \<Rightarrow> False)
      else equalValue left right)"

text \<open>The names an object has entries for; each entry is read by its name.\<close>

definition entry_names :: "svalue \<Rightarrow> string list" where
  "entry_names v = map fst (s_entries v)"

definition localizedValuesConflict :: "svalue \<Rightarrow> svalue \<Rightarrow> bool" where
  "localizedValuesConflict left right =
     (if svalue_Kind left \<noteq> KindObject \<or> svalue_Kind right \<noteq> KindObject then equalValue left right
      else list_ex (\<lambda>locale.
             let rightValue = Get right locale in
             svalue_Kind rightValue \<noteq> KindNull
             \<and> (case Lookup left locale of
                  None \<Rightarrow> False
                | Some leftValue \<Rightarrow> svalue_Kind leftValue \<noteq> KindNull \<and> equalValue leftValue rightValue))
           (entry_names right))"

definition field_conflict :: "collection \<Rightarrow> field \<Rightarrow> svalue \<Rightarrow> document \<Rightarrow> bool" where
  "field_conflict c f candidateValue d =
     (case map_of (docValues d) (fldName f) of
        None \<Rightarrow> False
      | Some v \<Rightarrow> if fldLocalized f then localizedValuesConflict v candidateValue
                  else uniqueFieldValuesEqual c f v candidateValue)"

definition others :: "documents \<Rightarrow> string \<Rightarrow> document list" where
  "others documents except = map snd (filter (\<lambda>(i, d). i \<noteq> except \<and> docDeletedAt d = None) documents)"

definition unique_field_conflict :: "documents \<Rightarrow> collection \<Rightarrow> document \<Rightarrow> string \<Rightarrow> field \<Rightarrow> bool" where
  "unique_field_conflict documents c candidate except f =
     (fldUnique f
      \<and> (case map_of (docValues candidate) (fldName f) of
           None \<Rightarrow> False
         | Some v \<Rightarrow> svalue_Kind v \<noteq> KindNull \<and> list_ex (field_conflict c f v) (others documents except)))"

section \<open>Compound indexes\<close>

fun indexedFieldChain :: "field list \<Rightarrow> string list \<Rightarrow> field list" where
  "indexedFieldChain fs [] = []"
| "indexedFieldChain fs (s # ss) =
     (case find (\<lambda>f. fldName f = s) fs of
        None \<Rightarrow> []
      | Some candidate \<Rightarrow>
          if ss = [] then [candidate]
          else (case fldNested candidate of
              None \<Rightarrow> [] | Some nested \<Rightarrow> candidate # indexedFieldChain nested ss))"

definition indexedChainLocalized :: "field list \<Rightarrow> bool" where
  "indexedChainLocalized chain = list_ex fldLocalized chain"

text \<open>The locales that occur in the values of a chain of fields, most of them once.\<close>

fun collectIndexedLocaleValue :: "svalue \<Rightarrow> field list \<Rightarrow> string list" where
  "collectIndexedLocaleValue v [] = []"
| "collectIndexedLocaleValue v (f # chain) =
     (if svalue_Kind v = KindNull then []
      else if fldLocalized f then
        concat (map (\<lambda>locale. locale #
            (case chain of
               [] \<Rightarrow> [] | g # _ \<Rightarrow> collectIndexedLocaleValue (Get (Get v locale) (fldName g)) chain))
          (entry_names v))
      else (case chain of [] \<Rightarrow> [] | g # _ \<Rightarrow> collectIndexedLocaleValue (Get v (fldName g)) chain))"

definition collectIndexedLocales :: "svalues \<Rightarrow> field list \<Rightarrow> string list" where
  "collectIndexedLocales values chain =
     (case chain of
        [] \<Rightarrow> []
      | f # _ \<Rightarrow>
          collectIndexedLocaleValue (case map_of values (fldName f) of Some v \<Rightarrow> v | None \<Rightarrow> SInvalid) chain)"

fun indexed_below :: "svalue option \<Rightarrow> string \<Rightarrow> field list \<Rightarrow> svalue option" where
  "indexed_below v locale [] = v"
| "indexed_below v locale (f # chain) =
     (case v of
        None \<Rightarrow> None
      | Some x \<Rightarrow>
          (case Lookup x (fldName f) of
             None \<Rightarrow> None
           | Some y \<Rightarrow>
               indexed_below (if fldLocalized f then Lookup y locale else Some y) locale chain))"

definition indexedValue :: "svalues \<Rightarrow> field list \<Rightarrow> string \<Rightarrow> svalue option" where
  "indexedValue values chain locale =
     (case chain of [] \<Rightarrow> None | _ \<Rightarrow> indexed_below (Some (SObject values)) locale chain)"

fun indexedTuple :: "document \<Rightarrow> field list list \<Rightarrow> string \<Rightarrow> svalue list option" where
  "indexedTuple d [] locale = Some []"
| "indexedTuple d (chain # fs) locale =
     (case indexedValue (docValues d) chain locale of
        None \<Rightarrow> None
      | Some v \<Rightarrow>
          if svalue_Kind v = KindNull then None
          else map_option (\<lambda>tuple. v # tuple) (indexedTuple d fs locale))"

definition tuples_equal :: "svalue list \<Rightarrow> svalue list \<Rightarrow> bool" where
  "tuples_equal left right = list_all (\<lambda>(a, b). equalValue a b) (zip left right)"

definition index_chains :: "collection \<Rightarrow> collection_index \<Rightarrow> field list list" where
  "index_chains c index = map (indexedFieldChain (colFields c)) (cixFields index)"

definition index_locales :: "collection \<Rightarrow> collection_index \<Rightarrow> svalues \<Rightarrow> string list" where
  "index_locales c index values =
     concat (map (collectIndexedLocales values) (index_chains c index))
     @ (if list_ex indexedChainLocalized (index_chains c index) then [] else [[]])"

definition tuple_conflict :: "field list list \<Rightarrow> string \<Rightarrow> document \<Rightarrow> document \<Rightarrow> bool" where
  "tuple_conflict parts locale candidate d =
     (case (indexedTuple candidate parts locale, indexedTuple d parts locale) of
        (Some candidateTuple, Some tuple) \<Rightarrow> tuples_equal tuple candidateTuple
      | _ \<Rightarrow> False)"

definition index_conflict :: "documents \<Rightarrow> collection \<Rightarrow> document \<Rightarrow> string \<Rightarrow> collection_index \<Rightarrow> bool" where
  "index_conflict documents c candidate except index =
     (cixUnique index
      \<and> list_ex (\<lambda>locale.
            list_ex (tuple_conflict (index_chains c index) locale candidate) (others documents except))
          (index_locales c index (docValues candidate)))"

definition compoundUniqueConflict :: "documents \<Rightarrow> collection \<Rightarrow> document \<Rightarrow> string \<Rightarrow> bool" where
  "compoundUniqueConflict documents c candidate except =
     list_ex (index_conflict documents c candidate except) (colIndexes c)"

definition uniqueConflict :: "documents \<Rightarrow> collection \<Rightarrow> document \<Rightarrow> string \<Rightarrow> bool" where
  "uniqueConflict documents c candidate except \<longleftrightarrow>
     list_ex (unique_field_conflict documents c candidate except) (colFields c)
     \<or> compoundUniqueConflict documents c candidate except"

end
