(* ===== verification/Transactions.thy ===== *)
theory Transactions
  imports Uniqueness Task_Store Auth_Store
begin

text \<open>
  The transactions of the in-memory store (\<open>internal/teststore/store.go\<close>, \<open>Begin\<close> and the
  \<open>transaction\<close> type): what one holds, how it begins, is refused once it is done or when it
  only reads, commits and rolls back. A transaction reads and writes the copies it took
  of the documents, published heads, versions and index entries; passwords, credentials,
  dismissed tasks and cleaned-up documents are gathered and applied by the commit. The nil
  inner map a first access replaces by an empty one reads the same and is left out.
\<close>

datatype tx_error =
    TxContext string | TxCompleted | TxReadOnly
  | TxStore store_error
  | TxMembership membership_error
  | TxDocumentID document_id_error
  | TxReference embedded_error
  | TxReferenceDelete reference_error
  | TxCurrent locked_current_error
  | TxStaleCurrent string
  | TxDraftIntent | TxIntentRequired | TxUnsupportedIntent string | TxUnversionedIntent
  | TxInvalidTask task_invalid
  | TxDistinct distinct_error | TxDistinctKind svalue_kind
  | TxWindow window_error
  | TxPopulation population_error
  | TxReferenceTarget | TxIgnoredOwner string
  | TxRestricted "(string \<times> string) list"
  | TxInconsistentIndex string
  | TxDocumentState
  | TxUploadKeys nat | TxUploadKeyEmpty | TxUploadKeyTwice string | TxNotUpload string
  | TxSelectionLimit

record transaction =
  txDocuments :: "(string, documents) gomap"
  txPublished :: "(string, documents) gomap"
  txVersions :: "(string, (string, version list) gomap) gomap"
  txReferences :: "(string, entry) gomap"
  txPasswords :: "(string, string) gomap"
  txCredentials :: "(string, auth_credential) gomap"
  txCredentialUpdates :: "(string, auth_credential) gomap"
  txDeletedState :: "document_reference list"
  txDismissedTasks :: "(string, task) gomap"
  txDone :: bool
  txReadOnly :: bool
  txAuthBootstrapLocked :: bool

text \<open>A method's answer, the transaction it leaves and the store it leaves.\<close>

type_synonym 'a tx_outcome = "(tx_error + 'a) \<times> transaction \<times> backend"

section \<open>Copies\<close>

definition cloneCollections :: "(string, documents) gomap \<Rightarrow> (string, documents) gomap" where
  "cloneCollections source = map (\<lambda>(c, ds). (c, map (\<lambda>(i, d). (i, CloneDocument d)) ds)) source"

definition cloneVersion :: "version \<Rightarrow> version" where
  "cloneVersion v = v\<lparr>vrsSnapshot := CloneDocument (vrsSnapshot v)\<rparr>"

definition cloneVersions ::
  "(string, (string, version list) gomap) gomap \<Rightarrow> (string, (string, version list) gomap) gomap" where
  "cloneVersions source = map (\<lambda>(c, ds). (c, map (\<lambda>(i, vs). (i, map cloneVersion vs)) ds)) source"

definition cloneReferenceEntries :: "(string, entry) gomap \<Rightarrow> (string, entry) gomap" where
  "cloneReferenceEntries source = source"

section \<open>Beginning\<close>

definition add_event :: "string \<Rightarrow> backend \<Rightarrow> backend" where
  "add_event name b = b\<lparr>bkEvents := bkEvents b @ [name]\<rparr>"

definition begun :: "backend \<Rightarrow> transaction" where
  "begun b =
     \<lparr>txDocuments = cloneCollections (bkDocuments b), txPublished = cloneCollections (bkPublished b),
      txVersions = cloneVersions (bkVersions b), txReferences = cloneReferenceEntries (bkReferences b),
      txPasswords = [], txCredentials = [], txCredentialUpdates = [], txDeletedState = [],
      txDismissedTasks = [], txDone = False, txReadOnly = False, txAuthBootstrapLocked = False\<rparr>"

definition Begin :: "string option \<Rightarrow> backend \<Rightarrow> transaction outcome" where
  "Begin ctx b = guarded ctx b (Inr (begun b), add_event ''begin'' b)"

definition BeginSnapshot :: "string option \<Rightarrow> backend \<Rightarrow> transaction outcome" where
  "BeginSnapshot ctx b =
     (case Begin ctx b of
        (Inl e, b') \<Rightarrow> (Inl e, b')
      | (Inr started, b') \<Rightarrow> (Inr (started\<lparr>txReadOnly := True\<rparr>), b'))"

section \<open>Guards\<close>

definition ready :: "string option \<Rightarrow> transaction \<Rightarrow> tx_error option" where
  "ready ctx tx =
     (case ctx of Some e \<Rightarrow> Some (TxContext e) | None \<Rightarrow> if txDone tx then Some TxCompleted else None)"

definition writable :: "string option \<Rightarrow> transaction \<Rightarrow> tx_error option" where
  "writable ctx tx =
     (case ready ctx tx of
        Some e \<Rightarrow> Some e | None \<Rightarrow> if txReadOnly tx then Some TxReadOnly else None)"

lemma writable_None [simp]: "writable ctx tx = None \<longleftrightarrow> ctx = None \<and> \<not> txDone tx \<and> \<not> txReadOnly tx"
  by (auto simp: writable_def ready_def split: option.splits)

lemma ready_None [simp]: "ready ctx tx = None \<longleftrightarrow> ctx = None \<and> \<not> txDone tx"
  by (auto simp: ready_def split: option.splits)

section \<open>The transaction's collections\<close>

definition tx_collection :: "transaction \<Rightarrow> string \<Rightarrow> documents" where
  "tx_collection tx i = (case map_of (txDocuments tx) i of Some m \<Rightarrow> m | None \<Rightarrow> [])"

definition publishedCollection :: "transaction \<Rightarrow> string \<Rightarrow> documents" where
  "publishedCollection tx i = (case map_of (txPublished tx) i of Some m \<Rightarrow> m | None \<Rightarrow> [])"

definition selectedCollection :: "transaction \<Rightarrow> collection \<Rightarrow> bool \<Rightarrow> documents" where
  "selectedCollection tx c publishedOnly =
     (if publishedOnly \<and> colVersions c \<noteq> None then publishedCollection tx (colID c)
      else tx_collection tx (colID c))"

definition put_document :: "string \<Rightarrow> string \<Rightarrow> document \<Rightarrow> transaction \<Rightarrow> transaction" where
  "put_document c i d tx = tx\<lparr>txDocuments := put c (put i d (tx_collection tx c)) (txDocuments tx)\<rparr>"

definition put_published :: "string \<Rightarrow> string \<Rightarrow> document \<Rightarrow> transaction \<Rightarrow> transaction" where
  "put_published c i d tx = tx\<lparr>txPublished := put c (put i d (publishedCollection tx c)) (txPublished tx)\<rparr>"

definition delete_document :: "string \<Rightarrow> string \<Rightarrow> transaction \<Rightarrow> transaction" where
  "delete_document c i tx = tx\<lparr>txDocuments := put c (del i (tx_collection tx c)) (txDocuments tx)\<rparr>"

definition delete_published :: "string \<Rightarrow> string \<Rightarrow> transaction \<Rightarrow> transaction" where
  "delete_published c i tx = tx\<lparr>txPublished := put c (del i (publishedCollection tx c)) (txPublished tx)\<rparr>"

lemma collection_put [simp]:
  "tx_collection (put_document c i d tx) c' = (if c' = c then put i d (tx_collection tx c) else tx_collection tx c')"
  "tx_collection (delete_document c i tx) c' = (if c' = c then del i (tx_collection tx c) else tx_collection tx c')"
  "tx_collection (put_published c i d tx) c' = tx_collection tx c'"
  "tx_collection (delete_published c i tx) c' = tx_collection tx c'"
  by (simp_all add: tx_collection_def put_document_def delete_document_def put_published_def delete_published_def)

lemma published_put [simp]:
  "publishedCollection (put_published c i d tx) c' =
     (if c' = c then put i d (publishedCollection tx c) else publishedCollection tx c')"
  "publishedCollection (delete_published c i tx) c' =
     (if c' = c then del i (publishedCollection tx c) else publishedCollection tx c')"
  "publishedCollection (put_document c i d tx) c' = publishedCollection tx c'"
  "publishedCollection (delete_document c i tx) c' = publishedCollection tx c'"
  by (simp_all add: publishedCollection_def put_document_def delete_document_def put_published_def delete_published_def)

section \<open>Authentication and tasks\<close>

text \<open>\<open>cloneTask\<close> is the task itself.\<close>

definition tx_DismissTaskForTarget ::
  "string option \<Rightarrow> string \<Rightarrow> string \<Rightarrow> document_reference \<Rightarrow> transaction \<Rightarrow> backend \<Rightarrow> unit tx_outcome" where
  "tx_DismissTaskForTarget ctx i slug target tx b =
     (case writable ctx tx of
        Some e \<Rightarrow> (Inl e, tx, b)
      | None \<Rightarrow>
          (case ValidateTaskList \<lparr>lstSlug = slug, lstTarget = Some target, lstStates = [], lstLimit = 1\<rparr> of
             Some e \<Rightarrow> (Inl (TxInvalidTask e), tx, b)
           | None \<Rightarrow>
               (case map_of (bkTasks b) i of
                  None \<Rightarrow> (Inl (TxStore ErrNotFound), tx, b)
                | Some t \<Rightarrow>
                    if taskSlug t \<noteq> slug \<or> taskTarget t \<noteq> Some target \<or> \<not> dismissibleTaskState (taskState t)
                    then (Inl (TxStore ErrNotFound), tx, b)
                    else (Inr (), tx\<lparr>txDismissedTasks := put i t (txDismissedTasks tx)\<rparr>, b))))"

definition tx_createAuthCredential ::
  "collection \<Rightarrow> string \<Rightarrow> string \<Rightarrow> bool \<Rightarrow> transaction \<Rightarrow> backend \<Rightarrow> unit tx_outcome" where
  "tx_createAuthCredential c userID hash initiallyVerified tx b =
     (let key = auth_key (colID c) userID in
      if map_of (tx_collection tx (colID c)) userID = None then (Inl (TxStore ErrNotFound), tx, b)
      else if mem_key (txPasswords tx) key then (Inl (TxStore ErrConflict), tx, b)
      else (Inr (),
        tx\<lparr>txPasswords := put key hash (txPasswords tx),
           txCredentials := put key (zero_credential\<lparr>crdVerified := initiallyVerified\<rparr>) (txCredentials tx)\<rparr>,
        add_event ''create-auth-credential'' b))"

definition CreateAuthCredential ::
  "string option \<Rightarrow> collection \<Rightarrow> string \<Rightarrow> string \<Rightarrow> bool \<Rightarrow> transaction \<Rightarrow> backend \<Rightarrow> unit tx_outcome" where
  "CreateAuthCredential ctx c userID hash initiallyVerified tx b =
     (case writable ctx tx of
        Some e \<Rightarrow> (Inl e, tx, b)
      | None \<Rightarrow> tx_createAuthCredential c userID hash initiallyVerified tx b)"

definition active_documents :: "documents \<Rightarrow> document list" where
  "active_documents documents = filter (\<lambda>d. docDeletedAt d = None) (map snd documents)"

text \<open>\<^const>\<open>None\<close>: the call waits for the transaction that holds the bootstrap mutex.\<close>

definition CreateFirstAuthCredential ::
  "string option \<Rightarrow> collection \<Rightarrow> string \<Rightarrow> string \<Rightarrow> bool \<Rightarrow> transaction \<Rightarrow> backend \<Rightarrow> unit tx_outcome option" where
  "CreateFirstAuthCredential ctx c userID hash initiallyVerified tx b =
     (case writable ctx tx of
        Some e \<Rightarrow> Some (Inl e, tx, b)
      | None \<Rightarrow>
          if \<not> txAuthBootstrapLocked tx \<and> bkAuthBootstrapHeld b then None
          else let tx = tx\<lparr>txAuthBootstrapLocked := True\<rparr>; b = b\<lparr>bkAuthBootstrapHeld := True\<rparr>;
                   stored = (case map_of (bkDocuments b) (colID c) of Some m \<Rightarrow> m | None \<Rightarrow> []);
                   active = active_documents (tx_collection tx (colID c)) in
            if active_documents stored \<noteq> [] then Some (Inl (TxStore ErrAuthInitialized), tx, b)
            else if list_ex (\<lambda>d. docID d \<noteq> userID) active then Some (Inl (TxStore ErrAuthInitialized), tx, b)
            else if length active \<noteq> 1 then Some (Inl (TxStore ErrAuthInitialized), tx, b)
            else Some (tx_createAuthCredential c userID hash initiallyVerified tx b))"

definition ForceUnlockAuth ::
  "string option \<Rightarrow> string \<Rightarrow> string \<Rightarrow> transaction \<Rightarrow> backend \<Rightarrow> unit tx_outcome" where
  "ForceUnlockAuth ctx collectionID userID tx b =
     (case writable ctx tx of
        Some e \<Rightarrow> (Inl e, tx, b)
      | None \<Rightarrow>
          let key = auth_key collectionID userID in
          if \<not> mem_key (bkCredentials b) key \<and> \<not> mem_key (bkPasswords b) key
          then (Inl (TxStore ErrNotFound), tx, b)
          else let credential = (case map_of (bkCredentials b) key of Some c \<Rightarrow> c | None \<Rightarrow> zero_credential) in
            (Inr (), tx\<lparr>txCredentialUpdates := put key (clear_lock credential) (txCredentialUpdates tx)\<rparr>,
             add_event ''force-unlock-auth'' b))"

definition DeleteDocumentState ::
  "string option \<Rightarrow> document_reference \<Rightarrow> transaction \<Rightarrow> backend \<Rightarrow> unit tx_outcome" where
  "DeleteDocumentState ctx r tx b =
     (case writable ctx tx of
        Some e \<Rightarrow> (Inl e, tx, b)
      | None \<Rightarrow>
          if refCollectionID r = [] \<or> refDocumentID r = [] then (Inl TxDocumentState, tx, b)
          else let key = auth_key (refCollectionID r) (refDocumentID r) in
            (Inr (),
             tx\<lparr>txVersions := (case map_of (txVersions tx) (refCollectionID r) of
                    None \<Rightarrow> txVersions tx
                  | Some byDocument \<Rightarrow> put (refCollectionID r) (del (refDocumentID r) byDocument) (txVersions tx)),
                txPasswords := del key (txPasswords tx),
                txCredentials := del key (txCredentials tx),
                txDeletedState := List.insert r (txDeletedState tx)\<rparr>,
             add_event ''delete-document-state'' b))"

section \<open>Commit and rollback\<close>

definition releaseAuthBootstrap :: "transaction \<Rightarrow> backend \<Rightarrow> transaction \<times> backend" where
  "releaseAuthBootstrap tx b =
     (if \<not> txAuthBootstrapLocked tx then (tx, b)
      else (tx\<lparr>txAuthBootstrapLocked := False\<rparr>, b\<lparr>bkAuthBootstrapHeld := False\<rparr>))"

definition released :: "'a tx_outcome \<Rightarrow> 'a tx_outcome" where
  "released outcome = (case outcome of (r, tx, b) \<Rightarrow> (r, releaseAuthBootstrap tx b))"

definition deletesAuthKey :: "transaction \<Rightarrow> string \<Rightarrow> bool" where
  "deletesAuthKey tx key =
     list_ex (\<lambda>r. auth_key (refCollectionID r) (refDocumentID r) = key) (txDeletedState tx)"

definition deleteDocumentState :: "document_reference \<Rightarrow> backend \<Rightarrow> backend" where
  "deleteDocumentState r b =
     (let c = refCollectionID r; i = refDocumentID r; key = auth_key c i in
      b\<lparr>bkPasswords := del key (bkPasswords b),
        bkCredentials := del key (bkCredentials b),
        bkSessions := filter (\<lambda>(_, s). \<not> (sesCollectionID s = c \<and> sesUserID s = i)) (bkSessions b),
        bkAuthTokens := filter (\<lambda>(_, t). \<not> (tokCollectionID t = c \<and> tokUserID t = i)) (bkAuthTokens b),
        bkApiKeys := filter (\<lambda>(_, k). \<not> (keyCollectionID k = c \<and> keyUserID k = i)) (bkApiKeys b),
        bkTasks := filter (\<lambda>(_, t). \<not> (taskTarget t = Some r \<or> taskRequestedBy t = Some r)) (bkTasks b),
        bkPreferences := filter (\<lambda>(_, p). \<not> (prfCollectionID p = c \<and> prfUserID p = i)) (bkPreferences b),
        bkDocumentLocks := filter (\<lambda>(_, l).
            \<not> (dlkCollectionID l = c \<and> dlkDocumentID l = i \<or> dlkOwnerCollectionID l = c \<and> dlkOwnerID l = i))
          (bkDocumentLocks b)\<rparr>)"

definition task_unchanged :: "backend \<Rightarrow> string \<times> task \<Rightarrow> bool" where
  "task_unchanged b p =
     (case p of (i, expected) \<Rightarrow>
        (case map_of (bkTasks b) i of
           None \<Rightarrow> False
         | Some current \<Rightarrow>
             taskSlug current = taskSlug expected \<and> taskState current = taskState expected
             \<and> taskLeaseToken current = taskLeaseToken expected
             \<and> taskTarget current \<noteq> None \<and> taskTarget current = taskTarget expected))"

definition commit_conflict :: "transaction \<Rightarrow> backend \<Rightarrow> store_error option" where
  "commit_conflict tx b =
     (if list_ex (\<lambda>(key, _). mem_key (bkPasswords b) key \<and> \<not> deletesAuthKey tx key) (txPasswords tx)
      then Some ErrConflict
      else if list_ex (\<lambda>(key, _). \<not> mem_key (bkPasswords b) key) (txCredentialUpdates tx) then Some ErrNotFound
      else if \<not> list_all (task_unchanged b) (txDismissedTasks tx) then Some ErrConflict
      else None)"

definition install_documents :: "transaction \<Rightarrow> backend \<Rightarrow> backend" where
  "install_documents tx b =
     b\<lparr>bkDocuments := cloneCollections (txDocuments tx), bkPublished := cloneCollections (txPublished tx),
       bkVersions := cloneVersions (txVersions tx), bkReferences := cloneReferenceEntries (txReferences tx)\<rparr>"

definition install_credentials :: "transaction \<Rightarrow> backend \<Rightarrow> backend" where
  "install_credentials tx b =
     (let b1 = fold (\<lambda>(key, hash) b.
            b\<lparr>bkPasswords := put key hash (bkPasswords b),
              bkCredentials := put key
                (case map_of (txCredentials tx) key of Some c \<Rightarrow> c | None \<Rightarrow> zero_credential) (bkCredentials b)\<rparr>)
          (txPasswords tx) b in
      b1\<lparr>bkCredentials := fold (\<lambda>(key, c) m. put key c m) (txCredentialUpdates tx) (bkCredentials b1)\<rparr>)"

definition committed :: "transaction \<Rightarrow> backend \<Rightarrow> backend" where
  "committed tx b =
     (let b1 = install_credentials tx (fold deleteDocumentState (txDeletedState tx) (install_documents tx b)) in
      add_event ''commit'' (b1\<lparr>bkTasks := fold (\<lambda>(i, _) m. del i m) (txDismissedTasks tx) (bkTasks b1)\<rparr>))"

definition Commit :: "string option \<Rightarrow> transaction \<Rightarrow> backend \<Rightarrow> unit tx_outcome" where
  "Commit ctx tx b = released
     (case ready ctx tx of
        Some e \<Rightarrow> (Inl e, tx, b)
      | None \<Rightarrow>
          if txReadOnly tx then (Inr (), tx\<lparr>txDone := True\<rparr>, add_event ''commit'' b)
          else case commit_conflict tx b of
            Some e \<Rightarrow> (Inl (TxStore e), tx, b)
          | None \<Rightarrow> (Inr (), tx\<lparr>txDone := True\<rparr>, committed tx b))"

definition Rollback :: "transaction \<Rightarrow> backend \<Rightarrow> unit tx_outcome" where
  "Rollback tx b = released
     (if txDone tx then (Inl TxCompleted, tx, b)
      else (Inr (), tx\<lparr>txDone := True\<rparr>, add_event ''rollback'' b))"

end
