(* ===== verification/Locale_Merge.thy ===== *)
theory Locale_Merge
  imports Localization
begin

text \<open>
  The merge of a storage patch into the stored values of a document and the localized
  values a copy to another locale takes along (\<open>internal/localization/localization.go\<close>,
  \<open>embedded.go\<close>). A merge answers the value to store and whether it differs from the
  patch; two shortcuts recognise a patch that repeats what is stored.
\<close>

section \<open>Patches that change nothing\<close>

text \<open>
  The part of \<open>unchangedValuePatch\<close> that reads no field: \<^const>\<open>None\<close> for the kinds it
  leaves to the field.
\<close>

definition unchanged_scalar :: "svalue \<Rightarrow> svalue \<Rightarrow> bool option" where
  "unchanged_scalar current patch =
     (if svalue_Kind current \<noteq> svalue_Kind patch then Some False
      else case patch of
        SNull \<Rightarrow> Some True
      | SString _ \<Rightarrow> Some (current = patch)
      | SNumber _ \<Rightarrow> Some (current = patch)
      | SBoolean _ \<Rightarrow> Some (current = patch)
      | _ \<Rightarrow> None)"

definition object_entries :: "svalue \<Rightarrow> (string \<times> svalue) list" where
  "object_entries v = (case v of SObject m \<Rightarrow> m | _ \<Rightarrow> [])"

lemma object_entries_simps [simp]: "object_entries (SObject m) = m"
  by (simp add: object_entries_def)

text \<open>
  The first loop of \<open>unchangedObjectPatch\<close>: every submitted member exists and is either
  an object in both or an equal scalar. A zero field leaves every other kind unequal.
\<close>

definition same_members :: "svalue \<Rightarrow> svalue \<Rightarrow> bool" where
  "same_members current patch =
     list_all (\<lambda>(name, v).
         case Lookup current name of
           None \<Rightarrow> False
         | Some previous \<Rightarrow>
             if svalue_Kind v = KindObject then svalue_Kind previous = KindObject
             else unchanged_scalar previous v = Some True)
       (object_entries patch)"

definition pending_objects :: "svalue \<Rightarrow> nat" where
  "pending_objects patch = length (filter (\<lambda>(name, v). svalue_Kind v = KindObject) (object_entries patch))"

text \<open>The schema pass over compound members, which stops when none is pending.\<close>

fun compound_members ::
  "(field \<Rightarrow> svalue \<Rightarrow> svalue \<Rightarrow> bool \<times> bool) \<Rightarrow> svalue \<Rightarrow> svalue \<Rightarrow> field list \<Rightarrow> nat \<Rightarrow> bool \<Rightarrow> bool \<times> bool" where
  "compound_members unchanged current patch [] pending complete = (False, False)"
| "compound_members unchanged current patch (f # fs) pending complete =
     (case Lookup patch (fldName f) of
        None \<Rightarrow> compound_members unchanged current patch fs pending complete
      | Some v \<Rightarrow>
          if svalue_Kind v \<noteq> KindObject then compound_members unchanged current patch fs pending complete
          else
            (case unchanged f (case Lookup current (fldName f) of Some previous \<Rightarrow> previous | None \<Rightarrow> SInvalid) v of
               (same, childComplete) \<Rightarrow>
                 if \<not> same then (False, False)
                 else if pending - 1 = 0 then (True, complete \<and> childComplete)
                 else compound_members unchanged current patch fs (pending - 1) (complete \<and> childComplete)))"

lemma compound_members_cong [fundef_cong]:
  assumes "v = w" "x = y" "fs = gs" "n = m" "b = c" "\<And>f v w. f \<in> set gs \<Longrightarrow> t f v w = u f v w"
  shows "compound_members t v x fs n b = compound_members u w y gs m c"
  unfolding assms(1-5) using assms(6)
  by (induction gs arbitrary: m c) (auto split: option.splits prod.splits)

definition object_members_unchanged ::
  "(field \<Rightarrow> svalue \<Rightarrow> svalue \<Rightarrow> bool \<times> bool) \<Rightarrow> field list \<Rightarrow> svalue \<Rightarrow> svalue \<Rightarrow> bool \<times> bool" where
  "object_members_unchanged unchanged fs current patch =
     (if svalue_Kind current \<noteq> KindObject \<or> svalue_Kind patch \<noteq> KindObject then (False, False)
      else if \<not> same_members current patch then (False, False)
      else if pending_objects patch = 0 then (True, Len current = Len patch)
      else compound_members unchanged current patch fs (pending_objects patch) (Len current = Len patch))"

lemma object_members_unchanged_cong [fundef_cong]:
  assumes "fs = gs" "v = w" "x = y" "\<And>f v w. f \<in> set gs \<Longrightarrow> t f v w = u f v w"
  shows "object_members_unchanged t fs v x = object_members_unchanged u gs w y"
  unfolding object_members_unchanged_def assms(1-3)
  by (simp add: compound_members_cong [OF refl refl refl refl refl assms(4)])

fun locales_unchanged ::
  "(svalue \<Rightarrow> svalue \<Rightarrow> bool \<times> bool) \<Rightarrow> svalue \<Rightarrow> (string \<times> svalue) list \<Rightarrow> bool \<Rightarrow> bool \<times> bool" where
  "locales_unchanged unchanged current [] complete = (True, complete)"
| "locales_unchanged unchanged current ((locale, v) # r) complete =
     (case Lookup current locale of
        None \<Rightarrow> (False, False)
      | Some previous \<Rightarrow>
          (case unchanged previous v of
             (same, childComplete) \<Rightarrow>
               if \<not> same then (False, False)
               else locales_unchanged unchanged current r (complete \<and> childComplete)))"

lemma locales_unchanged_cong [fundef_cong]:
  assumes "v = w" "ps = qs" "b = c" "\<And>x y. t x y = u x y"
  shows "locales_unchanged t v ps b = locales_unchanged u w qs c"
proof -
  from assms(4) have "t = u" by blast
  with assms show ?thesis by simp
qed

function unchangedValuePatch :: "field \<Rightarrow> svalue \<Rightarrow> svalue \<Rightarrow> bool \<times> bool" where
  "unchangedValuePatch f current patch =
     (case unchanged_scalar current patch of
        Some same \<Rightarrow> (same, svalue_Kind current = svalue_Kind patch)
      | None \<Rightarrow>
          if fldLocalized f \<and> svalue_Kind patch = KindObject then
            locales_unchanged (unchangedValuePatch (unlocalized f)) current (object_entries patch)
              (Len current = Len patch)
          else if fldType f = FieldTypeGroup \<and> \<not> embedded_HasFields f then
            (case fldNested f of
               Some fs \<Rightarrow> object_members_unchanged unchangedValuePatch fs current patch
             | None \<Rightarrow> (False, False))
          else (False, False))"
  by pat_completeness auto
termination
  by (relation "measure (\<lambda>(f, c, p). 2 * size f + (if fldLocalized f then 1 else 0))")
    (auto dest!: size_nested size_list_mem)

declare unchangedValuePatch.simps [simp del]

definition unchangedObjectPatch :: "field list \<Rightarrow> svalue \<Rightarrow> svalue \<Rightarrow> bool \<times> bool" where
  "unchangedObjectPatch fs current patch = object_members_unchanged unchangedValuePatch fs current patch"

section \<open>Merging\<close>

definition omittedMembers :: "svalue \<Rightarrow> svalue \<Rightarrow> svalues option" where
  "omittedMembers current patch =
     (let omitted = filter (\<lambda>(name, v). Lookup patch name = None) (object_entries current) in
      if omitted = [] then None
      else Some (fold (\<lambda>(name, v) merged. put name v merged) omitted (fst (CopyObject patch))))"

definition merged_or :: "svalue \<Rightarrow> svalues option \<Rightarrow> svalue \<times> bool" where
  "merged_or patch merged = (case merged of None \<Rightarrow> (patch, False) | Some m \<Rightarrow> (ObjectOf m, True))"

definition merge_member ::
  "svalue \<Rightarrow> string \<Rightarrow> svalue \<times> bool \<Rightarrow> svalues option \<Rightarrow> svalues option" where
  "merge_member patch name r merged =
     (case r of (next, changed) \<Rightarrow>
        if changed then Some (put name next (case merged of Some m \<Rightarrow> m | None \<Rightarrow> fst (CopyObject patch)))
        else merged)"

definition rows_by_key :: "svalue \<Rightarrow> (string, svalue) gomap" where
  "rows_by_key current =
     (case current of
        SList t \<Rightarrow>
          fold (\<lambda>row byKey. case Get row ''_key'' of
                 SString key \<Rightarrow> if key \<noteq> [] then put key row byKey else byKey
               | _ \<Rightarrow> byKey) (elements t) []
      | _ \<Rightarrow> [])"

definition previous_row :: "(string, svalue) gomap \<Rightarrow> svalue \<Rightarrow> svalue" where
  "previous_row byKey row =
     (case map_of byKey (case Get row ''_key'' of SString key \<Rightarrow> key | _ \<Rightarrow> []) of
        Some previous \<Rightarrow> previous | None \<Rightarrow> SInvalid)"

text \<open>The payloads of the stored envelope, by the identity of a keyed occurrence.\<close>

definition stored_payloads :: "field \<Rightarrow> svalue \<Rightarrow> embedded_error option \<times> (string \<Rightarrow> svalue option)" where
  "stored_payloads f current =
     (case Visit f current (fldName f)
        (\<lambda>occ (b, previous). (None, (b,
           if roKey occ \<noteq> [] then previous(roIdentity occ := Some (roPayload occ)) else previous)))
        (NewBudget, Map.empty) of
        (e, (b, previous)) \<Rightarrow> (e, previous))"

function mergeValue :: "field \<Rightarrow> svalue \<Rightarrow> svalue \<Rightarrow> svalue \<times> bool"
  and mergeObjectValue :: "field list \<Rightarrow> svalue \<Rightarrow> svalue \<Rightarrow> svalue \<times> bool"
  and mergeRows :: "field \<Rightarrow> svalue \<Rightarrow> svalue \<Rightarrow> svalue \<times> bool" where
  "mergeValue f current patch =
     (if fldLocalized f then
        (if svalue_Kind patch \<noteq> KindObject then (patch, False)
         else case unchangedValuePatch f current patch of
             (True, complete) \<Rightarrow> if complete then (patch, False) else (current, True)
           | (False, _) \<Rightarrow>
               merged_or patch (fold (\<lambda>(locale, v) merged.
                   merge_member patch locale
                     (mergeValue (unlocalized f)
                        (case Lookup current locale of Some previous \<Rightarrow> previous | None \<Rightarrow> SInvalid) v) merged)
                 (object_entries patch) (omittedMembers current patch)))
      else if embedded_HasFields f then
        (case stored_payloads f current of
           (Some e, _) \<Rightarrow> (patch, False)
         | (None, previous) \<Rightarrow>
             (case TransformValue f patch (fldName f)
                (\<lambda>occ (b, changed).
                   case previous (roIdentity occ) of
                     None \<Rightarrow> (Inr (roPayload occ, False), (b, changed))
                   | Some old \<Rightarrow>
                       (case mergeObjectValue (roFields occ) old (roPayload occ) of
                          (merged, updated) \<Rightarrow> (Inr (merged, updated), (b, changed \<or> updated))))
                (NewBudget, False) of
                (Inl e, _) \<Rightarrow> (patch, False)
              | (Inr transformed, (b, changed)) \<Rightarrow> (transformed, changed)))
      else if fldType f = FieldTypeGroup then
        (case fldNested f of Some fs \<Rightarrow> mergeObjectValue fs current patch | None \<Rightarrow> (patch, False))
      else if fldType f = FieldTypeArray \<or> fldType f = FieldTypeBlocks then mergeRows f current patch
      else (patch, False))"
| "mergeObjectValue fs current patch =
     (if svalue_Kind current \<noteq> KindObject \<or> svalue_Kind patch \<noteq> KindObject then (patch, False)
      else case unchangedObjectPatch fs current patch of
          (True, complete) \<Rightarrow> if complete then (patch, False) else (current, True)
        | (False, _) \<Rightarrow>
            merged_or patch (fold (\<lambda>f merged.
                case Lookup patch (fldName f) of
                  None \<Rightarrow> merged
                | Some v \<Rightarrow> merge_member patch (fldName f) (mergeValue f (Get current (fldName f)) v) merged)
              fs (omittedMembers current patch)))"
| "mergeRows f current patch =
     (if svalue_Kind current \<noteq> KindList \<or> svalue_Kind patch \<noteq> KindList then (patch, False)
      else let byKey = rows_by_key current in
        fst (mapList patch (\<lambda>row visited.
              (if svalue_Kind row \<noteq> KindObject then (row, False)
               else mergeObjectValue (row_fields f row) (previous_row byKey row) row, visited + 1)) (0::nat)))"
  by pat_completeness auto
termination
  by (relation "measure (\<lambda>x. case x of
        Inl (f, c, p) \<Rightarrow> 4 * size f + (if fldLocalized f then 3 else 2)
      | Inr (Inl (fs, c, p)) \<Rightarrow> 4 * size_list size fs
      | Inr (Inr (f, c, p)) \<Rightarrow> 4 * size f + 1)")
    (auto dest!: size_nested size_list_mem occurs_in_size intro!: less_SucI mult_strict_left_mono)

declare mergeValue.simps [simp del] mergeObjectValue.simps [simp del] mergeRows.simps [simp del]

fun merge_roots :: "field list \<Rightarrow> svalues \<Rightarrow> svalues \<Rightarrow> svalues" where
  "merge_roots [] patch result = result"
| "merge_roots (f # fs) patch result =
     (case map_of patch (fldName f) of
        None \<Rightarrow> merge_roots fs patch result
      | Some v \<Rightarrow>
          merge_roots fs patch (put (fldName f)
            (fst (mergeValue f (case map_of result (fldName f) of Some previous \<Rightarrow> previous | None \<Rightarrow> SInvalid) v))
            result))"

definition MergeStoragePatch :: "field list \<Rightarrow> svalues \<Rightarrow> svalues \<Rightarrow> svalues" where
  "MergeStoragePatch fs current patch = merge_roots fs patch (CloneValues current)"

definition merged_structure :: "field \<Rightarrow> bool" where
  "merged_structure f \<longleftrightarrow>
     fldLocalized f \<or> fldType f = FieldTypeGroup \<or> fldType f = FieldTypeArray \<or> fldType f = FieldTypeBlocks
     \<or> embedded_HasFields f"

fun update_roots :: "field list \<Rightarrow> svalues \<Rightarrow> svalues \<Rightarrow> svalues \<Rightarrow> svalues" where
  "update_roots [] current patch result = result"
| "update_roots (f # fs) current patch result =
     (case map_of patch (fldName f) of
        None \<Rightarrow> update_roots fs current patch result
      | Some v \<Rightarrow>
          update_roots fs current patch
            (if merged_structure f then
               put (fldName f)
                 (fst (mergeValue f (case map_of current (fldName f) of Some previous \<Rightarrow> previous | None \<Rightarrow> SInvalid) v))
                 result
             else result))"

definition MergeStorageUpdate :: "field list \<Rightarrow> svalues \<Rightarrow> svalues \<Rightarrow> svalues" where
  "MergeStorageUpdate fs current patch = update_roots fs current patch (CloneValues patch)"

text \<open>Both values are validated against one budget before a checked merge.\<close>

definition validateMerge :: "field list \<Rightarrow> svalues \<Rightarrow> svalues \<Rightarrow> embedded_error option" where
  "validateMerge fs current patch =
     (case validate_members fs (map_of current) [] True NewBudget of
        (Some e, b) \<Rightarrow> Some e
      | (None, b) \<Rightarrow> fst (validate_members fs (map_of patch) [] True b))"

definition MergeStoragePatchChecked :: "field list \<Rightarrow> svalues \<Rightarrow> svalues \<Rightarrow> embedded_error + svalues" where
  "MergeStoragePatchChecked fs current patch =
     (case validateMerge fs current patch of
        Some e \<Rightarrow> Inl e | None \<Rightarrow> Inr (MergeStoragePatch fs current patch))"

definition MergeStorageUpdateChecked :: "field list \<Rightarrow> svalues \<Rightarrow> svalues \<Rightarrow> embedded_error + svalues" where
  "MergeStorageUpdateChecked fs current patch =
     (case validateMerge fs current patch of
        Some e \<Rightarrow> Inl e | None \<Rightarrow> Inr (MergeStorageUpdate fs current patch))"

section \<open>Copying a locale\<close>

definition copyReserved :: "svalue \<Rightarrow> svalues \<Rightarrow> string \<Rightarrow> svalues" where
  "copyReserved source target name =
     (case Lookup source name of Some v \<Rightarrow> put name v target | None \<Rightarrow> target)"

definition object_rows :: "svalue \<Rightarrow> svalue list" where
  "object_rows v = (case v of SList t \<Rightarrow> filter (\<lambda>x. svalue_Kind x = KindObject) (elements t) | _ \<Rightarrow> [])"

definition any_localized_block :: "block_type list \<Rightarrow> bool" where
  "any_localized_block blocks = list_ex (\<lambda>b. fieldsHaveLocalization (bltFields b)) blocks"

function localizedValue :: "field \<Rightarrow> svalue \<Rightarrow> svalue option"
  and localizedValues :: "field list \<Rightarrow> (string \<Rightarrow> svalue option) \<Rightarrow> svalues" where
  "localizedValue f v =
     (if fldLocalized f then Some v
      else if embedded_HasFields f then
        (if \<not> hasLocalizedDescendant f then None
         else case TransformValue f v (fldName f)
             (\<lambda>occ st. (Inr (ObjectOf (copyReserved (roPayload occ) (copyReserved (roPayload occ)
                   (localizedValues (roFields occ) (Lookup (roPayload occ))) (ecIdentity (roCase occ)))
                   (ecDiscriminator (roCase occ))), True), st)) (NewBudget, False) of
           (Inl e, _) \<Rightarrow> None | (Inr transformed, _) \<Rightarrow> Some transformed)
      else (case fldType f of
        FieldTypeGroup \<Rightarrow>
          (case fldNested f of
             Some fs \<Rightarrow>
               if svalue_Kind v \<noteq> KindObject then None
               else let children = localizedValues fs (Lookup v) in
                 if length children > 0 then Some (ObjectOf children) else None
           | None \<Rightarrow> None)
      | FieldTypeArray \<Rightarrow>
          (case fldNested f of
             Some fs \<Rightarrow>
               if svalue_Kind v \<noteq> KindList \<or> \<not> fieldsHaveLocalization fs then None
               else Some (ListOf (map (\<lambda>x. ObjectOf (copyReserved x (localizedValues fs (Lookup x)) ''_key''))
                      (object_rows v)))
           | None \<Rightarrow> None)
      | FieldTypeBlocks \<Rightarrow>
          (case fldBlocks f of
             Some blocks \<Rightarrow>
               if svalue_Kind v \<noteq> KindList \<or> \<not> any_localized_block blocks then None
               else Some (ListOf (map (\<lambda>x.
                      ObjectOf (copyReserved x (copyReserved x
                        (localizedValues (row_fields f x) (Lookup x)) ''_key'') ''blockType''))
                    (object_rows v)))
           | None \<Rightarrow> None)
      | _ \<Rightarrow> None))"
| "localizedValues fs lookup =
     fold (\<lambda>f result.
         case lookup (fldName f) of
           None \<Rightarrow> result
         | Some v \<Rightarrow>
             (case localizedValue f v of Some localized \<Rightarrow> put (fldName f) localized result | None \<Rightarrow> result))
       fs []"
  by pat_completeness auto
termination
  by (relation "measure (\<lambda>x. case x of Inl (f, v) \<Rightarrow> size f | Inr (fs, l) \<Rightarrow> size_list size fs)")
    (auto dest!: size_nested size_list_mem occurs_in_size)

declare localizedValue.simps [simp del] localizedValues.simps [simp del]

definition LocalizedValues :: "field list \<Rightarrow> svalues \<Rightarrow> svalues" where
  "LocalizedValues fs values = localizedValues fs (map_of values)"

definition LocalizedValuesChecked :: "field list \<Rightarrow> svalues \<Rightarrow> embedded_error + svalues" where
  "LocalizedValuesChecked fs values =
     (case fst (validate_members fs (map_of values) [] False NewBudget) of
        Some e \<Rightarrow> Inl e | None \<Rightarrow> Inr (LocalizedValues fs values))"

section \<open>Copies that could not be matched\<close>

text \<open>A duplicate names the row that had the key first; message texts are not modelled.\<close>

datatype locale_issue =
  MissingRowKey string | DuplicateRowKey string string nat | EnvelopeIssue embedded_error

fun row_issues ::
  "string \<Rightarrow> nat \<Rightarrow> (string, nat) gomap \<Rightarrow> svalue list \<Rightarrow> locale_issue list" where
  "row_issues path i seen [] = []"
| "row_issues path i seen (row # rows) =
     (if svalue_Kind row \<noteq> KindObject then row_issues path (i + 1) seen rows
      else let keyPath = path @ CHR ''.'' # nat_dec i @ ''._key'' in
        (case Get row ''_key'' of
           SString key \<Rightarrow>
             if trim_space key = [] then MissingRowKey keyPath # row_issues path (i + 1) seen rows
             else (case map_of seen key of
                 Some first \<Rightarrow> DuplicateRowKey keyPath key first # row_issues path (i + 1) seen rows
               | None \<Rightarrow> row_issues path (i + 1) (put key i seen) rows)
         | _ \<Rightarrow> MissingRowKey keyPath # row_issues path (i + 1) seen rows))"

definition copyLocaleRowIssues :: "svalue \<Rightarrow> string \<Rightarrow> locale_issue list" where
  "copyLocaleRowIssues rows path = row_issues path 0 [] (case rows of SList t \<Rightarrow> elements t | _ \<Rightarrow> [])"

fun each_row :: "(svalue \<Rightarrow> string \<Rightarrow> 'i list) \<Rightarrow> string \<Rightarrow> nat \<Rightarrow> svalue list \<Rightarrow> 'i list" where
  "each_row issues path i [] = []"
| "each_row issues path i (row # rows) =
     (if svalue_Kind row = KindObject then issues row (path @ CHR ''.'' # nat_dec i) else [])
     @ each_row issues path (i + 1) rows"

lemma each_row_cong [fundef_cong]:
  assumes "p = q" "i = j" "xs = ys" "\<And>x r. x \<in> set ys \<Longrightarrow> t x r = u x r"
  shows "each_row t p i xs = each_row u q j ys"
  unfolding assms(1-3) using assms(4) by (induction ys arbitrary: j) auto

definition issue_path :: "string \<Rightarrow> string \<Rightarrow> string" where
  "issue_path prefix name = (if prefix \<noteq> [] then prefix @ CHR ''.'' # name else name)"

function copyLocaleIssues :: "field list \<Rightarrow> (string \<Rightarrow> svalue option) \<Rightarrow> string \<Rightarrow> locale_issue list"
  and copy_issues :: "field \<Rightarrow> svalue \<Rightarrow> string \<Rightarrow> locale_issue list" where
  "copyLocaleIssues fs lookup prefix =
     concat (map (\<lambda>f.
         if fldLocalized f then []
         else case lookup (fldName f) of
             None \<Rightarrow> [] | Some v \<Rightarrow> copy_issues f v (issue_path prefix (fldName f))) fs)"
| "copy_issues f v path =
     (if embedded_HasFields f then
        (case Visit f v path
            (\<lambda>occ (b, issues). (None, (b, issues
                @ (if fieldsHaveLocalization (roFields occ) \<and> roKey occ = []
                   then [MissingRowKey (roRuntimePath occ @ CHR ''.'' # ecIdentity (roCase occ))] else [])
                @ copyLocaleIssues (roFields occ) (Lookup (roPayload occ)) (roRuntimePath occ))))
            (NewBudget, []) of
           (e, (b, issues)) \<Rightarrow> issues @ (case e of Some problem \<Rightarrow> [EnvelopeIssue problem] | None \<Rightarrow> []))
      else (case fldType f of
        FieldTypeGroup \<Rightarrow>
          (case fldNested f of
             Some fs \<Rightarrow> if svalue_Kind v = KindObject then copyLocaleIssues fs (Lookup v) path else []
           | None \<Rightarrow> [])
      | FieldTypeArray \<Rightarrow>
          (case fldNested f of
             Some fs \<Rightarrow>
               if svalue_Kind v \<noteq> KindList \<or> \<not> fieldsHaveLocalization fs then []
               else copyLocaleRowIssues v path
                    @ each_row (\<lambda>row rowPath. copyLocaleIssues fs (Lookup row) rowPath) path 0
                        (case v of SList t \<Rightarrow> elements t | _ \<Rightarrow> [])
           | None \<Rightarrow> [])
      | FieldTypeBlocks \<Rightarrow>
          (case fldBlocks f of
             Some blocks \<Rightarrow>
               if svalue_Kind v \<noteq> KindList \<or> \<not> any_localized_block blocks then []
               else copyLocaleRowIssues v path
                    @ each_row (\<lambda>row rowPath. copyLocaleIssues (row_fields f row) (Lookup row) rowPath) path 0
                        (case v of SList t \<Rightarrow> elements t | _ \<Rightarrow> [])
           | None \<Rightarrow> [])
      | _ \<Rightarrow> []))"
  by pat_completeness auto
termination
  by (relation "measure (\<lambda>x. case x of Inl (fs, l, p) \<Rightarrow> size_list size fs | Inr (f, v, p) \<Rightarrow> size f)")
    (auto dest!: size_nested size_list_mem occurs_in_size)

declare copyLocaleIssues.simps [simp del] copy_issues.simps [simp del]

definition CopyLocaleIssues :: "field list \<Rightarrow> svalues \<Rightarrow> locale_issue list" where
  "CopyLocaleIssues fs values = copyLocaleIssues fs (map_of values) []"

end
