(* ===== verification/Document_Writes.thy ===== *)
theory Document_Writes
  imports Transactions Locale_Merge Value_JSON
begin

text \<open>
  The writes of a transaction of the in-memory store (\<open>internal/teststore/store.go\<close>): create,
  update with its publication intents, versions, delete, trash and restore, and the
  clearing of references when their target is deleted. A write keeps the index of references
  in step with the working and published heads. The instant \<open>now\<close> is the store's clock; the
  rules of text and of JSON numbers are parameters. A write that fails leaves the events and
  identifiers it used, as the code does.
\<close>

section \<open>Documents\<close>

definition set_values :: "svalues \<Rightarrow> document \<Rightarrow> document" where
  "set_values vs d =
     (case d of Document i ca ua da st rv prv hc _ ls \<Rightarrow> Document i ca ua da st rv prv hc vs ls)"

definition set_heads :: "string \<Rightarrow> int \<Rightarrow> bool \<Rightarrow> document \<Rightarrow> document" where
  "set_heads st prv hc d =
     (case d of Document i ca ua da _ rv _ _ vs ls \<Rightarrow> Document i ca ua da st rv prv hc vs ls)"

definition set_deletion :: "time option \<Rightarrow> time \<Rightarrow> document \<Rightarrow> document" where
  "set_deletion da ua d =
     (case d of Document i ca _ _ st rv prv hc vs ls \<Rightarrow> Document i ca ua da st rv prv hc vs ls)"

definition set_revision :: "int \<Rightarrow> time \<Rightarrow> document \<Rightarrow> document" where
  "set_revision rv ua d =
     (case d of Document i ca _ da st _ prv hc vs ls \<Rightarrow> Document i ca ua da st rv prv hc vs ls)"

lemma set_values_sel [simp]:
  "docID (set_values vs d) = docID d" "docValues (set_values vs d) = vs"
  "docStatus (set_values vs d) = docStatus d" "docRevision (set_values vs d) = docRevision d"
  "docPublishedRevision (set_values vs d) = docPublishedRevision d" "docHasDraftChanges (set_values vs d) = docHasDraftChanges d"
  "docDeletedAt (set_values vs d) = docDeletedAt d" "docCreatedAt (set_values vs d) = docCreatedAt d"
  "docUpdatedAt (set_values vs d) = docUpdatedAt d"
  by (cases d; simp add: set_values_def)+

lemma set_heads_sel [simp]:
  "docID (set_heads st prv hc d) = docID d" "docValues (set_heads st prv hc d) = docValues d"
  "docStatus (set_heads st prv hc d) = st" "docRevision (set_heads st prv hc d) = docRevision d"
  "docPublishedRevision (set_heads st prv hc d) = prv" "docHasDraftChanges (set_heads st prv hc d) = hc"
  "docDeletedAt (set_heads st prv hc d) = docDeletedAt d" "docCreatedAt (set_heads st prv hc d) = docCreatedAt d"
  "docUpdatedAt (set_heads st prv hc d) = docUpdatedAt d"
  by (cases d; simp add: set_heads_def)+

lemma set_deletion_sel [simp]:
  "docID (set_deletion da ua d) = docID d" "docValues (set_deletion da ua d) = docValues d"
  "docStatus (set_deletion da ua d) = docStatus d" "docRevision (set_deletion da ua d) = docRevision d"
  "docPublishedRevision (set_deletion da ua d) = docPublishedRevision d"
  "docHasDraftChanges (set_deletion da ua d) = docHasDraftChanges d"
  "docDeletedAt (set_deletion da ua d) = da" "docCreatedAt (set_deletion da ua d) = docCreatedAt d"
  "docUpdatedAt (set_deletion da ua d) = ua"
  by (cases d; simp add: set_deletion_def)+

lemma set_revision_sel [simp]:
  "docID (set_revision rv ua d) = docID d" "docValues (set_revision rv ua d) = docValues d"
  "docStatus (set_revision rv ua d) = docStatus d" "docRevision (set_revision rv ua d) = rv"
  "docPublishedRevision (set_revision rv ua d) = docPublishedRevision d"
  "docHasDraftChanges (set_revision rv ua d) = docHasDraftChanges d"
  "docDeletedAt (set_revision rv ua d) = docDeletedAt d" "docCreatedAt (set_revision rv ua d) = docCreatedAt d"
  "docUpdatedAt (set_revision rv ua d) = ua"
  by (cases d; simp add: set_revision_def)+

lemma CloneDocument_sel [simp]:
  "docID (CloneDocument d) = docID d" "docValues (CloneDocument d) = CloneValues (docValues d)"
  "docStatus (CloneDocument d) = docStatus d" "docRevision (CloneDocument d) = docRevision d"
  "docPublishedRevision (CloneDocument d) = docPublishedRevision d"
  "docHasDraftChanges (CloneDocument d) = docHasDraftChanges d"
  "docDeletedAt (CloneDocument d) = docDeletedAt d" "docCreatedAt (CloneDocument d) = docCreatedAt d"
  "docUpdatedAt (CloneDocument d) = docUpdatedAt d"
  by (cases d; simp)+

definition publishedProjection :: "document \<Rightarrow> document" where
  "publishedProjection d = set_heads StatusPublished 0 False (CloneDocument d)"

definition testAuthoringProjection :: "document \<Rightarrow> collection \<Rightarrow> document" where
  "testAuthoringProjection d c =
     (let projected = CloneDocument d in
      case colVersions c of
        Some v \<Rightarrow> if \<not> verDrafts v then set_heads (docStatus projected) 0 False projected else projected
      | None \<Rightarrow> projected)"

definition CanonicalAuthIdentity :: "text_rules \<Rightarrow> string \<Rightarrow> string" where
  "CanonicalAuthIdentity tr s = txtLower tr (trim_space s)"

definition canonicalizeTestAuthIdentity :: "text_rules \<Rightarrow> collection \<Rightarrow> svalues \<Rightarrow> svalues" where
  "canonicalizeTestAuthIdentity tr c values =
     (case colAuthIdentityField c of
        None \<Rightarrow> values
      | Some name \<Rightarrow>
          (case map_of values name of
             Some (SString s) \<Rightarrow> put name (SString (CanonicalAuthIdentity tr s)) values
           | _ \<Rightarrow> values))"

definition versioned_revision :: "collection \<Rightarrow> bool" where
  "versioned_revision c \<longleftrightarrow> colVersions c \<noteq> None \<or> colUpload c"

section \<open>The index of references\<close>

definition pad9 :: "nat \<Rightarrow> string" where
  "pad9 n = replicate (9 - length (nat_dec n)) CHR ''0'' @ nat_dec n"

definition referenceEntryKey :: "entry \<Rightarrow> string" where
  "referenceEntryKey e =
     refCollectionID (enOwner e) @ NUL # refDocumentID (enOwner e) @ NUL # enFieldID e @ NUL #
     refCollectionID (enTarget e) @ NUL # refDocumentID (enTarget e) @ NUL # enLocale e @ NUL # pad9 (nat (enOccurrence e))"

definition deleteReferenceEntries :: "document_reference \<Rightarrow> transaction \<Rightarrow> transaction" where
  "deleteReferenceEntries owner tx =
     tx\<lparr>txReferences := filter (\<lambda>(_, e). enOwner e \<noteq> owner) (txReferences tx)\<rparr>"

definition index_entries :: "entry list \<Rightarrow> transaction \<Rightarrow> transaction" where
  "index_entries es tx = tx\<lparr>txReferences := fold (\<lambda>e m. put (referenceEntryKey e) e m) es (txReferences tx)\<rparr>"

fun index_heads :: "collection \<Rightarrow> document list \<Rightarrow> transaction \<Rightarrow> embedded_error option \<times> transaction" where
  "index_heads c [] tx = (None, tx)"
| "index_heads c (d # ds) tx =
     (case Collect c d of
        Inl e \<Rightarrow> (Some e, tx)
      | Inr es \<Rightarrow> index_heads c ds (index_entries es tx))"

definition replaceReferenceEntries ::
  "collection \<Rightarrow> document \<Rightarrow> transaction \<Rightarrow> embedded_error option \<times> transaction" where
  "replaceReferenceEntries c d tx =
     index_heads c (d # (case map_of (publishedCollection tx (colID c)) (docID d) of Some live \<Rightarrow> [live] | None \<Rightarrow> []))
       (deleteReferenceEntries (owner_of c d) tx)"

text \<open>A write ends by indexing its document and answering it as an author reads it.\<close>

definition indexed_answer :: "collection \<Rightarrow> document \<Rightarrow> transaction \<Rightarrow> backend \<Rightarrow> document tx_outcome" where
  "indexed_answer c d tx b =
     (case replaceReferenceEntries c d tx of
        (Some e, tx') \<Rightarrow> (Inl (TxReference e), tx', b)
      | (None, tx') \<Rightarrow> (Inr (testAuthoringProjection d c), tx', b))"

section \<open>Conflicts\<close>

definition uniqueHeadConflict :: "transaction \<Rightarrow> collection \<Rightarrow> document \<Rightarrow> document option \<Rightarrow> bool" where
  "uniqueHeadConflict tx c working published =
     (let current = tx_collection tx (colID c); live = publishedCollection tx (colID c) in
      uniqueConflict current c working (docID working) \<or> uniqueConflict live c working (docID working)
      \<or> (case published of
           None \<Rightarrow> False
         | Some p \<Rightarrow> uniqueConflict current c p (docID working) \<or> uniqueConflict live c p (docID working)))"

text \<open>\<open>lockedCurrentMismatch\<close>: what differs, or \<^const>\<open>None\<close> for its empty answer.\<close>

definition lockedCurrentMismatch :: "json_rules \<Rightarrow> document \<Rightarrow> document \<Rightarrow> string option" where
  "lockedCurrentMismatch jr current stored =
     (if docID current \<noteq> docID stored then Some ''ID''
      else if docRevision current \<noteq> docRevision stored then Some ''revision''
      else if docStatus current \<noteq> docStatus stored then Some ''status''
      else if docPublishedRevision current \<noteq> docPublishedRevision stored
              \<or> docHasDraftChanges current \<noteq> docHasDraftChanges stored then Some ''published revision''
      else if docDeletedAt current \<noteq> docDeletedAt stored then Some ''deletion state''
      else if docCreatedAt current \<noteq> docCreatedAt stored \<or> docUpdatedAt current \<noteq> docUpdatedAt stored
        then Some ''timestamps''
      else case values_MarshalJSON jr (Some (docValues current)) of
        None \<Rightarrow> Some ''Current values cannot be encoded''
      | Some currentValues \<Rightarrow>
          (case values_MarshalJSON jr (Some (docValues stored)) of
             None \<Rightarrow> Some ''stored values cannot be encoded''
           | Some storedValues \<Rightarrow> if currentValues \<noteq> storedValues then Some ''values'' else None))"

section \<open>Create\<close>

record create_request =
  crqCollection :: collection
  crqID :: string
  crqValues :: svalues
  crqStatus :: string
  crqCreatedAt :: time
  crqUpdatedAt :: time

definition initial_status :: "collection \<Rightarrow> string \<Rightarrow> string" where
  "initial_status c status =
     (case colVersions c of
        None \<Rightarrow> status
      | Some v \<Rightarrow> if status = [] then (if verDrafts v then StatusDraft else StatusPublished) else status)"

definition created_document :: "text_rules \<Rightarrow> create_request \<Rightarrow> string \<Rightarrow> time \<Rightarrow> document" where
  "created_document tr r i now =
     (let c = crqCollection r;
          createdAt = (if crqCreatedAt r = zero_time then now else crqCreatedAt r);
          updatedAt = (if crqUpdatedAt r = zero_time then createdAt else crqUpdatedAt r);
          status = initial_status c (crqStatus r);
          revision = (if versioned_revision c then 1 else 0)
      in Document i createdAt updatedAt None status revision
           (if colVersions c \<noteq> None \<and> status = StatusPublished then revision else 0) False
           (canonicalizeTestAuthIdentity tr c (CloneValues (crqValues r))) None)"

definition store_created :: "collection \<Rightarrow> string \<Rightarrow> document \<Rightarrow> transaction \<Rightarrow> transaction" where
  "store_created c i d tx =
     (let tx1 = put_document (colID c) i d tx in
      if docPublishedRevision d > 0 then put_published (colID c) i (publishedProjection d) tx1 else tx1)"

definition Create ::
  "text_rules \<Rightarrow> string option \<Rightarrow> create_request \<Rightarrow> time \<Rightarrow> transaction \<Rightarrow> backend \<Rightarrow> document tx_outcome" where
  "Create tr ctx r now tx b =
     (case writable ctx tx of
        Some e \<Rightarrow> (Inl e, tx, b)
      | None \<Rightarrow>
          let c = crqCollection r;
              b1 = (if crqID r = [] then b\<lparr>bkNextID := bkNextID b + 1\<rparr> else b);
              i = (if crqID r = [] then colID c @ CHR ''_'' # nat_dec (bkNextID b1) else crqID r) in
          (case ValidateDocumentID i of
             Some e \<Rightarrow> (Inl (TxDocumentID e), tx, b1)
           | None \<Rightarrow>
               let b2 = add_event ''create'' b1; d = created_document tr r i now in
               if mem_key (tx_collection tx (colID c)) i then (Inl (TxStore ErrConflict), tx, b2)
               else if uniqueHeadConflict tx c d None then (Inl (TxStore ErrConflict), tx, b2)
               else indexed_answer c d (store_created c i d tx) b2))"

section \<open>Update\<close>

datatype write_intent =
    WriteIntentDefault | WriteIntentSaveDraft | WriteIntentPublish | WriteIntentUnpublish
  | WriteIntentDiscardDraft | WriteIntentOther string

record update_request =
  urqRequest :: request
  urqValues :: svalues
  urqIntent :: write_intent
  urqReplaceValues :: bool
  urqCurrent :: "document option"

definition drafts_enabled :: "collection \<Rightarrow> bool" where
  "drafts_enabled c \<longleftrightarrow> (case colVersions c of None \<Rightarrow> False | Some v \<Rightarrow> verDrafts v)"

definition intent_error :: "collection \<Rightarrow> write_intent \<Rightarrow> tx_error option" where
  "intent_error c intent =
     (if colVersions c \<noteq> None \<and> \<not> drafts_enabled c
         \<and> (intent = WriteIntentSaveDraft \<or> intent = WriteIntentDiscardDraft) then Some TxDraftIntent else None)"

definition updated_values :: "text_rules \<Rightarrow> update_request \<Rightarrow> document \<Rightarrow> document option \<Rightarrow> svalues" where
  "updated_values tr r d live =
     (let c = reqCollection (urqRequest r) in
      canonicalizeTestAuthIdentity tr c
        (case (urqIntent r, live) of
           (WriteIntentDiscardDraft, Some l) \<Rightarrow> CloneValues (docValues l)
         | _ \<Rightarrow> if urqReplaceValues r then CloneValues (urqValues r)
                else MergeStoragePatch (colFields c) (docValues d) (urqValues r)))"

text \<open>The heads after an intent, of the document that already has its new revision.\<close>

definition apply_intent ::
  "collection \<Rightarrow> write_intent \<Rightarrow> document option \<Rightarrow> document \<Rightarrow> tx_error + document" where
  "apply_intent c intent live d =
     (if colVersions c = None then
        (if intent \<noteq> WriteIntentDefault then Inl TxUnversionedIntent else Inr d)
      else case intent of
        WriteIntentDefault \<Rightarrow>
          Inr (if docStatus d = StatusPublished then set_heads (docStatus d) (docRevision d) False d else d)
      | WriteIntentSaveDraft \<Rightarrow>
          Inr (case live of
                 Some l \<Rightarrow> set_heads StatusPublished (docRevision l) True d
               | None \<Rightarrow> set_heads StatusDraft 0 False d)
      | WriteIntentPublish \<Rightarrow> Inr (set_heads StatusPublished (docRevision d) False d)
      | WriteIntentUnpublish \<Rightarrow>
          if live = None then Inl (TxStore ErrConflict) else Inr (set_heads StatusDraft 0 False d)
      | WriteIntentDiscardDraft \<Rightarrow>
          Inr (set_heads StatusPublished (case live of Some l \<Rightarrow> docRevision l | None \<Rightarrow> 0) False d)
      | WriteIntentOther i \<Rightarrow> Inl (TxUnsupportedIntent i))"

definition next_live :: "collection \<Rightarrow> write_intent \<Rightarrow> document option \<Rightarrow> document \<Rightarrow> document option" where
  "next_live c intent live d =
     (if colVersions c = None then None
      else case intent of
        WriteIntentSaveDraft \<Rightarrow> live
      | WriteIntentDiscardDraft \<Rightarrow> live
      | WriteIntentPublish \<Rightarrow> Some (publishedProjection d)
      | WriteIntentDefault \<Rightarrow> if docStatus d = StatusPublished then Some (publishedProjection d) else None
      | _ \<Rightarrow> None)"

definition store_heads :: "collection \<Rightarrow> write_intent \<Rightarrow> document \<Rightarrow> transaction \<Rightarrow> transaction" where
  "store_heads c intent d tx =
     (let tx1 = put_document (colID c) (docID d) d tx in
      if colVersions c = None then tx1
      else case intent of
        WriteIntentUnpublish \<Rightarrow> delete_published (colID c) (docID d) tx1
      | WriteIntentSaveDraft \<Rightarrow> tx1
      | WriteIntentDiscardDraft \<Rightarrow> tx1
      | WriteIntentOther i \<Rightarrow> tx1
      | _ \<Rightarrow> if docStatus d = StatusPublished
              then put_published (colID c) (docID d) (publishedProjection d) tx1
              else delete_published (colID c) (docID d) tx1)"

definition update_found ::
  "text_rules \<Rightarrow> update_request \<Rightarrow> time \<Rightarrow> document \<Rightarrow> transaction \<Rightarrow> backend \<Rightarrow> document tx_outcome" where
  "update_found tr r now d tx b =
     (let c = reqCollection (urqRequest r); intent = urqIntent r;
          live = map_of (publishedCollection tx (colID c)) (reqID (urqRequest r)) in
      if intent = WriteIntentDiscardDraft \<and> (live = None \<or> \<not> docHasDraftChanges d)
      then (Inl (TxStore ErrConflict), tx, b)
      else let revision = (if versioned_revision c then i64 (docRevision d + 1) else docRevision d);
               d1 = set_revision revision now (set_values (updated_values tr r d live) d) in
        (case apply_intent c intent live d1 of
           Inl e \<Rightarrow> (Inl e, tx, b)
         | Inr d2 \<Rightarrow>
             if uniqueHeadConflict tx c d2 (next_live c intent live d2) then (Inl (TxStore ErrConflict), tx, b)
             else indexed_answer c d2 (store_heads c intent d2 tx) b))"

definition Update ::
  "text_rules \<Rightarrow> json_rules \<Rightarrow> string option \<Rightarrow> update_request \<Rightarrow> time \<Rightarrow> transaction \<Rightarrow> backend \<Rightarrow>
   document tx_outcome" where
  "Update tr jr ctx r now tx b =
     (let q = urqRequest r; c = reqCollection q in
      case intent_error c (urqIntent r) of
        Some e \<Rightarrow> (Inl e, tx, b)
      | None \<Rightarrow>
      (case ValidateRequest q of
        Some e \<Rightarrow> (Inl (TxMembership e), tx, b)
      | None \<Rightarrow>
      if drafts_enabled c \<and> urqIntent r = WriteIntentDefault then (Inl TxIntentRequired, tx, b)
      else (case writable ctx tx of
        Some e \<Rightarrow> (Inl e, tx, b)
      | None \<Rightarrow>
      (case LockedCurrent (reqID q) (urqCurrent r) of
        Inl e \<Rightarrow> (Inl (TxCurrent e), tx, b)
      | Inr current \<Rightarrow>
          let b1 = add_event ''update'' b in
          (case map_of (tx_collection tx (colID c)) (reqID q) of
             None \<Rightarrow> (Inl (TxStore ErrNotFound), tx, b1)
           | Some d \<Rightarrow>
               (case lockedCurrentMismatch jr current (testAuthoringProjection d c) of
                  Some mismatch \<Rightarrow> (Inl (TxStaleCurrent mismatch), tx, b1)
                | None \<Rightarrow>
                    if \<not> matchesDeletion d (reqDeletion q) \<or> \<not> matchesRequest tr d q
                    then (Inl (TxStore ErrNotFound), tx, b1)
                    else if reqExpectedRevision q > 0 \<and> docRevision d \<noteq> reqExpectedRevision q
                    then (Inl (TxStore ErrConflict), tx, b1)
                    else update_found tr r now d tx b1))))))"

section \<open>Versions\<close>

definition version_name :: "string \<Rightarrow> int \<Rightarrow> string" where
  "version_name i revision =
     i @ CHR '':'' # (if revision < 0 then CHR ''-'' # nat_dec (nat (- revision)) else nat_dec (nat revision))"

text \<open>The first version of the same revision gives way to the new one, which keeps its instant.\<close>

fun replace_version :: "version \<Rightarrow> version list \<Rightarrow> (version \<times> version list) option" where
  "replace_version v [] = None"
| "replace_version v (x # xs) =
     (if vrsRevision x = vrsRevision v
      then let v' = v\<lparr>vrsCreatedAt := vrsCreatedAt x\<rparr> in Some (v', v' # xs)
      else map_option (\<lambda>(v', ys). (v', x # ys)) (replace_version v xs))"

definition SaveVersion ::
  "string option \<Rightarrow> collection \<Rightarrow> document \<Rightarrow> int \<Rightarrow> time \<Rightarrow> transaction \<Rightarrow> backend \<Rightarrow> version tx_outcome" where
  "SaveVersion ctx c d maximum now tx b =
     (case writable ctx tx of
        Some e \<Rightarrow> (Inl e, tx, b)
      | None \<Rightarrow>
          let byDocument = (case map_of (txVersions tx) (colID c) of Some m \<Rightarrow> m | None \<Rightarrow> []);
              v = \<lparr>vrsID = version_name (docID d) (docRevision d), vrsDocumentID = docID d,
                   vrsRevision = docRevision d, vrsStatus = docStatus d, vrsSnapshot = CloneDocument d,
                   vrsCreatedAt = now\<rparr>;
              known = (case map_of byDocument (docID d) of Some vs \<Rightarrow> vs | None \<Rightarrow> []);
              items = (if docRevision d = 1 then filter (\<lambda>x. vrsRevision x = 1) known else known);
              (saved, items) = (case replace_version v items of
                  Some (v', items') \<Rightarrow> (v', items') | None \<Rightarrow> (v, items @ [v]));
              items = (if maximum > 0 \<and> int (length items) > maximum
                       then drop (length items - nat maximum) items else items)
          in (Inr (cloneVersion saved),
              tx\<lparr>txVersions := put (colID c) (put (docID d) items byDocument) (txVersions tx)\<rparr>, b))"

record version_request =
  vrqCollection :: collection
  vrqDocumentID :: string
  vrqAccess :: "node option"
  vrqLocales :: "string list"
  vrqLocaleChain :: "string list"
  vrqAllLocales :: bool

definition empty_request :: "collection \<Rightarrow> request" where
  "empty_request c =
     \<lparr>reqCollection = c, reqCollections = [], reqID = [], reqFilter = None, reqAccess = None, reqPage = 0, reqLimit = 0,
      reqSkipTotal = False, reqSort = [], reqIndexWindow = None, reqSelect = None, reqPopulate = [],
      reqPopulationAccess = [], reqPopulationPublishedOnly = [], reqPopulationBudget = None,
      reqPublishedOnly = False, reqDeletion = DeletionActive, reqExpectedRevision = 0, reqLocales = [],
      reqLocaleChain = [], reqAllLocales = False, reqLock = LockNone\<rparr>"

definition version_visible :: "text_rules \<Rightarrow> version_request \<Rightarrow> version \<Rightarrow> bool" where
  "version_visible tr r v =
     matchesRequest tr (vrsSnapshot v)
       ((empty_request (vrqCollection r))\<lparr>reqAccess := vrqAccess r, reqLocales := vrqLocales r,
          reqLocaleChain := vrqLocaleChain r, reqAllLocales := vrqAllLocales r\<rparr>)"

definition stored_versions :: "transaction \<Rightarrow> collection \<Rightarrow> string \<Rightarrow> version list" where
  "stored_versions tx c i =
     (case map_of (txVersions tx) (colID c) of
        None \<Rightarrow> []
      | Some byDocument \<Rightarrow> (case map_of byDocument i of Some vs \<Rightarrow> vs | None \<Rightarrow> []))"

definition ListVersions ::
  "text_rules \<Rightarrow> string option \<Rightarrow> version_request \<Rightarrow> transaction \<Rightarrow> backend \<Rightarrow> version list tx_outcome" where
  "ListVersions tr ctx r tx b =
     (case ValidateNode (colFields (vrqCollection r)) (vrqAccess r) of
        Some e \<Rightarrow> (Inl (TxMembership e), tx, b)
      | None \<Rightarrow>
          (case ready ctx tx of
             Some e \<Rightarrow> (Inl e, tx, b)
           | None \<Rightarrow>
               (Inr (map cloneVersion (filter (version_visible tr r)
                       (rev (stored_versions tx (vrqCollection r) (vrqDocumentID r))))), tx, b)))"

definition CountVersions ::
  "text_rules \<Rightarrow> string option \<Rightarrow> version_request \<Rightarrow> transaction \<Rightarrow> backend \<Rightarrow> nat tx_outcome" where
  "CountVersions tr ctx r tx b =
     (case ValidateNode (colFields (vrqCollection r)) (vrqAccess r) of
        Some e \<Rightarrow> (Inl (TxMembership e), tx, b)
      | None \<Rightarrow>
          (case ready ctx tx of
             Some e \<Rightarrow> (Inl e, tx, b)
           | None \<Rightarrow>
               (Inr (length (filter (version_visible tr r)
                       (stored_versions tx (vrqCollection r) (vrqDocumentID r)))), tx, b)))"

definition FindVersion ::
  "string option \<Rightarrow> collection \<Rightarrow> string \<Rightarrow> int \<Rightarrow> transaction \<Rightarrow> backend \<Rightarrow> version tx_outcome" where
  "FindVersion ctx c i revision tx b =
     (case ready ctx tx of
        Some e \<Rightarrow> (Inl e, tx, b)
      | None \<Rightarrow>
          (case find (\<lambda>v. vrsRevision v = revision) (stored_versions tx c i) of
             Some v \<Rightarrow> (Inr (cloneVersion v), tx, b)
           | None \<Rightarrow> (Inl (TxStore ErrNotFound), tx, b)))"

section \<open>Delete, trash and restore\<close>

definition Delete ::
  "text_rules \<Rightarrow> string option \<Rightarrow> request \<Rightarrow> transaction \<Rightarrow> backend \<Rightarrow> document tx_outcome" where
  "Delete tr ctx r tx b =
     (let c = reqCollection r in
      case ValidateRequest r of
        Some e \<Rightarrow> (Inl (TxMembership e), tx, b)
      | None \<Rightarrow>
          (case writable ctx tx of
             Some e \<Rightarrow> (Inl e, tx, b)
           | None \<Rightarrow>
               let b1 = add_event ''delete'' b in
               (case map_of (tx_collection tx (colID c)) (reqID r) of
                  None \<Rightarrow> (Inl (TxStore ErrNotFound), tx, b1)
                | Some d \<Rightarrow>
                    if \<not> matchesDeletion d (reqDeletion r) \<or> \<not> matchesRequest tr d r
                    then (Inl (TxStore ErrNotFound), tx, b1)
                    else (Inr (testAuthoringProjection d c),
                      deleteReferenceEntries \<lparr>refCollectionID = colID c, refDocumentID = reqID r\<rparr>
                        (delete_published (colID c) (reqID r) (delete_document (colID c) (reqID r) tx)), b1))))"

definition store_both :: "collection \<Rightarrow> string \<Rightarrow> document \<Rightarrow> document option \<Rightarrow> transaction \<Rightarrow> transaction" where
  "store_both c i d live tx =
     (let tx1 = put_document (colID c) i d tx in
      case live of None \<Rightarrow> tx1 | Some l \<Rightarrow> put_published (colID c) i l tx1)"

definition Trash ::
  "text_rules \<Rightarrow> string option \<Rightarrow> request \<Rightarrow> time \<Rightarrow> transaction \<Rightarrow> backend \<Rightarrow> document tx_outcome" where
  "Trash tr ctx r now tx b =
     (let c = reqCollection r in
      case ValidateRequest r of
        Some e \<Rightarrow> (Inl (TxMembership e), tx, b)
      | None \<Rightarrow>
          (case writable ctx tx of
             Some e \<Rightarrow> (Inl e, tx, b)
           | None \<Rightarrow>
               let b1 = add_event ''trash'' b in
               (case map_of (tx_collection tx (colID c)) (reqID r) of
                  None \<Rightarrow> (Inl (TxStore ErrNotFound), tx, b1)
                | Some d \<Rightarrow>
                    if docDeletedAt d \<noteq> None \<or> \<not> matchesRequest tr d r
                    then (Inl (TxStore ErrNotFound), tx, b1)
                    else let trashed = set_deletion (Some now) now d;
                             trashedLive = map_option (set_deletion (Some now) now)
                               (map_of (publishedCollection tx (colID c)) (reqID r))
                         in (Inr (testAuthoringProjection trashed c),
                             store_both c (reqID r) trashed trashedLive tx, b1))))"

definition Restore ::
  "text_rules \<Rightarrow> string option \<Rightarrow> request \<Rightarrow> time \<Rightarrow> transaction \<Rightarrow> backend \<Rightarrow> document tx_outcome" where
  "Restore tr ctx r now tx b =
     (let c = reqCollection r in
      case ValidateRequest r of
        Some e \<Rightarrow> (Inl (TxMembership e), tx, b)
      | None \<Rightarrow>
          (case writable ctx tx of
             Some e \<Rightarrow> (Inl e, tx, b)
           | None \<Rightarrow>
               let b1 = add_event ''restore'' b in
               (case map_of (tx_collection tx (colID c)) (reqID r) of
                  None \<Rightarrow> (Inl (TxStore ErrNotFound), tx, b1)
                | Some d \<Rightarrow>
                    if docDeletedAt d = None \<or> \<not> matchesRequest tr d r
                    then (Inl (TxStore ErrNotFound), tx, b1)
                    else let restored = set_deletion None now d;
                             restoredLive = map_option (set_deletion None now)
                               (map_of (publishedCollection tx (colID c)) (reqID r)) in
                      if uniqueHeadConflict tx c restored restoredLive then (Inl (TxStore ErrConflict), tx, b1)
                      else (Inr (testAuthoringProjection restored c),
                            store_both c (reqID r) restored restoredLive tx, b1))))"

section \<open>Deleting what others refer to\<close>

record reference_delete_request =
  rdqTarget :: document_reference
  rdqCollections :: "(string, collection) gomap"
  rdqIgnoreOwners :: "document_reference list"
  rdqPendingOwners :: "document_reference list"

fun ignored_owners ::
  "reference_delete_request \<Rightarrow> transaction \<Rightarrow> document_reference list \<Rightarrow> tx_error + document_reference list" where
  "ignored_owners r tx [] = Inr []"
| "ignored_owners r tx (owner # owners) =
     (if owner = rdqTarget r then map_sum id (\<lambda>os. owner # os) (ignored_owners r tx owners)
      else if \<not> mem_key (rdqCollections r) (refCollectionID owner) then Inl (TxIgnoredOwner (refCollectionID owner))
      else if mem_key (tx_collection tx (refCollectionID owner)) (refDocumentID owner)
        then ignored_owners r tx owners
      else map_sum id (\<lambda>os. owner # os) (ignored_owners r tx owners))"

definition target_entries :: "transaction \<Rightarrow> document_reference \<Rightarrow> document_reference list \<Rightarrow> entry list" where
  "target_entries tx target ignored =
     sort_key referenceEntryKey
       (filter (\<lambda>e. enTarget e = target \<and> enOwner e \<notin> set ignored) (map snd (txReferences tx)))"

text \<open>The constraints of the owners that keep the target from being deleted, without repetition.\<close>

fun delete_constraints ::
  "reference_delete_request \<Rightarrow> entry list \<Rightarrow> (string \<times> string) list \<Rightarrow> tx_error + (string \<times> string) list" where
  "delete_constraints r [] found = Inr found"
| "delete_constraints r (e # es) found =
     (case map_of (rdqCollections r) (refCollectionID (enOwner e)) of
        None \<Rightarrow> Inl (TxReferenceDelete (OwnerCollectionUnavailable (refCollectionID (enOwner e))))
      | Some c \<Rightarrow>
          (case FindReferenceField c (enFieldID e) of
             None \<Rightarrow> Inl (TxReferenceDelete (OwnerFieldUnavailable (enFieldID e)))
           | Some (f, _) \<Rightarrow>
               (case BlocksDelete (DeleteAction f) (enOwner e) (PendingSet (rdqPendingOwners r)) of
                  Inl err \<Rightarrow> Inl (TxReferenceDelete err)
                | Inr blocks \<Rightarrow>
                    delete_constraints r es
                      (if blocks then List.insert (refCollectionID (enOwner e), enFieldID e) found else found))))"

definition cleared :: "bool \<Rightarrow> svalues \<Rightarrow> document \<Rightarrow> document" where
  "cleared changed vs d = (if changed then set_values vs d else d)"

definition store_cleared ::
  "document_reference \<Rightarrow> document option \<Rightarrow> document option \<Rightarrow> transaction \<Rightarrow> transaction" where
  "store_cleared owner working live tx =
     (let tx1 = (case working of
            Some d \<Rightarrow> put_document (refCollectionID owner) (refDocumentID owner) d tx | None \<Rightarrow> tx)
      in case live of
           Some l \<Rightarrow> put_published (refCollectionID owner) (refDocumentID owner) l tx1 | None \<Rightarrow> tx1)"

text \<open>One owner: its working and live heads lose the reference and are indexed again.\<close>

definition clear_owner ::
  "reference_delete_request \<Rightarrow> document_reference \<Rightarrow> transaction \<Rightarrow> tx_error option \<times> transaction" where
  "clear_owner r owner tx =
     (case map_of (rdqCollections r) (refCollectionID owner) of
        None \<Rightarrow> (Some (TxReferenceDelete (OwnerCollectionUnavailable (refCollectionID owner))), tx)
      | Some c \<Rightarrow>
      (case map_of (tx_collection tx (refCollectionID owner)) (refDocumentID owner) of
        None \<Rightarrow> (None, deleteReferenceEntries owner tx)
      | Some d \<Rightarrow>
      (case NullifyTarget c (docValues d) (rdqTarget r) of
        Inl e \<Rightarrow> (Some (TxReference e), tx)
      | Inr (vs, changed) \<Rightarrow>
          let live = map_of (publishedCollection tx (refCollectionID owner)) (refDocumentID owner) in
          (case (case live of
                   None \<Rightarrow> Inr ([], False)
                 | Some l \<Rightarrow> NullifyTarget c (docValues l) (rdqTarget r)) of
             Inl e \<Rightarrow> (Some (TxReference e), tx)
           | Inr (liveValues, liveChanged) \<Rightarrow>
               if \<not> changed \<and> \<not> liveChanged then (Some (TxInconsistentIndex (refCollectionID owner)), tx)
               else map_prod (map_option TxReference) id
                      (replaceReferenceEntries c (cleared changed vs d)
                        (store_cleared owner (if changed then Some (set_values vs d) else None)
                           (case live of
                              Some l \<Rightarrow> if liveChanged then Some (set_values liveValues l) else None
                            | None \<Rightarrow> None) tx))))))"

fun clear_owners ::
  "reference_delete_request \<Rightarrow> document_reference list \<Rightarrow> transaction \<Rightarrow> tx_error option \<times> transaction" where
  "clear_owners r [] tx = (None, tx)"
| "clear_owners r (owner # owners) tx =
     (case clear_owner r owner tx of
        (Some e, tx') \<Rightarrow> (Some e, tx')
      | (None, tx') \<Rightarrow> clear_owners r owners tx')"

definition ordered_owners :: "entry list \<Rightarrow> document_reference list" where
  "ordered_owners es = sort_key (\<lambda>o'. (refCollectionID o', refDocumentID o')) (remdups (map enOwner es))"

definition ApplyReferenceDelete ::
  "string option \<Rightarrow> reference_delete_request \<Rightarrow> transaction \<Rightarrow> backend \<Rightarrow> unit tx_outcome" where
  "ApplyReferenceDelete ctx r tx b =
     (case writable ctx tx of
        Some e \<Rightarrow> (Inl e, tx, b)
      | None \<Rightarrow>
          if refCollectionID (rdqTarget r) = [] \<or> refDocumentID (rdqTarget r) = []
          then (Inl TxReferenceTarget, tx, b)
          else case ignored_owners r tx (rdqIgnoreOwners r) of
            Inl e \<Rightarrow> (Inl e, tx, b)
          | Inr ignored \<Rightarrow>
              let es = target_entries tx (rdqTarget r) ignored in
              (case delete_constraints r es [] of
                 Inl e \<Rightarrow> (Inl e, tx, b)
               | Inr constraints \<Rightarrow>
                   if constraints \<noteq> [] then (Inl (TxRestricted (sort constraints)), tx, b)
                   else case clear_owners r (ordered_owners es) tx of
                     (Some e, tx') \<Rightarrow> (Inl e, tx', b)
                   | (None, tx') \<Rightarrow> (Inr (), tx', add_event ''apply-reference-delete'' b)))"

definition tx_CascadeOwners ::
  "string option \<Rightarrow> reference_delete_request \<Rightarrow> transaction \<Rightarrow> backend \<Rightarrow> document_reference list tx_outcome" where
  "tx_CascadeOwners ctx r tx b =
     (case writable ctx tx of
        Some e \<Rightarrow> (Inl e, tx, b)
      | None \<Rightarrow>
          let es = filter (\<lambda>e. enTarget e = rdqTarget r
                \<and> mem_key (tx_collection tx (refCollectionID (enOwner e))) (refDocumentID (enOwner e)))
              (map snd (txReferences tx)) in
          (case CascadeOwners es (map_of (rdqCollections r)) (PendingSet (rdqPendingOwners r)) of
             Inl e \<Rightarrow> (Inl (TxReferenceDelete e), tx, b)
           | Inr owners \<Rightarrow> (Inr owners, tx, b)))"

end
