(* ===== verification/Document_Reads.thy ===== *)
theory Document_Reads
  imports Document_Writes
begin

text \<open>
  The reads of a transaction of the in-memory store (\<open>internal/teststore/store.go\<close>): find and
  list with populated references, distinct values, index windows, filtered selections,
  referenced upload objects and the login lookup. Each reads the transaction's own copies
  and, at most, adds to the store's events.
\<close>

section \<open>Projection\<close>

fun selected_values :: "svalues \<Rightarrow> path list \<Rightarrow> svalues" where
  "selected_values vs [] = []"
| "selected_values vs (p # ps) =
     (let rest = selected_values vs ps in
      case p of
        [name] \<Rightarrow> (case map_of vs name of Some v \<Rightarrow> put name v rest | None \<Rightarrow> rest)
      | _ \<Rightarrow> rest)"

definition project :: "document \<Rightarrow> path list option \<Rightarrow> document" where
  "project d selection =
     (case selection of
        None \<Rightarrow> CloneDocument d
      | Some ps \<Rightarrow> CloneDocument (set_values (selected_values (docValues d) ps) d))"

section \<open>Populating references\<close>

text \<open>\<open>lookup\<close> answers the target of a reference, if it is found, and its own state.\<close>

definition populateReference ::
  "relationship_field \<Rightarrow> (string \<Rightarrow> string \<Rightarrow> 's \<Rightarrow> document option \<times> 's) \<Rightarrow> svalue \<Rightarrow> 's \<Rightarrow> svalue \<times> 's" where
  "populateReference rel lookup v s =
     (if \<not> relPolymorphic rel then
        (case v of
           SString i \<Rightarrow>
             (case lookup (relCollectionID rel) i s of
                (Some d, s') \<Rightarrow> (Populated d, s') | (None, s') \<Rightarrow> (v, s'))
         | _ \<Rightarrow> (v, s))
      else
        (case v of
           SObject _ \<Rightarrow>
             let object = fst (CopyObject v);
                 slug = (case map_of object ''relationTo'' of Some (SString t) \<Rightarrow> t | _ \<Rightarrow> []);
                 i = (case map_of object ''id'' of Some (SString t) \<Rightarrow> t | _ \<Rightarrow> []) in
             (case find (\<lambda>t. tgtCollectionSlug t = slug) (relTargets rel) of
                None \<Rightarrow> (ObjectOf object, s)
              | Some t \<Rightarrow>
                  (case lookup (tgtCollectionID t) i s of
                     (Some d, s') \<Rightarrow> (ObjectOf (put ''id'' (Populated d) object), s')
                   | (None, s') \<Rightarrow> (ObjectOf object, s')))
         | _ \<Rightarrow> (v, s)))"

fun populate_items ::
  "relationship_field \<Rightarrow> (string \<Rightarrow> string \<Rightarrow> 's \<Rightarrow> document option \<times> 's) \<Rightarrow> svalue list \<Rightarrow> 's \<Rightarrow> svalue list \<times> 's" where
  "populate_items rel lookup [] s = ([], s)"
| "populate_items rel lookup (v # vs) s =
     (let (w, s1) = populateReference rel lookup v s; (ws, s2) = populate_items rel lookup vs s1 in (w # ws, s2))"

definition populateValue ::
  "relationship_field \<Rightarrow> (string \<Rightarrow> string \<Rightarrow> 's \<Rightarrow> document option \<times> 's) \<Rightarrow> svalue \<Rightarrow> 's \<Rightarrow> svalue \<times> 's" where
  "populateValue rel lookup v s =
     (if relHasMany rel then
        (case v of
           SList t \<Rightarrow> (let (ws, s') = populate_items rel lookup (elements t) s in (ListOf ws, s'))
         | _ \<Rightarrow> (v, s))
      else populateReference rel lookup v s)"

text \<open>
  What the population of a path carries along: the error of a target that could not be
  populated and what the shared budget has left.
\<close>

type_synonym population_state = "population_error option \<times> population_budget option"

definition zero_collection :: collection where
  "zero_collection =
     \<lparr>colID = [], colSlug = [], colCapabilities = \<lparr>capTrash = False, capVersions = False\<rparr>,
      colAuthIdentityField = None, colUpload = False, colVersions = None, colFields = [], colIndexes = []\<rparr>"

definition target_schema :: "request \<Rightarrow> string \<Rightarrow> collection" where
  "target_schema r i = (case map_of (reqCollections r) i of Some c \<Rightarrow> c | None \<Rightarrow> zero_collection)"

definition population_published :: "request \<Rightarrow> string \<Rightarrow> bool" where
  "population_published r i =
     (case map_of (reqPopulationPublishedOnly r) i of Some selected \<Rightarrow> selected | None \<Rightarrow> reqPublishedOnly r)"

definition visible_target ::
  "text_rules \<Rightarrow> transaction \<Rightarrow> request \<Rightarrow> string \<Rightarrow> string \<Rightarrow> document option" where
  "visible_target tr tx r collectionID i =
     (let c = target_schema r collectionID in
      case map_of (selectedCollection tx c (population_published r collectionID)) i of
        None \<Rightarrow> None
      | Some d \<Rightarrow>
          if docDeletedAt d \<noteq> None then None
          else case Option.bind (map_of (reqPopulationAccess r) collectionID) id of
            None \<Rightarrow> Some d
          | Some access \<Rightarrow>
              if matchesRequest tr d ((empty_request c)\<lparr>reqAccess := Some access, reqLocales := reqLocales r,
                   reqLocaleChain := reqLocaleChain r, reqAllLocales := reqAllLocales r\<rparr>)
              then Some d else None)"

definition nested_request :: "request \<Rightarrow> string \<Rightarrow> int \<Rightarrow> request" where
  "nested_request r collectionID depth =
     (let c = target_schema r collectionID in
      (empty_request c)\<lparr>reqCollections := reqCollections r, reqPopulate := DepthPopulations c depth,
        reqPopulationAccess := reqPopulationAccess r, reqPopulationPublishedOnly := reqPopulationPublishedOnly r,
        reqPublishedOnly := population_published r collectionID, reqLocales := reqLocales r,
        reqLocaleChain := reqLocaleChain r, reqAllLocales := reqAllLocales r\<rparr>)"

text \<open>
  \<open>nested\<close> prepares a target's own references; then the target is localized, projected
  and charged to the budget.
\<close>

definition lookup_target ::
  "text_rules \<Rightarrow> transaction \<Rightarrow> request \<Rightarrow> population \<Rightarrow>
   (string \<Rightarrow> document \<Rightarrow> population_budget option \<Rightarrow> (population_error + document) \<times> population_budget option) \<Rightarrow>
   string \<Rightarrow> string \<Rightarrow> population_state \<Rightarrow> document option \<times> population_state" where
  "lookup_target tr tx r p nested collectionID i s =
     (case visible_target tr tx r collectionID i of
        None \<Rightarrow> (None, s)
      | Some d \<Rightarrow>
          (case nested collectionID d (snd s) of
             (Inl e, b) \<Rightarrow> (None, (Some e, b))
           | (Inr d1, b) \<Rightarrow>
               let c = target_schema r collectionID;
                   d2 = localizedForRequest d1 ((empty_request c)\<lparr>reqLocales := reqLocales r,
                          reqLocaleChain := reqLocaleChain r, reqAllLocales := reqAllLocales r\<rparr>);
                   d3 = project d2 (popSelect p) in
               (case ConsumeDocument b d3 of
                  Inl e \<Rightarrow> (None, (Some e, b))
                | Inr b' \<Rightarrow> (Some d3, (fst s, Some b')))))"

definition populate_path ::
  "text_rules \<Rightarrow> transaction \<Rightarrow> request \<Rightarrow> population \<Rightarrow>
   (string \<Rightarrow> document \<Rightarrow> population_budget option \<Rightarrow> (population_error + document) \<times> population_budget option) \<Rightarrow>
   document \<Rightarrow> population_budget option \<Rightarrow> (population_error + document) \<times> population_budget option" where
  "populate_path tr tx r p nested d b =
     (case Option.bind (FieldAtPath (colFields (reqCollection r)) (popPath p)) RelationshipDetails of
        None \<Rightarrow> (Inr d, b)
      | Some rel \<Rightarrow>
          (case MapAtPath (colFields (reqCollection r)) (docValues d) (popPath p)
                  \<lparr>lslAll = reqAllLocales r, lslChain = reqLocaleChain r\<rparr>
                  (\<lambda>f v s. if fst s \<noteq> None then (v, s)
                     else populateValue rel (lookup_target tr tx r p nested) v s)
                  (None, b) of
             ((mapped, matched), (Some e, b')) \<Rightarrow> (Inl e, b')
           | ((mapped, matched), (None, b')) \<Rightarrow> (Inr (set_values mapped d), b')))"

definition population_depth :: "request \<Rightarrow> nat" where
  "population_depth r = Max (insert 0 ((\<lambda>p. nat (popDepth p)) ` set (reqPopulate r)))"

lemma nested_depth:
  assumes "p \<in> set (reqPopulate r)" "\<not> popDepth p \<le> 1"
  shows "population_depth (nested_request r i (popDepth p - 1)) < population_depth r"
proof -
  have "\<forall>q\<in>set (reqPopulate (nested_request r i (popDepth p - 1))). nat (popDepth q) = nat (popDepth p - 1)"
    by (auto simp: nested_request_def DepthPopulations_def Let_def)
  then have "population_depth (nested_request r i (popDepth p - 1)) \<le> nat (popDepth p - 1)"
    by (auto simp: population_depth_def)
  also have "\<dots> < nat (popDepth p)" using assms(2) by simp
  also have "\<dots> \<le> population_depth r" unfolding population_depth_def using assms(1) by (intro Max_ge) auto
  finally show ?thesis .
qed

definition started_budget :: "request \<Rightarrow> population_budget option \<Rightarrow> population_budget option" where
  "started_budget r b =
     (if reqPopulate r \<noteq> [] \<and> b = None then Some (NewPopulationBudget MaxPopulationMaterializedDocuments) else b)"

function prepare ::
  "text_rules \<Rightarrow> transaction \<Rightarrow> request \<Rightarrow> document \<Rightarrow> population_budget option \<Rightarrow>
   (population_error + document) \<times> population_budget option" where
  "prepare tr tx r d b =
     (case fold (\<lambda>p (answer, b).
              (case answer of
                 Inl e \<Rightarrow> (Inl e, b)
               | Inr d' \<Rightarrow>
                   populate_path tr tx r p
                     (\<lambda>collectionID target b.
                        if popDepth p \<le> 1 then (Inr target, b)
                        else prepare tr tx (nested_request r collectionID (popDepth p - 1)) target b) d' b))
            (reqPopulate r) (Inr (CloneDocument d), started_budget r b) of
        (Inl e, b') \<Rightarrow> (Inl e, b')
      | (Inr d', b') \<Rightarrow> (Inr (project (testAuthoringProjection d' (reqCollection r)) (reqSelect r)), b'))"
  by pat_completeness auto
termination
  by (relation "measure (\<lambda>(tr, tx, r, d, b). population_depth r)") (auto intro: nested_depth)

declare prepare.simps [simp del]

section \<open>Find and list\<close>

definition Find ::
  "text_rules \<Rightarrow> string option \<Rightarrow> request \<Rightarrow> transaction \<Rightarrow> backend \<Rightarrow> document tx_outcome" where
  "Find tr ctx r tx b =
     (case ValidateRequest r of
        Some e \<Rightarrow> (Inl (TxMembership e), tx, b)
      | None \<Rightarrow>
          (case ready ctx tx of
             Some e \<Rightarrow> (Inl e, tx, b)
           | None \<Rightarrow>
               let b1 = add_event ''find'' b in
               (case map_of (selectedCollection tx (reqCollection r) (reqPublishedOnly r)) (reqID r) of
                  None \<Rightarrow> (Inl (TxStore ErrNotFound), tx, b1)
                | Some d \<Rightarrow>
                    if \<not> matchesDeletion d (reqDeletion r) \<or> \<not> matchesRequest tr d r
                    then (Inl (TxStore ErrNotFound), tx, b1)
                    else (map_sum TxPopulation id (fst (prepare tr tx r d (reqPopulationBudget r))), tx, b1))))"

text \<open>The documents in order; the budget is shared by all of them.\<close>

fun prepare_all ::
  "text_rules \<Rightarrow> transaction \<Rightarrow> request \<Rightarrow> document list \<Rightarrow> population_budget option \<Rightarrow> population_error + document list" where
  "prepare_all tr tx r [] b = Inr []"
| "prepare_all tr tx r (d # ds) b =
     (case prepare tr tx r d b of
        (Inl e, b') \<Rightarrow> Inl e
      | (Inr d', b') \<Rightarrow> map_sum id (\<lambda>rest. d' # rest) (prepare_all tr tx r ds b'))"

definition matching_documents :: "text_rules \<Rightarrow> transaction \<Rightarrow> request \<Rightarrow> document list" where
  "matching_documents tr tx r =
     filter (\<lambda>d. matchesDeletion d (reqDeletion r) \<and> matchesRequest tr d r)
       (map snd (selectedCollection tx (reqCollection r) (reqPublishedOnly r)))"

definition List ::
  "text_rules \<Rightarrow> string option \<Rightarrow> request \<Rightarrow> transaction \<Rightarrow> backend \<Rightarrow> document page tx_outcome" where
  "List tr ctx r tx b =
     (case ValidateRequest r of
        Some e \<Rightarrow> (Inl (TxMembership e), tx, b)
      | None \<Rightarrow>
          (case ready ctx tx of
             Some e \<Rightarrow> (Inl e, tx, b)
           | None \<Rightarrow>
               let b1 = add_event ''list'' b;
                   documents = sorted_documents r (map CloneDocument (matching_documents tr tx r));
                   (_, _, start, end1) = ListPageBounds (reqPage r) (reqLimit r) (int (length documents)) in
               (case prepare_all tr tx r (take (nat (end1 - start)) (drop (nat start) documents))
                       (started_budget r (reqPopulationBudget r)) of
                  Inl e \<Rightarrow> (Inl (TxPopulation e), tx, b1)
                | Inr selected \<Rightarrow>
                    let page = CountedPage selected (reqPage r) (reqLimit r) (int (length documents)) in
                    (Inr (if reqSkipTotal r then page\<lparr>pgTotal := None\<rparr> else page), tx, b1))))"

section \<open>Distinct values\<close>

record distinct_page =
  dpgValues :: "svalue list"
  dpgPage :: int
  dpgLimit :: int
  dpgTotal :: int

definition distinct_document_request :: "distinct_request \<Rightarrow> request" where
  "distinct_document_request r =
     (empty_request (dstCollection r))\<lparr>reqFilter := dstFilter r, reqAccess := dstAccess r,
        reqPublishedOnly := dstPublishedOnly r, reqDeletion := dstDeletion r,
        reqLocales := dstLocales r, reqLocaleChain := dstLocaleChain r\<rparr>"

fun distinct_values ::
  "distinct_request \<Rightarrow> document list \<Rightarrow> (distinct_key, svalue) gomap \<Rightarrow> svalue_kind + (distinct_key, svalue) gomap" where
  "distinct_values r [] unique = Inr unique"
| "distinct_values r (d # ds) unique =
     (let v = (case documentValue (localizedForRequest d (distinct_document_request r)) (dstField r) of
                 Some v \<Rightarrow> v | None \<Rightarrow> SNull) in
      case distinctValueKey v of
        Inl kind \<Rightarrow> Inl kind
      | Inr key \<Rightarrow> distinct_values r ds (put key v unique))"

definition Distinct ::
  "text_rules \<Rightarrow> string option \<Rightarrow> distinct_request \<Rightarrow> transaction \<Rightarrow> backend \<Rightarrow> distinct_page tx_outcome" where
  "Distinct tr ctx r tx b =
     (case ValidateRequest ((empty_request (dstCollection r))\<lparr>reqFilter := dstFilter r, reqAccess := dstAccess r\<rparr>) of
        Some e \<Rightarrow> (Inl (TxMembership e), tx, b)
      | None \<Rightarrow>
          (case ready ctx tx of
             Some e \<Rightarrow> (Inl e, tx, b)
           | None \<Rightarrow>
               (case ValidateDistinctRequest r of
                  Some e \<Rightarrow> (Inl (TxDistinct e), tx, b)
                | None \<Rightarrow>
                    let b1 = add_event ''distinct'' b in
                    (case distinct_values r (matching_documents tr tx (distinct_document_request r)) [] of
                       Inl kind \<Rightarrow> (Inl (TxDistinctKind kind), tx, b1)
                     | Inr unique \<Rightarrow>
                         let vs = stable_sort (\<lambda>x y. compareDistinctValues x y < 0) (map snd unique);
                             (page, limit, start, end1) = ListPageBounds (dstPage r) (dstLimit r) (int (length vs))
                         in (Inr \<lparr>dpgValues = take (nat (end1 - start)) (drop (nat start) vs),
                                  dpgPage = page, dpgLimit = limit, dpgTotal = int (length vs)\<rparr>, tx, b1)))))"

section \<open>Bounded selections\<close>

text \<open>
  One candidate for the \<open>capacity\<close> smallest: it goes before the first that is not
  smaller, and the list never holds more than its capacity.
\<close>

definition bounded_insert :: "('a \<Rightarrow> string) \<Rightarrow> nat \<Rightarrow> 'a \<Rightarrow> 'a list \<Rightarrow> 'a list" where
  "bounded_insert key capacity x candidates =
     (let smaller = takeWhile (\<lambda>y. key y < key x) candidates;
          rest = dropWhile (\<lambda>y. key y < key x) candidates in
      if length candidates = capacity \<and> length smaller = capacity then candidates
      else take capacity (smaller @ x # rest))"

definition window_key :: "index_window \<Rightarrow> document \<Rightarrow> string option" where
  "window_key w d = Option.bind (documentValue d (winPath w)) s_string"

definition in_window :: "index_window \<Rightarrow> document \<Rightarrow> bool" where
  "in_window w d =
     (case window_key w d of
        None \<Rightarrow> False | Some key \<Rightarrow> \<not> key < winLowerBound w \<and> key < winUpperBound w)"

record window =
  wndDocuments :: "document list"
  wndHasMore :: bool

definition window_candidates :: "request \<Rightarrow> index_window \<Rightarrow> document list \<Rightarrow> document list" where
  "window_candidates r w ds =
     fold (\<lambda>d candidates.
         if matchesDeletion d (reqDeletion r) \<and> in_window w d
         then bounded_insert (\<lambda>d. the (window_key w d)) (nat (reqLimit r) + 1) d candidates else candidates)
       ds []"

definition ListWindow ::
  "text_rules \<Rightarrow> string option \<Rightarrow> request \<Rightarrow> transaction \<Rightarrow> backend \<Rightarrow> window tx_outcome" where
  "ListWindow tr ctx r tx b =
     (case ValidateRequest r of
        Some e \<Rightarrow> (Inl (TxMembership e), tx, b)
      | None \<Rightarrow>
          (case ready ctx tx of
             Some e \<Rightarrow> (Inl e, tx, b)
           | None \<Rightarrow>
               (case (ValidateListWindowRequest r, reqIndexWindow r) of
                  (Some e, _) \<Rightarrow> (Inl (TxWindow e), tx, b)
                | (None, None) \<Rightarrow> (Inl (TxWindow WindowRange), tx, b)
                | (None, Some w) \<Rightarrow>
                    let b1 = add_event ''list-window'' b;
                        candidates = window_candidates r w (map snd (tx_collection tx (colID (reqCollection r))));
                        kept = take (nat (reqLimit r)) candidates in
                    (case prepare_all tr tx r kept (started_budget r (reqPopulationBudget r)) of
                       Inl e \<Rightarrow> (Inl (TxPopulation e), tx, b1)
                     | Inr documents \<Rightarrow>
                         (Inr \<lparr>wndDocuments = documents, wndHasMore = length candidates > nat (reqLimit r)\<rparr>, tx,
                          fold (\<lambda>_. add_event ''list-window-materialize'') documents b1)))))"

record selection_request =
  slqCollection :: collection
  slqFilter :: "node option"
  slqAccess :: "node option"
  slqDeletion :: deletion_mode
  slqLimit :: int
  slqLocales :: "string list"
  slqLocaleChain :: "string list"
  slqAllLocales :: bool

record filtered_selection =
  fslIDs :: "string list"
  fslOverflow :: bool

definition selection_matches :: "text_rules \<Rightarrow> selection_request \<Rightarrow> document \<Rightarrow> bool" where
  "selection_matches tr r d \<longleftrightarrow>
     matchesDeletion d (slqDeletion r)
     \<and> matchesRequest tr d ((empty_request (slqCollection r))\<lparr>reqFilter := slqFilter r, reqAccess := slqAccess r,
         reqDeletion := slqDeletion r, reqLocales := slqLocales r, reqLocaleChain := slqLocaleChain r,
         reqAllLocales := slqAllLocales r\<rparr>)"

definition ResolveFilteredSelection ::
  "text_rules \<Rightarrow> string option \<Rightarrow> selection_request \<Rightarrow> transaction \<Rightarrow> backend \<Rightarrow> filtered_selection tx_outcome" where
  "ResolveFilteredSelection tr ctx r tx b =
     (case ready ctx tx of
        Some e \<Rightarrow> (Inl e, tx, b)
      | None \<Rightarrow>
          let b1 = add_event ''resolve-filtered-selection'' b in
          if slqLimit r < 1 then (Inl TxSelectionLimit, tx, b1)
          else let limit = nat (slqLimit r);
                   ids = fold (\<lambda>(i, d) ids. if selection_matches tr r d then bounded_insert id (limit + 1) i ids else ids)
                     (tx_collection tx (colID (slqCollection r))) []
            in (Inr \<lparr>fslIDs = take limit ids, fslOverflow = length ids > limit\<rparr>, tx, b1))"

section \<open>Upload objects\<close>

definition MaxUploadReferenceCandidates :: nat where "MaxUploadReferenceCandidates = 66"

definition object_key :: "svalue option \<Rightarrow> string list" where
  "object_key v = (case v of Some (SString key) \<Rightarrow> [key] | _ \<Rightarrow> [])"

text \<open>\<open>collectUploadObjectReferences\<close>: the keys a document's values refer to, in the order they are read.\<close>

definition upload_object_references :: "svalues \<Rightarrow> string list" where
  "upload_object_references vs =
     object_key (Option.bind (map_of vs ''source'') (\<lambda>v. Lookup v ''objectKey''))
     @ object_key (map_of vs ''objectKey'')
     @ concat (map (\<lambda>(_, v). object_key (Lookup v ''objectKey''))
         (case map_of vs ''sizes'' of Some v \<Rightarrow> s_entries v | None \<Rightarrow> []))"

fun candidate_error :: "string list \<Rightarrow> string list \<Rightarrow> tx_error option" where
  "candidate_error candidates [] = None"
| "candidate_error candidates (key # keys) =
     (if key = [] then Some TxUploadKeyEmpty
      else if key \<in> set candidates then Some (TxUploadKeyTwice key)
      else candidate_error (key # candidates) keys)"

definition stored_values :: "transaction \<Rightarrow> collection \<Rightarrow> svalues list" where
  "stored_values tx c =
     map (docValues \<circ> snd) (tx_collection tx (colID c)) @ map (docValues \<circ> snd) (publishedCollection tx (colID c))
     @ concat (map (\<lambda>(_, vs). map (docValues \<circ> vrsSnapshot) vs)
         (case map_of (txVersions tx) (colID c) of Some m \<Rightarrow> m | None \<Rightarrow> []))"

definition ReferencedUploadObjects ::
  "string option \<Rightarrow> collection list \<Rightarrow> string list \<Rightarrow> transaction \<Rightarrow> backend \<Rightarrow> string list tx_outcome" where
  "ReferencedUploadObjects ctx collections keys tx b =
     (case ready ctx tx of
        Some e \<Rightarrow> (Inl e, tx, b)
      | None \<Rightarrow>
          if keys = [] \<or> length keys > MaxUploadReferenceCandidates
          then (Inl (TxUploadKeys MaxUploadReferenceCandidates), tx, b)
          else case candidate_error [] keys of
            Some e \<Rightarrow> (Inl e, tx, b)
          | None \<Rightarrow>
              (case find (\<lambda>c. \<not> colUpload c) collections of
                 Some c \<Rightarrow> (Inl (TxNotUpload (colID c)), tx, b)
               | None \<Rightarrow>
                   (Inr (sort (remdups (filter (\<lambda>key. key \<in> set keys)
                      (concat (map upload_object_references (concat (map (stored_values tx) collections))))))),
                    tx, add_event ''upload-object-references'' b)))"

section \<open>Login\<close>

definition FindAuthCredential ::
  "text_rules \<Rightarrow> collection \<Rightarrow> string \<Rightarrow> string \<Rightarrow> backend \<Rightarrow> (auth_credential \<times> document) outcome" where
  "FindAuthCredential tr c identityField login b =
     (case find (\<lambda>d. map_of (docValues d) identityField = Some (SString (CanonicalAuthIdentity tr login)))
             (active_documents (case map_of (bkDocuments b) (colID c) of Some m \<Rightarrow> m | None \<Rightarrow> [])) of
        None \<Rightarrow> (Inl ErrNotFound, b)
      | Some d \<Rightarrow>
          let key = auth_key (colID c) (docID d) in
          (case map_of (bkPasswords b) key of
             None \<Rightarrow> (Inl ErrNotFound, b)
           | Some hash \<Rightarrow>
               let credential = (case map_of (bkCredentials b) key of Some x \<Rightarrow> x | None \<Rightarrow> zero_credential)
               in (Inr (credential\<lparr>crdPasswordHash := hash\<rparr>, CloneDocument d), b)))"

end
