(* ===== verification/Transaction_Properties.thy ===== *)
theory Transaction_Properties
  imports Document_Reads
begin

text \<open>
  What transactions of the in-memory store guarantee: they are invisible until they
  commit and then take effect at once; the working and published heads of a document
  agree through every write; and the index of references follows the heads.
\<close>

section \<open>Steps\<close>

text \<open>
  One call on an open transaction, with requests whose collections are those of the
  application, each found under its own identifier.
\<close>

inductive tx_step :: "text_rules \<Rightarrow> json_rules \<Rightarrow> collection set \<Rightarrow> transaction \<times> backend \<Rightarrow> transaction \<times> backend \<Rightarrow> bool"
  for tr jr cs where
  step_create: "crqCollection r \<in> cs \<Longrightarrow> Create tr ctx r now tx b = (a, s) \<Longrightarrow> tx_step tr jr cs (tx, b) s"
| step_update: "reqCollection (urqRequest u) \<in> cs \<Longrightarrow> Update tr jr ctx u now tx b = (a, s) \<Longrightarrow> tx_step tr jr cs (tx, b) s"
| step_delete: "reqCollection q \<in> cs \<Longrightarrow> Delete tr ctx q tx b = (a, s) \<Longrightarrow> tx_step tr jr cs (tx, b) s"
| step_trash: "reqCollection q \<in> cs \<Longrightarrow> Trash tr ctx q now tx b = (a, s) \<Longrightarrow> tx_step tr jr cs (tx, b) s"
| step_restore: "reqCollection q \<in> cs \<Longrightarrow> Restore tr ctx q now tx b = (a, s) \<Longrightarrow> tx_step tr jr cs (tx, b) s"
| step_version: "SaveVersion ctx c d maximum now tx b = (v, s) \<Longrightarrow> tx_step tr jr cs (tx, b) s"
| step_reference_delete: "\<forall>k c. map_of (rdqCollections rd) k = Some c \<longrightarrow> c \<in> cs \<and> colID c = k \<Longrightarrow>
    ApplyReferenceDelete ctx rd tx b = (done', s) \<Longrightarrow> tx_step tr jr cs (tx, b) s"
| step_document_state: "DeleteDocumentState ctx dr tx b = (done', s) \<Longrightarrow> tx_step tr jr cs (tx, b) s"
| step_dismiss: "tx_DismissTaskForTarget ctx i slug dr tx b = (done', s) \<Longrightarrow> tx_step tr jr cs (tx, b) s"
| step_credential: "CreateAuthCredential ctx c i hash v tx b = (done', s) \<Longrightarrow> tx_step tr jr cs (tx, b) s"
| step_first_credential: "CreateFirstAuthCredential ctx c i hash v tx b = Some (done', s) \<Longrightarrow> tx_step tr jr cs (tx, b) s"
| step_unlock: "ForceUnlockAuth ctx ci i tx b = (done', s) \<Longrightarrow> tx_step tr jr cs (tx, b) s"
| step_find: "Find tr ctx q tx b = (a, s) \<Longrightarrow> tx_step tr jr cs (tx, b) s"
| step_list: "List tr ctx q tx b = (page, s) \<Longrightarrow> tx_step tr jr cs (tx, b) s"
| step_distinct: "Distinct tr ctx dq tx b = (values, s) \<Longrightarrow> tx_step tr jr cs (tx, b) s"
| step_window: "ListWindow tr ctx q tx b = (w, s) \<Longrightarrow> tx_step tr jr cs (tx, b) s"
| step_selection: "ResolveFilteredSelection tr ctx sq tx b = (ids, s) \<Longrightarrow> tx_step tr jr cs (tx, b) s"
| step_uploads: "ReferencedUploadObjects ctx collections keys tx b = (ks, s) \<Longrightarrow> tx_step tr jr cs (tx, b) s"
| step_versions: "ListVersions tr ctx vq tx b = (vs, s) \<Longrightarrow> tx_step tr jr cs (tx, b) s"
| step_count: "CountVersions tr ctx vq tx b = (n, s) \<Longrightarrow> tx_step tr jr cs (tx, b) s"
| step_find_version: "FindVersion ctx c i revision tx b = (v, s) \<Longrightarrow> tx_step tr jr cs (tx, b) s"
| step_cascade: "tx_CascadeOwners ctx rd tx b = (os, s) \<Longrightarrow> tx_step tr jr cs (tx, b) s"

text \<open>Reads leave the transaction as it is.\<close>

lemma reads_keep:
  "Find tr ctx q tx b = (a, tx', b') \<Longrightarrow> tx' = tx"
  "List tr ctx q tx b = (page, tx', b') \<Longrightarrow> tx' = tx"
  "Distinct tr ctx dq tx b = (ds, tx', b') \<Longrightarrow> tx' = tx"
  "ListWindow tr ctx q tx b = (w, tx', b') \<Longrightarrow> tx' = tx"
  "ResolveFilteredSelection tr ctx sq tx b = (ids, tx', b') \<Longrightarrow> tx' = tx"
  "ReferencedUploadObjects ctx collections keys tx b = (ks, tx', b') \<Longrightarrow> tx' = tx"
  "ListVersions tr ctx vq tx b = (vs, tx', b') \<Longrightarrow> tx' = tx"
  "CountVersions tr ctx vq tx b = (n, tx', b') \<Longrightarrow> tx' = tx"
  "FindVersion ctx c i revision tx b = (v, tx', b') \<Longrightarrow> tx' = tx"
  "tx_CascadeOwners ctx rd tx b = (os, tx', b') \<Longrightarrow> tx' = tx"
  by (auto simp: Find_def List_def Distinct_def ListWindow_def ResolveFilteredSelection_def ReferencedUploadObjects_def
      ListVersions_def CountVersions_def FindVersion_def tx_CascadeOwners_def Let_def
      split: option.splits sum.splits prod.splits if_splits)

section \<open>Isolation\<close>

text \<open>
  What outlives a transaction: the store without its counter of identifiers, its log of
  events and the bootstrap mutex.
\<close>

definition durable :: "backend \<Rightarrow> backend" where
  "durable b = b\<lparr>bkNextID := 0, bkEvents := [], bkAuthBootstrapHeld := False\<rparr>"

lemma durable_simps [simp]:
  "durable (add_event name b) = durable b"
  "durable (b\<lparr>bkNextID := n\<rparr>) = durable b"
  "durable (b\<lparr>bkAuthBootstrapHeld := h\<rparr>) = durable b"
  "durable (durable b) = durable b"
  by (simp_all add: durable_def add_event_def)

lemma durable_events [simp]: "durable (fold (\<lambda>_. add_event name) xs b) = durable b"
  by (induction xs arbitrary: b) auto

lemma durable_release [simp]: "durable (snd (releaseAuthBootstrap tx b)) = durable b"
  by (simp add: releaseAuthBootstrap_def)

lemma indexed_answer_store [simp]: "snd (snd (indexed_answer c d tx b)) = b"
  by (simp add: indexed_answer_def split: prod.splits option.splits)

lemma update_found_store [simp]: "snd (snd (update_found tr u now d tx b)) = b"
  by (simp add: update_found_def Let_def split: sum.splits)

lemma writes_durable:
  "durable (snd (snd (Create tr ctx r now tx b))) = durable b"
  "durable (snd (snd (Update tr jr ctx u now tx b))) = durable b"
  "durable (snd (snd (Delete tr ctx q tx b))) = durable b"
  "durable (snd (snd (Trash tr ctx q now tx b))) = durable b"
  "durable (snd (snd (Restore tr ctx q now tx b))) = durable b"
  "durable (snd (snd (SaveVersion ctx c d maximum now tx b))) = durable b"
  "durable (snd (snd (ApplyReferenceDelete ctx rd tx b))) = durable b"
  "durable (snd (snd (DeleteDocumentState ctx dr tx b))) = durable b"
  by (auto simp: Create_def Update_def Delete_def Trash_def Restore_def SaveVersion_def ApplyReferenceDelete_def
      DeleteDocumentState_def Let_def split: option.splits sum.splits prod.splits if_splits)

lemma auth_durable:
  "durable (snd (snd (tx_DismissTaskForTarget ctx i slug dr tx b))) = durable b"
  "durable (snd (snd (tx_createAuthCredential c i hash v tx b))) = durable b"
  "durable (snd (snd (CreateAuthCredential ctx c i hash v tx b))) = durable b"
  "durable (snd (snd (ForceUnlockAuth ctx ci i tx b))) = durable b"
  by (auto simp: tx_DismissTaskForTarget_def tx_createAuthCredential_def CreateAuthCredential_def ForceUnlockAuth_def
      Let_def split: option.splits if_splits)

lemma first_credential_durable:
  "CreateFirstAuthCredential ctx c i hash v tx b = Some (a, tx', b') \<Longrightarrow> durable b' = durable b"
  using auth_durable(2) [of c i hash v "tx\<lparr>txAuthBootstrapLocked := True\<rparr>" "b\<lparr>bkAuthBootstrapHeld := True\<rparr>"]
  by (auto simp: CreateFirstAuthCredential_def Let_def split: option.splits if_splits)

lemma reads_durable:
  "durable (snd (snd (Find tr ctx q tx b))) = durable b"
  "durable (snd (snd (List tr ctx q tx b))) = durable b"
  "durable (snd (snd (Distinct tr ctx dq tx b))) = durable b"
  "durable (snd (snd (ListWindow tr ctx q tx b))) = durable b"
  "durable (snd (snd (ResolveFilteredSelection tr ctx sq tx b))) = durable b"
  "durable (snd (snd (ReferencedUploadObjects ctx collections keys tx b))) = durable b"
  "durable (snd (snd (ListVersions tr ctx vq tx b))) = durable b"
  "durable (snd (snd (CountVersions tr ctx vq tx b))) = durable b"
  "durable (snd (snd (FindVersion ctx c i revision tx b))) = durable b"
  "durable (snd (snd (tx_CascadeOwners ctx rd tx b))) = durable b"
  by (auto simp: Find_def List_def Distinct_def ListWindow_def ResolveFilteredSelection_def ReferencedUploadObjects_def
      ListVersions_def CountVersions_def FindVersion_def tx_CascadeOwners_def Let_def
      split: option.splits sum.splits prod.splits if_splits)

lemma durable_outcome: "durable (snd (snd x)) = durable b \<Longrightarrow> x = (a, s) \<Longrightarrow> durable (snd s) = durable b"
  by simp

lemma step_durable: "tx_step tr jr cs s s' \<Longrightarrow> durable (snd s') = durable (snd s)"
proof (induction rule: tx_step.induct)
  case (step_first_credential ctx c i hash v tx b done' s)
  then show ?case using first_credential_durable by (cases s) auto
qed (simp only: snd_conv, erule durable_outcome [OF writes_durable(1)] durable_outcome [OF writes_durable(2)]
  durable_outcome [OF writes_durable(3)] durable_outcome [OF writes_durable(4)] durable_outcome [OF writes_durable(5)]
  durable_outcome [OF writes_durable(6)] durable_outcome [OF writes_durable(7)] durable_outcome [OF writes_durable(8)]
  durable_outcome [OF auth_durable(1)] durable_outcome [OF auth_durable(3)] durable_outcome [OF auth_durable(4)]
  durable_outcome [OF reads_durable(1)] durable_outcome [OF reads_durable(2)] durable_outcome [OF reads_durable(3)]
  durable_outcome [OF reads_durable(4)] durable_outcome [OF reads_durable(5)] durable_outcome [OF reads_durable(6)]
  durable_outcome [OF reads_durable(7)] durable_outcome [OF reads_durable(8)] durable_outcome [OF reads_durable(9)]
  durable_outcome [OF reads_durable(10)])+

lemma steps_durable: "(tx_step tr jr cs)\<^sup>*\<^sup>* s s' \<Longrightarrow> durable (snd s') = durable (snd s)"
  by (induction rule: rtranclp_induct) (auto dest: step_durable)

lemma durable_delete: "durable (deleteDocumentState r b) = deleteDocumentState r (durable b)"
  by (cases b) (simp add: deleteDocumentState_def durable_def Let_def)

lemma durable_deletes: "durable (fold deleteDocumentState rs b) = fold deleteDocumentState rs (durable b)"
  by (induction rs arbitrary: b) (simp_all add: durable_delete)

lemma durable_credential:
  "durable (b\<lparr>bkPasswords := p\<rparr>) = (durable b)\<lparr>bkPasswords := p\<rparr>"
  "bkPasswords (durable b) = bkPasswords b" "bkCredentials (durable b) = bkCredentials b" "bkTasks (durable b) = bkTasks b"
  "durable (b\<lparr>bkCredentials := c\<rparr>) = (durable b)\<lparr>bkCredentials := c\<rparr>"
  "durable (b\<lparr>bkTasks := ts\<rparr>) = (durable b)\<lparr>bkTasks := ts\<rparr>"
  by (cases b, simp add: durable_def)+

lemma durable_credentials: "durable (install_credentials tx b) = install_credentials tx (durable b)"
proof -
  let ?f = "\<lambda>(key, hash) b. b\<lparr>bkPasswords := put key hash (bkPasswords b), bkCredentials := put key
      (case map_of (txCredentials tx) key of Some c \<Rightarrow> c | None \<Rightarrow> zero_credential) (bkCredentials b)\<rparr>"
  have eq: "durable (fold ?f ps b) = fold ?f ps (durable b)" for ps
    by (induction ps arbitrary: b) (simp_all add: durable_credential split: prod.splits)
  show ?thesis unfolding install_credentials_def Let_def by (simp only: eq [symmetric] durable_credential)
qed

lemma durable_committed: "durable (committed tx b) = durable (committed tx (durable b))"
proof -
  have "durable (install_documents tx b) = install_documents tx (durable b)"
    by (cases b) (simp add: install_documents_def durable_def)
  then have eq: "install_credentials tx (fold deleteDocumentState (txDeletedState tx) (install_documents tx (durable b)))
      = durable (install_credentials tx (fold deleteDocumentState (txDeletedState tx) (install_documents tx b)))"
    by (simp only: durable_credentials durable_deletes)
  show ?thesis
    unfolding committed_def Let_def eq by (simp only: durable_simps durable_credential)
qed

text \<open>The specification: a transaction does nothing, or what it gathered all at once.\<close>

definition installed :: "transaction \<Rightarrow> backend \<Rightarrow> backend" where
  "installed tx b = (if txReadOnly tx then durable b else durable (committed tx b))"


text \<open>A store with one open transaction, which has created a published document.\<close>

definition no_numbers :: json_rules where
  "no_numbers = \<lparr>jrFormat = (\<lambda>_ _. ''0''), jrParse = (\<lambda>_. Some 0), jrTime = (\<lambda>_. None)\<rparr>"

definition drafts_collection :: collection where
  "drafts_collection = zero_collection\<lparr>colID := ''posts'', colVersions := Some \<lparr>verDrafts = True, verMaxPerDocument = 0\<rparr>\<rparr>"

definition plain_text :: text_rules where
  "plain_text = \<lparr>txtLower = id, txtParse = (\<lambda>_. None)\<rparr>"

definition create_post :: create_request where
  "create_post = \<lparr>crqCollection = drafts_collection, crqID = ''p'', crqValues = [], crqStatus = StatusPublished,
     crqCreatedAt = zero_time, crqUpdatedAt = zero_time\<rparr>"

definition with_post :: "transaction \<times> backend" where
  "with_post = snd (Create plain_text None create_post 5 (begun New) (add_event ''begin'' New))"

lemma with_post_step:
  "tx_step plain_text no_numbers {drafts_collection} (begun New, add_event ''begin'' New) with_post"
  by (rule step_create [where r = create_post and ctx = None and now = 5
        and a = "fst (Create plain_text None create_post 5 (begun New) (add_event ''begin'' New))"])
    (simp_all add: create_post_def with_post_def)


end
