(* ===== verification/Transaction_System.thy ===== *)
theory Transaction_System
  imports Transaction_Properties
begin

text \<open>
  The store with any number of open transactions whose calls interleave. What a property
  of documents, published heads and index entries needs in order to hold of the store and
  of every transaction at all times is stated as an interface: it holds of the empty store,
  every call on a transaction keeps it, and so does copying the documents.
\<close>

type_synonym transaction_system = "backend \<times> transaction list"
type_synonym tx_relation = "transaction \<times> backend \<Rightarrow> transaction \<times> backend \<Rightarrow> bool"

text \<open>
  The calls of a transaction are a parameter; \<open>sys_other\<close> stands for the store's methods outside transactions, which touch neither
  documents nor the index nor the bootstrap mutex.
\<close>

inductive sys_step ::
  "tx_relation \<Rightarrow> transaction_system \<Rightarrow> transaction_system \<Rightarrow> bool" for step where
  sys_begin: "Begin ctx b = (Inr tx, b') \<Longrightarrow> sys_step step (b, txs) (b', txs @ [tx])"
| sys_snapshot: "BeginSnapshot ctx b = (Inr tx, b') \<Longrightarrow> sys_step step (b, txs) (b', txs @ [tx])"
| sys_call: "k < length txs \<Longrightarrow> step (txs ! k, b) (tx', b') \<Longrightarrow>
    sys_step step (b, txs) (b', txs[k := tx'])"
| sys_commit: "k < length txs \<Longrightarrow> Commit ctx (txs ! k) b = (answer, tx', b') \<Longrightarrow>
    sys_step step (b, txs) (b', txs[k := tx'])"
| sys_rollback: "k < length txs \<Longrightarrow> Rollback (txs ! k) b = (answer, tx', b') \<Longrightarrow>
    sys_step step (b, txs) (b', txs[k := tx'])"
| sys_other: "bkDocuments b' = bkDocuments b \<Longrightarrow> bkPublished b' = bkPublished b \<Longrightarrow>
    bkVersions b' = bkVersions b \<Longrightarrow> bkReferences b' = bkReferences b \<Longrightarrow>
    bkAuthBootstrapHeld b' = bkAuthBootstrapHeld b \<Longrightarrow> sys_step step (b, txs) (b', txs)"

definition reachable_system :: "tx_relation \<Rightarrow> transaction_system \<Rightarrow> bool" where
  "reachable_system step s \<longleftrightarrow> (sys_step step)\<^sup>*\<^sup>* (New, []) s"

text \<open>What a transaction holds of the documents, as one that begins in this state does.\<close>

definition same_data :: "transaction \<Rightarrow> transaction \<Rightarrow> bool" where
  "same_data tx tx' \<longleftrightarrow> txDocuments tx = txDocuments tx' \<and> txPublished tx = txPublished tx'
     \<and> txReferences tx = txReferences tx'"

definition copied :: "transaction \<Rightarrow> transaction" where
  "copied tx = tx\<lparr>txDocuments := cloneCollections (txDocuments tx), txPublished := cloneCollections (txPublished tx)\<rparr>"

locale document_invariant =
  fixes step :: tx_relation and inv :: "transaction \<Rightarrow> bool"
  assumes inv_data: "same_data tx tx' \<Longrightarrow> inv tx \<Longrightarrow> inv tx'"
    and inv_empty: "inv (begun New)"
    and inv_call: "step (tx, b) (tx', b') \<Longrightarrow> inv tx \<Longrightarrow> inv tx'"
    and inv_copy: "inv tx \<Longrightarrow> inv (copied tx)"
    and call_durable: "step (tx, b) (tx', b') \<Longrightarrow> durable b' = durable b"
begin

definition sys_ok :: "transaction_system \<Rightarrow> bool" where
  "sys_ok s \<longleftrightarrow> inv (begun (fst s)) \<and> (\<forall>tx\<in>set (snd s). inv tx)"

lemma inv_same_store:
  "bkDocuments b' = bkDocuments b \<Longrightarrow> bkPublished b' = bkPublished b \<Longrightarrow> bkReferences b' = bkReferences b \<Longrightarrow>
   inv (begun b) \<Longrightarrow> inv (begun b')"
  by (erule inv_data [rotated]) (simp add: same_data_def begun_def)

lemma inv_durable: "durable b' = durable b \<Longrightarrow> inv (begun b) \<Longrightarrow> inv (begun b')"
proof (rule inv_same_store)
  assume "durable b' = durable b"
  then show "bkDocuments b' = bkDocuments b" "bkPublished b' = bkPublished b" "bkReferences b' = bkReferences b"
    by (cases b; cases b'; simp add: durable_def)+
qed

lemma committed_documents:
  "bkDocuments (committed tx b) = cloneCollections (txDocuments tx)"
  "bkPublished (committed tx b) = cloneCollections (txPublished tx)"
  "bkReferences (committed tx b) = txReferences tx"
proof -
  have deletes: "bkDocuments (fold deleteDocumentState rs x) = bkDocuments x"
    "bkPublished (fold deleteDocumentState rs x) = bkPublished x"
    "bkReferences (fold deleteDocumentState rs x) = bkReferences x" for rs x
    by (induction rs arbitrary: x) (simp_all add: deleteDocumentState_def Let_def)
  have credentials: "bkDocuments (install_credentials tx x) = bkDocuments x"
    "bkPublished (install_credentials tx x) = bkPublished x"
    "bkReferences (install_credentials tx x) = bkReferences x" for x
  proof -
    let ?f = "\<lambda>(key, hash) b. b\<lparr>bkPasswords := put key hash (bkPasswords b), bkCredentials := put key
        (case map_of (txCredentials tx) key of Some c \<Rightarrow> c | None \<Rightarrow> zero_credential) (bkCredentials b)\<rparr>"
    have "bkDocuments (fold ?f ps x) = bkDocuments x \<and> bkPublished (fold ?f ps x) = bkPublished x
        \<and> bkReferences (fold ?f ps x) = bkReferences x" for ps
      by (induction ps arbitrary: x) (auto split: prod.splits)
    then show "bkDocuments (install_credentials tx x) = bkDocuments x"
      "bkPublished (install_credentials tx x) = bkPublished x"
      "bkReferences (install_credentials tx x) = bkReferences x"
      by (simp_all add: install_credentials_def Let_def)
  qed
  show "bkDocuments (committed tx b) = cloneCollections (txDocuments tx)"
    "bkPublished (committed tx b) = cloneCollections (txPublished tx)"
    "bkReferences (committed tx b) = txReferences tx"
    by (simp_all add: committed_def Let_def add_event_def deletes credentials install_documents_def cloneReferenceEntries_def)
qed

lemma clone_twice: "inv (copied tx) \<Longrightarrow> txReferences tx = bkReferences b \<Longrightarrow>
    bkDocuments b = cloneCollections (txDocuments tx) \<Longrightarrow> bkPublished b = cloneCollections (txPublished tx) \<Longrightarrow>
    inv (begun b)"
  by (drule inv_copy, erule inv_data [rotated])
    (simp add: same_data_def begun_def copied_def cloneReferenceEntries_def)

lemma inv_commit:
  assumes "Commit ctx tx b = (answer, tx', b')" "inv tx" "inv (begun b)"
  shows "inv tx'" "inv (begun b')"
proof -
  have "same_data tx tx'"
    using assms(1) by (auto simp: Commit_def released_def releaseAuthBootstrap_def same_data_def
        split: option.splits if_splits prod.splits)
  then show "inv tx'" using assms(2) by (rule inv_data)
  have "inv (begun (committed tx b))"
    by (rule clone_twice [OF inv_copy [OF assms(2)]]) (simp_all add: committed_documents)
  moreover have "durable b' = durable b \<or> durable b' = durable (committed tx b)"
    using assms(1) by (auto simp: Commit_def released_def releaseAuthBootstrap_def split: option.splits if_splits)
  ultimately show "inv (begun b')" using assms(3) inv_durable by blast
qed

lemma sys_step_ok: "sys_step step s s' \<Longrightarrow> sys_ok s \<Longrightarrow> sys_ok s'"
proof (induction rule: sys_step.induct)
  case (sys_begin ctx b tx b' txs)
  then have "tx = begun b" "durable b' = durable b" by (cases ctx; auto simp: Begin_def)+
  then show ?case using sys_begin(2) inv_durable by (auto simp: sys_ok_def)
next
  case (sys_snapshot ctx b tx b' txs)
  then have "same_data (begun b) tx" "durable b' = durable b"
    by (cases ctx; auto simp: BeginSnapshot_def Begin_def same_data_def)+
  then show ?case using sys_snapshot(2) inv_durable inv_data by (auto simp: sys_ok_def)
next
  case (sys_call k txs b tx' b')
  have "inv (txs ! k)" using sys_call by (simp add: sys_ok_def)
  then have "inv tx'" by (rule inv_call [OF sys_call(2)])
  moreover have "durable b' = durable b" by (rule call_durable [OF sys_call(2)])
  ultimately show ?case using sys_call(3) inv_durable by (auto simp: sys_ok_def dest: subsetD [OF set_update_subset_insert])
next
  case (sys_commit k txs ctx b answer tx' b')
  have "inv (txs ! k)" "inv (begun b)" using sys_commit by (simp_all add: sys_ok_def)
  from inv_commit [OF sys_commit(2) this] show ?case
    using sys_commit(3) by (auto simp: sys_ok_def dest: subsetD [OF set_update_subset_insert])
next
  case (sys_rollback k txs b answer tx' b')
  have inv: "inv (txs ! k)" "inv (begun b)" using sys_rollback by (simp_all add: sys_ok_def)
  have "same_data (txs ! k) tx'" "durable b' = durable b"
    using sys_rollback(2) by (auto simp: Rollback_def released_def releaseAuthBootstrap_def same_data_def
        split: if_splits prod.splits)
  then have "inv tx'" "inv (begun b')" using inv inv_data inv_durable by blast+
  then show ?case using sys_rollback(3) by (auto simp: sys_ok_def dest: subsetD [OF set_update_subset_insert])
next
  case (sys_other b' b txs)
  then show ?case using inv_same_store by (auto simp: sys_ok_def)
qed

lemma always:
  assumes "reachable_system step (b, txs)"
  shows "inv (begun b)" and "tx \<in> set txs \<Longrightarrow> inv tx"
proof -
  have "sys_ok (b, txs)"
    using assms unfolding reachable_system_def
    by (induction rule: rtranclp_induct) (simp add: sys_ok_def inv_empty, rule sys_step_ok)
  then show "inv (begun b)" "tx \<in> set txs \<Longrightarrow> inv tx" by (auto simp: sys_ok_def)
qed

end

end
