(* ===== verification/Write_Cases.thy ===== *)
theory Write_Cases
  imports Transaction_System
begin

text \<open>
  The outcomes of each write of a transaction: it leaves the transaction as it is, or it
  has passed every check and changed one document. The invariants of documents are proved
  over these cases.
\<close>

lemma indexed_answer_tx [simp]:
  "fst (snd (indexed_answer c d tx b)) = snd (replaceReferenceEntries c d tx)"
  by (simp add: indexed_answer_def split: prod.splits option.splits)

lemma create_cases:
  obtains (refused) "fst (snd (Create tr ctx r now tx b)) = tx"
  | (created) i d where "map_of (tx_collection tx (colID (crqCollection r))) i = None" "ValidateDocumentID i = None"
      "d = created_document tr r i now" "\<not> uniqueHeadConflict tx (crqCollection r) d None"
      "fst (snd (Create tr ctx r now tx b))
        = snd (replaceReferenceEntries (crqCollection r) d (store_created (crqCollection r) i d tx))"
proof -
  define n where "n = bkNextID (if crqID r = [] then b\<lparr>bkNextID := bkNextID b + 1\<rparr> else b)"
  define i where "i = (if crqID r = [] then colID (crqCollection r) @ CHR ''_'' # nat_dec n else crqID r)"
  define d where "d = created_document tr r i now"
  have "fst (snd (Create tr ctx r now tx b)) = tx
    \<or> map_of (tx_collection tx (colID (crqCollection r))) i = None \<and> ValidateDocumentID i = None
      \<and> \<not> uniqueHeadConflict tx (crqCollection r) d None
      \<and> fst (snd (Create tr ctx r now tx b))
        = snd (replaceReferenceEntries (crqCollection r) d (store_created (crqCollection r) i d tx))"
    unfolding Create_def Let_def n_def [symmetric] i_def [symmetric] d_def [symmetric]
    by (simp split: option.splits)
  then show ?thesis using refused created [OF _ _ d_def] by blast
qed

definition revised :: "text_rules \<Rightarrow> update_request \<Rightarrow> time \<Rightarrow> document \<Rightarrow> document option \<Rightarrow> document" where
  "revised tr u now d live =
     set_revision (if versioned_revision (reqCollection (urqRequest u)) then i64 (docRevision d + 1) else docRevision d) now
       (set_values (updated_values tr u d live) d)"

lemma revised_sel [simp]:
  "docID (revised tr u now d live) = docID d" "docStatus (revised tr u now d live) = docStatus d"
  "docPublishedRevision (revised tr u now d live) = docPublishedRevision d"
  "docHasDraftChanges (revised tr u now d live) = docHasDraftChanges d"
  "docDeletedAt (revised tr u now d live) = docDeletedAt d"
  "docUpdatedAt (revised tr u now d live) = now"
  "docValues (revised tr u now d live) = updated_values tr u d live"
  by (simp_all add: revised_def)

text \<open>The checks a successful update has passed.\<close>

definition update_allowed ::
  "text_rules \<Rightarrow> json_rules \<Rightarrow> string option \<Rightarrow> update_request \<Rightarrow> transaction \<Rightarrow> document \<Rightarrow> bool" where
  "update_allowed tr jr ctx u tx d \<longleftrightarrow>
     (let q = urqRequest u; c = reqCollection q in
      writable ctx tx = None \<and> ValidateRequest q = None \<and> intent_error c (urqIntent u) = None
      \<and> \<not> (drafts_enabled c \<and> urqIntent u = WriteIntentDefault)
      \<and> map_of (tx_collection tx (colID c)) (reqID q) = Some d
      \<and> (\<exists>current. urqCurrent u = Some current \<and> docID current = reqID q
           \<and> lockedCurrentMismatch jr current (testAuthoringProjection d c) = None)
      \<and> matchesDeletion d (reqDeletion q) \<and> matchesRequest tr d q
      \<and> \<not> (reqExpectedRevision q > 0 \<and> docRevision d \<noteq> reqExpectedRevision q))"

lemma update_found_cases:
  fixes u d tx
  defines "c \<equiv> reqCollection (urqRequest u)"
  defines "live \<equiv> map_of (publishedCollection tx (colID c)) (reqID (urqRequest u))"
  shows "fst (snd (update_found tr u now d tx b)) = tx
    \<or> (\<exists>d2. \<not> (urqIntent u = WriteIntentDiscardDraft \<and> (live = None \<or> \<not> docHasDraftChanges d))
        \<and> apply_intent c (urqIntent u) live (revised tr u now d live) = Inr d2
        \<and> \<not> uniqueHeadConflict tx c d2 (next_live c (urqIntent u) live d2)
        \<and> fst (snd (update_found tr u now d tx b)) = snd (replaceReferenceEntries c d2 (store_heads c (urqIntent u) d2 tx)))"
  unfolding update_found_def Let_def c_def [symmetric] live_def [symmetric] revised_def [of tr u now d live, folded c_def, symmetric]
  by (simp split: sum.splits)

lemma update_cases:
  fixes u tx
  defines "c \<equiv> reqCollection (urqRequest u)"
  defines "live \<equiv> map_of (publishedCollection tx (colID c)) (reqID (urqRequest u))"
  obtains (refused) "fst (snd (Update tr jr ctx u now tx b)) = tx"
  | (updated) d d2 where "update_allowed tr jr ctx u tx d"
      "\<not> (urqIntent u = WriteIntentDiscardDraft \<and> (live = None \<or> \<not> docHasDraftChanges d))"
      "apply_intent c (urqIntent u) live (revised tr u now d live) = Inr d2"
      "\<not> uniqueHeadConflict tx c d2 (next_live c (urqIntent u) live d2)"
      "fst (snd (Update tr jr ctx u now tx b)) = snd (replaceReferenceEntries c d2 (store_heads c (urqIntent u) d2 tx))"
proof -
  have no: "fst (snd (Update tr jr ctx u now tx b)) = tx" if "\<forall>d. \<not> update_allowed tr jr ctx u tx d"
    using that unfolding Update_def update_allowed_def Let_def LockedCurrent_def
    by (auto split: option.splits sum.splits)
  have yes: "Update tr jr ctx u now tx b = update_found tr u now d tx (add_event ''update'' b)"
    if "update_allowed tr jr ctx u tx d" for d
    using that unfolding update_allowed_def Let_def by (auto simp: Update_def Let_def LockedCurrent_def simp del: writable_None)
  show ?thesis
  proof (cases "\<exists>d. update_allowed tr jr ctx u tx d")
    case True
    then obtain d where d: "update_allowed tr jr ctx u tx d" by blast
    from update_found_cases [of tr u now d tx "add_event ''update'' b", folded c_def, folded live_def, folded yes [OF d]]
    show ?thesis using refused updated [OF d] by blast
  next
    case False
    then show ?thesis using refused no by blast
  qed
qed

lemma delete_cases:
  fixes q
  defines "c \<equiv> reqCollection q"
  obtains (refused) "fst (snd (Delete tr ctx q tx b)) = tx"
  | (deleted) d where "map_of (tx_collection tx (colID c)) (reqID q) = Some d" "matchesRequest tr d q"
      "matchesDeletion d (reqDeletion q)"
      "fst (snd (Delete tr ctx q tx b)) =
         deleteReferenceEntries \<lparr>refCollectionID = colID c, refDocumentID = reqID q\<rparr>
           (delete_published (colID c) (reqID q) (delete_document (colID c) (reqID q) tx))"
proof -
  have "fst (snd (Delete tr ctx q tx b)) = tx
    \<or> (\<exists>d. map_of (tx_collection tx (colID c)) (reqID q) = Some d \<and> matchesRequest tr d q
      \<and> matchesDeletion d (reqDeletion q)
      \<and> fst (snd (Delete tr ctx q tx b)) =
         deleteReferenceEntries \<lparr>refCollectionID = colID c, refDocumentID = reqID q\<rparr>
           (delete_published (colID c) (reqID q) (delete_document (colID c) (reqID q) tx)))"
    unfolding Delete_def Let_def c_def by (simp split: option.splits)
  then show ?thesis using refused deleted by blast
qed

lemma trash_cases:
  fixes q tx
  defines "c \<equiv> reqCollection q"
  obtains (refused) "fst (snd (Trash tr ctx q now tx b)) = tx"
  | (trashed) d where "map_of (tx_collection tx (colID c)) (reqID q) = Some d" "docDeletedAt d = None"
      "fst (snd (Trash tr ctx q now tx b)) = store_both c (reqID q) (set_deletion (Some now) now d)
         (map_option (set_deletion (Some now) now) (map_of (publishedCollection tx (colID c)) (reqID q))) tx"
proof -
  have "fst (snd (Trash tr ctx q now tx b)) = tx
    \<or> (\<exists>d. map_of (tx_collection tx (colID c)) (reqID q) = Some d \<and> docDeletedAt d = None
      \<and> fst (snd (Trash tr ctx q now tx b)) = store_both c (reqID q) (set_deletion (Some now) now d)
         (map_option (set_deletion (Some now) now) (map_of (publishedCollection tx (colID c)) (reqID q))) tx)"
    unfolding Trash_def Let_def c_def by (simp split: option.splits)
  then show ?thesis using refused trashed by blast
qed

lemma restore_cases:
  fixes q tx now
  defines "c \<equiv> reqCollection q"
  defines "live \<equiv> map_option (set_deletion None now) (map_of (publishedCollection tx (colID c)) (reqID q))"
  obtains (refused) "fst (snd (Restore tr ctx q now tx b)) = tx"
  | (restored) d where "map_of (tx_collection tx (colID c)) (reqID q) = Some d" "docDeletedAt d \<noteq> None"
      "\<not> uniqueHeadConflict tx c (set_deletion None now d) live"
      "fst (snd (Restore tr ctx q now tx b)) = store_both c (reqID q) (set_deletion None now d) live tx"
proof -
  have "fst (snd (Restore tr ctx q now tx b)) = tx
    \<or> (\<exists>d. map_of (tx_collection tx (colID c)) (reqID q) = Some d \<and> docDeletedAt d \<noteq> None
      \<and> \<not> uniqueHeadConflict tx c (set_deletion None now d) live
      \<and> fst (snd (Restore tr ctx q now tx b)) = store_both c (reqID q) (set_deletion None now d) live tx)"
    unfolding Restore_def Let_def c_def live_def by (simp split: option.splits)
  then show ?thesis using refused restored by blast
qed

lemma clear_owner_cases:
  fixes owner tx rd
  defines "live \<equiv> map_of (publishedCollection tx (refCollectionID owner)) (refDocumentID owner)"
  obtains (refused) "snd (clear_owner rd owner tx) = tx"
  | (stale) c where "map_of (tx_collection tx (refCollectionID owner)) (refDocumentID owner) = None"
      "map_of (rdqCollections rd) (refCollectionID owner) = Some c" "clear_owner rd owner tx = (None, deleteReferenceEntries owner tx)"
  | (cleared) c d vs changed liveValues liveChanged where
      "map_of (rdqCollections rd) (refCollectionID owner) = Some c"
      "map_of (tx_collection tx (refCollectionID owner)) (refDocumentID owner) = Some d"
      "NullifyTarget c (docValues d) (rdqTarget rd) = Inr (vs, changed)"
      "\<And>l. live = Some l \<Longrightarrow> NullifyTarget c (docValues l) (rdqTarget rd) = Inr (liveValues, liveChanged)"
      "live = None \<Longrightarrow> \<not> liveChanged"
      "clear_owner rd owner tx = map_prod (map_option TxReference) id
         (replaceReferenceEntries c (cleared changed vs d)
           (store_cleared owner (if changed then Some (set_values vs d) else None)
              (case live of Some l \<Rightarrow> if liveChanged then Some (set_values liveValues l) else None | None \<Rightarrow> None) tx))"
proof (cases "map_of (rdqCollections rd) (refCollectionID owner)")
  case c: (Some c)
  show ?thesis
  proof (cases "map_of (tx_collection tx (refCollectionID owner)) (refDocumentID owner)")
    case None
    then show ?thesis using stale [OF None c] c by (simp add: clear_owner_def)
  next
    case d: (Some d)
    show ?thesis
    proof (cases "NullifyTarget c (docValues d) (rdqTarget rd)")
      case (Inl e)
      then show ?thesis using refused c d by (simp add: clear_owner_def)
    next
      case (Inr p)
      obtain vs changed where p: "p = (vs, changed)" by (cases p)
      define lv where "lv = (case live of None \<Rightarrow> Inr ([], False) | Some l \<Rightarrow> NullifyTarget c (docValues l) (rdqTarget rd))"
      show ?thesis
      proof (cases lv)
        case (Inl e)
        then show ?thesis using refused c d Inr p by (simp add: clear_owner_def lv_def live_def [symmetric])
      next
        case q: (Inr q)
        obtain liveValues liveChanged where lq: "q = (liveValues, liveChanged)" by (cases q)
        show ?thesis
        proof (cases "\<not> changed \<and> \<not> liveChanged")
          case True
          then show ?thesis
            using refused c d Inr p q lq unfolding lv_def by (simp add: clear_owner_def live_def [symmetric] del: split_paired_Ex)
        next
          case False
          have "live = None \<Longrightarrow> \<not> liveChanged" "\<And>l. live = Some l \<Longrightarrow> NullifyTarget c (docValues l) (rdqTarget rd) = Inr (liveValues, liveChanged)"
            using q lq unfolding lv_def by (auto split: option.splits)
          moreover have "clear_owner rd owner tx = map_prod (map_option TxReference) id
             (replaceReferenceEntries c (cleared changed vs d)
               (store_cleared owner (if changed then Some (set_values vs d) else None)
                  (case live of Some l \<Rightarrow> if liveChanged then Some (set_values liveValues l) else None | None \<Rightarrow> None) tx))"
            using c d Inr p q lq False unfolding lv_def
            by (auto simp: clear_owner_def live_def [symmetric] Let_def)
          ultimately show ?thesis using cleared [OF c d Inr [unfolded p]] by blast
        qed
      qed
    qed
  qed
qed (simp add: clear_owner_def refused)

lemma reference_delete_cases:
  obtains (refused) "fst (snd (ApplyReferenceDelete ctx rd tx b)) = tx"
  | (applied) ignored where "ignored_owners rd tx (rdqIgnoreOwners rd) = Inr ignored"
      "delete_constraints rd (target_entries tx (rdqTarget rd) ignored) [] = Inr []"
      "fst (snd (ApplyReferenceDelete ctx rd tx b))
        = snd (clear_owners rd (ordered_owners (target_entries tx (rdqTarget rd) ignored)) tx)"
proof (cases "writable ctx tx = None \<and> \<not> (refCollectionID (rdqTarget rd) = [] \<or> refDocumentID (rdqTarget rd) = [])")
  case guards: True
  then have w: "writable ctx tx = None" by blast
  show ?thesis
  proof (cases "ignored_owners rd tx (rdqIgnoreOwners rd)")
    case ignored: (Inr ignored)
    show ?thesis
    proof (cases "delete_constraints rd (target_entries tx (rdqTarget rd) ignored) []")
      case (Inr constraints)
      then show ?thesis
        using guards w ignored refused applied [OF ignored]
        by (cases "constraints = []") (simp_all add: ApplyReferenceDelete_def Let_def split: prod.splits option.splits del: writable_None)
    qed (use guards w ignored refused in \<open>simp add: ApplyReferenceDelete_def Let_def del: writable_None\<close>)
  qed (use guards w refused in \<open>simp add: ApplyReferenceDelete_def del: writable_None\<close>)
qed (use refused in \<open>auto simp: ApplyReferenceDelete_def simp del: writable_None split: option.splits\<close>)

end
