(* ===== verification/Head_Properties.thy ===== *)
theory Head_Properties
  imports Write_Cases
begin

text \<open>
  The working and the published head of a document: a document of a versioned collection
  has a published head exactly while its status is published, and it names the revision
  of that head.
\<close>

definition head_ok :: "collection \<Rightarrow> document \<Rightarrow> document option \<Rightarrow> bool" where
  "head_ok c d live \<longleftrightarrow>
     (case live of
        None \<Rightarrow> colVersions c = None
          \<or> docStatus d \<noteq> StatusPublished \<and> docPublishedRevision d = 0 \<and> \<not> docHasDraftChanges d
      | Some l \<Rightarrow> colVersions c \<noteq> None \<and> docStatus d = StatusPublished \<and> docPublishedRevision d = docRevision l
          \<and> docID l = docID d \<and> docStatus l = StatusPublished \<and> docDeletedAt l = docDeletedAt d)"

definition entry_ok :: "collection \<Rightarrow> documents \<Rightarrow> documents \<Rightarrow> string \<Rightarrow> bool" where
  "entry_ok c working published i \<longleftrightarrow>
     (case map_of working i of
        None \<Rightarrow> map_of published i = None
      | Some d \<Rightarrow> docID d = i \<and> head_ok c d (map_of published i))"

definition heads_ok :: "collection set \<Rightarrow> transaction \<Rightarrow> bool" where
  "heads_ok cs tx \<longleftrightarrow>
     (\<forall>c\<in>cs. \<forall>i. entry_ok c (tx_collection tx (colID c)) (publishedCollection tx (colID c)) i)"

lemma heads_okD:
  assumes "heads_ok cs tx" "c \<in> cs"
  shows "map_of (tx_collection tx (colID c)) i = None \<Longrightarrow> map_of (publishedCollection tx (colID c)) i = None"
    and "map_of (tx_collection tx (colID c)) i = Some d \<Longrightarrow>
      docID d = i \<and> head_ok c d (map_of (publishedCollection tx (colID c)) i)"
proof -
  have "entry_ok c (tx_collection tx (colID c)) (publishedCollection tx (colID c)) i"
    using assms by (simp add: heads_ok_def)
  then show "map_of (tx_collection tx (colID c)) i = None \<Longrightarrow> map_of (publishedCollection tx (colID c)) i = None"
    "map_of (tx_collection tx (colID c)) i = Some d \<Longrightarrow>
      docID d = i \<and> head_ok c d (map_of (publishedCollection tx (colID c)) i)"
    by (simp_all add: entry_ok_def)
qed

text \<open>A write changes one document of one collection.\<close>

definition same_but :: "string \<Rightarrow> string \<Rightarrow> transaction \<Rightarrow> transaction \<Rightarrow> bool" where
  "same_but ci i tx tx' \<longleftrightarrow> (\<forall>cj j. cj \<noteq> ci \<or> j \<noteq> i \<longrightarrow>
     map_of (tx_collection tx' cj) j = map_of (tx_collection tx cj) j
     \<and> map_of (publishedCollection tx' cj) j = map_of (publishedCollection tx cj) j)"

lemma heads_ok_write:
  assumes ok: "heads_ok cs tx" and ids: "inj_on colID cs" and c: "c \<in> cs"
    and same: "same_but (colID c) i tx tx'"
    and new: "entry_ok c (tx_collection tx' (colID c)) (publishedCollection tx' (colID c)) i"
  shows "heads_ok cs tx'"
  unfolding heads_ok_def
proof (intro ballI allI)
  fix c' j assume c': "c' \<in> cs"
  show "entry_ok c' (tx_collection tx' (colID c')) (publishedCollection tx' (colID c')) j"
  proof (cases "c' = c \<and> j = i")
    case False
    then have "colID c' \<noteq> colID c \<or> j \<noteq> i" using ids c c' by (auto dest: inj_onD)
    then have "map_of (tx_collection tx' (colID c')) j = map_of (tx_collection tx (colID c')) j"
      "map_of (publishedCollection tx' (colID c')) j = map_of (publishedCollection tx (colID c')) j"
      using same by (auto simp: same_but_def)
    moreover have "entry_ok c' (tx_collection tx (colID c')) (publishedCollection tx (colID c')) j"
      using ok c' by (simp add: heads_ok_def)
    ultimately show ?thesis by (simp add: entry_ok_def split: option.splits)
  qed (use new in simp)
qed

lemma same_but_refl [simp]: "same_but ci i tx tx"
  by (simp add: same_but_def)

lemma same_but_writes [simp]:
  "same_but ci i tx (put_document ci i d tx') \<longleftrightarrow> same_but ci i tx tx'"
  "same_but ci i tx (put_published ci i d tx') \<longleftrightarrow> same_but ci i tx tx'"
  "same_but ci i tx (delete_document ci i tx') \<longleftrightarrow> same_but ci i tx tx'"
  "same_but ci i tx (delete_published ci i tx') \<longleftrightarrow> same_but ci i tx tx'"
  by (auto simp: same_but_def)

lemma heads_ok_same:
  "txDocuments tx' = txDocuments tx \<Longrightarrow> txPublished tx' = txPublished tx \<Longrightarrow> heads_ok cs tx \<Longrightarrow> heads_ok cs tx'"
  by (simp add: heads_ok_def tx_collection_def publishedCollection_def)

lemma index_heads_documents [simp]:
  "txDocuments (snd (index_heads c ds tx)) = txDocuments tx"
  "txPublished (snd (index_heads c ds tx)) = txPublished tx"
  by (induction ds arbitrary: tx) (auto simp: index_entries_def split: sum.splits)

lemma replace_documents [simp]:
  "txDocuments (snd (replaceReferenceEntries c d tx)) = txDocuments tx"
  "txPublished (snd (replaceReferenceEntries c d tx)) = txPublished tx"
  by (simp_all only: replaceReferenceEntries_def index_heads_documents) (simp_all add: deleteReferenceEntries_def)

lemma delete_entries_documents [simp]:
  "txDocuments (deleteReferenceEntries owner tx) = txDocuments tx"
  "txPublished (deleteReferenceEntries owner tx) = txPublished tx"
  by (simp_all add: deleteReferenceEntries_def)

lemma heads_ok_replaced: "heads_ok cs tx \<Longrightarrow> heads_ok cs (snd (replaceReferenceEntries c d tx))"
  by (erule heads_ok_same [rotated 2]) simp_all

section \<open>Every write\<close>

lemma created_sel [simp]:
  "docID (created_document tr r i now) = i"
  "docHasDraftChanges (created_document tr r i now) = False"
  "docStatus (created_document tr r i now) = initial_status (crqCollection r) (crqStatus r)"
  "docDeletedAt (created_document tr r i now) = None"
  by (simp_all add: created_document_def Let_def)

lemma published_projection_sel [simp]:
  "docID (publishedProjection d) = docID d" "docStatus (publishedProjection d) = StatusPublished"
  "docRevision (publishedProjection d) = docRevision d" "docDeletedAt (publishedProjection d) = docDeletedAt d"
  by (simp_all add: publishedProjection_def)

lemma create_heads:
  assumes ok: "heads_ok cs tx" and ids: "inj_on colID cs" and c: "crqCollection r \<in> cs"
  shows "heads_ok cs (fst (snd (Create tr ctx r now tx b)))"
proof (cases rule: create_cases [of tr ctx r now tx b])
  case (created i d)
  let ?c = "crqCollection r"
  have "map_of (publishedCollection tx (colID ?c)) i = None" by (rule heads_okD(1) [OF ok c created(1)])
  moreover have "docPublishedRevision d > 0 \<longleftrightarrow> colVersions ?c \<noteq> None \<and> docStatus d = StatusPublished"
    "docPublishedRevision d = (if colVersions ?c \<noteq> None \<and> docStatus d = StatusPublished then docRevision d else 0)"
    by (auto simp: created(3) created_document_def Let_def versioned_revision_def)
  ultimately have "heads_ok cs (store_created ?c i d tx)"
    by (intro heads_ok_write [OF ok ids c, of i])
      (auto simp: store_created_def Let_def entry_ok_def head_ok_def created(3))
  then show ?thesis unfolding created(5) by (rule heads_ok_replaced)
qed (simp add: ok)

lemma intent_heads:
  assumes d2: "apply_intent c intent live d1 = Inr d2" and old: "head_ok c d live" "docID d = i"
    and same: "docID d1 = docID d" "docStatus d1 = docStatus d" "docPublishedRevision d1 = docPublishedRevision d"
      "docHasDraftChanges d1 = docHasDraftChanges d" "docDeletedAt d1 = docDeletedAt d"
    and live: "live = map_of (publishedCollection tx (colID c)) i"
    and discard: "intent = WriteIntentDiscardDraft \<Longrightarrow> live \<noteq> None"
  shows "docID d2 = i \<and> same_but (colID c) i tx (store_heads c intent d2 tx)
    \<and> entry_ok c (tx_collection (store_heads c intent d2 tx) (colID c))
         (publishedCollection (store_heads c intent d2 tx) (colID c)) i"
proof (cases "colVersions c = None")
  case True
  then have "d2 = d1" using d2 by (simp add: apply_intent_def split: if_splits)
  then show ?thesis using True old same live by (auto simp: store_heads_def Let_def entry_ok_def head_ok_def split: option.splits)
next
  case False
  then show ?thesis
    using d2 old same live discard
    by (cases intent) (auto simp: apply_intent_def store_heads_def Let_def entry_ok_def head_ok_def StatusDraft_def
        StatusPublished_def split: option.splits if_splits)
qed

lemma update_heads:
  assumes ok: "heads_ok cs tx" and ids: "inj_on colID cs" and c: "reqCollection (urqRequest u) \<in> cs"
  shows "heads_ok cs (fst (snd (Update tr jr ctx u now tx b)))"
proof (cases rule: update_cases [of tr jr ctx u now tx b])
  case (updated d d2)
  let ?c = "reqCollection (urqRequest u)" and ?i = "reqID (urqRequest u)"
  have d: "map_of (tx_collection tx (colID ?c)) ?i = Some d"
    using updated(1) by (simp add: update_allowed_def Let_def)
  note old = heads_okD(2) [OF ok c d]
  have "docID d2 = ?i \<and> same_but (colID ?c) ?i tx (store_heads ?c (urqIntent u) d2 tx)
    \<and> entry_ok ?c (tx_collection (store_heads ?c (urqIntent u) d2 tx) (colID ?c))
         (publishedCollection (store_heads ?c (urqIntent u) d2 tx) (colID ?c)) ?i"
    by (rule intent_heads [OF updated(3), where d = d]) (use old updated(2) in auto)
  then have "heads_ok cs (store_heads ?c (urqIntent u) d2 tx)" using heads_ok_write [OF ok ids c] by blast
  then show ?thesis unfolding updated(5) by (rule heads_ok_replaced)
qed (simp add: ok)

lemma delete_heads:
  assumes ok: "heads_ok cs tx" and "inj_on colID cs" "reqCollection q \<in> cs"
  shows "heads_ok cs (fst (snd (Delete tr ctx q tx b)))"
proof (cases rule: delete_cases [of tr ctx q tx b])
  case (deleted d)
  let ?ci = "colID (reqCollection q)" and ?i = "reqID q"
  have "heads_ok cs (delete_published ?ci ?i (delete_document ?ci ?i tx))"
    by (rule heads_ok_write [OF assms, of ?i]) (simp_all add: entry_ok_def)
  then show ?thesis unfolding deleted(4) by (rule heads_ok_same [rotated 2]) simp_all
qed (simp add: ok)

lemma both_heads:
  assumes ok: "heads_ok cs tx" "inj_on colID cs" "c \<in> cs"
    and d: "map_of (tx_collection tx (colID c)) i = Some d"
  shows "heads_ok cs (store_both c i (set_deletion da now d)
     (map_option (set_deletion da now) (map_of (publishedCollection tx (colID c)) i)) tx)"
  by (rule heads_ok_write [OF ok, of i])
    (use heads_okD(2) [OF ok(1,3) d] in \<open>auto simp: store_both_def Let_def entry_ok_def head_ok_def split: option.splits\<close>)

lemma trash_heads:
  assumes "heads_ok cs tx" "inj_on colID cs" "reqCollection q \<in> cs"
  shows "heads_ok cs (fst (snd (Trash tr ctx q now tx b)))"
  by (cases rule: trash_cases [of tr ctx q now tx b]) (simp_all add: assms both_heads)

lemma restore_heads:
  assumes "heads_ok cs tx" "inj_on colID cs" "reqCollection q \<in> cs"
  shows "heads_ok cs (fst (snd (Restore tr ctx q now tx b)))"
  by (cases rule: restore_cases [of tr ctx q now tx b]) (simp_all add: assms both_heads)

lemma clear_owner_heads:
  assumes ok: "heads_ok cs tx" and ids: "inj_on colID cs"
    and cs: "\<forall>k c. map_of (rdqCollections rd) k = Some c \<longrightarrow> c \<in> cs \<and> colID c = k"
  shows "heads_ok cs (snd (clear_owner rd owner tx))"
proof (cases rule: clear_owner_cases [of rd owner tx])
  case (stale c)
  have "heads_ok cs (deleteReferenceEntries owner tx)" by (rule heads_ok_same [OF _ _ ok]) simp_all
  then show ?thesis by (simp add: stale(3))
next
  case (cleared c d vs changed liveValues liveChanged)
  let ?i = "refDocumentID owner"
  have c: "c \<in> cs" "colID c = refCollectionID owner" using cs cleared(1) by blast+
  have "heads_ok cs (store_cleared owner (if changed then Some (set_values vs d) else None)
      (case map_of (publishedCollection tx (refCollectionID owner)) ?i of
         Some l \<Rightarrow> if liveChanged then Some (set_values liveValues l) else None | None \<Rightarrow> None) tx)"
    by (rule heads_ok_write [OF ok ids c(1), of ?i])
      (use heads_okD(2) [OF ok c(1), of ?i d] cleared(2,5) in
        \<open>auto simp: c(2) store_cleared_def Let_def entry_ok_def head_ok_def split: option.splits\<close>)
  then show ?thesis using heads_ok_replaced by (simp add: cleared(6))
qed (simp add: ok)

lemma clear_owners_heads:
  assumes "inj_on colID cs" "\<forall>k c. map_of (rdqCollections rd) k = Some c \<longrightarrow> c \<in> cs \<and> colID c = k"
  shows "heads_ok cs tx \<Longrightarrow> heads_ok cs (snd (clear_owners rd owners tx))"
proof (induction owners arbitrary: tx)
  case (Cons owner owners)
  have "heads_ok cs (snd (clear_owner rd owner tx))" by (rule clear_owner_heads [OF Cons.prems assms])
  then show ?case using Cons.IH by (auto split: prod.splits option.splits)
qed simp

lemma reference_delete_heads:
  assumes "heads_ok cs tx" "inj_on colID cs" "\<forall>k c. map_of (rdqCollections rd) k = Some c \<longrightarrow> c \<in> cs \<and> colID c = k"
  shows "heads_ok cs (fst (snd (ApplyReferenceDelete ctx rd tx b)))"
  by (cases rule: reference_delete_cases [of ctx rd tx b]) (simp_all add: assms clear_owners_heads)

section \<open>Always\<close>

lemma other_steps_documents:
  "SaveVersion ctx c d maximum now tx b = (v, tx', b') \<Longrightarrow> txDocuments tx' = txDocuments tx \<and> txPublished tx' = txPublished tx"
  "DeleteDocumentState ctx dr tx b = (u, tx', b') \<Longrightarrow> txDocuments tx' = txDocuments tx \<and> txPublished tx' = txPublished tx"
  "tx_DismissTaskForTarget ctx i slug dr tx b = (u, tx', b') \<Longrightarrow> txDocuments tx' = txDocuments tx \<and> txPublished tx' = txPublished tx"
  "CreateAuthCredential ctx c i hash ver tx b = (u, tx', b') \<Longrightarrow> txDocuments tx' = txDocuments tx \<and> txPublished tx' = txPublished tx"
  "CreateFirstAuthCredential ctx c i hash ver tx b = Some (u, tx', b') \<Longrightarrow> txDocuments tx' = txDocuments tx \<and> txPublished tx' = txPublished tx"
  "ForceUnlockAuth ctx ci i tx b = (u, tx', b') \<Longrightarrow> txDocuments tx' = txDocuments tx \<and> txPublished tx' = txPublished tx"
  by (auto simp: SaveVersion_def DeleteDocumentState_def tx_DismissTaskForTarget_def CreateAuthCredential_def
      CreateFirstAuthCredential_def ForceUnlockAuth_def tx_createAuthCredential_def Let_def
      split: option.splits prod.splits if_splits)

lemma step_heads:
  assumes "tx_step tr jr cs s s'" "inj_on colID cs"
  shows "heads_ok cs (fst s) \<Longrightarrow> heads_ok cs (fst s')"
  using assms(1)
proof (induction rule: tx_step.induct)
  case (step_create r ctx now tx b a s)
  then show ?case using create_heads [of cs tx r tr ctx now b] assms(2) by simp
next
  case (step_update u ctx now tx b a s)
  then show ?case using update_heads [of cs tx u tr jr ctx now b] assms(2) by simp
next
  case (step_delete q ctx tx b a s)
  then show ?case using delete_heads [of cs tx q tr ctx b] assms(2) by simp
next
  case (step_trash q ctx now tx b a s)
  then show ?case using trash_heads [of cs tx q tr ctx now b] assms(2) by simp
next
  case (step_restore q ctx now tx b a s)
  then show ?case using restore_heads [of cs tx q tr ctx now b] assms(2) by simp
next
  case (step_reference_delete rd ctx tx b u s)
  then show ?case using reference_delete_heads [of cs tx rd ctx b] assms(2) by simp
qed (auto dest: reads_keep other_steps_documents heads_ok_same [rotated 2] simp del: split_paired_All
    | (cases s', auto dest!: reads_keep other_steps_documents intro: heads_ok_same))+

lemma map_of_map_values: "map_of (map (\<lambda>(k, v). (k, f v)) m) k = map_option f (map_of m k)"
  by (induction m) auto

lemma copied_collection:
  "map_of (tx_collection (copied tx) c) i = map_option CloneDocument (map_of (tx_collection tx c) i)"
  "map_of (publishedCollection (copied tx) c) i = map_option CloneDocument (map_of (publishedCollection tx c) i)"
  by (simp_all add: tx_collection_def publishedCollection_def copied_def cloneCollections_def map_of_map_values
      split: option.splits)

lemma heads_ok_copy: "heads_ok cs tx \<Longrightarrow> heads_ok cs (copied tx)"
  unfolding heads_ok_def entry_ok_def copied_collection head_ok_def
  by (fastforce split: option.splits)

lemma heads_ok_data: "same_data tx tx' \<Longrightarrow> heads_ok cs tx \<Longrightarrow> heads_ok cs tx'"
  by (rule heads_ok_same) (simp_all add: same_data_def)

interpretation heads: document_invariant "tx_step tr jr cs" "\<lambda>tx. inj_on colID cs \<longrightarrow> heads_ok cs tx" for tr jr cs
proof unfold_locales
  show "inj_on colID cs \<longrightarrow> heads_ok cs (begun New)"
    by (simp add: heads_ok_def entry_ok_def tx_collection_def publishedCollection_def begun_def New_def cloneCollections_def)
next
  fix tx b tx' b' assume "tx_step tr jr cs (tx, b) (tx', b')" "inj_on colID cs \<longrightarrow> heads_ok cs tx"
  then show "inj_on colID cs \<longrightarrow> heads_ok cs tx'" using step_heads by fastforce
next
  show "tx_step tr jr cs (tx, b) (tx', b') \<Longrightarrow> durable b' = durable b" for tx b tx' b'
    using step_durable by fastforce
qed (auto intro: heads_ok_copy heads_ok_data)

text \<open>
  C2. However transactions interleave, the store that a transaction finds when it begins and
  every open transaction agree on what is published: a document of a versioned collection
  has a published head exactly while its status is \<open>published\<close>, it names that head's
  revision, both are in the trash or neither is, and nothing is published without a document.
\<close>

theorem live_heads_agree:
  assumes "reachable_system (tx_step tr jr cs) (b, txs)" "inj_on colID cs" "c \<in> cs" "tx = begun b \<or> tx \<in> set txs"
  shows "entry_ok c (tx_collection tx (colID c)) (publishedCollection tx (colID c)) i"
proof -
  have "heads_ok cs tx"
    using heads.always [OF assms(1)] assms(2,4) by blast
  then show ?thesis using assms(3) by (simp add: heads_ok_def)
qed

lemma with_post_reachable:
  "reachable_system (tx_step plain_text no_numbers {drafts_collection}) (snd with_post, [fst with_post])"
proof -
  have "sys_step (tx_step plain_text no_numbers {drafts_collection}) (New, []) (add_event ''begin'' New, [] @ [begun New])"
    by (rule sys_begin [of None]) (simp add: Begin_def)
  moreover note with_post_step
  then have "sys_step (tx_step plain_text no_numbers {drafts_collection}) (add_event ''begin'' New, [begun New])
      (snd with_post, [begun New][0 := fst with_post])"
    by (intro sys_call) simp_all
  ultimately show ?thesis unfolding reachable_system_def by (simp add: converse_rtranclp_into_rtranclp)
qed

theorem live_heads_agree_witness:
  "entry_ok drafts_collection (tx_collection (fst with_post) ''posts'') (publishedCollection (fst with_post) ''posts'') ''p''
   \<and> map_of (publishedCollection (fst with_post) ''posts'') ''p'' \<noteq> None"
proof
  show "entry_ok drafts_collection (tx_collection (fst with_post) ''posts'') (publishedCollection (fst with_post) ''posts'') ''p''"
    using live_heads_agree [OF with_post_reachable, of drafts_collection "fst with_post" "''p''"]
    by (simp add: drafts_collection_def)
  show "map_of (publishedCollection (fst with_post) ''posts'') ''p'' \<noteq> None"
    by code_simp
qed

end
