(* ===== verification/Unique_Properties.thy ===== *)
theory Unique_Properties
  imports Head_Properties
begin

text \<open>
  Unique fields and unique indexes: no two documents of a collection that are both out of the
  trash hold the same values, in their working or in their published heads.
\<close>

section \<open>Two documents\<close>

definition pair_conflict :: "collection \<Rightarrow> document \<Rightarrow> document \<Rightarrow> bool" where
  "pair_conflict c d e \<longleftrightarrow>
     (\<exists>f\<in>set (colFields c). fldUnique f
        \<and> (\<exists>v. map_of (docValues d) (fldName f) = Some v \<and> svalue_Kind v \<noteq> KindNull \<and> field_conflict c f v e))
     \<or> (\<exists>index\<in>set (colIndexes c). cixUnique index
        \<and> (\<exists>locale\<in>set (index_locales c index (docValues d)). tuple_conflict (index_chains c index) locale d e))"

lemma unique_field_conflict_iff:
  "unique_field_conflict ds c d except f \<longleftrightarrow>
     (\<exists>e\<in>set (others ds except). fldUnique f
        \<and> (\<exists>v. map_of (docValues d) (fldName f) = Some v \<and> svalue_Kind v \<noteq> KindNull \<and> field_conflict c f v e))"
  by (cases "map_of (docValues d) (fldName f)") (auto simp: unique_field_conflict_def list_ex_iff)

lemma index_conflict_iff:
  "index_conflict ds c d except index \<longleftrightarrow>
     (\<exists>e\<in>set (others ds except). cixUnique index
        \<and> (\<exists>locale\<in>set (index_locales c index (docValues d)). tuple_conflict (index_chains c index) locale d e))"
  by (simp add: index_conflict_def list_ex_iff) blast

lemma uniqueConflict_iff:
  "uniqueConflict ds c d except \<longleftrightarrow> (\<exists>e\<in>set (others ds except). pair_conflict c d e)"
  by (simp add: uniqueConflict_def compoundUniqueConflict_def pair_conflict_def list_ex_iff unique_field_conflict_iff
      index_conflict_iff del: bex_simps) blast

lemma others_iff: "e \<in> set (others ds except) \<longleftrightarrow> (\<exists>i. (i, e) \<in> set ds \<and> i \<noteq> except \<and> docDeletedAt e = None)"
  by (force simp: others_def)

lemma equalValue_sym: "equalValue v w \<longleftrightarrow> equalValue w v"
  by (auto simp: equalValue_def float_eq_def split: svalue.splits)

lemma equalValue_Null: "equalValue v w \<Longrightarrow> svalue_Kind v = KindNull \<longleftrightarrow> svalue_Kind w = KindNull"
  by (auto simp: equalValue_def split: svalue.splits)

lemma equalValue_object: "svalue_Kind v = KindObject \<Longrightarrow> \<not> equalValue v w \<and> \<not> equalValue w v"
  by (cases v) (auto simp: equalValue_def split: svalue.splits)

lemma entry_names_iff: "locale \<in> set (entry_names v) \<longleftrightarrow> Lookup v locale \<noteq> None"
  by (cases v) (auto simp: entry_names_def s_entries_def map_of_eq_None_iff)

lemma localized_conflict_iff:
  "localizedValuesConflict v w \<longleftrightarrow>
     (if svalue_Kind v \<noteq> KindObject \<or> svalue_Kind w \<noteq> KindObject then equalValue v w
      else \<exists>locale x y. Lookup v locale = Some x \<and> Lookup w locale = Some y
        \<and> svalue_Kind x \<noteq> KindNull \<and> svalue_Kind y \<noteq> KindNull \<and> equalValue x y)"
  unfolding localizedValuesConflict_def list_ex_iff Bex_def entry_names_iff
  by (auto simp: Let_def Get_def split: option.splits) blast

lemma localized_conflict_sym: "localizedValuesConflict v w \<longleftrightarrow> localizedValuesConflict w v"
  unfolding localized_conflict_iff using equalValue_sym by (auto; blast)

lemma field_conflict_sym:
  assumes "map_of (docValues d) (fldName f) = Some v" "svalue_Kind v \<noteq> KindNull" "field_conflict c f v e"
  shows "\<exists>w. map_of (docValues e) (fldName f) = Some w \<and> svalue_Kind w \<noteq> KindNull \<and> field_conflict c f w d"
proof -
  obtain w where w: "map_of (docValues e) (fldName f) = Some w"
    and same: "if fldLocalized f then localizedValuesConflict w v else uniqueFieldValuesEqual c f w v"
    using assms(3) by (auto simp: field_conflict_def split: option.splits)
  have "svalue_Kind w \<noteq> KindNull"
    using same assms(2) equalValue_Null
    by (auto simp: localized_conflict_iff uniqueFieldValuesEqual_def s_string_def split: if_splits svalue.splits)
  moreover have "if fldLocalized f then localizedValuesConflict v w else uniqueFieldValuesEqual c f v w"
    using same localized_conflict_sym [of v w] equalValue_sym [of v w]
    by (auto simp: uniqueFieldValuesEqual_def split: if_splits option.splits)
  ultimately show ?thesis using w assms(1) by (auto simp: field_conflict_def)
qed

text \<open>A locale under which an indexed value is found is one the document's values name.\<close>

lemma indexed_below_None: "indexed_below None locale chain = None"
  by (cases chain) auto

lemma indexed_locale:
  "indexed_below (Some x) locale chain = Some v \<Longrightarrow> indexedChainLocalized chain \<Longrightarrow> chain \<noteq> [] \<Longrightarrow>
   \<exists>y. Lookup x (fldName (hd chain)) = Some y \<and> locale \<in> set (collectIndexedLocaleValue y chain)"
proof (induction chain arbitrary: x)
  case (Cons f chain)
  then obtain y where y: "Lookup x (fldName f) = Some y"
    and rest: "indexed_below (if fldLocalized f then Lookup y locale else Some y) locale chain = Some v"
    by (auto split: option.splits)
  have "locale \<in> set (collectIndexedLocaleValue y (f # chain))"
  proof (cases "fldLocalized f")
    case True
    then have "Lookup y locale \<noteq> None" using rest by (cases "Lookup y locale") (simp_all add: indexed_below_None)
    moreover from this have "svalue_Kind y \<noteq> KindNull" by (cases y) auto
    ultimately show ?thesis using True by (auto simp: entry_names_iff)
  next
    case False
    then have "chain \<noteq> []" "indexedChainLocalized chain" using Cons.prems(2) by (auto simp: indexedChainLocalized_def)
    then obtain z where z: "Lookup y (fldName (hd chain)) = Some z" "locale \<in> set (collectIndexedLocaleValue z chain)"
      using Cons.IH [of y] rest False by auto
    then have "svalue_Kind y \<noteq> KindNull" by (cases y) auto
    then show ?thesis using False z \<open>chain \<noteq> []\<close> by (cases chain) (auto simp: Get_def)
  qed
  then show ?case using y by simp
qed simp

lemma indexedTuple_each:
  "indexedTuple d parts locale = Some tuple \<Longrightarrow> chain \<in> set parts \<Longrightarrow> \<exists>v. indexedValue (docValues d) chain locale = Some v"
  by (induction parts arbitrary: tuple) (auto split: option.splits if_splits)

lemma indexed_locale_collected:
  assumes "indexedTuple e (index_chains c index) locale = Some tuple"
    and "locale \<in> set (index_locales c index (docValues d))"
  shows "locale \<in> set (index_locales c index (docValues e))"
proof (cases "list_ex indexedChainLocalized (index_chains c index)")
  case True
  then obtain chain where chain: "chain \<in> set (index_chains c index)" "indexedChainLocalized chain"
    by (auto simp: list_ex_iff)
  obtain v where v: "indexedValue (docValues e) chain locale = Some v" using indexedTuple_each [OF assms(1) chain(1)] by blast
  obtain f fs where fs: "chain = f # fs" using v by (cases chain) (auto simp: indexedValue_def)
  obtain y where "map_of (docValues e) (fldName f) = Some y" "locale \<in> set (collectIndexedLocaleValue y chain)"
    using indexed_locale [of "SObject (docValues e)" "locale" chain v] v chain(2) by (auto simp: indexedValue_def fs)
  then have "locale \<in> set (collectIndexedLocales (docValues e) chain)" by (simp add: collectIndexedLocales_def fs)
  then show ?thesis using chain(1) by (auto simp: index_locales_def)
next
  case False
  have none: "collectIndexedLocaleValue v chain = []" if "\<not> indexedChainLocalized chain" for v :: svalue and chain
    using that
  proof (induction chain arbitrary: v)
    case (Cons f chain)
    then show ?case by (cases chain) (auto simp: indexedChainLocalized_def)
  qed simp
  have "collectIndexedLocales vs chain = []" if "chain \<in> set (index_chains c index)" for vs chain
  proof -
    have "\<not> indexedChainLocalized chain" using that False by (simp add: list_ex_iff)
    then have empty: "collectIndexedLocaleValue v chain = []" for v by (rule none)
    show ?thesis
    proof (cases chain)
      case (Cons f fs)
      then show ?thesis using empty by (simp add: collectIndexedLocales_def del: collectIndexedLocaleValue.simps)
    qed (simp add: collectIndexedLocales_def)
  qed
  then show ?thesis using assms(2) False by (simp add: index_locales_def)
qed

lemma tuples_equal_sym: "tuples_equal xs ys \<longleftrightarrow> tuples_equal ys xs"
proof (induction xs arbitrary: ys)
  case (Cons x xs)
  then show ?case using equalValue_sym by (cases ys) (auto simp: tuples_equal_def)
qed (simp add: tuples_equal_def)

lemma pair_conflict_sym: "pair_conflict c d e \<Longrightarrow> pair_conflict c e d"
proof -
  assume "pair_conflict c d e"
  then consider
      (field) f v where "f \<in> set (colFields c)" "fldUnique f" "map_of (docValues d) (fldName f) = Some v"
        "svalue_Kind v \<noteq> KindNull" "field_conflict c f v e"
    | (index) index loc where "index \<in> set (colIndexes c)" "cixUnique index"
        "loc \<in> set (index_locales c index (docValues d))" "tuple_conflict (index_chains c index) loc d e"
    unfolding pair_conflict_def by blast
  then show ?thesis
  proof cases
    case field
    then show ?thesis using field_conflict_sym [OF field(3-5)] unfolding pair_conflict_def by blast
  next
    case index
    obtain s t where st: "indexedTuple d (index_chains c index) loc = Some s"
      "indexedTuple e (index_chains c index) loc = Some t" "tuples_equal t s"
      using index(4) by (auto simp: tuple_conflict_def split: option.splits)
    have "tuple_conflict (index_chains c index) loc e d"
      using st tuples_equal_sym by (simp add: tuple_conflict_def)
    moreover have "loc \<in> set (index_locales c index (docValues e))"
      by (rule indexed_locale_collected [OF st(2) index(3)])
    ultimately show ?thesis using index(1,2) unfolding pair_conflict_def by blast
  qed
qed

text \<open>Only what a name holds matters, not how the values are listed.\<close>

lemma pair_conflict_values:
  assumes d: "\<And>k. map_of (docValues d) k = map_of (docValues d') k"
    and e: "\<And>k. map_of (docValues e) k = map_of (docValues e') k"
  shows "pair_conflict c d e = pair_conflict c d' e'"
proof -
  have val: "indexedValue (docValues x) chain loc = indexedValue (docValues y) chain loc"
    if "\<And>k. map_of (docValues x) k = map_of (docValues y) k" for x y :: document and chain loc
    using that by (cases chain) (simp_all add: indexedValue_def)
  have tup: "indexedTuple x parts loc = indexedTuple y parts loc"
    if "\<And>k. map_of (docValues x) k = map_of (docValues y) k" for x y parts loc
    by (induction parts) (simp_all add: val [OF that] split: option.split)
  have "collectIndexedLocales (docValues d) = collectIndexedLocales (docValues d')"
    by (rule ext) (simp add: collectIndexedLocales_def d split: list.splits)
  then have "index_locales c index (docValues d) = index_locales c index (docValues d')" for index
    by (simp add: index_locales_def)
  then show ?thesis
    unfolding pair_conflict_def field_conflict_def tuple_conflict_def tup [OF d] tup [OF e] d e by simp
qed

section \<open>The heads of a transaction\<close>

definition head_at :: "transaction \<Rightarrow> string \<Rightarrow> string \<Rightarrow> document \<Rightarrow> bool" where
  "head_at tx ci i d \<longleftrightarrow> map_of (tx_collection tx ci) i = Some d \<or> map_of (publishedCollection tx ci) i = Some d"

definition unique_ok :: "collection set \<Rightarrow> transaction \<Rightarrow> bool" where
  "unique_ok cs tx \<longleftrightarrow> (\<forall>c\<in>cs. \<forall>i j d e. i \<noteq> j \<and> head_at tx (colID c) i d \<and> head_at tx (colID c) j e
     \<and> docDeletedAt d = None \<and> docDeletedAt e = None \<longrightarrow> \<not> pair_conflict c d e)"

definition names_ok :: "transaction \<Rightarrow> bool" where
  "names_ok tx \<longleftrightarrow> (\<forall>ci i d. head_at tx ci i d \<longrightarrow> wf_map (docValues d))"

lemma no_head_conflict:
  assumes "\<not> uniqueHeadConflict tx c w p" "head_at tx (colID c) j e" "j \<noteq> docID w" "docDeletedAt e = None"
  shows "\<not> pair_conflict c w e" "p = Some q \<Longrightarrow> \<not> pair_conflict c q e"
proof -
  have "e \<in> set (others (tx_collection tx (colID c)) (docID w)) \<or> e \<in> set (others (publishedCollection tx (colID c)) (docID w))"
    using assms(2-4) by (auto simp: head_at_def others_iff dest: map_of_SomeD)
  then show "\<not> pair_conflict c w e" "p = Some q \<Longrightarrow> \<not> pair_conflict c q e"
    using assms(1) by (auto simp: uniqueHeadConflict_def Let_def uniqueConflict_iff)
qed

lemma head_at_other:
  "same_but ci i tx tx' \<Longrightarrow> cj \<noteq> ci \<or> j \<noteq> i \<Longrightarrow> head_at tx' cj j d = head_at tx cj j d"
  by (auto simp: same_but_def head_at_def)

lemma unique_write:
  assumes ok: "unique_ok cs tx" and ids: "inj_on colID cs" and c: "c \<in> cs" and same: "same_but (colID c) i tx tx'"
    and new: "\<And>d j e. head_at tx' (colID c) i d \<Longrightarrow> docDeletedAt d = None \<Longrightarrow> j \<noteq> i \<Longrightarrow>
      head_at tx (colID c) j e \<Longrightarrow> docDeletedAt e = None \<Longrightarrow> \<not> pair_conflict c d e"
  shows "unique_ok cs tx'"
  unfolding unique_ok_def
proof (intro ballI allI impI, elim conjE)
  fix c' k j d e
  assume c': "c' \<in> cs" and kj: "k \<noteq> j" and d: "head_at tx' (colID c') k d" "docDeletedAt d = None"
    and e: "head_at tx' (colID c') j e" "docDeletedAt e = None"
  show "\<not> pair_conflict c' d e"
  proof (cases "c' = c \<and> (k = i \<or> j = i)")
    case True
    then show ?thesis
      using new [OF _ d(2) _ _ e(2), of j] new [OF _ e(2) _ _ d(2), of k] d(1) e(1) kj head_at_other [OF same]
        pair_conflict_sym [of c d e] by metis
  next
    case False
    then have "colID c' \<noteq> colID c \<or> k \<noteq> i \<and> j \<noteq> i" using ids c c' by (auto dest: inj_onD)
    then have "head_at tx (colID c') k d" "head_at tx (colID c') j e" using d(1) e(1) head_at_other [OF same] by metis+
    then show ?thesis using ok c' kj d(2) e(2) unfolding unique_ok_def by blast
  qed
qed

lemma names_write:
  assumes "names_ok tx" "same_but ci i tx tx'" "\<And>d. head_at tx' ci i d \<Longrightarrow> wf_map (docValues d)"
  shows "names_ok tx'"
  unfolding names_ok_def using assms head_at_other [OF assms(2)] by (metis names_ok_def)

section \<open>Values\<close>

lemma wf_CloneValues_map [simp]: "wf_map (CloneValues vs)"
proof -
  have "wf_map m \<Longrightarrow> wf_map (fold (\<lambda>(name, v). put name v) vs m)" for m
    by (induction vs arbitrary: m) auto
  then show ?thesis by (simp add: CloneValues_def)
qed

lemma wf_canonical [simp]: "wf_map vs \<Longrightarrow> wf_map (canonicalizeTestAuthIdentity tr c vs)"
  by (auto simp: canonicalizeTestAuthIdentity_def split: option.splits svalue.splits)

lemma wf_merge_roots: "wf_map vs \<Longrightarrow> wf_map (merge_roots fs patch vs)"
  by (induction fs patch vs rule: merge_roots.induct) (auto split: option.splits)

lemma wf_updated [simp]: "wf_map (updated_values tr u d live)"
  by (auto simp: updated_values_def Let_def MergeStoragePatch_def wf_merge_roots split: write_intent.splits option.splits)

lemma wf_created [simp]: "wf_map (docValues (created_document tr r i now))"
  by (simp add: created_document_def Let_def)

lemma projection_values [simp]: "docValues (publishedProjection d) = CloneValues (docValues d)"
  by (simp add: publishedProjection_def)

lemma pair_conflict_same: "docValues d = docValues d' \<Longrightarrow> docValues e = docValues e' \<Longrightarrow> pair_conflict c d e = pair_conflict c d' e'"
  by (rule pair_conflict_values) simp_all

lemma set_deletion_values [simp]: "docValues (set_deletion da now d) = docValues d" "docDeletedAt (set_deletion da now d) = da"
  by (cases d; simp add: set_deletion_def)+

section \<open>Every write\<close>

definition documents_ok :: "collection set \<Rightarrow> transaction \<Rightarrow> bool" where
  "documents_ok cs tx \<longleftrightarrow> heads_ok cs tx \<and> unique_ok cs tx \<and> names_ok tx"

lemma documents_ok_write:
  assumes "documents_ok cs tx" "heads_ok cs tx'" "inj_on colID cs" "c \<in> cs" "same_but (colID c) i tx tx'"
    and "\<And>d. head_at tx' (colID c) i d \<Longrightarrow> wf_map (docValues d)"
    and "\<And>d j e. head_at tx' (colID c) i d \<Longrightarrow> docDeletedAt d = None \<Longrightarrow> j \<noteq> i \<Longrightarrow>
      head_at tx (colID c) j e \<Longrightarrow> docDeletedAt e = None \<Longrightarrow> \<not> pair_conflict c d e"
  shows "documents_ok cs tx'"
  using assms unique_write [of cs tx c i tx'] names_write [of tx "colID c" i tx'] unfolding documents_ok_def by blast

lemma documents_ok_same:
  "txDocuments tx' = txDocuments tx \<Longrightarrow> txPublished tx' = txPublished tx \<Longrightarrow> documents_ok cs tx \<Longrightarrow> documents_ok cs tx'"
proof -
  assume same: "txDocuments tx' = txDocuments tx" "txPublished tx' = txPublished tx" and ok: "documents_ok cs tx"
  have "head_at tx' = head_at tx" by (intro ext) (simp add: head_at_def tx_collection_def publishedCollection_def same)
  then have "unique_ok cs tx' = unique_ok cs tx" "names_ok tx' = names_ok tx"
    by (simp_all only: unique_ok_def names_ok_def)
  then show "documents_ok cs tx'"
    using ok heads_ok_same [OF same] by (simp add: documents_ok_def)
qed

lemma head_writes [simp]:
  "head_at (put_document ci i d tx) ci i x \<longleftrightarrow> x = d \<or> map_of (publishedCollection tx ci) i = Some x"
  "head_at (put_published ci i l (put_document ci i d tx)) ci i x \<longleftrightarrow> x = d \<or> x = l"
  "head_at (delete_published ci i (put_document ci i d tx)) ci i x \<longleftrightarrow> x = d"
  "\<not> head_at (delete_published ci i (delete_document ci i tx)) ci i x"
  by (auto simp: head_at_def)

lemma created_unique:
  assumes ok: "documents_ok cs tx" and ids: "inj_on colID cs" and c: "crqCollection r \<in> cs"
  shows "documents_ok cs (fst (snd (Create tr ctx r now tx b)))"
proof (cases rule: create_cases [of tr ctx r now tx b])
  case (created i d)
  let ?c = "crqCollection r" and ?stored = "store_created (crqCollection r) i d tx"
  have heads: "heads_ok cs (fst (snd (Create tr ctx r now tx b)))"
    using create_heads ok ids c by (simp add: documents_ok_def)
  have wf: "wf_map (docValues d)" by (simp add: created(3))
  have "map_of (publishedCollection tx (colID ?c)) i = None"
    using ok created(1) heads_okD(1) [OF _ c] by (simp add: documents_ok_def)
  then have at: "x = d \<or> x = publishedProjection d" if "head_at ?stored (colID ?c) i x" for x
    using that by (auto simp: store_created_def Let_def split: if_splits)
  have vals: "docValues x = docValues d" if "head_at ?stored (colID ?c) i x" for x
    using at [OF that] wf by (auto simp: CloneValues_id)
  have "documents_ok cs ?stored"
  proof (rule documents_ok_write [OF ok _ ids c, of _ i])
    show "heads_ok cs ?stored" using heads unfolding created(5) by (rule heads_ok_same [rotated 2]) simp_all
    show "same_but (colID ?c) i tx ?stored" by (simp add: store_created_def Let_def)
    show "wf_map (docValues x)" if "head_at ?stored (colID ?c) i x" for x using vals [OF that] wf by simp
    show "\<not> pair_conflict ?c x e" if "head_at ?stored (colID ?c) i x" "j \<noteq> i" "head_at tx (colID ?c) j e" "docDeletedAt e = None" for x j e
      using no_head_conflict(1) [OF created(4) that(3) _ that(4)] that(2) created(3)
        pair_conflict_same [OF vals [OF that(1)] refl] by simp
  qed
  then show ?thesis unfolding created(5) by (rule documents_ok_same [rotated 2]) simp_all
qed (simp add: ok)

lemma apply_intent_values: "apply_intent c intent live d = Inr d' \<Longrightarrow> docValues d' = docValues d \<and> docID d' = docID d"
  by (cases intent) (auto simp: apply_intent_def split: if_splits option.splits)

lemma stored_heads:
  assumes "head_at (store_heads c intent d tx) (colID c) (docID d) x"
  shows "x = d \<or> next_live c intent live d = Some x \<or> map_of (publishedCollection tx (colID c)) (docID d) = Some x"
  using assms by (cases intent) (auto simp: store_heads_def next_live_def Let_def split: if_splits)

lemma next_live_values: "next_live c intent live d = Some x \<Longrightarrow> live = Some x \<or> x = publishedProjection d"
  by (cases intent) (auto simp: next_live_def split: if_splits)

lemma store_heads_same: "same_but (colID c) (docID d) tx (store_heads c intent d tx)"
  by (cases intent) (auto simp: store_heads_def Let_def)

lemma updated_unique:
  assumes ok: "documents_ok cs tx" and ids: "inj_on colID cs" and c: "reqCollection (urqRequest u) \<in> cs"
  shows "documents_ok cs (fst (snd (Update tr jr ctx u now tx b)))"
proof (cases rule: update_cases [of tr jr ctx u now tx b])
  case (updated d d2)
  let ?c = "reqCollection (urqRequest u)" and ?i = "reqID (urqRequest u)"
  let ?live = "map_of (publishedCollection tx (colID ?c)) ?i" and ?stored = "store_heads ?c (urqIntent u) d2 tx"
  have old: "heads_ok cs tx" "unique_ok cs tx" "names_ok tx" using ok by (simp_all add: documents_ok_def)
  have d: "map_of (tx_collection tx (colID ?c)) ?i = Some d"
    using updated(1) by (simp add: update_allowed_def Let_def)
  then have i: "docID d2 = ?i" using apply_intent_values [OF updated(3)] heads_okD(2) [OF old(1) c d] by simp
  have wf: "wf_map (docValues d2)" using apply_intent_values [OF updated(3)] by simp
  have at: "x = d2 \<or> next_live ?c (urqIntent u) ?live d2 = Some x \<or> ?live = Some x"
    if "head_at ?stored (colID ?c) ?i x" for x
    using stored_heads [of ?c "urqIntent u" d2 tx x ?live] that i by simp
  have live: "head_at tx (colID ?c) ?i x" if "?live = Some x" for x using that by (simp add: head_at_def)
  have "documents_ok cs ?stored"
  proof (rule documents_ok_write [OF ok _ ids c, of _ ?i])
    have "heads_ok cs (fst (snd (Update tr jr ctx u now tx b)))" by (rule update_heads [OF old(1) ids c])
    then show "heads_ok cs ?stored" unfolding updated(5) by (rule heads_ok_same [rotated 2]) simp_all
    show "same_but (colID ?c) ?i tx ?stored" using store_heads_same [of ?c d2 tx "urqIntent u"] i by simp
    show "wf_map (docValues x)" if "head_at ?stored (colID ?c) ?i x" for x
      using at [OF that] next_live_values [of ?c "urqIntent u" ?live d2 x] wf live old(3) by (auto simp: names_ok_def)
    show "\<not> pair_conflict ?c x e"
      if "head_at ?stored (colID ?c) ?i x" "docDeletedAt x = None" "j \<noteq> ?i" "head_at tx (colID ?c) j e" "docDeletedAt e = None" for x j e
      using at [OF that(1)] no_head_conflict [OF updated(4) that(4) _ that(5)] that live [of x] old(2) c i
      unfolding unique_ok_def by metis
  qed
  then show ?thesis unfolding updated(5) by (rule documents_ok_same [rotated 2]) simp_all
qed (simp add: ok)

lemma deleted_unique:
  assumes ok: "documents_ok cs tx" "inj_on colID cs" and c: "reqCollection q \<in> cs"
  shows "documents_ok cs (fst (snd (Delete tr ctx q tx b)))"
proof (cases rule: delete_cases [of tr ctx q tx b])
  case (deleted d)
  let ?ci = "colID (reqCollection q)" and ?i = "reqID q"
  let ?gone = "delete_published ?ci ?i (delete_document ?ci ?i tx)"
  have "heads_ok cs (fst (snd (Delete tr ctx q tx b)))" using delete_heads assms by (simp add: documents_ok_def)
  then have "heads_ok cs ?gone" unfolding deleted(4) by (rule heads_ok_same [rotated 2]) simp_all
  then have "documents_ok cs ?gone" by (rule documents_ok_write [OF ok(1) _ ok(2) c, of _ ?i]) simp_all
  then show ?thesis unfolding deleted(4) by (rule documents_ok_same [rotated 2]) simp_all
qed (simp add: ok)

lemma both_unique:
  assumes ok: "documents_ok cs tx" and ids: "inj_on colID cs" and c: "c \<in> cs"
    and d: "map_of (tx_collection tx (colID c)) i = Some d"
    and free: "\<And>x j e. da = None \<Longrightarrow>
       x = set_deletion da now d \<or> map_option (set_deletion da now) (map_of (publishedCollection tx (colID c)) i) = Some x \<Longrightarrow>
       j \<noteq> i \<Longrightarrow> head_at tx (colID c) j e \<Longrightarrow> docDeletedAt e = None \<Longrightarrow> \<not> pair_conflict c x e"
  shows "documents_ok cs (store_both c i (set_deletion da now d)
     (map_option (set_deletion da now) (map_of (publishedCollection tx (colID c)) i)) tx)" (is "documents_ok cs ?stored")
proof -
  let ?l = "map_of (publishedCollection tx (colID c)) i"
  have old: "heads_ok cs tx" "names_ok tx" using ok by (simp_all add: documents_ok_def)
  have at: "x = set_deletion da now d \<or> map_option (set_deletion da now) ?l = Some x"
    if "head_at ?stored (colID c) i x" for x
    using that by (cases ?l) (auto simp: store_both_def Let_def)
  then have vals: "\<exists>y. head_at tx (colID c) i y \<and> x = set_deletion da now y" if "head_at ?stored (colID c) i x" for x
    using that d by (fastforce simp: head_at_def)
  show ?thesis
  proof (rule documents_ok_write [OF ok both_heads [OF old(1) ids c d] ids c, of i])
    show "same_but (colID c) i tx ?stored" by (simp add: store_both_def Let_def split: option.split)
    show "wf_map (docValues x)" if "head_at ?stored (colID c) i x" for x
      using vals [OF that] old(2) by (auto simp: names_ok_def)
    show "\<not> pair_conflict c x e"
      if "head_at ?stored (colID c) i x" "docDeletedAt x = None" "j \<noteq> i" "head_at tx (colID c) j e" "docDeletedAt e = None" for x j e
    proof (rule free [OF _ at [OF that(1)] that(3-5)])
      show "da = None" using vals [OF that(1)] that(2) by auto
    qed
  qed
qed

lemma trashed_unique:
  assumes "documents_ok cs tx" "inj_on colID cs" "reqCollection q \<in> cs"
  shows "documents_ok cs (fst (snd (Trash tr ctx q now tx b)))"
proof (cases rule: trash_cases [of tr ctx q now tx b])
  case (trashed d)
  then show ?thesis using both_unique [OF assms trashed(1), of "Some now" now] by simp
qed (simp add: assms)

lemma restored_unique:
  assumes ok: "documents_ok cs tx" "inj_on colID cs" and c: "reqCollection q \<in> cs"
  shows "documents_ok cs (fst (snd (Restore tr ctx q now tx b)))"
proof (cases rule: restore_cases [of tr ctx q now tx b])
  case (restored d)
  have "docID d = reqID q" using heads_okD(2) [OF _ c restored(1)] ok(1) by (simp add: documents_ok_def)
  then show ?thesis
    unfolding restored(4)
    by (intro both_unique [OF ok c restored(1)]) (use no_head_conflict [OF restored(3)] in auto)
qed (simp add: ok)

section \<open>Always\<close>

text \<open>
  The calls of a transaction, other than those that clear references in place: the writes
  of documents and every call that leaves the documents alone.
\<close>

inductive plain_step ::
  "text_rules \<Rightarrow> json_rules \<Rightarrow> collection set \<Rightarrow> transaction \<times> backend \<Rightarrow> transaction \<times> backend \<Rightarrow> bool"
  for tr jr cs where
  plain_create: "crqCollection r \<in> cs \<Longrightarrow> Create tr ctx r now tx b = (a, s) \<Longrightarrow> plain_step tr jr cs (tx, b) s"
| plain_update: "reqCollection (urqRequest u) \<in> cs \<Longrightarrow> Update tr jr ctx u now tx b = (a, s) \<Longrightarrow> plain_step tr jr cs (tx, b) s"
| plain_delete: "reqCollection q \<in> cs \<Longrightarrow> Delete tr ctx q tx b = (a, s) \<Longrightarrow> plain_step tr jr cs (tx, b) s"
| plain_trash: "reqCollection q \<in> cs \<Longrightarrow> Trash tr ctx q now tx b = (a, s) \<Longrightarrow> plain_step tr jr cs (tx, b) s"
| plain_restore: "reqCollection q \<in> cs \<Longrightarrow> Restore tr ctx q now tx b = (a, s) \<Longrightarrow> plain_step tr jr cs (tx, b) s"
| plain_other: "tx_step tr jr cs (tx, b) (tx', b') \<Longrightarrow> txDocuments tx' = txDocuments tx \<Longrightarrow>
    txPublished tx' = txPublished tx \<Longrightarrow> plain_step tr jr cs (tx, b) (tx', b')"

lemma plain_is_step: "plain_step tr jr cs s s' \<Longrightarrow> tx_step tr jr cs s s'"
  by (induction rule: plain_step.induct) (auto intro: tx_step.intros)

lemma plain_step_ok:
  assumes "plain_step tr jr cs s s'" "inj_on colID cs"
  shows "documents_ok cs (fst s) \<Longrightarrow> documents_ok cs (fst s')"
  using assms(1)
proof (induction rule: plain_step.induct)
  case (plain_create r ctx now tx b a s)
  then show ?case using created_unique [of cs tx r tr ctx now b] assms(2) by simp
next
  case (plain_update u ctx now tx b a s)
  then show ?case using updated_unique [of cs tx u tr jr ctx now b] assms(2) by simp
next
  case (plain_delete q ctx tx b a s)
  then show ?case using deleted_unique [of cs tx q tr ctx b] assms(2) by simp
next
  case (plain_trash q ctx now tx b a s)
  then show ?case using trashed_unique [of cs tx q tr ctx now b] assms(2) by simp
next
  case (plain_restore q ctx now tx b a s)
  then show ?case using restored_unique [of cs tx q tr ctx now b] assms(2) by simp
next
  case (plain_other tx b tx' b')
  then show ?case using documents_ok_same [of tx' tx cs] by simp
qed

lemma head_at_copied: "head_at (copied tx) ci i d \<Longrightarrow> \<exists>e. head_at tx ci i e \<and> d = CloneDocument e"
  by (auto simp: head_at_def copied_collection)

lemma documents_ok_copy:
  assumes "documents_ok cs tx"
  shows "documents_ok cs (copied tx)"
proof -
  have old: "heads_ok cs tx" "unique_ok cs tx" "names_ok tx" using assms by (simp_all add: documents_ok_def)
  have clone: "docValues (CloneDocument d) = docValues d" if "head_at tx ci i d" for ci i d
    using old(3) that by (auto simp: names_ok_def CloneValues_id)
  have "unique_ok cs (copied tx)"
    unfolding unique_ok_def
  proof (intro ballI allI impI, elim conjE)
    fix c i j d e
    assume c: "c \<in> cs" "i \<noteq> j" and d: "head_at (copied tx) (colID c) i d" "docDeletedAt d = None"
      and e: "head_at (copied tx) (colID c) j e" "docDeletedAt e = None"
    obtain x where x: "head_at tx (colID c) i x" "d = CloneDocument x" using head_at_copied [OF d(1)] by blast
    obtain y where y: "head_at tx (colID c) j y" "e = CloneDocument y" using head_at_copied [OF e(1)] by blast
    have "\<not> pair_conflict c x y" using old(2) c x y d(2) e(2) by (auto simp: unique_ok_def)
    then show "\<not> pair_conflict c d e" using pair_conflict_same [of d x e y c] clone x y by simp
  qed
  moreover have "names_ok (copied tx)" unfolding names_ok_def using head_at_copied by fastforce
  ultimately show ?thesis using heads_ok_copy [OF old(1)] by (simp add: documents_ok_def)
qed

lemma documents_ok_empty: "documents_ok cs (begun New)"
  by (simp add: documents_ok_def heads_ok_def entry_ok_def unique_ok_def names_ok_def head_at_def tx_collection_def
      publishedCollection_def begun_def New_def cloneCollections_def)

interpretation uniques: document_invariant "plain_step tr jr cs" "\<lambda>tx. inj_on colID cs \<longrightarrow> documents_ok cs tx" for tr jr cs
proof unfold_locales
  fix tx b tx' b' assume step: "plain_step tr jr cs (tx, b) (tx', b')"
  show "durable b' = durable b" using step_durable [OF plain_is_step [OF step]] by simp
  assume "inj_on colID cs \<longrightarrow> documents_ok cs tx"
  then show "inj_on colID cs \<longrightarrow> documents_ok cs tx'" using plain_step_ok [OF step] by simp
next
  fix tx tx' assume "same_data tx tx'" "inj_on colID cs \<longrightarrow> documents_ok cs tx"
  then show "inj_on colID cs \<longrightarrow> documents_ok cs tx'" using documents_ok_same [of tx' tx] by (simp add: same_data_def)
qed (auto intro: documents_ok_copy documents_ok_empty)


definition slug_collection :: collection where
  "slug_collection = zero_collection\<lparr>colID := ''posts'', colFields :=
     [FieldDef ''f'' ''slug'' [''slug''] FieldTypeText FieldCategoryScalar False True False False
        None None None None None None None no_details]\<rparr>"

definition create_slug :: "string \<Rightarrow> string \<Rightarrow> create_request" where
  "create_slug i slug = \<lparr>crqCollection = slug_collection, crqID = i, crqValues = [(''slug'', SString slug)], crqStatus = [],
     crqCreatedAt = zero_time, crqUpdatedAt = zero_time\<rparr>"

definition one_slug :: "transaction \<times> backend" where
  "one_slug = snd (Create plain_text None (create_slug ''p'' ''home'') 5 (begun New) (add_event ''begin'' New))"

definition two_slugs :: "transaction \<times> backend" where
  "two_slugs = snd (Create plain_text None (create_slug ''q'' ''about'') 6 (fst one_slug) (snd one_slug))"

lemma created_reachable:
  assumes "reachable_system (plain_step tr jr cs) (b, [tx])" "crqCollection r \<in> cs" "Create tr ctx r now tx b = (a, tx', b')"
  shows "reachable_system (plain_step tr jr cs) (b', [tx'])"
proof -
  have "sys_step (plain_step tr jr cs) (b, [tx]) (b', [tx][0 := tx'])"
    by (rule sys_call) (simp_all add: plain_create [OF assms(2,3)])
  then show ?thesis using assms(1) unfolding reachable_system_def by (simp add: rtranclp.rtrancl_into_rtrancl)
qed

lemma two_slugs_reachable:
  "reachable_system (plain_step plain_text no_numbers {slug_collection}) (snd two_slugs, [fst two_slugs])"
proof -
  have "sys_step (plain_step plain_text no_numbers {slug_collection}) (New, []) (add_event ''begin'' New, [] @ [begun New])"
    by (rule sys_begin [of None]) (simp add: Begin_def)
  then have "reachable_system (plain_step plain_text no_numbers {slug_collection}) (add_event ''begin'' New, [begun New])"
    by (simp add: reachable_system_def)
  then have "reachable_system (plain_step plain_text no_numbers {slug_collection}) (snd one_slug, [fst one_slug])"
    by (rule created_reachable [where r = "create_slug ''p'' ''home''" and ctx = None and now = 5])
      (simp_all add: one_slug_def create_slug_def prod_eq_iff)
  then show ?thesis
    by (rule created_reachable [where r = "create_slug ''q'' ''about''" and ctx = None and now = 6])
      (simp_all add: two_slugs_def create_slug_def prod_eq_iff)
qed


end
