(* ===== verification/Spec2Isabelle.thy ===== *)
theory Spec2Isabelle
  imports Query Values Requests Task_Properties Auth_Properties Embedded_Properties
    Population_Properties Reference_Properties Projection_Properties Value_JSON_Properties
    Value_JSON_Termination Lock_Wait_Properties Json_Limit Block_Walk_Properties Validation_Typing Upload_Locks Document_Locks Unique_Properties
begin

text \<open>
  Verification development for Ridu, a headless content management system written in
  Go.

  The program. A project declares collections of fields; the resolved schema
  (\<open>schema/\<close>) is data for everything else. Stored values (\<open>store/value.go\<close>), queries
  (\<open>query/\<close>) and the store contract (\<open>store/store.go\<close>) are what the operation engine and
  the database adapters share. The walks over values that the schema directs
  (\<open>internal/population\<close>, \<open>internal/embedded\<close>, \<open>internal/referenceindex\<close>,
  \<open>internal/localization\<close>, \<open>internal/membership\<close>) are called from both sides. The strict
  in-memory store (\<open>internal/teststore/store.go\<close>) implements the whole contract, and
  every component of the repository is tested against it: it is the executable statement
  of what a store does, and the part of the program whose state this development models
  in full.

  The theories, in the order of the code.
  \<^item> \<open>Prelude\<close>, \<open>Float64\<close>, \<open>Regexp\<close>, \<open>Json_Text\<close>: Go's bytes, maps (association lists with
    \<open>put\<close> and \<open>del\<close>), integers at their width, times and durations, the order of floats on
    their bit patterns, the regular expressions and the JSON grammar the code relies on.
  \<^item> \<open>Schema_Ids\<close>, \<open>Schema_Fields\<close>: \<open>schema/identifier.go\<close>; the fields, blocks, plugin
    envelopes, collections and traits of \<open>schema/manifest.go\<close>, \<open>block_registry.go\<close>, \<open>embedded.go\<close>.
  \<^item> \<open>Query_Paths\<close>, \<open>Query\<close>: \<open>query/path.go\<close>, \<open>value.go\<close>, \<open>expression.go\<close>, \<open>controls.go\<close>. The
    combinators are proved against the meaning of the expressions they build.
  \<^item> \<open>Value_List\<close>, \<open>Values\<close>, \<open>Value_Shape\<close>, \<open>Value_JSON\<close>: \<open>store/value_list.go\<close> (the radix tree
    of 32-wide nodes), \<open>value.go\<close>, \<open>population.go\<close>, \<open>document_id.go\<close>, \<open>value_json.go\<close>. The tree is
    a function of its contents; JSON decoding inverts encoding and always answers.
  \<^item> \<open>Json_Limit\<close>: \<open>internal/jsonlimit/jsonlimit.go\<close> over the tokens of \<open>encoding/json\<close>.
  \<^item> \<open>Requests\<close>: requests and page arithmetic of \<open>store/store.go\<close>.
  \<^item> \<open>Embedded\<close>, \<open>Population_Walk\<close>, \<open>Reference_Index\<close>, \<open>Localization\<close>, \<open>Locale_Merge\<close>,
    \<open>Projector\<close>, \<open>Membership\<close>: the packages of the same names under \<open>internal/\<close>. Their
    properties are in \<open>Embedded_Properties\<close>, \<open>Population_Properties\<close>, \<open>Reference_Properties\<close>
    and \<open>Projection_Properties\<close> (the cache of projections answers what projecting answers).
  \<^item> \<open>Block_Graph\<close>, \<open>Block_Walk\<close>: \<open>internal/blockgraph\<close>, the graph of the block definitions
    that a schema places and the walks over stored rows that it prunes. \<open>Block_Graph_Views\<close> and
    \<open>Block_Graph_Properties\<close> relate it to the schema; \<open>Block_Walk_Properties\<close> shows that the
    pruning loses no row.
  \<^item> \<open>Validation\<close>, \<open>Validation_Walk\<close>: \<open>internal/operation/validate.go\<close> and
    \<open>primitive_lists.go\<close>, the checks of each kind of field and the walk over members, rows,
    blocks and payloads. \<open>Validation_Properties\<close> gives values a type system (\<open>typed\<close> and
    \<open>conforms\<close>); \<open>Validation_Soundness\<close> and \<open>Validation_Typing\<close> show that what passes is typed.
  \<^item> \<open>Tasks\<close>, \<open>Task_Store\<close>, \<open>Task_Properties\<close>: \<open>store/task_validation.go\<close> and the durable task
    queue, as a step relation with its reachable states.
  \<^item> \<open>Backend\<close>: the record of the in-memory store. \<open>Auth_Store\<close>, \<open>Auth_Properties\<close>: the
    authentication state. \<open>Document_Locks\<close>: edit locks and preferences. \<open>Upload_Locks\<close>: the
    locks of upload objects, one step per channel operation, with any number of callers.
  \<^item> \<open>Lock_Queue\<close>, \<open>Lock_Waits\<close>, \<open>Lock_Wait_Properties\<close>: the queue of document locks of the
    MongoDB adapter (\<open>adapters/mongodb/lock_queue.go\<close>) and the locking loop of its transactions
    (\<open>fences.go\<close>), where the answers of the database are choices.
  \<^item> \<open>Query_Match\<close>, \<open>Uniqueness\<close>: the evaluation of queries and the uniqueness rules.
  \<^item> \<open>Transactions\<close>, \<open>Document_Writes\<close>, \<open>Document_Reads\<close>: the transaction record (a copy of
    the documents, published heads, versions and index, with what is to be applied at
    commit) and every method on it. A method is a function of the transaction and the store;
    an error is a value, and what a failing call leaves behind is what the code leaves.
  \<^item> \<open>Transaction_Properties\<close>, \<open>Transaction_System\<close>: the calls of a transaction as a step
    relation, and the system of any number of transactions whose calls interleave.
    \<open>Write_Cases\<close> gives the outcomes of each write once. \<open>Head_Properties\<close> and
    \<open>Unique_Properties\<close> interpret the locale \<open>document_invariant\<close> on the model.

  Interfaces. \<open>document_invariant\<close> (an invariant of documents that calls, copies and the
  empty store keep holds of the store and of every transaction, always) is interpreted by
  the published heads and by uniqueness; \<open>expiring_lookup\<close> by sessions, API keys and
  document locks; \<open>memo\<close> by the two questions of the projection cache and by
  the closures of the block graph; the other locales state the laws of lists, walks and task leases where
  their theories say.

  Parameters. \<open>text_rules\<close> stands for Unicode lower casing and the parsing of RFC 3339
  times, \<open>json_rules\<close> for \<open>strconv.FormatFloat\<close>, \<open>strconv.ParseFloat\<close> and \<open>time.MarshalJSON\<close>;
  the round trip states what it needs of them as \<open>strconv_rules\<close>. \<open>validation_rules\<close> stands
  for \<open>mail.ParseAddress\<close>, \<open>time.Parse\<close>, \<open>strconv.ParseFloat\<close> and the stored form of times,
  and for the validators that applications give their plugins. The comparison of backing
  stores in \<open>Projector\<close> is a parameter. Clocks and contexts are arguments. A map's
  iteration order is the order of its association list; where the code sorts or only
  collects, the answer does not depend on it.

  Bounds and fuel. The decoder takes \<open>json_fuel\<close> = twice the length of the text plus two
  calls, which \<open>Value_JSON_Termination\<close> proves is never used up. A closure in the block graph
  takes one call more than the graph has views, enough because a placed view is smaller than
  the one that places it. Nesting is bounded by
  10000 in JSON, by 64 levels, 10000 payloads and 100000 units of work in plugin envelopes,
  as in the code. Every other recursion is structural or has a termination proof.

  Not modelled. The operation engine (\<open>internal/operation\<close>) but for validation, and the configuration resolver
  (\<open>internal/config\<close>, \<open>field\<close>), which run code of applications; the adapters of PostgreSQL,
  SQLite and MongoDB but for the lock queue, whose behaviour rests on servers; HTTP, files, networks and the
  command line; code generation; plugins. Error texts are constructors with the data they
  mention. \<open>ApplyReferenceDelete\<close> is outside the relation under which uniqueness is proved;
  it is inside the one for published heads.
\<close>

end
